(* ===== verification/Prelude.thy ===== *)
theory Prelude
  imports Complex_Main "HOL-Library.AList" "HOL-Library.Code_Target_Nat"
begin

text \<open>
  Shared vocabulary of the development.

  \<^item> Python exceptions are values of \<open>exn\<close>, one constructor per exception class the modelled
    modules raise; a fallible function returns \<open>exn + 'a\<close> (\<open>'a result\<close>), and \<open>rbind\<close> runs a
    continuation when no exception was raised.  \<open>except X: raise Y\<close> is \<open>translate X Y\<close>.
  \<^item> A method that reads and writes \<open>self\<close> is a function from the state to a result and the state
    after the call, \<open>('s, 'a) operation\<close>: the second component is the object as a caller sees it
    after a normal return and also after an exception.
  \<^item> A \<open>dict\<close> is an association list with distinct keys in insertion order; \<open>AList.update\<close> keeps
    the place of an existing key and appends a new one, as Python does.
  \<^item> Text is a list of characters.  The white space and case tables below are those of ASCII text.
\<close>

named_theorems result_simps \<open>unfolding of result-valued computations that returned\<close>
named_theorems exact_simps \<open>value laws of the exact decimal operations\<close>

section \<open>Results\<close>

datatype exn =
    TypeError | ValueError | KeyError | IndexError | ZeroDivisionError | OverflowError
  | AssertionError
  | ExactDecimalError
  | ReservationConflict | InsufficientAvailable
  | AccountingConflict
  | OrderProjectionConflict
  | FinancingError | FinancingConflict
  | SettlementConflict
  | FxValuationError | PerpetualError
  | OptionError | InvalidOperation

type_synonym 'a result = "exn + 'a"

definition rbind :: "'a result \<Rightarrow> ('a \<Rightarrow> 'b result) \<Rightarrow> 'b result" where
  "rbind m f = (case m of Inl e \<Rightarrow> Inl e | Inr x \<Rightarrow> f x)"

definition translate :: "exn \<Rightarrow> exn \<Rightarrow> 'a result \<Rightarrow> 'a result" where
  "translate caught raised m =
     (case m of Inl e \<Rightarrow> Inl (if e = caught then raised else e) | Inr x \<Rightarrow> Inr x)"

definition require :: "bool \<Rightarrow> exn \<Rightarrow> unit result" where
  "require b e = (if b then Inr () else Inl e)"

fun rmap :: "('a \<Rightarrow> 'b result) \<Rightarrow> 'a list \<Rightarrow> 'b list result" where
  "rmap f [] = Inr []"
| "rmap f (x # xs) = rbind (f x) (\<lambda>y. rbind (rmap f xs) (\<lambda>ys. Inr (y # ys)))"

fun rfold :: "('s \<Rightarrow> 'a \<Rightarrow> 's result) \<Rightarrow> 's \<Rightarrow> 'a list \<Rightarrow> 's result" where
  "rfold f s [] = Inr s"
| "rfold f s (x # xs) = rbind (f s x) (\<lambda>s'. rfold f s' xs)"

definition opt_text :: "(string \<Rightarrow> string result) \<Rightarrow> string option \<Rightarrow> string option result" where
  "opt_text f v = (case v of None \<Rightarrow> Inr None | Some t \<Rightarrow> rbind (f t) (\<lambda>t'. Inr (Some t')))"

lemma rbind_simps [simp]: "rbind (Inl e) f = Inl e" "rbind (Inr x) f = f x"
  by (simp_all add: rbind_def)

lemma rbind_Inr_iff [simp, result_simps]:
  "rbind m f = Inr y \<longleftrightarrow> (\<exists>x. m = Inr x \<and> f x = Inr y)"
  by (cases m) auto

lemma rbind_Inl_iff:
  "rbind m f = Inl e \<longleftrightarrow> m = Inl e \<or> (\<exists>x. m = Inr x \<and> f x = Inl e)"
  by (cases m) auto

lemma rbind_cong [fundef_cong]:
  "m = m' \<Longrightarrow> (\<And>x. m' = Inr x \<Longrightarrow> f x = g x) \<Longrightarrow> rbind m f = rbind m' g"
  by (cases m') auto

lemma rbind_assoc: "rbind (rbind m f) g = rbind m (\<lambda>x. rbind (f x) g)"
  by (cases m) auto

lemma translate_simps [simp]:
  "translate a b (Inr x) = Inr x" "translate a b (Inl e) = Inl (if e = a then b else e)"
  by (simp_all add: translate_def)

lemma translate_Inr_iff [simp, result_simps]: "translate a b m = Inr x \<longleftrightarrow> m = Inr x"
  by (cases m) auto

lemma require_simps [simp]: "require True e = Inr ()" "require False e = Inl e"
  by (simp_all add: require_def)

lemma require_Inr_iff [simp, result_simps]: "require b e = Inr u \<longleftrightarrow> b"
  by (cases b) auto

lemma rmap_length: "rmap f xs = Inr ys \<Longrightarrow> length ys = length xs"
  by (induction xs arbitrary: ys) auto

lemma rmap_Inr_iff: "rmap f xs = Inr ys \<longleftrightarrow> list_all2 (\<lambda>x y. f x = Inr y) xs ys"
proof (induction xs arbitrary: ys)
  case Nil
  then show ?case by auto
next
  case (Cons x xs)
  then show ?case by (cases ys) auto
qed

lemma rmap_cong_all: "(\<And>x. x \<in> set xs \<Longrightarrow> f x = Inr (g x)) \<Longrightarrow> rmap f xs = Inr (map g xs)"
  by (induction xs) auto

lemma rmap_map: "rmap f (map g xs) = rmap (\<lambda>x. f (g x)) xs"
  by (induction xs) simp_all

lemma rfold_append: "rfold f s (xs @ ys) = rbind (rfold f s xs) (\<lambda>s'. rfold f s' ys)"
  by (induction xs arbitrary: s) (auto simp: rbind_assoc)

lemma rfold_invariant:
  assumes "rfold f s xs = Inr s'" and "P s"
    and "\<And>t x t'. x \<in> set xs \<Longrightarrow> P t \<Longrightarrow> f t x = Inr t' \<Longrightarrow> P t'"
  shows "P s'"
  using assms
proof (induction xs arbitrary: s)
  case (Cons x xs)
  then obtain t where "f s x = Inr t" "rfold f t xs = Inr s'" by auto
  with Cons show ?case by (meson list.set_intros)
qed simp

lemma opt_text_simps [simp]:
  "opt_text f None = Inr None" "opt_text f (Some t) = rbind (f t) (\<lambda>t'. Inr (Some t'))"
  by (simp_all add: opt_text_def)

section \<open>Methods: state and result\<close>

type_synonym ('s, 'a) operation = "'s \<Rightarrow> 'a result \<times> 's"

definition raising :: "'a result \<Rightarrow> ('a \<Rightarrow> ('s, 'b) operation) \<Rightarrow> ('s, 'b) operation" where
  "raising m f s = (case m of Inl e \<Rightarrow> (Inl e, s) | Inr x \<Rightarrow> f x s)"

lemma raising_simps [simp]:
  "raising (Inl e) f s = (Inl e, s)" "raising (Inr x) f s = f x s"
  by (simp_all add: raising_def)

lemma raising_returns [simp, result_simps]:
  "raising m f s = (Inr y, s') \<longleftrightarrow> (\<exists>x. m = Inr x \<and> f x s = (Inr y, s'))"
  by (cases m) auto

lemma raising_raises:
  "raising m f s = (Inl e, s') \<longleftrightarrow>
     (m = Inl e \<and> s' = s) \<or> (\<exists>x. m = Inr x \<and> f x s = (Inl e, s'))"
  by (cases m) auto

text \<open>A method seen at another result type.\<close>

definition gives :: "('a \<Rightarrow> 'b) \<Rightarrow> ('s, 'a) operation \<Rightarrow> ('s, 'b) operation" where
  "gives f m s = (case m s of (r, s') \<Rightarrow> (map_sum id f r, s'))"

lemma snd_gives [simp]: "snd (gives f m s) = snd (m s)"
  by (simp add: gives_def split: prod.splits)

lemma gives_returns [simp]: "gives f m s = (Inr y, s') \<longleftrightarrow> (\<exists>x. m s = (Inr x, s') \<and> y = f x)"
  by (cases "m s"; cases "fst (m s)") (auto simp: gives_def)

lemma gives_raises [simp]: "gives f m s = (Inl e, s') \<longleftrightarrow> m s = (Inl e, s')"
  by (cases "m s"; cases "fst (m s)") (auto simp: gives_def)

text \<open>A method is atomic when an exception leaves the object as it was.\<close>

definition atomic :: "('s, 'a) operation \<Rightarrow> bool" where
  "atomic f \<longleftrightarrow> (\<forall>s e s'. f s = (Inl e, s') \<longrightarrow> s' = s)"

lemma atomicI: "(\<And>s e s'. f s = (Inl e, s') \<Longrightarrow> s' = s) \<Longrightarrow> atomic f"
  by (auto simp: atomic_def)

lemma atomicD: "atomic f \<Longrightarrow> f s = (Inl e, s') \<Longrightarrow> s' = s"
  by (auto simp: atomic_def)

lemma atomic_raising: "(\<And>x. m = Inr x \<Longrightarrow> atomic (f x)) \<Longrightarrow> atomic (raising m f)"
  by (cases m) (auto simp: atomic_def raising_def)

lemma atomic_pure [simp]: "atomic (Pair r)" "atomic (\<lambda>s. (r, s))"
  by (auto simp: atomic_def)

lemma atomic_return [simp]: "atomic (\<lambda>s. (Inr (f s), g s))"
  by (auto simp: atomic_def)

section \<open>Dictionaries\<close>

type_synonym ('k, 'v) dict = "('k \<times> 'v) list"

abbreviation dict_get :: "('k, 'v) dict \<Rightarrow> 'k \<Rightarrow> 'v option" where
  "dict_get \<equiv> map_of"

abbreviation dict_keys :: "('k, 'v) dict \<Rightarrow> 'k list" where
  "dict_keys d \<equiv> map fst d"

abbreviation dict_values :: "('k, 'v) dict \<Rightarrow> 'v list" where
  "dict_values d \<equiv> map snd d"

definition dict_set :: "('k, 'v) dict \<Rightarrow> 'k \<Rightarrow> 'v \<Rightarrow> ('k, 'v) dict" where
  "dict_set d k v = AList.update k v d"

definition dict_ok :: "('k, 'v) dict \<Rightarrow> bool" where
  "dict_ok d \<longleftrightarrow> distinct (dict_keys d)"

lemma dict_get_set [simp]: "dict_get (dict_set d k v) = (dict_get d)(k \<mapsto> v)"
  by (simp add: dict_set_def update_conv')

lemma dict_ok_Nil [simp]: "dict_ok []"
  by (simp add: dict_ok_def)

lemma dict_ok_set [simp]: "dict_ok d \<Longrightarrow> dict_ok (dict_set d k v)"
  by (simp add: dict_ok_def dict_set_def distinct_update)

lemma dict_keys_set:
  "dict_keys (dict_set d k v) = (if k \<in> set (dict_keys d) then dict_keys d else dict_keys d @ [k])"
  by (auto simp: dict_set_def update_keys)

lemma set_dict_keys_set [simp]: "set (dict_keys (dict_set d k v)) = insert k (set (dict_keys d))"
  by (simp only: dict_keys_set) auto

lemma fst_dict_set [simp]: "fst ` set (dict_set d k v) = insert k (fst ` set d)"
  using set_dict_keys_set [of d k v] by simp

lemma dict_get_None_iff: "dict_get d k = None \<longleftrightarrow> k \<notin> set (dict_keys d)"
  by (simp add: map_of_eq_None_iff image_iff)

lemma dict_set_new: "dict_get d k = None \<Longrightarrow> dict_set d k v = d @ [(k, v)]"
  by (induction d) (auto simp: dict_set_def split: if_splits)

lemma dict_set_split:
  assumes "dict_ok d" and "dict_get d k = Some v0"
  obtains d1 d2 where "d = d1 @ (k, v0) # d2" and "dict_set d k v = d1 @ (k, v) # d2"
    and "k \<notin> set (dict_keys d1)" and "k \<notin> set (dict_keys d2)"
proof -
  have "\<exists>d1 d2. d = d1 @ (k, v0) # d2 \<and> dict_set d k v = d1 @ (k, v) # d2
      \<and> k \<notin> set (dict_keys d1) \<and> k \<notin> set (dict_keys d2)"
    using assms
  proof (induction d)
    case (Cons p d)
    obtain a b where p: "p = (a, b)" by force
    show ?case
    proof (cases "a = k")
      case True
      with Cons.prems p show ?thesis
        by (intro exI [of _ "[]"] exI [of _ d]) (auto simp: dict_set_def dict_ok_def image_iff)
    next
      case False
      with Cons p obtain d1 d2 where
        "d = d1 @ (k, v0) # d2" "dict_set d k v = d1 @ (k, v) # d2"
        "k \<notin> set (dict_keys d1)" "k \<notin> set (dict_keys d2)"
        by (auto simp: dict_ok_def)
      with False p show ?thesis
        by (intro exI [of _ "p # d1"] exI [of _ d2]) (auto simp: dict_set_def)
    qed
  qed simp
  then show thesis using that by blast
qed

text \<open>The sum of a quantity over the values of a dictionary moves with one entry.\<close>

lemma sum_dict_set:
  fixes f :: "'k \<times> 'v \<Rightarrow> 'a::ab_group_add"
  assumes "dict_ok d" and "dict_get d k = Some v0"
  shows "sum_list (map f (dict_set d k v)) = sum_list (map f d) - f (k, v0) + f (k, v)"
proof -
  from assms obtain d1 d2 where "d = d1 @ (k, v0) # d2" "dict_set d k v = d1 @ (k, v) # d2"
    by (rule dict_set_split)
  then show ?thesis by (simp add: algebra_simps)
qed

lemma sum_list_nonneg_map:
  fixes f :: "'a \<Rightarrow> 'b::ordered_comm_monoid_add"
  shows "(\<And>y. y \<in> set xs \<Longrightarrow> 0 \<le> f y) \<Longrightarrow> 0 \<le> sum_list (map f xs)"
  by (induction xs) (auto intro: add_nonneg_nonneg)

lemma sum_list_member_le:
  fixes f :: "'a \<Rightarrow> 'b::ordered_comm_monoid_add"
  assumes "x \<in> set xs" and "\<And>y. y \<in> set xs \<Longrightarrow> 0 \<le> f y"
  shows "f x \<le> sum_list (map f xs)"
  using assms
proof (induction xs)
  case (Cons y ys)
  show ?case
  proof (cases "x = y")
    case True
    have "f y + 0 \<le> f y + sum_list (map f ys)"
      using Cons.prems by (intro add_left_mono sum_list_nonneg_map) auto
    with True show ?thesis by simp
  next
    case False
    then have "f x \<le> sum_list (map f ys)" using Cons by auto
    then have "0 + f x \<le> f y + sum_list (map f ys)" using Cons.prems by (intro add_mono) auto
    then show ?thesis by simp
  qed
qed simp

lemma dict_set_self: "dict_get d k = Some v \<Longrightarrow> dict_set d k v = d"
  by (induction d) (auto simp: dict_set_def)

text \<open>\<open>d[k]\<close>, and the equality of two mappings whose values compare by \<open>eq\<close>.\<close>

definition dict_lookup :: "('k, 'v) dict \<Rightarrow> 'k \<Rightarrow> 'v result" where
  "dict_lookup d k = (case dict_get d k of None \<Rightarrow> Inl KeyError | Some v \<Rightarrow> Inr v)"

definition dict_same :: "('v \<Rightarrow> 'w \<Rightarrow> bool) \<Rightarrow> ('k, 'v) dict \<Rightarrow> ('k, 'w) dict \<Rightarrow> bool" where
  "dict_same eq d e \<longleftrightarrow> length d = length e \<and>
     list_all (\<lambda>(k, v). case dict_get e k of None \<Rightarrow> False | Some w \<Rightarrow> eq v w) d"

lemma dict_lookup_Inr_iff [simp, result_simps]: "dict_lookup d k = Inr v \<longleftrightarrow> dict_get d k = Some v"
  by (simp add: dict_lookup_def split: option.splits)

lemma dict_lookup_Inl_iff: "dict_lookup d k = Inl e \<longleftrightarrow> e = KeyError \<and> dict_get d k = None"
  by (auto simp: dict_lookup_def split: option.splits)

lemma dict_get_mem: "dict_get d k = Some v \<Longrightarrow> (k, v) \<in> set d"
  by (rule map_of_SomeD)

lemma dict_mem_get: "dict_ok d \<Longrightarrow> (k, v) \<in> set d \<Longrightarrow> dict_get d k = Some v"
  by (simp add: dict_ok_def)

lemma dict_get_map_keys:
  "dict_get (map (\<lambda>(k, v). (k, f k v)) d) k = map_option (f k) (dict_get d k)"
  by (induction d) auto

lemma dict_get_keys: "k \<in> set (dict_keys d) \<Longrightarrow> \<exists>v. dict_get d k = Some v"
  by (cases "dict_get d k") (simp_all add: dict_get_None_iff)

lemma dict_keys_set_same: "k \<in> set (dict_keys d) \<Longrightarrow> dict_keys (dict_set d k v) = dict_keys d"
  by (simp add: dict_keys_set)

lemma dict_ok_snoc: "dict_ok d \<Longrightarrow> dict_get d k = None \<Longrightarrow> dict_ok (d @ [(k, v)])"
  using dict_ok_set [of d k v] by (simp add: dict_set_new)

lemma list_all_dict_set: "list_all P d \<Longrightarrow> P (k, v) \<Longrightarrow> list_all P (dict_set d k v)"
  by (induction d) (auto simp: dict_set_def)

text \<open>A dictionary built from distinct keys, and one read in the order of its keys.\<close>

lemma dict_of_distinct:
  assumes "distinct (map key xs)"
  shows "foldl (\<lambda>d x. dict_set d (key x) (val x)) [] xs = map (\<lambda>x. (key x, val x)) xs"
  using assms
proof (induction xs rule: rev_induct)
  case (snoc x xs)
  then have "dict_get (map (\<lambda>x. (key x, val x)) xs) (key x) = None"
    by (simp only: dict_get_None_iff) (auto simp: comp_def)
  with snoc show ?case by (simp add: dict_set_new)
qed simp

lemma sorted_keys_distinct: "dict_ok d \<Longrightarrow> distinct (map fst (sort_key fst d))"
proof -
  assume d: "dict_ok d"
  have "set (map fst (sort_key fst d)) = set (map fst d)" "length (sort_key fst d) = length d" by simp_all
  then show ?thesis
    by (intro card_distinct) (simp only: distinct_card [OF d [unfolded dict_ok_def]] length_map)
qed

lemma dict_get_sort: "dict_ok d \<Longrightarrow> dict_get (sort_key fst d) = dict_get d"
  using sorted_keys_distinct [of d] by (simp add: dict_ok_def map_of_inject_set)

section \<open>Histories of calls\<close>

text \<open>
  An object in use: a sequence of calls, each of which returns or raises.  \<open>after\<close> is the object
  once the calls have been made.
\<close>

definition after :: "('c \<Rightarrow> ('s, 'r) operation) \<Rightarrow> 's \<Rightarrow> 'c list \<Rightarrow> 's" where
  "after run s calls = foldl (\<lambda>s c. snd (run c s)) s calls"

lemma after_simps [simp]:
  "after run s [] = s" "after run s (c # cs) = after run (snd (run c s)) cs"
  by (simp_all add: after_def)

lemma after_append: "after run s (xs @ ys) = after run (after run s xs) ys"
  by (simp add: after_def)

text \<open>What the calls answered, in order.\<close>

fun replies :: "('c \<Rightarrow> ('s, 'r) operation) \<Rightarrow> 's \<Rightarrow> 'c list \<Rightarrow> 'r result list" where
  "replies run s [] = []"
| "replies run s (c # cs) = fst (run c s) # replies run (snd (run c s)) cs"

lemma length_replies [simp]: "length (replies run s cs) = length cs"
  by (induction cs arbitrary: s) auto

lemma replies_append: "replies run s (xs @ ys) = replies run s xs @ replies run (after run s xs) ys"
  by (induction xs arbitrary: s) auto

text \<open>The contract of an object whose methods keep an invariant, also when they raise.\<close>

locale stateful_object =
  fixes run :: "'c \<Rightarrow> ('s, 'r) operation" and inv :: "'s \<Rightarrow> bool"
  assumes inv_step: "inv s \<Longrightarrow> inv (snd (run c s))"
begin

lemma inv_after_from: "inv s \<Longrightarrow> inv (after run s calls)"
  by (induction calls arbitrary: s) (auto intro: inv_step)

end

text \<open>An object whose calls also respect an order on its states, for instance what a later state may
  no longer change.\<close>

locale monotone_object = stateful_object +
  fixes le :: "'b \<Rightarrow> 'b \<Rightarrow> bool"
  assumes le_refl: "le s s" and le_trans: "le s t \<Longrightarrow> le t u \<Longrightarrow> le s u"
    and le_step: "inv s \<Longrightarrow> le s (snd (run c s))"
begin

lemma le_after_from: "inv s \<Longrightarrow> le s (after run s calls)"
proof (induction calls arbitrary: s)
  case (Cons c calls)
  then show ?case using le_step [of s c] inv_step [of s c] le_trans by fastforce
qed (simp add: le_refl)

end

text \<open>The same contracts where every method is atomic and the object starts in \<open>init\<close>: a returning
  call keeps the invariant and the order, and a raising one is invisible.\<close>

locale atomic_object =
  fixes run :: "'c \<Rightarrow> ('s, 'r) operation" and init :: 's and inv :: "'s \<Rightarrow> bool"
  assumes inv_init: "inv init"
    and inv_return: "inv s \<Longrightarrow> run c s = (Inr r, s') \<Longrightarrow> inv s'"
    and run_atomic: "atomic (run c)"
begin

lemma run_cases:
  obtains r s' where "run c s = (Inr r, s')" | e where "run c s = (Inl e, s)"
  using atomicD [OF run_atomic] by (cases "run c s"; cases "fst (run c s)") fastforce+

lemma inv_call: "inv s \<Longrightarrow> inv (snd (run c s))"
  by (rule run_cases [of c s]) (auto dest: inv_return)

lemma failed_call_invisible:
  assumes "run c (after run s xs) = (Inl e, t)"
  shows "after run s (xs @ c # ys) = after run s (xs @ ys)"
  using atomicD [OF run_atomic assms] assms by (simp add: after_append)

end

sublocale atomic_object \<subseteq> stateful_object
  by unfold_locales (fact inv_call)

context atomic_object
begin

lemma inv_after: "inv (after run init calls)"
  by (rule inv_after_from [OF inv_init])

end

locale ordered_object = atomic_object +
  fixes le :: "'b \<Rightarrow> 'b \<Rightarrow> bool"
  assumes le_reflexive: "le s s" and le_transitive: "le s t \<Longrightarrow> le t u \<Longrightarrow> le s u"
    and le_return: "inv s \<Longrightarrow> run c s = (Inr r, s') \<Longrightarrow> le s s'"
begin

lemma le_call: "inv s \<Longrightarrow> le s (snd (run c s))"
  by (rule run_cases [of c s]) (auto dest: le_return intro: le_reflexive)

end

sublocale ordered_object \<subseteq> monotone_object
  by unfold_locales (fact le_reflexive, fact le_transitive, fact le_call)

context ordered_object
begin

lemma le_after: "le (after run init xs) (after run init (xs @ ys))"
  unfolding after_append by (rule le_after_from [OF inv_after])

end

section \<open>Text\<close>

definition is_space :: "char \<Rightarrow> bool" where
  "is_space c \<longleftrightarrow> (let n = (of_char c :: nat) in (9 \<le> n \<and> n \<le> 13) \<or> (28 \<le> n \<and> n \<le> 32))"

definition lstrip_by :: "(char \<Rightarrow> bool) \<Rightarrow> string \<Rightarrow> string" where
  "lstrip_by P s = dropWhile P s"

definition rstrip_by :: "(char \<Rightarrow> bool) \<Rightarrow> string \<Rightarrow> string" where
  "rstrip_by P s = rev (dropWhile P (rev s))"

definition strip :: "string \<Rightarrow> string" where
  "strip s = rstrip_by is_space (lstrip_by is_space s)"

definition to_upper :: "char \<Rightarrow> char" where
  "to_upper c = (let n = (of_char c :: nat) in if 97 \<le> n \<and> n \<le> 122 then char_of (n - 32) else c)"

definition upper :: "string \<Rightarrow> string" where
  "upper s = map to_upper s"

lemma rstrip_by_Nil_iff: "rstrip_by P s = [] \<longleftrightarrow> (\<forall>c \<in> set s. P c)"
  by (simp add: rstrip_by_def)

lemma rstrip_by_id: "s = [] \<or> \<not> P (last s) \<Longrightarrow> rstrip_by P s = s"
  by (cases s rule: rev_cases) (auto simp: rstrip_by_def)

lemma rstrip_by_prefix: "\<exists>t. s = rstrip_by P s @ t \<and> (\<forall>c \<in> set t. P c)"
  by (rule exI [of _ "rev (takeWhile P (rev s))"])
    (auto simp: rstrip_by_def dest: set_takeWhileD simp flip: rev_append)

lemma rstrip_by_last: "rstrip_by P s \<noteq> [] \<Longrightarrow> \<not> P (last (rstrip_by P s))"
  unfolding rstrip_by_def by (subst last_rev) (rule hd_dropWhile, simp)

lemma strip_ends:
  assumes "strip s \<noteq> []"
  shows "\<not> is_space (hd (strip s))" and "\<not> is_space (last (strip s))"
proof -
  let ?l = "lstrip_by is_space s"
  obtain t where t: "?l = strip s @ t"
    using rstrip_by_prefix [of ?l is_space] by (auto simp: strip_def)
  with assms have ne: "?l \<noteq> []" by auto
  then have "\<not> is_space (hd ?l)"
    unfolding lstrip_by_def by (rule hd_dropWhile)
  moreover have "hd ?l = hd (strip s)"
    using assms t by (metis hd_append2)
  ultimately show "\<not> is_space (hd (strip s))" by simp
  show "\<not> is_space (last (strip s))"
    using assms unfolding strip_def by (rule rstrip_by_last)
qed

text \<open>Normalised text is a fixed point of \<open>strip\<close>.\<close>

lemma strip_id: "s = [] \<or> (\<not> is_space (hd s) \<and> \<not> is_space (last s)) \<Longrightarrow> strip s = s"
  by (cases s) (auto simp: strip_def lstrip_by_def rstrip_by_id)

lemma strip_strip [simp]: "strip (strip s) = strip s"
  by (rule strip_id) (use strip_ends [of s] in auto)

text \<open>Upper case and stripping commute, and both are idempotent.\<close>

lemma is_space_upper [simp]: "is_space (to_upper c) = is_space c"
  by (auto simp: is_space_def to_upper_def Let_def)

lemma to_upper_upper [simp]: "to_upper (to_upper c) = to_upper c"
  by (auto simp: to_upper_def Let_def)

lemma upper_upper [simp]: "upper (upper s) = upper s"
  by (simp add: upper_def)

lemma strip_upper: "strip (upper s) = upper (strip s)"
  by (simp add: strip_def lstrip_by_def rstrip_by_def upper_def dropWhile_map comp_def rev_map)

lemma upper_Nil_iff [simp]: "upper s = [] \<longleftrightarrow> s = []"
  by (simp add: upper_def)

end
