(* ===== verification/Exact_Decimal.thy ===== *)
theory Exact_Decimal
  imports Prelude
begin

text \<open>
  The exact numeric authority: \<open>autotrade_numeric/exact_decimal.py\<close>, with the wire grammar of
  \<open>autotrade_numeric/_generated_common_scalars.py\<close> and the limits of
  \<open>_generated_decimal_limits.py\<close>.

  A finite \<open>decimal.Decimal\<close> is its sign, its coefficient and its exponent (the triple CPython
  keeps); \<open>as_tuple\<close> gives the coefficient as its decimal digits.  \<open>Fraction\<close> is \<^typ>\<open>rat\<close>,
  whose \<open>quotient_of\<close> is the pair of the lowest-terms numerator and the positive denominator.
  \<open>dval\<close> is the rational value of a finite Decimal; comparisons of Decimals in Python are
  comparisons of these values.  The theorems say that whatever an operation returns has exactly
  the value of the mathematical operation, that the envelope checks are the digit bounds they
  claim to be, and that the text of a bounded Decimal parses back to the same value.
\<close>

section \<open>Limits and data\<close>

definition MAX_DECIMAL_TEXT_LENGTH :: nat where "MAX_DECIMAL_TEXT_LENGTH = 259"
definition MAX_SIGNIFICANT_DIGITS :: nat where "MAX_SIGNIFICANT_DIGITS = 256"
definition MAX_SCALE :: nat where "MAX_SCALE = 256"
definition MAX_INTEGER_DIGITS :: nat where "MAX_INTEGER_DIGITS = 256"
definition MAX_RATIONAL_DIGITS :: nat where "MAX_RATIONAL_DIGITS = 1024"

lemmas decimal_limits =
  MAX_DECIMAL_TEXT_LENGTH_def MAX_SIGNIFICANT_DIGITS_def MAX_SCALE_def MAX_INTEGER_DIGITS_def

datatype decimal = Decimal (dsign: bool) (dcoeff: nat) (dexp: int) | NaN | Infinity bool

text \<open>What a caller may pass where the source accepts \<open>Decimal | str | int\<close>.\<close>

datatype pynum =
  PyDecimal decimal | PyInt int | PyStr string | PyBool bool | PyFloat | PyOther

datatype rounding_mode = FLOOR | CEILING | HALF_EVEN

abbreviation dzero :: decimal where "dzero \<equiv> Decimal False 0 0"

fun dval :: "decimal \<Rightarrow> rat" where
  "dval (Decimal s c e) = (if s then - of_nat c else of_nat c) * 10 powi e"
| "dval _ = 0"

fun digits_of :: "nat \<Rightarrow> nat list" where
  "digits_of n = (if n < 10 then [n] else digits_of (n div 10) @ [n mod 10])"

declare digits_of.simps [simp del]

definition nat_of_digits :: "nat list \<Rightarrow> nat" where
  "nat_of_digits ds = foldl (\<lambda>c d. c * 10 + d) 0 ds"

fun as_tuple :: "decimal \<Rightarrow> (bool \<times> nat list \<times> int) option" where
  "as_tuple (Decimal s c e) = Some (s, digits_of c, e)"
| "as_tuple _ = None"

section \<open>Digit counts and envelopes\<close>

fun bit_length :: "nat \<Rightarrow> nat" where
  "bit_length n = (if n = 0 then 0 else Suc (bit_length (n div 2)))"

declare bit_length.simps [simp del]

fun count_digits :: "nat \<Rightarrow> nat \<Rightarrow> nat \<Rightarrow> nat" where
  "count_digits limit number count =
     (if number = 0 then count
      else if limit < count + 1 then count + 1
      else count_digits limit (number div 10) (count + 1))"

declare count_digits.simps [simp del]

definition integer_digit_count :: "int \<Rightarrow> nat \<Rightarrow> nat" where
  "integer_digit_count value limit =
     (let number = nat \<bar>value\<bar> in
      if number = 0 then 1
      else if limit * 4 + 1 < bit_length number then limit + 1
      else count_digits limit number 0)"

definition validate_decimal_envelope :: "decimal \<Rightarrow> (bool \<times> nat list \<times> int) result" where
  "validate_decimal_envelope v =
     (case as_tuple v of
        None \<Rightarrow> Inl ExactDecimalError
      | Some (sign, digits, exponent) \<Rightarrow>
          if list_all (\<lambda>d. d = 0) digits then Inr (sign, [0], 0)
          else
            let digit_count = length digits in
            if MAX_SIGNIFICANT_DIGITS < digit_count then Inl ExactDecimalError
            else if exponent < - int MAX_SCALE then Inl ExactDecimalError
            else if int MAX_INTEGER_DIGITS < max (int digit_count + exponent) 0
              then Inl ExactDecimalError
            else Inr (sign, digits, exponent))"

definition validate_fraction_intermediate :: "rat \<Rightarrow> unit result" where
  "validate_fraction_intermediate q =
     (let (numerator, denominator) = quotient_of q in
      if MAX_RATIONAL_DIGITS < integer_digit_count numerator MAX_RATIONAL_DIGITS
        then Inl ExactDecimalError
      else if MAX_RATIONAL_DIGITS < integer_digit_count denominator MAX_RATIONAL_DIGITS
        then Inl ExactDecimalError
      else Inr ())"

definition bounded_fraction :: "rat \<Rightarrow> rat result" where
  "bounded_fraction q = rbind (validate_fraction_intermediate q) (\<lambda>_. Inr q)"

definition as_fraction :: "decimal \<Rightarrow> rat result" where
  "as_fraction v =
     rbind (validate_decimal_envelope v) (\<lambda>(sign, digits, exponent).
       let coefficient = int (nat_of_digits digits);
           coefficient = (if sign then - coefficient else coefficient)
       in if coefficient = 0 then Inr 0
          else
            let q = (if 0 \<le> exponent then of_int (coefficient * 10 ^ nat exponent)
                     else of_int coefficient / of_int (10 ^ nat (- exponent)))
            in rbind (validate_fraction_intermediate q) (\<lambda>_. Inr q))"

section \<open>Construction from exact rationals\<close>

text \<open>The two loops that divide the denominator by 2 and by 5.\<close>

function strip_factor :: "int \<Rightarrow> int \<Rightarrow> nat \<Rightarrow> (int \<times> nat) result" where
  "strip_factor p d k =
     (if d mod p = 0
      then if MAX_SCALE < k + 1 then Inl ExactDecimalError else strip_factor p (d div p) (k + 1)
      else Inr (d, k))"
  by pat_completeness auto
termination
  by (relation "measure (\<lambda>(p, d, k). Suc MAX_SCALE - k)") auto

declare strip_factor.simps [simp del]

fun reversed_digits :: "nat \<Rightarrow> nat list" where
  "reversed_digits n = (if n = 0 then [] else n mod 10 # reversed_digits (n div 10))"

declare reversed_digits.simps [simp del]

definition decimal_from_scaled_integer :: "int \<Rightarrow> nat \<Rightarrow> decimal result" where
  "decimal_from_scaled_integer coefficient scale =
     (if MAX_SCALE < scale then Inl ExactDecimalError
      else if coefficient = 0 then Inr dzero
      else
        let absolute = \<bar>coefficient\<bar>;
            digit_count = integer_digit_count absolute MAX_SIGNIFICANT_DIGITS
        in if MAX_SIGNIFICANT_DIGITS < digit_count then Inl ExactDecimalError
           else if MAX_INTEGER_DIGITS < digit_count - scale then Inl ExactDecimalError
           else
             let digits = rev (reversed_digits (nat absolute))
             in Inr (Decimal (coefficient < 0) (nat_of_digits digits) (- int scale)))"

definition terminating_decimal :: "rat \<Rightarrow> decimal result" where
  "terminating_decimal q =
     rbind (validate_fraction_intermediate q) (\<lambda>_.
       let (numerator, denominator) = quotient_of q in
       rbind (strip_factor 2 denominator 0) (\<lambda>(denominator, powers_of_two).
       rbind (strip_factor 5 denominator 0) (\<lambda>(denominator, powers_of_five).
         if denominator \<noteq> 1 then Inl ExactDecimalError
         else
           let scale = max powers_of_two powers_of_five;
               coefficient = numerator * 2 ^ (scale - powers_of_two) * 5 ^ (scale - powers_of_five)
           in decimal_from_scaled_integer coefficient scale)))"

section \<open>Exact arithmetic\<close>

definition exact_abs :: "decimal \<Rightarrow> decimal result" where
  "exact_abs v = rbind (as_fraction v) (\<lambda>q. terminating_decimal \<bar>q\<bar>)"

definition exact_add :: "decimal \<Rightarrow> decimal \<Rightarrow> decimal result" where
  "exact_add left right =
     rbind (as_fraction left) (\<lambda>l. rbind (as_fraction right) (\<lambda>r.
       rbind (validate_fraction_intermediate (l + r)) (\<lambda>_. terminating_decimal (l + r))))"

definition exact_subtract :: "decimal \<Rightarrow> decimal \<Rightarrow> decimal result" where
  "exact_subtract left right =
     rbind (as_fraction left) (\<lambda>l. rbind (as_fraction right) (\<lambda>r.
       rbind (validate_fraction_intermediate (l - r)) (\<lambda>_. terminating_decimal (l - r))))"

definition exact_multiply :: "decimal list \<Rightarrow> decimal result" where
  "exact_multiply vs =
     rbind (rfold (\<lambda>acc v. rbind (as_fraction v) (\<lambda>q.
         rbind (validate_fraction_intermediate (acc * q)) (\<lambda>_. Inr (acc * q)))) 1 vs)
       terminating_decimal"

definition exact_sum :: "decimal list \<Rightarrow> decimal result" where
  "exact_sum vs =
     rbind (as_fraction dzero) (\<lambda>start.
     rbind (rfold (\<lambda>acc v. rbind (as_fraction v) (\<lambda>q.
         rbind (validate_fraction_intermediate (acc + q)) (\<lambda>_. Inr (acc + q)))) start vs)
       terminating_decimal)"

definition is_exact_decimal_multiple :: "decimal \<Rightarrow> decimal \<Rightarrow> bool result" where
  "is_exact_decimal_multiple v quantum =
     rbind (as_fraction v) (\<lambda>vf. rbind (as_fraction quantum) (\<lambda>qf.
       if qf \<le> 0 then Inl ExactDecimalError
       else let units = vf / qf in
         rbind (validate_fraction_intermediate units) (\<lambda>_. Inr (snd (quotient_of units) = 1))))"

definition round_units :: "rat \<Rightarrow> rounding_mode \<Rightarrow> int" where
  "round_units units mode =
     (let (n, d) = quotient_of units; floor_units = n div d in
      case mode of
        FLOOR \<Rightarrow> floor_units
      | CEILING \<Rightarrow> - ((- n) div d)
      | HALF_EVEN \<Rightarrow>
          let doubled = (n - floor_units * d) * 2 in
          if doubled < d then floor_units
          else if d < doubled then floor_units + 1
          else if floor_units mod 2 = 0 then floor_units else floor_units + 1)"

definition round_fraction_to_quantum :: "rat \<Rightarrow> decimal \<Rightarrow> rounding_mode \<Rightarrow> decimal result" where
  "round_fraction_to_quantum q quantum mode =
     rbind (validate_fraction_intermediate q) (\<lambda>_. rbind (as_fraction quantum) (\<lambda>qf.
       if qf \<le> 0 then Inl ExactDecimalError
       else let units = q / qf in
         rbind (validate_fraction_intermediate units) (\<lambda>_.
           let rounded = qf * of_int (round_units units mode) in
           rbind (validate_fraction_intermediate rounded) (\<lambda>_. terminating_decimal rounded))))"

section \<open>What the checks mean\<close>

text \<open>The value bounds behind the envelope checks, and the decimals' common denominators.\<close>

definition rat_bounded :: "rat \<Rightarrow> bool" where
  "rat_bounded q \<longleftrightarrow> \<bar>fst (quotient_of q)\<bar> < 10 ^ MAX_RATIONAL_DIGITS
     \<and> snd (quotient_of q) < 10 ^ MAX_RATIONAL_DIGITS"

definition in_envelope :: "decimal \<Rightarrow> bool" where
  "in_envelope d = (case d of
      Decimal s c e \<Rightarrow> c = 0 \<or>
        (length (digits_of c) \<le> MAX_SIGNIFICANT_DIGITS \<and> - int MAX_SCALE \<le> e
         \<and> int (length (digits_of c)) + e \<le> int MAX_INTEGER_DIGITS)
    | _ \<Rightarrow> False)"

fun scaled :: "decimal \<Rightarrow> int \<times> nat" where
  "scaled (Decimal s c e) =
     ((if s then -1 else 1) * int c * 10 ^ nat e, nat (- e))"
| "scaled _ = (0, 0)"

definition representable :: "rat \<Rightarrow> bool" where
  "representable q \<longleftrightarrow> (\<exists>d. in_envelope d \<and> dval d = q)"

section \<open>Digits\<close>

lemma nat_of_digits_append: "nat_of_digits (ds @ [d]) = nat_of_digits ds * 10 + d"
  by (simp add: nat_of_digits_def)

lemma nat_of_digits_simple [simp]: "nat_of_digits [] = 0" "nat_of_digits [d] = d"
  by (simp_all add: nat_of_digits_def)

lemma nat_of_digits_of [simp]: "nat_of_digits (digits_of n) = n"
proof (induction n rule: digits_of.induct)
  case (1 n)
  then show ?case by (subst digits_of.simps) (simp add: nat_of_digits_append)
qed

lemma digits_of_small: "d \<in> set (digits_of n) \<Longrightarrow> d < 10"
proof (induction n rule: digits_of.induct)
  case (1 n)
  then show ?case by (subst (asm) digits_of.simps) (auto split: if_splits)
qed

lemma digits_of_nonempty [simp]: "digits_of n \<noteq> []"
  by (subst digits_of.simps) simp

lemma length_digits_of_pos [simp]: "0 < length (digits_of n)"
  by simp

lemma length_digits_of: "0 < k \<Longrightarrow> length (digits_of n) \<le> k \<longleftrightarrow> n < 10 ^ k"
proof (induction n arbitrary: k rule: digits_of.induct)
  case (1 n)
  show ?case
  proof (cases "n < 10")
    case True
    have "(10::nat) ^ 1 \<le> 10 ^ k" using "1.prems" by (intro power_increasing) auto
    with True "1.prems" show ?thesis by (subst digits_of.simps) auto
  next
    case False
    obtain j where k: "k = Suc j" using "1.prems" by (cases k) auto
    have eq: "length (digits_of n) = Suc (length (digits_of (n div 10)))"
      using False by (subst digits_of.simps) simp
    show ?thesis
    proof (cases "j = 0")
      case True
      with False k eq show ?thesis by (cases "digits_of (n div 10)") auto
    next
      case j: False
      then have "length (digits_of (n div 10)) \<le> j \<longleftrightarrow> n div 10 < 10 ^ j"
        using "1.IH" False by simp
      also have "\<dots> \<longleftrightarrow> n < 10 ^ Suc j"
        by (simp add: div_less_iff_less_mult mult.commute)
      finally show ?thesis using eq k by simp
    qed
  qed
qed

lemma nat_of_digits_zero: "list_all (\<lambda>d. d = 0) ds \<Longrightarrow> nat_of_digits ds = 0"
  by (induction ds rule: rev_induct) (auto simp: nat_of_digits_append)

lemma digits_of_zero_iff: "list_all (\<lambda>d. d = 0) (digits_of c) \<longleftrightarrow> c = 0"
proof
  assume "list_all (\<lambda>d. d = 0) (digits_of c)"
  then have "nat_of_digits (digits_of c) = 0" by (rule nat_of_digits_zero)
  then show "c = 0" by simp
qed (simp add: digits_of.simps)

lemma rev_reversed_digits: "0 < n \<Longrightarrow> rev (reversed_digits n) = digits_of n"
proof (induction n rule: digits_of.induct)
  case (1 n)
  show ?case
  proof (cases "n < 10")
    case True
    with "1.prems" show ?thesis
      by (subst reversed_digits.simps, subst reversed_digits.simps, subst digits_of.simps) simp
  next
    case False
    with "1.IH" have "rev (reversed_digits (n div 10)) = digits_of (n div 10)" by simp
    with False show ?thesis by (subst reversed_digits.simps, subst digits_of.simps) simp
  qed
qed

lemma bit_length_less: "n < 2 ^ bit_length n"
proof (induction n rule: bit_length.induct)
  case (1 n)
  show ?case
  proof (cases "n = 0")
    case False
    with 1 have "n div 2 < 2 ^ bit_length (n div 2)" by simp
    then have "n < 2 * 2 ^ bit_length (n div 2)" by linarith
    with False show ?thesis by (simp add: bit_length.simps [of n])
  qed simp
qed

lemma bit_length_ge: "0 < n \<Longrightarrow> 2 ^ (bit_length n - 1) \<le> n"
proof (induction n rule: bit_length.induct)
  case (1 n)
  show ?case
  proof (cases "n div 2 = 0")
    case True
    with "1.prems" show ?thesis by (simp add: bit_length.simps [of n] bit_length.simps [of 0])
  next
    case False
    with 1 have ge: "2 ^ (bit_length (n div 2) - 1) \<le> n div 2" by auto
    have "0 < bit_length (n div 2)" using False by (simp add: bit_length.simps [of "n div 2"])
    then have "(2::nat) ^ bit_length (n div 2) = 2 * 2 ^ (bit_length (n div 2) - 1)"
      by (simp flip: power_Suc)
    with ge "1.prems" show ?thesis by (simp add: bit_length.simps [of n])
  qed
qed

lemma count_digits_eq:
  "0 < n \<Longrightarrow> count \<le> limit \<Longrightarrow>
     count_digits limit n count = min (Suc limit) (count + length (digits_of n))"
proof (induction n arbitrary: count rule: digits_of.induct)
  case (1 n)
  show ?case
  proof (cases "limit < count + 1")
    case True
    then have "count = limit" using "1.prems" by simp
    moreover have "count_digits limit n count = count + 1"
      using True "1.prems" by (simp add: count_digits.simps [of limit n])
    moreover have "0 < length (digits_of n)" by simp
    ultimately show ?thesis by linarith
  next
    case False
    have step: "count_digits limit n count = count_digits limit (n div 10) (count + 1)"
      using False "1.prems" by (simp add: count_digits.simps [of limit n])
    show ?thesis
    proof (cases "n < 10")
      case True
      then show ?thesis using step False
        by (simp add: count_digits.simps [of limit 0] digits_of.simps [of n])
    next
      case big: False
      with "1.IH" False have
        "count_digits limit (n div 10) (count + 1) =
           min (Suc limit) (count + 1 + length (digits_of (n div 10)))" by simp
      with step big show ?thesis by (simp add: digits_of.simps [of n])
    qed
  qed
qed

lemma integer_digit_count_eq:
  assumes "0 < limit"
  shows "integer_digit_count v limit = min (Suc limit) (length (digits_of (nat \<bar>v\<bar>)))"
proof (cases "v = 0")
  case True
  with assms show ?thesis by (simp add: integer_digit_count_def digits_of.simps)
next
  case v: False
  let ?n = "nat \<bar>v\<bar>"
  show ?thesis
  proof (cases "limit * 4 + 1 < bit_length ?n")
    case True
    have "(10::nat) ^ limit \<le> 16 ^ limit" by (rule power_mono) auto
    also have "(16::nat) ^ limit = 2 ^ (4 * limit)" by (simp add: power_mult)
    also have "\<dots> \<le> 2 ^ (bit_length ?n - 1)" using True by (intro power_increasing) auto
    also have "\<dots> \<le> ?n" using v by (intro bit_length_ge) simp
    finally have "\<not> ?n < 10 ^ limit" by simp
    then have "limit < length (digits_of ?n)" using length_digits_of [OF assms] by (meson not_le)
    with True v show ?thesis by (simp add: integer_digit_count_def)
  next
    case False
    with v show ?thesis by (simp add: integer_digit_count_def count_digits_eq)
  qed
qed

lemma integer_digit_count_le_iff:
  assumes "0 < limit"
  shows "integer_digit_count v limit \<le> limit \<longleftrightarrow> \<bar>v\<bar> < 10 ^ limit"
proof -
  have "nat \<bar>v\<bar> < 10 ^ limit \<longleftrightarrow> \<bar>v\<bar> < 10 ^ limit"
    by (simp add: nat_less_iff)
  with length_digits_of [OF assms, of "nat \<bar>v\<bar>"] show ?thesis
    by (simp add: integer_digit_count_eq [OF assms] min_le_iff_disj)
qed


section \<open>Envelopes\<close>

lemma limits_pos [simp]:
  "0 < MAX_SIGNIFICANT_DIGITS" "0 < MAX_SCALE" "0 < MAX_INTEGER_DIGITS" "0 < MAX_RATIONAL_DIGITS"
  by (simp_all add: decimal_limits MAX_RATIONAL_DIGITS_def)

lemma validate_fraction_eq:
  "validate_fraction_intermediate q = (if rat_bounded q then Inr () else Inl ExactDecimalError)"
proof -
  obtain n d where nd: "quotient_of q = (n, d)" by force
  then have "0 < d" by (rule quotient_of_denom_pos)
  with nd show ?thesis
    using integer_digit_count_le_iff [of MAX_RATIONAL_DIGITS n]
      integer_digit_count_le_iff [of MAX_RATIONAL_DIGITS d]
    by (auto simp: validate_fraction_intermediate_def rat_bounded_def not_less)
qed

lemma validate_fraction_Inr_iff [simp]: "validate_fraction_intermediate q = Inr u \<longleftrightarrow> rat_bounded q"
  by (simp add: validate_fraction_eq)

lemma bounded_fraction_eq: "bounded_fraction q = (if rat_bounded q then Inr q else Inl ExactDecimalError)"
  by (simp add: bounded_fraction_def validate_fraction_eq)

lemma bounded_fraction_Inr_iff [simp, result_simps]:
  "bounded_fraction q = Inr r \<longleftrightarrow> rat_bounded q \<and> r = q"
  by (auto simp: bounded_fraction_eq)

text \<open>A quotient of integers bounds its own lowest terms.\<close>

lemma quotient_of_le:
  assumes "0 < b" and "quotient_of (of_int a / of_int b) = (n, d)"
  shows "\<bar>n\<bar> \<le> \<bar>a\<bar>" and "d \<le> b" and "d dvd b" and "of_int a / of_int b = (of_int n / of_int d :: rat)"
proof -
  from assms(2) have d: "0 < d" and co: "coprime n d"
    and q: "of_int a / of_int b = (of_int n / of_int d :: rat)"
    by (auto simp: quotient_of_denom_pos quotient_of_coprime quotient_of_div)
  then have "(of_int (a * d) :: rat) = of_int (n * b)"
    using assms(1) by (simp add: field_simps)
  then have eq: "a * d = n * b" by (simp only: of_int_eq_iff)
  have "d dvd n * b" using eq by (metis dvd_triv_right)
  then show dvd: "d dvd b" using co by (simp add: coprime_dvd_mult_right_iff coprime_commute)
  with assms(1) show "d \<le> b" by (simp add: zdvd_imp_le)
  have "n dvd a * d" using eq by simp
  then have "n dvd a" using co by (simp add: coprime_dvd_mult_left_iff)
  then show "\<bar>n\<bar> \<le> \<bar>a\<bar>"
  proof (cases "a = 0")
    case True
    with eq assms(1) show ?thesis by simp
  next
    case False
    with \<open>n dvd a\<close> show ?thesis by (simp add: dvd_imp_le_int)
  qed
  show "of_int a / of_int b = (of_int n / of_int d :: rat)" by (rule q)
qed

lemma rat_bounded_quotient:
  assumes "0 < b" and "\<bar>a\<bar> < 10 ^ MAX_RATIONAL_DIGITS" and "b < 10 ^ MAX_RATIONAL_DIGITS"
  shows "rat_bounded (of_int a / of_int b)"
proof -
  obtain n d where nd: "quotient_of (of_int a / of_int b) = (n, d)" by force
  from quotient_of_le [OF assms(1) nd] assms nd show ?thesis
    by (auto simp: rat_bounded_def)
qed

lemma dval_scaled: "dval d = of_int (fst (scaled d)) / of_int (10 ^ snd (scaled d))"
proof (cases d)
  case (Decimal s c e)
  then show ?thesis
    by (cases "0 \<le> e") (auto simp: power_int_def field_simps)
qed auto

lemma envelope_scaled:
  assumes "in_envelope d" and "scaled d = (c, k)"
  shows "\<bar>c\<bar> < 10 ^ MAX_INTEGER_DIGITS" and "c \<noteq> 0 \<Longrightarrow> k \<le> MAX_SCALE"
proof -
  obtain s co e where d: "d = Decimal s co e"
    using assms(1) by (cases d) (auto simp: in_envelope_def)
  let ?len = "length (digits_of co)"
  show "\<bar>c\<bar> < 10 ^ MAX_INTEGER_DIGITS"
  proof (cases "co = 0")
    case True
    with d assms(2) show ?thesis by auto
  next
    case False
    with assms(1) d have len: "?len \<le> 256" "int ?len + e \<le> 256" 
      by (auto simp: in_envelope_def decimal_limits)
    have "co < 10 ^ ?len" using length_digits_of [of ?len co] by simp
    then have "int co < 10 ^ ?len"
      by (metis of_nat_less_iff of_nat_numeral of_nat_power)
    then have "int co * 10 ^ nat e < 10 ^ ?len * 10 ^ nat e" by simp
    also have "(10::int) ^ ?len * 10 ^ nat e = 10 ^ (?len + nat e)" by (simp add: power_add)
    also have "\<dots> \<le> 10 ^ 256" using len by (intro power_increasing) auto
    finally show ?thesis
      using d assms(2) by (auto simp: decimal_limits abs_mult split: if_splits)
  qed
  show "k \<le> MAX_SCALE" if "c \<noteq> 0"
    using that assms d by (auto simp: in_envelope_def)
qed

lemma envelope_dval_zero: "in_envelope d \<Longrightarrow> dval d = 0 \<longleftrightarrow> dcoeff d = 0"
  by (cases d) (auto simp: in_envelope_def power_int_not_zero)

lemma validate_decimal_envelope_eq:
  "validate_decimal_envelope d =
     (if in_envelope d
      then Inr (if dcoeff d = 0 then (dsign d, [0], 0) else (dsign d, digits_of (dcoeff d), dexp d))
      else Inl ExactDecimalError)"
  by (cases d) (auto simp: validate_decimal_envelope_def in_envelope_def Let_def digits_of_zero_iff)

lemma envelope_rat_bounded: "in_envelope d \<Longrightarrow> rat_bounded (dval d)"
proof (cases "fst (scaled d) = 0")
  case True
  then show ?thesis by (simp add: dval_scaled rat_bounded_def)
next
  case False
  assume env: "in_envelope d"
  obtain c k where ck: "scaled d = (c, k)" by force
  note b = envelope_scaled [OF env ck]
  have "(10::int) ^ MAX_INTEGER_DIGITS \<le> 10 ^ MAX_RATIONAL_DIGITS"
    by (intro power_increasing) (auto simp: decimal_limits MAX_RATIONAL_DIGITS_def)
  moreover have "(10::int) ^ k < 10 ^ MAX_RATIONAL_DIGITS"
    using b(2) False ck
    by (intro power_strict_increasing) (auto simp: decimal_limits MAX_RATIONAL_DIGITS_def)
  ultimately have "rat_bounded (of_int c / of_int (10 ^ k))"
    using b(1) by (intro rat_bounded_quotient) (auto simp del: power_increasing_iff)
  then show ?thesis by (simp add: dval_scaled ck)
qed

lemma as_fraction_eq: "as_fraction d = (if in_envelope d then Inr (dval d) else Inl ExactDecimalError)"
proof (cases "in_envelope d")
  case False
  then show ?thesis by (simp add: as_fraction_def validate_decimal_envelope_eq)
next
  case True
  then obtain s c e where d: "d = Decimal s c e" by (cases d) (auto simp: in_envelope_def)
  show ?thesis
  proof (cases "c = 0")
    case True
    with d \<open>in_envelope d\<close> show ?thesis
      by (simp add: as_fraction_def validate_decimal_envelope_eq)
  next
    case False
    let ?q = "(if 0 \<le> e then of_int ((if s then - int c else int c) * 10 ^ nat e)
       else of_int (if s then - int c else int c) / of_int (10 ^ nat (- e)) :: rat)"
    have q: "?q = dval d"
      using d by (auto simp: power_int_def field_simps)
    have "as_fraction d = rbind (validate_fraction_intermediate ?q) (\<lambda>_. Inr ?q)"
      using False d True by (simp add: as_fraction_def validate_decimal_envelope_eq Let_def)
    then show ?thesis
      by (simp only: q) (simp add: True validate_fraction_eq envelope_rat_bounded)
  qed
qed

lemma as_fraction_Inr_iff [simp, result_simps]:
  "as_fraction d = Inr q \<longleftrightarrow> in_envelope d \<and> q = dval d"
  by (auto simp: as_fraction_eq)


section \<open>Terminating expansions\<close>

lemma strip_factor_sound:
  "strip_factor p d k = Inr (m, j) \<Longrightarrow> k \<le> MAX_SCALE \<Longrightarrow>
     k \<le> j \<and> j \<le> MAX_SCALE \<and> d = p ^ (j - k) * m \<and> \<not> p dvd m"
proof (induction p d k rule: strip_factor.induct)
  case (1 p d k)
  show ?case
  proof (cases "d mod p = 0")
    case True
    then have d: "d = p * (d div p)" by auto
    from True "1.prems" have le: "Suc k \<le> MAX_SCALE"
      by (auto simp: strip_factor.simps [of p d] split: if_splits)
    with True "1.prems" have "strip_factor p (d div p) (k + 1) = Inr (m, j)"
      by (auto simp: strip_factor.simps [of p d])
    with "1.IH" True le have
      "Suc k \<le> j" "j \<le> MAX_SCALE" "d div p = p ^ (j - Suc k) * m" "\<not> p dvd m" by auto
    with d show ?thesis by (metis Suc_diff_Suc Suc_le_lessD less_imp_le mult.assoc power_Suc)
  next
    case False
    with "1.prems" show ?thesis
      by (auto simp: strip_factor.simps [of p d] dvd_eq_mod_eq_0)
  qed
qed

lemma strip_factor_fails:
  "strip_factor p d k = Inl e \<Longrightarrow> k \<le> MAX_SCALE \<Longrightarrow> p ^ (Suc MAX_SCALE - k) dvd d"
proof (induction p d k rule: strip_factor.induct)
  case (1 p d k)
  have mod: "d mod p = 0" using "1.prems" by (auto simp: strip_factor.simps [of p d] split: if_splits)
  then have d: "d = p * (d div p)" by auto
  show ?case
  proof (cases "MAX_SCALE < k + 1")
    case True
    with "1.prems" have "Suc MAX_SCALE - k = 1" by simp
    with d show ?thesis by (metis dvd_triv_left power_one_right)
  next
    case False
    with "1.prems" mod have "strip_factor p (d div p) (k + 1) = Inl e"
      by (auto simp: strip_factor.simps [of p d])
    with "1.IH" mod False have "p ^ (MAX_SCALE - k) dvd d div p" by auto
    then have "p * p ^ (MAX_SCALE - k) dvd p * (d div p)" by (rule mult_dvd_mono [OF dvd_refl])
    with d "1.prems" show ?thesis by (simp add: Suc_diff_le)
  qed
qed

lemma coprime_two_five:
  fixes m :: int
  assumes "\<not> 2 dvd m" and "\<not> 5 dvd m"
  shows "coprime m (10 ^ k)"
proof -
  have "coprime m 2" using assms(1) by (simp add: coprime_commute)
  moreover have "coprime m 5"
  proof (rule coprimeI)
    fix c :: int
    assume c: "c dvd m" "c dvd 5"
    define x where "x = \<bar>c\<bar>"
    from c have "x dvd 5" "\<not> 5 dvd x" using assms(2) by (auto simp: x_def dest: dvd_trans)
    then have "x \<le> 5" "x \<noteq> 5" by (auto intro: zdvd_imp_le)
    moreover have "0 \<le> x" by (simp add: x_def)
    ultimately have "x = 0 \<or> x = 1 \<or> x = 2 \<or> x = 3 \<or> x = 4" by linarith
    with \<open>x dvd 5\<close> have "x = 1" by auto
    then show "is_unit c" by (simp add: x_def)
  qed
  ultimately have "coprime m (2 * 5)" by (simp only: coprime_mult_right_iff)
  then show ?thesis by simp
qed

lemma power_dvd_ten:
  fixes p :: int
  assumes "p ^ j dvd 10 ^ k" and "p = 2 \<or> p = 5"
  shows "j \<le> k"
proof -
  have ten: "(10::int) ^ k = 2 ^ k * 5 ^ k" by (simp flip: power_mult_distrib)
  have co: "coprime (2 ^ j :: int) (5 ^ k)" "coprime (5 ^ j :: int) (2 ^ k)"
    by (simp_all add: coprime_commute [of 5])
  have "p ^ j dvd p ^ k"
    using assms ten co by (auto simp: coprime_dvd_mult_left_iff coprime_dvd_mult_right_iff)
  then have "p ^ j \<le> p ^ k" using assms(2) by (intro zdvd_imp_le) auto
  then show ?thesis
    using assms(2) by auto
qed

text \<open>The denominator loop on a divisor of a power of ten.\<close>

lemma strip_both:
  assumes "d dvd 10 ^ k" and "0 < d" and "k \<le> MAX_SCALE"
  obtains a b where "strip_factor 2 d 0 = Inr (5 ^ b, a)" and "strip_factor 5 (5 ^ b) 0 = Inr (1, b)"
    and "d = 2 ^ a * 5 ^ b" and "a \<le> k" and "b \<le> k"
proof -
  have "\<exists>m a. strip_factor 2 d 0 = Inr (m, a)"
  proof (cases "strip_factor 2 d 0")
    case (Inl e)
    then have "2 ^ Suc MAX_SCALE dvd d" by (auto dest: strip_factor_fails)
    then have "Suc MAX_SCALE \<le> k" using assms(1) by (intro power_dvd_ten [of 2]) (auto intro: dvd_trans)
    with assms(3) show ?thesis by simp
  qed auto
  then obtain m a where two: "strip_factor 2 d 0 = Inr (m, a)" by blast
  then have m: "d = 2 ^ a * m" "\<not> 2 dvd m" by (auto dest: strip_factor_sound)
  have mdvd: "m dvd 10 ^ k" using assms(1) m(1) by (auto intro: dvd_trans)
  have "\<exists>m' b. strip_factor 5 m 0 = Inr (m', b)"
  proof (cases "strip_factor 5 m 0")
    case (Inl e)
    then have "5 ^ Suc MAX_SCALE dvd m" by (auto dest: strip_factor_fails)
    then have "Suc MAX_SCALE \<le> k" using mdvd by (intro power_dvd_ten [of 5]) (auto intro: dvd_trans)
    with assms(3) show ?thesis by simp
  qed auto
  then obtain m' b where five: "strip_factor 5 m 0 = Inr (m', b)" by blast
  then have m': "m = 5 ^ b * m'" "\<not> 5 dvd m'" by (auto dest: strip_factor_sound)
  have "\<not> 2 dvd m'" using m(2) m'(1) by auto
  then have "coprime m' (10 ^ k)" using m'(2) by (rule coprime_two_five)
  moreover have "m' dvd 10 ^ k" using mdvd m'(1) by (auto intro: dvd_trans)
  ultimately have "is_unit m'" by (meson coprime_common_divisor dvd_refl)
  moreover have "0 < m'" using assms(2) m(1) m'(1) by (simp add: zero_less_mult_iff)
  ultimately have "m' = 1" by simp
  with m m' two five have "strip_factor 2 d 0 = Inr (5 ^ b, a)" "strip_factor 5 (5 ^ b) 0 = Inr (1, b)"
    "d = 2 ^ a * 5 ^ b" by auto
  moreover have "2 ^ a dvd (10::int) ^ k" "5 ^ b dvd (10::int) ^ k"
    using assms(1) \<open>d = 2 ^ a * 5 ^ b\<close> by (auto intro: dvd_trans)
  then have "a \<le> k" "b \<le> k" by (blast intro: power_dvd_ten)+
  ultimately show thesis by (rule that)
qed


lemma decimal_from_scaled_integer_eq:
  "decimal_from_scaled_integer c k =
     (if k \<le> MAX_SCALE \<and> (c = 0 \<or> (\<bar>c\<bar> < 10 ^ MAX_SIGNIFICANT_DIGITS
            \<and> length (digits_of (nat \<bar>c\<bar>)) - k \<le> MAX_INTEGER_DIGITS))
      then Inr (if c = 0 then dzero else Decimal (c < 0) (nat \<bar>c\<bar>) (- int k))
      else Inl ExactDecimalError)"
proof (cases "c = 0")
  case True
  then show ?thesis by (simp add: decimal_from_scaled_integer_def)
next
  case False
  have cnt: "integer_digit_count \<bar>c\<bar> MAX_SIGNIFICANT_DIGITS =
      min (Suc MAX_SIGNIFICANT_DIGITS) (length (digits_of (nat \<bar>c\<bar>)))"
    by (simp add: integer_digit_count_eq)
  have le: "\<bar>c\<bar> < 10 ^ MAX_SIGNIFICANT_DIGITS \<longleftrightarrow> length (digits_of (nat \<bar>c\<bar>)) \<le> MAX_SIGNIFICANT_DIGITS"
    using integer_digit_count_le_iff [of MAX_SIGNIFICANT_DIGITS "\<bar>c\<bar>"] cnt by auto
  show ?thesis
    using False by (auto simp: decimal_from_scaled_integer_def Let_def cnt le rev_reversed_digits)
qed

lemma in_envelope_scaled:
  assumes "k \<le> MAX_SCALE" and "c = 0 \<or> (\<bar>c\<bar> < 10 ^ MAX_SIGNIFICANT_DIGITS
       \<and> length (digits_of (nat \<bar>c\<bar>)) - k \<le> MAX_INTEGER_DIGITS)"
  shows "in_envelope (if c = 0 then dzero else Decimal (c < 0) (nat \<bar>c\<bar>) (- int k))"
proof (cases "c = 0")
  case True
  then show ?thesis by (simp add: in_envelope_def)
next
  case False
  let ?l = "length (digits_of (nat \<bar>c\<bar>))"
  have "?l \<le> MAX_SIGNIFICANT_DIGITS"
    using assms(2) False length_digits_of [of MAX_SIGNIFICANT_DIGITS "nat \<bar>c\<bar>"]
    by (simp add: nat_less_iff)
  moreover have "int ?l - int k \<le> int MAX_INTEGER_DIGITS"
    using assms(2) False by linarith
  ultimately show ?thesis using False assms(1) by (simp add: in_envelope_def)
qed

lemma decimal_from_scaled_integer_sound:
  assumes "decimal_from_scaled_integer c k = Inr d"
  shows "dval d = of_int c / 10 ^ k \<and> in_envelope d"
proof -
  have d: "d = (if c = 0 then dzero else Decimal (c < 0) (nat \<bar>c\<bar>) (- int k))"
    and bnd: "k \<le> MAX_SCALE" "c = 0 \<or> (\<bar>c\<bar> < 10 ^ MAX_SIGNIFICANT_DIGITS
       \<and> length (digits_of (nat \<bar>c\<bar>)) - k \<le> MAX_INTEGER_DIGITS)"
    using assms by (auto simp: decimal_from_scaled_integer_eq split: if_splits)
  have "dval d = of_int c / 10 ^ k"
    unfolding d by (simp add: power_int_minus divide_inverse)
  moreover have "in_envelope d"
    unfolding d using bnd by (rule in_envelope_scaled)
  ultimately show ?thesis by simp
qed

lemma decimal_from_scaled_integer_complete:
  assumes "k \<le> MAX_SCALE" and "\<bar>c\<bar> < 10 ^ MAX_SIGNIFICANT_DIGITS"
  shows "\<exists>d. decimal_from_scaled_integer c k = Inr d"
proof -
  have "length (digits_of (nat \<bar>c\<bar>)) \<le> MAX_INTEGER_DIGITS"
    using length_digits_of [of MAX_INTEGER_DIGITS "nat \<bar>c\<bar>"] assms(2)
    by (simp add: nat_less_iff decimal_limits)
  then have "length (digits_of (nat \<bar>c\<bar>)) - k \<le> MAX_INTEGER_DIGITS" by linarith
  with assms show ?thesis by (simp add: decimal_from_scaled_integer_eq)
qed

lemma terminating_decimal_sound:
  assumes "terminating_decimal q = Inr d"
  shows "dval d = q \<and> in_envelope d"
proof -
  obtain n den where nd: "quotient_of q = (n, den)" by force
  from assms nd obtain m a b where
    s2: "strip_factor 2 den 0 = Inr (m, a)" and s5: "strip_factor 5 m 0 = Inr (1, b)" and
    fin: "decimal_from_scaled_integer (n * 2 ^ (max a b - a) * 5 ^ (max a b - b)) (max a b) = Inr d"
    by (auto simp: terminating_decimal_def Let_def split: if_splits)
  let ?s = "max a b" and ?c = "n * 2 ^ (max a b - a) * 5 ^ (max a b - b)"
  have den: "den = 2 ^ a * 5 ^ b"
    using s2 s5 by (auto dest!: strip_factor_sound)
  have ten: "(10::rat) ^ ?s = (2 ^ a * 2 ^ (?s - a)) * (5 ^ b * 5 ^ (?s - b))"
    by (simp flip: power_add power_mult_distrib)
  have q: "q = of_int n / of_int den" using quotient_of_div [OF nd] .
  have qc: "q = of_int ?c / 10 ^ ?s"
    unfolding q den ten by (simp add: field_simps)
  from fin have "dval d = of_int ?c / 10 ^ ?s \<and> in_envelope d"
    by (rule decimal_from_scaled_integer_sound)
  with qc show ?thesis by simp
qed

lemma terminating_decimal_complete:
  assumes "in_envelope d"
  shows "\<exists>d'. terminating_decimal (dval d) = Inr d'"
proof -
  obtain c k where ck: "scaled d = (c, k)" by force
  note bnd = envelope_scaled [OF assms ck]
  have rb: "rat_bounded (dval d)" using assms by (rule envelope_rat_bounded)
  show ?thesis
  proof (cases "c = 0")
    case True
    then have "dval d = 0" by (simp add: dval_scaled ck)
    then show ?thesis
      by (simp add: terminating_decimal_def strip_factor.simps decimal_from_scaled_integer_eq rb
          validate_fraction_eq rat_bounded_def)
  next
    case False
    then have k: "k \<le> MAX_SCALE" using bnd(2) by simp
    have q: "dval d = of_int c / of_int (10 ^ k)" by (simp add: dval_scaled ck)
    obtain n den where nd: "quotient_of (dval d) = (n, den)" by force
    have den0: "0 < den" using nd by (rule quotient_of_denom_pos)
    have dvd: "den dvd 10 ^ k" and eq: "of_int c / of_int (10 ^ k) = (of_int n / of_int den :: rat)"
      using quotient_of_le [of "10 ^ k" c n den] nd q by auto
    obtain a b where ab: "strip_factor 2 den 0 = Inr (5 ^ b, a)" "strip_factor 5 (5 ^ b) 0 = Inr (1, b)"
      "den = 2 ^ a * 5 ^ b" "a \<le> k" "b \<le> k"
      using dvd den0 k by (rule strip_both)
    let ?s = "max a b" and ?c = "n * 2 ^ (max a b - a) * 5 ^ (max a b - b)"
    have ten: "(10::int) ^ ?s = (2 ^ a * 2 ^ (?s - a)) * (5 ^ b * 5 ^ (?s - b))"
      by (simp flip: power_add power_mult_distrib)
    have "(of_int (c * den) :: rat) = of_int (n * 10 ^ k)"
      using eq den0 by (simp add: field_simps)
    then have cross: "c * den = n * 10 ^ k" by (simp only: of_int_eq_iff)
    have "?c * den = n * 10 ^ ?s" by (simp add: ab(3) ten)
    moreover have "(10::int) ^ k = 10 ^ ?s * 10 ^ (k - ?s)"
      using ab(4,5) by (simp flip: power_add)
    ultimately have "?c * den * 10 ^ (k - ?s) = c * den"
      using cross by (simp only: mult.assoc)
    then have c: "c = ?c * 10 ^ (k - ?s)" using den0 by simp
    have "\<bar>?c\<bar> * 1 \<le> \<bar>?c\<bar> * 10 ^ (k - ?s)" by (rule mult_left_mono) auto
    moreover have "\<bar>c\<bar> = \<bar>?c\<bar> * 10 ^ (k - ?s)" by (subst c) (simp only: abs_mult power_abs abs_numeral)
    ultimately have "\<bar>?c\<bar> \<le> \<bar>c\<bar>" by (simp only: mult_1_right)
    then have small: "\<bar>?c\<bar> < 10 ^ MAX_SIGNIFICANT_DIGITS"
      using bnd(1) by (simp add: decimal_limits)
    have "max a b \<le> MAX_SCALE" using ab(4,5) k by simp
    then have "\<exists>d'. decimal_from_scaled_integer ?c ?s = Inr d'"
      using small by (rule decimal_from_scaled_integer_complete)
    with ab nd rb show ?thesis
      by (auto simp: terminating_decimal_def Let_def validate_fraction_eq)
  qed
qed

lemma terminating_decimal_raises: "terminating_decimal q = Inl e \<Longrightarrow> e = ExactDecimalError"
proof -
  have strip: "strip_factor p d k = Inl e \<Longrightarrow> e = ExactDecimalError" for p d k
    by (induction p d k rule: strip_factor.induct) (auto simp: strip_factor.simps split: if_splits)
  assume "terminating_decimal q = Inl e"
  then show ?thesis
    by (auto simp: terminating_decimal_def Let_def rbind_Inl_iff validate_fraction_eq
        decimal_from_scaled_integer_eq dest: strip split: if_splits prod.splits)
qed

section \<open>Laws of the exact operations\<close>

lemma terminating_decimal_iff: "(\<exists>d. terminating_decimal q = Inr d) \<longleftrightarrow> representable q"
  unfolding representable_def using terminating_decimal_sound terminating_decimal_complete by blast

lemma representable_bounded: "representable q \<Longrightarrow> rat_bounded q"
  by (auto simp: representable_def intro: envelope_rat_bounded)

lemma terminating_decimal_cases:
  obtains (returns) d where "terminating_decimal q = Inr d" "representable q" "dval d = q" "in_envelope d"
    | (raises) "terminating_decimal q = Inl ExactDecimalError" "\<not> representable q"
proof (cases "terminating_decimal q")
  case (Inl e)
  then show thesis using raises terminating_decimal_raises terminating_decimal_iff by force
next
  case (Inr d)
  then show thesis using returns terminating_decimal_sound terminating_decimal_iff by blast
qed

lemma envelope_dzero [simp]: "in_envelope dzero"
  by (simp add: in_envelope_def)

lemma exact_add_Inr [exact_simps]:
  "exact_add a b = Inr c \<Longrightarrow> in_envelope a \<and> in_envelope b \<and> in_envelope c \<and> dval c = dval a + dval b"
  by (auto simp: exact_add_def dest: terminating_decimal_sound)

lemma exact_subtract_Inr [exact_simps]:
  "exact_subtract a b = Inr c \<Longrightarrow> in_envelope a \<and> in_envelope b \<and> in_envelope c \<and> dval c = dval a - dval b"
  by (auto simp: exact_subtract_def dest: terminating_decimal_sound)

lemma exact_abs_Inr [exact_simps]:
  "exact_abs a = Inr c \<Longrightarrow> in_envelope a \<and> in_envelope c \<and> dval c = \<bar>dval a\<bar>"
  by (auto simp: exact_abs_def dest: terminating_decimal_sound)

lemma exact_add_returns_iff:
  "(\<exists>c. exact_add a b = Inr c) \<longleftrightarrow> in_envelope a \<and> in_envelope b \<and> representable (dval a + dval b)"
  by (auto simp: exact_add_def terminating_decimal_iff [symmetric] dest: terminating_decimal_iff [THEN iffD1] intro: representable_bounded)

lemma exact_subtract_returns_iff:
  "(\<exists>c. exact_subtract a b = Inr c) \<longleftrightarrow> in_envelope a \<and> in_envelope b \<and> representable (dval a - dval b)"
  by (auto simp: exact_subtract_def terminating_decimal_iff [symmetric] dest: terminating_decimal_iff [THEN iffD1] intro: representable_bounded)

lemma sum_fold_Inr:
  "rfold (\<lambda>acc v. rbind (as_fraction v) (\<lambda>q.
      rbind (validate_fraction_intermediate (acc + q)) (\<lambda>_. Inr (acc + q)))) s vs = Inr r \<Longrightarrow>
    r = s + sum_list (map dval vs) \<and> list_all in_envelope vs"
  by (induction vs arbitrary: s) (fastforce simp: add.assoc)+

lemma exact_sum_Inr [exact_simps]:
  "exact_sum vs = Inr c \<Longrightarrow>
     list_all in_envelope vs \<and> in_envelope c \<and> dval c = sum_list (map dval vs)"
  by (auto simp: exact_sum_def dest!: sum_fold_Inr terminating_decimal_sound)

lemma prod_fold_Inr:
  "rfold (\<lambda>acc v. rbind (as_fraction v) (\<lambda>q.
      rbind (validate_fraction_intermediate (acc * q)) (\<lambda>_. Inr (acc * q)))) s vs = Inr r \<Longrightarrow>
    r = s * prod_list (map dval vs) \<and> list_all in_envelope vs"
  by (induction vs arbitrary: s) (fastforce simp: mult.assoc)+

lemma exact_multiply_Inr [exact_simps]:
  "exact_multiply vs = Inr c \<Longrightarrow>
     list_all in_envelope vs \<and> in_envelope c \<and> dval c = prod_list (map dval vs)"
  by (auto simp: exact_multiply_def dest!: prod_fold_Inr terminating_decimal_sound)

lemma exact_raises:
  "exact_add a b = Inl e \<Longrightarrow> e = ExactDecimalError"
  "exact_subtract a b = Inl e \<Longrightarrow> e = ExactDecimalError"
  "exact_abs a = Inl e \<Longrightarrow> e = ExactDecimalError"
  by (auto simp: exact_add_def exact_subtract_def exact_abs_def rbind_Inl_iff as_fraction_eq
      validate_fraction_eq dest: terminating_decimal_raises split: if_splits)

lemma as_fraction_raises: "as_fraction d = Inl e \<Longrightarrow> e = ExactDecimalError"
  by (simp add: as_fraction_eq split: if_splits)

lemma exact_fold_raises:
  "exact_sum vs = Inl e \<Longrightarrow> e = ExactDecimalError" "exact_multiply vs = Inl e \<Longrightarrow> e = ExactDecimalError"
proof -
  have f: "rfold (\<lambda>acc v. rbind (as_fraction v) (\<lambda>q.
      rbind (validate_fraction_intermediate (g acc q)) (\<lambda>_. Inr (g acc q)))) s vs = Inl e \<Longrightarrow>
    e = ExactDecimalError" for g s
    by (induction vs arbitrary: s)
      (auto simp: rbind_Inl_iff as_fraction_eq validate_fraction_eq split: if_splits)
  show "exact_sum vs = Inl e \<Longrightarrow> e = ExactDecimalError" "exact_multiply vs = Inl e \<Longrightarrow> e = ExactDecimalError"
    by (auto simp: exact_sum_def exact_multiply_def rbind_Inl_iff
        dest!: f dest: terminating_decimal_raises as_fraction_raises split: if_splits)
qed

lemma exact_multiple_iff:
  assumes "is_exact_decimal_multiple v quantum = Inr b"
  shows "b \<longleftrightarrow> (\<exists>k::int. dval v = of_int k * dval quantum)"
proof -
  from assms have pos: "0 < dval quantum" and b: "b \<longleftrightarrow> snd (quotient_of (dval v / dval quantum)) = 1"
    by (auto simp: is_exact_decimal_multiple_def Let_def split: if_splits)
  have int_iff: "snd (quotient_of q) = 1 \<longleftrightarrow> (\<exists>k. q = of_int k)" for q :: rat
  proof
    assume "snd (quotient_of q) = 1"
    then show "\<exists>k. q = of_int k" using quotient_of_div [of q] by (cases "quotient_of q") auto
  qed auto
  show ?thesis unfolding b int_iff using pos by (auto simp: field_simps)
qed

section \<open>Rounding\<close>

lemma round_units_floor: "round_units u FLOOR = \<lfloor>u\<rfloor>"
  and round_units_ceiling: "round_units u CEILING = \<lceil>u\<rceil>"
proof -
  obtain n d where nd: "quotient_of u = (n, d)" by force
  then have u: "u = of_int n / of_int d" by (rule quotient_of_div)
  have "\<lfloor>u\<rfloor> = n div d" unfolding u by (rule floor_divide_of_int_eq)
  then show "round_units u FLOOR = \<lfloor>u\<rfloor>" by (simp add: round_units_def nd)
  have "- u = of_int (- n) / of_int d" by (simp add: u)
  then have "\<lfloor>- u\<rfloor> = (- n) div d" by (simp only: floor_divide_of_int_eq)
  then show "round_units u CEILING = \<lceil>u\<rceil>" by (simp add: round_units_def nd ceiling_def)
qed

lemma round_units_half_even:
  shows "\<bar>of_int (round_units u HALF_EVEN) - u\<bar> \<le> 1 / 2"
    and "\<bar>of_int (round_units u HALF_EVEN) - u\<bar> = 1 / 2 \<Longrightarrow> even (round_units u HALF_EVEN)"
proof -
  obtain n d where nd: "quotient_of u = (n, d)" by force
  then have u: "u = of_int n / of_int d" and d: "0 < d"
    by (auto dest: quotient_of_div quotient_of_denom_pos)
  define f where "f = n div d"
  define r where "r = n - f * d"
  have "r = n mod d" by (simp add: r_def f_def minus_div_mult_eq_mod)
  then have r: "0 \<le> r" "r < d" using d by auto
  have uf: "u - of_int f = of_int r / of_int d"
    using d by (simp add: u r_def field_simps)
  have res: "round_units u HALF_EVEN =
      (if 2 * r < d then f else if d < 2 * r then f + 1 else if even f then f else f + 1)"
    by (simp add: round_units_def nd f_def r_def Let_def even_iff_mod_2_eq_zero mult.commute [of _ 2])
  have d': "(0::rat) < of_int d" using d by simp
  have two: "of_int (2 * r) = (2::rat) * of_int r" by simp
  have lt: "of_int r / of_int d < (1/2 :: rat)" if "2 * r < d"
    using that d' by (simp add: field_simps del: of_int_mult flip: two)
  have gt: "(1/2 :: rat) < of_int r / of_int d" if "d < 2 * r"
    using that d' by (simp add: field_simps del: of_int_mult flip: two)
  have eq: "of_int r / of_int d = (1/2 :: rat)" if "2 * r = d"
    using d' by (simp add: field_simps flip: that)
  have nn: "(0::rat) \<le> of_int r / of_int d" and l1: "of_int r / of_int d < (1::rat)"
    using r d by auto
  define x :: rat where "x = of_int r / of_int d"
  consider "2 * r < d" | "d < 2 * r" | "2 * r = d" by linarith
  note cs = this
  have "\<bar>of_int (round_units u HALF_EVEN) - u\<bar> \<le> 1 / 2 \<and>
     (\<bar>of_int (round_units u HALF_EVEN) - u\<bar> = 1 / 2 \<longrightarrow> even (round_units u HALF_EVEN))"
    using cs
  proof cases
    case 1
    then have "of_int (round_units u HALF_EVEN) - u = - x" using uf res by (simp add: x_def)
    with nn lt [OF 1] show ?thesis by (simp add: x_def [symmetric])
  next
    case 2
    then have "of_int (round_units u HALF_EVEN) - u = 1 - x" using uf res by (simp add: x_def)
    with l1 gt [OF 2] show ?thesis by (simp add: x_def [symmetric])
  next
    case 3
    then have "round_units u HALF_EVEN = (if even f then f else f + 1)" using res by simp
    moreover have "u = of_int f + 1 / 2" using uf eq [OF 3] by simp
    ultimately show ?thesis by simp
  qed
  then show "\<bar>of_int (round_units u HALF_EVEN) - u\<bar> \<le> 1 / 2"
    and "\<bar>of_int (round_units u HALF_EVEN) - u\<bar> = 1 / 2 \<Longrightarrow> even (round_units u HALF_EVEN)"
    by simp_all
qed

lemma round_fraction_Inr:
  assumes "round_fraction_to_quantum q quantum mode = Inr d"
  shows "0 < dval quantum" and "dval d = dval quantum * of_int (round_units (q / dval quantum) mode)"
  using assms
  by (auto simp: round_fraction_to_quantum_def Let_def dest: terminating_decimal_sound split: if_splits)

lemma round_half_even_close:
  assumes "round_fraction_to_quantum q quantum HALF_EVEN = Inr d"
  shows "2 * \<bar>dval d - q\<bar> \<le> dval quantum"
proof -
  note r = round_fraction_Inr [OF assms]
  let ?u = "q / dval quantum"
  have "dval d - q = (of_int (round_units ?u HALF_EVEN) - ?u) * dval quantum"
    using r by (simp add: field_simps)
  then have "\<bar>dval d - q\<bar> = \<bar>of_int (round_units ?u HALF_EVEN) - ?u\<bar> * dval quantum"
    using r(1) by (simp add: abs_mult)
  also have "\<dots> \<le> 1 / 2 * dval quantum"
    using round_units_half_even(1) [of ?u] r(1) by (intro mult_right_mono) simp_all
  finally show ?thesis by simp
qed

section \<open>The interface of exact arithmetic\<close>

text \<open>
  Every ledger of the program computes through these operations or through wrappers that translate
  their exception.  The laws below are what the ledgers rely on; each module's wrappers are
  interpreted against them.
\<close>

locale exact_ops =
  fixes val :: "'d \<Rightarrow> rat" and ok :: "'d \<Rightarrow> bool"
    and add :: "'d \<Rightarrow> 'd \<Rightarrow> 'd result" and sub :: "'d \<Rightarrow> 'd \<Rightarrow> 'd result"
    and total :: "'d list \<Rightarrow> 'd result" and product :: "'d list \<Rightarrow> 'd result"
  assumes add_val: "add a b = Inr c \<Longrightarrow> ok c \<and> val c = val a + val b"
    and sub_val: "sub a b = Inr c \<Longrightarrow> ok c \<and> val c = val a - val b"
    and total_val: "total xs = Inr c \<Longrightarrow> ok c \<and> val c = sum_list (map val xs)"
    and product_val: "product xs = Inr c \<Longrightarrow> ok c \<and> val c = prod_list (map val xs)"
begin

lemma transfer_conserves:
  "sub r x = Inr r' \<Longrightarrow> add c x = Inr c' \<Longrightarrow> val r' + val c' = val r + val c"
  by (auto dest!: add_val sub_val)

lemma add_then_sub: "add a x = Inr b \<Longrightarrow> sub b x = Inr c \<Longrightarrow> val c = val a"
  by (auto dest!: add_val sub_val)

lemma sub_then_add: "sub a x = Inr b \<Longrightarrow> add b x = Inr c \<Longrightarrow> val c = val a"
  by (auto dest!: add_val sub_val)

lemma sub_nonneg: "sub a x = Inr b \<Longrightarrow> val x \<le> val a \<Longrightarrow> 0 \<le> val b"
  by (auto dest!: sub_val)

lemma total_member_le:
  assumes "total xs = Inr t" and "x \<in> set xs" and "\<And>y. y \<in> set xs \<Longrightarrow> 0 \<le> val y"
  shows "val x \<le> val t"
  using total_val [OF assms(1)] sum_list_member_le [of x xs val] assms(2,3) by simp

lemma total_Cons: "total (x # xs) = Inr s \<Longrightarrow> total xs = Inr t \<Longrightarrow> val s = val x + val t"
  by (auto dest!: total_val)

end

interpretation exact: exact_ops dval in_envelope exact_add exact_subtract exact_sum exact_multiply
  by unfold_locales (auto dest: exact_simps)

section \<open>Properties\<close>

lemma exact_step_cases:
  assumes "m = rbind (as_fraction a) (\<lambda>x. rbind (as_fraction b) (\<lambda>y.
      rbind (validate_fraction_intermediate (g x y)) (\<lambda>_. terminating_decimal (g x y))))"
  shows "case m of
      Inr c \<Rightarrow> in_envelope a \<and> in_envelope b \<and> in_envelope c \<and> dval c = g (dval a) (dval b)
    | Inl e \<Rightarrow> e = ExactDecimalError \<and> \<not> (in_envelope a \<and> in_envelope b \<and> representable (g (dval a) (dval b)))"
proof (cases "in_envelope a \<and> in_envelope b")
  case True
  show ?thesis
  proof (cases "g (dval a) (dval b)" rule: terminating_decimal_cases)
    case (returns d)
    with True representable_bounded show ?thesis by (simp add: assms as_fraction_eq validate_fraction_eq)
  next
    case raises
    with True show ?thesis by (simp add: assms as_fraction_eq validate_fraction_eq)
  qed
qed (auto simp: assms as_fraction_eq)

text \<open>Exact addition and subtraction are total in their answers: they return the exact sum or difference,
  itself within the envelope, precisely when both operands are within the envelope and the result
  has a representation in it, and otherwise raise \<open>ExactDecimalError\<close>; nothing is ever rounded.\<close>

theorem exact_add_subtract_correct:
  "(case exact_add a b of
      Inr c \<Rightarrow> in_envelope a \<and> in_envelope b \<and> in_envelope c \<and> dval c = dval a + dval b
    | Inl e \<Rightarrow> e = ExactDecimalError \<and> \<not> (in_envelope a \<and> in_envelope b \<and> representable (dval a + dval b)))
   \<and> (case exact_subtract a b of
      Inr c \<Rightarrow> in_envelope a \<and> in_envelope b \<and> in_envelope c \<and> dval c = dval a - dval b
    | Inl e \<Rightarrow> e = ExactDecimalError \<and> \<not> (in_envelope a \<and> in_envelope b \<and> representable (dval a - dval b)))"
  by (intro conjI exact_step_cases [where g = "(+)"] exact_step_cases [where g = "(-)"])
    (simp_all add: exact_add_def exact_subtract_def)

text \<open>A rational is turned into a Decimal exactly when some Decimal within the envelope has that value; the
  bounded loops over the factors 2 and 5 lose no representable value and the result is exact.\<close>

theorem terminating_decimal_correct:
  "case terminating_decimal q of
     Inr d \<Rightarrow> in_envelope d \<and> dval d = q
   | Inl e \<Rightarrow> e = ExactDecimalError \<and> (\<nexists>d. in_envelope d \<and> dval d = q)"
  by (cases q rule: terminating_decimal_cases) (auto simp: representable_def)

lemma scale_less:
  fixes a b c :: rat
  shows "0 < c \<Longrightarrow> a < b + 1 \<Longrightarrow> a * c < b * c + c"
  using mult_strict_right_mono [of a "b + 1" c] by (simp add: distrib_right)

text \<open>Rounding to a positive quantum gives a multiple of the quantum: the nearest one below for
  \<open>FLOOR\<close>, the nearest one above for \<open>CEILING\<close>, and one at most half a quantum away for
  \<open>HALF_EVEN\<close>, an even multiple on a tie.\<close>

theorem round_fraction_to_quantum_correct:
  assumes "round_fraction_to_quantum q quantum mode = Inr d"
  shows "\<exists>k. dval d = of_int k * dval quantum \<and> 0 < dval quantum \<and>
    (case mode of
       FLOOR \<Rightarrow> dval d \<le> q \<and> q < dval d + dval quantum
     | CEILING \<Rightarrow> q \<le> dval d \<and> dval d < q + dval quantum
     | HALF_EVEN \<Rightarrow> 2 * \<bar>dval d - q\<bar> \<le> dval quantum \<and> (2 * \<bar>dval d - q\<bar> = dval quantum \<longrightarrow> even k))"
proof -
  define u k where "u = q / dval quantum" and "k = round_units u mode"
  note r = round_fraction_Inr [OF assms]
  have q: "q = u * dval quantum" using r(1) by (simp add: u_def)
  have d: "dval d = of_int k * dval quantum" using r(2) by (simp add: u_def k_def mult.commute)
  have diff: "\<bar>dval d - q\<bar> = \<bar>of_int k - u\<bar> * dval quantum"
    using r(1) by (simp add: d q abs_mult left_diff_distrib [symmetric])
  have "case mode of
       FLOOR \<Rightarrow> of_int k \<le> u \<and> u < of_int k + 1
     | CEILING \<Rightarrow> u \<le> of_int k \<and> of_int k < u + 1
     | HALF_EVEN \<Rightarrow> 2 * \<bar>of_int k - u\<bar> \<le> 1 \<and> (2 * \<bar>of_int k - u\<bar> = 1 \<longrightarrow> even k)"
    using round_units_half_even [of u] ceiling_correct [of u] floor_correct [of u]
    by (cases mode) (auto simp: k_def round_units_floor round_units_ceiling)
  then have "case mode of
       FLOOR \<Rightarrow> dval d \<le> q \<and> q < dval d + dval quantum
     | CEILING \<Rightarrow> q \<le> dval d \<and> dval d < q + dval quantum
     | HALF_EVEN \<Rightarrow> 2 * \<bar>dval d - q\<bar> \<le> dval quantum \<and> (2 * \<bar>dval d - q\<bar> = dval quantum \<longrightarrow> even k)"
    using r(1) unfolding diff
    by (cases mode) (auto simp: d q mult_le_cancel_right scale_less simp flip: mult.assoc
        intro: mult_right_mono [of _ 1, simplified])
  with d r(1) show ?thesis by blast
qed

text \<open>The digit counter that stops early is a sound bound check: it reports at most \<open>limit\<close> digits
  exactly for the integers of absolute value below \<open>10 ^ limit\<close>.\<close>

theorem integer_digit_count_bounds:
  assumes "0 < limit"
  shows "integer_digit_count v limit \<le> limit \<longleftrightarrow> \<bar>v\<bar> < 10 ^ limit"
  using assms by (rule integer_digit_count_le_iff)

text \<open>The grid test answers whether the value is an integer multiple of the quantum.\<close>

theorem is_exact_decimal_multiple_correct:
  assumes "is_exact_decimal_multiple v quantum = Inr b"
  shows "b \<longleftrightarrow> (\<exists>k::int. dval v = of_int k * dval quantum)"
  using assms by (rule exact_multiple_iff)

lemma round_example:
  "round_fraction_to_quantum (5 / 2) (Decimal False 1 0) HALF_EVEN = Inr (Decimal False 2 0)"
  by code_simp

theorem round_fraction_to_quantum_correct_witness:
  "\<exists>k. dval (Decimal False 2 0) = of_int k * dval (Decimal False 1 0) \<and> 0 < dval (Decimal False 1 0)
    \<and> 2 * \<bar>dval (Decimal False 2 0) - 5 / 2\<bar> \<le> dval (Decimal False 1 0)
    \<and> (2 * \<bar>dval (Decimal False 2 0) - 5 / 2\<bar> = dval (Decimal False 1 0) \<longrightarrow> even k)"
  using round_fraction_to_quantum_correct [OF round_example] by simp

theorem integer_digit_count_bounds_witness:
  "integer_digit_count (- 1000) 3 \<le> 3 \<longleftrightarrow> \<bar>- 1000 :: int\<bar> < 10 ^ 3"
  by (rule integer_digit_count_bounds) simp

lemma multiple_example: "is_exact_decimal_multiple (Decimal False 75 (- 2)) (Decimal False 25 (- 2)) = Inr True"
  by code_simp

theorem is_exact_decimal_multiple_correct_witness:
  "True \<longleftrightarrow> (\<exists>k::int. dval (Decimal False 75 (- 2)) = of_int k * dval (Decimal False 25 (- 2)))"
  by (rule is_exact_decimal_multiple_correct [OF multiple_example])

end
