(* ===== verification/Exact_Decimal_Text.thy ===== *)
theory Exact_Decimal_Text
  imports Exact_Decimal
begin

text \<open>
  The text boundary of \<open>autotrade_numeric/exact_decimal.py\<close>: admission of Decimal, integer and
  text input (\<open>parse_bounded_exact_decimal\<close> and the JSON token callbacks), the canonical wire
  grammar (\<open>is_valid_common_scalar\<close>) and the canonical text of a Decimal.  A returned Decimal has
  the value of what was passed in and fits the envelope; the lexical preflight admits exactly what
  the envelope check accepts afterwards; canonical text parses back to the same value.
\<close>

section \<open>Text\<close>

definition is_digit :: "char \<Rightarrow> bool" where
  "is_digit c \<longleftrightarrow> (let n = (of_char c :: nat) in 48 \<le> n \<and> n \<le> 57)"

definition digit_value :: "char \<Rightarrow> nat" where
  "digit_value c = of_char c - 48"

definition digit_char :: "nat \<Rightarrow> char" where
  "digit_char d = ''0123456789'' ! d"

definition digits_text :: "nat list \<Rightarrow> string" where
  "digits_text ds = map digit_char ds"

definition text_value :: "string \<Rightarrow> nat" where
  "text_value s = nat_of_digits (map digit_value s)"

definition is_sign :: "char \<Rightarrow> bool" where
  "is_sign c \<longleftrightarrow> c = CHR ''-'' \<or> c = CHR ''+''"

fun drop_sign :: "string \<Rightarrow> string" where
  "drop_sign (c # s) = (if is_sign c then s else c # s)"
| "drop_sign [] = []"

text \<open>\<open>str.partition\<close> and \<open>str.find\<close> on one character.\<close>

definition partition_at :: "char \<Rightarrow> string \<Rightarrow> string \<times> bool \<times> string" where
  "partition_at c s = (takeWhile (\<lambda>x. x \<noteq> c) s, c \<in> set s, drop 1 (dropWhile (\<lambda>x. x \<noteq> c) s))"

definition all_digits :: "string \<Rightarrow> bool" where
  "all_digits s \<longleftrightarrow> list_all is_digit s"

definition match_exponent :: "string \<Rightarrow> bool" where
  "match_exponent s =
     (case s of [] \<Rightarrow> True
      | c # t \<Rightarrow> (c = CHR ''e'' \<or> c = CHR ''E'') \<and> drop_sign t \<noteq> [] \<and> all_digits (drop_sign t))"

text \<open>\<open>_BOUNDED_PRESENTATION\<close>, matched from the left; every alternative is decided by the next
  character, so the match needs no backtracking.\<close>

definition match_bounded_presentation :: "string \<Rightarrow> bool" where
  "match_bounded_presentation s =
     (let u = drop_sign s; ip = takeWhile is_digit u; r = dropWhile is_digit u in
      case r of
        [] \<Rightarrow> ip \<noteq> []
      | c # r1 \<Rightarrow>
          if c = CHR ''.''
          then (ip \<noteq> [] \<or> takeWhile is_digit r1 \<noteq> []) \<and> match_exponent (dropWhile is_digit r1)
          else ip \<noteq> [] \<and> match_exponent r)"

definition match_json_integer_part :: "string \<Rightarrow> bool" where
  "match_json_integer_part ip \<longleftrightarrow> ip = ''0'' \<or> (ip \<noteq> [] \<and> hd ip \<noteq> CHR ''0'')"

definition drop_minus :: "string \<Rightarrow> string" where
  "drop_minus s = (case s of c # t \<Rightarrow> if c = CHR ''-'' then t else s | [] \<Rightarrow> s)"

definition match_json_number :: "string \<Rightarrow> bool" where
  "match_json_number s =
     (let u = drop_minus s; ip = takeWhile is_digit u; r = dropWhile is_digit u in
      match_json_integer_part ip \<and>
      (case r of
         [] \<Rightarrow> True
       | c # r1 \<Rightarrow>
           if c = CHR ''.''
           then takeWhile is_digit r1 \<noteq> [] \<and> match_exponent (dropWhile is_digit r1)
           else match_exponent r))"

definition match_json_integer :: "string \<Rightarrow> bool" where
  "match_json_integer s \<longleftrightarrow> all_digits (drop_minus s) \<and> match_json_integer_part (drop_minus s)"


text \<open>Bounded exponents: the loop stops growing the magnitude once it is out of range.\<close>

definition saturating_step :: "int \<Rightarrow> int \<Rightarrow> char \<Rightarrow> int" where
  "saturating_step saturation magnitude c =
     (if magnitude \<le> saturation
      then min (saturation + 1) (magnitude * 10 + int (digit_value c))
      else magnitude)"

definition bounded_exponent :: "string \<Rightarrow> int \<Rightarrow> int \<Rightarrow> int result" where
  "bounded_exponent t minimum maximum =
     (case t of
        [] \<Rightarrow> Inr 0
      | c # t' \<Rightarrow>
          let negative = (c = CHR ''-'');
              digits = (if is_sign c then t' else t);
              saturation = max \<bar>minimum\<bar> \<bar>maximum\<bar> + 1;
              magnitude = foldl (saturating_step saturation) 0 digits;
              v = (if negative then - magnitude else magnitude)
          in if v < minimum \<or> maximum < v then Inl ExactDecimalError else Inr v)"

text \<open>The mantissa and the exponent text of a presentation: \<open>find("e")\<close>, then \<open>find("E")\<close>.\<close>

definition split_exponent :: "string \<Rightarrow> string \<times> bool \<times> string" where
  "split_exponent u =
     (if CHR ''e'' \<in> set u then partition_at (CHR ''e'') u else partition_at (CHR ''E'') u)"

definition preflight_bounded_presentation :: "string \<Rightarrow> bool \<Rightarrow> bool result" where
  "preflight_bounded_presentation v allow_exponent =
     (if MAX_DECIMAL_TEXT_LENGTH < length v \<or> \<not> match_bounded_presentation v
      then Inl ExactDecimalError
      else
        let unsigned = drop_sign v;
            (mantissa, has_exponent, exponent_text) = split_exponent unsigned
        in if has_exponent \<and> \<not> allow_exponent then Inl ExactDecimalError
        else
          let (integer_part, dot, fractional_part) = partition_at (CHR ''.'') mantissa;
              coefficient = dropWhile (\<lambda>c. c = CHR ''0'') (integer_part @ fractional_part)
          in if coefficient = [] then Inr True
          else
            let significant_digits = length coefficient in
            if MAX_SIGNIFICANT_DIGITS < significant_digits then Inl ExactDecimalError
            else
              let fractional_length = int (if dot then length fractional_part else 0) in
              rbind (bounded_exponent exponent_text
                       (fractional_length - int MAX_SCALE)
                       (fractional_length + int MAX_INTEGER_DIGITS - int significant_digits))
                (\<lambda>exponent.
                  let tuple_exponent = exponent - fractional_length in
                  if int MAX_SCALE < max (- tuple_exponent) 0
                     \<or> int MAX_INTEGER_DIGITS < max (int significant_digits + tuple_exponent) 0
                  then Inl ExactDecimalError
                  else Inr False))"

text \<open>The constructor \<open>Decimal(text)\<close> on a text that matched the presentation grammar.\<close>

definition signed_text_value :: "string \<Rightarrow> int" where
  "signed_text_value t =
     (case t of
        [] \<Rightarrow> 0
      | c # t' \<Rightarrow> if c = CHR ''-'' then - int (text_value t')
                 else int (text_value (drop_sign t)))"

definition decimal_of_text :: "string \<Rightarrow> decimal" where
  "decimal_of_text v =
     (let (mantissa, _, exponent_text) = split_exponent (drop_sign v);
          (integer_part, _, fractional_part) = partition_at (CHR ''.'') mantissa
      in Decimal (v \<noteq> [] \<and> hd v = CHR ''-'')
           (text_value (integer_part @ fractional_part))
           (signed_text_value exponent_text - int (length fractional_part)))"

definition parse_bounded_exact_decimal :: "pynum \<Rightarrow> bool \<Rightarrow> decimal result" where
  "parse_bounded_exact_decimal v allow_exponent =
     (case v of
        PyDecimal d \<Rightarrow>
          rbind (validate_decimal_envelope d) (\<lambda>_.
            if dval d = 0 then Inr dzero else Inr d)
      | PyInt n \<Rightarrow>
          if n = 0 then Inr dzero
          else
            let limit = min MAX_SIGNIFICANT_DIGITS MAX_INTEGER_DIGITS in
            if limit < integer_digit_count n limit then Inl ExactDecimalError
            else
              let r = Decimal (n < 0) (nat \<bar>n\<bar>) 0 in
              rbind (validate_decimal_envelope r) (\<lambda>_. Inr r)
      | PyStr t \<Rightarrow>
          rbind (preflight_bounded_presentation t allow_exponent) (\<lambda>is_zero.
            if is_zero then Inr dzero
            else let r = decimal_of_text t in
              rbind (validate_decimal_envelope r) (\<lambda>_. Inr r))
      | _ \<Rightarrow> Inl ExactDecimalError)"

definition parse_bounded_json_number_token :: "string \<Rightarrow> decimal result" where
  "parse_bounded_json_number_token t =
     (if MAX_DECIMAL_TEXT_LENGTH < length t \<or> \<not> match_json_number t then Inl ExactDecimalError
      else parse_bounded_exact_decimal (PyStr t) True)"

definition parse_bounded_json_integer_token :: "string \<Rightarrow> int result" where
  "parse_bounded_json_integer_token t =
     (if MAX_DECIMAL_TEXT_LENGTH < length t \<or> \<not> match_json_integer t then Inl ExactDecimalError
      else if t = ''0'' \<or> t = ''-0'' then Inr 0
      else
        let digits = length t - (if hd t = CHR ''-'' then 1 else 0) in
        if min MAX_SIGNIFICANT_DIGITS MAX_INTEGER_DIGITS < digits then Inl ExactDecimalError
        else Inr (signed_text_value t))"

text \<open>The common scalars of the wire contract, \<open>is_valid_common_scalar\<close>.\<close>

definition match_nonzero_fraction :: "string \<Rightarrow> bool" where
  "match_nonzero_fraction fp \<longleftrightarrow> fp \<noteq> [] \<and> all_digits fp \<and> last fp \<noteq> CHR ''0''"

definition match_decimal_magnitude :: "string \<Rightarrow> bool" where
  "match_decimal_magnitude u =
     (let (ip, dot, fp) = partition_at (CHR ''.'') u in
      all_digits ip \<and> ip \<noteq> [] \<and>
      (if hd ip = CHR ''0'' then ip = ''0'' \<and> dot \<and> match_nonzero_fraction fp
       else (dot \<longrightarrow> match_nonzero_fraction fp)))"

definition match_canonical_decimal :: "string \<Rightarrow> bool" where
  "match_canonical_decimal s \<longleftrightarrow> s = ''0'' \<or> match_decimal_magnitude (drop_minus s)"

definition within_decimal_envelope :: "string \<Rightarrow> bool" where
  "within_decimal_envelope v =
     (let unsigned = drop_minus v;
          (integer_part, dot, fractional_part) = partition_at (CHR ''.'') unsigned;
          integer_magnitude = (if integer_part = ''0'' then 0 else length integer_part);
          scale = (if dot then length fractional_part else 0);
          stripped = length (dropWhile (\<lambda>c. c = CHR ''0'') (integer_part @ fractional_part));
          significant_digits = (if stripped = 0 then 1 else stripped)
      in significant_digits \<le> MAX_SIGNIFICANT_DIGITS \<and> scale \<le> MAX_SCALE
         \<and> integer_magnitude \<le> MAX_INTEGER_DIGITS)"

definition is_hex_lower :: "char \<Rightarrow> bool" where
  "is_hex_lower c \<longleftrightarrow> is_digit c \<or> (97 \<le> (of_char c :: nat) \<and> (of_char c :: nat) \<le> 102)"

definition is_alnum :: "char \<Rightarrow> bool" where
  "is_alnum c \<longleftrightarrow> is_digit c \<or> (65 \<le> (of_char c :: nat) \<and> (of_char c :: nat) \<le> 90)
     \<or> (97 \<le> (of_char c :: nat) \<and> (of_char c :: nat) \<le> 122)"

definition is_valid_common_scalar :: "string \<Rightarrow> string \<Rightarrow> bool result" where
  "is_valid_common_scalar kind v =
     (if kind = ''Environment''
        then Inr (v = ''REPLAY'' \<or> v = ''SIMULATION'' \<or> v = ''PAPER'' \<or> v = ''LIVE'')
      else if kind = ''Decimal''
        then Inr (length v \<le> 259 \<and> match_canonical_decimal v \<and> within_decimal_envelope v)
      else if kind = ''Sequence''
        then Inr (all_digits v \<and> match_json_integer_part v)
      else if kind = ''Digest''
        then Inr (take 7 v = ''sha256:'' \<and> length v = 71 \<and> list_all is_hex_lower (drop 7 v))
      else if kind = ''CurrencyId''
        then Inr (1 \<le> length v \<and> length v \<le> 32
               \<and> list_all (\<lambda>c. is_alnum c \<or> c \<in> set ''._:-'') v)
      else if kind = ''UnitId''
        then Inr (1 \<le> length v \<and> length v \<le> 64
               \<and> list_all (\<lambda>c. is_alnum c \<or> c \<in> set ''._:/-'') v)
      else Inl ValueError)"

definition parse_canonical_decimal_text :: "string \<Rightarrow> decimal result" where
  "parse_canonical_decimal_text v =
     rbind (is_valid_common_scalar ''Decimal'' v) (\<lambda>ok.
       if \<not> ok then Inl ExactDecimalError
       else let r = decimal_of_text v in
         rbind (validate_decimal_envelope r) (\<lambda>_. Inr r))"

text \<open>\<open>format(value, "f")\<close> and the trimming of \<open>canonical_decimal_text\<close>.\<close>

fun format_fixed :: "decimal \<Rightarrow> string" where
  "format_fixed (Decimal s c e) =
     (let ds = digits_text (digits_of c) in
      (if s then ''-'' else []) @
      (if 0 \<le> e then ds @ replicate (nat e) (CHR ''0'')
       else
         let n = nat (- e) in
         if n < length ds then take (length ds - n) ds @ ''.'' @ drop (length ds - n) ds
         else ''0.'' @ replicate (n - length ds) (CHR ''0'') @ ds))"
| "format_fixed NaN = ''NaN''"
| "format_fixed (Infinity s) = (if s then ''-Infinity'' else ''Infinity'')"

definition canonical_decimal_text :: "decimal \<Rightarrow> string result" where
  "canonical_decimal_text v =
     rbind (validate_decimal_envelope v) (\<lambda>_.
       if dval v = 0 then Inr ''0''
       else
         let fixed = format_fixed v in
         if CHR ''.'' \<in> set fixed
         then Inr (rstrip_by (\<lambda>c. c = CHR ''.'') (rstrip_by (\<lambda>c. c = CHR ''0'') fixed))
         else Inr fixed)"

section \<open>Notions used in the proofs\<close>

abbreviation small_digits :: "nat list \<Rightarrow> bool" where
  "small_digits ds \<equiv> list_all (\<lambda>d. d < 10) ds"

definition fixed_parts :: "nat \<Rightarrow> int \<Rightarrow> nat list \<times> nat list" where
  "fixed_parts c e =
     (let ds = digits_of c in
      if 0 \<le> e then (ds @ replicate (nat e) 0, [])
      else let n = nat (- e) in
        if n < length ds then (take (length ds - n) ds, drop (length ds - n) ds)
        else ([0], replicate (n - length ds) 0 @ ds))"

definition trim_zeros :: "nat list \<Rightarrow> nat list" where
  "trim_zeros ds = rev (dropWhile (\<lambda>d. d = 0) (rev ds))"

definition assemble :: "bool \<Rightarrow> nat list \<Rightarrow> nat list \<Rightarrow> string" where
  "assemble s ip fp =
     (if s then ''-'' else []) @ digits_text ip @ (if fp = [] then [] else CHR ''.'' # digits_text fp)"

fun pyval :: "pynum \<Rightarrow> rat" where
  "pyval (PyDecimal d) = dval d"
| "pyval (PyInt n) = of_int n"
| "pyval (PyStr t) = dval (decimal_of_text t)"
| "pyval _ = 0"

section \<open>Text round trip\<close>

lemma digit_cases: "d < (10::nat) \<Longrightarrow>
  d = 0 \<or> d = 1 \<or> d = 2 \<or> d = 3 \<or> d = 4 \<or> d = 5 \<or> d = 6 \<or> d = 7 \<or> d = 8 \<or> d = 9"
  by (auto simp: numeral_eq_Suc less_Suc_eq)

lemma digit_char_facts:
  assumes "d < 10"
  shows "is_digit (digit_char d)" and "digit_value (digit_char d) = d"
    and "digit_char d = CHR ''0'' \<longleftrightarrow> d = 0"
  using digit_cases [OF assms] by (auto simp: digit_char_def is_digit_def digit_value_def)

lemma is_digit_not:
  assumes "is_digit c"
  shows "c \<noteq> CHR ''.''" "c \<noteq> CHR ''-''" "c \<noteq> CHR ''+''" "c \<noteq> CHR ''e''" "c \<noteq> CHR ''E''"
  using assms by (auto simp: is_digit_def)

lemma digits_text_simps [simp]:
  "digits_text [] = []" "digits_text (d # ds) = digit_char d # digits_text ds"
  "digits_text (xs @ ys) = digits_text xs @ digits_text ys"
  "length (digits_text ds) = length ds" "digits_text ds = [] \<longleftrightarrow> ds = []"
  "digits_text (take n ds) = take n (digits_text ds)" "digits_text (drop n ds) = drop n (digits_text ds)"
  "digits_text (replicate n 0) = replicate n (CHR ''0'')"
  by (simp_all add: digits_text_def take_map drop_map digit_char_def)

lemma digits_text_all_digits: "small_digits ds \<Longrightarrow> all_digits (digits_text ds)"
  by (induction ds) (auto simp: all_digits_def digit_char_facts)

lemma text_value_digits: "small_digits ds \<Longrightarrow> text_value (digits_text ds) = nat_of_digits ds"
proof -
  assume "small_digits ds"
  then have "map digit_value (digits_text ds) = ds"
    by (induction ds) (auto simp: digit_char_facts)
  then show ?thesis by (simp add: text_value_def)
qed

lemma nat_of_digits_append_list:
  "nat_of_digits (xs @ ys) = nat_of_digits xs * 10 ^ length ys + nat_of_digits ys"
proof (induction ys rule: rev_induct)
  case (snoc y ys)
  then show ?case
    by (simp add: nat_of_digits_append algebra_simps flip: append_assoc)
qed simp

lemma nat_of_digits_replicate [simp]: "nat_of_digits (replicate n 0) = 0"
  by (rule nat_of_digits_zero) (simp add: list_all_iff)

lemma nat_of_digits_leading [simp]:
  "nat_of_digits (0 # ds) = nat_of_digits ds" "nat_of_digits (replicate n 0 @ ds) = nat_of_digits ds"
  by (simp_all add: nat_of_digits_append_list) (simp add: nat_of_digits_def)

lemma small_digits_of [simp]: "small_digits (digits_of n)"
  by (auto simp: list_all_iff dest: digits_of_small)

lemma fixed_parts_small:
  assumes "fixed_parts c e = (ip, fp)"
  shows "small_digits ip" and "small_digits fp"
  using assms small_digits_of [of c]
  by (auto simp: fixed_parts_def Let_def list_all_iff split: if_splits dest: in_set_takeD in_set_dropD)

lemma hd_digits_of: "0 < c \<Longrightarrow> hd (digits_of c) \<noteq> 0"
proof (induction c rule: digits_of.induct)
  case (1 c)
  show ?case
  proof (cases "c < 10")
    case True
    with "1.prems" show ?thesis by (subst digits_of.simps) simp
  next
    case False
    then have "hd (digits_of (c div 10)) \<noteq> 0" using "1.IH" by simp
    with False show ?thesis by (subst digits_of.simps) simp
  qed
qed

lemma fixed_parts_value:
  assumes "fixed_parts c e = (ip, fp)"
  shows "nat_of_digits (ip @ fp) = c * 10 ^ nat e" and "length fp = nat (- e)"
    and "ip \<noteq> []" and "0 < c \<Longrightarrow> hd ip \<noteq> 0 \<or> ip = [0]"
proof -
  have tk: "take n ds \<noteq> [] \<and> hd (take n ds) = hd ds" if "0 < n" "ds \<noteq> []" for n and ds :: "nat list"
    using that by (cases ds; cases n) auto
  show "nat_of_digits (ip @ fp) = c * 10 ^ nat e"
    using assms
    by (auto simp: fixed_parts_def Let_def nat_of_digits_append_list [of "digits_of c"] split: if_splits)
  show "length fp = nat (- e)" and "ip \<noteq> []"
    using assms by (auto simp: fixed_parts_def Let_def split: if_splits)
  show "hd ip \<noteq> 0 \<or> ip = [0]" if "0 < c"
    using that assms hd_digits_of [of c] tk [of _ "digits_of c"]
    by (auto simp: fixed_parts_def Let_def split: if_splits)
qed

lemma format_fixed_parts:
  assumes "fixed_parts c e = (ip, fp)"
  shows "format_fixed (Decimal s c e) =
    (if s then ''-'' else []) @ digits_text ip @ (if 0 \<le> e then [] else CHR ''.'' # digits_text fp)"
  using assms by (auto simp: fixed_parts_def Let_def digit_char_def split: if_splits)

lemma trim_zeros_split: "\<exists>n. ds = trim_zeros ds @ replicate n 0"
proof -
  have "takeWhile (\<lambda>d. d = 0) xs = replicate (length (takeWhile (\<lambda>d. d = 0) xs)) (0::nat)" for xs :: "nat list"
    by (induction xs) auto
  then obtain n where "takeWhile (\<lambda>d. d = 0) (rev ds) = replicate n 0" by blast
  then have "rev ds = replicate n 0 @ rev (trim_zeros ds)"
    unfolding trim_zeros_def by (metis rev_rev_ident takeWhile_dropWhile_id)
  then have "ds = trim_zeros ds @ replicate n 0"
    by (metis rev_append rev_replicate rev_rev_ident)
  then show ?thesis ..
qed

lemma trim_zeros_last: "trim_zeros ds \<noteq> [] \<Longrightarrow> last (trim_zeros ds) \<noteq> 0"
  unfolding trim_zeros_def by (subst last_rev) (metis (mono_tags, lifting) hd_dropWhile rev_is_Nil_conv)

lemma rstrip_by_append:
  "rstrip_by P (xs @ ys) = (if \<forall>c \<in> set ys. P c then rstrip_by P xs else xs @ rstrip_by P ys)"
  by (auto simp: rstrip_by_def dropWhile_append)

lemma rstrip_by_Cons: "\<not> P c \<Longrightarrow> rstrip_by P (c # ys) = c # rstrip_by P ys"
  by (auto simp: rstrip_by_def dropWhile_append)

lemma rstrip_zero_digits:
  "small_digits ds \<Longrightarrow> rstrip_by (\<lambda>c. c = CHR ''0'') (digits_text ds) = digits_text (trim_zeros ds)"
proof (induction ds rule: rev_induct)
  case Nil
  then show ?case by (simp add: rstrip_by_def trim_zeros_def)
next
  case (snoc d ds)
  then show ?case
    by (auto simp: rstrip_by_append trim_zeros_def digit_char_facts) (auto simp: rstrip_by_def digit_char_facts)
qed

lemma canonical_text_assembled:
  assumes "in_envelope (Decimal s c e)" and "c \<noteq> 0" and "fixed_parts c e = (ip, fp)"
  shows "canonical_decimal_text (Decimal s c e) = Inr (assemble s ip (trim_zeros fp))"
proof -
  note small = fixed_parts_small [OF assms(3)]
  have nz: "dval (Decimal s c e) \<noteq> 0" using assms(2) by (simp add: power_int_not_zero)
  have dots: "CHR ''.'' \<notin> set (digits_text ds)" if "small_digits ds" for ds
    using digits_text_all_digits [OF that] is_digit_not by (auto simp: all_digits_def list_all_iff)
  have ip0: "digits_text ip \<noteq> []" using fixed_parts_value(3) [OF assms(3)] by simp
  have lastip: "last (digits_text ip) \<noteq> CHR ''.''" using dots [OF small(1)] ip0 by (metis last_in_set)
  show ?thesis
  proof (cases "0 \<le> e")
    case True
    with assms(3) have "fp = []" by (auto simp: fixed_parts_def Let_def)
    with True assms nz dots [OF small(1)] show ?thesis
      by (simp add: canonical_decimal_text_def validate_decimal_envelope_eq format_fixed_parts assemble_def
          trim_zeros_def Let_def del: dval.simps format_fixed.simps)
  next
    case False
    have pre: "rstrip_by (\<lambda>c. c = CHR ''0'') (format_fixed (Decimal s c e)) =
        ((if s then ''-'' else []) @ digits_text ip) @ CHR ''.'' # digits_text (trim_zeros fp)"
      using False assms(3) rstrip_zero_digits [OF small(2)]
        rstrip_by_append [of "\<lambda>c. c = CHR ''0''" "(if s then ''-'' else []) @ digits_text ip" "CHR ''.'' # digits_text fp"]
      by (simp add: format_fixed_parts rstrip_by_Cons del: format_fixed.simps)
    have "rstrip_by (\<lambda>c. c = CHR ''.'') (rstrip_by (\<lambda>c. c = CHR ''0'') (format_fixed (Decimal s c e))) =
        assemble s ip (trim_zeros fp)"
    proof (cases "trim_zeros fp = []")
      case True
      have "rstrip_by (\<lambda>c. c = CHR ''.'') ((if s then ''-'' else []) @ digits_text ip) =
          (if s then ''-'' else []) @ digits_text ip"
        using ip0 lastip by (intro rstrip_by_id) auto
      with True pre rstrip_by_append [of "\<lambda>c. c = CHR ''.''" "(if s then ''-'' else []) @ digits_text ip" "''.''"]
      show ?thesis by (simp add: assemble_def)
    next
      case ne: False
      have "small_digits (trim_zeros fp)"
        using small(2) trim_zeros_split [of fp] by (metis list_all_append)
      then have "CHR ''.'' \<notin> set (digits_text (trim_zeros fp))" by (rule dots)
      then have "last (digits_text (trim_zeros fp)) \<noteq> CHR ''.''" using ne by (metis digits_text_simps(5) last_in_set)
      with ne have "rstrip_by (\<lambda>c. c = CHR ''.'')
         (((if s then ''-'' else []) @ digits_text ip) @ CHR ''.'' # digits_text (trim_zeros fp)) = 
         ((if s then ''-'' else []) @ digits_text ip) @ CHR ''.'' # digits_text (trim_zeros fp)"
        by (intro rstrip_by_id) auto
      with ne pre show ?thesis by (simp add: assemble_def)
    qed
    moreover have "CHR ''.'' \<in> set (format_fixed (Decimal s c e))"
      using False assms(3) by (simp add: format_fixed_parts del: format_fixed.simps)
    ultimately show ?thesis
      using assms nz by (simp add: canonical_decimal_text_def validate_decimal_envelope_eq Let_def
          del: dval.simps format_fixed.simps)
  qed
qed

lemma partition_at_none: "c \<notin> set xs \<Longrightarrow> partition_at c xs = (xs, False, [])"
  by (induction xs) (auto simp: partition_at_def)

lemma partition_at_some: "c \<notin> set xs \<Longrightarrow> partition_at c (xs @ c # ys) = (xs, True, ys)"
  by (induction xs) (auto simp: partition_at_def)

lemma all_digits_notin: "all_digits xs \<Longrightarrow> \<not> is_digit c \<Longrightarrow> c \<notin> set xs"
  by (auto simp: all_digits_def list_all_iff)

lemma magnitude_no_exponent:
  assumes "all_digits xs" and "all_digits ys"
  shows "split_exponent (xs @ (if ys = [] then [] else CHR ''.'' # ys)) =
      (xs @ (if ys = [] then [] else CHR ''.'' # ys), False, [])"
proof -
  let ?u = "xs @ (if ys = [] then [] else CHR ''.'' # ys)"
  have e: "CHR ''e'' \<notin> set ?u" "CHR ''E'' \<notin> set ?u"
    using assms by (auto simp: all_digits_def list_all_iff is_digit_def)
  then show ?thesis using partition_at_none [OF e(2)] by (simp add: split_exponent_def del: set_append)
qed

lemma assemble_sign:
  fixes fp :: "nat list"
  assumes "small_digits ip" and "ip \<noteq> []"
  defines "u \<equiv> digits_text ip @ (if fp = [] then [] else CHR ''.'' # digits_text fp)"
  shows "drop_sign (assemble s ip fp) = u" and "drop_minus (assemble s ip fp) = u"
    and "assemble s ip fp \<noteq> [] \<and> hd (assemble s ip fp) = CHR ''-'' \<longleftrightarrow> s"
proof -
  obtain d ds where ip: "ip = d # ds" using assms(2) by (cases ip) auto
  then have "is_digit (digit_char d)" using assms(1) by (simp add: digit_char_facts)
  then have "\<not> is_sign (digit_char d)" "digit_char d \<noteq> CHR ''-''"
    by (auto simp: is_sign_def dest: is_digit_not)
  with ip show "drop_sign (assemble s ip fp) = u" "drop_minus (assemble s ip fp) = u"
    "assemble s ip fp \<noteq> [] \<and> hd (assemble s ip fp) = CHR ''-'' \<longleftrightarrow> s"
    by (auto simp: u_def assemble_def is_sign_def drop_minus_def)
qed

lemma partition_assembled:
  assumes "small_digits ip" and "small_digits fp"
  shows "partition_at (CHR ''.'') (digits_text ip @ (if fp = [] then [] else CHR ''.'' # digits_text fp)) =
     (digits_text ip, fp \<noteq> [], digits_text fp)"
proof -
  have "\<not> is_digit (CHR ''.'')" by (simp add: is_digit_def)
  then have "CHR ''.'' \<notin> set (digits_text ip)"
    by (rule all_digits_notin [OF digits_text_all_digits [OF assms(1)]])
  then show ?thesis by (simp add: partition_at_none partition_at_some)
qed

lemma decimal_of_assembled:
  assumes "small_digits ip" and "small_digits fp" and "ip \<noteq> []"
  shows "decimal_of_text (assemble s ip fp) = Decimal s (nat_of_digits (ip @ fp)) (- int (length fp))"
proof -
  let ?u = "digits_text ip @ (if fp = [] then [] else CHR ''.'' # digits_text fp)"
  have "split_exponent ?u = (?u, False, [])"
    using magnitude_no_exponent [OF digits_text_all_digits [OF assms(1)] digits_text_all_digits [OF assms(2)]]
    by simp
  moreover have "text_value (digits_text ip @ digits_text fp) = nat_of_digits (ip @ fp)"
    using assms text_value_digits [of "ip @ fp"] by simp
  ultimately show ?thesis
    using assemble_sign [OF assms(1,3), of s fp] partition_assembled [OF assms(1,2)]
    by (simp add: decimal_of_text_def signed_text_value_def Let_def)
qed

lemma dropWhile_zero_digits:
  "small_digits ds \<Longrightarrow> length (dropWhile (\<lambda>c. c = CHR ''0'') (digits_text ds)) = length (dropWhile (\<lambda>d. d = 0) ds)"
  by (induction ds) (auto simp: digit_char_facts)

lemma assembled_is_canonical:
  assumes "small_digits ip" and "small_digits fp" and "ip \<noteq> []"
    and "hd ip \<noteq> 0 \<or> (ip = [0] \<and> fp \<noteq> [])" and "fp \<noteq> [] \<Longrightarrow> last fp \<noteq> 0"
    and "if ip = [0] then length fp \<le> 256 else length ip + length fp \<le> 256"
  shows "is_valid_common_scalar ''Decimal'' (assemble s ip fp) = Inr True"
proof -
  let ?u = "digits_text ip @ (if fp = [] then [] else CHR ''.'' # digits_text fp)"
  note sgn = assemble_sign(2) [OF assms(1,3), of s fp] and part = partition_assembled [OF assms(1,2)]
  obtain d ds where ip: "ip = d # ds" and d: "d < 10" using assms(1,3) by (cases ip) auto
  have hd0: "hd (digits_text ip) = CHR ''0'' \<longleftrightarrow> hd ip = 0" using ip d by (simp add: digit_char_facts)
  have ip0: "digits_text ip = ''0'' \<longleftrightarrow> ip = [0]" using ip d by (auto simp: digit_char_facts)
  have frac: "match_nonzero_fraction (digits_text fp)" if "fp \<noteq> []"
  proof -
    have "last (digits_text fp) = digit_char (last fp)" using that by (simp add: digits_text_def last_map)
    moreover have "last fp < 10" using assms(2) that by (auto simp: list_all_iff)
    ultimately show ?thesis
      using that assms(2,5) by (simp add: match_nonzero_fraction_def digits_text_all_digits digit_char_facts)
  qed
  have "match_decimal_magnitude ?u"
    using part frac assms(3,4) hd0 ip0 digits_text_all_digits [OF assms(1)]
    by (auto simp: match_decimal_magnitude_def)
  then have m: "match_canonical_decimal (assemble s ip fp)"
    using sgn by (simp add: match_canonical_decimal_def)
  have "length (dropWhile (\<lambda>d. d = 0) (ip @ fp)) \<le> 256"
  proof (cases "ip = [0]")
    case True
    have "length (dropWhile (\<lambda>d. d = 0) fp) \<le> length fp" by (rule length_dropWhile_le)
    with True assms(6) show ?thesis by simp
  next
    case False
    then show ?thesis using assms(6) length_dropWhile_le [of "\<lambda>d. d = 0" "ip @ fp"] by simp
  qed
  then have "length (dropWhile (\<lambda>c. c = CHR ''0'') (digits_text (ip @ fp))) \<le> 256"
    using assms(1,2) by (subst dropWhile_zero_digits) auto
  then have "within_decimal_envelope (assemble s ip fp)"
    using sgn part ip0 assms(6)
    by (auto simp: within_decimal_envelope_def Let_def decimal_limits split: if_splits)
  moreover have "length (assemble s ip fp) \<le> 259"
    using assms(6) by (auto simp: assemble_def split: if_splits)
  ultimately show ?thesis using m by (simp add: is_valid_common_scalar_def)
qed

lemma fixed_parts_bounds:
  assumes "in_envelope (Decimal s c e)" and "c \<noteq> 0" and "fixed_parts c e = (ip, fp)"
  shows "if ip = [0] then length fp \<le> 256 else length ip + length fp \<le> 256"
  using assms
  by (auto simp: fixed_parts_def in_envelope_def decimal_limits Let_def split: if_splits)

lemma value_of_parts:
  assumes "fixed_parts c e = (ip, fp)"
  shows "of_nat (nat_of_digits (ip @ trim_zeros fp)) * 10 powi (- int (length (trim_zeros fp))) =
      (of_nat c * 10 powi e :: rat)"
proof -
  obtain n where n: "fp = trim_zeros fp @ replicate n 0" using trim_zeros_split by blast
  let ?t = "trim_zeros fp"
  have "nat_of_digits (ip @ fp) = nat_of_digits (ip @ ?t) * 10 ^ n"
    by (subst n) (simp add: nat_of_digits_append_list [of "ip @ ?t" "replicate n 0", simplified])
  moreover have len: "length fp = length ?t + n" by (subst n) simp
  moreover note fixed_parts_value(1,2) [OF assms]
  ultimately have nat_eq: "nat_of_digits (ip @ ?t) * 10 ^ n = c * 10 ^ nat e" and le: "length ?t + n = nat (- e)"
    by simp_all
  have rat_eq: "of_nat (nat_of_digits (ip @ ?t)) * 10 ^ n = (of_nat c * 10 ^ nat e :: rat)"
    using arg_cong [OF nat_eq, of "of_nat :: nat \<Rightarrow> rat"] by simp
  show ?thesis
  proof (cases "0 \<le> e")
    case True
    with le have "length ?t = 0" "n = 0" by auto
    with rat_eq True show ?thesis by (simp add: power_int_def)
  next
    case False
    then have "(10::rat) powi e = inverse (10 ^ length ?t * 10 ^ n)"
      using le by (simp add: power_int_def power_one_over inverse_eq_divide flip: power_add)
    moreover have "of_nat c = of_nat (nat_of_digits (ip @ ?t)) * (10::rat) ^ n"
      using rat_eq False by simp
    ultimately show ?thesis by (simp add: power_int_minus field_simps)
  qed
qed

lemma nat_of_digits_less: "small_digits ds \<Longrightarrow> nat_of_digits ds < 10 ^ length ds"
proof (induction ds rule: rev_induct)
  case (snoc d ds)
  then show ?case by (simp add: nat_of_digits_append)
qed simp

lemma parts_in_envelope:
  assumes "small_digits ip" and "small_digits fp" and "ip \<noteq> []"
    and "if ip = [0] then length fp \<le> 256 else length ip + length fp \<le> 256"
  shows "in_envelope (Decimal s (nat_of_digits (ip @ fp)) (- int (length fp)))"
proof -
  let ?v = "nat_of_digits (ip @ fp)"
  have "length (digits_of ?v) \<le> 256"
  proof (cases "ip = [0]")
    case True
    then have "?v < 10 ^ length fp" using nat_of_digits_less [OF assms(2)] by simp
    also have "\<dots> \<le> (10::nat) ^ 256" using assms(4) True by (intro power_increasing) auto
    finally show ?thesis by (subst length_digits_of) auto
  next
    case False
    have "?v < 10 ^ length (ip @ fp)" using assms(1,2) by (intro nat_of_digits_less) auto
    also have "\<dots> \<le> (10::nat) ^ 256" using assms(4) False by (intro power_increasing) auto
    finally show ?thesis by (subst length_digits_of) auto
  qed
  moreover have "length fp \<le> 256" using assms(4) by (auto split: if_splits)
  ultimately show ?thesis by (simp add: in_envelope_def decimal_limits)
qed

text \<open>The canonical text of a nonzero Decimal: no superfluous zero at either end.\<close>

definition canonical_parts :: "nat list \<Rightarrow> nat list \<Rightarrow> bool" where
  "canonical_parts ip fp \<longleftrightarrow> small_digits ip \<and> small_digits fp \<and> ip \<noteq> []
     \<and> (hd ip \<noteq> 0 \<or> (ip = [0] \<and> fp \<noteq> [])) \<and> (fp \<noteq> [] \<longrightarrow> last fp \<noteq> 0)
     \<and> (if ip = [0] then length fp \<le> 256 else length ip + length fp \<le> 256)"

abbreviation parts_decimal :: "bool \<Rightarrow> nat list \<Rightarrow> nat list \<Rightarrow> decimal" where
  "parts_decimal s ip fp \<equiv> Decimal s (nat_of_digits (ip @ fp)) (- int (length fp))"

lemma canonical_text_shape:
  assumes "in_envelope d" and "dval d \<noteq> 0"
  obtains s ip fp where "canonical_decimal_text d = Inr (assemble s ip fp)" and "canonical_parts ip fp"
    and "dval (parts_decimal s ip fp) = dval d"
proof -
  obtain s c e where d: "d = Decimal s c e" using assms(1) by (cases d) (auto simp: in_envelope_def)
  with assms(2) have c: "c \<noteq> 0" by (cases s; cases "c = 0") auto
  obtain ip fp where parts: "fixed_parts c e = (ip, fp)" by force
  let ?t = "trim_zeros fp"
  note small = fixed_parts_small [OF parts] and val = fixed_parts_value [OF parts]
  have st: "small_digits ?t" using small(2) trim_zeros_split [of fp] by (metis list_all_append)
  have v: "of_nat (nat_of_digits (ip @ ?t)) * 10 powi (- int (length ?t)) = (of_nat c * 10 powi e :: rat)"
    by (rule value_of_parts [OF parts])
  have "\<not> (ip = [0] \<and> ?t = [])" using v c by (auto simp: power_int_not_zero)
  moreover have "length ?t \<le> length fp" by (metis length_append le_add1 trim_zeros_split)
  then have "if ip = [0] then length ?t \<le> 256 else length ip + length ?t \<le> 256"
    using fixed_parts_bounds [OF _ c parts, of s] assms(1) d by (auto split: if_splits)
  ultimately have "canonical_parts ip ?t"
    using small(1) st val c trim_zeros_last [of fp] by (auto simp: canonical_parts_def)
  moreover have "canonical_decimal_text d = Inr (assemble s ip ?t)"
    using canonical_text_assembled [OF _ c parts, of s] assms(1) d by simp
  moreover have "dval (parts_decimal s ip ?t) = dval d" using v d by simp
  ultimately show thesis using that by blast
qed

lemma canonical_parts_envelope: "canonical_parts ip fp \<Longrightarrow> in_envelope (parts_decimal s ip fp)"
  by (intro parts_in_envelope) (auto simp: canonical_parts_def)

lemma canonical_text_parses:
  assumes "canonical_decimal_text d = Inr t"
  shows "\<exists>d'. parse_canonical_decimal_text t = Inr d' \<and> dval d' = dval d"
proof -
  have env: "in_envelope d"
    using assms by (auto simp: canonical_decimal_text_def validate_decimal_envelope_eq split: if_splits)
  show ?thesis
  proof (cases "dval d = 0")
    case True
    with assms env have "t = ''0''" by (simp add: canonical_decimal_text_def validate_decimal_envelope_eq)
    with True show ?thesis
      by (auto simp: parse_canonical_decimal_text_def is_valid_common_scalar_def match_canonical_decimal_def
          within_decimal_envelope_def partition_at_def drop_minus_def decimal_limits decimal_of_text_def
          split_exponent_def is_sign_def validate_decimal_envelope_eq in_envelope_def text_value_def
          digit_value_def signed_text_value_def)
  next
    case False
    with env obtain s ip fp where shape: "canonical_decimal_text d = Inr (assemble s ip fp)" "canonical_parts ip fp"
      "dval (parts_decimal s ip fp) = dval d" by (rule canonical_text_shape)
    then have t: "t = assemble s ip fp" using assms by simp
    have parts: "small_digits ip" "small_digits fp" "ip \<noteq> []" using shape(2) by (simp_all add: canonical_parts_def)
    have "is_valid_common_scalar ''Decimal'' t = Inr True"
      unfolding t using shape(2) by (intro assembled_is_canonical) (auto simp: canonical_parts_def)
    with decimal_of_assembled [OF parts, of s] canonical_parts_envelope [OF shape(2), of s] shape(3) t show ?thesis
      by (simp add: parse_canonical_decimal_text_def validate_decimal_envelope_eq del: dval.simps)
  qed
qed

lemma canonical_text_value: "canonical_decimal_text a = Inr t \<Longrightarrow> canonical_decimal_text b = Inr t \<Longrightarrow> dval a = dval b"
  using canonical_text_parses [of a t] canonical_text_parses [of b t] by auto

section \<open>Presentation text\<close>

lemma digits_of_nat_of_digits:
  "small_digits ds \<Longrightarrow> ds \<noteq> [] \<Longrightarrow> hd ds \<noteq> 0 \<or> length ds = 1 \<Longrightarrow> digits_of (nat_of_digits ds) = ds"
proof (induction ds rule: rev_induct)
  case (snoc d ds)
  show ?case
  proof (cases "ds = []")
    case True
    with snoc.prems show ?thesis by (simp add: digits_of.simps)
  next
    case False
    with snoc.prems have hd: "hd ds \<noteq> 0" "small_digits ds" "d < 10" by auto
    then have IH: "digits_of (nat_of_digits ds) = ds" using snoc.IH False by simp
    have "nat_of_digits ds \<noteq> 0"
    proof
      assume "nat_of_digits ds = 0"
      then have "ds = [0]" using IH by (simp add: digits_of.simps)
      with hd show False by simp
    qed
    then show ?thesis using IH hd by (simp add: nat_of_digits_append digits_of.simps [of "_ * 10 + d"])
  qed
qed simp

lemma digit_value_small: "is_digit c \<Longrightarrow> digit_value c < 10"
  by (auto simp: is_digit_def digit_value_def Let_def)

lemma digit_value_zero: "is_digit c \<Longrightarrow> digit_value c = 0 \<longleftrightarrow> c = CHR ''0''"
proof -
  assume c: "is_digit c"
  have "digit_value c = 0 \<longleftrightarrow> (of_char c :: nat) = 48"
    using c by (auto simp: is_digit_def digit_value_def Let_def)
  also have "\<dots> \<longleftrightarrow> (of_char c :: nat) = of_char (CHR ''0'')" by simp
  also have "\<dots> \<longleftrightarrow> c = CHR ''0''" by (simp only: of_char_eq_iff)
  finally show ?thesis .
qed

lemma dropWhile_zero_text:
  "all_digits x \<Longrightarrow> map digit_value (dropWhile (\<lambda>c. c = CHR ''0'') x) = dropWhile (\<lambda>d. d = 0) (map digit_value x)"
  by (induction x) (auto simp: all_digits_def digit_value_zero)

lemma nat_of_digits_dropWhile: "nat_of_digits (dropWhile (\<lambda>d. d = 0) ds) = nat_of_digits ds"
  by (induction ds) auto

lemma text_value_length:
  assumes "all_digits x" and "dropWhile (\<lambda>c. c = CHR ''0'') x \<noteq> []"
  shows "length (digits_of (text_value x)) = length (dropWhile (\<lambda>c. c = CHR ''0'') x)"
    and "0 < text_value x"
proof -
  let ?y = "map digit_value (dropWhile (\<lambda>c. c = CHR ''0'') x)"
  have y: "?y = dropWhile (\<lambda>d. d = 0) (map digit_value x)" by (rule dropWhile_zero_text [OF assms(1)])
  have "small_digits (map digit_value x)"
    using assms(1) by (auto simp: all_digits_def list_all_iff digit_value_small)
  then have "small_digits ?y" unfolding y by (metis (no_types, lifting) list_all_iff set_dropWhileD)
  moreover have "?y \<noteq> []" using assms(2) by simp
  moreover have "hd ?y \<noteq> 0" using \<open>?y \<noteq> []\<close> unfolding y by (rule hd_dropWhile)
  ultimately have "digits_of (nat_of_digits ?y) = ?y" by (intro digits_of_nat_of_digits) auto
  moreover have tv: "nat_of_digits ?y = text_value x" by (simp add: y nat_of_digits_dropWhile text_value_def)
  ultimately have d: "digits_of (text_value x) = ?y" by simp
  then show "length (digits_of (text_value x)) = length (dropWhile (\<lambda>c. c = CHR ''0'') x)" by simp
  show "0 < text_value x"
  proof (rule ccontr)
    assume "\<not> 0 < text_value x"
    then have "?y = [0]" using d by (simp add: digits_of.simps)
    with \<open>hd ?y \<noteq> 0\<close> show False by simp
  qed
qed

lemma text_value_zeros: "dropWhile (\<lambda>c. c = CHR ''0'') x = [] \<Longrightarrow> text_value x = 0"
  by (induction x) (auto simp: text_value_def digit_value_def split: if_splits)

text \<open>The saturating loop reads the exponent exactly when it is in range.\<close>

lemma saturating_fold:
  assumes "all_digits ds" and "0 \<le> sat" and "0 \<le> m"
  shows "foldl (saturating_step sat) (min (sat + 1) m) ds =
     min (sat + 1) (foldl (\<lambda>c d. c * 10 + int (digit_value d)) m ds)"
  using assms
proof (induction ds arbitrary: m)
  case (Cons d ds)
  have "saturating_step sat (min (sat + 1) m) d = min (sat + 1) (m * 10 + int (digit_value d))"
    using Cons.prems by (auto simp: saturating_step_def min_def)
  with Cons show ?case by (simp add: all_digits_def)
qed simp

lemma int_text_value: "foldl (\<lambda>c d. c * 10 + int (digit_value d)) (int a) ds =
    int (foldl (\<lambda>c d. c * 10 + d) a (map digit_value ds))"
proof (induction ds arbitrary: a)
  case (Cons d ds)
  then show ?case using Cons.IH [of "a * 10 + digit_value d"] by simp
qed simp

lemma saturating_text:
  assumes "all_digits ds" and "0 \<le> sat"
  shows "foldl (saturating_step sat) 0 ds = min (sat + 1) (int (text_value ds))"
  using saturating_fold [OF assms, of 0] int_text_value [of 0 ds] assms(2)
  by (simp add: text_value_def nat_of_digits_def)

lemma bounded_exponent_eq:
  assumes "t = [] \<or> (drop_sign t \<noteq> [] \<and> all_digits (drop_sign t))" and "bounded_exponent t lo hi = Inr x"
  shows "x = signed_text_value t"
proof (cases t)
  case Nil
  with assms(2) show ?thesis by (simp add: bounded_exponent_def signed_text_value_def)
next
  case (Cons c t')
  let ?ds = "if is_sign c then t' else t" and ?sat = "max \<bar>lo\<bar> \<bar>hi\<bar> + 1"
  have ds: "drop_sign t = ?ds" using Cons by simp
  have "foldl (saturating_step ?sat) 0 ?ds = min (?sat + 1) (int (text_value ?ds))"
    using assms(1) Cons ds by (intro saturating_text) auto
  with assms(2) Cons ds show ?thesis
    by (auto simp: bounded_exponent_def signed_text_value_def Let_def is_sign_def min_def
        split: if_splits)
qed

lemma presentation_shape:
  assumes "match_bounded_presentation v"
  obtains ip dot fp exponent_text has where
    "split_exponent (drop_sign v) = (ip @ (if dot then CHR ''.'' # fp else []), has, exponent_text)"
    "partition_at (CHR ''.'') (ip @ (if dot then CHR ''.'' # fp else [])) = (ip, dot, fp)"
    "all_digits ip" "all_digits fp" "dot \<or> fp = []"
    "exponent_text = [] \<or> (drop_sign exponent_text \<noteq> [] \<and> all_digits (drop_sign exponent_text))"
proof -
  define u where "u = drop_sign v"
  define ip where "ip = takeWhile is_digit u"
  define r where "r = dropWhile is_digit u"
  have u: "u = ip @ r" by (simp add: ip_def r_def)
  have ip: "all_digits ip" by (auto simp: ip_def all_digits_def list_all_iff dest: set_takeWhileD)
  obtain dot fp r2 where r: "r = (if dot then CHR ''.'' # fp else []) @ r2" and fp: "all_digits fp"
    and dfp: "dot \<or> fp = []" and ex: "match_exponent r2"
  proof (cases r)
    case Nil
    with that [of False "[]" "[]"] show thesis by (simp add: all_digits_def match_exponent_def)
  next
    case (Cons c r1)
    show thesis
    proof (cases "c = CHR ''.''")
      case True
      have "match_exponent (dropWhile is_digit r1)"
        using assms Cons True unfolding match_bounded_presentation_def u_def [symmetric]
        by (simp add: Let_def r_def [symmetric])
      moreover have "all_digits (takeWhile is_digit r1)"
        by (auto simp: all_digits_def list_all_iff dest: set_takeWhileD)
      ultimately show thesis
        using that [of True "takeWhile is_digit r1" "dropWhile is_digit r1"] Cons True by simp
    next
      case False
      have "match_exponent r"
        using assms Cons False unfolding match_bounded_presentation_def u_def [symmetric]
        by (simp add: Let_def r_def [symmetric])
      then show thesis using that [of False "[]" r] by (simp add: all_digits_def)
    qed
  qed
  let ?m = "ip @ (if dot then CHR ''.'' # fp else [])"
  have noe: "CHR ''e'' \<notin> set ?m" "CHR ''E'' \<notin> set ?m"
    using ip fp by (auto simp: all_digits_def list_all_iff is_digit_def)
  have um: "u = ?m @ r2" using u r by simp
  have "\<exists>has et. split_exponent u = (?m, has, et) \<and> (et = [] \<or> (drop_sign et \<noteq> [] \<and> all_digits (drop_sign et)))"
  proof (cases r2)
    case Nil
    then show ?thesis using um noe partition_at_none [OF noe(2)]
      by (auto simp: split_exponent_def simp del: set_append)
  next
    case (Cons c t)
    with ex have c: "c = CHR ''e'' \<or> c = CHR ''E''" and t: "drop_sign t \<noteq> []" "all_digits (drop_sign t)"
      by (auto simp: match_exponent_def)
    have "CHR ''e'' \<notin> set t" using t(2) by (cases t) (auto simp: all_digits_def list_all_iff is_digit_def is_sign_def split: if_splits)
    with c Cons um t noe partition_at_some [OF noe(1), of t] partition_at_some [OF noe(2), of t] show ?thesis
      by (auto simp: split_exponent_def simp del: append_assoc)
  qed
  then obtain has et where "split_exponent u = (?m, has, et)"
    and et: "et = [] \<or> (drop_sign et \<noteq> [] \<and> all_digits (drop_sign et))" by blast
  moreover have "CHR ''.'' \<notin> set ip" using ip by (auto simp: all_digits_def list_all_iff is_digit_def)
  then have "partition_at (CHR ''.'') ?m = (ip, dot, fp)"
    using dfp by (auto simp: partition_at_none partition_at_some)
  ultimately show thesis using that [of ip dot fp has et] ip fp dfp by (simp add: u_def)
qed

text \<open>What the lexical preflight admits, the envelope check accepts.\<close>

lemma preflight_admits:
  assumes "preflight_bounded_presentation t allow = Inr z"
  shows "in_envelope (decimal_of_text t) \<or> z" and "z \<Longrightarrow> dval (decimal_of_text t) = 0"
proof -
  have m: "match_bounded_presentation t"
    using assms by (auto simp: preflight_bounded_presentation_def split: if_splits)
  obtain ip dot fp et has where sp: "split_exponent (drop_sign t) = (ip @ (if dot then CHR ''.'' # fp else []), has, et)"
    and pa: "partition_at (CHR ''.'') (ip @ (if dot then CHR ''.'' # fp else [])) = (ip, dot, fp)"
    and dg: "all_digits ip" "all_digits fp" and dfp: "dot \<or> fp = []"
    and et: "et = [] \<or> (drop_sign et \<noteq> [] \<and> all_digits (drop_sign et))"
    using presentation_shape [OF m] by metis
  let ?co = "dropWhile (\<lambda>c. c = CHR ''0'') (ip @ fp)"
  let ?fl = "int (length fp)"
  have fl: "int (if dot then length fp else 0) = ?fl" using dfp by auto
  have dt: "decimal_of_text t = Decimal (t \<noteq> [] \<and> hd t = CHR ''-'') (text_value (ip @ fp))
      (signed_text_value et - ?fl)"
    using sp pa by (simp add: decimal_of_text_def)
  show zero: "dval (decimal_of_text t) = 0" if z
  proof -
    have "?co = []"
      using assms that sp pa by (auto simp: preflight_bounded_presentation_def Let_def split: if_splits)
    then show ?thesis using dt by (simp add: text_value_zeros)
  qed
  show "in_envelope (decimal_of_text t) \<or> z"
  proof (cases "?co = []")
    case True
    then show ?thesis using dt by (simp add: text_value_zeros in_envelope_def)
  next
    case False
    from assms sp pa False fl obtain x where
      sig: "length ?co \<le> MAX_SIGNIFICANT_DIGITS" and
      x: "bounded_exponent et (?fl - int MAX_SCALE) (?fl + int MAX_INTEGER_DIGITS - int (length ?co)) = Inr x" and
      ok: "z \<or> (max (- (x - ?fl)) 0 \<le> int MAX_SCALE \<and> max (int (length ?co) + (x - ?fl)) 0 \<le> int MAX_INTEGER_DIGITS)"
      by (auto simp: preflight_bounded_presentation_def Let_def not_less split: if_splits)
    have xe: "x = signed_text_value et" using et x by (rule bounded_exponent_eq)
    have "all_digits (ip @ fp)" using dg by (simp add: all_digits_def)
    then have "length (digits_of (text_value (ip @ fp))) = length ?co"
      using False by (rule text_value_length)
    then show ?thesis using dt sig ok xe by (auto simp: in_envelope_def)
  qed
qed

lemma dval_of_int: "dval (Decimal (n < 0) (nat \<bar>n\<bar>) 0) = of_int n"
  by simp

lemma parse_Inr:
  assumes "parse_bounded_exact_decimal v allow = Inr d"
  shows "in_envelope d \<and> dval d = pyval v"
proof (cases v)
  case (PyDecimal x)
  with assms show ?thesis
    by (auto simp: parse_bounded_exact_decimal_def validate_decimal_envelope_eq split: if_splits)
next
  case (PyInt n)
  with assms show ?thesis
    by (auto simp: parse_bounded_exact_decimal_def validate_decimal_envelope_eq Let_def split: if_splits)
next
  case (PyStr t)
  with assms obtain z where z: "preflight_bounded_presentation t allow = Inr z"
    and d: "if z then d = dzero else in_envelope d \<and> d = decimal_of_text t"
    by (auto simp: parse_bounded_exact_decimal_def validate_decimal_envelope_eq Let_def split: if_splits)
  with preflight_admits [OF z] PyStr show ?thesis by (auto split: if_splits)
qed (use assms in \<open>auto simp: parse_bounded_exact_decimal_def\<close>)

text \<open>The envelope check after the preflight never fires.\<close>

lemma parse_str_total:
  assumes "preflight_bounded_presentation t allow = Inr z"
  shows "\<exists>d. parse_bounded_exact_decimal (PyStr t) allow = Inr d"
  using assms preflight_admits(1) [OF assms]
  by (cases z) (auto simp: parse_bounded_exact_decimal_def validate_decimal_envelope_eq Let_def)

lemma parse_raises: "parse_bounded_exact_decimal v allow = Inl e \<Longrightarrow> e = ExactDecimalError"
proof -
  have be: "bounded_exponent t lo hi = Inl e \<Longrightarrow> e = ExactDecimalError" for t lo hi
    by (auto simp: bounded_exponent_def Let_def split: list.splits if_splits)
  have pf: "preflight_bounded_presentation t allow = Inl e \<Longrightarrow> e = ExactDecimalError" for t
    by (auto simp: preflight_bounded_presentation_def Let_def rbind_Inl_iff dest: be split: prod.splits if_splits)
  show "parse_bounded_exact_decimal v allow = Inl e \<Longrightarrow> e = ExactDecimalError"
    by (cases v) (auto simp: parse_bounded_exact_decimal_def validate_decimal_envelope_eq Let_def rbind_Inl_iff
        dest: pf split: if_splits)
qed

text \<open>An admitted Decimal or a bounded integer parses to its value.\<close>

lemma parse_decimal: "in_envelope d \<Longrightarrow>
    parse_bounded_exact_decimal (PyDecimal d) a = Inr (if dval d = 0 then dzero else d)"
  by (simp add: parse_bounded_exact_decimal_def validate_decimal_envelope_eq)

text \<open>The parser of presentation text reads canonical text exactly.\<close>

lemma assembled_matches:
  assumes "canonical_parts ip fp"
  shows "match_bounded_presentation (assemble s ip fp)"
proof -
  have ip: "small_digits ip" "ip \<noteq> []" and fp: "small_digits fp" using assms by (auto simp: canonical_parts_def)
  let ?u = "digits_text ip @ (if fp = [] then [] else CHR ''.'' # digits_text fp)"
  have dg: "\<forall>x\<in>set (digits_text ip). is_digit x" "\<forall>x\<in>set (digits_text fp). is_digit x"
    using digits_text_all_digits [OF ip(1)] digits_text_all_digits [OF fp] by (auto simp: all_digits_def list_all_iff)
  have tw: "takeWhile is_digit ?u = digits_text ip"
    and dw: "dropWhile is_digit ?u = (if fp = [] then [] else CHR ''.'' # digits_text fp)"
    and fr: "dropWhile is_digit (digits_text fp) = []"
    using dg by (auto simp: takeWhile_append2 dropWhile_append2 is_digit_def)
  show ?thesis
    unfolding match_bounded_presentation_def assemble_sign(1) [OF ip, of s fp] Let_def tw dw
    using ip(2) fr by (simp add: match_exponent_def del: dropWhile_eq_Nil_conv)
qed

lemma parse_assembled:
  assumes "canonical_parts ip fp"
  shows "\<exists>d'. parse_bounded_exact_decimal (PyStr (assemble s ip fp)) allow = Inr d' \<and> dval d' = dval (parts_decimal s ip fp)"
proof -
  have ip: "small_digits ip" "ip \<noteq> []" and fp: "small_digits fp" using assms by (auto simp: canonical_parts_def)
  let ?t = "assemble s ip fp"
  have dt: "decimal_of_text ?t = parts_decimal s ip fp" using ip fp by (intro decimal_of_assembled)
  have len: "length ?t \<le> MAX_DECIMAL_TEXT_LENGTH"
    using assms by (auto simp: assemble_def canonical_parts_def decimal_limits split: if_splits)
  have sp: "split_exponent (drop_sign ?t) = (drop_sign ?t, False, [])"
    using magnitude_no_exponent [OF digits_text_all_digits [OF ip(1)] digits_text_all_digits [OF fp]]
      assemble_sign(1) [OF ip, of s fp] by simp
  have pa: "partition_at (CHR ''.'') (drop_sign ?t) = (digits_text ip, fp \<noteq> [], digits_text fp)"
    using partition_assembled [OF ip(1) fp] assemble_sign(1) [OF ip, of s fp] by simp
  let ?co = "dropWhile (\<lambda>c. c = CHR ''0'') (digits_text ip @ digits_text fp)"
  have co: "length ?co = length (dropWhile (\<lambda>d. d = 0) (ip @ fp))"
    using dropWhile_zero_digits [of "ip @ fp"] ip fp by simp
  have sig: "length ?co \<le> MAX_SIGNIFICANT_DIGITS" "int (length ?co) - int (length fp) \<le> int MAX_INTEGER_DIGITS"
    "length fp \<le> MAX_SCALE"
  proof -
    have *: "length (dropWhile (\<lambda>d. d = 0) (ip @ fp)) \<le> (if ip = [0] then length fp else length ip + length fp)"
      using length_dropWhile_le [of "\<lambda>d. d = 0" "ip @ fp"] length_dropWhile_le [of "\<lambda>d. d = 0" fp] by auto
    show "length ?co \<le> MAX_SIGNIFICANT_DIGITS" "int (length ?co) - int (length fp) \<le> int MAX_INTEGER_DIGITS"
      "length fp \<le> MAX_SCALE"
      using * co assms by (auto simp: canonical_parts_def decimal_limits split: if_splits)
  qed
  have fl: "int (if fp \<noteq> [] then length (digits_text fp) else 0) = int (length fp)" by simp
  have "\<exists>z. preflight_bounded_presentation ?t allow = Inr z"
    using len assembled_matches [OF assms, of s] sp pa sig
    by (auto simp: preflight_bounded_presentation_def bounded_exponent_def Let_def)
  then obtain z where z: "preflight_bounded_presentation ?t allow = Inr z" by blast
  then obtain d' where "parse_bounded_exact_decimal (PyStr ?t) allow = Inr d'" using parse_str_total by blast
  with parse_Inr [OF this] dt show ?thesis by auto
qed

lemma canonical_text_read:
  assumes "canonical_decimal_text d = Inr t"
  shows "\<exists>d'. parse_bounded_exact_decimal (PyStr t) allow = Inr d' \<and> dval d' = dval d"
proof -
  have env: "in_envelope d"
    using assms by (auto simp: canonical_decimal_text_def validate_decimal_envelope_eq split: if_splits)
  show ?thesis
  proof (cases "dval d = 0")
    case True
    then have t: "t = ''0''" using assms env by (simp add: canonical_decimal_text_def validate_decimal_envelope_eq)
    have "preflight_bounded_presentation ''0'' True = Inr True" "preflight_bounded_presentation ''0'' False = Inr True"
      by code_simp+
    then have "parse_bounded_exact_decimal (PyStr t) allow = Inr dzero"
      unfolding t by (cases allow) (simp_all add: parse_bounded_exact_decimal_def)
    with True show ?thesis by simp
  next
    case False
    with env obtain s ip fp where "canonical_decimal_text d = Inr (assemble s ip fp)" "canonical_parts ip fp"
      "dval (parts_decimal s ip fp) = dval d" by (rule canonical_text_shape)
    with parse_assembled [of ip fp s allow] assms show ?thesis by auto
  qed
qed

text \<open>Decimals of equal value have the same canonical text.\<close>

lemma scaled_unique:
  fixes n m :: nat
  assumes "of_nat n * 10 powi (- int j) = (of_nat m * 10 powi (- int k) :: rat)"
    and "j \<noteq> 0 \<longrightarrow> n mod 10 \<noteq> 0" and "k \<noteq> 0 \<longrightarrow> m mod 10 \<noteq> 0"
  shows "n = m \<and> j = k"
proof -
  have eq: "n * 10 ^ k = m * 10 ^ j"
  proof -
    have "of_nat n * (10::rat) ^ k = of_nat m * 10 ^ j"
      using assms(1) by (simp add: power_int_minus field_simps)
    then have "(of_nat (n * 10 ^ k) :: rat) = of_nat (m * 10 ^ j)" by simp
    then show ?thesis unfolding of_nat_eq_iff .
  qed
  have less: False if lt: "a < b" and eq: "x * 10 ^ b = y * 10 ^ a" and md: "y mod 10 \<noteq> 0" for a b x y :: nat
  proof -
    obtain r where "b = a + Suc r" using lt less_iff_Suc_add by auto
    then have "y = 10 * (x * 10 ^ r)" using eq by (simp add: power_add)
    with md show False by simp
  qed
  have "j = k"
    using less [of j k n m] less [of k j m n] eq assms(2,3) by (cases j k rule: linorder_cases) auto
  with eq show ?thesis by simp
qed

lemma canonical_parts_unique:
  assumes "canonical_parts ip fp" and "canonical_parts ip' fp'"
    and "nat_of_digits (ip @ fp) = nat_of_digits (ip' @ fp')" and "length fp = length fp'"
  shows "ip = ip' \<and> fp = fp'"
proof -
  have split: "nat_of_digits (a @ b) = nat_of_digits a * 10 ^ length b + nat_of_digits b" for a b
    by (rule nat_of_digits_append_list)
  have of_parts: "nat_of_digits (a @ b) div 10 ^ length b = nat_of_digits a \<and> nat_of_digits (a @ b) mod 10 ^ length b = nat_of_digits b"
    if "small_digits b" for a b
    using nat_of_digits_less [OF that] by (simp add: split)
  have same: "a = b" if "small_digits a" "small_digits b" "length a = length b" "nat_of_digits a = nat_of_digits b" for a b
    using that
  proof (induction a arbitrary: b rule: rev_induct)
    case (snoc x xs)
    then obtain y ys where b: "b = ys @ [y]" by (cases b rule: rev_cases) auto
    have "nat_of_digits xs * 10 + x = nat_of_digits ys * 10 + y" "x < 10" "y < 10"
      using snoc.prems b by (auto simp: nat_of_digits_append)
    then have "x = y" "nat_of_digits xs = nat_of_digits ys" by presburger+
    with snoc b show ?case by simp
  qed simp
  have dig: "digits_of (nat_of_digits a) = a" if "canonical_parts a b" for a b
    using that by (intro digits_of_nat_of_digits) (auto simp: canonical_parts_def)
  have small: "small_digits fp" "small_digits fp'" using assms(1,2) by (simp_all add: canonical_parts_def)
  have "nat_of_digits ip = nat_of_digits ip'" "nat_of_digits fp = nat_of_digits fp'"
    using of_parts [OF small(1), of ip] of_parts [OF small(2), of ip'] assms(3,4) by auto
  then show ?thesis using dig [OF assms(1)] dig [OF assms(2)] same [OF small assms(4)] by metis
qed

lemma canonical_parts_nonzero:
  assumes "canonical_parts ip fp"
  shows "length fp \<noteq> 0 \<longrightarrow> nat_of_digits (ip @ fp) mod 10 \<noteq> 0"
proof (cases fp rule: rev_cases)
  case (snoc xs x)
  with assms have "x < 10" "x \<noteq> 0" by (auto simp: canonical_parts_def)
  then show ?thesis using snoc nat_of_digits_append [of "ip @ xs" x] by simp
qed simp

lemma canonical_text_unique:
  assumes "in_envelope a" and "in_envelope b" and "dval a = dval b"
  shows "canonical_decimal_text a = canonical_decimal_text b"
proof (cases "dval a = 0")
  case True
  with assms show ?thesis by (simp add: canonical_decimal_text_def validate_decimal_envelope_eq)
next
  case False
  then obtain s ip fp where a: "canonical_decimal_text a = Inr (assemble s ip fp)" "canonical_parts ip fp"
    "dval (parts_decimal s ip fp) = dval a" using canonical_text_shape [OF assms(1)] by metis
  obtain s' ip' fp' where b: "canonical_decimal_text b = Inr (assemble s' ip' fp')" "canonical_parts ip' fp'"
    "dval (parts_decimal s' ip' fp') = dval b" using canonical_text_shape [OF assms(2)] assms(3) False by metis
  let ?n = "nat_of_digits (ip @ fp)" and ?m = "nat_of_digits (ip' @ fp')"
  let ?p = "10 powi (- int (length fp)) :: rat" and ?q = "10 powi (- int (length fp')) :: rat"
  have eq: "(if s then - 1 else 1) * of_nat ?n * ?p = (if s' then - 1 else 1) * of_nat ?m * ?q"
    using a(3) b(3) assms(3) by (simp split: if_splits)
  have "?n \<noteq> 0" using a(3) False by (cases s; cases "?n = 0") auto
  moreover have "?m \<noteq> 0" using b(3) False assms(3) by (cases s'; cases "?m = 0") auto
  ultimately have "0 < of_nat ?n * ?p" "0 < of_nat ?m * ?q" by (auto simp: zero_less_mult_iff)
  then have s: "s = s'" using eq by (auto split: if_splits)
  with eq have "of_nat ?n * ?p = of_nat ?m * ?q" by (auto split: if_splits)
  then have "?n = ?m \<and> length fp = length fp'"
    using canonical_parts_nonzero [OF a(2)] canonical_parts_nonzero [OF b(2)] by (rule scaled_unique)
  with canonical_parts_unique [OF a(2) b(2)] a(1) b(1) s show ?thesis by simp
qed

section \<open>Properties\<close>

text \<open>(C40) Canonical text is a normal form.  Every Decimal within the envelope has a canonical text; the strict
  parser of canonical text and the parser of presentation text both accept it and return its value, and
  two Decimals have the same text exactly when they have the same value.\<close>

theorem canonical_text_round_trip:
  assumes "in_envelope d"
  shows "\<exists>t. canonical_decimal_text d = Inr t
    \<and> (\<exists>d'. parse_canonical_decimal_text t = Inr d' \<and> dval d' = dval d)
    \<and> (\<exists>d'. parse_bounded_exact_decimal (PyStr t) False = Inr d' \<and> dval d' = dval d)
    \<and> (\<forall>b. in_envelope b \<longrightarrow> (canonical_decimal_text b = Inr t \<longleftrightarrow> dval b = dval d))"
proof -
  obtain t where t: "canonical_decimal_text d = Inr t"
    using assms by (cases "canonical_decimal_text d")
      (auto simp: canonical_decimal_text_def validate_decimal_envelope_eq Let_def split: if_splits)
  have "canonical_decimal_text b = Inr t \<longleftrightarrow> dval b = dval d" if "in_envelope b" for b
    using canonical_text_unique [OF that assms] canonical_text_parses [of b t] canonical_text_parses [OF t] t by auto
  with t canonical_text_parses [OF t] canonical_text_read [OF t] show ?thesis by blast
qed

text \<open>What the bounded parser returns is within the envelope and has exactly the value of the Decimal,
  integer or presentation text it was given; every rejection is an \<open>ExactDecimalError\<close>.\<close>

theorem parse_bounded_exact_decimal_exact:
  "case parse_bounded_exact_decimal v allow_exponent of
     Inr d \<Rightarrow> in_envelope d \<and> dval d = pyval v
   | Inl e \<Rightarrow> e = ExactDecimalError"
  using parse_Inr parse_raises by (auto split: sum.splits)

text \<open>The textual preflight decides admission: a text that passes it is parsed, no later check rejects it.\<close>

theorem preflight_decides_parsing:
  assumes "preflight_bounded_presentation t allow = Inr z"
  shows "\<exists>d. parse_bounded_exact_decimal (PyStr t) allow = Inr d \<and> in_envelope d
    \<and> dval d = dval (decimal_of_text t)"
  using parse_str_total [OF assms] parse_Inr by fastforce

theorem canonical_text_round_trip_witness:
  "\<exists>t. canonical_decimal_text (Decimal True 1250 (- 3)) = Inr t
    \<and> canonical_decimal_text (Decimal True 125 (- 2)) = Inr t"
proof -
  have e: "in_envelope (Decimal True 1250 (- 3))" "in_envelope (Decimal True 125 (- 2))"
    "dval (Decimal True 1250 (- 3)) = dval (Decimal True 125 (- 2))" by code_simp+
  show ?thesis using canonical_text_round_trip [OF e(1)] e(2,3) by metis
qed

lemma preflight_example: "preflight_bounded_presentation ''-12.50e3'' True = Inr False"
  by code_simp

theorem preflight_decides_parsing_witness:
  "\<exists>d. parse_bounded_exact_decimal (PyStr ''-12.50e3'') True = Inr d \<and> in_envelope d
    \<and> dval d = dval (decimal_of_text ''-12.50e3'')"
  by (rule preflight_decides_parsing [OF preflight_example])

end
