(* ===== verification/Lot_Book.thy ===== *)
theory Lot_Book
  imports Exact_Decimal_Text
begin

text \<open>
  \<open>mvp/autotrade_mvp/lot_book.py\<close>: exact FIFO lots of one instrument.  A \<open>lot_book\<close> is the object's
  \<open>_lots\<close> and \<open>_realized\<close>; \<open>buy\<close>, \<open>sell\<close>, \<open>snapshot\<close> and \<open>mark_to_market\<close> are its methods, the
  \<open>while\<close> loop of \<open>sell\<close> is \<open>sell_loop\<close>.  The theorems: positions and cost move by exactly what was
  traded, realised profit minus open basis is the net cash of the history, lots are consumed first
  in first out, no sale reads past the last lot, and a failed call leaves the book unchanged.
\<close>

section \<open>Scalars\<close>

datatype exact_scalar = ScalarDecimal decimal | ScalarFraction rat | ScalarInt int

definition lb_decimal :: "pynum \<Rightarrow> decimal result" where
  "lb_decimal v =
     (case v of
        PyBool _ \<Rightarrow> Inl TypeError | PyFloat \<Rightarrow> Inl TypeError | PyOther \<Rightarrow> Inl TypeError
      | _ \<Rightarrow> translate ExactDecimalError ValueError (parse_bounded_exact_decimal v True))"

definition lb_fraction :: "exact_scalar \<Rightarrow> rat result" where
  "lb_fraction v = translate ExactDecimalError ValueError
     (case v of
        ScalarFraction q \<Rightarrow> bounded_fraction q
      | ScalarDecimal d \<Rightarrow> rbind (as_fraction d) bounded_fraction
      | ScalarInt n \<Rightarrow> bounded_fraction (of_int n))"

definition lb_fraction_add :: "rat \<Rightarrow> rat \<Rightarrow> rat result" where
  "lb_fraction_add a b = translate ExactDecimalError ValueError (bounded_fraction (a + b))"

definition lb_fraction_subtract :: "rat \<Rightarrow> rat \<Rightarrow> rat result" where
  "lb_fraction_subtract a b = translate ExactDecimalError ValueError (bounded_fraction (a - b))"

definition lb_fraction_multiply :: "rat \<Rightarrow> rat \<Rightarrow> rat result" where
  "lb_fraction_multiply a b = translate ExactDecimalError ValueError (bounded_fraction (a * b))"

definition lb_exact_multiply :: "decimal \<Rightarrow> decimal \<Rightarrow> decimal result" where
  "lb_exact_multiply a b = translate ExactDecimalError ValueError (exact_multiply [a, b])"

definition lb_exact_subtract :: "decimal \<Rightarrow> decimal \<Rightarrow> decimal result" where
  "lb_exact_subtract a b = translate ExactDecimalError ValueError (exact_subtract a b)"

definition lb_decimal_sum :: "decimal list \<Rightarrow> decimal result" where
  "lb_decimal_sum vs = translate ExactDecimalError ValueError (exact_sum vs)"

definition public_exact :: "rat \<Rightarrow> exact_scalar result" where
  "public_exact v =
     rbind (lb_fraction (ScalarFraction v)) (\<lambda>q.
       case terminating_decimal q of
         Inr d \<Rightarrow> Inr (ScalarDecimal d)
       | Inl e \<Rightarrow> if e = ExactDecimalError then Inr (ScalarFraction q) else Inl e)"

text \<open>\<open>Fraction(1, 1) / as_fraction(quantity)\<close>, which divides by zero on an empty lot.\<close>

definition inverse_quantity :: "decimal \<Rightarrow> rat result" where
  "inverse_quantity d =
     rbind (as_fraction d) (\<lambda>q. if q = 0 then Inl ZeroDivisionError else Inr (1 / q))"

definition py_min :: "decimal \<Rightarrow> decimal \<Rightarrow> decimal" where
  "py_min a b = (if dval b < dval a then b else a)"

section \<open>The book\<close>

record lot =
  lot_quantity :: decimal
  lot_basis :: rat

record basis_snapshot =
  snap_position :: decimal
  snap_open_basis :: exact_scalar
  snap_realized_pnl :: exact_scalar

record lot_book =
  lb_lots :: "lot list"
  lb_realized :: rat

definition empty_lot_book :: lot_book where
  "empty_lot_book = \<lparr>lb_lots = [], lb_realized = 0\<rparr>"

definition unit_cost :: "lot \<Rightarrow> exact_scalar result" where
  "unit_cost l =
     rbind (inverse_quantity (lot_quantity l)) (\<lambda>inv.
     rbind (lb_fraction (ScalarFraction inv)) (\<lambda>f.
     rbind (lb_fraction_multiply (lot_basis l) f) public_exact))"

definition open_basis_fraction :: "lot list \<Rightarrow> rat result" where
  "open_basis_fraction lots = rfold (\<lambda>acc l. lb_fraction_add acc (lot_basis l)) 0 lots"

definition snapshot_for :: "lot list \<Rightarrow> rat \<Rightarrow> basis_snapshot result" where
  "snapshot_for lots realized =
     rbind (lb_decimal_sum (map lot_quantity lots)) (\<lambda>position.
     rbind (open_basis_fraction lots) (\<lambda>basis.
     rbind (public_exact basis) (\<lambda>ob.
     rbind (public_exact realized) (\<lambda>rp.
       Inr \<lparr>snap_position = position, snap_open_basis = ob, snap_realized_pnl = rp\<rparr>))))"

definition lb_snapshot :: "lot_book \<Rightarrow> basis_snapshot result" where
  "lb_snapshot b = snapshot_for (lb_lots b) (lb_realized b)"

definition buy :: "pynum \<Rightarrow> pynum \<Rightarrow> pynum \<Rightarrow> (lot_book, basis_snapshot) operation" where
  "buy quantity price fee =
     raising (lb_decimal quantity) (\<lambda>qty. raising (lb_decimal price) (\<lambda>px.
     raising (lb_decimal fee) (\<lambda>cost_fee.
     raising (require (\<not> (dval qty \<le> 0 \<or> dval px \<le> 0 \<or> dval cost_fee < 0)) ValueError) (\<lambda>_.
     raising (lb_exact_multiply qty px) (\<lambda>gross.
     raising (lb_fraction (ScalarDecimal gross)) (\<lambda>gross_f.
     raising (lb_fraction (ScalarDecimal cost_fee)) (\<lambda>fee_f.
     raising (lb_fraction_add gross_f fee_f) (\<lambda>total_cost b.
       let candidate_lots = lb_lots b @ [\<lparr>lot_quantity = qty, lot_basis = total_cost\<rparr>]
       in raising (snapshot_for candidate_lots (lb_realized b)) (\<lambda>next_snapshot b.
            (Inr next_snapshot, b\<lparr>lb_lots := candidate_lots\<rparr>)) b))))))))"

text \<open>One pass of the loop body: the basis taken and the lots left.\<close>

definition take_lot :: "decimal \<Rightarrow> lot \<Rightarrow> lot list \<Rightarrow> (rat \<times> lot list) result" where
  "take_lot taken l rest =
     (if dval taken = dval (lot_quantity l) then Inr (lot_basis l, rest)
      else
        rbind (lb_fraction (ScalarDecimal taken)) (\<lambda>tf.
        rbind (inverse_quantity (lot_quantity l)) (\<lambda>inv.
        rbind (lb_fraction (ScalarFraction inv)) (\<lambda>inv_f.
        rbind (lb_fraction_multiply tf inv_f) (\<lambda>share.
        rbind (lb_fraction_multiply (lot_basis l) share) (\<lambda>taken_basis.
        rbind (lb_exact_subtract (lot_quantity l) taken) (\<lambda>leftover_quantity.
        rbind (lb_fraction_subtract (lot_basis l) taken_basis) (\<lambda>leftover_basis.
          Inr (taken_basis,
               \<lparr>lot_quantity = leftover_quantity, lot_basis = leftover_basis\<rparr> # rest)))))))))"

lemma lb_exact_subtract_Inr:
  "lb_exact_subtract a b = Inr c \<Longrightarrow> in_envelope c \<and> dval c = dval a - dval b"
  by (auto simp: lb_exact_subtract_def dest: exact_subtract_Inr)

lemma take_lot_length:
  assumes "take_lot taken l rest = Inr (b, lots')"
  shows "dval taken = dval (lot_quantity l) \<and> lots' = rest \<or>
     dval taken \<noteq> dval (lot_quantity l) \<and> length lots' = Suc (length rest)"
  using assms by (auto simp: take_lot_def split: if_splits)

function sell_loop :: "decimal \<Rightarrow> rat \<Rightarrow> lot list \<Rightarrow> (rat \<times> lot list) result" where
  "sell_loop remaining removed lots =
     (if 0 < dval remaining then
        (case lots of
           [] \<Rightarrow> Inl IndexError
         | l # rest \<Rightarrow>
             let taken = py_min remaining (lot_quantity l) in
             rbind (take_lot taken l rest) (\<lambda>(taken_basis, lots').
             rbind (lb_fraction_add removed taken_basis) (\<lambda>removed'.
             rbind (lb_exact_subtract remaining taken) (\<lambda>remaining'.
               sell_loop remaining' removed' lots'))))
      else Inr (removed, lots))"
  by pat_completeness auto
termination
proof (relation "measure (\<lambda>(remaining, removed, lots). if 0 < dval remaining then Suc (length lots) else 0)",
    goal_cases)
  case (2 remaining removed lots l rest taken p taken_basis lots' removed' remaining')
  then have "dval remaining' = dval remaining - dval taken" by (auto dest: lb_exact_subtract_Inr)
  moreover have "dval taken = dval remaining \<or> dval taken = dval (lot_quantity l)"
    using 2 by (auto simp: py_min_def)
  ultimately show ?case using 2 take_lot_length [of taken l rest taken_basis lots'] by auto
qed simp

declare sell_loop.simps [simp del]

definition sell :: "pynum \<Rightarrow> pynum \<Rightarrow> pynum \<Rightarrow> (lot_book, basis_snapshot) operation" where
  "sell quantity price fee =
     raising (lb_decimal quantity) (\<lambda>qty. raising (lb_decimal price) (\<lambda>px.
     raising (lb_decimal fee) (\<lambda>sell_fee.
     raising (require (\<not> (dval qty \<le> 0 \<or> dval px \<le> 0 \<or> dval sell_fee < 0)) ValueError) (\<lambda>_ b.
     raising (snapshot_for (lb_lots b) (lb_realized b)) (\<lambda>current.
     raising (require (\<not> dval (snap_position current) < dval qty) ValueError) (\<lambda>_.
     raising (sell_loop qty 0 (lb_lots b)) (\<lambda>(removed_basis, working_lots).
     raising (lb_exact_multiply qty px) (\<lambda>gross.
     raising (lb_fraction (ScalarDecimal gross)) (\<lambda>gross_f.
     raising (lb_fraction (ScalarDecimal sell_fee)) (\<lambda>fee_f.
     raising (lb_fraction_subtract gross_f fee_f) (\<lambda>net_proceeds.
     raising (lb_fraction_subtract net_proceeds removed_basis) (\<lambda>gain.
     raising (lb_fraction_add (lb_realized b) gain) (\<lambda>new_realized.
     raising (snapshot_for working_lots new_realized) (\<lambda>next_snapshot b.
       (Inr next_snapshot, b\<lparr>lb_lots := working_lots, lb_realized := new_realized\<rparr>)))))))))))
       b))))"

definition mark_to_market :: "lot_book \<Rightarrow> pynum \<Rightarrow> exact_scalar result" where
  "mark_to_market b price =
     rbind (lb_decimal price) (\<lambda>px.
     rbind (require (\<not> dval px \<le> 0) ValueError) (\<lambda>_.
     rbind (snapshot_for (lb_lots b) (lb_realized b)) (\<lambda>snap.
     rbind (lb_exact_multiply (snap_position snap) px) (\<lambda>gross.
     rbind (lb_fraction (ScalarDecimal gross)) (\<lambda>market_value.
     rbind (open_basis_fraction (lb_lots b)) (\<lambda>basis.
     rbind (lb_fraction_subtract market_value basis) public_exact))))))"

section \<open>Abstraction\<close>

text \<open>
  The values behind a book: units held, their cost, and the cost of the first \<open>x\<close> units taken lot
  by lot from the oldest.
\<close>

fun sval :: "exact_scalar \<Rightarrow> rat" where
  "sval (ScalarDecimal d) = dval d"
| "sval (ScalarFraction q) = q"
| "sval (ScalarInt n) = of_int n"

definition lots_position :: "lot list \<Rightarrow> rat" where
  "lots_position ls = sum_list (map (\<lambda>l. dval (lot_quantity l)) ls)"

definition lots_basis :: "lot list \<Rightarrow> rat" where
  "lots_basis ls = sum_list (map lot_basis ls)"

definition lots_ok :: "lot list \<Rightarrow> bool" where
  "lots_ok ls \<longleftrightarrow> (\<forall>l \<in> set ls. 0 < dval (lot_quantity l) \<and> 0 \<le> lot_basis l)"

fun fifo_cost :: "rat \<Rightarrow> lot list \<Rightarrow> rat" where
  "fifo_cost x [] = 0"
| "fifo_cost x (l # ls) =
     (if x < dval (lot_quantity l) then lot_basis l * x / dval (lot_quantity l)
      else lot_basis l + fifo_cost (x - dval (lot_quantity l)) ls)"

lemma lots_simps [simp]:
  "lots_position [] = 0" "lots_position (l # ls) = dval (lot_quantity l) + lots_position ls"
  "lots_position (xs @ ys) = lots_position xs + lots_position ys"
  "lots_basis [] = 0" "lots_basis (l # ls) = lot_basis l + lots_basis ls"
  "lots_basis (xs @ ys) = lots_basis xs + lots_basis ys"
  "lots_ok []" "lots_ok (l # ls) \<longleftrightarrow> 0 < dval (lot_quantity l) \<and> 0 \<le> lot_basis l \<and> lots_ok ls"
  "lots_ok (xs @ ys) \<longleftrightarrow> lots_ok xs \<and> lots_ok ys"
  by (auto simp: lots_position_def lots_basis_def lots_ok_def)

lemma lots_position_nonneg: "lots_ok ls \<Longrightarrow> 0 \<le> lots_position ls"
  by (induction ls) auto

lemma lots_basis_nonneg: "lots_ok ls \<Longrightarrow> 0 \<le> lots_basis ls"
  by (induction ls) auto

lemma lots_position_zero: "lots_ok ls \<Longrightarrow> lots_position ls = 0 \<Longrightarrow> ls = []"
  by (cases ls) (use lots_position_nonneg in fastforce)+

lemma fifo_cost_all: "lots_ok ls \<Longrightarrow> lots_position ls \<le> x \<Longrightarrow> fifo_cost x ls = lots_basis ls"
proof (induction ls arbitrary: x)
  case (Cons l ls)
  then show ?case using lots_position_nonneg [of ls] by auto
qed simp

lemma fifo_cost_0 [simp]: "lots_ok ls \<Longrightarrow> fifo_cost 0 ls = 0"
  by (cases ls) auto

section \<open>Wrappers\<close>

lemma lb_decimal_Inr: "lb_decimal v = Inr d \<Longrightarrow> in_envelope d \<and> dval d = pyval v"
  by (cases v) (auto simp: lb_decimal_def dest: parse_Inr)

lemma lb_fraction_Inr [simp, result_simps]:
  "lb_fraction (ScalarFraction q) = Inr r \<longleftrightarrow> rat_bounded q \<and> r = q"
  "lb_fraction (ScalarDecimal d) = Inr r \<longleftrightarrow> in_envelope d \<and> r = dval d"
  by (auto simp: lb_fraction_def envelope_rat_bounded)

lemma lb_fraction_ops [simp, result_simps]:
  "lb_fraction_add a b = Inr r \<longleftrightarrow> rat_bounded (a + b) \<and> r = a + b"
  "lb_fraction_subtract a b = Inr r \<longleftrightarrow> rat_bounded (a - b) \<and> r = a - b"
  "lb_fraction_multiply a b = Inr r \<longleftrightarrow> rat_bounded (a * b) \<and> r = a * b"
  by (auto simp: lb_fraction_add_def lb_fraction_subtract_def lb_fraction_multiply_def)

lemma lb_exact_multiply_Inr:
  "lb_exact_multiply a b = Inr c \<Longrightarrow> in_envelope c \<and> dval c = dval a * dval b"
  by (auto simp: lb_exact_multiply_def dest: exact_multiply_Inr)

lemma lb_decimal_sum_Inr:
  "lb_decimal_sum vs = Inr c \<Longrightarrow> in_envelope c \<and> dval c = sum_list (map dval vs)"
  by (auto simp: lb_decimal_sum_def dest: exact_sum_Inr)

lemma inverse_quantity_Inr [simp, result_simps]:
  "inverse_quantity d = Inr r \<longleftrightarrow> in_envelope d \<and> dval d \<noteq> 0 \<and> r = 1 / dval d"
  by (auto simp: inverse_quantity_def split: if_splits)

lemma public_exact_Inr: "public_exact q = Inr s \<Longrightarrow> sval s = q"
  by (auto simp: public_exact_def dest: terminating_decimal_sound split: sum.splits if_splits)

lemma open_basis_Inr: "open_basis_fraction ls = Inr r \<Longrightarrow> r = lots_basis ls"
proof -
  have "rfold (\<lambda>acc l. lb_fraction_add acc (lot_basis l)) a ls = Inr r \<Longrightarrow> r = a + lots_basis ls" for a
    by (induction ls arbitrary: a) (fastforce simp: add.assoc)+
  from this [of 0] show "open_basis_fraction ls = Inr r \<Longrightarrow> r = lots_basis ls"
    by (simp add: open_basis_fraction_def)
qed

lemma snapshot_for_Inr:
  assumes "snapshot_for ls r = Inr snap"
  shows "dval (snap_position snap) = lots_position ls" and "sval (snap_open_basis snap) = lots_basis ls"
    and "sval (snap_realized_pnl snap) = r"
  using assms
  by (auto simp: snapshot_for_def lots_position_def comp_def
      dest!: lb_decimal_sum_Inr open_basis_Inr public_exact_Inr)

section \<open>Selling\<close>

lemma take_lot_Inr:
  assumes "take_lot taken l rest = Inr (tb, lots')" and "lots_ok (l # rest)"
    and "0 < dval taken" and "dval taken \<le> dval (lot_quantity l)"
  shows "tb = fifo_cost (dval taken) (l # rest)"
    and "lots_position lots' = lots_position (l # rest) - dval taken"
    and "lots_basis lots' = lots_basis (l # rest) - tb"
    and "lots_ok lots'"
    and "0 \<le> x \<Longrightarrow> fifo_cost x lots' = fifo_cost (dval taken + x) (l # rest) - tb"
proof -
  let ?q = "dval (lot_quantity l)" and ?t = "dval taken" and ?B = "lot_basis l"
  have q: "0 < ?q" "0 \<le> ?B" "lots_ok rest" using assms(2) by auto
  show "tb = fifo_cost ?t (l # rest)" "lots_position lots' = lots_position (l # rest) - ?t"
    "lots_basis lots' = lots_basis (l # rest) - tb" "lots_ok lots'"
    "0 \<le> x \<Longrightarrow> fifo_cost x lots' = fifo_cost (?t + x) (l # rest) - tb"
  proof -
    consider (full) "?t = ?q" "tb = ?B" "lots' = rest"
      | (part) lq lb where "?t < ?q" "tb = ?B * ?t / ?q" "dval lq = ?q - ?t" "lb = ?B - tb"
          "lots' = \<lparr>lot_quantity = lq, lot_basis = lb\<rparr> # rest"
      using assms q
      by (auto simp: take_lot_def dest!: lb_exact_subtract_Inr split: if_splits)
    note cs = this
    show "tb = fifo_cost ?t (l # rest)" using cs q by cases auto
    show "lots_position lots' = lots_position (l # rest) - ?t" using cs by cases auto
    show "lots_basis lots' = lots_basis (l # rest) - tb" using cs by cases auto
    show "lots_ok lots'"
      using cs
    proof cases
      case part
      have "?B * ?t \<le> ?B * ?q" using assms(4) q by (intro mult_left_mono) auto
      then have "?B * ?t / ?q \<le> ?B" using q(1) by (simp add: pos_divide_le_eq)
      then have "tb \<le> ?B" using part(2) by simp
      with part q show ?thesis by simp
    qed (use q in auto)
    show "fifo_cost x lots' = fifo_cost (?t + x) (l # rest) - tb" if "0 \<le> x"
      using cs
    proof cases
      case full
      with that show ?thesis by simp
    next
      case part
      have eq: "(?B - ?B * ?t / ?q) * x / (?q - ?t) = ?B * x / ?q"
        using part(1) q by (simp add: divide_simps) (simp add: algebra_simps)
      show ?thesis
      proof (cases "x < ?q - ?t")
        case True
        then have "fifo_cost x lots' = ?B * x / ?q" using part eq by simp
        moreover have "fifo_cost (?t + x) (l # rest) = ?B * (?t + x) / ?q" using True by simp
        ultimately show ?thesis using part(2) by (simp add: distrib_left add_divide_distrib)
      next
        case False
        have arg: "x - (?q - ?t) = ?t + x - ?q" by simp
        have "fifo_cost x lots' = lb + fifo_cost (x - (?q - ?t)) rest"
          using part False by simp
        then have "fifo_cost x lots' = lb + fifo_cost (?t + x - ?q) rest" by (simp only: arg)
        then show ?thesis using part False by simp
      qed
    qed
  qed
qed


lemma sell_loop_Inr:
  assumes "sell_loop remaining removed lots = Inr (r, lots')"
    and "lots_ok lots" and "0 \<le> dval remaining"
  shows "r = removed + fifo_cost (dval remaining) lots \<and>
    lots_position lots' = lots_position lots - dval remaining \<and>
    lots_basis lots' = lots_basis lots - fifo_cost (dval remaining) lots \<and> lots_ok lots' \<and>
    (\<forall>x \<ge> 0. fifo_cost x lots' = fifo_cost (dval remaining + x) lots - fifo_cost (dval remaining) lots)"
  using assms
proof (induction remaining removed lots rule: sell_loop.induct)
  case (1 remaining removed lots)
  show ?case
  proof (cases "0 < dval remaining")
    case False
    with "1.prems" show ?thesis by (auto simp: sell_loop.simps [of remaining])
  next
    case True
    with "1.prems" obtain l rest where lots: "lots = l # rest"
      by (cases lots) (auto simp: sell_loop.simps [of remaining])
    define taken where "taken = py_min remaining (lot_quantity l)"
    from "1.prems" True lots obtain tb ls' rem' where
      tl: "take_lot taken l rest = Inr (tb, ls')" and rb: "rat_bounded (removed + tb)" and
      rem: "lb_exact_subtract remaining taken = Inr rem'" and
      rec: "sell_loop rem' (removed + tb) ls' = Inr (r, lots')"
      by (auto simp: sell_loop.simps [of remaining] taken_def Let_def)
    have t: "0 < dval taken" "dval taken \<le> dval (lot_quantity l)" "dval taken \<le> dval remaining"
      using True "1.prems"(2) lots by (auto simp: taken_def py_min_def)
    have rv: "dval rem' = dval remaining - dval taken" using rem by (auto dest: lb_exact_subtract_Inr)
    have ok: "lots_ok (l # rest)" using "1.prems"(2) lots by simp
    note tl' = take_lot_Inr [OF tl ok t(1,2)]
    have IH: "r = removed + tb + fifo_cost (dval rem') ls' \<and>
        lots_position lots' = lots_position ls' - dval rem' \<and>
        lots_basis lots' = lots_basis ls' - fifo_cost (dval rem') ls' \<and> lots_ok lots' \<and>
        (\<forall>x\<ge>0. fifo_cost x lots' = fifo_cost (dval rem' + x) ls' - fifo_cost (dval rem') ls')"
      using "1.IH" [OF True lots taken_def tl refl _ rem rec tl'(4)] rv t(3) rb by simp
    have fr: "fifo_cost (dval rem') ls' = fifo_cost (dval remaining) lots - tb"
      using tl'(5) [of "dval rem'"] rv t(3) lots by simp
    have "fifo_cost (dval rem' + x) ls' = fifo_cost (dval remaining + x) lots - tb" if "0 \<le> x" for x
    proof -
      have arg: "dval taken + (dval rem' + x) = dval remaining + x" using rv by simp
      show ?thesis using tl'(5) [of "dval rem' + x"] rv t(3) that unfolding arg lots by simp
    qed
    with IH fr tl'(2,3) rv lots show ?thesis by simp
  qed
qed


lemma sell_loop_no_index_error:
  assumes "lots_ok lots" and "dval remaining \<le> lots_position lots"
  shows "sell_loop remaining removed lots \<noteq> Inl IndexError"
  using assms
proof (induction remaining removed lots rule: sell_loop.induct)
  case (1 remaining removed lots)
  have tr: "translate ExactDecimalError ValueError m = Inl IndexError \<longleftrightarrow> m = Inl IndexError" for m :: "'a result"
    by (cases m) auto
  have nb: "bounded_fraction q \<noteq> Inl IndexError" "as_fraction d \<noteq> Inl IndexError" for q d
    by (auto simp: bounded_fraction_eq as_fraction_eq)
  have ns: "exact_subtract a b \<noteq> Inl IndexError" for a b using exact_raises(2) by fastforce
  have nt: "take_lot t l rest \<noteq> Inl IndexError" for t l rest
    by (auto simp: take_lot_def rbind_Inl_iff lb_fraction_def lb_fraction_multiply_def inverse_quantity_def
        lb_fraction_subtract_def lb_exact_subtract_def tr nb ns split: if_splits)
  show ?case
  proof
    assume bad: "sell_loop remaining removed lots = Inl IndexError"
    then have pos: "0 < dval remaining" by (auto simp: sell_loop.simps [of remaining] split: if_splits)
    with "1.prems" obtain l rest where lots: "lots = l # rest" by (cases lots) auto
    define taken where "taken = py_min remaining (lot_quantity l)"
    from bad pos lots obtain tb ls' rem' where
      tl: "take_lot taken l rest = Inr (tb, ls')" and rb: "lb_fraction_add removed tb = Inr (removed + tb)" and
      rem: "lb_exact_subtract remaining taken = Inr rem'" and
      rec: "sell_loop rem' (removed + tb) ls' = Inl IndexError"
      by (auto simp: sell_loop.simps [of remaining] taken_def Let_def rbind_Inl_iff nt
          lb_fraction_add_def lb_exact_subtract_def tr nb ns)
    have t: "0 < dval taken" "dval taken \<le> dval (lot_quantity l)"
      using pos "1.prems"(1) lots by (auto simp: taken_def py_min_def)
    have ok: "lots_ok (l # rest)" using "1.prems"(1) lots by simp
    note tl' = take_lot_Inr [OF tl ok t]
    have "dval rem' \<le> lots_position ls'"
      using rem tl'(2) "1.prems"(2) lots by (auto dest!: lb_exact_subtract_Inr)
    with "1.IH" [OF pos lots taken_def tl refl rb rem tl'(4)] rec show False by simp
  qed
qed

section \<open>The methods\<close>

lemma buy_Inr:
  assumes "buy q p f b = (Inr snap, b')"
  shows "\<exists>qty cost. b' = b\<lparr>lb_lots := lb_lots b @ [\<lparr>lot_quantity = qty, lot_basis = cost\<rparr>]\<rparr>
     \<and> dval qty = pyval q \<and> cost = pyval q * pyval p + pyval f
     \<and> 0 < pyval q \<and> 0 < pyval p \<and> 0 \<le> pyval f
     \<and> snapshot_for (lb_lots b') (lb_realized b') = Inr snap"
  using assms by (auto simp: buy_def Let_def dest!: lb_decimal_Inr lb_exact_multiply_Inr)

lemma sell_Inr:
  assumes "sell q p f b = (Inr snap, b')"
  shows "\<exists>qty removed. sell_loop qty 0 (lb_lots b) = Inr (removed, lb_lots b')
     \<and> dval qty = pyval q \<and> pyval q \<le> lots_position (lb_lots b)
     \<and> lb_realized b' = lb_realized b + (pyval q * pyval p - pyval f - removed)
     \<and> 0 < pyval q \<and> 0 < pyval p \<and> 0 \<le> pyval f
     \<and> snapshot_for (lb_lots b') (lb_realized b') = Inr snap"
  using assms
  by (fastforce simp: sell_def not_less dest!: lb_decimal_Inr lb_exact_multiply_Inr
      dest: snapshot_for_Inr(1))

lemma buy_atomic: "atomic (buy q p f)"
  unfolding buy_def
  by (intro atomic_raising atomicI) (auto simp: Let_def raising_raises)

lemma sell_atomic: "atomic (sell q p f)"
  unfolding sell_def
  by (intro atomic_raising atomicI) (auto simp: raising_raises split: prod.splits)


lemma sell_no_index_error:
  assumes "lots_ok (lb_lots b)"
  shows "sell q p f b \<noteq> (Inl IndexError, b')"
proof
  assume bad: "sell q p f b = (Inl IndexError, b')"
  have tr: "translate ExactDecimalError ValueError m = Inl IndexError \<longleftrightarrow> m = Inl IndexError" for m :: "'a result"
    by (cases m) auto
  have dec: "lb_decimal v \<noteq> Inl IndexError" for v
    using parse_raises by (cases v) (fastforce simp: lb_decimal_def tr)+
  have sums: "exact_sum vs \<noteq> Inl IndexError" "exact_multiply vs \<noteq> Inl IndexError" for vs
    using exact_fold_raises by fastforce+
  have frac: "lb_fraction s \<noteq> Inl IndexError" "lb_fraction_add x y \<noteq> Inl IndexError"
    "lb_fraction_subtract x y \<noteq> Inl IndexError" for s x y
    by (auto simp: lb_fraction_def lb_fraction_add_def lb_fraction_subtract_def bounded_fraction_eq
        as_fraction_eq rbind_Inl_iff split: exact_scalar.splits if_splits)
  have pub: "public_exact x \<noteq> Inl IndexError" for x
    using terminating_decimal_raises [of x IndexError]
    by (auto simp: public_exact_def rbind_Inl_iff frac split: sum.splits if_splits)
  have ob: "open_basis_fraction ls \<noteq> Inl IndexError" for ls
  proof -
    have "rfold (\<lambda>acc l. lb_fraction_add acc (lot_basis l)) a ls \<noteq> Inl IndexError" for a
      by (induction ls arbitrary: a) (auto simp: rbind_Inl_iff frac)
    then show ?thesis by (simp add: open_basis_fraction_def)
  qed
  have snap: "snapshot_for ls r \<noteq> Inl IndexError" for ls r
    by (auto simp: snapshot_for_def rbind_Inl_iff lb_decimal_sum_def tr sums ob pub)
  from bad obtain qty snp where "sell_loop qty 0 (lb_lots b) = Inl IndexError"
    "snapshot_for (lb_lots b) (lb_realized b) = Inr snp" "\<not> dval (snap_position snp) < dval qty"
    by (auto simp: sell_def raising_raises dec snap frac lb_exact_multiply_def tr sums require_def split: if_splits)
  then show False
    using sell_loop_no_index_error [OF assms, of qty 0] snapshot_for_Inr(1) by (simp add: not_less)
qed

section \<open>Histories\<close>

text \<open>A book together with the net cash its accepted trades moved; a call that raised moves none.\<close>

inductive lb_history :: "lot_book \<Rightarrow> rat \<Rightarrow> bool" where
  lb_start: "lb_history empty_lot_book 0"
| lb_buy: "lb_history b cash \<Longrightarrow> buy q p f b = (Inr snap, b') \<Longrightarrow>
    lb_history b' (cash - (pyval q * pyval p + pyval f))"
| lb_sell: "lb_history b cash \<Longrightarrow> sell q p f b = (Inr snap, b') \<Longrightarrow>
    lb_history b' (cash + (pyval q * pyval p - pyval f))"
| lb_buy_raises: "lb_history b cash \<Longrightarrow> buy q p f b = (Inl e, b') \<Longrightarrow> lb_history b' cash"
| lb_sell_raises: "lb_history b cash \<Longrightarrow> sell q p f b = (Inl e, b') \<Longrightarrow> lb_history b' cash"

lemma sell_effect:
  assumes "sell q p f b = (Inr snap, b')" and "lots_ok (lb_lots b)"
  shows "lots_ok (lb_lots b')"
    and "lots_position (lb_lots b') = lots_position (lb_lots b) - pyval q"
    and "lots_basis (lb_lots b') = lots_basis (lb_lots b) - fifo_cost (pyval q) (lb_lots b)"
    and "lb_realized b' = lb_realized b + (pyval q * pyval p - pyval f - fifo_cost (pyval q) (lb_lots b))"
    and "\<forall>x \<ge> 0. fifo_cost x (lb_lots b') =
           fifo_cost (pyval q + x) (lb_lots b) - fifo_cost (pyval q) (lb_lots b)"
proof -
  from sell_Inr [OF assms(1)] obtain qty removed where
    sl: "sell_loop qty 0 (lb_lots b) = Inr (removed, lb_lots b')" and qv: "dval qty = pyval q" and
    re: "lb_realized b' = lb_realized b + (pyval q * pyval p - pyval f - removed)" and pos: "0 < pyval q"
    by blast
  from sell_loop_Inr [OF sl assms(2)] qv pos re show
    "lots_ok (lb_lots b')" "lots_position (lb_lots b') = lots_position (lb_lots b) - pyval q"
    "lots_basis (lb_lots b') = lots_basis (lb_lots b) - fifo_cost (pyval q) (lb_lots b)"
    "lb_realized b' = lb_realized b + (pyval q * pyval p - pyval f - fifo_cost (pyval q) (lb_lots b))"
    "\<forall>x \<ge> 0. fifo_cost x (lb_lots b') =
           fifo_cost (pyval q + x) (lb_lots b) - fifo_cost (pyval q) (lb_lots b)"
    by auto
qed

lemma buy_effect:
  assumes "buy q p f b = (Inr snap, b')" and "lots_ok (lb_lots b)"
  shows "lots_ok (lb_lots b')"
    and "lots_position (lb_lots b') = lots_position (lb_lots b) + pyval q"
    and "lots_basis (lb_lots b') = lots_basis (lb_lots b) + (pyval q * pyval p + pyval f)"
    and "lb_realized b' = lb_realized b"
  using buy_Inr [OF assms(1)] assms(2) by (auto intro!: add_nonneg_nonneg mult_nonneg_nonneg)

lemma lb_history_inv:
  "lb_history b cash \<Longrightarrow> lots_ok (lb_lots b) \<and> lb_realized b - lots_basis (lb_lots b) = cash"
proof (induction rule: lb_history.induct)
  case lb_start
  then show ?case by (simp add: empty_lot_book_def)
next
  case (lb_buy b cash q p f snap b')
  then show ?case using buy_effect [OF lb_buy.hyps(2)] by simp
next
  case (lb_sell b cash q p f snap b')
  then show ?case using sell_effect [OF lb_sell.hyps(2)] by simp
qed (auto dest: atomicD [OF buy_atomic] atomicD [OF sell_atomic])

section \<open>Properties\<close>

text \<open>(C39) In every history of buys and sells, failed calls included, each lot holds a positive
  quantity at a non-negative cost, and realised profit minus the open cost basis is exactly the
  net cash the accepted trades moved.\<close>

theorem lot_book_conserves_cash:
  assumes "lb_history b cash"
  shows "lots_ok (lb_lots b) \<and> lb_realized b - lots_basis (lb_lots b) = cash"
  using assms by (rule lb_history_inv)

text \<open>A sale that returns removes exactly the sold quantity, oldest lots first: it realises the
  net proceeds minus the cost of the first sold units, and what is left is the rest of the queue.\<close>

theorem sell_is_fifo:
  assumes "sell q p f b = (Inr snap, b')" and "lots_ok (lb_lots b)"
  shows "lots_position (lb_lots b') = lots_position (lb_lots b) - pyval q
    \<and> lb_realized b' = lb_realized b + (pyval q * pyval p - pyval f - fifo_cost (pyval q) (lb_lots b))
    \<and> (\<forall>x \<ge> 0. fifo_cost x (lb_lots b') =
         fifo_cost (pyval q + x) (lb_lots b) - fifo_cost (pyval q) (lb_lots b))
    \<and> dval (snap_position snap) = lots_position (lb_lots b')
    \<and> sval (snap_realized_pnl snap) = lb_realized b'"
  using sell_effect [OF assms] sell_Inr [OF assms(1)] snapshot_for_Inr by blast

text \<open>Whatever is asked of a reachable book, a sale that raises leaves the book as it was, and the
  loop over the lots never reads past the last lot.\<close>

theorem sell_raises_cleanly:
  assumes "lb_history b cash" and "sell q p f b = (Inl e, b')"
  shows "b' = b \<and> e \<noteq> IndexError"
proof
  show "b' = b" using assms(2) by (rule atomicD [OF sell_atomic])
  show "e \<noteq> IndexError"
    using assms(2) sell_no_index_error lb_history_inv [OF assms(1)] by blast
qed


text \<open>Witnesses: two units bought at 5 with a fee of 1, one sold at 7.\<close>

definition bought_book :: lot_book where
  "bought_book = \<lparr>lb_lots = [\<lparr>lot_quantity = Decimal False 2 0, lot_basis = 11\<rparr>], lb_realized = 0\<rparr>"

definition sold_book :: lot_book where
  "sold_book = \<lparr>lb_lots = [\<lparr>lot_quantity = Decimal False 1 0, lot_basis = 11 / 2\<rparr>], lb_realized = 3 / 2\<rparr>"

lemma buy_example:
  "buy (PyInt 2) (PyStr ''5.00'') (PyInt 1) empty_lot_book =
     (Inr \<lparr>snap_position = Decimal False 2 0, snap_open_basis = ScalarDecimal (Decimal False 11 0),
           snap_realized_pnl = ScalarDecimal dzero\<rparr>, bought_book)"
  by code_simp

lemma sell_example:
  "sell (PyInt 1) (PyInt 7) (PyInt 0) bought_book =
     (Inr \<lparr>snap_position = Decimal False 1 0, snap_open_basis = ScalarDecimal (Decimal False 55 (- 1)),
           snap_realized_pnl = ScalarDecimal (Decimal False 15 (- 1))\<rparr>, sold_book)"
  by code_simp

lemma oversell_example: "sell (PyInt 3) (PyInt 7) (PyInt 0) bought_book = (Inl ValueError, bought_book)"
  by code_simp

lemma price_example: "pyval (PyStr ''5.00'') = 5"
  by code_simp

lemma history_bought: "lb_history bought_book (-11)"
  using lb_buy [OF lb_start buy_example] price_example by simp

lemma history_sold: "lb_history sold_book (-4)"
  using lb_sell [OF history_bought sell_example] by simp

theorem lot_book_conserves_cash_witness: "lots_ok (lb_lots sold_book) \<and> lb_realized sold_book - lots_basis (lb_lots sold_book) = -4"
  by (rule lot_book_conserves_cash [OF history_sold])

theorem sell_is_fifo_witness:
  "lots_position (lb_lots sold_book) = lots_position (lb_lots bought_book) - 1
    \<and> lb_realized sold_book = lb_realized bought_book + (7 - fifo_cost 1 (lb_lots bought_book))"
  using sell_is_fifo [OF sell_example] lb_history_inv [OF history_bought] by simp

theorem sell_raises_cleanly_witness: "bought_book = bought_book \<and> ValueError \<noteq> IndexError"
  by (rule sell_raises_cleanly [OF history_bought oversell_example])

end
