(* ===== verification/Reservations.thy ===== *)
theory Reservations
  imports Exact_Decimal_Text
begin

text \<open>
  \<open>mvp/autotrade_mvp/reservations.py\<close>: capital held for working, ambiguous and busted orders.  The
  book is the dictionary \<open>_records\<close>; a snapshot holds its three resource mappings as dictionaries.
  A detached snapshot has the contents of the record it copies.
\<close>

section \<open>Data\<close>

datatype reservation_state =
  WORKING | UNKNOWN | FILLED | CANCELED | REJECTED | PROVEN_ABSENT | BUSTED_PENDING_RECONCILIATION

definition TERMINAL_STATES :: "reservation_state list" where
  "TERMINAL_STATES = [FILLED, CANCELED, REJECTED, PROVEN_ABSENT]"

definition HELD_STATES :: "reservation_state list" where
  "HELD_STATES = [WORKING, UNKNOWN, BUSTED_PENDING_RECONCILIATION]"

text \<open>The terminal state a caller names by its text.\<close>

definition terminal_of_text :: "string \<Rightarrow> reservation_state option" where
  "terminal_of_text t =
     (if t = ''FILLED'' then Some FILLED else if t = ''CANCELED'' then Some CANCELED
      else if t = ''REJECTED'' then Some REJECTED
      else if t = ''PROVEN_ABSENT'' then Some PROVEN_ABSENT else None)"

type_synonym amounts = "(string, decimal) dict"
type_synonym amount_args = "(string, pynum) dict"

record reservation =
  rs_id :: string
  rs_intent :: string
  rs_original :: amounts
  rs_remaining :: amounts
  rs_consumed :: amounts
  rs_state :: reservation_state
  rs_evidence :: "string option"

type_synonym reservation_book = "(string, reservation) dict"

definition empty_reservation_book :: reservation_book where "empty_reservation_book = []"

section \<open>Normalisation\<close>

definition rs_decimal :: "pynum \<Rightarrow> decimal result" where
  "rs_decimal v =
     (case v of
        PyBool _ \<Rightarrow> Inl TypeError | PyFloat \<Rightarrow> Inl TypeError
      | _ \<Rightarrow> translate ExactDecimalError ValueError (parse_bounded_exact_decimal v True))"

definition rs_text :: "string \<Rightarrow> string result" where
  "rs_text v = (let normalized = strip v in if normalized = [] then Inl ValueError else Inr normalized)"

definition amounts_step :: "bool \<Rightarrow> amounts \<Rightarrow> string \<times> pynum \<Rightarrow> amounts result" where
  "amounts_step allow_zero normalized item =
     (case item of (resource, raw) \<Rightarrow>
       rbind (rs_text resource) (\<lambda>key.
       if dict_get normalized key \<noteq> None then Inl ValueError
       else rbind (rs_decimal raw) (\<lambda>amount.
         if dval amount < 0 \<or> (dval amount = 0 \<and> \<not> allow_zero) then Inl ValueError
         else Inr (dict_set normalized key amount))))"

definition normalize_amounts :: "bool \<Rightarrow> amount_args \<Rightarrow> amounts result" where
  "normalize_amounts allow_zero values =
     (if values = [] then Inl ValueError else rfold (amounts_step allow_zero) [] values)"

section \<open>The book\<close>

definition get_record :: "reservation_book \<Rightarrow> string \<Rightarrow> reservation result" where
  "get_record b reservation_id = rbind (rs_text reservation_id) (dict_lookup b)"

definition reservation_get :: "reservation_book \<Rightarrow> string \<Rightarrow> reservation result" where
  "reservation_get b reservation_id = get_record b reservation_id"

definition rs_held :: "reservation \<Rightarrow> bool" where
  "rs_held r \<longleftrightarrow> rs_state r \<in> set HELD_STATES"

definition reserved_amount :: "string \<Rightarrow> reservation \<Rightarrow> decimal" where
  "reserved_amount key r = (case dict_get (rs_remaining r) key of None \<Rightarrow> dzero | Some d \<Rightarrow> d)"

definition total_reserved :: "reservation_book \<Rightarrow> string \<Rightarrow> decimal result" where
  "total_reserved b resource =
     rbind (rs_text resource) (\<lambda>key.
       translate ExactDecimalError ReservationConflict
         (exact_sum (map (reserved_amount key) (filter rs_held (dict_values b)))))"

definition active :: "reservation_book \<Rightarrow> reservation list" where
  "active b = filter rs_held (dict_values b)"

text \<open>One requirement against the availability quoted for it.\<close>

definition admit_step :: "reservation_book \<Rightarrow> amounts \<Rightarrow> unit \<Rightarrow> string \<times> decimal \<Rightarrow> unit result" where
  "admit_step b availability u item =
     (case item of (resource, amount) \<Rightarrow>
       (case dict_get availability resource of
          None \<Rightarrow> Inl InsufficientAvailable
        | Some av \<Rightarrow>
            rbind (total_reserved b resource) (\<lambda>already_reserved.
            rbind (translate ExactDecimalError ReservationConflict (exact_add already_reserved amount))
              (\<lambda>projected_reserved.
                 if dval av < dval projected_reserved then Inl InsufficientAvailable else Inr ()))))"

definition new_reservation :: "string \<Rightarrow> string \<Rightarrow> amounts \<Rightarrow> reservation" where
  "new_reservation rid iid needed =
     \<lparr>rs_id = rid, rs_intent = iid, rs_original = needed, rs_remaining = needed,
      rs_consumed = map (\<lambda>(k, v). (k, dzero)) needed, rs_state = WORKING, rs_evidence = None\<rparr>"

definition reserve :: "string \<Rightarrow> string \<Rightarrow> amount_args \<Rightarrow> amount_args
    \<Rightarrow> (reservation_book, reservation) operation" where
  "reserve reservation_id intent_id requirements available =
     raising (rs_text reservation_id) (\<lambda>rid. raising (rs_text intent_id) (\<lambda>iid.
     raising (normalize_amounts False requirements) (\<lambda>needed.
     raising (normalize_amounts True available) (\<lambda>availability b.
       case dict_get b rid of
         Some existing \<Rightarrow>
           if rs_intent existing \<noteq> iid
             \<or> \<not> dict_same (\<lambda>x y. dval x = dval y) (rs_original existing) needed
           then (Inl ReservationConflict, b)
           else (Inr existing, b)
       | None \<Rightarrow>
           if list_ex (\<lambda>r. rs_intent r = iid) (dict_values b) then (Inl ReservationConflict, b)
           else raising (rfold (admit_step b availability) () needed) (\<lambda>_ b.
             let snapshot = new_reservation rid iid needed
             in (Inr snapshot, dict_set b rid snapshot)) b))))"

text \<open>
  A capital projection as the caller sees it: whether it has \<open>reservation_resources\<close> (its result),
  and its \<open>blocks_new_risk\<close> attribute, which counts as true when it is missing.
\<close>

record capital_evidence =
  blocks_new_risk :: "bool option"
  reservation_resources :: "amount_args option"

definition reserve_from_capital :: "string \<Rightarrow> string \<Rightarrow> amount_args \<Rightarrow> capital_evidence
    \<Rightarrow> (reservation_book, reservation) operation" where
  "reserve_from_capital reservation_id intent_id requirements capital =
     (case reservation_resources capital of
        None \<Rightarrow> (\<lambda>b. (Inl TypeError, b))
      | Some available \<Rightarrow>
          raising (require (blocks_new_risk capital = Some False) InsufficientAvailable)
            (\<lambda>_. reserve reservation_id intent_id requirements available))"

definition consume_step :: "amounts \<times> amounts \<Rightarrow> string \<times> decimal \<Rightarrow> (amounts \<times> amounts) result" where
  "consume_step st item =
     (case st of (remaining, consumed) \<Rightarrow> case item of (resource, amount) \<Rightarrow>
       (case dict_get remaining resource of
          None \<Rightarrow> Inl ReservationConflict
        | Some r \<Rightarrow>
            if dval r < dval amount then Inl ReservationConflict
            else translate ExactDecimalError ReservationConflict
              (rbind (exact_subtract r amount) (\<lambda>next_remaining.
               rbind (dict_lookup consumed resource) (\<lambda>c.
               rbind (exact_add c amount) (\<lambda>next_consumed.
                 Inr (dict_set remaining resource next_remaining,
                      dict_set consumed resource next_consumed)))))))"

definition consume :: "string \<Rightarrow> amount_args \<Rightarrow> (reservation_book, reservation) operation" where
  "consume reservation_id usage b =
     raising (get_record b reservation_id) (\<lambda>current.
     raising (require (rs_held current) ReservationConflict) (\<lambda>_.
     raising (normalize_amounts False usage) (\<lambda>amounts.
     raising (rfold consume_step (rs_remaining current, rs_consumed current) amounts)
       (\<lambda>(remaining, consumed) b.
         let updated = current\<lparr>rs_remaining := remaining, rs_consumed := consumed\<rparr>
         in (Inr updated, dict_set b (rs_id current) updated))))) b"

definition released :: "amounts \<Rightarrow> amounts" where
  "released remaining = map (\<lambda>(k, v). (k, dzero)) remaining"

definition consume_and_mark_filled :: "string \<Rightarrow> amount_args \<Rightarrow> string
    \<Rightarrow> (reservation_book, reservation) operation" where
  "consume_and_mark_filled reservation_id usage resolution_evidence b =
     raising (get_record b reservation_id) (\<lambda>current.
     raising (require (rs_held current) ReservationConflict) (\<lambda>_.
     raising (rs_text resolution_evidence) (\<lambda>evidence.
     raising (normalize_amounts False usage) (\<lambda>amounts.
     raising (rfold consume_step (rs_remaining current, rs_consumed current) amounts)
       (\<lambda>(remaining, consumed) b.
         let updated = current\<lparr>rs_remaining := released (rs_remaining current),
                rs_consumed := consumed, rs_state := FILLED, rs_evidence := Some evidence\<rparr>
         in (Inr updated, dict_set b (rs_id current) updated)))))) b"

definition restore_step :: "bool \<Rightarrow> amounts \<Rightarrow> amounts \<times> amounts \<Rightarrow> string \<times> decimal
    \<Rightarrow> (amounts \<times> amounts) result" where
  "restore_step cancelled original st item =
     (case st of (remaining, consumed) \<Rightarrow> case item of (resource, amount) \<Rightarrow>
       (case (dict_get consumed resource, dict_get original resource) of
          (Some c, Some orig) \<Rightarrow>
            if dval c < dval amount then Inl ReservationConflict
            else rbind (translate ExactDecimalError ReservationConflict
              (rbind (exact_subtract c amount) (\<lambda>next_consumed.
               rbind (dict_lookup remaining resource) (\<lambda>r.
               rbind (if cancelled then Inr r else exact_add r amount) (\<lambda>next_remaining.
                 Inr (next_remaining, next_consumed)))))) (\<lambda>(next_remaining, next_consumed).
              if dval orig < dval next_remaining then Inl ReservationConflict
              else Inr (dict_set remaining resource next_remaining,
                        dict_set consumed resource next_consumed))
        | _ \<Rightarrow> Inl ReservationConflict))"

definition rebuild_step :: "amounts \<Rightarrow> amounts \<Rightarrow> string \<times> decimal \<Rightarrow> amounts result" where
  "rebuild_step consumed rebuilt_remaining item =
     (case item of (resource, orig) \<Rightarrow>
       (case dict_get consumed resource of
          None \<Rightarrow> Inl ReservationConflict
        | Some c \<Rightarrow>
            rbind (translate ExactDecimalError ReservationConflict (exact_subtract orig c)) (\<lambda>rebuilt.
              if dval rebuilt < 0 then Inl ReservationConflict
              else Inr (dict_set rebuilt_remaining resource rebuilt))))"

definition restore_consumption :: "string \<Rightarrow> amount_args \<Rightarrow> (reservation_book, reservation) operation" where
  "restore_consumption reservation_id usage b =
     raising (get_record b reservation_id) (\<lambda>current.
       let filled_bust = (rs_state current = FILLED);
           cancelled_bust = (rs_state current = CANCELED)
       in
     raising (require (rs_held current \<or> filled_bust \<or> cancelled_bust) ReservationConflict) (\<lambda>_.
     raising (normalize_amounts False usage) (\<lambda>amounts.
     raising (rfold (restore_step cancelled_bust (rs_original current))
         (rs_remaining current, rs_consumed current) amounts) (\<lambda>(remaining, consumed).
     raising (if filled_bust
         then rbind (rfold (rebuild_step consumed) [] (rs_original current)) (\<lambda>rebuilt_remaining.
           Inr (current\<lparr>rs_remaining := rebuilt_remaining, rs_consumed := consumed,
             rs_state := BUSTED_PENDING_RECONCILIATION, rs_evidence := None\<rparr>))
         else Inr (current\<lparr>rs_remaining := remaining, rs_consumed := consumed\<rparr>)) (\<lambda>updated b.
       (Inr updated, dict_set b (rs_id current) updated)))))) b"

definition mark_unknown :: "string \<Rightarrow> (reservation_book, reservation) operation" where
  "mark_unknown reservation_id b =
     raising (get_record b reservation_id) (\<lambda>current b.
       if rs_state current \<in> set TERMINAL_STATES then (Inl ReservationConflict, b)
       else if rs_state current = BUSTED_PENDING_RECONCILIATION then (Inl ReservationConflict, b)
       else if rs_state current = UNKNOWN then (Inr current, b)
       else
         let updated = current\<lparr>rs_state := UNKNOWN, rs_evidence := None\<rparr>
         in (Inr updated, dict_set b (rs_id current) updated)) b"

definition mark_terminal :: "string \<Rightarrow> string \<Rightarrow> string \<Rightarrow> (reservation_book, reservation) operation" where
  "mark_terminal reservation_id outcome resolution_evidence b =
     raising (get_record b reservation_id) (\<lambda>current.
     raising (rs_text outcome) (\<lambda>outcome_text.
     raising (case terminal_of_text (upper outcome_text) of
         None \<Rightarrow> Inl ValueError | Some st \<Rightarrow> Inr st) (\<lambda>normalized.
     raising (rs_text resolution_evidence) (\<lambda>evidence b.
       let any_consumed = list_ex (\<lambda>d. dval d \<noteq> 0) (dict_values (rs_consumed current)) in
       if normalized \<in> {REJECTED, PROVEN_ABSENT} \<and> any_consumed then (Inl ReservationConflict, b)
       else if rs_state current \<in> set TERMINAL_STATES
       then if rs_state current \<noteq> normalized \<or> rs_evidence current \<noteq> Some evidence
            then (Inl ReservationConflict, b) else (Inr current, b)
       else
         let updated = current\<lparr>rs_remaining := released (rs_remaining current),
               rs_state := normalized, rs_evidence := Some evidence\<rparr>
         in (Inr updated, dict_set b (rs_id current) updated))))) b"


section \<open>Abstraction\<close>

text \<open>The value a mapping gives a resource, and what makes a record and a book well formed.\<close>

definition amt :: "amounts \<Rightarrow> string \<Rightarrow> rat" where
  "amt d k = (case dict_get d k of None \<Rightarrow> 0 | Some x \<Rightarrow> dval x)"

definition env_ok :: "amounts \<Rightarrow> bool" where
  "env_ok d \<longleftrightarrow> (\<forall>(k, x) \<in> set d. in_envelope x)"

definition record_ok :: "reservation \<Rightarrow> bool" where
  "record_ok r \<longleftrightarrow> dict_ok (rs_original r)
     \<and> dict_keys (rs_remaining r) = dict_keys (rs_original r)
     \<and> dict_keys (rs_consumed r) = dict_keys (rs_original r)
     \<and> (\<forall>k. 0 \<le> amt (rs_remaining r) k \<and> 0 \<le> amt (rs_consumed r) k
          \<and> (if rs_held r then amt (rs_remaining r) k + amt (rs_consumed r) k = amt (rs_original r) k
             else amt (rs_remaining r) k = 0 \<and> amt (rs_consumed r) k \<le> amt (rs_original r) k))
     \<and> (rs_state r \<in> {REJECTED, PROVEN_ABSENT} \<longrightarrow> (\<forall>k. amt (rs_consumed r) k = 0))
     \<and> (rs_evidence r = None \<longleftrightarrow> rs_held r)
     \<and> env_ok (rs_original r) \<and> env_ok (rs_remaining r) \<and> env_ok (rs_consumed r)"

definition book_ok :: "reservation_book \<Rightarrow> bool" where
  "book_ok b \<longleftrightarrow> dict_ok b \<and> (\<forall>(k, r) \<in> set b. rs_id r = k \<and> record_ok r)
     \<and> distinct (map rs_intent (dict_values b))"

definition reserved :: "reservation_book \<Rightarrow> string \<Rightarrow> rat" where
  "reserved b k = sum_list (map (\<lambda>(i, r). if rs_held r then amt (rs_remaining r) k else 0) b)"

definition spent :: "reservation_book \<Rightarrow> string \<Rightarrow> rat" where
  "spent b k = sum_list (map (\<lambda>(i, r). amt (rs_consumed r) k) b)"

lemma amt_simps [simp]:
  "amt [] k = 0" "amt ((j, x) # d) k = (if k = j then dval x else amt d k)"
  "amt (dict_set d j x) k = (if k = j then dval x else amt d k)"
  by (auto simp: amt_def)

lemma amt_outside: "k \<notin> set (dict_keys d) \<Longrightarrow> amt d k = 0"
  by (metis amt_def dict_get_None_iff option.simps(4))

lemma amt_get: "dict_get d k = Some x \<Longrightarrow> amt d k = dval x"
  by (simp add: amt_def)

lemma released_simps [simp]:
  "amt (released d) k = 0" "dict_keys (released d) = dict_keys d" "env_ok (released d)"
  by (induction d) (auto simp: released_def env_ok_def)

lemma env_ok_simps [simp]:
  "env_ok []" "env_ok ((k, x) # d) \<longleftrightarrow> in_envelope x \<and> env_ok d"
  "env_ok (map (\<lambda>(k, v). (k, dzero)) d)"
  by (auto simp: env_ok_def)

lemma env_ok_set [simp]: "env_ok d \<Longrightarrow> in_envelope x \<Longrightarrow> env_ok (dict_set d k x)"
  by (induction d) (auto simp: dict_set_def)

lemma env_ok_get: "env_ok d \<Longrightarrow> dict_get d k = Some x \<Longrightarrow> in_envelope x"
  by (auto simp: env_ok_def dest!: dict_get_mem)

lemma dict_keys_zeros [simp]: "dict_keys (map (\<lambda>(k, v). (k, z)) d) = dict_keys d"
  by (induction d) auto

lemma amt_zeros [simp]: "amt (map (\<lambda>(k, v). (k, dzero)) d) k = 0"
  by (induction d) auto

lemma held_states [simp]:
  "rs_state r \<in> set TERMINAL_STATES \<longleftrightarrow> \<not> rs_held r"
  by (cases "rs_state r") (auto simp: rs_held_def TERMINAL_STATES_def HELD_STATES_def)

lemma rs_held_iff: "rs_held r \<longleftrightarrow> rs_state r \<in> {WORKING, UNKNOWN, BUSTED_PENDING_RECONCILIATION}"
  by (auto simp: rs_held_def HELD_STATES_def)

lemma terminal_of_text_terminal:
  "terminal_of_text t = Some st \<Longrightarrow> st \<in> {FILLED, CANCELED, REJECTED, PROVEN_ABSENT}"
  by (auto simp: terminal_of_text_def split: if_splits)

section \<open>The loops\<close>

definition amounts_ok :: "bool \<Rightarrow> amounts \<Rightarrow> bool" where
  "amounts_ok allow_zero d \<longleftrightarrow> dict_ok d \<and>
     (\<forall>(k, x) \<in> set d. strip k = k \<and> k \<noteq> [] \<and> in_envelope x \<and> (if allow_zero then 0 \<le> dval x else 0 < dval x))"

lemma rs_text_Inr [simp, result_simps]: "rs_text v = Inr t \<longleftrightarrow> strip v = t \<and> t \<noteq> []"
  by (auto simp: rs_text_def Let_def)

lemma rs_decimal_Inr: "rs_decimal v = Inr d \<Longrightarrow> in_envelope d \<and> dval d = pyval v"
  by (cases v) (auto simp: rs_decimal_def dest: parse_Inr)

lemma amounts_step_ok:
  "amounts_step z d item = Inr d' \<Longrightarrow> amounts_ok z d \<Longrightarrow> amounts_ok z d' \<and> d' \<noteq> []"
  by (cases item)
    (auto simp: amounts_step_def amounts_ok_def dict_set_new dict_ok_def dict_get_None_iff not_less not_le
      dest!: rs_decimal_Inr split: if_splits)

lemma normalize_amounts_Inr:
  assumes "normalize_amounts z values = Inr d"
  shows "amounts_ok z d"
proof -
  from assms have "rfold (amounts_step z) [] values = Inr d"
    by (auto simp: normalize_amounts_def split: if_splits)
  then show ?thesis
    by (rule rfold_invariant) (simp add: amounts_ok_def, blast dest: amounts_step_ok)
qed

lemma amounts_value:
  assumes "amounts_ok z d" and "(k, x) \<in> set d"
  shows "if z then 0 \<le> dval x else 0 < dval x"
  using assms by (auto simp: amounts_ok_def)

lemma amounts_nonneg:
  assumes "amounts_ok z d"
  shows "0 \<le> amt d k"
proof (cases "dict_get d k")
  case (Some x)
  with amounts_value [OF assms dict_get_mem [OF Some]] show ?thesis by (simp add: amt_def split: if_splits)
qed (simp add: amt_def)

lemma consume_step_Inr:
  "consume_step (r, c) (j, x) = Inr st \<Longrightarrow>
     \<exists>a b a' b'. dict_get r j = Some a \<and> dict_get c j = Some b \<and> dval x \<le> dval a
       \<and> exact_subtract a x = Inr a' \<and> exact_add b x = Inr b' \<and> st = (dict_set r j a', dict_set c j b')"
  by (auto simp: consume_step_def split: option.splits if_splits)

lemma restore_step_Inr:
  "restore_step cn og (r, c) (j, x) = Inr st \<Longrightarrow>
     \<exists>a b a' b'. dict_get r j = Some a \<and> dict_get c j = Some b \<and> dval x \<le> dval b
       \<and> (if cn then Inr a else exact_add a x) = Inr a' \<and> exact_subtract b x = Inr b'
       \<and> st = (dict_set r j a', dict_set c j b')"
  by (auto simp: restore_step_def split: option.splits if_splits)

lemma rebuild_step_Inr:
  "rebuild_step c acc (j, x) = Inr acc' \<Longrightarrow>
     \<exists>a a'. dict_get c j = Some a \<and> exact_subtract x a = Inr a' \<and> 0 \<le> dval a' \<and> acc' = dict_set acc j a'"
  by (auto simp: rebuild_step_def split: option.splits if_splits)

lemma consume_fold:
  assumes "rfold consume_step (r, c) am = Inr (r', c')" and "dict_ok am"
  shows "dict_keys r' = dict_keys r" and "dict_keys c' = dict_keys c"
    and "amt r' k = amt r k - amt am k" and "amt c' k = amt c k + amt am k"
    and "0 \<le> amt r k \<Longrightarrow> 0 \<le> amt r' k"
    and "set (dict_keys am) \<subseteq> set (dict_keys r)"
    and "env_ok r \<Longrightarrow> env_ok r'" and "env_ok c \<Longrightarrow> env_ok c'"
proof -
  have "dict_keys r' = dict_keys r \<and> dict_keys c' = dict_keys c
    \<and> amt r' k = amt r k - amt am k \<and> amt c' k = amt c k + amt am k \<and> (0 \<le> amt r k \<longrightarrow> 0 \<le> amt r' k)
    \<and> set (dict_keys am) \<subseteq> set (dict_keys r)
    \<and> (env_ok r \<longrightarrow> env_ok r') \<and> (env_ok c \<longrightarrow> env_ok c')"
    using assms
  proof (induction am arbitrary: r c)
    case (Cons p am)
    obtain j x where p: "p = (j, x)" by force
    from Cons.prems p obtain a b a' b' where
      get: "dict_get r j = Some a" "dict_get c j = Some b" and le: "dval x \<le> dval a" and
      ex: "exact_subtract a x = Inr a'" "exact_add b x = Inr b'" and
      rest: "rfold consume_step (dict_set r j a', dict_set c j b') am = Inr (r', c')"
      by (auto dest!: consume_step_Inr)
    have v: "dval a' = dval a - dval x" "dval b' = dval b + dval x" "in_envelope a'" "in_envelope b'"
      using ex by (auto dest: exact.sub_val exact.add_val)
    have keys: "j \<in> set (dict_keys r)" "j \<in> set (dict_keys c)"
      using get by (force simp: image_iff dest: dict_get_mem)+
    have "dict_ok am" "amt am j = 0"
      using Cons.prems(2) p by (auto simp: dict_ok_def intro!: amt_outside)
    with Cons.IH [OF rest] p v keys amt_get [OF get(1)] amt_get [OF get(2)] le
    show ?case by (auto simp: dict_keys_set_same)
  qed simp
  then show "dict_keys r' = dict_keys r" "dict_keys c' = dict_keys c"
    "amt r' k = amt r k - amt am k" "amt c' k = amt c k + amt am k"
    "0 \<le> amt r k \<Longrightarrow> 0 \<le> amt r' k" "set (dict_keys am) \<subseteq> set (dict_keys r)"
    "env_ok r \<Longrightarrow> env_ok r'" "env_ok c \<Longrightarrow> env_ok c'" by auto
qed

lemma restore_fold:
  assumes "rfold (restore_step cn og) (r, c) am = Inr (r', c')" and "dict_ok am"
  shows "dict_keys r' = dict_keys r" and "dict_keys c' = dict_keys c"
    and "amt c' k = amt c k - amt am k"
    and "amt r' k = amt r k + (if cn then 0 else amt am k)"
    and "0 \<le> amt c k \<Longrightarrow> 0 \<le> amt c' k"
    and "env_ok r \<Longrightarrow> env_ok r'" and "env_ok c \<Longrightarrow> env_ok c'"
proof -
  have "dict_keys r' = dict_keys r \<and> dict_keys c' = dict_keys c
    \<and> amt c' k = amt c k - amt am k \<and> amt r' k = amt r k + (if cn then 0 else amt am k)
    \<and> (0 \<le> amt c k \<longrightarrow> 0 \<le> amt c' k) \<and> (env_ok r \<longrightarrow> env_ok r') \<and> (env_ok c \<longrightarrow> env_ok c')"
    using assms
  proof (induction am arbitrary: r c)
    case (Cons p am)
    obtain j x where p: "p = (j, x)" by force
    from Cons.prems p obtain a b a' b' where
      get: "dict_get r j = Some a" "dict_get c j = Some b" and le: "dval x \<le> dval b" and
      ex: "(if cn then Inr a else exact_add a x) = Inr a'" "exact_subtract b x = Inr b'" and
      rest: "rfold (restore_step cn og) (dict_set r j a', dict_set c j b') am = Inr (r', c')"
      by (auto dest!: restore_step_Inr)
    have v: "dval a' = dval a + (if cn then 0 else dval x)" "dval b' = dval b - dval x"
      "in_envelope b'" "env_ok r \<Longrightarrow> in_envelope a'"
      using ex env_ok_get [OF _ get(1)] by (auto dest: exact.sub_val exact.add_val split: if_splits)
    have keys: "j \<in> set (dict_keys r)" "j \<in> set (dict_keys c)"
      using get by (force simp: image_iff dest: dict_get_mem)+
    have "dict_ok am" "amt am j = 0"
      using Cons.prems(2) p by (auto simp: dict_ok_def intro!: amt_outside)
    with Cons.IH [OF rest] p v keys amt_get [OF get(1)] amt_get [OF get(2)] le
    show ?case by (auto simp: dict_keys_set_same)
  qed simp
  then show "dict_keys r' = dict_keys r" "dict_keys c' = dict_keys c"
    "amt c' k = amt c k - amt am k" "amt r' k = amt r k + (if cn then 0 else amt am k)"
    "0 \<le> amt c k \<Longrightarrow> 0 \<le> amt c' k" "env_ok r \<Longrightarrow> env_ok r'" "env_ok c \<Longrightarrow> env_ok c'" by auto
qed

lemma rebuild_fold:
  assumes "rfold (rebuild_step c) acc og = Inr r'" and "dict_ok (acc @ og)"
  shows "dict_keys r' = dict_keys acc @ dict_keys og"
    and "amt r' k = amt acc k + (if k \<in> set (dict_keys og) then amt og k - amt c k else 0)"
    and "k \<in> set (dict_keys og) \<Longrightarrow> 0 \<le> amt r' k"
    and "env_ok acc \<Longrightarrow> env_ok r'"
proof -
  have "dict_keys r' = dict_keys acc @ dict_keys og
    \<and> amt r' k = amt acc k + (if k \<in> set (dict_keys og) then amt og k - amt c k else 0)
    \<and> (k \<in> set (dict_keys og) \<longrightarrow> 0 \<le> amt r' k) \<and> (env_ok acc \<longrightarrow> env_ok r')"
    using assms
  proof (induction og arbitrary: acc)
    case (Cons p og)
    obtain j x where p: "p = (j, x)" by force
    from Cons.prems p obtain a a' where
      get: "dict_get c j = Some a" and ex: "exact_subtract x a = Inr a'" and nn: "0 \<le> dval a'" and
      rest: "rfold (rebuild_step c) (dict_set acc j a') og = Inr r'"
      by (auto dest!: rebuild_step_Inr)
    have v: "dval a' = dval x - dval a" "in_envelope a'" using ex by (auto dest: exact.sub_val)
    have new: "dict_get acc j = None" "j \<notin> set (dict_keys acc)"
      using Cons.prems(2) p by (auto simp: dict_ok_def dict_get_None_iff)
    have j: "j \<notin> set (dict_keys og)" "amt acc j = 0"
      using Cons.prems(2) p new by (auto simp: dict_ok_def amt_def)
    have dok: "dict_ok (dict_set acc j a' @ og)"
      using Cons.prems(2) p new by (auto simp: dict_ok_def dict_set_new)
    have keys: "dict_keys (dict_set acc j a') = dict_keys acc @ [j]" by (simp add: dict_set_new [OF new(1)])
    from Cons.IH [OF rest dok] p v nn keys j amt_get [OF get] show ?case
      by (simp del: set_map split: if_splits)
  qed simp
  then show "dict_keys r' = dict_keys acc @ dict_keys og"
    "amt r' k = amt acc k + (if k \<in> set (dict_keys og) then amt og k - amt c k else 0)"
    "k \<in> set (dict_keys og) \<Longrightarrow> 0 \<le> amt r' k" "env_ok acc \<Longrightarrow> env_ok r'" by auto
qed


section \<open>Effects of the methods\<close>

lemma book_record:
  assumes "book_ok b" and "dict_get b k = Some r"
  shows "rs_id r = k" and "record_ok r"
  using assms by (auto simp: book_ok_def dest!: dict_get_mem)

lemma book_ok_update:
  assumes "book_ok b" and "dict_get b k = Some cur" and "record_ok r"
    and "rs_id r = rs_id cur" and "rs_intent r = rs_intent cur"
  shows "book_ok (dict_set b k r)"
proof -
  from assms(1) have ok: "dict_ok b" by (simp add: book_ok_def)
  from dict_set_split [OF ok assms(2)] obtain d1 d2 where
    b: "b = d1 @ (k, cur) # d2" and b': "dict_set b k r = d1 @ (k, r) # d2" by metis
  have "dict_ok (dict_set b k r)" using ok by simp
  with assms(1,3-5) show ?thesis unfolding book_ok_def b' by (simp add: b)
qed

lemma totals_update:
  assumes "book_ok b" and "dict_get b k = Some cur"
  shows "reserved (dict_set b k r) j = reserved b j
      - (if rs_held cur then amt (rs_remaining cur) j else 0) + (if rs_held r then amt (rs_remaining r) j else 0)"
    and "spent (dict_set b k r) j = spent b j - amt (rs_consumed cur) j + amt (rs_consumed r) j"
proof -
  from assms(1) have ok: "dict_ok b" by (simp add: book_ok_def)
  show "reserved (dict_set b k r) j = reserved b j
      - (if rs_held cur then amt (rs_remaining cur) j else 0) + (if rs_held r then amt (rs_remaining r) j else 0)"
    "spent (dict_set b k r) j = spent b j - amt (rs_consumed cur) j + amt (rs_consumed r) j"
    unfolding reserved_def spent_def sum_dict_set [OF ok assms(2)] by simp_all
qed

lemma get_record_Inr [simp, result_simps]:
  "get_record b i = Inr r \<longleftrightarrow> strip i \<noteq> [] \<and> dict_get b (strip i) = Some r"
  by (auto simp: get_record_def)

lemma total_reserved_Inr:
  assumes "total_reserved b resource = Inr t"
  shows "in_envelope t" and "dval t = reserved b (strip resource)"
proof -
  let ?k = "strip resource"
  from assms have s: "exact_sum (map (reserved_amount ?k) (filter rs_held (dict_values b))) = Inr t"
    by (auto simp: total_reserved_def)
  have "dval (reserved_amount ?k r) = amt (rs_remaining r) ?k" for r
    by (simp add: reserved_amount_def amt_def split: option.splits)
  then have "sum_list (map dval (map (reserved_amount ?k) (filter rs_held (dict_values b)))) = reserved b ?k"
    by (induction b) (auto simp: reserved_def)
  with exact.total_val [OF s] show "in_envelope t" "dval t = reserved b ?k" by auto
qed

lemma admit_Inr:
  assumes "rfold (admit_step b av) () needed = Inr u" and "(k, x) \<in> set needed" and "strip k = k"
  shows "\<exists>a. dict_get av k = Some a \<and> reserved b k + dval x \<le> dval a"
  using assms
proof (induction needed)
  case (Cons p needed)
  show ?case
  proof (cases "p = (k, x)")
    case True
    with Cons.prems obtain a t s where "dict_get av k = Some a" "total_reserved b k = Inr t"
      "exact_add t x = Inr s" "dval s \<le> dval a"
      by (auto simp: admit_step_def split: option.splits if_splits)
    with total_reserved_Inr(2) [of b k t] Cons.prems(3) show ?thesis by (auto dest: exact.add_val)
  next
    case False
    with Cons show ?thesis by (auto simp: rbind_def split: sum.splits)
  qed
qed simp

lemma new_reservation_ok:
  assumes "amounts_ok False needed"
  shows "record_ok (new_reservation rid iid needed)" and "rs_held (new_reservation rid iid needed)"
  using assms amounts_nonneg [OF assms]
  by (auto simp: record_ok_def new_reservation_def rs_held_iff amounts_ok_def env_ok_def)

lemma reserve_Inr:
  assumes "reserve i n rq av b = (Inr r, b')"
  shows "(dict_get b (strip i) = Some r \<and> b' = b) \<or>
    (\<exists>needed availability. normalize_amounts False rq = Inr needed \<and> normalize_amounts True av = Inr availability
      \<and> amounts_ok False needed \<and> dict_get b (strip i) = None
      \<and> strip n \<notin> set (map rs_intent (dict_values b))
      \<and> r = new_reservation (strip i) (strip n) needed \<and> b' = b @ [(strip i, r)]
      \<and> (\<forall>(k, x) \<in> set needed. \<exists>a. dict_get availability k = Some a \<and> reserved b k + dval x \<le> dval a))"
proof (cases "dict_get b (strip i)")
  case (Some e)
  with assms show ?thesis by (auto simp: reserve_def split: if_splits)
next
  case None
  with assms obtain needed availability u where
    am: "normalize_amounts False rq = Inr needed" "normalize_amounts True av = Inr availability" and
    fresh: "\<not> list_ex (\<lambda>r. rs_intent r = strip n) (dict_values b)" and
    fold: "rfold (admit_step b availability) () needed = Inr u" and
    res: "r = new_reservation (strip i) (strip n) needed" "b' = dict_set b (strip i) r"
    by (auto simp: reserve_def Let_def split: if_splits)
  have ok: "amounts_ok False needed" using am(1) by (rule normalize_amounts_Inr)
  have adm: "\<forall>(k, x) \<in> set needed. \<exists>a. dict_get availability k = Some a \<and> reserved b k + dval x \<le> dval a"
    using ok admit_Inr [OF fold] unfolding amounts_ok_def by fast
  from am fresh res ok None adm show ?thesis
    by (auto simp: dict_set_new list_ex_iff)
qed

text \<open>What a returning call does to its record.\<close>

definition same_identity :: "reservation \<Rightarrow> reservation \<Rightarrow> bool" where
  "same_identity cur r \<longleftrightarrow> rs_id r = rs_id cur \<and> rs_intent r = rs_intent cur
     \<and> rs_original r = rs_original cur
     \<and> dict_keys (rs_remaining r) = dict_keys (rs_remaining cur)
     \<and> dict_keys (rs_consumed r) = dict_keys (rs_consumed cur)
     \<and> (env_ok (rs_remaining cur) \<longrightarrow> env_ok (rs_remaining r))
     \<and> (env_ok (rs_consumed cur) \<longrightarrow> env_ok (rs_consumed r))"

definition consume_effect :: "amounts \<Rightarrow> reservation \<Rightarrow> reservation \<Rightarrow> bool" where
  "consume_effect am cur r \<longleftrightarrow> rs_held cur \<and> same_identity cur r
     \<and> rs_state r = rs_state cur \<and> rs_evidence r = rs_evidence cur
     \<and> (\<forall>k. amt (rs_remaining r) k = amt (rs_remaining cur) k - amt am k
          \<and> amt (rs_consumed r) k = amt (rs_consumed cur) k + amt am k
          \<and> amt am k \<le> amt (rs_remaining cur) k)"

definition fill_effect :: "string \<Rightarrow> amounts \<Rightarrow> reservation \<Rightarrow> reservation \<Rightarrow> bool" where
  "fill_effect ev am cur r \<longleftrightarrow> rs_held cur \<and> same_identity cur r
     \<and> rs_state r = FILLED \<and> rs_evidence r = Some ev
     \<and> (\<forall>k. amt (rs_remaining r) k = 0
          \<and> amt (rs_consumed r) k = amt (rs_consumed cur) k + amt am k
          \<and> amt am k \<le> amt (rs_remaining cur) k)"

definition restore_effect :: "amounts \<Rightarrow> reservation \<Rightarrow> reservation \<Rightarrow> bool" where
  "restore_effect am cur r \<longleftrightarrow> (rs_held cur \<or> rs_state cur \<in> {FILLED, CANCELED}) \<and> same_identity cur r
     \<and> rs_state r = (if rs_state cur = FILLED then BUSTED_PENDING_RECONCILIATION else rs_state cur)
     \<and> rs_evidence r = (if rs_state cur = FILLED then None else rs_evidence cur)
     \<and> (\<forall>k. amt (rs_consumed r) k = amt (rs_consumed cur) k - amt am k
          \<and> amt am k \<le> amt (rs_consumed cur) k
          \<and> amt (rs_remaining r) k =
              (if rs_state cur = FILLED then amt (rs_original cur) k - amt (rs_consumed r) k
               else if rs_state cur = CANCELED then 0 else amt (rs_remaining cur) k + amt am k))"

definition terminal_effect :: "reservation_state \<Rightarrow> string \<Rightarrow> reservation \<Rightarrow> reservation \<Rightarrow> bool" where
  "terminal_effect st ev cur r \<longleftrightarrow> rs_held cur \<and> st \<in> {FILLED, CANCELED, REJECTED, PROVEN_ABSENT}
     \<and> r = cur\<lparr>rs_remaining := released (rs_remaining cur), rs_state := st, rs_evidence := Some ev\<rparr>
     \<and> (st \<in> {REJECTED, PROVEN_ABSENT} \<longrightarrow> (\<forall>k. amt (rs_consumed cur) k = 0))"

lemma record_pos:
  assumes "record_ok r"
  shows "0 \<le> amt (rs_remaining r) k" and "0 \<le> amt (rs_consumed r) k"
    and "amt (rs_consumed r) k \<le> amt (rs_original r) k"
    and "rs_held r \<Longrightarrow> amt (rs_original r) k = amt (rs_remaining r) k + amt (rs_consumed r) k"
    and "\<not> rs_held r \<Longrightarrow> amt (rs_remaining r) k = 0"
proof -
  from assms have *: "0 \<le> amt (rs_remaining r) k \<and> 0 \<le> amt (rs_consumed r) k
          \<and> (if rs_held r then amt (rs_remaining r) k + amt (rs_consumed r) k = amt (rs_original r) k
             else amt (rs_remaining r) k = 0 \<and> amt (rs_consumed r) k \<le> amt (rs_original r) k)"
    by (simp add: record_ok_def)
  then show "0 \<le> amt (rs_remaining r) k" "0 \<le> amt (rs_consumed r) k" by auto
  from * show "amt (rs_consumed r) k \<le> amt (rs_original r) k" by (cases "rs_held r") auto
  from * show "rs_held r \<Longrightarrow> amt (rs_original r) k = amt (rs_remaining r) k + amt (rs_consumed r) k"
    "\<not> rs_held r \<Longrightarrow> amt (rs_remaining r) k = 0" by auto
qed

lemma consume_effect_ok: "record_ok cur \<Longrightarrow> amounts_ok z am \<Longrightarrow> consume_effect am cur r \<Longrightarrow> record_ok r"
  using amounts_nonneg [of z am]
  by (auto simp: record_ok_def consume_effect_def same_identity_def rs_held_iff)

lemma fill_effect_ok:
  assumes "record_ok cur" and "amounts_ok z am" and "fill_effect ev am cur r"
  shows "record_ok r"
proof -
  have "0 \<le> amt (rs_consumed r) k \<and> amt (rs_consumed r) k \<le> amt (rs_original cur) k" for k
    using record_pos [OF assms(1), of k] amounts_nonneg [OF assms(2), of k] assms(3)
    by (simp add: fill_effect_def)
  then show ?thesis using assms(1,3)
    by (auto simp: record_ok_def fill_effect_def same_identity_def rs_held_iff)
qed

lemma restore_effect_ok:
  assumes "record_ok cur" and "amounts_ok z am" and "restore_effect am cur r"
  shows "record_ok r"
proof -
  have st: "rs_state cur \<in> {WORKING, UNKNOWN, BUSTED_PENDING_RECONCILIATION, FILLED, CANCELED}"
    using assms(3) by (auto simp: restore_effect_def rs_held_iff)
  have c: "0 \<le> amt (rs_consumed r) k \<and> amt (rs_consumed r) k \<le> amt (rs_original cur) k" for k
    using record_pos(3) [OF assms(1), of k] amounts_nonneg [OF assms(2), of k] assms(3)
    by (simp add: restore_effect_def)
  have r: "0 \<le> amt (rs_remaining r) k" for k
    using record_pos(1) [OF assms(1), of k] amounts_nonneg [OF assms(2), of k] assms(3) c [of k]
    by (auto simp: restore_effect_def)
  show ?thesis using assms(1,3) st c r
    by (auto simp: record_ok_def restore_effect_def same_identity_def rs_held_iff)
qed

lemma terminal_effect_ok: "record_ok cur \<Longrightarrow> terminal_effect st ev cur r \<Longrightarrow> record_ok r"
  using record_pos(3) [of cur]
  by (auto simp: record_ok_def terminal_effect_def rs_held_iff)

lemma consume_Inr:
  assumes "consume i u b = (Inr r, b')" and "book_ok b"
  shows "\<exists>cur am. dict_get b (strip i) = Some cur \<and> normalize_amounts False u = Inr am
    \<and> b' = dict_set b (strip i) r \<and> consume_effect am cur r"
proof -
  from assms(1) obtain cur am rem con where
    get: "dict_get b (strip i) = Some cur" and am: "normalize_amounts False u = Inr am" and
    held: "rs_held cur" and fold: "rfold consume_step (rs_remaining cur, rs_consumed cur) am = Inr (rem, con)" and
    r: "r = cur\<lparr>rs_remaining := rem, rs_consumed := con\<rparr>" "b' = dict_set b (rs_id cur) r"
    by (auto simp: consume_def Let_def)
  have "dict_ok am" using normalize_amounts_Inr [OF am] by (simp add: amounts_ok_def)
  note cf = consume_fold [OF fold this]
  note ok = book_record [OF assms(2) get]
  have "amt am k \<le> amt (rs_remaining cur) k" for k
    using cf(5) [of k] cf(3) [of k] record_pos(1) [OF ok(2), of k] by simp
  then have "consume_effect am cur r"
    using r held cf by (simp add: consume_effect_def same_identity_def)
  with get am r ok show ?thesis by auto
qed

lemma consume_and_mark_filled_Inr:
  assumes "consume_and_mark_filled i u ev b = (Inr r, b')" and "book_ok b"
  shows "\<exists>cur am. dict_get b (strip i) = Some cur \<and> normalize_amounts False u = Inr am
    \<and> b' = dict_set b (strip i) r \<and> fill_effect (strip ev) am cur r"
proof -
  from assms(1) obtain cur am rem con where
    get: "dict_get b (strip i) = Some cur" and am: "normalize_amounts False u = Inr am" and
    held: "rs_held cur" and fold: "rfold consume_step (rs_remaining cur, rs_consumed cur) am = Inr (rem, con)" and
    r: "r = cur\<lparr>rs_remaining := released (rs_remaining cur), rs_consumed := con,
         rs_state := FILLED, rs_evidence := Some (strip ev)\<rparr>" "b' = dict_set b (rs_id cur) r"
    by (auto simp: consume_and_mark_filled_def Let_def)
  have "dict_ok am" using normalize_amounts_Inr [OF am] by (simp add: amounts_ok_def)
  note cf = consume_fold [OF fold this]
  note ok = book_record [OF assms(2) get]
  have "amt am k \<le> amt (rs_remaining cur) k" for k
    using cf(5) [of k] cf(3) [of k] record_pos(1) [OF ok(2), of k] by simp
  then have "fill_effect (strip ev) am cur r"
    using r held cf by (simp add: fill_effect_def same_identity_def)
  with get am r ok show ?thesis by auto
qed

text \<open>The rebuilt remainder of a busted fill.\<close>

lemma rebuild_record:
  assumes "rfold (rebuild_step con) [] og = Inr rb" and "dict_ok og" and "dict_keys con = dict_keys og"
  shows "dict_keys rb = dict_keys og" and "amt rb k = amt og k - amt con k" and "env_ok rb"
proof -
  note rbf = rebuild_fold [OF assms(1), simplified, OF assms(2)]
  show "dict_keys rb = dict_keys og" "env_ok rb" using rbf(1,4) by simp_all
  have out: "k \<notin> fst ` set og \<Longrightarrow> amt og k = 0 \<and> amt con k = 0"
    using amt_outside [of k og] amt_outside [of k con] assms(3) by simp
  show "amt rb k = amt og k - amt con k"
    using rbf(2) [of k] out by (cases "k \<in> fst ` set og") simp_all
qed

lemma restore_consumption_Inr:
  assumes "restore_consumption i u b = (Inr r, b')" and "book_ok b"
  shows "\<exists>cur am. dict_get b (strip i) = Some cur \<and> normalize_amounts False u = Inr am
    \<and> b' = dict_set b (strip i) r \<and> restore_effect am cur r"
proof -
  from assms(1) obtain cur am rem con where
    get: "dict_get b (strip i) = Some cur" and am: "normalize_amounts False u = Inr am" and
    st: "rs_held cur \<or> rs_state cur \<in> {FILLED, CANCELED}" and
    fold: "rfold (restore_step (rs_state cur = CANCELED) (rs_original cur))
      (rs_remaining cur, rs_consumed cur) am = Inr (rem, con)" and
    r: "(if rs_state cur = FILLED
         then rbind (rfold (rebuild_step con) [] (rs_original cur)) (\<lambda>rb.
           Inr (cur\<lparr>rs_remaining := rb, rs_consumed := con,
             rs_state := BUSTED_PENDING_RECONCILIATION, rs_evidence := None\<rparr>))
         else Inr (cur\<lparr>rs_remaining := rem, rs_consumed := con\<rparr>)) = Inr r" "b' = dict_set b (rs_id cur) r"
    by (auto simp: restore_consumption_def Let_def)
  note ok = book_record [OF assms(2) get]
  have amok: "dict_ok am" using normalize_amounts_Inr [OF am] by (simp add: amounts_ok_def)
  note rf = restore_fold [OF fold amok]
  have le: "amt am k \<le> amt (rs_consumed cur) k" for k
    using rf(5) [of k] rf(3) [of k] record_pos(2) [OF ok(2), of k] by simp
  have "restore_effect am cur r"
  proof (cases "rs_state cur = FILLED")
    case False
    then have "rs_state cur = CANCELED \<Longrightarrow> amt (rs_remaining cur) k = 0" for k
      using record_pos(5) [OF ok(2)] by (auto simp: rs_held_iff)
    with False r st rf le show ?thesis by (auto simp: restore_effect_def same_identity_def)
  next
    case True
    with r obtain rb where rb: "rfold (rebuild_step con) [] (rs_original cur) = Inr rb" and
      r': "r = cur\<lparr>rs_remaining := rb, rs_consumed := con,
             rs_state := BUSTED_PENDING_RECONCILIATION, rs_evidence := None\<rparr>" by auto
    have "dict_ok (rs_original cur)" "dict_keys con = dict_keys (rs_original cur)"
      "dict_keys (rs_remaining cur) = dict_keys (rs_original cur)"
      using ok(2) rf(2) by (auto simp: record_ok_def)
    with rebuild_record [OF rb] rf le r' True show ?thesis
      by (simp add: restore_effect_def same_identity_def)
  qed
  with get am r(2) ok(1) show ?thesis by auto
qed

lemma mark_unknown_Inr:
  assumes "mark_unknown i b = (Inr r, b')" and "book_ok b"
  shows "\<exists>cur. dict_get b (strip i) = Some cur \<and> rs_state cur \<in> {WORKING, UNKNOWN}
     \<and> r = cur\<lparr>rs_state := UNKNOWN, rs_evidence := None\<rparr> \<and> b' = dict_set b (strip i) r"
proof -
  from assms(1) obtain cur where get: "dict_get b (strip i) = Some cur" by (auto simp: mark_unknown_def)
  note ok = book_record [OF assms(2) get]
  then have "rs_state cur = UNKNOWN \<Longrightarrow> rs_evidence cur = None" by (auto simp: record_ok_def rs_held_iff)
  with assms(1) get ok(1) show ?thesis
    by (auto simp: mark_unknown_def Let_def rs_held_iff dict_set_self split: if_splits)
qed

lemma mark_terminal_Inr:
  assumes "mark_terminal i oc ev b = (Inr r, b')" and "book_ok b"
  shows "\<exists>cur st. dict_get b (strip i) = Some cur \<and> terminal_of_text (upper (strip oc)) = Some st
    \<and> (\<not> rs_held cur \<and> r = cur \<and> b' = b \<and> rs_state cur = st \<and> rs_evidence cur = Some (strip ev)
       \<or> terminal_effect st (strip ev) cur r \<and> b' = dict_set b (strip i) r)"
proof -
  from assms(1) obtain cur st where get: "dict_get b (strip i) = Some cur"
    and st: "terminal_of_text (upper (strip oc)) = Some st"
    by (auto simp: mark_terminal_def split: option.splits)
  have nz: "list_ex (\<lambda>d. dval d \<noteq> 0) (dict_values c)" if "amt c k \<noteq> 0" for c k
    using that by (force simp: amt_def list_ex_iff dest: dict_get_mem split: option.splits)
  from assms(1) get st book_record(1) [OF assms(2) get] nz [of "rs_consumed cur"]
    terminal_of_text_terminal [OF st] show ?thesis
    by (auto simp: mark_terminal_def terminal_effect_def Let_def split: if_splits)
qed

section \<open>The book in use\<close>

datatype reservation_call =
    Reserve string string amount_args amount_args
  | Reserve_From_Capital string string amount_args capital_evidence
  | Consume string amount_args
  | Consume_And_Mark_Filled string amount_args string
  | Restore_Consumption string amount_args
  | Mark_Unknown string
  | Mark_Terminal string string string

fun run_reservation :: "reservation_call \<Rightarrow> (reservation_book, reservation) operation" where
  "run_reservation (Reserve i n rq av) = reserve i n rq av"
| "run_reservation (Reserve_From_Capital i n rq cp) = reserve_from_capital i n rq cp"
| "run_reservation (Consume i u) = consume i u"
| "run_reservation (Consume_And_Mark_Filled i u ev) = consume_and_mark_filled i u ev"
| "run_reservation (Restore_Consumption i u) = restore_consumption i u"
| "run_reservation (Mark_Unknown i) = mark_unknown i"
| "run_reservation (Mark_Terminal i oc ev) = mark_terminal i oc ev"

lemma reserve_from_capital_Inr:
  "reserve_from_capital i n rq cp b = (Inr r, b') \<Longrightarrow>
     \<exists>av. reservation_resources cp = Some av \<and> blocks_new_risk cp = Some False
       \<and> reserve i n rq av b = (Inr r, b')"
  by (auto simp: reserve_from_capital_def split: option.splits)

lemma reservation_calls_atomic: "atomic (run_reservation c)"
proof -
  have rv: "atomic (reserve i n rq av)" for i n rq av
    unfolding reserve_def
    by (intro atomic_raising atomicI) (auto simp: Let_def raising_raises split: option.splits if_splits)
  show ?thesis
  proof (cases c)
    case (Reserve_From_Capital i n rq cp)
    then show ?thesis
      using rv by (auto simp: reserve_from_capital_def intro!: atomic_raising split: option.splits)
  qed (auto simp: rv consume_def consume_and_mark_filled_def restore_consumption_def mark_unknown_def
      mark_terminal_def Let_def raising_raises intro!: atomicI split: if_splits prod.splits option.splits)
qed

lemma reserve_book_ok:
  assumes "reserve i n rq av b = (Inr r, b')" and "book_ok b"
  shows "book_ok b'"
  using reserve_Inr [OF assms(1)]
proof (elim disjE exE conjE, goal_cases)
  case (2 needed availability)
  then show ?case
    using assms(2) new_reservation_ok(1) [of needed "strip i" "strip n"] dict_get_None_iff [of b "strip i"]
    by (auto simp: book_ok_def dict_ok_def new_reservation_def)
qed (use assms in simp)

text \<open>
  Every returning call either leaves the book alone, adds a fresh record, or moves one record by one
  of the effects.
\<close>

inductive record_step :: "reservation \<Rightarrow> reservation \<Rightarrow> bool" where
  step_consume: "amounts_ok False am \<Longrightarrow> consume_effect am cur r \<Longrightarrow> record_step cur r"
| step_fill: "amounts_ok False am \<Longrightarrow> fill_effect ev am cur r \<Longrightarrow> record_step cur r"
| step_restore: "amounts_ok False am \<Longrightarrow> restore_effect am cur r \<Longrightarrow> record_step cur r"
| step_unknown: "rs_state cur \<in> {WORKING, UNKNOWN} \<Longrightarrow>
    record_step cur (cur\<lparr>rs_state := UNKNOWN, rs_evidence := None\<rparr>)"
| step_terminal: "terminal_effect st ev cur r \<Longrightarrow> record_step cur r"

lemma record_step_ok: "record_step cur r \<Longrightarrow> record_ok cur \<Longrightarrow> record_ok r"
proof (induction rule: record_step.induct)
  case (step_unknown cur)
  then show ?case by (auto simp: record_ok_def rs_held_iff)
qed (auto dest: consume_effect_ok fill_effect_ok restore_effect_ok terminal_effect_ok)

lemma record_step_identity: "record_step cur r \<Longrightarrow> same_identity cur r"
  by (induction rule: record_step.induct)
    (auto simp: consume_effect_def fill_effect_def restore_effect_def terminal_effect_def same_identity_def)

lemma reservation_call_cases:
  assumes "run_reservation c b = (Inr r, b')" and "book_ok b"
  obtains (unchanged) "b' = b"
  | (reserved) i n rq av where "reserve i n rq av b = (Inr r, b')" and "dict_get b (strip i) = None"
  | (moved) k cur where "dict_get b k = Some cur" and "b' = dict_set b k r" and "record_step cur r"
proof -
  have res: thesis if "reserve i n rq av b = (Inr r, b')" for i n rq av
    using reserve_Inr [OF that] that unchanged reserved by blast
  show thesis
  proof (cases c)
    case (Reserve i n rq av)
    with assms res show ?thesis by simp
  next
    case (Reserve_From_Capital i n rq cp)
    with assms res reserve_from_capital_Inr show ?thesis by (metis run_reservation.simps(2))
  next
    case (Consume i u)
    with assms consume_Inr [of i u b r b'] moved show ?thesis
      by (metis normalize_amounts_Inr run_reservation.simps(3) step_consume)
  next
    case (Consume_And_Mark_Filled i u ev)
    with assms consume_and_mark_filled_Inr [of i u ev b r b'] moved show ?thesis
      by (metis normalize_amounts_Inr run_reservation.simps(4) step_fill)
  next
    case (Restore_Consumption i u)
    with assms restore_consumption_Inr [of i u b r b'] moved show ?thesis
      by (metis normalize_amounts_Inr run_reservation.simps(5) step_restore)
  next
    case (Mark_Unknown i)
    with assms mark_unknown_Inr [of i b r b'] moved show ?thesis
      by (metis run_reservation.simps(6) step_unknown)
  next
    case (Mark_Terminal i oc ev)
    with assms mark_terminal_Inr [of i oc ev b r b'] moved unchanged show ?thesis
      by (metis run_reservation.simps(7) step_terminal)
  qed
qed

lemma run_reservation_ok:
  assumes "book_ok b" and "run_reservation c b = (Inr r, b')"
  shows "book_ok b'"
  using assms(2,1)
proof (cases rule: reservation_call_cases)
  case (moved k cur)
  then show ?thesis
    using book_ok_update [OF assms(1) moved(1)] record_step_ok [OF moved(3) book_record(2) [OF assms(1) moved(1)]]
      record_step_identity [OF moved(3)] by (simp add: same_identity_def)
qed (use assms(1) reserve_book_ok in auto)



text \<open>How a record's state may move, and what a later book keeps of an earlier one.\<close>

definition state_le :: "reservation_state \<Rightarrow> reservation_state \<Rightarrow> bool" where
  "state_le s t \<longleftrightarrow> s = t \<or> s = WORKING \<or> (s = UNKNOWN \<and> t \<noteq> WORKING)
     \<or> (s \<in> {FILLED, BUSTED_PENDING_RECONCILIATION} \<and> t \<notin> {WORKING, UNKNOWN})"

definition record_le :: "reservation \<Rightarrow> reservation \<Rightarrow> bool" where
  "record_le r r' \<longleftrightarrow> rs_id r' = rs_id r \<and> rs_intent r' = rs_intent r \<and> rs_original r' = rs_original r
     \<and> state_le (rs_state r) (rs_state r')
     \<and> (rs_state r \<in> {CANCELED, REJECTED, PROVEN_ABSENT} \<longrightarrow> rs_evidence r' = rs_evidence r)"

definition book_le :: "reservation_book \<Rightarrow> reservation_book \<Rightarrow> bool" where
  "book_le b b' \<longleftrightarrow> (\<forall>k r. dict_get b k = Some r \<longrightarrow> (\<exists>r'. dict_get b' k = Some r' \<and> record_le r r'))"

lemma state_le_trans: "state_le s t \<Longrightarrow> state_le t u \<Longrightarrow> state_le s u"
  by (cases s; cases t; cases u; simp add: state_le_def)

lemma state_le_final: "s \<in> {CANCELED, REJECTED, PROVEN_ABSENT} \<Longrightarrow> state_le s t \<longleftrightarrow> t = s"
  by (auto simp: state_le_def)

lemma record_le_refl: "record_le r r"
  by (simp add: record_le_def state_le_def)

lemma record_le_trans: "record_le r s \<Longrightarrow> record_le s t \<Longrightarrow> record_le r t"
  unfolding record_le_def by (metis state_le_final state_le_trans)

lemma book_le_refl: "book_le b b"
  by (auto simp: book_le_def record_le_refl)

lemma book_le_trans: "book_le s t \<Longrightarrow> book_le t u \<Longrightarrow> book_le s u"
  unfolding book_le_def by (meson record_le_trans)

lemma book_ok_empty: "book_ok empty_reservation_book"
  by (simp add: book_ok_def empty_reservation_book_def)

lemma record_step_le: "record_step cur r \<Longrightarrow> record_le cur r"
  by (induction rule: record_step.induct)
    (auto simp: record_le_def state_le_def consume_effect_def fill_effect_def restore_effect_def
      terminal_effect_def same_identity_def rs_held_iff)

lemma book_le_append: "book_le b (b @ d)"
  by (auto simp: book_le_def map_add_def record_le_refl split: option.splits)

lemma run_reservation_le:
  assumes "book_ok b" and "run_reservation c b = (Inr r, b')"
  shows "book_le b b'"
  using assms(2,1)
proof (cases rule: reservation_call_cases)
  case unchanged
  then show ?thesis by (auto simp: book_le_def record_le_refl)
next
  case (reserved i n rq av)
  then have "b' = b @ [(strip i, r)]" using reserve_Inr by fastforce
  then show ?thesis by (simp add: book_le_append)
next
  case (moved k cur)
  then show ?thesis by (auto simp: book_le_def record_le_refl record_step_le)
qed

interpretation reservations: ordered_object run_reservation empty_reservation_book book_ok book_le
  by unfold_locales
    (assumption | rule book_ok_empty reservation_calls_atomic book_le_refl
      | erule book_le_trans run_reservation_ok run_reservation_le)+

section \<open>Capacity\<close>

text \<open>
  Capital \<open>cap\<close> of each resource.  A quoted availability is honest when it does not exceed what the
  recorded consumption has left of it.
\<close>

definition honest_quote :: "(string \<Rightarrow> rat) \<Rightarrow> reservation_book \<Rightarrow> amount_args \<Rightarrow> bool" where
  "honest_quote cap b av \<longleftrightarrow> (\<forall>(k, raw) \<in> set av. pyval raw \<le> cap (strip k) - spent b (strip k))"

fun admissible :: "(string \<Rightarrow> rat) \<Rightarrow> reservation_book \<Rightarrow> reservation_call \<Rightarrow> bool" where
  "admissible cap b (Reserve i n rq av) = honest_quote cap b av"
| "admissible cap b (Reserve_From_Capital i n rq cp) =
     (case reservation_resources cp of None \<Rightarrow> True | Some av \<Rightarrow> honest_quote cap b av)"
| "admissible cap b (Restore_Consumption i u) =
     (case dict_get b (strip i) of None \<Rightarrow> True | Some r \<Rightarrow> rs_state r \<noteq> FILLED)"
| "admissible cap b _ = True"

fun honest_history :: "(string \<Rightarrow> rat) \<Rightarrow> reservation_book \<Rightarrow> reservation_call list \<Rightarrow> bool" where
  "honest_history cap b [] = True"
| "honest_history cap b (c # cs) = (admissible cap b c \<and> honest_history cap (snd (run_reservation c b)) cs)"

definition within_capital :: "(string \<Rightarrow> rat) \<Rightarrow> reservation_book \<Rightarrow> bool" where
  "within_capital cap b \<longleftrightarrow> (\<forall>k. reserved b k + spent b k \<le> cap k)"

lemma amounts_step_source:
  assumes "amounts_step z d (k0, raw) = Inr d'" and "dict_get d' k = Some a"
  shows "dict_get d k = Some a \<or> strip k0 = k \<and> dval a = pyval raw"
  using assms by (auto simp: amounts_step_def dest: rs_decimal_Inr split: if_splits)

lemma normalize_amounts_source:
  assumes "normalize_amounts z values = Inr d" and "dict_get d k = Some a"
  shows "\<exists>k0 raw. (k0, raw) \<in> set values \<and> strip k0 = k \<and> dval a = pyval raw"
proof -
  from assms(1) have "rfold (amounts_step z) [] values = Inr d"
    by (auto simp: normalize_amounts_def split: if_splits)
  then have "\<forall>a. dict_get d k = Some a \<longrightarrow>
      (\<exists>k0 raw. (k0, raw) \<in> set values \<and> strip k0 = k \<and> dval a = pyval raw)"
    by (rule rfold_invariant) (auto dest!: amounts_step_source)
  with assms(2) show ?thesis by blast
qed

lemma record_step_committed:
  assumes "record_step cur r" and "record_ok cur" and "rs_state cur = FILLED \<Longrightarrow> rs_state r = FILLED"
  shows "(if rs_held r then amt (rs_remaining r) k else 0) + amt (rs_consumed r) k
    \<le> (if rs_held cur then amt (rs_remaining cur) k else 0) + amt (rs_consumed cur) k"
  using assms
proof (induction rule: record_step.induct)
  case (step_restore am cur r)
  then show ?case using amounts_nonneg [OF step_restore.hyps(1), of k]
    by (auto simp: restore_effect_def rs_held_iff)
next
  case (step_terminal st ev cur r)
  then show ?case using record_pos(1) [of cur k] by (auto simp: terminal_effect_def rs_held_iff)
next
  case (step_consume am cur r)
  then show ?case by (auto simp: consume_effect_def rs_held_iff)
next
  case (step_fill am ev cur r)
  then show ?case by (auto simp: fill_effect_def rs_held_iff)
qed (auto simp: rs_held_iff)

lemma reserve_within_capital:
  assumes "reserve i n rq av b = (Inr r, b')" and "honest_quote cap b av" and "within_capital cap b"
  shows "within_capital cap b'"
  using reserve_Inr [OF assms(1)]
proof (elim disjE exE conjE, goal_cases)
  case (2 needed availability)
  have r: "reserved b' k = reserved b k + amt needed k" "spent b' k = spent b k" for k
    using 2 new_reservation_ok(2) [of needed "strip i" "strip n"]
    by (simp_all add: reserved_def spent_def) (simp_all add: new_reservation_def)
  have "reserved b k + amt needed k + spent b k \<le> cap k" for k
  proof (cases "dict_get needed k")
    case None
    then show ?thesis using assms(3) by (simp add: amt_def within_capital_def)
  next
    case (Some x)
    with 2 obtain a where a: "dict_get availability k = Some a" "reserved b k + dval x \<le> dval a"
      by (fastforce dest: dict_get_mem)
    from normalize_amounts_source [OF 2(2) a(1)] assms(2) have "dval a \<le> cap k - spent b k"
      by (auto simp: honest_quote_def)
    with a Some show ?thesis by (simp add: amt_def)
  qed
  with r show ?case by (simp add: within_capital_def add_ac)
qed (use assms in simp)


lemma run_within_capital:
  assumes "run_reservation c b = (Inr r, b')" and "book_ok b" and "admissible cap b c" and "within_capital cap b"
  shows "within_capital cap b'"
proof -
  have res: ?thesis if "c = Reserve i n rq av \<or> c = Reserve_From_Capital i n rq cp" for i n rq av cp
    using that assms reserve_within_capital reserve_from_capital_Inr by (fastforce split: option.splits)
  have move: ?thesis if "dict_get b k = Some cur" "b' = dict_set b k r" "record_step cur r"
    "rs_state cur = FILLED \<Longrightarrow> rs_state r = FILLED" for k cur
  proof -
    have "reserved b' j + spent b' j \<le> reserved b j + spent b j" for j
      using record_step_committed [OF that(3) book_record(2) [OF assms(2) that(1)] that(4), of j]
        totals_update [OF assms(2) that(1), of r j] that(2) by simp
    then show ?thesis using assms(4) by (meson order_trans within_capital_def)
  qed
  show ?thesis
  proof (cases c)
    case (Restore_Consumption i u)
    with assms(1) restore_consumption_Inr [of i u b r b', OF _ assms(2)] obtain cur am where
      *: "dict_get b (strip i) = Some cur" "b' = dict_set b (strip i) r" "normalize_amounts False u = Inr am"
      "restore_effect am cur r" by auto
    have "rs_state cur \<noteq> FILLED" using Restore_Consumption assms(3) *(1) by simp
    with *(4) show ?thesis
      by (intro move [OF *(1,2) step_restore [OF normalize_amounts_Inr [OF *(3)] *(4)]]) simp
  next
    case (Consume i u)
    with assms(1) consume_Inr [of i u b r b', OF _ assms(2)] show ?thesis
      using move step_consume normalize_amounts_Inr by (fastforce simp: consume_effect_def)
  next
    case (Consume_And_Mark_Filled i u ev)
    with assms(1) consume_and_mark_filled_Inr [of i u ev b r b', OF _ assms(2)] show ?thesis
      using move step_fill normalize_amounts_Inr by (fastforce simp: fill_effect_def)
  next
    case (Mark_Unknown i)
    with assms(1) mark_unknown_Inr [of i b r b', OF _ assms(2)] show ?thesis
      using move step_unknown by fastforce
  next
    case (Mark_Terminal i oc ev)
    with assms(1) mark_terminal_Inr [of i oc ev b r b', OF _ assms(2)] show ?thesis
      using move step_terminal assms(4) by (fastforce simp: terminal_effect_def rs_held_iff)
  qed (use res in auto)
qed

lemma honest_history_within:
  "book_ok b \<Longrightarrow> within_capital cap b \<Longrightarrow> honest_history cap b cs \<Longrightarrow>
     within_capital cap (after run_reservation b cs)"
proof (induction cs arbitrary: b)
  case (Cons c cs)
  let ?b = "snd (run_reservation c b)"
  have "within_capital cap ?b"
  proof (cases "run_reservation c b")
    case (Pair res b')
    then show ?thesis
      using Cons.prems run_within_capital [of c b] atomicD [OF reservation_calls_atomic, of c b]
      by (cases res) fastforce+
  qed
  with Cons.IH [of ?b] Cons.prems reservations.inv_step show ?case by simp
qed simp

section \<open>Replay and reversal\<close>

lemma dict_same_refl: "dict_ok d \<Longrightarrow> (\<And>x. eq x x) \<Longrightarrow> dict_same eq d d"
  by (auto simp: dict_same_def list_all_iff dest!: dict_mem_get split: option.splits)

lemma reserve_committed:
  assumes "reserve i n rq av b = (Inr r, b')"
  shows "\<exists>needed. normalize_amounts False rq = Inr needed \<and> dict_get b' (strip i) = Some r
    \<and> strip i \<noteq> [] \<and> strip n \<noteq> [] \<and> rs_intent r = strip n
    \<and> dict_same (\<lambda>x y. dval x = dval y) (rs_original r) needed"
proof (cases "dict_get b (strip i)")
  case (Some e)
  with assms show ?thesis by (auto simp: reserve_def split: if_splits)
next
  case None
  with assms show ?thesis
    by (auto simp: reserve_def Let_def new_reservation_def intro!: dict_same_refl
        dest!: normalize_amounts_Inr [unfolded amounts_ok_def] split: if_splits)
qed

lemma reserve_again:
  assumes "reserve i n rq av b = (Inr r, b')" and "book_le b' c" and "normalize_amounts True av2 = Inr d"
  shows "\<exists>r'. record_le r r' \<and> dict_get c (strip i) = Some r' \<and> reserve i n rq av2 c = (Inr r', c)"
proof -
  from reserve_committed [OF assms(1)] assms(2) obtain r' where r': "dict_get c (strip i) = Some r'" "record_le r r'"
    by (auto simp: book_le_def)
  with reserve_committed [OF assms(1)] assms(3) show ?thesis
    by (auto simp: reserve_def record_le_def)
qed

lemma restore_fold_total:
  assumes "dict_ok am" and "\<And>j x. (j, x) \<in> set am \<Longrightarrow> \<exists>a b v. dict_get r j = Some a \<and> dict_get c j = Some b
      \<and> dict_get og j = Some v \<and> in_envelope x \<and> in_envelope a \<and> in_envelope b \<and> dval x \<le> dval b
      \<and> representable (dval b - dval x) \<and> representable (dval a + dval x) \<and> dval a + dval x \<le> dval v"
  shows "\<exists>st. rfold (restore_step False og) (r, c) am = Inr st"
  using assms
proof (induction am arbitrary: r c)
  case (Cons p am)
  obtain j x where p: "p = (j, x)" by force
  from Cons.prems(2) [of j x] p obtain a b v where
    *: "dict_get r j = Some a" "dict_get c j = Some b" "dict_get og j = Some v" "in_envelope x" "in_envelope a"
      "in_envelope b" "dval x \<le> dval b" "representable (dval b - dval x)" "representable (dval a + dval x)"
      "dval a + dval x \<le> dval v" by auto
  obtain a' b' where ex: "exact_add a x = Inr a'" "exact_subtract b x = Inr b'"
    using * exact_add_returns_iff [of a x] exact_subtract_returns_iff [of b x] by blast
  have "dval a' = dval a + dval x" using exact.add_val [OF ex(1)] by simp
  then have "restore_step False og (r, c) (j, x) = Inr (dict_set r j a', dict_set c j b')"
    using * ex by (simp add: restore_step_def dict_lookup_def not_less)
  moreover have "\<exists>st. rfold (restore_step False og) (dict_set r j a', dict_set c j b') am = Inr st"
  proof (rule Cons.IH)
    show "dict_ok am" using Cons.prems(1) by (simp add: dict_ok_def)
    show "\<exists>a b v. dict_get (dict_set r j a') k = Some a \<and> dict_get (dict_set c j b') k = Some b
      \<and> dict_get og k = Some v \<and> in_envelope y \<and> in_envelope a \<and> in_envelope b \<and> dval y \<le> dval b
      \<and> representable (dval b - dval y) \<and> representable (dval a + dval y) \<and> dval a + dval y \<le> dval v"
      if "(k, y) \<in> set am" for k y
    proof -
      have "k \<noteq> j" using Cons.prems(1) that p by (auto simp: dict_ok_def image_iff)
      then show ?thesis using Cons.prems(2) [of k y] that by simp
    qed
  qed
  ultimately show ?case using p by simp
qed simp



lemma representable_amt:
  assumes "env_ok d"
  shows "representable (amt d k)"
proof (cases "dict_get d k")
  case None
  then have "amt d k = dval dzero" by (simp add: amt_def)
  then show ?thesis unfolding representable_def using envelope_dzero by metis
next
  case (Some x)
  then show ?thesis using env_ok_get [OF assms Some] by (auto simp: amt_def representable_def)
qed

lemma consumed_can_be_restored:
  assumes "record_ok cur" and "amounts_ok False am" and "consume_effect am cur r"
  shows "\<exists>st. rfold (restore_step False (rs_original r)) (rs_remaining r, rs_consumed r) am = Inr st"
proof (rule restore_fold_total)
  show "dict_ok am" using assms(2) by (simp add: amounts_ok_def)
next
  fix j x
  assume mem: "(j, x) \<in> set am"
  note ok = consume_effect_ok [OF assms(1,2,3)]
  have x: "amt am j = dval x" "0 < dval x" "in_envelope x"
    using mem assms(2) dict_mem_get [of am j x] by (auto simp: amounts_ok_def amt_def)
  have "amt (rs_remaining r) j = amt (rs_remaining cur) j - amt am j
      \<and> amt (rs_consumed r) j = amt (rs_consumed cur) j + amt am j \<and> amt am j \<le> amt (rs_remaining cur) j"
    "same_identity cur r \<and> rs_held cur"
    using assms(3) by (simp_all add: consume_effect_def)
  then have rc: "amt (rs_remaining r) j + dval x = amt (rs_remaining cur) j"
    "amt (rs_consumed r) j - dval x = amt (rs_consumed cur) j"
    "dval x \<le> amt (rs_remaining cur) j" "same_identity cur r" "rs_held cur"
    using x(1) by auto
  have "j \<in> set (dict_keys (rs_original r))"
    using amt_outside [of j "rs_remaining cur"] rc x(2) assms(1)
    by (metis (no_types, lifting) leD record_ok_def same_identity_def)
  then obtain a c v where get: "dict_get (rs_remaining r) j = Some a" "dict_get (rs_consumed r) j = Some c"
    "dict_get (rs_original r) j = Some v"
    using ok dict_get_keys by (metis (no_types, lifting) record_ok_def)
  note val = amt_get [OF get(1)] amt_get [OF get(2)] amt_get [OF get(3)]
  have env: "in_envelope a" "in_envelope c"
    using ok env_ok_get get by (auto simp: record_ok_def)
  have rep: "representable (dval c - dval x)" "representable (dval a + dval x)"
    using rc(1,2) val assms(1) representable_amt by (simp_all add: record_ok_def)
  have "dval a + dval x \<le> dval v" "dval x \<le> dval c"
    using rc val record_pos(1,2,3,4) [OF assms(1), of j] by (auto simp: same_identity_def)
  with get x env rep show "\<exists>a b v. dict_get (rs_remaining r) j = Some a \<and> dict_get (rs_consumed r) j = Some b
      \<and> dict_get (rs_original r) j = Some v \<and> in_envelope x \<and> in_envelope a \<and> in_envelope b \<and> dval x \<le> dval b
      \<and> representable (dval b - dval x) \<and> representable (dval a + dval x) \<and> dval a + dval x \<le> dval v"
    by blast
qed

lemma restore_after_consume:
  assumes "consume i u b = (Inr r, b1)" and "book_ok b"
  shows "\<exists>r2 b2. restore_consumption i u b1 = (Inr r2, b2)"
proof -
  from consume_Inr [OF assms] obtain cur am where
    get: "dict_get b (strip i) = Some cur" and am: "normalize_amounts False u = Inr am" and
    b1: "b1 = dict_set b (strip i) r" and eff: "consume_effect am cur r" by blast
  obtain st where "rfold (restore_step False (rs_original r)) (rs_remaining r, rs_consumed r) am = Inr st"
    using consumed_can_be_restored [OF book_record(2) [OF assms(2) get] normalize_amounts_Inr [OF am] eff] by blast
  moreover have "rs_held r" "strip i \<noteq> []"
    using eff assms(1) by (auto simp: consume_effect_def rs_held_iff consume_def)
  ultimately show ?thesis
    using b1 am by (cases st) (auto simp: restore_consumption_def Let_def rs_held_iff)
qed

section \<open>Properties\<close>

text \<open>(C16) Whatever calls are made on a reservation book, in any order and whether they return or raise,
  every record stays well formed: its three mappings have the same resources, nothing is negative,
  a held record's remaining and consumed amounts add up to the original exactly, a terminal record
  holds nothing, a rejected or absent one consumed nothing, and evidence is recorded exactly
  for terminal records; reservation identities match their keys and no two records share an intent.\<close>

theorem reservation_book_invariant:
  "book_ok (after run_reservation empty_reservation_book calls)"
  by (rule reservations.inv_after)

text \<open>A call that raises is invisible: leaving it out of the history gives the same book.\<close>

theorem failed_reservation_call_invisible:
  assumes "run_reservation c (after run_reservation empty_reservation_book xs) = (Inl e, b)"
  shows "after run_reservation empty_reservation_book (xs @ c # ys)
    = after run_reservation empty_reservation_book (xs @ ys)"
  using assms by (rule reservations.failed_call_invisible)

text \<open>(C1) No overcommitment: when every quoted availability is at most the capital not yet consumed, and
  no filled reservation is reopened by a bust, then at every moment the reserved and the consumed
  amounts of each resource together stay within the capital.\<close>

theorem reservations_stay_within_capital:
  assumes "\<And>k. 0 \<le> cap k" and "honest_history cap empty_reservation_book calls"
  shows "reserved (after run_reservation empty_reservation_book calls) k
    + spent (after run_reservation empty_reservation_book calls) k \<le> cap k"
  using honest_history_within [OF book_ok_empty _ assms(2)] assms(1)
  by (simp add: within_capital_def reserved_def spent_def empty_reservation_book_def)

text \<open>A granted reservation is within the quoted availability: with it, what is held of each required
  resource does not exceed the availability quoted for that resource, and other records are kept.\<close>

theorem reserve_admits_within_availability:
  assumes "reserve i n rq av b = (Inr r, b')" and "dict_get b (strip i) = None"
    and "(k, x) \<in> set (rs_original r)"
  shows "\<exists>k0 raw. (k0, raw) \<in> set av \<and> strip k0 = k \<and> reserved b' k \<le> pyval raw
    \<and> b' = b @ [(strip i, r)] \<and> rs_state r = WORKING"
proof -
  from reserve_Inr [OF assms(1)] assms(2) obtain needed availability where
    nd: "normalize_amounts True av = Inr availability" "amounts_ok False needed"
    "r = new_reservation (strip i) (strip n) needed" "b' = b @ [(strip i, r)]" and
    adm: "\<forall>(k, x) \<in> set needed. \<exists>a. dict_get availability k = Some a \<and> reserved b k + dval x \<le> dval a"
    by auto
  have mem: "(k, x) \<in> set needed" using assms(3) nd(3) by (simp add: new_reservation_def)
  with adm obtain a where a: "dict_get availability k = Some a" "reserved b k + dval x \<le> dval a" by auto
  have "amt needed k = dval x" using mem nd(2) by (auto simp: amt_def amounts_ok_def dest!: dict_mem_get)
  then have "reserved b' k = reserved b k + dval x"
    using nd(3,4) new_reservation_ok(2) [OF nd(2)] by (simp add: reserved_def) (simp add: new_reservation_def)
  moreover have "rs_state r = WORKING" using nd(3) by (simp add: new_reservation_def)
  moreover obtain k0 raw where "(k0, raw) \<in> set av" "strip k0 = k" "dval a = pyval raw"
    using normalize_amounts_source [OF nd(1) a(1)] by blast
  ultimately show ?thesis using a(2) nd(4) by auto
qed

text \<open>Replaying a reservation never holds capital twice: after any further calls, the same request
  returns the current record of that reservation, whatever availability is quoted, and changes nothing.\<close>

theorem reserve_replay_idempotent:
  assumes "reserve i n rq av (after run_reservation empty_reservation_book xs) = (Inr r, b)"
    and "normalize_amounts True av2 = Inr d"
  shows "\<exists>r'. record_le r r' \<and>
    reserve i n rq av2 (after run_reservation b ys) = (Inr r', after run_reservation b ys)"
proof -
  have "book_ok b" using reserve_book_ok [OF assms(1) reservations.inv_after] .
  then have "book_le b (after run_reservation b ys)" by (rule reservations.le_after_from)
  from reserve_again [OF assms(1) this assms(2)] show ?thesis by blast
qed

text \<open>Consumption is reversible: right after a consumption returned, restoring the same usage returns
  too, and what is reserved and consumed of every resource is as before.\<close>

theorem restore_inverts_consume:
  assumes "consume i u b = (Inr r, b1)" and "book_ok b"
  shows "\<exists>r2 b2. restore_consumption i u b1 = (Inr r2, b2)
    \<and> (\<forall>k. reserved b2 k = reserved b k \<and> spent b2 k = spent b k) \<and> rs_state r2 = rs_state r"
proof -
  from restore_after_consume [OF assms] obtain r2 b2 where rc: "restore_consumption i u b1 = (Inr r2, b2)" by blast
  from consume_Inr [OF assms] obtain cur am where
    get: "dict_get b (strip i) = Some cur" and am: "normalize_amounts False u = Inr am" and
    b1: "b1 = dict_set b (strip i) r" and eff: "consume_effect am cur r" by blast
  have ok1: "book_ok b1" using run_reservation_ok [of b "Consume i u" r b1] assms by simp
  have get1: "dict_get b1 (strip i) = Some r" using b1 by simp
  from restore_consumption_Inr [OF rc ok1] get1 am have b2: "b2 = dict_set b1 (strip i) r2"
    and eff2: "restore_effect am r r2" by auto
  have st: "rs_held cur" "rs_held r" "rs_held r2" "rs_state r2 = rs_state r"
    using eff eff2 by (auto simp: consume_effect_def restore_effect_def rs_held_iff)
  have "reserved b2 k = reserved b k \<and> spent b2 k = spent b k" for k
    using totals_update [OF assms(2) get, of r k] totals_update [OF ok1 get1, of r2 k] b1 b2 st eff eff2
    by (simp add: consume_effect_def restore_effect_def) (auto simp: rs_held_iff)
  with rc st show ?thesis by blast
qed

text \<open>Canceled, rejected and proven-absent are final, a filled reservation can only be reopened into the
  post-bust hold, and no record ever loses its intent or its original amounts.\<close>

theorem reservation_states_progress:
  assumes "dict_get (after run_reservation empty_reservation_book xs) k = Some r"
  shows "\<exists>r'. dict_get (after run_reservation empty_reservation_book (xs @ ys)) k = Some r' \<and> record_le r r'"
  using reservations.le_after [of xs ys] assms by (simp add: book_le_def)


text \<open>Witnesses: ten dollars reserved, four of them consumed, and a second order that does not fit.\<close>

definition held_reservation :: reservation where
  "held_reservation = new_reservation ''r1'' ''i1'' [(''USD'', Decimal False 10 0)]"

definition used_reservation :: reservation where
  "used_reservation = held_reservation\<lparr>rs_remaining := [(''USD'', Decimal False 6 0)],
     rs_consumed := [(''USD'', Decimal False 4 0)]\<rparr>"

definition first_order :: reservation_call where
  "first_order = Reserve '' r1'' ''i1'' [(''USD'', PyInt 10)] [(''USD '', PyStr ''10.5'')]"

definition second_order :: reservation_call where
  "second_order = Reserve ''r2'' ''i2'' [(''USD'', PyInt 1)] [(''USD'', PyInt 10)]"

lemma first_order_runs:
  "run_reservation first_order empty_reservation_book = (Inr held_reservation, [(''r1'', held_reservation)])"
  by code_simp

lemma second_order_raises:
  "run_reservation second_order [(''r1'', held_reservation)] =
     (Inl InsufficientAvailable, [(''r1'', held_reservation)])"
  by code_simp

lemma consume_example:
  "consume ''r1'' [(''USD'', PyInt 4)] [(''r1'', held_reservation)] =
     (Inr used_reservation, [(''r1'', used_reservation)])"
  by code_simp

lemma held_book_ok: "book_ok [(''r1'', held_reservation)]"
  using run_reservation_ok [OF book_ok_empty first_order_runs] .

theorem failed_reservation_call_invisible_witness:
  "after run_reservation empty_reservation_book ([first_order] @ second_order # [Mark_Unknown ''r1''])
    = after run_reservation empty_reservation_book ([first_order] @ [Mark_Unknown ''r1''])"
  by (rule failed_reservation_call_invisible)
    (simp add: first_order_runs second_order_raises)

theorem reservations_stay_within_capital_witness:
  "reserved (after run_reservation empty_reservation_book [first_order, Consume ''r1'' [(''USD'', PyInt 4)]]) ''USD''
    + spent (after run_reservation empty_reservation_book [first_order, Consume ''r1'' [(''USD'', PyInt 4)]]) ''USD''
    \<le> 21 / 2"
  by (rule reservations_stay_within_capital) (simp, code_simp)

theorem reserve_admits_within_availability_witness:
  "\<exists>k0 raw. (k0, raw) \<in> set [(''USD '', PyStr ''10.5'')] \<and> strip k0 = ''USD''
    \<and> reserved [(''r1'', held_reservation)] ''USD'' \<le> pyval raw
    \<and> [(''r1'', held_reservation)] = empty_reservation_book @ [(strip '' r1'', held_reservation)]
    \<and> rs_state held_reservation = WORKING"
  by (rule reserve_admits_within_availability
      [OF first_order_runs [unfolded first_order_def run_reservation.simps], where x = "Decimal False 10 0"])
    (simp_all add: empty_reservation_book_def held_reservation_def new_reservation_def)

lemma quote_example: "normalize_amounts True [(''USD'', PyInt 0)] = Inr [(''USD'', Decimal False 0 0)]"
  by code_simp

theorem reserve_replay_idempotent_witness:
  "\<exists>r'. record_le held_reservation r' \<and>
    reserve '' r1'' ''i1'' [(''USD'', PyInt 10)] [(''USD'', PyInt 0)]
      (after run_reservation [(''r1'', held_reservation)] [Consume ''r1'' [(''USD'', PyInt 4)]])
    = (Inr r', after run_reservation [(''r1'', held_reservation)] [Consume ''r1'' [(''USD'', PyInt 4)]])"
  by (rule reserve_replay_idempotent [where xs = "[]" and av = "[(''USD '', PyStr ''10.5'')]"])
    (use first_order_runs quote_example in \<open>simp_all add: first_order_def\<close>)

theorem restore_inverts_consume_witness:
  "\<exists>r2 b2. restore_consumption ''r1'' [(''USD'', PyInt 4)] [(''r1'', used_reservation)] = (Inr r2, b2)
    \<and> (\<forall>k. reserved b2 k = reserved [(''r1'', held_reservation)] k
         \<and> spent b2 k = spent [(''r1'', held_reservation)] k) \<and> rs_state r2 = rs_state used_reservation"
  by (rule restore_inverts_consume [OF consume_example held_book_ok])

theorem reservation_states_progress_witness:
  "\<exists>r'. dict_get (after run_reservation empty_reservation_book ([first_order] @ [Mark_Unknown ''r1''])) ''r1'' = Some r'
    \<and> record_le held_reservation r'"
  by (rule reservation_states_progress) (simp add: first_order_runs)

end
