(* ===== verification/Instants.thy ===== *)
theory Instants
  imports Prelude
begin

text \<open>
  Timestamps.  The ledgers take ISO texts, read them with \<open>datetime.fromisoformat\<close>, refuse a reading
  without an offset and keep the UTC text of the rest; all later comparisons are between such
  canonical texts, which are equal exactly when the instants are, or between the instants
  themselves.  A timestamp text is therefore modelled by its reading: a text that is blank or not
  ISO, one without an offset, one whose UTC instant is outside the years 1 to 9999 (the conversion
  raises \<open>OverflowError\<close>), or the instant in microseconds since the first.
\<close>

datatype instant_text = Unreadable | No_Offset | Out_Of_Range | At int

definition read_instant :: "instant_text \<Rightarrow> int result" where
  "read_instant t = (case t of
      Unreadable \<Rightarrow> Inl ValueError | No_Offset \<Rightarrow> Inl ValueError
    | Out_Of_Range \<Rightarrow> Inl OverflowError | At us \<Rightarrow> Inr us)"

text \<open>The canonical UTC text, for an optional field.\<close>

definition opt_instant :: "instant_text option \<Rightarrow> instant_text option result" where
  "opt_instant v = (case v of None \<Rightarrow> Inr None
     | Some t \<Rightarrow> rbind (read_instant t) (\<lambda>us. Inr (Some (At us))))"

lemma read_instant_Inr [simp, result_simps]: "read_instant t = Inr us \<longleftrightarrow> t = At us"
  by (cases t) (auto simp: read_instant_def)

lemma opt_instant_Inr [simp, result_simps]:
  "opt_instant v = Inr w \<longleftrightarrow> w = v \<and> (v = None \<or> (\<exists>us. v = Some (At us)))"
  by (cases v) (auto simp: opt_instant_def)

text \<open>A value given as a point in time: not a \<open>datetime\<close> with a fixed-offset zone, such a datetime
  whose UTC value is outside the calendar, or one at that many microseconds.\<close>

datatype moment = Not_Aware | Beyond_Calendar | Moment int

text \<open>The UTC calendar day of an instant, as a day number.\<close>

definition day_of :: "int \<Rightarrow> int" where
  "day_of us = us div 86400000000"

end
