(* ===== verification/Economic_Book.thy ===== *)
theory Economic_Book
  imports Exact_Decimal_Text Instants
begin

text \<open>
  \<open>mvp/autotrade_mvp/accounting.py\<close>: the double-entry journal.  Postings and transactions are the
  source's dataclasses, \<open>EconomicBook\<close> its five fields; the booking functions build validated
  transactions.  Decimal equality is equality of values, so two dataclass values are equal when
  \<open>same_transaction\<close> says so.  Digests of transactions (\<open>payload_digest\<close>, \<open>audit_digest\<close>) and the
  object-identity registry of \<open>ScopedEconomicBook\<close> are left out.
\<close>

section \<open>Exact arithmetic with the ledger's exceptions\<close>

definition ac_decimal :: "pynum \<Rightarrow> decimal result" where
  "ac_decimal v =
     (case v of
        PyBool _ \<Rightarrow> Inl TypeError | PyFloat \<Rightarrow> Inl TypeError | PyOther \<Rightarrow> Inl TypeError
      | _ \<Rightarrow> translate ExactDecimalError ValueError (parse_bounded_exact_decimal v True))"

definition ac_name :: "string \<Rightarrow> string result" where
  "ac_name v = (let stripped = strip v in if stripped = [] then Inl ValueError else Inr stripped)"

definition ac_opt_name :: "string option \<Rightarrow> string option result" where
  "ac_opt_name v = opt_text ac_name v"

text \<open>The exception an exact operation raises: a conflict where the caller asks for one.\<close>

definition ac_error :: "bool \<Rightarrow> exn" where
  "ac_error conflict = (if conflict then AccountingConflict else ValueError)"

definition exact_negate :: "bool \<Rightarrow> decimal \<Rightarrow> decimal result" where
  "exact_negate conflict v = translate ExactDecimalError (ac_error conflict) (exact_subtract dzero v)"

definition exact_total :: "bool \<Rightarrow> decimal list \<Rightarrow> decimal result" where
  "exact_total conflict vs = translate ExactDecimalError (ac_error conflict) (exact_sum vs)"

definition exact_product :: "bool \<Rightarrow> decimal list \<Rightarrow> decimal result" where
  "exact_product conflict vs = translate ExactDecimalError (ac_error conflict) (exact_multiply vs)"

definition exact_difference :: "bool \<Rightarrow> decimal \<Rightarrow> decimal \<Rightarrow> decimal result" where
  "exact_difference conflict a b = translate ExactDecimalError (ac_error conflict) (exact_subtract a b)"

definition exact_addition :: "bool \<Rightarrow> decimal \<Rightarrow> decimal \<Rightarrow> decimal result" where
  "exact_addition conflict a b = translate ExactDecimalError (ac_error conflict) (exact_add a b)"

definition exact_absolute :: "bool \<Rightarrow> decimal \<Rightarrow> decimal result" where
  "exact_absolute conflict v = translate ExactDecimalError (ac_error conflict) (exact_abs v)"

definition exact_ratio :: "decimal \<Rightarrow> decimal \<Rightarrow> decimal result" where
  "exact_ratio numerator denominator =
     translate ZeroDivisionError AccountingConflict (translate ExactDecimalError AccountingConflict
       (rbind (as_fraction denominator) (\<lambda>d.
        if d = 0 then Inl AccountingConflict
        else rbind (as_fraction numerator) (\<lambda>n.
          rbind (bounded_fraction (n / d)) terminating_decimal))))"

definition exact_ratio_product :: "decimal \<Rightarrow> decimal \<Rightarrow> decimal \<Rightarrow> decimal result" where
  "exact_ratio_product v numerator denominator =
     translate ZeroDivisionError AccountingConflict (translate ExactDecimalError AccountingConflict
       (rbind (as_fraction denominator) (\<lambda>d.
        if d = 0 then Inl AccountingConflict
        else rbind (as_fraction v) (\<lambda>x. rbind (as_fraction numerator) (\<lambda>n.
          rbind (bounded_fraction (x * n / d)) terminating_decimal)))))"

section \<open>Transactions\<close>

record posting =
  ledger_account :: string
  asset_or_currency :: string
  signed_amount :: decimal

record journal_transaction =
  transaction_id :: string
  cause_event_id :: string
  postings :: "posting list"
  reverses_transaction_id :: "string option"
  economic_effective_at :: "instant_text option"
  economic_order_key :: "string option"
  observed_at :: "instant_text option"
  corrects_transaction_id :: "string option"

definition same_posting :: "posting \<Rightarrow> posting \<Rightarrow> bool" where
  "same_posting p q \<longleftrightarrow> ledger_account p = ledger_account q
     \<and> asset_or_currency p = asset_or_currency q \<and> dval (signed_amount p) = dval (signed_amount q)"

definition same_transaction :: "journal_transaction \<Rightarrow> journal_transaction \<Rightarrow> bool" where
  "same_transaction t u \<longleftrightarrow> transaction_id t = transaction_id u \<and> cause_event_id t = cause_event_id u
     \<and> list_all2 same_posting (postings t) (postings u)
     \<and> reverses_transaction_id t = reverses_transaction_id u
     \<and> economic_effective_at t = economic_effective_at u \<and> economic_order_key t = economic_order_key u
     \<and> observed_at t = observed_at u \<and> corrects_transaction_id t = corrects_transaction_id u"

definition make_posting :: "string \<Rightarrow> string \<Rightarrow> pynum \<Rightarrow> posting result" where
  "make_posting account asset amount =
     rbind (ac_name account) (\<lambda>a. rbind (ac_name asset) (\<lambda>c. rbind (ac_decimal amount) (\<lambda>d.
       Inr \<lparr>ledger_account = a, asset_or_currency = c, signed_amount = d\<rparr>)))"

definition normalized_posting :: "posting \<Rightarrow> posting result" where
  "normalized_posting p =
     make_posting (ledger_account p) (asset_or_currency p) (PyDecimal (signed_amount p))"

definition normalized_transaction :: "journal_transaction \<Rightarrow> journal_transaction result" where
  "normalized_transaction t =
     rbind (ac_name (transaction_id t)) (\<lambda>tid.
     rbind (ac_name (cause_event_id t)) (\<lambda>cid.
     rbind (rmap normalized_posting (postings t)) (\<lambda>ps.
     rbind (ac_opt_name (reverses_transaction_id t)) (\<lambda>rev.
     rbind (opt_instant (economic_effective_at t)) (\<lambda>eff.
     rbind (ac_opt_name (economic_order_key t)) (\<lambda>key.
     rbind (opt_instant (observed_at t)) (\<lambda>obs.
     rbind (ac_opt_name (corrects_transaction_id t)) (\<lambda>cor.
       Inr \<lparr>transaction_id = tid, cause_event_id = cid, postings = ps, reverses_transaction_id = rev,
            economic_effective_at = eff, economic_order_key = key, observed_at = obs,
            corrects_transaction_id = cor\<rparr>))))))))"

text \<open>The amounts of each asset, in the order the assets first appear.\<close>

definition total_step :: "(string, decimal list) dict \<Rightarrow> posting \<Rightarrow> (string, decimal list) dict result" where
  "total_step totals p =
     rbind (ac_name (ledger_account p)) (\<lambda>_. rbind (ac_name (asset_or_currency p)) (\<lambda>asset.
     rbind (ac_decimal (PyDecimal (signed_amount p))) (\<lambda>amount.
       Inr (dict_set totals asset
         ((case dict_get totals asset of None \<Rightarrow> [] | Some ds \<Rightarrow> ds) @ [amount])))))"

definition unbalanced_step :: "(string, decimal) dict \<Rightarrow> string \<times> decimal list
    \<Rightarrow> (string, decimal) dict result" where
  "unbalanced_step unbalanced item =
     (case item of (asset, amounts) \<Rightarrow>
       rbind (exact_total False amounts) (\<lambda>total.
         Inr (if dval total \<noteq> 0 then dict_set unbalanced asset total else unbalanced)))"

definition instant_before :: "instant_text option \<Rightarrow> instant_text option \<Rightarrow> bool" where
  "instant_before a b = (case (a, b) of (Some (At x), Some (At y)) \<Rightarrow> x < y | _ \<Rightarrow> False)"

definition validate_transaction :: "journal_transaction \<Rightarrow> unit result" where
  "validate_transaction t =
     rbind (ac_name (transaction_id t)) (\<lambda>_.
     rbind (ac_name (cause_event_id t)) (\<lambda>_.
     rbind (opt_instant (economic_effective_at t)) (\<lambda>effective.
     rbind (ac_opt_name (economic_order_key t)) (\<lambda>order_key.
     rbind (require ((effective = None) = (order_key = None)) ValueError) (\<lambda>_.
     rbind (opt_instant (observed_at t)) (\<lambda>observed.
     rbind (require (\<not> instant_before observed effective) ValueError) (\<lambda>_.
     rbind (case corrects_transaction_id t of
         None \<Rightarrow> Inr ()
       | Some corrects \<Rightarrow>
           rbind (ac_name corrects) (\<lambda>corrected_id.
           rbind (require (corrected_id \<noteq> transaction_id t) ValueError) (\<lambda>_.
           rbind (require (reverses_transaction_id t = None) ValueError) (\<lambda>_.
             require (effective \<noteq> None \<and> order_key \<noteq> None \<and> observed \<noteq> None) ValueError)))) (\<lambda>_.
     rbind (require (2 \<le> length (postings t)) ValueError) (\<lambda>_.
     rbind (rfold total_step [] (postings t)) (\<lambda>totals.
     rbind (rfold unbalanced_step [] totals) (\<lambda>unbalanced.
       require (unbalanced = []) ValueError)))))))))))"

section \<open>The book\<close>

record economic_book =
  bk_transactions :: "journal_transaction list"
  bk_by_id :: "(string, journal_transaction) dict"
  bk_by_cause :: "(string, journal_transaction) dict"
  bk_reversed :: "string set"
  bk_replacement :: "(string, string) dict"

definition empty_economic_book :: economic_book where
  "empty_economic_book = \<lparr>bk_transactions = [], bk_by_id = [], bk_by_cause = [], bk_reversed = {},
     bk_replacement = []\<rparr>"

definition negated_posting :: "posting \<Rightarrow> posting result" where
  "negated_posting p = rbind (exact_negate True (signed_amount p)) (\<lambda>d. Inr (p\<lparr>signed_amount := d\<rparr>))"

text \<open>The checks of a reversal and of a correction against the book.\<close>

definition check_reversal :: "economic_book \<Rightarrow> journal_transaction \<Rightarrow> unit result" where
  "check_reversal b t =
     (case reverses_transaction_id t of
        None \<Rightarrow> Inr ()
      | Some original_id \<Rightarrow>
          (case dict_get (bk_by_id b) original_id of
             None \<Rightarrow> Inl AccountingConflict
           | Some original \<Rightarrow>
               if original_id \<in> bk_reversed b then Inl AccountingConflict
               else rbind (rmap negated_posting (postings original)) (\<lambda>expected.
                 require (list_all2 same_posting (postings t) expected) AccountingConflict)))"

definition check_correction :: "economic_book \<Rightarrow> journal_transaction \<Rightarrow> unit result" where
  "check_correction b t =
     (case corrects_transaction_id t of
        None \<Rightarrow> Inr ()
      | Some corrected_id \<Rightarrow>
          (case dict_get (bk_by_id b) corrected_id of
             None \<Rightarrow> Inl AccountingConflict
           | Some corrected \<Rightarrow>
               if corrected_id \<notin> bk_reversed b then Inl AccountingConflict
               else if dict_get (bk_replacement b) corrected_id \<notin> {None, Some (transaction_id t)}
               then Inl AccountingConflict
               else if economic_effective_at corrected \<noteq> economic_effective_at t
                 \<or> economic_order_key corrected \<noteq> economic_order_key t
               then Inl AccountingConflict
               else
                 (case find (\<lambda>u. reverses_transaction_id u = Some corrected_id) (bk_transactions b) of
                    None \<Rightarrow> Inl AccountingConflict
                  | Some reversal \<Rightarrow>
                      require (observed_at reversal = observed_at t) AccountingConflict)))"

definition commit_transaction :: "journal_transaction \<Rightarrow> economic_book \<Rightarrow> economic_book" where
  "commit_transaction t b = b\<lparr>
     bk_by_id := dict_set (bk_by_id b) (transaction_id t) t,
     bk_by_cause := dict_set (bk_by_cause b) (cause_event_id t) t,
     bk_transactions := bk_transactions b @ [t],
     bk_reversed := (case reverses_transaction_id t of None \<Rightarrow> bk_reversed b
       | Some i \<Rightarrow> insert i (bk_reversed b)),
     bk_replacement := (case corrects_transaction_id t of None \<Rightarrow> bk_replacement b
       | Some i \<Rightarrow> dict_set (bk_replacement b) i (transaction_id t))\<rparr>"

definition book_append :: "journal_transaction \<Rightarrow> (economic_book, bool) operation" where
  "book_append transaction =
     raising (normalized_transaction transaction) (\<lambda>normalized.
     raising (validate_transaction normalized) (\<lambda>_ b.
       case dict_get (bk_by_id b) (transaction_id normalized) of
         Some existing \<Rightarrow>
           if \<not> same_transaction existing normalized then (Inl AccountingConflict, b)
           else (Inr False, b)
       | None \<Rightarrow>
           if dict_get (bk_by_cause b) (cause_event_id normalized) \<noteq> None
           then (Inl AccountingConflict, b)
           else raising (check_reversal b normalized) (\<lambda>_.
             raising (check_correction b normalized) (\<lambda>_ b.
               (Inr True, commit_transaction normalized b))) b))"

text \<open>Appending a sequence, as the constructor and the batch do: the first exception ends it.\<close>

fun append_all :: "journal_transaction list \<Rightarrow> economic_book \<Rightarrow> (bool list \<times> economic_book) result" where
  "append_all [] b = Inr ([], b)"
| "append_all (t # ts) b =
     (case book_append t b of
        (Inl e, b') \<Rightarrow> Inl e
      | (Inr r, b') \<Rightarrow> rbind (append_all ts b') (\<lambda>(rs, b''). Inr (r # rs, b'')))"

definition book_of :: "journal_transaction list \<Rightarrow> economic_book result" where
  "book_of ts = rbind (append_all ts empty_economic_book) (\<lambda>(rs, b). Inr b)"

definition append_batch :: "journal_transaction list \<Rightarrow> (economic_book, bool) operation" where
  "append_batch batch b =
     raising (require (batch \<noteq> []) ValueError) (\<lambda>_.
     raising (book_of (bk_transactions b)) (\<lambda>candidate.
     raising (append_all batch candidate) (\<lambda>(outcomes, candidate) b.
       if list_ex id outcomes \<and> \<not> list_all id outcomes then (Inl AccountingConflict, b)
       else if \<not> list_ex id outcomes then (Inr False, b)
       else (Inr True, candidate)))) b"

definition balance :: "economic_book \<Rightarrow> string \<Rightarrow> string \<Rightarrow> decimal result" where
  "balance b account_text asset_text =
     rbind (ac_name account_text) (\<lambda>account. rbind (ac_name asset_text) (\<lambda>asset.
       exact_total True (map signed_amount
         (filter (\<lambda>p. ledger_account p = account \<and> asset_or_currency p = asset)
           (concat (map postings (bk_transactions b)))))))"

definition cash :: "economic_book \<Rightarrow> string \<Rightarrow> decimal result" where
  "cash b currency = rbind (ac_name currency) (\<lambda>v. balance b (''CASH:'' @ v) v)"

definition position :: "economic_book \<Rightarrow> string \<Rightarrow> decimal result" where
  "position b instrument = rbind (ac_name instrument) (\<lambda>v. balance b (''POSITION:'' @ v) v)"

definition fee_expense :: "economic_book \<Rightarrow> string \<Rightarrow> decimal result" where
  "fee_expense b currency = rbind (ac_name currency) (\<lambda>v. balance b (''FEE_EXPENSE:'' @ v) v)"

section \<open>Booking\<close>

definition validated :: "journal_transaction \<Rightarrow> journal_transaction result" where
  "validated t = rbind (validate_transaction t) (\<lambda>_. Inr t)"

definition plain_transaction :: "string \<Rightarrow> string \<Rightarrow> posting list \<Rightarrow> journal_transaction" where
  "plain_transaction tid cid ps = \<lparr>transaction_id = tid, cause_event_id = cid, postings = ps,
     reverses_transaction_id = None, economic_effective_at = None, economic_order_key = None,
     observed_at = None, corrects_transaction_id = None\<rparr>"

definition book_external_cash_flow :: "string \<Rightarrow> string \<Rightarrow> string \<Rightarrow> pynum \<Rightarrow> journal_transaction result" where
  "book_external_cash_flow tid cid currency amount =
     rbind (ac_decimal amount) (\<lambda>v.
     rbind (require (dval v \<noteq> 0) ValueError) (\<lambda>_.
     rbind (ac_name currency) (\<lambda>u.
     rbind (ac_name tid) (\<lambda>tid'. rbind (ac_name cid) (\<lambda>cid'.
     rbind (make_posting (''CASH:'' @ u) u (PyDecimal v)) (\<lambda>p1.
     rbind (exact_negate False v) (\<lambda>nv.
     rbind (make_posting (''EXTERNAL_EQUITY:'' @ u) u (PyDecimal nv)) (\<lambda>p2.
       validated (plain_transaction tid' cid' [p1, p2])))))))))"

record fill_evidence =
  fe_effective_at :: "instant_text option"
  fe_order_key :: "string option"
  fe_observed_at :: "instant_text option"
  fe_corrects :: "string option"

definition no_evidence :: fill_evidence where
  "no_evidence = \<lparr>fe_effective_at = None, fe_order_key = None, fe_observed_at = None, fe_corrects = None\<rparr>"

definition with_evidence :: "fill_evidence \<Rightarrow> journal_transaction \<Rightarrow> journal_transaction" where
  "with_evidence ev t = t\<lparr>economic_effective_at := fe_effective_at ev,
     economic_order_key := fe_order_key ev, observed_at := fe_observed_at ev,
     corrects_transaction_id := fe_corrects ev\<rparr>"

text \<open>\<open>fee_currency or settlement\<close>: the empty text counts as absent.\<close>

definition fee_unit_text :: "string option \<Rightarrow> string \<Rightarrow> string" where
  "fee_unit_text fee_currency settlement =
     (case fee_currency of None \<Rightarrow> settlement | Some c \<Rightarrow> if c = [] then settlement else c)"

definition fee_postings :: "decimal \<Rightarrow> string option \<Rightarrow> string \<Rightarrow> posting list result" where
  "fee_postings fee_amount fee_currency settlement =
     (if dval fee_amount \<noteq> 0 then
        rbind (ac_name (fee_unit_text fee_currency settlement)) (\<lambda>fee_unit.
        rbind (exact_negate False fee_amount) (\<lambda>nf.
        rbind (make_posting (''CASH:'' @ fee_unit) fee_unit (PyDecimal nf)) (\<lambda>p1.
        rbind (make_posting (''FEE_EXPENSE:'' @ fee_unit) fee_unit (PyDecimal fee_amount)) (\<lambda>p2.
          Inr [p1, p2]))))
      else Inr [])"

definition book_equity_fill :: "string \<Rightarrow> string \<Rightarrow> string \<Rightarrow> string \<Rightarrow> string \<Rightarrow> pynum \<Rightarrow> pynum \<Rightarrow> pynum
    \<Rightarrow> string option \<Rightarrow> fill_evidence \<Rightarrow> journal_transaction result" where
  "book_equity_fill tid cid instrument settlement_currency side quantity price fee fee_currency ev =
     rbind (ac_name instrument) (\<lambda>symbol.
     rbind (ac_name settlement_currency) (\<lambda>settlement.
     rbind (ac_name side) (\<lambda>side_text.
     rbind (require (upper side_text \<in> {''BUY'', ''SELL''}) ValueError) (\<lambda>_.
       let is_buy = (upper side_text = ''BUY'') in
     rbind (ac_decimal quantity) (\<lambda>qty. rbind (ac_decimal price) (\<lambda>unit_price.
     rbind (ac_decimal fee) (\<lambda>fee_amount.
     rbind (require (\<not> (dval qty \<le> 0 \<or> dval unit_price \<le> 0)) ValueError) (\<lambda>_.
     rbind (if is_buy then Inr qty else exact_negate False qty) (\<lambda>signed_quantity.
     rbind (exact_product False [qty, unit_price]) (\<lambda>trade_value.
     rbind (if is_buy then exact_negate False trade_value else Inr trade_value) (\<lambda>trade_cash.
     rbind (make_posting (''POSITION:'' @ symbol) symbol (PyDecimal signed_quantity)) (\<lambda>p1.
     rbind (exact_negate False signed_quantity) (\<lambda>nq.
     rbind (make_posting (''CLEARING:'' @ symbol) symbol (PyDecimal nq)) (\<lambda>p2.
     rbind (make_posting (''CASH:'' @ settlement) settlement (PyDecimal trade_cash)) (\<lambda>p3.
     rbind (exact_negate False trade_cash) (\<lambda>nc.
     rbind (make_posting (''CLEARING:'' @ settlement) settlement (PyDecimal nc)) (\<lambda>p4.
     rbind (fee_postings fee_amount fee_currency settlement) (\<lambda>fees.
     rbind (ac_name tid) (\<lambda>tid'. rbind (ac_name cid) (\<lambda>cid'.
       validated (with_evidence ev
         (plain_transaction tid' cid' ([p1, p2, p3, p4] @ fees)))))))))))))))))))))))"

definition split_account :: "string \<Rightarrow> string \<Rightarrow> string \<Rightarrow> string" where
  "split_account symbol num_text den_text =
     ''CORPORATE_ACTION_SPLIT_CLEARING:'' @ symbol @ '':'' @ num_text @ '':'' @ den_text"

definition book_equity_split_adjustment :: "string \<Rightarrow> string \<Rightarrow> string \<Rightarrow> pynum \<Rightarrow> pynum \<Rightarrow> pynum
    \<Rightarrow> fill_evidence \<Rightarrow> journal_transaction result" where
  "book_equity_split_adjustment tid cid instrument pre_split_quantity numerator denominator ev =
     rbind (ac_name instrument) (\<lambda>symbol.
     rbind (ac_decimal pre_split_quantity) (\<lambda>before.
     rbind (ac_decimal numerator) (\<lambda>num. rbind (ac_decimal denominator) (\<lambda>den.
     rbind (translate ExactDecimalError ValueError (as_fraction num)) (\<lambda>nf.
     rbind (translate ExactDecimalError ValueError (as_fraction den)) (\<lambda>df.
     rbind (require (\<not> (dval num \<le> 0 \<or> dval den \<le> 0 \<or> snd (quotient_of nf) \<noteq> 1
        \<or> snd (quotient_of df) \<noteq> 1)) ValueError) (\<lambda>_.
     rbind (require (dval before \<noteq> 0) ValueError) (\<lambda>_.
     rbind (exact_ratio_product before num den) (\<lambda>aft.
     rbind (exact_difference True aft before) (\<lambda>delta.
     rbind (require (dval delta \<noteq> 0) ValueError) (\<lambda>_.
     rbind (translate ExactDecimalError ValueError (canonical_decimal_text num)) (\<lambda>num_text.
     rbind (translate ExactDecimalError ValueError (canonical_decimal_text den)) (\<lambda>den_text.
     rbind (ac_name tid) (\<lambda>tid'. rbind (ac_name cid) (\<lambda>cid'.
     rbind (make_posting (''POSITION:'' @ symbol) symbol (PyDecimal delta)) (\<lambda>p1.
     rbind (exact_negate True delta) (\<lambda>nd.
     rbind (make_posting (split_account symbol num_text den_text) symbol (PyDecimal nd)) (\<lambda>p2.
       validated (with_evidence ev (plain_transaction tid' cid' [p1, p2]))))))))))))))))))))"

definition book_fx_exchange :: "string \<Rightarrow> string \<Rightarrow> string \<Rightarrow> pynum \<Rightarrow> string \<Rightarrow> pynum
    \<Rightarrow> journal_transaction result" where
  "book_fx_exchange tid cid sold_currency sold_amount bought_currency bought_amount =
     rbind (ac_name sold_currency) (\<lambda>sold. rbind (ac_name bought_currency) (\<lambda>bought.
     rbind (require (sold \<noteq> bought) ValueError) (\<lambda>_.
     rbind (ac_decimal sold_amount) (\<lambda>sv. rbind (ac_decimal bought_amount) (\<lambda>bv.
     rbind (require (\<not> (dval sv \<le> 0 \<or> dval bv \<le> 0)) ValueError) (\<lambda>_.
     rbind (ac_name tid) (\<lambda>tid'. rbind (ac_name cid) (\<lambda>cid'.
     rbind (exact_negate False sv) (\<lambda>nsv.
     rbind (make_posting (''CASH:'' @ sold) sold (PyDecimal nsv)) (\<lambda>p1.
     rbind (make_posting (''FX_CLEARING:'' @ sold) sold (PyDecimal sv)) (\<lambda>p2.
     rbind (make_posting (''CASH:'' @ bought) bought (PyDecimal bv)) (\<lambda>p3.
     rbind (exact_negate False bv) (\<lambda>nbv.
     rbind (make_posting (''FX_CLEARING:'' @ bought) bought (PyDecimal nbv)) (\<lambda>p4.
       validated (plain_transaction tid' cid' [p1, p2, p3, p4])))))))))))))))"

definition reverse_transaction :: "journal_transaction \<Rightarrow> string \<Rightarrow> string \<Rightarrow> instant_text option
    \<Rightarrow> journal_transaction result" where
  "reverse_transaction original tid cid observed =
     rbind (validate_transaction original) (\<lambda>_.
     rbind (ac_name tid) (\<lambda>tid'. rbind (ac_name cid) (\<lambda>cid'.
     rbind (rmap negated_posting (postings original)) (\<lambda>ps.
       validated \<lparr>transaction_id = tid', cause_event_id = cid', postings = ps,
         reverses_transaction_id = Some (transaction_id original),
         economic_effective_at = economic_effective_at original,
         economic_order_key = economic_order_key original,
         observed_at = observed, corrects_transaction_id = None\<rparr>))))"


section \<open>Abstraction\<close>

text \<open>What a list of postings books to an account, and to an asset over all accounts.\<close>

definition posted :: "string \<Rightarrow> string \<Rightarrow> posting list \<Rightarrow> rat" where
  "posted account asset ps = sum_list (map (\<lambda>p. if ledger_account p = account \<and> asset_or_currency p = asset
     then dval (signed_amount p) else 0) ps)"

definition asset_total :: "string \<Rightarrow> posting list \<Rightarrow> rat" where
  "asset_total asset ps = sum_list (map (\<lambda>p. if asset_or_currency p = asset
     then dval (signed_amount p) else 0) ps)"

definition book_postings :: "economic_book \<Rightarrow> posting list" where
  "book_postings b = concat (map postings (bk_transactions b))"

definition normal :: "journal_transaction \<Rightarrow> bool" where
  "normal t \<longleftrightarrow> normalized_transaction t = Inr t \<and> validate_transaction t = Inr ()"

lemma posted_simps [simp]:
  "posted a c [] = 0" "posted a c (ps @ qs) = posted a c ps + posted a c qs"
  "posted a c (p # ps) = (if ledger_account p = a \<and> asset_or_currency p = c then dval (signed_amount p) else 0)
     + posted a c ps"
  by (simp_all add: posted_def)

lemma asset_total_simps [simp]:
  "asset_total c [] = 0" "asset_total c (ps @ qs) = asset_total c ps + asset_total c qs"
  "asset_total c (p # ps) = (if asset_or_currency p = c then dval (signed_amount p) else 0) + asset_total c ps"
  by (simp_all add: asset_total_def)

section \<open>Laws of the wrappers\<close>

interpretation ledger: exact_ops dval in_envelope "exact_addition conflict" "exact_difference conflict"
  "exact_total conflict" "exact_product conflict" for conflict
  by unfold_locales
    (auto simp: exact_addition_def exact_difference_def exact_total_def exact_product_def
      dest: exact.add_val exact.sub_val exact.total_val exact.product_val)

lemma ac_name_Inr [simp, result_simps]: "ac_name v = Inr t \<longleftrightarrow> strip v = t \<and> t \<noteq> []"
  by (auto simp: ac_name_def Let_def)

lemma ac_decimal_Inr: "ac_decimal v = Inr d \<Longrightarrow> in_envelope d \<and> dval d = pyval v"
  by (cases v) (auto simp: ac_decimal_def dest: parse_Inr)

lemma ac_decimal_idem:
  assumes "ac_decimal v = Inr d"
  shows "ac_decimal (PyDecimal d) = Inr (if dval d = 0 then dzero else d)"
  using ac_decimal_Inr [OF assms] by (simp add: ac_decimal_def parse_decimal)

lemma ac_decimal_normal:
  assumes "ac_decimal (PyDecimal x) = Inr d"
  shows "ac_decimal (PyDecimal d) = Inr d"
proof -
  have env: "in_envelope x" using assms
    by (auto simp: ac_decimal_def parse_bounded_exact_decimal_def validate_decimal_envelope_eq split: if_splits)
  then have "d = (if dval x = 0 then dzero else x)" using assms by (simp add: ac_decimal_def parse_decimal)
  then show ?thesis using env by (auto simp: ac_decimal_def parse_decimal)
qed

lemma exact_negate_Inr: "exact_negate c v = Inr d \<Longrightarrow> in_envelope d \<and> in_envelope v \<and> dval d = - dval v"
  using exact_subtract_returns_iff [of dzero v]
  by (auto simp: exact_negate_def dest: exact.sub_val)

lemma representable_uminus: "in_envelope d \<Longrightarrow> representable (- dval d)"
proof -
  assume "in_envelope d"
  then obtain s c e where d: "d = Decimal s c e" by (cases d) (auto simp: in_envelope_def)
  have "in_envelope (Decimal (\<not> s) c e)" using \<open>in_envelope d\<close> by (simp add: d in_envelope_def)
  moreover have "dval (Decimal (\<not> s) c e) = - dval d" by (simp add: d)
  ultimately show ?thesis unfolding representable_def by blast
qed

text \<open>Negation never fails on a Decimal within the envelope.\<close>

lemma exact_negate_total:
  assumes "in_envelope v"
  shows "\<exists>d. exact_negate c v = Inr d"
proof -
  have "\<exists>d. exact_subtract dzero v = Inr d"
    using exact_subtract_returns_iff [of dzero v] assms representable_uminus [OF assms] by simp
  then show ?thesis by (auto simp: exact_negate_def)
qed

lemma exact_absolute_Inr: "exact_absolute c v = Inr d \<Longrightarrow> dval d = \<bar>dval v\<bar> \<and> in_envelope d"
  by (auto simp: exact_absolute_def dest: exact_abs_Inr)

lemma exact_ratio_Inr: "exact_ratio n d = Inr r \<Longrightarrow> dval d \<noteq> 0 \<and> dval r = dval n / dval d \<and> in_envelope r"
  by (auto simp: exact_ratio_def dest: terminating_decimal_sound split: if_splits)

lemma exact_ratio_product_Inr:
  "exact_ratio_product v n d = Inr r \<Longrightarrow> dval d \<noteq> 0 \<and> dval r = dval v * dval n / dval d \<and> in_envelope r"
  by (auto simp: exact_ratio_product_def dest: terminating_decimal_sound split: if_splits)

section \<open>Normalised transactions\<close>

lemma ac_opt_name_Inr: "ac_opt_name v = Inr w \<Longrightarrow> ac_opt_name w = Inr w"
  by (cases v) (auto simp: ac_opt_name_def)

lemma make_posting_Inr:
  assumes "make_posting a c v = Inr p"
  shows "ledger_account p = strip a" "asset_or_currency p = strip c" "ac_decimal v = Inr (signed_amount p)"
    "strip a \<noteq> []" "strip c \<noteq> []"
  using assms by (auto simp: make_posting_def)

lemma normalized_posting_idem: "normalized_posting q = Inr p \<Longrightarrow> normalized_posting p = Inr p"
  by (auto simp: normalized_posting_def make_posting_def intro: ac_decimal_normal)

lemma rmap_idem: "(\<And>x y. f x = Inr y \<Longrightarrow> f y = Inr y) \<Longrightarrow> rmap f xs = Inr ys \<Longrightarrow> rmap f ys = Inr ys"
  by (induction xs arbitrary: ys) auto

lemma normalized_transaction_idem:
  assumes "normalized_transaction t = Inr n"
  shows "normalized_transaction n = Inr n"
  using assms rmap_idem [OF normalized_posting_idem]
  by (auto simp: normalized_transaction_def ac_opt_name_Inr)

lemma normalized_posting_facts:
  assumes "rmap normalized_posting qs = Inr ps" and "p \<in> set ps"
  shows "strip (ledger_account p) = ledger_account p" "strip (asset_or_currency p) = asset_or_currency p"
    "in_envelope (signed_amount p)"
proof -
  have "normalized_posting p = Inr p"
    using assms normalized_posting_idem by (auto simp: rmap_Inr_iff list_all2_conv_all_nth in_set_conv_nth)
  then have "make_posting (ledger_account p) (asset_or_currency p) (PyDecimal (signed_amount p)) = Inr p"
    by (simp add: normalized_posting_def)
  note m = make_posting_Inr [OF this]
  show "strip (ledger_account p) = ledger_account p" "strip (asset_or_currency p) = asset_or_currency p"
    "in_envelope (signed_amount p)"
    using m(1,2) ac_decimal_Inr [OF m(3)] by simp_all
qed

lemma normalD:
  assumes "normal t"
  shows "rmap normalized_posting (postings t) = Inr (postings t)"
    and "p \<in> set (postings t) \<Longrightarrow> strip (asset_or_currency p) = asset_or_currency p"
    and "p \<in> set (postings t) \<Longrightarrow> in_envelope (signed_amount p)"
proof -
  show 1: "rmap normalized_posting (postings t) = Inr (postings t)"
    using assms by (cases t) (auto simp: normal_def normalized_transaction_def)
  show "p \<in> set (postings t) \<Longrightarrow> strip (asset_or_currency p) = asset_or_currency p"
    "p \<in> set (postings t) \<Longrightarrow> in_envelope (signed_amount p)"
    using normalized_posting_facts [OF 1] by auto
qed

text \<open>The balance check: each asset's amounts add up to zero.\<close>

definition dsum :: "(string, decimal list) dict \<Rightarrow> string \<Rightarrow> rat" where
  "dsum d a = (case dict_get d a of None \<Rightarrow> 0 | Some ds \<Rightarrow> sum_list (map dval ds))"

definition stripped_total :: "string \<Rightarrow> posting list \<Rightarrow> rat" where
  "stripped_total asset ps = sum_list (map (\<lambda>p. if strip (asset_or_currency p) = asset
     then dval (signed_amount p) else 0) ps)"

lemma total_step_Inr:
  assumes "total_step d p = Inr d'" and "dict_ok d"
  shows "dict_ok d'" and "dsum d' a = dsum d a + (if strip (asset_or_currency p) = a then dval (signed_amount p) else 0)"
  using assms by (auto simp: total_step_def dsum_def dest!: ac_decimal_Inr split: option.splits)

lemma total_fold_Inr:
  "rfold total_step d ps = Inr d' \<Longrightarrow> dict_ok d \<Longrightarrow> dict_ok d' \<and> dsum d' a = dsum d a + stripped_total a ps"
proof (induction ps arbitrary: d)
  case (Cons p ps)
  then obtain e where e: "total_step d p = Inr e" "rfold total_step e ps = Inr d'" by auto
  from Cons.IH [OF e(2)] total_step_Inr [OF e(1) Cons.prems(2)] show ?case
    by (simp add: stripped_total_def)
qed (simp add: stripped_total_def)

lemma unbalanced_step_pair:
  "unbalanced_step acc (a, ds) = rbind (exact_total False ds) (\<lambda>total.
     Inr (if dval total \<noteq> 0 then dict_set acc a total else acc))"
  by (simp add: unbalanced_step_def)

lemma unbalanced_fold_Nil:
  "rfold unbalanced_step acc totals = Inr [] \<Longrightarrow>
     acc = [] \<and> (\<forall>(a, ds) \<in> set totals. sum_list (map dval ds) = 0)"
proof (induction totals arbitrary: acc)
  case (Cons p totals)
  obtain a ds where p: "p = (a, ds)" by force
  with Cons.prems obtain t where t: "exact_total False ds = Inr t"
    "rfold unbalanced_step (if dval t \<noteq> 0 then dict_set acc a t else acc) totals = Inr []"
    by (auto simp: unbalanced_step_pair)
  have "dict_set acc a t \<noteq> []" by (cases acc) (auto simp: dict_set_def)
  with Cons.IH [OF t(2)] ledger.total_val [OF t(1)] p show ?case by (auto split: if_splits)
qed simp

lemma validate_balanced:
  assumes "validate_transaction t = Inr ()"
  shows "stripped_total a (postings t) = 0"
proof -
  from assms obtain totals where tot: "rfold total_step [] (postings t) = Inr totals"
    "rfold unbalanced_step [] totals = Inr []"
    by (auto simp: validate_transaction_def)
  from total_fold_Inr [OF tot(1), of a] have s: "dsum totals a = stripped_total a (postings t)"
    by (simp add: dsum_def)
  have "dsum totals a = 0"
    using unbalanced_fold_Nil [OF tot(2)] by (auto simp: dsum_def dest!: dict_get_mem split: option.splits)
  with s show ?thesis by simp
qed

lemma normal_balanced:
  assumes "normal t"
  shows "asset_total a (postings t) = 0"
proof -
  have "map (\<lambda>p. if strip (asset_or_currency p) = a then dval (signed_amount p) else 0) (postings t) =
      map (\<lambda>p. if asset_or_currency p = a then dval (signed_amount p) else 0) (postings t)"
    using normalD(2) [OF assms] by (intro map_cong) auto
  with validate_balanced [of t a] assms show ?thesis
    by (simp add: normal_def stripped_total_def asset_total_def)
qed


section \<open>The invariant of the book\<close>

definition negates :: "posting list \<Rightarrow> posting list \<Rightarrow> bool" where
  "negates ps qs \<longleftrightarrow> list_all2 (\<lambda>p q. ledger_account p = ledger_account q
     \<and> asset_or_currency p = asset_or_currency q \<and> dval (signed_amount p) = - dval (signed_amount q)) ps qs"

definition indexes_ok :: "economic_book \<Rightarrow> bool" where
  "indexes_ok b \<longleftrightarrow>
     bk_by_id b = map (\<lambda>t. (transaction_id t, t)) (bk_transactions b)
     \<and> bk_by_cause b = map (\<lambda>t. (cause_event_id t, t)) (bk_transactions b)
     \<and> distinct (map transaction_id (bk_transactions b)) \<and> distinct (map cause_event_id (bk_transactions b))
     \<and> bk_reversed b = {i. \<exists>t \<in> set (bk_transactions b). reverses_transaction_id t = Some i}
     \<and> (\<forall>i. dict_get (bk_replacement b) i = None \<longleftrightarrow>
          (\<forall>t \<in> set (bk_transactions b). corrects_transaction_id t \<noteq> Some i))
     \<and> (\<forall>i j. dict_get (bk_replacement b) i = Some j \<longrightarrow> j \<in> transaction_id ` set (bk_transactions b))"

definition reversal_ok :: "journal_transaction list \<Rightarrow> journal_transaction \<Rightarrow> bool" where
  "reversal_ok ts t \<longleftrightarrow> (\<forall>i. reverses_transaction_id t = Some i \<longrightarrow>
     (\<exists>u \<in> set ts. transaction_id u = i \<and> negates (postings t) (postings u)))"

definition correction_ok :: "journal_transaction list \<Rightarrow> journal_transaction \<Rightarrow> bool" where
  "correction_ok ts t \<longleftrightarrow> (\<forall>i. corrects_transaction_id t = Some i \<longrightarrow>
     (\<exists>u \<in> set ts. transaction_id u = i \<and> economic_effective_at u = economic_effective_at t
        \<and> economic_order_key u = economic_order_key t)
     \<and> (\<exists>r \<in> set ts. reverses_transaction_id r = Some i \<and> observed_at r = observed_at t))"

definition lineage_ok :: "journal_transaction list \<Rightarrow> bool" where
  "lineage_ok ts \<longleftrightarrow> (\<forall>t \<in> set ts. reversal_ok ts t \<and> correction_ok ts t)
     \<and> distinct (List.map_filter reverses_transaction_id ts)
     \<and> distinct (List.map_filter corrects_transaction_id ts)"

definition ledger_ok :: "economic_book \<Rightarrow> bool" where
  "ledger_ok b \<longleftrightarrow> indexes_ok b \<and> lineage_ok (bk_transactions b)
     \<and> (\<forall>t \<in> set (bk_transactions b). normal t) \<and> book_of (bk_transactions b) = Inr b"

lemma book_append_Inr:
  assumes "book_append t b = (Inr r, b')"
  shows "\<exists>n. normalized_transaction t = Inr n \<and> normal n \<and>
    ((\<not> r \<and> b' = b \<and> (\<exists>e. dict_get (bk_by_id b) (transaction_id n) = Some e \<and> same_transaction e n))
     \<or> (r \<and> b' = commit_transaction n b \<and> dict_get (bk_by_id b) (transaction_id n) = None
        \<and> dict_get (bk_by_cause b) (cause_event_id n) = None
        \<and> check_reversal b n = Inr () \<and> check_correction b n = Inr ()))"
proof -
  from assms obtain n where n: "normalized_transaction t = Inr n" "validate_transaction n = Inr ()"
    by (auto simp: book_append_def)
  have nn: "normal n" using n normalized_transaction_idem by (simp add: normal_def)
  show ?thesis
  proof (cases "dict_get (bk_by_id b) (transaction_id n)")
    case None
    with assms n nn show ?thesis by (intro exI [of _ n]) (auto simp: book_append_def split: if_splits)
  next
    case (Some e)
    with assms n nn show ?thesis by (intro exI [of _ n]) (auto simp: book_append_def split: if_splits)
  qed
qed

lemma book_append_normal:
  assumes "normal n"
  shows "book_append n b =
    (case dict_get (bk_by_id b) (transaction_id n) of
       Some existing \<Rightarrow> if \<not> same_transaction existing n then (Inl AccountingConflict, b) else (Inr False, b)
     | None \<Rightarrow>
         if dict_get (bk_by_cause b) (cause_event_id n) \<noteq> None then (Inl AccountingConflict, b)
         else raising (check_reversal b n) (\<lambda>_. raising (check_correction b n) (\<lambda>_ b.
             (Inr True, commit_transaction n b))) b)"
  using assms by (simp add: book_append_def normal_def)

lemma book_append_atomic: "atomic (book_append t)"
  unfolding book_append_def
  by (intro atomic_raising atomicI) (auto simp: raising_raises split: option.splits if_splits)

lemma commit_fields [simp]:
  "bk_transactions (commit_transaction t b) = bk_transactions b @ [t]"
  by (simp add: commit_transaction_def)

lemma map_filter_append [simp]: "List.map_filter f (xs @ ys) = List.map_filter f xs @ List.map_filter f ys"
  by (simp add: List.map_filter_def)

lemma map_filter_single [simp]: "List.map_filter f [x] = (case f x of None \<Rightarrow> [] | Some y \<Rightarrow> [y])"
  by (simp add: List.map_filter_def split: option.splits)

lemma set_map_filter: "set (List.map_filter f xs) = {y. \<exists>x \<in> set xs. f x = Some y}"
  by (induction xs) (auto simp: map_filter_simps split: option.splits)

lemma indexes_get:
  assumes "indexes_ok b"
  shows "dict_get (bk_by_id b) i = None \<longleftrightarrow> i \<notin> transaction_id ` set (bk_transactions b)"
    and "dict_get (bk_by_cause b) c = None \<longleftrightarrow> c \<notin> cause_event_id ` set (bk_transactions b)"
    and "dict_get (bk_by_id b) i = Some t \<longleftrightarrow> t \<in> set (bk_transactions b) \<and> transaction_id t = i"
proof -
  let ?ts = "bk_transactions b"
  have b: "bk_by_id b = map (\<lambda>t. (transaction_id t, t)) ?ts" "bk_by_cause b = map (\<lambda>t. (cause_event_id t, t)) ?ts"
    and d: "distinct (map transaction_id ?ts)"
    using assms by (simp_all add: indexes_ok_def)
  show "dict_get (bk_by_id b) i = None \<longleftrightarrow> i \<notin> transaction_id ` set ?ts"
    "dict_get (bk_by_cause b) c = None \<longleftrightarrow> c \<notin> cause_event_id ` set ?ts"
    by (simp_all add: b dict_get_None_iff image_image)
  have dk: "dict_ok (bk_by_id b)" using d by (simp add: b dict_ok_def comp_def)
  show "dict_get (bk_by_id b) i = Some t \<longleftrightarrow> t \<in> set ?ts \<and> transaction_id t = i"
  proof
    assume "dict_get (bk_by_id b) i = Some t"
    then show "t \<in> set ?ts \<and> transaction_id t = i" by (auto dest!: dict_get_mem simp: b)
  next
    assume "t \<in> set ?ts \<and> transaction_id t = i"
    then have "(i, t) \<in> set (bk_by_id b)" by (auto simp: b)
    with dk show "dict_get (bk_by_id b) i = Some t" by (rule dict_mem_get)
  qed
qed

lemma check_correction_Inr:
  assumes "check_correction b n = Inr ()" and "corrects_transaction_id n = Some i" and "indexes_ok b"
    and "transaction_id n \<notin> transaction_id ` set (bk_transactions b)"
  shows "\<exists>u \<in> set (bk_transactions b). transaction_id u = i \<and> economic_effective_at u = economic_effective_at n
      \<and> economic_order_key u = economic_order_key n"
    and "\<exists>r \<in> set (bk_transactions b). reverses_transaction_id r = Some i \<and> observed_at r = observed_at n"
    and "dict_get (bk_replacement b) i = None"
proof -
  from assms(1,2) obtain u r where
    u: "dict_get (bk_by_id b) i = Some u" "economic_effective_at u = economic_effective_at n"
      "economic_order_key u = economic_order_key n"
    and rep: "dict_get (bk_replacement b) i \<in> {None, Some (transaction_id n)}"
    and r: "find (\<lambda>u. reverses_transaction_id u = Some i) (bk_transactions b) = Some r" "observed_at r = observed_at n"
    by (auto simp: check_correction_def split: option.splits if_splits)
  show "\<exists>u \<in> set (bk_transactions b). transaction_id u = i \<and> economic_effective_at u = economic_effective_at n
      \<and> economic_order_key u = economic_order_key n"
    using u indexes_get(3) [OF assms(3)] by blast
  show "\<exists>r \<in> set (bk_transactions b). reverses_transaction_id r = Some i \<and> observed_at r = observed_at n"
    using r by (auto simp: find_Some_iff)
  show "dict_get (bk_replacement b) i = None"
    using rep assms(3,4) by (auto simp: indexes_ok_def)
qed

lemma negated_rmap: "rmap negated_posting ps = Inr qs \<Longrightarrow> negates qs ps"
  by (induction ps arbitrary: qs) (auto simp: negates_def negated_posting_def dest!: exact_negate_Inr)

lemma same_negates: "list_all2 same_posting ps qs \<Longrightarrow> negates qs rs \<Longrightarrow> negates ps rs"
proof (induction ps qs arbitrary: rs rule: list_all2_induct)
  case (Cons p ps q qs)
  then show ?case by (cases rs) (auto simp: negates_def same_posting_def)
qed (simp add: negates_def)

lemma check_reversal_Inr:
  assumes "check_reversal b n = Inr ()" and "reverses_transaction_id n = Some i" and "indexes_ok b"
  shows "\<exists>u \<in> set (bk_transactions b). transaction_id u = i \<and> negates (postings n) (postings u)"
    and "i \<notin> bk_reversed b"
proof -
  from assms(1,2) obtain u qs where "dict_get (bk_by_id b) i = Some u" "rmap negated_posting (postings u) = Inr qs"
    "list_all2 same_posting (postings n) qs" and *: "i \<notin> bk_reversed b"
    by (auto simp: check_reversal_def split: option.splits if_splits)
  then show "\<exists>u \<in> set (bk_transactions b). transaction_id u = i \<and> negates (postings n) (postings u)"
    using indexes_get(3) [OF assms(3)] negated_rmap same_negates by blast
  show "i \<notin> bk_reversed b" by (rule *)
qed


lemma commit_indexes:
  assumes "indexes_ok b" and "dict_get (bk_by_id b) (transaction_id n) = None"
    and "dict_get (bk_by_cause b) (cause_event_id n) = None"
  shows "indexes_ok (commit_transaction n b)"
proof -
  let ?b = "commit_transaction n b"
  have new: "transaction_id n \<notin> transaction_id ` set (bk_transactions b)"
    "cause_event_id n \<notin> cause_event_id ` set (bk_transactions b)"
    using assms indexes_get by auto
  have "bk_by_id ?b = map (\<lambda>t. (transaction_id t, t)) (bk_transactions ?b)"
    "bk_by_cause ?b = map (\<lambda>t. (cause_event_id t, t)) (bk_transactions ?b)"
    using assms by (simp_all add: commit_transaction_def dict_set_new indexes_ok_def)
  moreover have "bk_reversed ?b = {i. \<exists>t \<in> set (bk_transactions ?b). reverses_transaction_id t = Some i}"
    using assms(1) by (auto simp: commit_transaction_def indexes_ok_def split: option.splits)
  moreover have "dict_get (bk_replacement ?b) i = None \<longleftrightarrow>
      (\<forall>t \<in> set (bk_transactions ?b). corrects_transaction_id t \<noteq> Some i)" for i
    using assms(1) by (auto simp: commit_transaction_def indexes_ok_def split: option.splits)
  moreover have "dict_get (bk_replacement ?b) i = Some j \<Longrightarrow> j \<in> transaction_id ` set (bk_transactions ?b)" for i j
    using assms(1) by (auto simp: commit_transaction_def indexes_ok_def split: option.splits if_splits)
  ultimately show ?thesis using assms(1) new by (simp add: indexes_ok_def)
qed

lemma lineage_mono:
  "set ts \<subseteq> set us \<Longrightarrow> reversal_ok ts t \<and> correction_ok ts t \<Longrightarrow> reversal_ok us t \<and> correction_ok us t"
  unfolding reversal_ok_def correction_ok_def by (meson subsetD)

lemma commit_lineage:
  assumes "indexes_ok b" and "lineage_ok (bk_transactions b)"
    and "dict_get (bk_by_id b) (transaction_id n) = None"
    and "check_reversal b n = Inr ()" and "check_correction b n = Inr ()"
  shows "lineage_ok (bk_transactions (commit_transaction n b))"
proof -
  let ?ts = "bk_transactions b"
  have new: "transaction_id n \<notin> transaction_id ` set ?ts" using assms(1,3) indexes_get(1) by blast
  have rev: "reversal_ok ?ts n"
    "reverses_transaction_id n = Some i \<Longrightarrow> i \<notin> set (List.map_filter reverses_transaction_id ?ts)" for i
    using check_reversal_Inr [OF assms(4) _ assms(1)] assms(1)
    by (auto simp: set_map_filter indexes_ok_def reversal_ok_def)
  have cor: "correction_ok ?ts n"
    "corrects_transaction_id n = Some i \<Longrightarrow> i \<notin> set (List.map_filter corrects_transaction_id ?ts)" for i
    using check_correction_Inr [OF assms(5) _ assms(1) new] assms(1)
    by (auto simp: set_map_filter indexes_ok_def correction_ok_def)
  from assms(2) have old: "distinct (List.map_filter reverses_transaction_id ?ts)"
    "distinct (List.map_filter corrects_transaction_id ?ts)"
    "\<forall>t \<in> set ?ts. reversal_ok ?ts t \<and> correction_ok ?ts t" by (simp_all add: lineage_ok_def)
  have "distinct (List.map_filter reverses_transaction_id (?ts @ [n]))"
    "distinct (List.map_filter corrects_transaction_id (?ts @ [n]))"
    using old rev(2) cor(2) by (simp_all split: option.splits)
  moreover have "\<forall>t \<in> set (?ts @ [n]). reversal_ok (?ts @ [n]) t \<and> correction_ok (?ts @ [n]) t"
    using old(3) rev(1) cor(1) lineage_mono [of ?ts "?ts @ [n]"] by auto
  ultimately show ?thesis unfolding lineage_ok_def commit_fields by blast
qed

lemma append_all_Cons:
  "append_all (t # ts) b = Inr (rs, c) \<longleftrightarrow>
     (\<exists>r b' qs. book_append t b = (Inr r, b') \<and> append_all ts b' = Inr (qs, c) \<and> rs = r # qs)"
  by (auto split: prod.splits sum.splits)

lemma append_all_snoc:
  "append_all xs b = Inr (rs, c) \<Longrightarrow> book_append y c = (Inr r, c') \<Longrightarrow> append_all (xs @ [y]) b = Inr (rs @ [r], c')"
proof (induction xs arbitrary: b rs)
  case (Cons x xs)
  then show ?case unfolding append_all_Cons append.append_Cons by fastforce
qed simp

lemma book_of_commit:
  assumes "book_of (bk_transactions b) = Inr b" and "book_append n b = (Inr True, b')"
    and "bk_transactions b' = bk_transactions b @ [n]"
  shows "book_of (bk_transactions b') = Inr b'"
proof -
  from assms(1) obtain rs where "append_all (bk_transactions b) empty_economic_book = Inr (rs, b)"
    by (auto simp: book_of_def)
  from append_all_snoc [OF this assms(2)] assms(3) show ?thesis by (simp add: book_of_def)
qed

lemma book_append_ok:
  assumes "ledger_ok b" and "book_append t b = (Inr r, b')"
  shows "ledger_ok b'"
proof -
  from book_append_Inr [OF assms(2)] obtain n where n: "normal n" and
    alt: "b' = b \<or> (r \<and> b' = commit_transaction n b \<and> dict_get (bk_by_id b) (transaction_id n) = None
        \<and> dict_get (bk_by_cause b) (cause_event_id n) = None
        \<and> check_reversal b n = Inr () \<and> check_correction b n = Inr ())" by blast
  show ?thesis
    using alt
  proof
    assume c: "r \<and> b' = commit_transaction n b \<and> dict_get (bk_by_id b) (transaction_id n) = None
        \<and> dict_get (bk_by_cause b) (cause_event_id n) = None
        \<and> check_reversal b n = Inr () \<and> check_correction b n = Inr ()"
    then have ap: "book_append n b = (Inr True, b')" by (simp add: book_append_normal [OF n])
    have "book_of (bk_transactions b') = Inr b'"
      using book_of_commit [OF _ ap] assms(1) c by (simp add: ledger_ok_def)
    with c assms(1) n commit_indexes [of b n] commit_lineage [of b n] show ?thesis
      by (auto simp: ledger_ok_def)
  qed (use assms in simp)
qed

lemma ledger_ok_empty: "ledger_ok empty_economic_book"
  by (simp add: ledger_ok_def indexes_ok_def lineage_ok_def empty_economic_book_def book_of_def
      List.map_filter_def)

lemma append_all_ok: "ledger_ok b \<Longrightarrow> append_all ts b = Inr (rs, b') \<Longrightarrow> ledger_ok b'"
proof (induction ts arbitrary: b rs)
  case (Cons t ts)
  then show ?case unfolding append_all_Cons using book_append_ok by blast
qed simp

lemma append_batch_Inr:
  assumes "append_batch batch b = (Inr r, b')" and "ledger_ok b"
  shows "\<exists>rs c. append_all batch b = Inr (rs, c) \<and> batch \<noteq> []
    \<and> (if r then list_all id rs \<and> b' = c else \<not> list_ex id rs \<and> b' = b)"
  using assms by (auto simp: append_batch_def ledger_ok_def split: if_splits)

lemma append_batch_atomic: "atomic (append_batch batch)"
  by (rule atomicI) (auto simp: append_batch_def raising_raises split: if_splits prod.splits)

datatype book_call = Append journal_transaction | Append_Batch "journal_transaction list"

fun run_book :: "book_call \<Rightarrow> (economic_book, bool) operation" where
  "run_book (Append t) = book_append t"
| "run_book (Append_Batch ts) = append_batch ts"




definition extends :: "economic_book \<Rightarrow> economic_book \<Rightarrow> bool" where
  "extends b b' \<longleftrightarrow> (\<exists>ts. bk_transactions b' = bk_transactions b @ ts)"

lemma extends_refl: "extends b b"
  by (simp add: extends_def)

lemma extends_trans: "extends a b \<Longrightarrow> extends b c \<Longrightarrow> extends a c"
  by (auto simp: extends_def)

lemma book_append_extends: "book_append t b = (Inr r, b') \<Longrightarrow> extends b b'"
  by (auto simp: extends_def dest!: book_append_Inr)

lemma append_all_extends: "append_all ts b = Inr (rs, b') \<Longrightarrow> extends b b'"
proof (induction ts arbitrary: b rs)
  case (Cons t ts)
  then show ?case unfolding append_all_Cons using book_append_extends extends_trans by blast
qed (simp add: extends_refl)

lemma append_batch_ok:
  assumes "append_batch batch b = (Inr r, b')" and "ledger_ok b"
  shows "ledger_ok b'" and "extends b b'"
  using append_batch_Inr [OF assms] assms(2) append_all_ok append_all_extends extends_refl
  by (auto split: if_splits)

lemma run_book_ok: "ledger_ok b \<Longrightarrow> run_book c b = (Inr r, b') \<Longrightarrow> ledger_ok b'"
  by (cases c) (auto dest: book_append_ok append_batch_ok)

lemma run_book_extends: "ledger_ok b \<Longrightarrow> run_book c b = (Inr r, b') \<Longrightarrow> extends b b'"
  by (cases c) (auto dest: book_append_extends append_batch_ok)

lemma run_book_atomic: "atomic (run_book c)"
  by (cases c) (simp_all add: book_append_atomic append_batch_atomic)

interpretation economic: ordered_object run_book empty_economic_book ledger_ok extends
  by unfold_locales
    (assumption | rule ledger_ok_empty run_book_atomic extends_refl
      | erule extends_trans run_book_ok run_book_extends)+

lemma posted_negates: "negates ps qs \<Longrightarrow> posted a c ps = - posted a c qs"
  unfolding negates_def by (induction rule: list_all2_induct) auto

lemma posted_same: "list_all2 same_posting ps qs \<Longrightarrow> posted a c ps = posted a c qs"
  by (induction rule: list_all2_induct) (auto simp: same_posting_def)

lemma same_transaction_refl: "same_transaction t t"
  by (simp add: same_transaction_def list_all2_refl same_posting_def)

lemma balance_Inr:
  assumes "balance b account asset = Inr d"
  shows "dval d = posted (strip account) (strip asset) (book_postings b)"
proof -
  have "sum_list (map dval (map signed_amount (filter (\<lambda>p. ledger_account p = a \<and> asset_or_currency p = c) ps)))
      = posted a c ps" for a c ps
    by (induction ps) auto
  with assms show ?thesis
    by (auto simp: balance_def book_postings_def simp del: map_map dest!: ledger.total_val)
qed

lemma balanced_book:
  assumes "ledger_ok b"
  shows "asset_total a (book_postings b) = 0"
proof -
  have "\<forall>t \<in> set ts. normal t \<Longrightarrow> asset_total a (concat (map postings ts)) = 0" for ts
    by (induction ts) (auto simp: normal_balanced)
  with assms show ?thesis by (simp add: ledger_ok_def book_postings_def)
qed

lemma append_again:
  assumes "book_append t b = (Inr r, b')" and "ledger_ok b" and "extends b' c" and "ledger_ok c"
  shows "book_append t c = (Inr False, c)"
proof -
  from book_append_Inr [OF assms(1)] obtain n where n: "normalized_transaction t = Inr n" "normal n" and
    alt: "(b' = b \<and> (\<exists>e. dict_get (bk_by_id b) (transaction_id n) = Some e \<and> same_transaction e n))
      \<or> b' = commit_transaction n b" by blast
  have "\<exists>e \<in> set (bk_transactions b'). transaction_id e = transaction_id n \<and> same_transaction e n"
    using alt indexes_get(3) assms(2) same_transaction_refl by (auto simp: ledger_ok_def)
  then obtain e where e: "e \<in> set (bk_transactions b')" "transaction_id e = transaction_id n" "same_transaction e n"
    by blast
  then have "e \<in> set (bk_transactions c)" using assms(3) by (auto simp: extends_def)
  then have "dict_get (bk_by_id c) (transaction_id n) = Some e"
    using assms(4) indexes_get(3) e(2) by (auto simp: ledger_ok_def)
  with n e(3) show ?thesis by (simp add: book_append_def normal_def)
qed

lemma strip_prefixed:
  assumes "strip x = x" and "x \<noteq> []" and "pre \<noteq> []" and "\<not> is_space (hd pre)"
  shows "strip (pre @ x) = pre @ x"
  using strip_ends(2) [of x] assms by (intro strip_id) simp

lemma account_strip:
  assumes "strip x = x" and "x \<noteq> []"
  shows "strip (''CASH:'' @ x) = ''CASH:'' @ x" "strip (''POSITION:'' @ x) = ''POSITION:'' @ x"
    "strip (''CLEARING:'' @ x) = ''CLEARING:'' @ x" "strip (''FEE_EXPENSE:'' @ x) = ''FEE_EXPENSE:'' @ x"
    "strip (''EXTERNAL_EQUITY:'' @ x) = ''EXTERNAL_EQUITY:'' @ x"
    "strip (''FX_CLEARING:'' @ x) = ''FX_CLEARING:'' @ x"
  using strip_prefixed [OF assms, of "''CASH:''"] strip_prefixed [OF assms, of "''POSITION:''"]
    strip_prefixed [OF assms, of "''CLEARING:''"] strip_prefixed [OF assms, of "''FEE_EXPENSE:''"]
    strip_prefixed [OF assms, of "''EXTERNAL_EQUITY:''"] strip_prefixed [OF assms, of "''FX_CLEARING:''"]
  by (simp_all add: is_space_def)

lemma make_posting_account:
  assumes "make_posting (pre @ x) x (PyDecimal d) = Inr p" and "strip x = x" and "x \<noteq> []"
    and "pre \<noteq> []" and "\<not> is_space (hd pre)"
  shows "ledger_account p = pre @ x" "asset_or_currency p = x" "dval (signed_amount p) = dval d"
  using make_posting_Inr(1-3) [OF assms(1)] assms(2) strip_prefixed [OF assms(2-5)]
  by (auto dest!: ac_decimal_Inr)


section \<open>What the booking functions book\<close>

text \<open>The accounts, assets and values of a list of postings.\<close>

definition legs :: "posting list \<Rightarrow> (string \<times> string \<times> rat) list \<Rightarrow> bool" where
  "legs ps es \<longleftrightarrow> map (\<lambda>p. (ledger_account p, asset_or_currency p, dval (signed_amount p))) ps = es"

definition leg_sum :: "string \<Rightarrow> string \<Rightarrow> (string \<times> string \<times> rat) list \<Rightarrow> rat" where
  "leg_sum a c es = sum_list (map (\<lambda>(x, y, v). if x = a \<and> y = c then v else 0) es)"

lemma posted_legs: "legs ps es \<Longrightarrow> posted a c ps = leg_sum a c es"
  by (induction ps arbitrary: es) (auto simp: legs_def leg_sum_def)

lemma validated_Inr [simp]: "validated t = Inr u \<longleftrightarrow> u = t \<and> validate_transaction t = Inr ()"
  by (auto simp: validated_def)

lemma fee_postings_legs:
  assumes "fee_postings d fc st = Inr fs"
  shows "legs fs (if dval d = 0 then [] else
    (let u = strip (fee_unit_text fc st) in [(''CASH:'' @ u, u, - dval d), (''FEE_EXPENSE:'' @ u, u, dval d)]))"
proof (cases "dval d = 0")
  case False
  let ?u = "strip (fee_unit_text fc st)"
  from assms False obtain nf p1 p2 where ne: "?u \<noteq> []" and nf: "exact_negate False d = Inr nf" and
    ps: "make_posting (''CASH:'' @ ?u) ?u (PyDecimal nf) = Inr p1"
      "make_posting (''FEE_EXPENSE:'' @ ?u) ?u (PyDecimal d) = Inr p2" and fs: "fs = [p1, p2]"
    by (auto simp: fee_postings_def)
  from make_posting_account [OF ps(1)] make_posting_account [OF ps(2)] exact_negate_Inr [OF nf] fs ne False
  show ?thesis by (simp add: legs_def is_space_def Let_def)
qed (use assms in \<open>simp add: fee_postings_def legs_def\<close>)

definition fill_legs :: "string \<Rightarrow> string \<Rightarrow> rat \<Rightarrow> rat \<Rightarrow> rat \<Rightarrow> string \<Rightarrow> (string \<times> string \<times> rat) list" where
  "fill_legs symb st q amount fee fee_unit =
     [(''POSITION:'' @ symb, symb, q), (''CLEARING:'' @ symb, symb, - q),
      (''CASH:'' @ st, st, amount), (''CLEARING:'' @ st, st, - amount)] @
     (if fee = 0 then [] else [(''CASH:'' @ fee_unit, fee_unit, - fee), (''FEE_EXPENSE:'' @ fee_unit, fee_unit, fee)])"

lemma book_equity_fill_Inr:
  assumes "book_equity_fill tid cid ins stl side q p fee fc ev = Inr t"
  defines "s \<equiv> (if upper (strip side) = ''BUY'' then 1 else - 1 :: rat)"
  shows "legs (postings t) (fill_legs (strip ins) (strip stl) (s * pyval q) (- s * (pyval q * pyval p))
      (pyval fee) (strip (fee_unit_text fc (strip stl))))"
    and "validate_transaction t = Inr ()" and "0 < pyval q" and "0 < pyval p"
    and "strip ins \<noteq> []" and "strip stl \<noteq> []"
    and "upper (strip side) \<in> {''BUY'', ''SELL''}"
proof -
  from assms obtain qty px f sq tv tc nq nc p1 p2 p3 p4 fs tid' cid' where
    dec: "ac_decimal q = Inr qty" "ac_decimal p = Inr px" "ac_decimal fee = Inr f" and
    pos: "0 < dval qty" "0 < dval px" and
    sq: "(if upper (strip side) = ''BUY'' then Inr qty else exact_negate False qty) = Inr sq" and
    tv: "exact_product False [qty, px] = Inr tv" and
    tc: "(if upper (strip side) = ''BUY'' then exact_negate False tv else Inr tv) = Inr tc" and
    ps: "make_posting (''POSITION:'' @ strip ins) (strip ins) (PyDecimal sq) = Inr p1"
      "exact_negate False sq = Inr nq"
      "make_posting (''CLEARING:'' @ strip ins) (strip ins) (PyDecimal nq) = Inr p2"
      "make_posting (''CASH:'' @ strip stl) (strip stl) (PyDecimal tc) = Inr p3"
      "exact_negate False tc = Inr nc"
      "make_posting (''CLEARING:'' @ strip stl) (strip stl) (PyDecimal nc) = Inr p4"
      "fee_postings f fc (strip stl) = Inr fs" and
    t: "t = with_evidence ev (plain_transaction tid' cid' ([p1, p2, p3, p4] @ fs))"
      "validate_transaction t = Inr ()" and
    names: "strip ins \<noteq> []" "strip stl \<noteq> []" and
    sd: "upper (strip side) \<in> {''BUY'', ''SELL''}"
    by (auto simp: book_equity_fill_def Let_def not_le)
  note val = ac_decimal_Inr [OF dec(1)] ac_decimal_Inr [OF dec(2)] ac_decimal_Inr [OF dec(3)]
  have v: "dval sq = s * pyval q" "dval tc = - s * (pyval q * pyval p)" "dval nq = - dval sq" "dval nc = - dval tc"
    using val sq tc ledger.product_val [OF tv] ps(2,5)
    by (auto simp: s_def dest!: exact_negate_Inr split: if_splits)
  note mk = make_posting_account [OF ps(1)] make_posting_account [OF ps(3)]
    make_posting_account [OF ps(4)] make_posting_account [OF ps(6)]
  have "postings t = [p1, p2, p3, p4] @ fs" by (simp add: t(1) with_evidence_def plain_transaction_def)
  then show "legs (postings t) (fill_legs (strip ins) (strip stl) (s * pyval q) (- s * (pyval q * pyval p))
      (pyval fee) (strip (fee_unit_text fc (strip stl))))"
    using mk names v fee_postings_legs [OF ps(7)] val(3)
    by (simp add: legs_def fill_legs_def is_space_def Let_def)
  show "validate_transaction t = Inr ()" "0 < pyval q" "0 < pyval p" "strip ins \<noteq> []" "strip stl \<noteq> []"
    "upper (strip side) \<in> {''BUY'', ''SELL''}"
    using t(2) pos val names sd by auto
qed


lemma normalized_same_posting:
  assumes "normalized_posting p = Inr q"
    and "strip (ledger_account p) = ledger_account p" and "strip (asset_or_currency p) = asset_or_currency p"
  shows "same_posting q p"
proof -
  from assms(1) have "make_posting (ledger_account p) (asset_or_currency p) (PyDecimal (signed_amount p)) = Inr q"
    by (simp add: normalized_posting_def)
  from make_posting_Inr(1-3) [OF this] assms(2,3) show ?thesis
    by (auto simp: same_posting_def dest!: ac_decimal_Inr)
qed

lemma normalized_same_postings:
  assumes "normalized_transaction t = Inr n"
    and "\<And>p. p \<in> set (postings t) \<Longrightarrow>
      strip (ledger_account p) = ledger_account p \<and> strip (asset_or_currency p) = asset_or_currency p"
  shows "list_all2 same_posting (postings n) (postings t)"
proof -
  from assms(1) have "list_all2 (\<lambda>p q. normalized_posting p = Inr q) (postings t) (postings n)"
    by (auto simp: normalized_transaction_def rmap_Inr_iff)
  then have "list_all2 (\<lambda>q p. same_posting q p) (postings n) (postings t)"
    using assms(2) normalized_same_posting
    by (simp add: list_all2_conv_all_nth)
  then show ?thesis .
qed

lemma fill_legs_stripped:
  assumes "legs ps (fill_legs a b q m f u)" and "strip a = a" "a \<noteq> []" "strip b = b" "b \<noteq> []"
    and "f = 0 \<or> strip u = u \<and> u \<noteq> []" and "p \<in> set ps"
  shows "strip (ledger_account p) = ledger_account p \<and> strip (asset_or_currency p) = asset_or_currency p"
proof -
  let ?es = "fill_legs a b q m f u"
  have "(ledger_account p, asset_or_currency p, dval (signed_amount p)) \<in> set ?es"
    unfolding assms(1) [unfolded legs_def, symmetric] using assms(7) by simp
  moreover have "strip x = x \<and> strip y = y" if "(x, y, v) \<in> set ?es" for x y v
    using that assms(2-6) account_strip by (auto simp: fill_legs_def split: if_splits)
  ultimately show ?thesis by blast
qed

lemma append_True_posted:
  assumes "book_append t b = (Inr True, b')"
  shows "\<exists>n. normalized_transaction t = Inr n \<and>
    (\<forall>a c. posted a c (book_postings b') = posted a c (book_postings b) + posted a c (postings n))"
  using book_append_Inr [OF assms] by (auto simp: book_postings_def)

lemma fee_unit_named:
  "fee_postings d fc st = Inr fs \<Longrightarrow> dval d = 0 \<or> strip (fee_unit_text fc st) \<noteq> []"
  by (auto simp: fee_postings_def split: if_splits)

lemma book_equity_fill_fee_named:
  "book_equity_fill tid cid ins stl side q p fee fc ev = Inr t \<Longrightarrow>
     pyval fee = 0 \<or> strip (fee_unit_text fc (strip stl)) \<noteq> []"
  by (auto simp: book_equity_fill_def Let_def dest!: fee_unit_named ac_decimal_Inr)

lemma fill_posted:
  assumes "book_equity_fill tid cid ins stl side q p fee fc ev = Inr t" and "book_append t b = (Inr True, b')"
  defines "s \<equiv> (if upper (strip side) = ''BUY'' then 1 else - 1 :: rat)"
  shows "posted a c (book_postings b') = posted a c (book_postings b)
    + leg_sum a c (fill_legs (strip ins) (strip stl) (s * pyval q) (- s * (pyval q * pyval p))
        (pyval fee) (strip (fee_unit_text fc (strip stl))))"
proof -
  note f = book_equity_fill_Inr [OF assms(1), folded s_def]
  from append_True_posted [OF assms(2)] obtain n where n: "normalized_transaction t = Inr n"
    "posted a c (book_postings b') = posted a c (book_postings b) + posted a c (postings n)" by blast
  have "list_all2 same_posting (postings n) (postings t)"
    using normalized_same_postings [OF n(1)] fill_legs_stripped [OF f(1)] f(5,6)
      book_equity_fill_fee_named [OF assms(1)] by auto
  with posted_same n(2) posted_legs [OF f(1)] show ?thesis by metis
qed

lemma reversed_once:
  assumes "ledger_ok c" and "i \<in> bk_reversed c" and "reverses_transaction_id u = Some j" and "strip j = i"
  shows "book_append u c \<noteq> (Inr True, d)"
proof
  assume "book_append u c = (Inr True, d)"
  from book_append_Inr [OF this] obtain n where n: "normalized_transaction u = Inr n" "check_reversal c n = Inr ()"
    by auto
  have "reverses_transaction_id n = Some i"
    using n(1) assms(3,4) by (auto simp: normalized_transaction_def ac_opt_name_def)
  with check_reversal_Inr(2) [OF n(2)] assms(1,2) show False by (simp add: ledger_ok_def)
qed

section \<open>Properties\<close>

text \<open>(C17) Double entry: whatever is appended to the journal, singly or in batches, with calls that
  raise in between, the postings of every asset over all accounts add up to exactly zero.\<close>

theorem economic_book_balances:
  "asset_total asset (book_postings (after run_book empty_economic_book calls)) = 0"
  by (rule balanced_book [OF economic.inv_after])

text \<open>(C18) The journal determines the book: rebuilding a reachable book from its own transactions succeeds and gives
  the same transactions, indexes, reversals and replacements.\<close>

theorem economic_book_rebuilds:
  "book_of (bk_transactions (after run_book empty_economic_book calls)) = Inr (after run_book empty_economic_book calls)"
  using economic.inv_after [of calls] by (simp add: ledger_ok_def)

text \<open>The journal is append-only: later calls only add transactions behind those already booked.\<close>

theorem economic_book_append_only:
  "\<exists>ts. bk_transactions (after run_book empty_economic_book (xs @ ys))
    = bk_transactions (after run_book empty_economic_book xs) @ ts"
  using economic.le_after [of xs ys] by (simp add: extends_def)

text \<open>Appending is idempotent: a transaction accepted once is recognised after any further calls, its append
  then returns \<open>False\<close> and books nothing.\<close>

theorem append_is_idempotent:
  assumes "book_append t (after run_book empty_economic_book xs) = (Inr r, b)"
  shows "book_append t (after run_book b ys) = (Inr False, after run_book b ys)"
proof -
  have ok: "ledger_ok b" using book_append_ok [OF economic.inv_after assms] .
  show ?thesis
    by (rule append_again [OF assms economic.inv_after economic.le_after_from [OF ok] economic.inv_after_from [OF ok]])
qed

lemma append_all_false: "append_all ts b = Inr (rs, c) \<Longrightarrow> \<not> list_ex id rs \<Longrightarrow> c = b"
proof (induction ts arbitrary: b rs)
  case (Cons t ts)
  from Cons.prems(1) obtain r b' qs where
    a: "book_append t b = (Inr r, b')" "append_all ts b' = Inr (qs, c)" "rs = r # qs"
    unfolding append_all_Cons by blast
  with Cons.prems(2) have "\<not> r" "\<not> list_ex id qs" by (simp_all add: id_def)
  with Cons.IH [OF a(2)] book_append_Inr [OF a(1)] show ?case by blast
qed simp

text \<open>A batch is all or nothing: it raises and leaves the book as it was, or every transaction of it is
  newly booked in order, or all of them had been booked before and nothing changes.\<close>

theorem append_batch_all_or_nothing:
  assumes "append_batch batch (after run_book empty_economic_book xs) = (res, b)"
  defines "b0 \<equiv> after run_book empty_economic_book xs"
  shows "case res of
      Inl e \<Rightarrow> b = b0
    | Inr True \<Rightarrow> (\<exists>rs. append_all batch b0 = Inr (rs, b) \<and> list_all id rs)
    | Inr False \<Rightarrow> b = b0 \<and> (\<exists>rs. append_all batch b0 = Inr (rs, b0) \<and> \<not> list_ex id rs)"
proof (cases res)
  case (Inl e)
  with assms show ?thesis using atomicD [OF append_batch_atomic] by simp
next
  case (Inr r)
  have "ledger_ok b0" unfolding b0_def by (rule economic.inv_after)
  from append_batch_Inr [of batch b0 r b, OF _ this] assms(1) Inr obtain rs c where
    "append_all batch b0 = Inr (rs, c)" "if r then list_all id rs \<and> b = c else \<not> list_ex id rs \<and> b = b0"
    by (auto simp: b0_def)
  with append_all_false [of batch b0 rs c] Inr show ?thesis by (cases r) auto
qed

text \<open>A reversal takes exactly the original's postings back out of every account, and the original can never
  be reversed a second time.\<close>

theorem reversal_cancels_original:
  assumes "b = after run_book empty_economic_book xs" and "original \<in> set (bk_transactions b)"
    and "reverse_transaction original tid cid observed = Inr r" and "book_append r b = (Inr True, b')"
  shows "posted a c (book_postings b') = posted a c (book_postings b) - posted a c (postings original)
    \<and> (reverses_transaction_id u = Some (transaction_id original) \<longrightarrow>
         fst (book_append u (after run_book b' ys)) \<noteq> Inr True)"
proof -
  have ok: "ledger_ok b" using assms(1) economic.inv_after by simp
  have ok': "ledger_ok b'" by (rule book_append_ok [OF ok assms(4)])
  have "normal original" using ok assms(2) by (simp add: ledger_ok_def)
  then have oid: "strip (transaction_id original) = transaction_id original"
    by (cases original) (auto simp: normal_def normalized_transaction_def)
  from book_append_Inr [OF assms(4)] obtain n where n: "normalized_transaction r = Inr n"
    "b' = commit_transaction n b" "check_reversal b n = Inr ()" by auto
  have rv: "reverses_transaction_id n = Some (transaction_id original)"
    using n(1) assms(3) oid by (auto simp: normalized_transaction_def reverse_transaction_def ac_opt_name_def)
  from check_reversal_Inr(1) [OF n(3) rv] ok obtain v where "v \<in> set (bk_transactions b)"
    "transaction_id v = transaction_id original" "negates (postings n) (postings v)" by (auto simp: ledger_ok_def)
  moreover have "distinct (map transaction_id (bk_transactions b))" using ok by (simp add: ledger_ok_def indexes_ok_def)
  ultimately have "negates (postings n) (postings original)"
    using assms(2) by (metis distinct_map inj_onD)
  then have "posted a c (book_postings b') = posted a c (book_postings b) - posted a c (postings original)"
    using n(2) posted_negates by (simp add: book_postings_def)
  moreover have "fst (book_append u (after run_book b' ys)) \<noteq> Inr True"
    if "reverses_transaction_id u = Some (transaction_id original)"
  proof
    assume "fst (book_append u (after run_book b' ys)) = Inr True"
    then obtain d where d: "book_append u (after run_book b' ys) = (Inr True, d)"
      by (metis prod.collapse)
    have okc: "ledger_ok (after run_book b' ys)" by (rule economic.inv_after_from [OF ok'])
    have "extends b' (after run_book b' ys)" by (rule economic.le_after_from [OF ok'])
    then have "transaction_id original \<in> bk_reversed (after run_book b' ys)"
      using okc rv n(2) by (auto simp: extends_def ledger_ok_def indexes_ok_def)
    from reversed_once [OF okc this that oid] d show False by blast
  qed
  ultimately show ?thesis by blast
qed

text \<open>A booked equity fill moves the position by the signed quantity and the settlement cash by the
  opposite trade value, less the fee when it is paid in the settlement currency.\<close>

theorem equity_fill_moves_position_and_cash:
  assumes "book_equity_fill tid cid ins stl side q p fee fc ev = Inr t" and "book_append t b = (Inr True, b')"
    and "position b ins = Inr x" and "position b' ins = Inr x'" and "cash b stl = Inr y" and "cash b' stl = Inr y'"
  defines "s \<equiv> (if upper (strip side) = ''BUY'' then 1 else - 1 :: rat)"
  shows "dval x' = dval x + s * pyval q \<and> dval y' = dval y - s * (pyval q * pyval p)
      - (if strip (fee_unit_text fc (strip stl)) = strip stl then pyval fee else 0)"
proof -
  note names = book_equity_fill_Inr(5,6) [OF assms(1)]
  have bal: "dval d = posted (''POSITION:'' @ strip ins) (strip ins) (book_postings e)" if "position e ins = Inr d" for e d
    using that balance_Inr account_strip(2) [of "strip ins"] names by (auto simp: position_def)
  have bal': "dval d = posted (''CASH:'' @ strip stl) (strip stl) (book_postings e)" if "cash e stl = Inr d" for e d
    using that balance_Inr account_strip(1) [of "strip stl"] names by (auto simp: cash_def)
  note fp = fill_posted [OF assms(1,2), folded s_def]
  show ?thesis
  proof
    show "dval x' = dval x + s * pyval q"
      using bal [OF assms(3)] bal [OF assms(4)] fp by (simp add: leg_sum_def fill_legs_def)
    show "dval y' = dval y - s * (pyval q * pyval p)
        - (if strip (fee_unit_text fc (strip stl)) = strip stl then pyval fee else 0)"
      using bal' [OF assms(5)] bal' [OF assms(6)] fp by (auto simp: leg_sum_def fill_legs_def)
  qed
qed

text \<open>Witnesses: a deposit of 100 dollars, two shares bought at 10 with a fee of 1, and the reversal of the purchase.\<close>

definition deposit_tx :: journal_transaction where
  "deposit_tx = plain_transaction ''t1'' ''c1''
     [\<lparr>ledger_account = ''CASH:USD'', asset_or_currency = ''USD'', signed_amount = Decimal False 100 0\<rparr>,
      \<lparr>ledger_account = ''EXTERNAL_EQUITY:USD'', asset_or_currency = ''USD'', signed_amount = Decimal True 100 0\<rparr>]"

definition fill_tx :: journal_transaction where
  "fill_tx = plain_transaction ''t2'' ''c2''
     [\<lparr>ledger_account = ''POSITION:ACME'', asset_or_currency = ''ACME'', signed_amount = Decimal False 2 0\<rparr>,
      \<lparr>ledger_account = ''CLEARING:ACME'', asset_or_currency = ''ACME'', signed_amount = Decimal True 2 0\<rparr>,
      \<lparr>ledger_account = ''CASH:USD'', asset_or_currency = ''USD'', signed_amount = Decimal True 20 0\<rparr>,
      \<lparr>ledger_account = ''CLEARING:USD'', asset_or_currency = ''USD'', signed_amount = Decimal False 20 0\<rparr>,
      \<lparr>ledger_account = ''CASH:USD'', asset_or_currency = ''USD'', signed_amount = Decimal True 1 0\<rparr>,
      \<lparr>ledger_account = ''FEE_EXPENSE:USD'', asset_or_currency = ''USD'', signed_amount = Decimal False 1 0\<rparr>]"

definition funded_book :: economic_book where
  "funded_book = commit_transaction deposit_tx empty_economic_book"

definition invested_book :: economic_book where
  "invested_book = commit_transaction fill_tx funded_book"

lemma deposit_example: "book_external_cash_flow ''t1'' '' c1'' ''USD'' (PyInt 100) = Inr deposit_tx"
  by code_simp

lemma fill_example:
  "book_equity_fill ''t2'' ''c2'' ''ACME'' ''USD'' ''buy'' (PyInt 2) (PyInt 10) (PyInt 1) None no_evidence = Inr fill_tx"
  by code_simp

lemma append_deposit: "book_append deposit_tx empty_economic_book = (Inr True, funded_book)"
  by code_simp

lemma append_fill: "book_append fill_tx funded_book = (Inr True, invested_book)"
  by code_simp

lemma funded_reached: "after run_book empty_economic_book [Append deposit_tx] = funded_book"
  by (simp add: append_deposit)

lemma invested_reached: "after run_book empty_economic_book [Append deposit_tx, Append fill_tx] = invested_book"
  by (simp add: append_deposit append_fill)

theorem append_is_idempotent_witness:
  "book_append fill_tx (after run_book invested_book [Append deposit_tx])
     = (Inr False, after run_book invested_book [Append deposit_tx])"
  by (rule append_is_idempotent [where xs = "[Append deposit_tx]" and r = True])
    (simp only: funded_reached append_fill)

lemma batch_example: "append_batch [fill_tx] funded_book = (Inr True, invested_book)"
  by code_simp

theorem append_batch_all_or_nothing_witness:
  "\<exists>rs. append_all [fill_tx] funded_book = Inr (rs, invested_book) \<and> list_all id rs"
  using append_batch_all_or_nothing [of "[fill_tx]" "[Append deposit_tx]" "Inr True" invested_book]
  unfolding funded_reached by (simp add: batch_example)

definition undo_tx :: journal_transaction where
  "undo_tx = fill_tx\<lparr>transaction_id := ''t3'', cause_event_id := ''c3'',
     postings := map (\<lambda>p. case signed_amount p of Decimal s c e \<Rightarrow> p\<lparr>signed_amount := Decimal (\<not> s) c e\<rparr> | _ \<Rightarrow> p)
       (postings fill_tx),
     reverses_transaction_id := Some ''t2''\<rparr>"

lemma undo_example: "reverse_transaction fill_tx ''t3'' ''c3'' None = Inr undo_tx"
  by code_simp

lemma append_undo: "book_append undo_tx invested_book = (Inr True, commit_transaction undo_tx invested_book)"
  by code_simp

theorem reversal_cancels_original_witness:
  "posted ''CASH:USD'' ''USD'' (book_postings (commit_transaction undo_tx invested_book))
     = posted ''CASH:USD'' ''USD'' (book_postings invested_book) - posted ''CASH:USD'' ''USD'' (postings fill_tx)
   \<and> fst (book_append (undo_tx\<lparr>transaction_id := ''t4''\<rparr>) (after run_book (commit_transaction undo_tx invested_book) []))
     \<noteq> Inr True"
proof -
  have mem: "fill_tx \<in> set (bk_transactions invested_book)" by (simp add: invested_book_def)
  have "reverses_transaction_id (undo_tx\<lparr>transaction_id := ''t4''\<rparr>) = Some (transaction_id fill_tx)"
    by (simp add: undo_tx_def fill_tx_def plain_transaction_def)
  with reversal_cancels_original [OF invested_reached [symmetric] mem undo_example append_undo]
  show ?thesis by blast
qed

lemma position_before: "position funded_book ''ACME'' = Inr (Decimal False 0 0)"
  by code_simp

lemma position_after: "position invested_book ''ACME'' = Inr (Decimal False 2 0)"
  by code_simp

lemma cash_before: "cash funded_book ''USD'' = Inr (Decimal False 100 0)"
  by code_simp

lemma cash_after: "cash invested_book ''USD'' = Inr (Decimal False 79 0)"
  by code_simp

theorem equity_fill_moves_position_and_cash_witness:
  "dval (Decimal False 2 0) = dval (Decimal False 0 0) + 1 * pyval (PyInt 2)
   \<and> dval (Decimal False 79 0) = dval (Decimal False 100 0) - 1 * (pyval (PyInt 2) * pyval (PyInt 10)) - pyval (PyInt 1)"
proof -
  have "upper (strip ''buy'') = ''BUY''" "strip (fee_unit_text None (strip ''USD'')) = strip ''USD''" by code_simp+
  with equity_fill_moves_position_and_cash
    [OF fill_example append_fill position_before position_after cash_before cash_after]
  show ?thesis by simp
qed

end
