(* ===== verification/Equity_Projection.thy ===== *)
theory Equity_Projection
  imports Economic_Book "HOL-Library.Char_ord" "HOL-Library.List_Lexorder"
    "HOL-Library.Product_Lexorder" "HOL-Library.Multiset"
begin

text \<open>
  The FIFO position projection of \<open>mvp/autotrade_mvp/accounting.py\<close> (\<open>_canonical_equity_split_terms\<close>,
  \<open>_canonical_equity_fill_terms\<close>, \<open>project_equity_position\<close>): it reads fills and splits back out of
  the postings of a journal, orders them, and replays them over lots.  The sort key of the source is
  a tuple of the effective time, the order key and the transaction identity, compared
  lexicographically; texts compare by character codes.
\<close>

section \<open>Data\<close>

record equity_lot =
  el_quantity :: decimal
  el_unit_price :: decimal
  el_transaction_id :: string

record equity_projection =
  ep_instrument :: string
  ep_settlement_currency :: string
  ep_quantity :: decimal
  ep_open_cost_basis :: decimal
  ep_realized_pnl :: decimal
  ep_unrealized_pnl :: "decimal option"
  ep_mark_price :: "decimal option"
  ep_lots :: "equity_lot list"
  ep_policy_version :: string

datatype position_terms = Split_Terms decimal decimal decimal | Fill_Terms decimal decimal

type_synonym position_event = "journal_transaction \<times> position_terms"

section \<open>Reading terms back from postings\<close>

definition starts_with :: "string \<Rightarrow> string \<Rightarrow> bool" where
  "starts_with pre s \<longleftrightarrow> take (length pre) s = pre"

fun split_on :: "char \<Rightarrow> string \<Rightarrow> string list" where
  "split_on c [] = [[]]"
| "split_on c (x # xs) =
     (if x = c then [] # split_on c xs
      else (case split_on c xs of [] \<Rightarrow> [[x]] | y # ys \<Rightarrow> (x # y) # ys))"

definition ratio_text_ok :: "string \<Rightarrow> bool" where
  "ratio_text_ok t \<longleftrightarrow> \<not> (MAX_INTEGER_DIGITS < length t \<or> t = [] \<or> \<not> list_all is_digit t \<or> t = ''0''
     \<or> (1 < length t \<and> hd t = CHR ''0''))"

definition account_postings :: "string \<Rightarrow> string \<Rightarrow> posting list \<Rightarrow> posting list" where
  "account_postings account asset ps =
     filter (\<lambda>p. ledger_account p = account \<and> asset_or_currency p = asset) ps"

definition canonical_equity_split_terms :: "journal_transaction \<Rightarrow> string
    \<Rightarrow> (decimal \<times> decimal \<times> decimal) option result" where
  "canonical_equity_split_terms transaction instrument =
     rbind (ac_name instrument) (\<lambda>symbol.
     rbind (normalized_transaction transaction) (\<lambda>normalized.
       let pre = ''CORPORATE_ACTION_SPLIT_CLEARING:'' @ symbol @ '':'';
           split_clearing = filter (\<lambda>p. starts_with pre (ledger_account p) \<and> asset_or_currency p = symbol)
             (postings normalized)
       in
       if split_clearing = [] then Inr None
       else
         let position_postings = account_postings (''POSITION:'' @ symbol) symbol (postings normalized) in
         if length position_postings \<noteq> 1 \<or> length split_clearing \<noteq> 1 then Inl AccountingConflict
         else if length (postings normalized) \<noteq> 2 then Inl AccountingConflict
         else
           let delta = signed_amount (hd position_postings) in
           if dval delta = 0 then Inl AccountingConflict
           else rbind (exact_negate True delta) (\<lambda>nd.
             if dval (signed_amount (hd split_clearing)) \<noteq> dval nd then Inl AccountingConflict
             else
               (case split_on (CHR '':'') (drop (length pre) (ledger_account (hd split_clearing))) of
                  [num_text, den_text] \<Rightarrow>
                    if \<not> ratio_text_ok num_text \<or> \<not> ratio_text_ok den_text then Inl AccountingConflict
                    else rbind (ac_decimal (PyStr num_text)) (\<lambda>numerator.
                      rbind (ac_decimal (PyStr den_text)) (\<lambda>denominator.
                        if dval numerator = dval denominator then Inl AccountingConflict
                        else Inr (Some (delta, numerator, denominator))))
                | _ \<Rightarrow> Inl AccountingConflict))))"

definition canonical_fee_terms :: "posting list \<Rightarrow> (decimal \<times> string option) result" where
  "canonical_fee_terms ps =
     (let fee_legs = filter (\<lambda>p. starts_with ''FEE_EXPENSE:'' (ledger_account p)) ps in
      if 1 < length fee_legs then Inl AccountingConflict
      else (case fee_legs of
          [] \<Rightarrow> Inr (dzero, None)
        | fee_leg # _ \<Rightarrow>
            if ledger_account fee_leg \<noteq> ''FEE_EXPENSE:'' @ asset_or_currency fee_leg
            then Inl AccountingConflict
            else Inr (signed_amount fee_leg, Some (asset_or_currency fee_leg))))"

definition canonical_equity_fill_terms :: "journal_transaction \<Rightarrow> string \<Rightarrow> string
    \<Rightarrow> (decimal \<times> decimal) option result" where
  "canonical_equity_fill_terms transaction instrument settlement_currency =
     rbind (ac_name instrument) (\<lambda>symbol. rbind (ac_name settlement_currency) (\<lambda>settlement.
     rbind (require (symbol \<noteq> settlement) ValueError) (\<lambda>_.
     rbind (normalized_transaction transaction) (\<lambda>normalized.
       let ps = postings normalized;
           position_postings = account_postings (''POSITION:'' @ symbol) symbol ps
       in
       if position_postings = [] then Inr None
       else if length position_postings \<noteq> 1 then Inl AccountingConflict
       else
         let quantity = signed_amount (hd position_postings) in
         if dval quantity = 0 then Inl AccountingConflict
         else
           let instrument_clearing = account_postings (''CLEARING:'' @ symbol) symbol ps;
               settlement_clearing = account_postings (''CLEARING:'' @ settlement) settlement ps
           in
           rbind (require (length instrument_clearing = 1) AccountingConflict) (\<lambda>_.
           rbind (exact_negate True quantity) (\<lambda>nq.
           rbind (require (dval (signed_amount (hd instrument_clearing)) = dval nq
               \<and> length settlement_clearing = 1) AccountingConflict) (\<lambda>_.
           rbind (exact_negate True (signed_amount (hd settlement_clearing))) (\<lambda>trade_cash.
           rbind (require (\<not> (dval trade_cash = 0 \<or> (0 < dval trade_cash) = (0 < dval quantity)))
               AccountingConflict) (\<lambda>_.
           rbind (exact_ratio trade_cash quantity) (\<lambda>ratio.
           rbind (exact_absolute True ratio) (\<lambda>unit_price.
           rbind (require (0 < dval unit_price) AccountingConflict) (\<lambda>_.
           rbind (canonical_fee_terms ps) (\<lambda>(fee_amount, fee_currency).
           rbind (exact_absolute True quantity) (\<lambda>abs_quantity.
           rbind (book_equity_fill (transaction_id normalized) (cause_event_id normalized) symbol settlement
               (if 0 < dval quantity then ''BUY'' else ''SELL'') (PyDecimal abs_quantity)
               (PyDecimal unit_price) (PyDecimal fee_amount) fee_currency no_evidence) (\<lambda>expected.
             if \<not> list_all2 same_posting ps (postings expected) then Inl AccountingConflict
             else Inr (Some (quantity, unit_price))))))))))))))))) "

section \<open>Corrections and order\<close>

definition classify_position :: "string \<Rightarrow> string \<Rightarrow> journal_transaction \<Rightarrow> position_terms option result" where
  "classify_position symbol settlement t =
     rbind (canonical_equity_split_terms t symbol) (\<lambda>split_terms.
       case split_terms of
         Some (delta, n, d) \<Rightarrow> Inr (Some (Split_Terms delta n d))
       | None \<Rightarrow>
           rbind (canonical_equity_fill_terms t symbol settlement) (\<lambda>fill_terms.
             Inr (map_option (\<lambda>(q, p). Fill_Terms q p) fill_terms)))"

definition is_split :: "position_terms \<Rightarrow> bool" where
  "is_split terms = (case terms of Split_Terms _ _ _ \<Rightarrow> True | Fill_Terms _ _ \<Rightarrow> False)"

definition index_by_id :: "journal_transaction list \<Rightarrow> (string, journal_transaction) dict" where
  "index_by_id ts = foldl (\<lambda>d t. dict_set d (transaction_id t) t) [] ts"

text \<open>The reversals of position facts, and the reversed transactions that were splits.\<close>

definition correction_step :: "string \<Rightarrow> string \<Rightarrow> (string, journal_transaction) dict
    \<Rightarrow> journal_transaction list \<times> string list \<Rightarrow> journal_transaction
    \<Rightarrow> (journal_transaction list \<times> string list) result" where
  "correction_step symbol settlement by_id st t =
     (case st of (corrections, split_ids) \<Rightarrow>
       (case reverses_transaction_id t of
          None \<Rightarrow> Inr st
        | Some corrected_id \<Rightarrow>
            (case dict_get by_id corrected_id of
               None \<Rightarrow> Inl AccountingConflict
             | Some corrected \<Rightarrow>
                 rbind (classify_position symbol settlement corrected) (\<lambda>terms.
                   case terms of
                     None \<Rightarrow> Inr st
                   | Some k \<Rightarrow> Inr (corrections @ [t],
                       if is_split k then corrected_id # split_ids else split_ids)))))"

definition lineage_step :: "string \<Rightarrow> journal_transaction list \<Rightarrow> (string, journal_transaction) dict
    \<Rightarrow> string list \<Rightarrow> unit \<Rightarrow> journal_transaction \<Rightarrow> unit result" where
  "lineage_step symbol ts by_id split_ids u reversal =
     (case reverses_transaction_id reversal of
        None \<Rightarrow> Inl AssertionError
      | Some corrected_id \<Rightarrow>
          rbind (dict_lookup by_id corrected_id) (\<lambda>corrected.
            (case filter (\<lambda>t. corrects_transaction_id t = Some corrected_id) ts of
               [replacement] \<Rightarrow>
                 if economic_effective_at replacement \<noteq> economic_effective_at corrected
                   \<or> economic_order_key replacement \<noteq> economic_order_key corrected
                   \<or> observed_at replacement \<noteq> observed_at reversal
                 then Inl AccountingConflict
                 else if corrected_id \<in> set split_ids then
                   rbind (canonical_equity_split_terms replacement symbol) (\<lambda>o'.
                     require (o' \<noteq> None) AccountingConflict)
                 else Inr ()
             | _ \<Rightarrow> Inl AccountingConflict)))"

text \<open>The position events that stand: neither reversed nor reversals.\<close>

definition event_step :: "string \<Rightarrow> string \<Rightarrow> string set \<Rightarrow> position_event list \<Rightarrow> journal_transaction
    \<Rightarrow> position_event list result" where
  "event_step symbol settlement excluded evs t =
     (if transaction_id t \<in> excluded then Inr evs
      else rbind (classify_position symbol settlement t) (\<lambda>terms.
        case terms of None \<Rightarrow> Inr evs | Some k \<Rightarrow> Inr (evs @ [(t, k)])))"

definition event_key :: "position_event \<Rightarrow> int \<times> string" where
  "event_key ev =
     ((case economic_effective_at (fst ev) of Some (At us) \<Rightarrow> us | _ \<Rightarrow> 0),
      (case economic_order_key (fst ev) of Some k \<Rightarrow> k | None \<Rightarrow> []))"

definition order_step :: "(int \<times> string) set \<times> int set \<times> int set \<Rightarrow> position_event
    \<Rightarrow> ((int \<times> string) set \<times> int set \<times> int set) result" where
  "order_step st ev =
     (case st of (seen, split_times, fill_times) \<Rightarrow>
       (case (economic_effective_at (fst ev), economic_order_key (fst ev)) of
          (Some effective, Some order_key) \<Rightarrow>
            rbind (read_instant effective) (\<lambda>us.
              if (us, order_key) \<in> seen then Inl AccountingConflict
              else Inr (insert (us, order_key) seen,
                if is_split (snd ev) then insert us split_times else split_times,
                if is_split (snd ev) then fill_times else insert us fill_times))
        | _ \<Rightarrow> Inl AccountingConflict))"

definition order_events :: "position_event list \<Rightarrow> position_event list result" where
  "order_events evs =
     rbind (rfold order_step ({}, {}, {}) evs) (\<lambda>(seen, split_times, fill_times).
       if split_times \<inter> fill_times \<noteq> {} then Inl AccountingConflict
       else Inr (sort_key (\<lambda>ev. (fst (event_key ev), snd (event_key ev), transaction_id (fst ev))) evs))"

section \<open>Replay over lots\<close>

definition split_lot :: "decimal \<Rightarrow> decimal \<Rightarrow> equity_lot \<Rightarrow> equity_lot result" where
  "split_lot numerator denominator lot =
     rbind (exact_ratio_product (el_quantity lot) numerator denominator) (\<lambda>q.
     rbind (exact_ratio_product (el_unit_price lot) denominator numerator) (\<lambda>p.
       Inr (lot\<lparr>el_quantity := q, el_unit_price := p\<rparr>)))"

definition apply_split :: "decimal \<Rightarrow> decimal \<Rightarrow> decimal \<Rightarrow> equity_lot list \<Rightarrow> equity_lot list result" where
  "apply_split delta numerator denominator lots =
     rbind (exact_total True (map el_quantity lots)) (\<lambda>current_quantity.
     rbind (require (dval current_quantity \<noteq> 0) AccountingConflict) (\<lambda>_.
     rbind (exact_ratio_product current_quantity numerator denominator) (\<lambda>next_quantity.
     rbind (exact_difference True next_quantity current_quantity) (\<lambda>change.
     rbind (require (dval change = dval delta) AccountingConflict) (\<lambda>_.
       rmap (split_lot numerator denominator) lots)))))"

definition py_min_dec :: "decimal \<Rightarrow> decimal \<Rightarrow> decimal" where
  "py_min_dec a b = (if dval b < dval a then b else a)"

text \<open>One closing step against the oldest lot: the new realised profit, the lot's rest, the fill's rest.\<close>

definition close_lot :: "decimal \<Rightarrow> decimal \<Rightarrow> decimal \<Rightarrow> equity_lot \<Rightarrow> (decimal \<times> decimal \<times> decimal) result" where
  "close_lot unit_price remaining realized lot =
     rbind (exact_absolute True remaining) (\<lambda>ar. rbind (exact_absolute True (el_quantity lot)) (\<lambda>al.
       let close_quantity = py_min_dec ar al in
       if 0 < dval (el_quantity lot) then
         rbind (exact_difference True unit_price (el_unit_price lot)) (\<lambda>gain.
         rbind (exact_product True [close_quantity, gain]) (\<lambda>pnl.
         rbind (exact_addition True realized pnl) (\<lambda>realized'.
         rbind (exact_difference True (el_quantity lot) close_quantity) (\<lambda>lot_quantity'.
         rbind (exact_addition True remaining close_quantity) (\<lambda>remaining'.
           Inr (realized', lot_quantity', remaining'))))))
       else
         rbind (exact_difference True (el_unit_price lot) unit_price) (\<lambda>gain.
         rbind (exact_product True [close_quantity, gain]) (\<lambda>pnl.
         rbind (exact_addition True realized pnl) (\<lambda>realized'.
         rbind (exact_addition True (el_quantity lot) close_quantity) (\<lambda>lot_quantity'.
         rbind (exact_difference True remaining close_quantity) (\<lambda>remaining'.
           Inr (realized', lot_quantity', remaining'))))))))"

lemma close_lot_Inr:
  assumes "close_lot u r z lot = Inr (z', q', r')"
  defines "c \<equiv> min \<bar>dval r\<bar> \<bar>dval (el_quantity lot)\<bar>"
  defines "sgn_lot \<equiv> (if 0 < dval (el_quantity lot) then 1 else - 1 :: rat)"
  shows "dval z' = dval z + sgn_lot * c * (dval u - dval (el_unit_price lot))"
    and "dval q' = dval (el_quantity lot) - sgn_lot * c" and "dval r' = dval r + sgn_lot * c"
proof -
  from assms(1) obtain ar al where ab: "exact_absolute True r = Inr ar" "exact_absolute True (el_quantity lot) = Inr al"
    by (auto simp: close_lot_def)
  define m where "m = py_min_dec ar al"
  have m: "dval m = c"
    using exact_absolute_Inr [OF ab(1)] exact_absolute_Inr [OF ab(2)]
    by (simp add: m_def c_def py_min_dec_def min_def)
  have "dval z' = dval z + sgn_lot * c * (dval u - dval (el_unit_price lot))
    \<and> dval q' = dval (el_quantity lot) - sgn_lot * c \<and> dval r' = dval r + sgn_lot * c"
  proof (cases "0 < dval (el_quantity lot)")
    case True
    with assms(1) ab obtain g p where ex: "exact_difference True u (el_unit_price lot) = Inr g"
      "exact_product True [m, g] = Inr p" "exact_addition True z p = Inr z'"
      "exact_difference True (el_quantity lot) m = Inr q'" "exact_addition True r m = Inr r'"
      by (auto simp: close_lot_def m_def Let_def)
    from ledger.sub_val [OF ex(1)] ledger.product_val [OF ex(2)] ledger.add_val [OF ex(3)]
      ledger.sub_val [OF ex(4)] ledger.add_val [OF ex(5)] True m
    show ?thesis by (simp add: sgn_lot_def)
  next
    case False
    with assms(1) ab obtain g p where ex: "exact_difference True (el_unit_price lot) u = Inr g"
      "exact_product True [m, g] = Inr p" "exact_addition True z p = Inr z'"
      "exact_addition True (el_quantity lot) m = Inr q'" "exact_difference True r m = Inr r'"
      by (auto simp: close_lot_def m_def Let_def)
    have "c * (dval (el_unit_price lot) - dval u) = - (c * (dval u - dval (el_unit_price lot)))"
      by (simp add: right_diff_distrib)
    with ledger.sub_val [OF ex(1)] ledger.product_val [OF ex(2)] ledger.add_val [OF ex(3)]
      ledger.add_val [OF ex(4)] ledger.sub_val [OF ex(5)] False m
    show ?thesis by (simp add: sgn_lot_def)
  qed
  then show "dval z' = dval z + sgn_lot * c * (dval u - dval (el_unit_price lot))"
    "dval q' = dval (el_quantity lot) - sgn_lot * c" "dval r' = dval r + sgn_lot * c" by auto
qed

function close_lots :: "decimal \<Rightarrow> decimal \<Rightarrow> decimal \<Rightarrow> equity_lot list
    \<Rightarrow> (decimal \<times> decimal \<times> equity_lot list) result" where
  "close_lots unit_price remaining realized lots =
     (case lots of
        [] \<Rightarrow> Inr (remaining, realized, lots)
      | lot # rest \<Rightarrow>
          if dval remaining \<noteq> 0 \<and> (0 < dval (el_quantity lot)) \<noteq> (0 < dval remaining) then
            rbind (close_lot unit_price remaining realized lot) (\<lambda>(realized', lot_quantity', remaining').
              close_lots unit_price remaining' realized'
                (if dval lot_quantity' = 0 then rest else lot\<lparr>el_quantity := lot_quantity'\<rparr> # rest))
          else Inr (remaining, realized, lots))"
  by pat_completeness auto
termination
proof (relation "measure (\<lambda>(u, r, z, lots). if dval r = 0 then 0 else Suc (length lots))", goal_cases)
  case (2 u r z lots lot rest x z' y q' r')
  then have cl: "close_lot u r z lot = Inr (z', q', r')" by simp
  show ?case
  proof (cases "\<bar>dval r\<bar> \<le> \<bar>dval (el_quantity lot)\<bar>")
    case True
    then have "dval r' = 0"
      using close_lot_Inr(3) [OF cl] 2 by (auto simp: min_def abs_if split: if_splits)
    then show ?thesis using 2 by simp
  next
    case False
    then have "dval q' = 0"
      using close_lot_Inr(2) [OF cl] 2 by (auto simp: min_def abs_if split: if_splits)
    then show ?thesis using 2 by simp
  qed
qed simp

declare close_lots.simps [simp del]

definition apply_fill :: "string \<Rightarrow> decimal \<Rightarrow> decimal \<Rightarrow> equity_lot list \<times> decimal
    \<Rightarrow> (equity_lot list \<times> decimal) result" where
  "apply_fill tid quantity unit_price st =
     (case st of (lots, realized) \<Rightarrow>
       rbind (close_lots unit_price quantity realized lots) (\<lambda>(remaining, realized', lots').
         Inr (if dval remaining \<noteq> 0
              then lots' @ [\<lparr>el_quantity = remaining, el_unit_price = unit_price, el_transaction_id = tid\<rparr>]
              else lots', realized')))"

definition replay_step :: "equity_lot list \<times> decimal \<Rightarrow> position_event \<Rightarrow> (equity_lot list \<times> decimal) result" where
  "replay_step st ev =
     (case snd ev of
        Split_Terms delta n d \<Rightarrow> rbind (apply_split delta n d (fst st)) (\<lambda>lots. Inr (lots, snd st))
      | Fill_Terms q p \<Rightarrow> apply_fill (transaction_id (fst ev)) q p st)"

definition lot_cost :: "equity_lot \<Rightarrow> decimal result" where
  "lot_cost lot = rbind (exact_absolute True (el_quantity lot)) (\<lambda>q.
     exact_product True [q, el_unit_price lot])"

definition lot_unrealized :: "decimal \<Rightarrow> equity_lot \<Rightarrow> decimal result" where
  "lot_unrealized mark lot =
     rbind (exact_absolute True (el_quantity lot)) (\<lambda>q.
     rbind (if 0 < dval (el_quantity lot) then exact_difference True mark (el_unit_price lot)
            else exact_difference True (el_unit_price lot) mark) (\<lambda>diff.
       exact_product True [q, diff]))"

definition active_events :: "economic_book \<Rightarrow> string \<Rightarrow> string
    \<Rightarrow> (position_event list \<times> bool \<times> bool) result" where
  "active_events b symbol settlement =
     (let ts = bk_transactions b; by_id = index_by_id ts;
          excluded = set (List.map_filter reverses_transaction_id ts)
            \<union> set (map transaction_id (filter (\<lambda>t. reverses_transaction_id t \<noteq> None) ts))
      in
      rbind (rfold (correction_step symbol settlement by_id) ([], []) ts) (\<lambda>(corrections, split_ids).
      rbind (rfold (lineage_step symbol ts by_id split_ids) () corrections) (\<lambda>_.
      rbind (rfold (event_step symbol settlement excluded) [] ts) (\<lambda>evs.
        let has_correction = (corrections \<noteq> []); has_split = list_ex (\<lambda>ev. is_split (snd ev)) evs in
        rbind (if has_correction \<or> has_split then order_events evs else Inr evs) (\<lambda>evs'.
          Inr (evs', has_correction, has_split))))))"

definition project_equity_position :: "economic_book \<Rightarrow> string \<Rightarrow> string \<Rightarrow> pynum option
    \<Rightarrow> equity_projection result" where
  "project_equity_position b instrument settlement_currency mark_price =
     rbind (ac_name instrument) (\<lambda>symbol. rbind (ac_name settlement_currency) (\<lambda>settlement.
     rbind (case mark_price of None \<Rightarrow> Inr None | Some v \<Rightarrow> rbind (ac_decimal v) (\<lambda>d. Inr (Some d))) (\<lambda>mark.
     rbind (require (case mark of None \<Rightarrow> True | Some d \<Rightarrow> 0 < dval d) ValueError) (\<lambda>_.
     rbind (active_events b symbol settlement) (\<lambda>(evs, has_correction, has_split).
     rbind (rfold replay_step ([], dzero) evs) (\<lambda>(lots, realized).
     rbind (exact_total True (map el_quantity lots)) (\<lambda>quantity.
     rbind (rbind (rmap lot_cost lots) (exact_total True)) (\<lambda>open_cost_basis.
     rbind (case mark of None \<Rightarrow> Inr None
        | Some m \<Rightarrow> rbind (rbind (rmap (lot_unrealized m) lots) (exact_total True)) (\<lambda>u. Inr (Some u))) (\<lambda>unrealized.
       Inr \<lparr>ep_instrument = symbol, ep_settlement_currency = settlement, ep_quantity = quantity,
         ep_open_cost_basis = open_cost_basis, ep_realized_pnl = realized,
         ep_unrealized_pnl = unrealized, ep_mark_price = mark, ep_lots = lots,
         ep_policy_version = (if has_split then ''FIFO_GROSS_CA_SPLIT_V3''
           else if has_correction then ''FIFO_GROSS_EFFECTIVE_V2'' else ''FIFO_GROSS_V1'')\<rparr>)))))))))"


section \<open>Abstraction\<close>

definition lots_quantity :: "equity_lot list \<Rightarrow> rat" where
  "lots_quantity ls = sum_list (map (\<lambda>l. dval (el_quantity l)) ls)"

definition lots_value :: "equity_lot list \<Rightarrow> rat" where
  "lots_value ls = sum_list (map (\<lambda>l. dval (el_quantity l) * dval (el_unit_price l)) ls)"

fun terms_quantity :: "position_terms \<Rightarrow> rat" where
  "terms_quantity (Split_Terms delta n d) = dval delta"
| "terms_quantity (Fill_Terms q p) = dval q"

fun terms_cash :: "position_terms \<Rightarrow> rat" where
  "terms_cash (Split_Terms delta n d) = 0"
| "terms_cash (Fill_Terms q p) = - (dval q * dval p)"

definition events_quantity :: "position_event list \<Rightarrow> rat" where
  "events_quantity evs = sum_list (map (\<lambda>ev. terms_quantity (snd ev)) evs)"

definition events_cash :: "position_event list \<Rightarrow> rat" where
  "events_cash evs = sum_list (map (\<lambda>ev. terms_cash (snd ev)) evs)"

lemma equity_lots_simps [simp]:
  "lots_quantity [] = 0" "lots_quantity (l # ls) = dval (el_quantity l) + lots_quantity ls"
  "lots_quantity (ls @ ms) = lots_quantity ls + lots_quantity ms"
  "lots_value [] = 0" "lots_value (l # ls) = dval (el_quantity l) * dval (el_unit_price l) + lots_value ls"
  "lots_value (ls @ ms) = lots_value ls + lots_value ms"
  by (simp_all add: lots_quantity_def lots_value_def)

section \<open>The replay conserves quantity and cash\<close>

lemma close_step_value:
  assumes "close_lot u r z lot = Inr (z', q', r')"
  shows "dval z' - dval q' * dval (el_unit_price lot) =
      dval z - dval (el_quantity lot) * dval (el_unit_price lot) + (dval r' - dval r) * dval u"
    and "dval q' + dval r' = dval (el_quantity lot) + dval r"
  unfolding close_lot_Inr(1) [OF assms] close_lot_Inr(2) [OF assms] close_lot_Inr(3) [OF assms]
  by (simp_all add: ring_distribs)

lemma close_lots_value:
  "close_lots u r z lots = Inr (r', z', lots') \<Longrightarrow>
     dval z' - lots_value lots' = dval z - lots_value lots + (dval r' - dval r) * dval u
     \<and> lots_quantity lots' + dval r' = lots_quantity lots + dval r"
proof (induction u r z lots arbitrary: r' z' lots' rule: close_lots.induct)
  case (1 u r z lots)
  show ?case
  proof (cases lots)
    case Nil
    with "1.prems" show ?thesis by (subst (asm) close_lots.simps) simp
  next
    case (Cons lot rest)
    show ?thesis
    proof (cases "dval r \<noteq> 0 \<and> (0 < dval (el_quantity lot)) \<noteq> (0 < dval r)")
      case False
      with "1.prems" Cons show ?thesis by (subst (asm) close_lots.simps) auto
    next
      case True
      with "1.prems" Cons obtain z1 q1 r1 where cl: "close_lot u r z lot = Inr (z1, q1, r1)" and
        rest: "close_lots u r1 z1 (if dval q1 = 0 then rest else lot\<lparr>el_quantity := q1\<rparr> # rest) = Inr (r', z', lots')"
        by (subst (asm) close_lots.simps) auto
      let ?ls = "if dval q1 = 0 then rest else lot\<lparr>el_quantity := q1\<rparr> # rest"
      have ls: "lots_value ?ls = dval q1 * dval (el_unit_price lot) + lots_value rest"
        "lots_quantity ?ls = dval q1 + lots_quantity rest" by simp_all
      note step = close_step_value [OF cl]
      from "1.IH" [OF Cons True cl _ refl rest] have
        "dval z' - lots_value lots' = dval z1 - lots_value ?ls + (dval r' - dval r1) * dval u"
        "lots_quantity lots' + dval r' = lots_quantity ?ls + dval r1" by auto
      with ls step Cons show ?thesis by (simp add: left_diff_distrib)
    qed
  qed
qed

lemma apply_fill_value:
  assumes "apply_fill tid q u (lots, z) = Inr (lots', z')"
  shows "dval z' - lots_value lots' = dval z - lots_value lots - dval q * dval u"
    and "lots_quantity lots' = lots_quantity lots + dval q"
proof -
  from assms obtain r ls where cl: "close_lots u q z lots = Inr (r, z', ls)" and
    l: "lots' = (if dval r \<noteq> 0 then ls @ [\<lparr>el_quantity = r, el_unit_price = u, el_transaction_id = tid\<rparr>] else ls)"
    by (auto simp: apply_fill_def)
  have "lots_value lots' = lots_value ls + dval r * dval u" "lots_quantity lots' = lots_quantity ls + dval r"
    by (simp_all add: l)
  with close_lots_value [OF cl] show
    "dval z' - lots_value lots' = dval z - lots_value lots - dval q * dval u"
    "lots_quantity lots' = lots_quantity lots + dval q"
    by (simp_all add: left_diff_distrib)
qed

lemma split_lot_value:
  assumes "split_lot n d l = Inr l'"
  shows "dval (el_quantity l') * dval (el_unit_price l') = dval (el_quantity l) * dval (el_unit_price l)"
    and "dval (el_quantity l') = dval (el_quantity l) * (dval n / dval d)" and "dval d \<noteq> 0"
  using assms by (auto simp: split_lot_def dest!: exact_ratio_product_Inr)

lemma split_lots_value:
  "rmap (split_lot n d) ls = Inr ls' \<Longrightarrow>
     lots_value ls' = lots_value ls \<and> lots_quantity ls' = lots_quantity ls * (dval n / dval d)"
proof (induction ls arbitrary: ls')
  case (Cons l ls)
  then obtain m ms where m: "split_lot n d l = Inr m" "rmap (split_lot n d) ls = Inr ms" "ls' = m # ms" by auto
  from Cons.IH [OF m(2)] split_lot_value [OF m(1)] m(3) show ?case
    by (simp add: distrib_right add_divide_distrib)
qed simp

lemma apply_split_value:
  assumes "apply_split delta n d lots = Inr lots'"
  shows "lots_value lots' = lots_value lots" and "lots_quantity lots' = lots_quantity lots + dval delta"
proof -
  from assms obtain c nx ch where ex: "exact_total True (map el_quantity lots) = Inr c"
    "exact_ratio_product c n d = Inr nx" "exact_difference True nx c = Inr ch" "dval ch = dval delta"
    "rmap (split_lot n d) lots = Inr lots'"
    by (auto simp: apply_split_def)
  have c: "dval c = lots_quantity lots"
    using ledger.total_val [OF ex(1)] by (simp add: lots_quantity_def comp_def)
  from split_lots_value [OF ex(5)] exact_ratio_product_Inr [OF ex(2)] ledger.sub_val [OF ex(3)] ex(4) c
  show "lots_value lots' = lots_value lots" "lots_quantity lots' = lots_quantity lots + dval delta" by auto
qed

lemma replay_step_value:
  assumes "replay_step (lots, z) ev = Inr (lots', z')"
  shows "dval z' - lots_value lots' = dval z - lots_value lots + terms_cash (snd ev)"
    and "lots_quantity lots' = lots_quantity lots + terms_quantity (snd ev)"
  using assms apply_fill_value apply_split_value
  by (cases "snd ev"; fastforce simp: replay_step_def)+

lemma replay_value:
  "rfold replay_step (lots, z) evs = Inr (lots', z') \<Longrightarrow>
     dval z' - lots_value lots' = dval z - lots_value lots + events_cash evs
     \<and> lots_quantity lots' = lots_quantity lots + events_quantity evs"
proof (induction evs arbitrary: lots z)
  case (Cons ev evs)
  then obtain l1 z1 where s: "replay_step (lots, z) ev = Inr (l1, z1)" "rfold replay_step (l1, z1) evs = Inr (lots', z')"
    by auto
  from Cons.IH [OF s(2)] replay_step_value [OF s(1)] show ?case by (simp add: events_cash_def events_quantity_def)
qed (simp add: events_cash_def events_quantity_def)

lemma unrealized_value:
  assumes "rmap (lot_unrealized m) lots = Inr us" and "exact_total True us = Inr t"
  shows "dval t = dval m * lots_quantity lots - lots_value lots"
proof -
  have one: "dval x = dval (el_quantity l) * (dval m - dval (el_unit_price l))" if "lot_unrealized m l = Inr x" for l x
    using that
    by (auto simp: lot_unrealized_def abs_if right_diff_distrib split: if_splits
        dest!: exact_absolute_Inr ledger.sub_val ledger.product_val)
  from assms(1) have "sum_list (map dval us) = dval m * lots_quantity lots - lots_value lots"
  proof (induction lots arbitrary: us)
    case (Cons l ls)
    then show ?case by (auto simp: ring_distribs dest!: one)
  qed simp
  with ledger.total_val [OF assms(2)] show ?thesis by simp
qed


section \<open>The projection and the journal\<close>

lemma posted_account: "posted a c ps = sum_list (map (\<lambda>p. dval (signed_amount p)) (account_postings a c ps))"
  by (induction ps) (auto simp: account_postings_def)

lemma posted_single: "length (account_postings a c ps) = 1 \<Longrightarrow>
    posted a c ps = dval (signed_amount (hd (account_postings a c ps)))"
  unfolding posted_account by (cases "account_postings a c ps") auto

lemma split_terms_posted:
  assumes "canonical_equity_split_terms t s = Inr (Some (delta, n, d))" and "normalized_transaction t = Inr t" and "strip s = s"
  shows "posted (''POSITION:'' @ s) s (postings t) = dval delta"
proof -
  from assms have "length (account_postings (''POSITION:'' @ s) s (postings t)) = 1
      \<and> delta = signed_amount (hd (account_postings (''POSITION:'' @ s) s (postings t)))"
    by (auto simp: canonical_equity_split_terms_def Let_def split: if_splits list.splits)
  with posted_single show ?thesis by blast
qed

lemma fill_terms_posted:
  assumes "canonical_equity_fill_terms t s c = Inr r" and "normalized_transaction t = Inr t" and "strip s = s"
  shows "posted (''POSITION:'' @ s) s (postings t) = (case r of None \<Rightarrow> 0 | Some (q, p) \<Rightarrow> dval q)"
proof (cases "account_postings (''POSITION:'' @ s) s (postings t) = []")
  case True
  with assms have "r = None" by (auto simp: canonical_equity_fill_terms_def Let_def)
  with True show ?thesis by (simp add: posted_account)
next
  case False
  with assms obtain q p where "r = Some (q, p)"
    "length (account_postings (''POSITION:'' @ s) s (postings t)) = 1"
    "q = signed_amount (hd (account_postings (''POSITION:'' @ s) s (postings t)))"
    by (auto simp: canonical_equity_fill_terms_def Let_def split: if_splits prod.splits)
  with posted_single show ?thesis by auto
qed

lemma classify_posted:
  assumes "classify_position s c t = Inr r" and "normal t" and "strip s = s"
  shows "posted (''POSITION:'' @ s) s (postings t) = (case r of None \<Rightarrow> 0 | Some k \<Rightarrow> terms_quantity k)"
proof -
  have n: "normalized_transaction t = Inr t" using assms(2) by (simp add: normal_def)
  from assms(1) obtain sp where sp: "canonical_equity_split_terms t s = Inr sp" by (auto simp: classify_position_def)
  show ?thesis
  proof (cases sp)
    case None
    with assms(1) sp obtain f where "canonical_equity_fill_terms t s c = Inr f" "r = map_option (\<lambda>(q, p). Fill_Terms q p) f"
      by (auto simp: classify_position_def)
    with fill_terms_posted [OF _ n assms(3)] show ?thesis by (auto split: option.splits)
  next
    case (Some x)
    obtain delta a d where x: "x = (delta, a, d)" by (cases x)
    with assms(1) sp Some have "r = Some (Split_Terms delta a d)" by (simp add: classify_position_def)
    with split_terms_posted [of t s delta a d] sp Some x n assms(3) show ?thesis by simp
  qed
qed

definition kept :: "string set \<Rightarrow> journal_transaction list \<Rightarrow> journal_transaction list" where
  "kept excluded ts = filter (\<lambda>t. transaction_id t \<notin> excluded) ts"

definition posted_by :: "string \<Rightarrow> string \<Rightarrow> journal_transaction \<Rightarrow> rat" where
  "posted_by a c t = posted a c (postings t)"

lemma event_step_skip: "transaction_id t \<in> x \<Longrightarrow> event_step s c x evs t = Inr evs"
  by (simp add: event_step_def)

lemma event_step_kept: "transaction_id t \<notin> x \<Longrightarrow> event_step s c x evs t =
    rbind (classify_position s c t) (\<lambda>r. Inr (case r of None \<Rightarrow> evs | Some k \<Rightarrow> evs @ [(t, k)]))"
  by (auto simp: event_step_def intro!: rbind_cong split: option.splits)

lemma events_posted:
  assumes "rfold (event_step s c x) acc ts = Inr evs" and "\<forall>t \<in> set ts. normal t" and "strip s = s"
  shows "events_quantity evs = events_quantity acc + sum_list (map (posted_by (''POSITION:'' @ s) s) (kept x ts))"
  using assms(1,2)
proof (induction ts arbitrary: acc)
  case (Cons t ts)
  show ?case
  proof (cases "transaction_id t \<in> x")
    case True
    with Cons show ?thesis by (simp add: event_step_skip kept_def)
  next
    case False
    with Cons.prems obtain r where r: "classify_position s c t = Inr r"
      "rfold (event_step s c x) (case r of None \<Rightarrow> acc | Some k \<Rightarrow> acc @ [(t, k)]) ts = Inr evs"
      by (auto simp: event_step_kept split: option.splits)
    from Cons.IH [OF r(2)] Cons.prems(2) classify_posted [OF r(1) _ assms(3)] False show ?thesis
      by (cases r) (simp_all add: events_quantity_def kept_def posted_by_def)
  qed
qed (simp add: kept_def)

lemma order_events_perm: "order_events evs = Inr evs' \<Longrightarrow> mset evs' = mset evs"
  by (auto simp: order_events_def split: if_splits prod.splits)

lemma events_mset: "mset evs = mset evs' \<Longrightarrow> events_quantity evs = events_quantity evs'"
  unfolding events_quantity_def sum_mset_sum_list [symmetric] mset_map by simp

text \<open>Reversed transactions and their reversals cancel, unless a reversal has itself been reversed.\<close>

definition undone_reversals :: "economic_book \<Rightarrow> journal_transaction list" where
  "undone_reversals b = filter (\<lambda>t. reverses_transaction_id t \<noteq> None \<and> transaction_id t \<in> bk_reversed b) (bk_transactions b)"

definition excluded_ids :: "economic_book \<Rightarrow> string set" where
  "excluded_ids b = set (List.map_filter reverses_transaction_id (bk_transactions b))
     \<union> set (map transaction_id (filter (\<lambda>t. reverses_transaction_id t \<noteq> None) (bk_transactions b)))"

definition reversals :: "economic_book \<Rightarrow> journal_transaction set" where
  "reversals b = {t \<in> set (bk_transactions b). reverses_transaction_id t \<noteq> None}"

lemma transaction_id_inj:
  "ledger_ok b \<Longrightarrow> t \<in> set (bk_transactions b) \<Longrightarrow> u \<in> set (bk_transactions b) \<Longrightarrow>
     transaction_id t = transaction_id u \<Longrightarrow> t = u"
  by (auto simp: ledger_ok_def indexes_ok_def distinct_map dest: inj_onD)

lemma reversal_pairing:
  assumes "ledger_ok b"
  obtains orig where "\<And>t. t \<in> reversals b \<Longrightarrow> orig t \<in> set (bk_transactions b)"
    and "\<And>t. t \<in> reversals b \<Longrightarrow> reverses_transaction_id t = Some (transaction_id (orig t))"
    and "\<And>t. t \<in> reversals b \<Longrightarrow> posted_by a c (orig t) = - posted_by a c t"
    and "inj_on orig (reversals b)"
proof -
  let ?ts = "bk_transactions b"
  from assms have lin: "lineage_ok ?ts" by (simp add: ledger_ok_def)
  have "\<forall>t \<in> reversals b. \<exists>u. u \<in> set ?ts \<and> reverses_transaction_id t = Some (transaction_id u)
      \<and> negates (postings t) (postings u)"
    using lin by (fastforce simp: reversals_def lineage_ok_def reversal_ok_def)
  then obtain orig where orig: "\<forall>t \<in> reversals b. orig t \<in> set ?ts
      \<and> reverses_transaction_id t = Some (transaction_id (orig t)) \<and> negates (postings t) (postings (orig t))"
    by metis
  have "inj_on (\<lambda>t. the (reverses_transaction_id t)) (reversals b)"
    using lin by (simp add: lineage_ok_def List.map_filter_def distinct_map reversals_def comp_def)
  then have "inj_on orig (reversals b)"
    using orig by (metis (no_types, lifting) inj_on_def)
  with orig that show thesis by (metis posted_negates posted_by_def minus_minus)
qed

lemma excluded_transactions:
  assumes "ledger_ok b" and "\<And>t. t \<in> reversals b \<Longrightarrow> orig t \<in> set (bk_transactions b)"
    and "\<And>t. t \<in> reversals b \<Longrightarrow> reverses_transaction_id t = Some (transaction_id (orig t))"
  shows "{t \<in> set (bk_transactions b). transaction_id t \<in> excluded_ids b} = orig ` reversals b \<union> reversals b"
    (is "?E = _")
proof (intro equalityI subsetI)
  fix t assume t: "t \<in> ?E"
  then consider u where "u \<in> reversals b" "reverses_transaction_id u = Some (transaction_id t)"
    | u where "u \<in> reversals b" "transaction_id u = transaction_id t"
    unfolding excluded_ids_def set_map_filter reversals_def by fastforce
  then show "t \<in> orig ` reversals b \<union> reversals b"
  proof cases
    case (1 u)
    then have "orig u = t" using assms t transaction_id_inj [OF assms(1)] by auto
    with 1 show ?thesis by blast
  next
    case (2 u)
    then have "u = t" using t transaction_id_inj [OF assms(1)] by (auto simp: reversals_def)
    with 2 show ?thesis by blast
  qed
next
  fix t assume "t \<in> orig ` reversals b \<union> reversals b"
  then consider u where "u \<in> reversals b" "t = orig u" | "t \<in> reversals b" by blast
  then show "t \<in> ?E"
  proof cases
    case (1 u)
    then have "u \<in> set (bk_transactions b)" by (simp add: reversals_def)
    with 1 assms(2,3) [OF 1(1)] show ?thesis by (auto simp: excluded_ids_def set_map_filter)
  next
    case 2
    then show ?thesis by (auto simp: excluded_ids_def reversals_def)
  qed
qed

lemma undone_are_originals:
  assumes "ledger_ok b" and "\<And>t. t \<in> reversals b \<Longrightarrow> orig t \<in> set (bk_transactions b)"
    and "\<And>t. t \<in> reversals b \<Longrightarrow> reverses_transaction_id t = Some (transaction_id (orig t))"
  shows "orig ` reversals b \<inter> reversals b = set (undone_reversals b)"
proof -
  have rev: "bk_reversed b = {i. \<exists>t \<in> set (bk_transactions b). reverses_transaction_id t = Some i}"
    using assms(1) by (simp add: ledger_ok_def indexes_ok_def)
  have "\<exists>u \<in> reversals b. t = orig u" if "t \<in> reversals b" "transaction_id t \<in> bk_reversed b" for t
  proof -
    from that(2) rev obtain u where u: "u \<in> reversals b" "reverses_transaction_id u = Some (transaction_id t)"
      by (auto simp: reversals_def)
    with assms(2,3) [OF u(1)] that(1) transaction_id_inj [OF assms(1), of t "orig u"] show ?thesis
      by (auto simp: reversals_def)
  qed
  moreover have "transaction_id (orig u) \<in> bk_reversed b" if "u \<in> reversals b" for u
    using assms(3) [OF that] that rev by (auto simp: reversals_def)
  ultimately show ?thesis by (auto simp: undone_reversals_def reversals_def)
qed

lemma excluded_sum:
  assumes "ledger_ok b"
  shows "sum (posted_by a c) {t \<in> set (bk_transactions b). transaction_id t \<in> excluded_ids b}
    = - sum (posted_by a c) (set (undone_reversals b))"
proof -
  let ?R = "reversals b" and ?f = "posted_by a c"
  from reversal_pairing [OF assms, where a = a and c = c] obtain orig where
    o: "\<And>t. t \<in> ?R \<Longrightarrow> orig t \<in> set (bk_transactions b)"
      "\<And>t. t \<in> ?R \<Longrightarrow> reverses_transaction_id t = Some (transaction_id (orig t))"
      "\<And>t. t \<in> ?R \<Longrightarrow> ?f (orig t) = - ?f t" and inj: "inj_on orig ?R" by metis
  have fin: "finite ?R" by (simp add: reversals_def)
  have "sum ?f (orig ` ?R) = sum (\<lambda>t. ?f (orig t)) ?R" using inj by (simp add: sum.reindex)
  also have "\<dots> = sum (\<lambda>t. - ?f t) ?R" using o(3) by (intro sum.cong) auto
  finally have "sum ?f (orig ` ?R) + sum ?f ?R = 0" by (simp add: sum_negf)
  moreover have "sum ?f (orig ` ?R \<union> ?R) + sum ?f (orig ` ?R \<inter> ?R) = sum ?f (orig ` ?R) + sum ?f ?R"
    using fin by (intro sum.union_inter) auto
  ultimately show ?thesis
    using excluded_transactions [OF assms o(1,2)] undone_are_originals [OF assms o(1,2)] by simp
qed

lemma kept_sum:
  assumes "ledger_ok b"
  shows "sum_list (map (posted_by a c) (kept (excluded_ids b) (bk_transactions b)))
    = posted a c (book_postings b) + sum_list (map (posted_by a c) (undone_reversals b))"
proof -
  let ?ts = "bk_transactions b" and ?f = "posted_by a c"
  have d: "distinct ?ts" using assms by (simp add: ledger_ok_def indexes_ok_def distinct_map)
  have "posted a c (concat (map postings us)) = sum_list (map ?f us)" for us
    by (induction us) (simp_all add: posted_by_def)
  then have "posted a c (book_postings b) = sum ?f (set ?ts)"
    using d by (simp add: book_postings_def sum_list_distinct_conv_sum_set)
  also have "set ?ts = {t \<in> set ?ts. transaction_id t \<in> excluded_ids b} \<union> {t \<in> set ?ts. transaction_id t \<notin> excluded_ids b}"
    by auto
  also have "sum ?f \<dots> = sum ?f {t \<in> set ?ts. transaction_id t \<in> excluded_ids b}
      + sum ?f {t \<in> set ?ts. transaction_id t \<notin> excluded_ids b}"
    by (intro sum.union_disjoint) auto
  also have "\<dots> = sum_list (map ?f (kept (excluded_ids b) ?ts)) - sum_list (map ?f (undone_reversals b))"
    using excluded_sum [OF assms] d by (simp add: kept_def undone_reversals_def sum_list_distinct_conv_sum_set)
  finally show ?thesis by simp
qed

lemma active_events_posted:
  assumes "active_events b s c = Inr (evs, hc, hs)" and "ledger_ok b" and "strip s = s"
  shows "events_quantity evs = posted (''POSITION:'' @ s) s (book_postings b)
    + sum_list (map (posted_by (''POSITION:'' @ s) s) (undone_reversals b))"
proof -
  from assms(1) obtain evs0 where
    e0: "rfold (event_step s c (excluded_ids b)) [] (bk_transactions b) = Inr evs0" and
    perm: "evs = evs0 \<or> order_events evs0 = Inr evs"
    by (auto simp: active_events_def excluded_ids_def Let_def split: if_splits)
  have "events_quantity evs = events_quantity evs0"
    using perm order_events_perm events_mset by blast
  moreover have "\<forall>t \<in> set (bk_transactions b). normal t" using assms(2) by (simp add: ledger_ok_def)
  note events_posted [OF e0 this assms(3)]
  ultimately show ?thesis using kept_sum [OF assms(2)] by (simp add: events_quantity_def)
qed

lemma project_equity_position_Inr:
  assumes "project_equity_position b ins stl mk = Inr pr"
  shows "\<exists>evs hc hs. active_events b (strip ins) (strip stl) = Inr (evs, hc, hs)
    \<and> rfold replay_step ([], dzero) evs = Inr (ep_lots pr, ep_realized_pnl pr)
    \<and> dval (ep_quantity pr) = lots_quantity (ep_lots pr)
    \<and> (case mk of None \<Rightarrow> ep_unrealized_pnl pr = None
       | Some v \<Rightarrow> \<exists>u. ep_unrealized_pnl pr = Some u
           \<and> dval u = pyval v * lots_quantity (ep_lots pr) - lots_value (ep_lots pr))"
proof -
  have tot: "dval q = lots_quantity ls" if "exact_total True (map el_quantity ls) = Inr q" for q ls
    using ledger.total_val [OF that] by (simp add: lots_quantity_def comp_def)
  show ?thesis
  proof (cases mk)
    case None
    with assms show ?thesis by (auto simp: project_equity_position_def dest!: tot)
  next
    case (Some v)
    with assms show ?thesis
      by (fastforce simp: project_equity_position_def dest!: tot dest: unrealized_value ac_decimal_Inr)
  qed
qed

section \<open>Properties\<close>

text \<open>(C19) Profit and loss is conserved by the FIFO replay, whatever fills and splits the journal holds:
  realised profit minus the open cost of the remaining lots is exactly the net cash of the
  active fills, the quantity is the sum of the active events, and at a mark price realised plus
  unrealised profit is that cash plus the position at the mark.\<close>

theorem projection_pnl_identity:
  assumes "project_equity_position b ins stl (Some v) = Inr pr"
  shows "\<exists>evs hc hs u. active_events b (strip ins) (strip stl) = Inr (evs, hc, hs)
    \<and> dval (ep_quantity pr) = events_quantity evs
    \<and> dval (ep_realized_pnl pr) - lots_value (ep_lots pr) = events_cash evs
    \<and> ep_unrealized_pnl pr = Some u
    \<and> dval (ep_realized_pnl pr) + dval u = events_cash evs + pyval v * dval (ep_quantity pr)"
proof -
  from project_equity_position_Inr [OF assms] obtain evs hc hs u where
    p: "active_events b (strip ins) (strip stl) = Inr (evs, hc, hs)"
      "rfold replay_step ([], dzero) evs = Inr (ep_lots pr, ep_realized_pnl pr)"
      "dval (ep_quantity pr) = lots_quantity (ep_lots pr)" "ep_unrealized_pnl pr = Some u"
      "dval u = pyval v * lots_quantity (ep_lots pr) - lots_value (ep_lots pr)" by auto
  from replay_value [OF p(2)] p show ?thesis by (intro exI [of _ evs] exI [of _ hc] exI [of _ hs] exI [of _ u]) simp
qed

text \<open>(C20) The projection and the ledger differ exactly by reversals that were undone.  In every reachable book the
  position balance of an instrument is the projected quantity less what the reversals that were themselves reversed
  posted to the position.  So the two agree whenever no reversal has been reversed; when one has, the fill it
  reversed stands again in the ledger but stays excluded from the projection.
\<close>

theorem projection_quantity_is_position:
  assumes "b = after run_book empty_economic_book calls"
    and "project_equity_position b ins stl mk = Inr pr" and "position b ins = Inr d"
  shows "dval d = dval (ep_quantity pr)
    - sum_list (map (\<lambda>t. posted (''POSITION:'' @ strip ins) (strip ins) (postings t)) (undone_reversals b))"
proof -
  have ok: "ledger_ok b" using assms(1) economic.inv_after by simp
  from project_equity_position_Inr [OF assms(2)] obtain evs hc hs where
    p: "active_events b (strip ins) (strip stl) = Inr (evs, hc, hs)"
      "rfold replay_step ([], dzero) evs = Inr (ep_lots pr, ep_realized_pnl pr)"
      "dval (ep_quantity pr) = lots_quantity (ep_lots pr)" by blast
  have ne: "strip ins \<noteq> []" using assms(3) by (auto simp: position_def)
  have "dval d = posted (''POSITION:'' @ strip ins) (strip ins) (book_postings b)"
    using assms(3) balance_Inr account_strip(2) [of "strip ins"] ne by (auto simp: position_def)
  moreover have "dval (ep_quantity pr) = events_quantity evs" using replay_value [OF p(2)] p(3) by simp
  ultimately show ?thesis using active_events_posted [OF p(1) ok] by (simp add: posted_by_def [abs_def])
qed

text \<open>Witnesses: the purchase of two shares at 10, marked at 12.\<close>

definition marked_projection :: equity_projection where
  "marked_projection = \<lparr>ep_instrument = ''ACME'', ep_settlement_currency = ''USD'', ep_quantity = Decimal False 2 0,
     ep_open_cost_basis = Decimal False 20 0, ep_realized_pnl = dzero, ep_unrealized_pnl = Some (Decimal False 4 0),
     ep_mark_price = Some (Decimal False 12 0),
     ep_lots = [\<lparr>el_quantity = Decimal False 2 0, el_unit_price = Decimal False 10 0, el_transaction_id = ''t2''\<rparr>],
     ep_policy_version = ''FIFO_GROSS_V1''\<rparr>"

lemma projection_example: "project_equity_position invested_book ''ACME'' ''USD'' (Some (PyInt 12)) = Inr marked_projection"
  by code_simp

theorem projection_pnl_identity_witness:
  "\<exists>evs hc hs u. active_events invested_book (strip ''ACME'') (strip ''USD'') = Inr (evs, hc, hs)
    \<and> dval (ep_quantity marked_projection) = events_quantity evs
    \<and> dval (ep_realized_pnl marked_projection) - lots_value (ep_lots marked_projection) = events_cash evs
    \<and> ep_unrealized_pnl marked_projection = Some u
    \<and> dval (ep_realized_pnl marked_projection) + dval u
      = events_cash evs + pyval (PyInt 12) * dval (ep_quantity marked_projection)"
  by (rule projection_pnl_identity [OF projection_example])

text \<open>A fill, its reversal with a replacement that moves no shares, and the reversal of that reversal with such a replacement:
  the ledger holds two shares, the projection none.\<close>

definition dated :: "string \<Rightarrow> int \<Rightarrow> string option \<Rightarrow> string option \<Rightarrow> posting list \<Rightarrow> journal_transaction" where
  "dated name seen reverses corrects ps = \<lparr>transaction_id = name, cause_event_id = name, postings = ps,
     reverses_transaction_id = reverses, economic_effective_at = Some (At 1), economic_order_key = Some ''k'',
     observed_at = Some (At seen), corrects_transaction_id = corrects\<rparr>"

definition shares_for_cash :: "bool \<Rightarrow> posting list" where
  "shares_for_cash sold =
     [\<lparr>ledger_account = ''POSITION:ACME'', asset_or_currency = ''ACME'', signed_amount = Decimal sold 2 0\<rparr>,
      \<lparr>ledger_account = ''CLEARING:ACME'', asset_or_currency = ''ACME'', signed_amount = Decimal (\<not> sold) 2 0\<rparr>,
      \<lparr>ledger_account = ''CASH:USD'', asset_or_currency = ''USD'', signed_amount = Decimal (\<not> sold) 6 0\<rparr>,
      \<lparr>ledger_account = ''CLEARING:USD'', asset_or_currency = ''USD'', signed_amount = Decimal sold 6 0\<rparr>]"

definition cash_only :: "posting list" where
  "cash_only = [\<lparr>ledger_account = ''CASH:USD'', asset_or_currency = ''USD'', signed_amount = Decimal False 1 0\<rparr>,
     \<lparr>ledger_account = ''EXTERNAL_EQUITY:USD'', asset_or_currency = ''USD'', signed_amount = Decimal True 1 0\<rparr>]"

definition undone_history :: "journal_transaction list" where
  "undone_history = [dated ''f'' 1 None None (shares_for_cash False),
     dated ''r'' 2 (Some ''f'') None (shares_for_cash True), dated ''c'' 2 None (Some ''f'') cash_only,
     dated ''rr'' 3 (Some ''r'') None (shares_for_cash False), dated ''cr'' 3 None (Some ''r'') cash_only]"

definition undone_book :: economic_book where
  "undone_book = foldl (\<lambda>b t. commit_transaction t b) empty_economic_book undone_history"

lemma undone_appended: "append_batch undone_history empty_economic_book = (Inr True, undone_book)"
  by code_simp

lemma undone_runs:
  "map_option (\<lambda>p. (ep_quantity p, ep_lots p)) (case project_equity_position undone_book ''ACME'' ''USD'' None of Inl _ \<Rightarrow> None | Inr p \<Rightarrow> Some p)
     = Some (dzero, [])"
  "position undone_book ''ACME'' = Inr (Decimal False 2 0)"
  by code_simp+

theorem projection_quantity_is_position_witness:
  "\<exists>pr. project_equity_position undone_book ''ACME'' ''USD'' None = Inr pr \<and> dval (ep_quantity pr) = 0
    \<and> position undone_book ''ACME'' = Inr (Decimal False 2 0)
    \<and> sum_list (map (\<lambda>t. posted ''POSITION:ACME'' ''ACME'' (postings t)) (undone_reversals undone_book)) = - 2"
proof -
  from undone_runs(1) obtain pr where pr: "project_equity_position undone_book ''ACME'' ''USD'' None = Inr pr" "dval (ep_quantity pr) = 0"
    by (auto split: sum.splits)
  have "undone_book = after run_book empty_economic_book [Append_Batch undone_history]" by (simp add: undone_appended)
  from projection_quantity_is_position [OF this pr(1) undone_runs(2)]
  have "sum_list (map (\<lambda>t. posted (''POSITION:'' @ strip ''ACME'') (strip ''ACME'') (postings t)) (undone_reversals undone_book)) = - 2"
    using pr(2) by simp
  moreover have "strip ''ACME'' = ''ACME''" by code_simp
  ultimately show ?thesis using pr undone_runs(2) by auto
qed

end
