(* ===== verification/Order_Projection.thy ===== *)
theory Order_Projection
  imports Exact_Decimal_Text
begin

text \<open>
  \<open>mvp/autotrade_mvp/order_projection.py\<close>: the lifecycle of one order.  \<open>OrderProjection\<close> is a
  record with the source's fields; each method is an operation on it, exceptions included.  An
  order's economics live in \<open>fills\<close> (the current revision of every fill), \<open>fill_history\<close> (every
  observation, oldest first), the execution-identity index and the revision index; the other fields
  are operational.  Two fill records are equal as Python dataclasses are, Decimals by value.
\<close>

section \<open>Inputs\<close>

definition op_text :: "string \<Rightarrow> string result" where
  "op_text v = (let normalized = strip v in if normalized = [] then Inl ValueError else Inr normalized)"

definition ENVIRONMENTS :: "string list" where
  "ENVIRONMENTS = [''REPLAY'', ''SIMULATION'', ''PAPER'', ''LIVE'']"

definition op_environment :: "string \<Rightarrow> string result" where
  "op_environment v = rbind (op_text v) (\<lambda>t. let normalized = upper t in
     if normalized \<in> set ENVIRONMENTS then Inr normalized else Inl ValueError)"

definition op_decimal :: "pynum \<Rightarrow> decimal result" where
  "op_decimal v =
     (case v of
        PyBool _ \<Rightarrow> Inl TypeError | PyFloat \<Rightarrow> Inl TypeError | PyOther \<Rightarrow> Inl TypeError
      | _ \<Rightarrow> translate ExactDecimalError ValueError (parse_bounded_exact_decimal v True))"

text \<open>A positive quantity or price.\<close>

definition op_positive :: "pynum \<Rightarrow> pynum \<Rightarrow> (decimal \<times> decimal) result" where
  "op_positive quantity price =
     rbind (op_decimal quantity) (\<lambda>qty. rbind (op_decimal price) (\<lambda>px.
       if dval qty \<le> 0 \<or> dval px \<le> 0 then Inl ValueError else Inr (qty, px)))"

section \<open>Data\<close>

record fill_record =
  fill_id :: string
  provider_execution_id :: string
  fill_quantity :: decimal
  fill_price :: decimal
  fill_active :: bool
  provider_revision :: "string option"
  correction_of :: "string option"

definition same_fill :: "fill_record \<Rightarrow> fill_record \<Rightarrow> bool" where
  "same_fill a b \<longleftrightarrow> fill_id a = fill_id b \<and> provider_execution_id a = provider_execution_id b
     \<and> dval (fill_quantity a) = dval (fill_quantity b) \<and> dval (fill_price a) = dval (fill_price b)
     \<and> fill_active a = fill_active b \<and> provider_revision a = provider_revision b
     \<and> correction_of a = correction_of b"

datatype submission = SUBMIT_PENDING | SUBMIT_ACCEPTED | SUBMIT_REJECTED | SUBMIT_UNKNOWN

datatype order_state =
    OVERFILLED_AFTER_CANCEL | OVERFILLED_AFTER_EXPIRY | OVERFILLED_AFTER_REJECT
  | OVERFILLED_DURING_CANCEL | OVERFILLED_DURING_REPLACE | OVERFILLED
  | FILLED_AFTER_CANCEL | PARTIALLY_FILLED_CANCELLED | CANCELLED
  | FILLED_AFTER_EXPIRY | PARTIALLY_FILLED_EXPIRED | EXPIRED
  | FILLED_AFTER_REJECT | REJECTED | FILLED
  | PARTIALLY_FILLED_CANCEL_REQUESTED | CANCEL_REQUESTED
  | PARTIALLY_FILLED_REPLACE_REQUESTED | REPLACE_REQUESTED
  | PARTIALLY_FILLED | WORKING | UNKNOWN | SEND_STARTED | PENDING
  | OCO_VIOLATION

record order_projection =
  provider_id :: string
  account_id :: string
  environment :: string
  client_order_id :: string
  instrument :: string
  side :: string
  requested_quantity :: decimal
  oco_group_id :: "string option"
  parent_intent_id :: "string option"
  provider_order_id :: "string option"
  submission_attempt_id :: "string option"
  submission_state :: submission
  cancel_requested :: bool
  cancelled :: bool
  cancel_command_id :: "string option"
  replace_requested :: bool
  replace_command_id :: "string option"
  resolved_replace_commands :: "string list"
  expired :: bool
  rejected :: bool
  fills :: "(string, fill_record) dict"
  execution_ids :: "(string, string) dict"
  revision_records :: "(string \<times> string, fill_record) dict"
  fill_history :: "fill_record list"
  oco_violation :: bool

section \<open>Construction and submission\<close>

definition new_order :: "string \<Rightarrow> string \<Rightarrow> string \<Rightarrow> string \<Rightarrow> string \<Rightarrow> string \<Rightarrow> pynum
    \<Rightarrow> string option \<Rightarrow> string option \<Rightarrow> order_projection result" where
  "new_order provider account env client instr sd requested oco parent =
     rbind (op_text provider) (\<lambda>p. rbind (op_text account) (\<lambda>a. rbind (op_environment env) (\<lambda>e.
     rbind (op_text client) (\<lambda>c. rbind (op_text instr) (\<lambda>i. rbind (op_text sd) (\<lambda>s0.
     let normalized_side = upper s0 in
     if normalized_side \<noteq> ''BUY'' \<and> normalized_side \<noteq> ''SELL'' then Inl ValueError
     else rbind (op_decimal requested) (\<lambda>q.
     if dval q \<le> 0 then Inl ValueError
     else rbind (opt_text op_text oco) (\<lambda>g. rbind (opt_text op_text parent) (\<lambda>par.
     if par = Some c then Inl ValueError
     else Inr \<lparr>provider_id = upper p, account_id = a, environment = e, client_order_id = c,
       instrument = i, side = normalized_side, requested_quantity = q, oco_group_id = g,
       parent_intent_id = par, provider_order_id = None, submission_attempt_id = None,
       submission_state = SUBMIT_PENDING, cancel_requested = False, cancelled = False,
       cancel_command_id = None, replace_requested = False, replace_command_id = None,
       resolved_replace_commands = [], expired = False, rejected = False, fills = [],
       execution_ids = [], revision_records = [], fill_history = [], oco_violation = False\<rparr>)))))))))"

definition bind_submission_attempt :: "string \<Rightarrow> (order_projection, unit) operation" where
  "bind_submission_attempt attempt_id ord =
     raising (op_text attempt_id) (\<lambda>attempt ord.
       if submission_attempt_id ord \<noteq> None \<and> submission_attempt_id ord \<noteq> Some attempt
       then (Inl OrderProjectionConflict, ord)
       else (Inr (), ord\<lparr>submission_attempt_id := Some attempt\<rparr>)) ord"

definition mark_send_started :: "string \<Rightarrow> (order_projection, unit) operation" where
  "mark_send_started attempt_id = bind_submission_attempt attempt_id"

definition submission_status :: "string \<Rightarrow> submission result" where
  "submission_status status = rbind (op_text status) (\<lambda>t.
     let normalized = upper t;
         normalized = (if normalized = ''ACKNOWLEDGED'' then ''ACCEPTED'' else normalized)
     in if normalized = ''ACCEPTED'' then Inr SUBMIT_ACCEPTED
        else if normalized = ''REJECTED'' then Inr SUBMIT_REJECTED
        else if normalized = ''UNKNOWN'' then Inr SUBMIT_UNKNOWN
        else Inl ValueError)"

definition settle_submission :: "string option \<Rightarrow> submission \<Rightarrow> (order_projection, unit) operation" where
  "settle_submission order_id normalized ord =
     (if order_id \<noteq> None \<and> provider_order_id ord \<noteq> None \<and> provider_order_id ord \<noteq> order_id
      then (Inl OrderProjectionConflict, ord)
      else if submission_state ord \<in> {SUBMIT_ACCEPTED, SUBMIT_REJECTED}
              \<and> normalized \<noteq> submission_state ord
      then (Inl OrderProjectionConflict, ord)
      else (Inr (), ord\<lparr>
        provider_order_id := (if order_id \<noteq> None then order_id else provider_order_id ord),
        rejected := (normalized = SUBMIT_REJECTED \<or> rejected ord),
        submission_state := normalized\<rparr>))"

text \<open>The attempt is bound before the rest of the acknowledgement is examined, so an exception
  raised later leaves the binding behind.\<close>

definition acknowledge :: "string option \<Rightarrow> string \<Rightarrow> string option \<Rightarrow> (order_projection, unit) operation" where
  "acknowledge provider_order status attempt_id ord =
     (case (case attempt_id of None \<Rightarrow> (Inr (), ord) | Some a \<Rightarrow> bind_submission_attempt a ord) of
        (Inl e, ord') \<Rightarrow> (Inl e, ord')
      | (Inr _, ord') \<Rightarrow>
          raising (rbind (opt_text op_text provider_order) (\<lambda>order_id.
              rbind (submission_status status) (\<lambda>normalized. Inr (order_id, normalized))))
            (\<lambda>(order_id, normalized). settle_submission order_id normalized) ord')"

section \<open>Fills, corrections and busts\<close>

definition fill_candidate :: "string \<Rightarrow> string \<Rightarrow> pynum \<Rightarrow> pynum \<Rightarrow> string option \<Rightarrow> fill_record result" where
  "fill_candidate fill execution quantity price revision =
     rbind (op_text fill) (\<lambda>fid. rbind (op_text execution) (\<lambda>execution_id.
     rbind (op_positive quantity price) (\<lambda>(qty, px).
     rbind (opt_text op_text revision) (\<lambda>rev.
       Inr \<lparr>fill_id = fid, provider_execution_id = execution_id, fill_quantity = qty,
            fill_price = px, fill_active = True, provider_revision = rev, correction_of = None\<rparr>))))"

text \<open>A first observation of a fill: an exact historical duplicate is ignored, a reused identity is
  a conflict.\<close>

definition admit_fill :: "fill_record \<Rightarrow> (order_projection, bool) operation" where
  "admit_fill candidate ord =
     (let fid = fill_id candidate in
      if list_ex (\<lambda>item. same_fill item candidate) (fill_history ord) then (Inr False, ord)
      else if list_ex (\<lambda>item. fill_id item = fid) (fill_history ord)
        then (Inl OrderProjectionConflict, ord)
      else case dict_get (fills ord) fid of
        Some existing \<Rightarrow>
          if same_fill existing candidate then (Inr False, ord)
          else (Inl OrderProjectionConflict, ord)
      | None \<Rightarrow>
          if dict_get (execution_ids ord) (provider_execution_id candidate) \<noteq> None
            then (Inl OrderProjectionConflict, ord)
          else if (case provider_revision candidate of None \<Rightarrow> False
                   | Some r \<Rightarrow> dict_get (revision_records ord) (fid, r) \<noteq> None)
            then (Inl OrderProjectionConflict, ord)
          else (Inr True, ord\<lparr>
            revision_records := (case provider_revision candidate of None \<Rightarrow> revision_records ord
               | Some r \<Rightarrow> dict_set (revision_records ord) (fid, r) candidate),
            fills := dict_set (fills ord) fid candidate,
            execution_ids := dict_set (execution_ids ord) (provider_execution_id candidate) fid,
            fill_history := fill_history ord @ [candidate]\<rparr>))"

definition record_fill :: "string \<Rightarrow> string \<Rightarrow> pynum \<Rightarrow> pynum \<Rightarrow> string option
    \<Rightarrow> (order_projection, bool) operation" where
  "record_fill fill execution quantity price revision =
     raising (fill_candidate fill execution quantity price revision) admit_fill"

definition revision_candidate :: "(string, fill_record) dict \<Rightarrow> string \<Rightarrow> decimal \<Rightarrow> decimal \<Rightarrow> bool
    \<Rightarrow> string \<Rightarrow> string option \<Rightarrow> (string \<times> string \<times> fill_record) result" where
  "revision_candidate held fill qty px is_active revision correction_fill_id =
     rbind (op_text fill) (\<lambda>fid. rbind (dict_lookup held fid) (\<lambda>current.
     rbind (op_text revision) (\<lambda>rev.
     rbind (case correction_fill_id of None \<Rightarrow> Inr fid | Some c \<Rightarrow> op_text c) (\<lambda>observation_id.
       Inr (fid, rev, \<lparr>fill_id = observation_id,
            provider_execution_id = provider_execution_id current,
            fill_quantity = qty, fill_price = px, fill_active = is_active,
            provider_revision = Some rev, correction_of = Some fid\<rparr>)))))"

text \<open>A revision of the fill \<open>fid\<close> under the revision number \<open>number\<close>.\<close>

definition admit_revision :: "string \<Rightarrow> string \<Rightarrow> fill_record \<Rightarrow> (order_projection, bool) operation" where
  "admit_revision fid number candidate ord =
     (case dict_get (revision_records ord) (fid, number) of
        Some prior \<Rightarrow>
          if same_fill prior candidate then (Inr False, ord) else (Inl OrderProjectionConflict, ord)
      | None \<Rightarrow>
          if fill_id candidate \<noteq> fid
             \<and> list_ex (\<lambda>item. fill_id item = fill_id candidate \<and> \<not> same_fill item candidate)
                 (fill_history ord)
            then (Inl OrderProjectionConflict, ord)
          else (Inr True, ord\<lparr>
            revision_records := dict_set (revision_records ord) (fid, number) candidate,
            fills := dict_set (fills ord) fid candidate,
            fill_history := fill_history ord @ [candidate]\<rparr>))"

definition apply_revision :: "string \<Rightarrow> decimal \<Rightarrow> decimal \<Rightarrow> bool \<Rightarrow> string \<Rightarrow> string option
    \<Rightarrow> (order_projection, bool) operation" where
  "apply_revision fill qty px is_active revision correction_fill_id ord =
     raising (revision_candidate (fills ord) fill qty px is_active revision correction_fill_id)
       (\<lambda>(fid, number, candidate). admit_revision fid number candidate) ord"

definition bust_fill :: "string \<Rightarrow> string \<Rightarrow> string option \<Rightarrow> (order_projection, bool) operation" where
  "bust_fill fill revision correction_fill_id ord =
     raising (rbind (op_text fill) (\<lambda>fid. rbind (dict_lookup (fills ord) fid) (\<lambda>existing.
         Inr (fid, existing))))
       (\<lambda>(fid, existing). apply_revision fid (fill_quantity existing) (fill_price existing) False
          revision correction_fill_id) ord"

definition correct_fill :: "string \<Rightarrow> pynum \<Rightarrow> pynum \<Rightarrow> string \<Rightarrow> string option
    \<Rightarrow> (order_projection, bool) operation" where
  "correct_fill fill quantity price revision correction_fill_id ord =
     raising (rbind (op_text fill) (\<lambda>fid. rbind (dict_lookup (fills ord) fid) (\<lambda>existing.
         rbind (op_positive quantity price) (\<lambda>(qty, px). Inr (fid, existing, qty, px)))))
       (\<lambda>(fid, existing, qty, px). apply_revision fid qty px (fill_active existing)
          revision correction_fill_id) ord"

section \<open>Economics of the current fills\<close>

definition active_fills :: "order_projection \<Rightarrow> fill_record list" where
  "active_fills ord = filter fill_active (dict_values (fills ord))"

definition filled_quantity :: "order_projection \<Rightarrow> decimal result" where
  "filled_quantity ord = exact_sum (map fill_quantity (active_fills ord))"

definition historical_execution_observed :: "order_projection \<Rightarrow> bool" where
  "historical_execution_observed ord \<longleftrightarrow>
     list_ex (\<lambda>obs. fill_active obs \<and> 0 < dval (fill_quantity obs)) (fill_history ord)"

definition average_fill_price :: "order_projection \<Rightarrow> decimal option result" where
  "average_fill_price ord =
     (let held = active_fills ord in
      rbind (exact_sum (map fill_quantity held)) (\<lambda>total.
      if dval total = 0 then Inr None
      else rbind (rmap (\<lambda>f. exact_multiply [fill_quantity f, fill_price f]) held) (\<lambda>products.
        rbind (exact_sum products) (\<lambda>notional.
        rbind (as_fraction notional) (\<lambda>n. rbind (as_fraction total) (\<lambda>t.
        let average = n / t in
        rbind (case terminating_decimal average of
                 Inl ExactDecimalError \<Rightarrow>
                   round_fraction_to_quantum average (Decimal False 1 (-18)) HALF_EVEN
               | r \<Rightarrow> r) (\<lambda>d. Inr (Some d))))))))"

definition open_quantity :: "order_projection \<Rightarrow> decimal result" where
  "open_quantity ord = rbind (filled_quantity ord) (\<lambda>filled.
     rbind (exact_subtract (requested_quantity ord) filled) (\<lambda>remaining.
       Inr (if 0 < dval remaining then remaining else dzero)))"

section \<open>Cancel, replace and expiry\<close>

definition request_cancel :: "string \<Rightarrow> (order_projection, unit) operation" where
  "request_cancel command_id =
     raising (op_text command_id) (\<lambda>command ord.
       case cancel_command_id ord of
         Some c \<Rightarrow> if c = command then (Inr (), ord) else (Inl OrderProjectionConflict, ord)
       | None \<Rightarrow>
           if replace_requested ord then (Inl OrderProjectionConflict, ord)
           else if rejected ord \<or> expired ord then (Inl OrderProjectionConflict, ord)
           else (Inr (), ord\<lparr>cancel_command_id := Some command,
                  cancel_requested := (if \<not> cancelled ord then True else cancel_requested ord)\<rparr>))"

definition reject_cancel :: "string \<Rightarrow> string \<Rightarrow> (order_projection, unit) operation" where
  "reject_cancel command_id reason_code =
     raising (op_text command_id) (\<lambda>command. raising (op_text reason_code) (\<lambda>_ ord.
       if cancelled ord then (Inl OrderProjectionConflict, ord)
       else if \<not> cancel_requested ord \<or> cancel_command_id ord = None
         then (Inl OrderProjectionConflict, ord)
       else if cancel_command_id ord \<noteq> Some command then (Inl OrderProjectionConflict, ord)
       else (Inr (), ord\<lparr>cancel_requested := False, cancel_command_id := None\<rparr>)))"

definition request_replace :: "string \<Rightarrow> (order_projection, unit) operation" where
  "request_replace command_id =
     raising (op_text command_id) (\<lambda>command ord.
       if command \<in> set (resolved_replace_commands ord) then (Inl OrderProjectionConflict, ord)
       else case replace_command_id ord of
         Some c \<Rightarrow> if c = command then (Inr (), ord) else (Inl OrderProjectionConflict, ord)
       | None \<Rightarrow>
           if cancel_requested ord then (Inl OrderProjectionConflict, ord)
           else if rejected ord \<or> cancelled ord \<or> expired ord
             then (Inl OrderProjectionConflict, ord)
           else raising (filled_quantity ord) (\<lambda>filled ord.
             if dval (requested_quantity ord) \<le> dval filled
               then (Inl OrderProjectionConflict, ord)
             else (Inr (), ord\<lparr>replace_command_id := Some command,
                     replace_requested := True\<rparr>)) ord)"

definition reject_replace :: "string \<Rightarrow> string \<Rightarrow> (order_projection, unit) operation" where
  "reject_replace command_id reason_code =
     raising (op_text command_id) (\<lambda>command. raising (op_text reason_code) (\<lambda>_ ord.
       if \<not> replace_requested ord \<or> replace_command_id ord = None
         then (Inl OrderProjectionConflict, ord)
       else if replace_command_id ord \<noteq> Some command then (Inl OrderProjectionConflict, ord)
       else (Inr (), ord\<lparr>
         resolved_replace_commands := List.insert command (resolved_replace_commands ord),
         replace_requested := False, replace_command_id := None\<rparr>)))"

definition confirm_expired :: "(order_projection, unit) operation" where
  "confirm_expired ord =
     (if rejected ord \<or> cancelled ord then (Inl OrderProjectionConflict, ord)
      else if cancel_requested ord \<or> replace_requested ord then (Inl OrderProjectionConflict, ord)
      else (Inr (), ord\<lparr>expired := True\<rparr>))"

definition confirm_cancel :: "(order_projection, unit) operation" where
  "confirm_cancel ord =
     (if rejected ord \<or> expired ord then (Inl OrderProjectionConflict, ord)
      else if replace_requested ord then (Inl OrderProjectionConflict, ord)
      else (Inr (), ord\<lparr>cancel_requested := True, cancelled := True\<rparr>))"

definition mark_oco_peer_filled :: "(order_projection, unit) operation" where
  "mark_oco_peer_filled ord =
     (if oco_group_id ord = None then (Inl ValueError, ord)
      else raising (filled_quantity ord) (\<lambda>filled ord.
        (Inr (), if 0 < dval filled then ord\<lparr>oco_violation := True\<rparr> else ord)) ord)"

section \<open>State and snapshot\<close>

definition state_without_oco :: "order_projection \<Rightarrow> order_state result" where
  "state_without_oco ord = rbind (filled_quantity ord) (\<lambda>f.
     let filled = dval f; requested = dval (requested_quantity ord) in
     Inr (if requested < filled then
            (if cancelled ord then OVERFILLED_AFTER_CANCEL
             else if expired ord then OVERFILLED_AFTER_EXPIRY
             else if rejected ord then OVERFILLED_AFTER_REJECT
             else if cancel_requested ord then OVERFILLED_DURING_CANCEL
             else if replace_requested ord then OVERFILLED_DURING_REPLACE
             else OVERFILLED)
          else if cancelled ord then
            (if filled = requested then FILLED_AFTER_CANCEL
             else if 0 < filled then PARTIALLY_FILLED_CANCELLED else CANCELLED)
          else if expired ord then
            (if filled = requested then FILLED_AFTER_EXPIRY
             else if 0 < filled then PARTIALLY_FILLED_EXPIRED else EXPIRED)
          else if rejected ord then
            (if 0 < filled then FILLED_AFTER_REJECT else REJECTED)
          else if filled = requested then FILLED
          else if cancel_requested ord then
            (if 0 < filled then PARTIALLY_FILLED_CANCEL_REQUESTED else CANCEL_REQUESTED)
          else if replace_requested ord then
            (if 0 < filled then PARTIALLY_FILLED_REPLACE_REQUESTED else REPLACE_REQUESTED)
          else if 0 < filled then PARTIALLY_FILLED
          else if submission_state ord = SUBMIT_ACCEPTED then WORKING
          else if submission_state ord = SUBMIT_UNKNOWN then UNKNOWN
          else if submission_attempt_id ord \<noteq> None then SEND_STARTED
          else PENDING))"

definition order_status :: "order_projection \<Rightarrow> order_state result" where
  "order_status ord = (if oco_violation ord then Inr OCO_VIOLATION else state_without_oco ord)"

record order_snapshot =
  snap_provider_id :: string
  snap_account_id :: string
  snap_environment :: string
  snap_client_order_id :: string
  snap_instrument :: string
  snap_side :: string
  snap_requested_quantity :: decimal
  snap_state :: order_state
  snap_filled_quantity :: decimal
  snap_open_quantity :: decimal
  snap_overfill_quantity :: decimal
  snap_average_fill_price :: "decimal option"
  snap_provider_order_id :: "string option"
  snap_submission_attempt_id :: "string option"
  snap_parent_intent_id :: "string option"
  snap_oco_group_id :: "string option"
  snap_oco_violation :: bool
  snap_fill_count :: nat
  snap_observation_count :: nat
  snap_cancel_requested :: bool
  snap_cancel_confirmed :: bool
  snap_cancel_command_id :: "string option"
  snap_replace_requested :: bool
  snap_replace_command_id :: "string option"
  snap_expired :: bool

definition snapshot_order :: "bool option \<Rightarrow> order_projection \<Rightarrow> order_snapshot result" where
  "snapshot_order forced ord =
     (let violation = (case forced of None \<Rightarrow> oco_violation ord | Some b \<Rightarrow> b) in
      rbind (if violation then Inr OCO_VIOLATION else state_without_oco ord) (\<lambda>st.
      rbind (filled_quantity ord) (\<lambda>filled.
      rbind (open_quantity ord) (\<lambda>remaining.
      rbind (exact_subtract filled (requested_quantity ord)) (\<lambda>over.
      rbind (average_fill_price ord) (\<lambda>avg.
        Inr \<lparr>snap_provider_id = provider_id ord, snap_account_id = account_id ord,
             snap_environment = environment ord, snap_client_order_id = client_order_id ord,
             snap_instrument = instrument ord, snap_side = side ord,
             snap_requested_quantity = requested_quantity ord, snap_state = st,
             snap_filled_quantity = filled, snap_open_quantity = remaining,
             snap_overfill_quantity = (if dval over < 0 then dzero else over),
             snap_average_fill_price = avg, snap_provider_order_id = provider_order_id ord,
             snap_submission_attempt_id = submission_attempt_id ord,
             snap_parent_intent_id = parent_intent_id ord, snap_oco_group_id = oco_group_id ord,
             snap_oco_violation = violation, snap_fill_count = length (active_fills ord),
             snap_observation_count = length (fill_history ord),
             snap_cancel_requested = cancel_requested ord, snap_cancel_confirmed = cancelled ord,
             snap_cancel_command_id = cancel_command_id ord,
             snap_replace_requested = replace_requested ord,
             snap_replace_command_id = replace_command_id ord, snap_expired = expired ord\<rparr>))))))"

section \<open>Specification: the observation log\<close>

text \<open>
  The fill a log entry is about, and the three indexes a log determines: the last observation of
  each fill, the fill of each execution identity and the observation of each provider revision.
\<close>

definition owner :: "fill_record \<Rightarrow> string" where
  "owner h = (case correction_of h of None \<Rightarrow> fill_id h | Some p \<Rightarrow> p)"

definition current_of :: "fill_record list \<Rightarrow> (string, fill_record) dict" where
  "current_of hs = foldl (\<lambda>d h. dict_set d (owner h) h) [] hs"

definition executions_of :: "fill_record list \<Rightarrow> (string, string) dict" where
  "executions_of hs = foldl (\<lambda>d h. dict_set d (provider_execution_id h) (owner h)) [] hs"

definition revisions_of :: "fill_record list \<Rightarrow> (string \<times> string, fill_record) dict" where
  "revisions_of hs = foldl (\<lambda>d h. case provider_revision h of None \<Rightarrow> d
     | Some r \<Rightarrow> dict_set d (owner h, r) h) [] hs"

definition economic_fill :: "fill_record \<Rightarrow> bool" where
  "economic_fill h \<longleftrightarrow> 0 < dval (fill_quantity h) \<and> 0 < dval (fill_price h)
     \<and> in_envelope (fill_quantity h) \<and> in_envelope (fill_price h)"

text \<open>
  An admissible log: an original observation brings a new fill identity and a new execution
  identity; a revision is about a fill already in the log, keeps its execution identity, has a
  revision number the fill has not used, and does not reactivate a busted fill.
\<close>

inductive order_log :: "fill_record list \<Rightarrow> bool" where
  empty: "order_log []"
| original: "order_log hs \<Longrightarrow> correction_of h = None \<Longrightarrow> fill_active h \<Longrightarrow> economic_fill h
    \<Longrightarrow> fill_id h \<notin> fill_id ` set hs
    \<Longrightarrow> provider_execution_id h \<notin> provider_execution_id ` set hs \<Longrightarrow> order_log (hs @ [h])"
| revision: "order_log hs \<Longrightarrow> dict_get (current_of hs) p = Some g \<Longrightarrow> correction_of h = Some p
    \<Longrightarrow> provider_execution_id h = provider_execution_id g \<Longrightarrow> provider_revision h = Some r
    \<Longrightarrow> dict_get (revisions_of hs) (p, r) = None \<Longrightarrow> (fill_active h \<longrightarrow> fill_active g)
    \<Longrightarrow> economic_fill h \<Longrightarrow> order_log (hs @ [h])"

lemma owner_simps [simp]:
  "correction_of h = None \<Longrightarrow> owner h = fill_id h" "correction_of h = Some p \<Longrightarrow> owner h = p"
  by (simp_all add: owner_def)

lemma replay_snoc [simp]:
  "current_of (hs @ [h]) = dict_set (current_of hs) (owner h) h"
  "executions_of (hs @ [h]) = dict_set (executions_of hs) (provider_execution_id h) (owner h)"
  "revisions_of (hs @ [h]) = (case provider_revision h of None \<Rightarrow> revisions_of hs
     | Some r \<Rightarrow> dict_set (revisions_of hs) (owner h, r) h)"
  "current_of [] = []" "executions_of [] = []" "revisions_of [] = []"
  by (simp_all add: current_of_def executions_of_def revisions_of_def split: option.splits)

lemma replay_dict_ok [simp]: "dict_ok (current_of hs)" "dict_ok (executions_of hs)"
  by (induction hs rule: rev_induct) simp_all

lemma current_of_mem:
  "dict_get (current_of hs) p = Some g \<Longrightarrow> g \<in> set hs \<and> owner g = p"
  by (induction hs rule: rev_induct) (auto split: if_splits)

lemma current_of_dom: "h \<in> set hs \<Longrightarrow> \<exists>g. dict_get (current_of hs) (owner h) = Some g"
  by (induction hs rule: rev_induct) auto

lemma revisions_of_mem:
  "dict_get (revisions_of hs) (p, r) = Some g \<Longrightarrow> g \<in> set hs \<and> owner g = p \<and> provider_revision g = Some r"
  by (induction hs rule: rev_induct) (auto split: if_splits option.splits)

lemma executions_of_mem:
  "dict_get (executions_of hs) e = Some p \<Longrightarrow> \<exists>g \<in> set hs. provider_execution_id g = e \<and> owner g = p"
  by (induction hs rule: rev_induct) (auto split: if_splits)

lemma executions_of_dom: "dict_get (executions_of hs) e = None \<longleftrightarrow> e \<notin> provider_execution_id ` set hs"
  by (induction hs rule: rev_induct) auto

lemma log_economic: "order_log hs \<Longrightarrow> h \<in> set hs \<Longrightarrow> economic_fill h"
  by (induction rule: order_log.induct) auto

text \<open>Fill and execution identities determine each other over the whole history.\<close>

lemma log_owner_fill_id: "order_log hs \<Longrightarrow> h \<in> set hs \<Longrightarrow> owner h \<in> fill_id ` set hs"
proof (induction arbitrary: h rule: order_log.induct)
  case (original hs h')
  then show ?case by (auto simp: owner_def)
next
  case (revision hs p g h')
  have "owner g \<in> fill_id ` set hs" using current_of_mem [OF revision.hyps(2)] revision.IH by blast
  with revision show ?case
    using current_of_mem [OF revision.hyps(2)] by (auto simp: owner_def)
qed simp

lemma log_identities:
  "order_log hs \<Longrightarrow> h \<in> set hs \<Longrightarrow> h' \<in> set hs \<Longrightarrow>
     owner h = owner h' \<longleftrightarrow> provider_execution_id h = provider_execution_id h'"
proof (induction arbitrary: h h' rule: order_log.induct)
  case (original hs n)
  have "owner n = fill_id n" using original by (simp add: owner_def)
  then have new: "owner k \<noteq> owner n \<and> provider_execution_id k \<noteq> provider_execution_id n"
    if "k \<in> set hs" for k
    using original.hyps log_owner_fill_id [OF original.hyps(1) that] that by (metis image_eqI)
  then show ?case using original.prems original.IH by (cases "h = n"; cases "h' = n") (auto dest: new)
next
  case (revision hs p g n)
  have g: "g \<in> set hs" "owner g = p" using current_of_mem [OF revision.hyps(2)] by auto
  have n: "owner n = p" using revision by (simp add: owner_def)
  have "owner k = owner n \<longleftrightarrow> provider_execution_id k = provider_execution_id n" if "k \<in> set hs" for k
    using revision.IH [OF that g(1)] g n revision.hyps(4) by simp
  then show ?case
    using revision.prems revision.IH by (cases "h = n"; cases "h' = n") (simp_all, metis)
qed simp

lemma log_current_execution:
  assumes "order_log hs" and "h \<in> set hs"
  obtains g where "dict_get (current_of hs) (owner h) = Some g"
    and "provider_execution_id g = provider_execution_id h"
  using current_of_dom [OF assms(2)] current_of_mem log_identities [OF assms(1) assms(2)] by metis


section \<open>Calls\<close>

datatype order_call =
    Send_Started string
  | Acknowledge "string option" string "string option"
  | Record_Fill string string pynum pynum "string option"
  | Bust_Fill string string "string option"
  | Correct_Fill string pynum pynum string "string option"
  | Request_Cancel string
  | Reject_Cancel string string
  | Request_Replace string
  | Reject_Replace string string
  | Confirm_Expired
  | Confirm_Cancel
  | Mark_Oco_Peer_Filled

text \<open>The fill methods answer whether the observation was new; the others answer \<open>None\<close>.\<close>

fun run_order :: "order_call \<Rightarrow> (order_projection, bool option) operation" where
  "run_order (Send_Started a) = gives (\<lambda>_. None) (mark_send_started a)"
| "run_order (Acknowledge i s a) = gives (\<lambda>_. None) (acknowledge i s a)"
| "run_order (Record_Fill f e q p r) = gives Some (record_fill f e q p r)"
| "run_order (Bust_Fill f r c) = gives Some (bust_fill f r c)"
| "run_order (Correct_Fill f q p r c) = gives Some (correct_fill f q p r c)"
| "run_order (Request_Cancel c) = gives (\<lambda>_. None) (request_cancel c)"
| "run_order (Reject_Cancel c r) = gives (\<lambda>_. None) (reject_cancel c r)"
| "run_order (Request_Replace c) = gives (\<lambda>_. None) (request_replace c)"
| "run_order (Reject_Replace c r) = gives (\<lambda>_. None) (reject_replace c r)"
| "run_order Confirm_Expired = gives (\<lambda>_. None) confirm_expired"
| "run_order Confirm_Cancel = gives (\<lambda>_. None) confirm_cancel"
| "run_order Mark_Oco_Peer_Filled = gives (\<lambda>_. None) mark_oco_peer_filled"

lemmas operational_defs =
  mark_send_started_def bind_submission_attempt_def acknowledge_def settle_submission_def request_cancel_def
  reject_cancel_def request_replace_def reject_replace_def confirm_expired_def confirm_cancel_def
  mark_oco_peer_filled_def

fun is_fill_call :: "order_call \<Rightarrow> bool" where
  "is_fill_call (Record_Fill _ _ _ _ _) = True"
| "is_fill_call (Bust_Fill _ _ _) = True"
| "is_fill_call (Correct_Fill _ _ _ _ _) = True"
| "is_fill_call _ = False"

definition order_identity :: "order_projection \<Rightarrow> string \<times> string \<times> string \<times> string \<times> string \<times> string
    \<times> decimal \<times> string option \<times> string option" where
  "order_identity ord = (provider_id ord, account_id ord, environment ord, client_order_id ord,
     instrument ord, side ord, requested_quantity ord, oco_group_id ord, parent_intent_id ord)"

definition indexes :: "order_projection \<Rightarrow> (string, fill_record) dict \<times> (string, string) dict
    \<times> (string \<times> string, fill_record) dict" where
  "indexes ord = (fills ord, execution_ids ord, revision_records ord)"

definition replayed :: "fill_record list \<Rightarrow> (string, fill_record) dict \<times> (string, string) dict
    \<times> (string \<times> string, fill_record) dict" where
  "replayed hs = (current_of hs, executions_of hs, revisions_of hs)"

definition flags_ok :: "order_projection \<Rightarrow> bool" where
  "flags_ok ord \<longleftrightarrow>
     \<not> (cancel_requested ord \<and> replace_requested ord)
     \<and> (replace_requested ord \<longleftrightarrow> replace_command_id ord \<noteq> None)
     \<and> (cancel_requested ord \<longleftrightarrow> cancelled ord \<or> cancel_command_id ord \<noteq> None)
     \<and> (expired ord \<longrightarrow> \<not> cancel_requested ord \<and> \<not> replace_requested ord)
     \<and> (rejected ord \<longleftrightarrow> submission_state ord = SUBMIT_REJECTED)
     \<and> (\<forall>c. replace_command_id ord = Some c \<longrightarrow> c \<notin> set (resolved_replace_commands ord))
     \<and> 0 < dval (requested_quantity ord) \<and> in_envelope (requested_quantity ord)"

definition order_ok :: "order_projection \<Rightarrow> bool" where
  "order_ok ord \<longleftrightarrow> order_log (fill_history ord) \<and> indexes ord = replayed (fill_history ord) \<and> flags_ok ord"

text \<open>Operational calls leave the economics alone; no call touches the identity.\<close>

lemma operational_keeps_economics:
  "\<not> is_fill_call c \<Longrightarrow> indexes (snd (run_order c ord)) = indexes ord
     \<and> fill_history (snd (run_order c ord)) = fill_history ord"
  by (cases c)
    (auto simp: operational_defs raising_def indexes_def split: option.splits sum.splits prod.splits if_splits)

lemma operational_keeps_identity:
  "\<not> is_fill_call c \<Longrightarrow> order_identity (snd (run_order c ord)) = order_identity ord"
  by (cases c)
    (auto simp: operational_defs raising_def order_identity_def split: option.splits sum.splits prod.splits if_splits)

lemma mark_send_started_flags: "flags_ok ord \<Longrightarrow> flags_ok (snd (mark_send_started a ord))"
  by (simp add: operational_defs raising_def flags_ok_def Let_def split: option.split sum.split prod.split; auto)

lemma settle_submission_flags: "flags_ok ord \<Longrightarrow> flags_ok (snd (settle_submission i s ord))"
  unfolding settle_submission_def by (auto simp: flags_ok_def)

lemma acknowledge_flags: "flags_ok ord \<Longrightarrow> flags_ok (snd (acknowledge i s a ord))"
  using mark_send_started_flags [of ord "the a"] settle_submission_flags
  by (auto simp: acknowledge_def mark_send_started_def raising_def split: option.split sum.split prod.split)

lemma request_cancel_flags: "flags_ok ord \<Longrightarrow> flags_ok (snd (request_cancel c ord))"
  by (simp add: operational_defs raising_def flags_ok_def Let_def split: option.split sum.split prod.split; auto)

lemma reject_cancel_flags: "flags_ok ord \<Longrightarrow> flags_ok (snd (reject_cancel c r ord))"
  by (simp add: operational_defs raising_def flags_ok_def Let_def split: option.split sum.split prod.split; auto)

lemma request_replace_flags: "flags_ok ord \<Longrightarrow> flags_ok (snd (request_replace c ord))"
  by (simp add: operational_defs raising_def flags_ok_def Let_def split: option.split sum.split prod.split; auto)

lemma reject_replace_flags: "flags_ok ord \<Longrightarrow> flags_ok (snd (reject_replace c r ord))"
  by (simp add: operational_defs raising_def flags_ok_def Let_def split: option.split sum.split prod.split; auto)

lemma confirm_expired_flags: "flags_ok ord \<Longrightarrow> flags_ok (snd (confirm_expired  ord))"
  by (simp add: operational_defs raising_def flags_ok_def Let_def split: option.split sum.split prod.split; auto)

lemma confirm_cancel_flags: "flags_ok ord \<Longrightarrow> flags_ok (snd (confirm_cancel  ord))"
  by (simp add: operational_defs raising_def flags_ok_def Let_def split: option.split sum.split prod.split; auto)

lemma mark_oco_peer_filled_flags: "flags_ok ord \<Longrightarrow> flags_ok (snd (mark_oco_peer_filled  ord))"
  by (simp add: operational_defs raising_def flags_ok_def Let_def split: option.split sum.split prod.split; auto)

text \<open>A fill call leaves the order as it was or appends one observation.\<close>

definition observe :: "fill_record \<Rightarrow> order_projection \<Rightarrow> order_projection" where
  "observe h ord = ord\<lparr>
     revision_records := (case provider_revision h of None \<Rightarrow> revision_records ord
        | Some r \<Rightarrow> dict_set (revision_records ord) (owner h, r) h),
     fills := dict_set (fills ord) (owner h) h,
     execution_ids := dict_set (execution_ids ord) (provider_execution_id h) (owner h),
     fill_history := fill_history ord @ [h]\<rparr>"

lemma observe_simps [simp]:
  "order_identity (observe h ord) = order_identity ord"
  "flags_ok (observe h ord) = flags_ok ord"
  "fill_history (observe h ord) = fill_history ord @ [h]"
  "indexes ord = replayed (fill_history ord) \<Longrightarrow> indexes (observe h ord) = replayed (fill_history ord @ [h])"
  by (simp_all add: observe_def order_identity_def flags_ok_def indexes_def replayed_def split: option.splits)


lemma operational_keeps_flags: "flags_ok ord \<Longrightarrow> \<not> is_fill_call c \<Longrightarrow> flags_ok (snd (run_order c ord))"
  by (cases c) (simp_all add: mark_send_started_flags acknowledge_flags request_cancel_flags
      reject_cancel_flags request_replace_flags reject_replace_flags confirm_expired_flags
      confirm_cancel_flags mark_oco_peer_filled_flags)

lemma op_text_Inr [simp, result_simps]: "op_text v = Inr t \<longleftrightarrow> strip v = t \<and> t \<noteq> []"
  by (auto simp: op_text_def Let_def)

lemma op_decimal_Inr: "op_decimal v = Inr d \<Longrightarrow> in_envelope d \<and> dval d = pyval v"
  by (cases v) (auto simp: op_decimal_def dest: parse_Inr)

lemma op_positive_Inr:
  "op_positive q p = Inr (qty, px) \<Longrightarrow>
     0 < dval qty \<and> 0 < dval px \<and> in_envelope qty \<and> in_envelope px"
  by (auto simp: op_positive_def split: if_splits dest: op_decimal_Inr)

lemma fill_candidate_Inr:
  "fill_candidate f e q p r = Inr h \<Longrightarrow> correction_of h = None \<and> fill_active h \<and> economic_fill h"
  by (auto simp: fill_candidate_def economic_fill_def dest: op_positive_Inr)

lemma order_okD:
  assumes "order_ok ord"
  shows "order_log (fill_history ord)" "fills ord = current_of (fill_history ord)"
    "execution_ids ord = executions_of (fill_history ord)"
    "revision_records ord = revisions_of (fill_history ord)" "flags_ok ord"
  using assms by (simp_all add: order_ok_def indexes_def replayed_def)

lemma observe_ok:
  "order_ok ord \<Longrightarrow> order_log (fill_history ord @ [h]) \<Longrightarrow> order_ok (observe h ord)"
  by (simp add: order_ok_def)

lemma admit_fill_effect:
  assumes "admit_fill h ord = (res, ord')" and "order_ok ord"
    and "correction_of h = None" "fill_active h" "economic_fill h"
  shows "ord' = ord \<and> res \<noteq> Inr True
    \<or> res = Inr True \<and> ord' = observe h ord \<and> order_log (fill_history ord @ [h])"
proof (cases "res = Inr True")
  case True
  have own: "owner h = fill_id h" using assms(3) by (simp add: owner_def)
  from True assms(1) have "ord' = observe h ord" "fill_id h \<notin> fill_id ` set (fill_history ord)"
    "dict_get (execution_ids ord) (provider_execution_id h) = None"
    by (auto simp: admit_fill_def observe_def own list_ex_iff Let_def split: if_splits option.splits)
  moreover from this have "order_log (fill_history ord @ [h])"
    using order_log.original order_okD(1,3) [OF assms(2)] assms(3-5)
    by (simp add: executions_of_dom)
  ultimately show ?thesis using True by simp
next
  case False
  with assms(1) show ?thesis
    by (auto simp: admit_fill_def Let_def split: if_splits option.splits)
qed

lemma admit_revision_effect:
  assumes "admit_revision p r h ord = (res, ord')" and "order_ok ord"
    and "dict_get (fills ord) p = Some g" and "correction_of h = Some p"
    and "provider_revision h = Some r" and "provider_execution_id h = provider_execution_id g"
    and "fill_active h \<longrightarrow> fill_active g" and "economic_fill h"
  shows "ord' = ord \<and> res \<noteq> Inr True
    \<or> res = Inr True \<and> ord' = observe h ord \<and> order_log (fill_history ord @ [h])"
proof (cases "res = Inr True")
  case True
  note ok = order_okD [OF assms(2)]
  have own: "owner h = p" using assms(4) by (simp add: owner_def)
  have "dict_get (execution_ids ord) (provider_execution_id g) = Some p"
  proof -
    have g: "g \<in> set (fill_history ord)" "owner g = p"
      using assms(3) current_of_mem by (simp_all add: ok)
    then obtain p' where p': "dict_get (executions_of (fill_history ord)) (provider_execution_id g) = Some p'"
      using executions_of_dom by (metis image_eqI not_None_eq)
    then obtain k where "k \<in> set (fill_history ord)" "provider_execution_id k = provider_execution_id g" "owner k = p'"
      using executions_of_mem by blast
    with log_identities [OF ok(1), of k g] g p' show ?thesis by (simp add: ok)
  qed
  then have same: "dict_set (execution_ids ord) (provider_execution_id h) p = execution_ids ord"
    using assms(6) by (simp add: dict_set_self)
  from True assms(1) have eff: "ord' = ord\<lparr>
      revision_records := dict_set (revision_records ord) (p, r) h,
      fills := dict_set (fills ord) p h, fill_history := fill_history ord @ [h]\<rparr>"
    and fresh: "dict_get (revision_records ord) (p, r) = None"
    by (auto simp: admit_revision_def split: if_splits option.splits)
  have "ord' = observe h ord"
    unfolding eff observe_def own same assms(5) by simp
  moreover have "order_log (fill_history ord @ [h])"
    using order_log.revision [OF ok(1)] assms(3-8) fresh by (simp add: ok)
  ultimately show ?thesis using True by simp
next
  case False
  with assms(1) show ?thesis
    by (auto simp: admit_revision_def split: if_splits option.splits)
qed


lemma apply_revision_effect:
  assumes "apply_revision f q p a r c ord = (res, ord')" and "order_ok ord"
    and "dict_get (fills ord) (strip f) = Some g" and "a \<longrightarrow> fill_active g"
    and "0 < dval q" "0 < dval p" "in_envelope q" "in_envelope p"
  shows "ord' = ord \<and> res \<noteq> Inr True
    \<or> (\<exists>h. res = Inr True \<and> ord' = observe h ord \<and> order_log (fill_history ord @ [h]))"
proof (cases "revision_candidate (fills ord) f q p a r c")
  case (Inl e)
  with assms(1) show ?thesis by (auto simp: apply_revision_def)
next
  case (Inr t)
  then obtain fid n h where t: "t = (fid, n, h)" and h: "fid = strip f" "correction_of h = Some fid"
    "provider_revision h = Some n" "provider_execution_id h = provider_execution_id g"
    "fill_active h = a" "fill_quantity h = q" "fill_price h = p"
    using assms(3) by (auto simp: revision_candidate_def)
  then have run: "admit_revision fid n h ord = (res, ord')"
    using assms(1) Inr by (simp add: apply_revision_def)
  have "economic_fill h" using h assms(5-8) by (simp add: economic_fill_def)
  then show ?thesis
    using admit_revision_effect [OF run assms(2)] assms(3,4) h by blast
qed

lemma run_fill_effect:
  assumes "run_order c ord = (res, ord')" and "order_ok ord" and "is_fill_call c"
  shows "ord' = ord \<and> res \<noteq> Inr (Some True)
    \<or> (\<exists>h. res = Inr (Some True) \<and> ord' = observe h ord \<and> order_log (fill_history ord @ [h]))"
proof -
  have economics: "0 < dval (fill_quantity g) \<and> 0 < dval (fill_price g)
      \<and> in_envelope (fill_quantity g) \<and> in_envelope (fill_price g)"
    if "dict_get (fills ord) p = Some g" for p g
    using that log_economic [OF order_okD(1) [OF assms(2)]] current_of_mem order_okD(2) [OF assms(2)]
    by (fastforce simp: economic_fill_def)
  have "\<exists>r. (res = map_sum id Some r) \<and> (ord' = ord \<and> r \<noteq> Inr True
    \<or> (\<exists>h. r = Inr True \<and> ord' = observe h ord \<and> order_log (fill_history ord @ [h])))"
  proof (cases c)
    case (Record_Fill f e q p r)
    then obtain r0 where run: "record_fill f e q p r ord = (r0, ord')" "res = map_sum id Some r0"
      using assms(1) by (auto simp: gives_def split: prod.splits)
    show ?thesis
    proof (cases "fill_candidate f e q p r")
      case (Inr h)
      then show ?thesis
        using run admit_fill_effect [of h ord r0 ord'] fill_candidate_Inr [OF Inr] assms(2)
        by (auto simp: record_fill_def)
    qed (use run in \<open>auto simp: record_fill_def\<close>)
  next
    case (Bust_Fill f r c')
    then obtain r0 where run: "bust_fill f r c' ord = (r0, ord')" "res = map_sum id Some r0"
      using assms(1) by (auto simp: gives_def split: prod.splits)
    show ?thesis
    proof (cases "rbind (op_text f) (\<lambda>fid. rbind (dict_lookup (fills ord) fid) (\<lambda>g. Inr (fid, g)))")
      case (Inr t)
      then obtain g where t: "t = (strip f, g)" "dict_get (fills ord) (strip f) = Some g" by auto
      show ?thesis
        using run Inr t economics [OF t(2)] assms(2)
          apply_revision_effect [of "strip f" "fill_quantity g" "fill_price g" False r c' ord r0 ord' g]
        by (auto simp: bust_fill_def)
    qed (use run in \<open>auto simp: bust_fill_def\<close>)
  next
    case (Correct_Fill f q p r c')
    then obtain r0 where run: "correct_fill f q p r c' ord = (r0, ord')" "res = map_sum id Some r0"
      using assms(1) by (auto simp: gives_def split: prod.splits)
    show ?thesis
    proof (cases "rbind (op_text f) (\<lambda>fid. rbind (dict_lookup (fills ord) fid) (\<lambda>g.
        rbind (op_positive q p) (\<lambda>(qty, px). Inr (fid, g, qty, px))))")
      case (Inr t)
      then obtain g qty px where t: "t = (strip f, g, qty, px)"
        "dict_get (fills ord) (strip f) = Some g" "op_positive q p = Inr (qty, px)" by auto
      have "apply_revision (strip f) qty px (fill_active g) r c' ord = (r0, ord')"
        using run(1) by (simp only: correct_fill_def Inr t(1) raising_simps prod.case)
      then show ?thesis
        using run(2) t op_positive_Inr [OF t(3)] assms(2)
          apply_revision_effect [of "strip f" qty px "fill_active g" r c' ord r0 ord' g]
        by auto
    qed (use run in \<open>auto simp: correct_fill_def\<close>)
  qed (use assms(3) in simp_all)
  then obtain r where "res = map_sum id Some r" and "ord' = ord \<and> r \<noteq> Inr True
    \<or> (\<exists>h. r = Inr True \<and> ord' = observe h ord \<and> order_log (fill_history ord @ [h]))" by blast
  then show ?thesis by (cases r) auto
qed

lemma run_order_ok:
  assumes "order_ok ord"
  shows "order_ok (snd (run_order c ord))"
proof (cases "is_fill_call c")
  case True
  then show ?thesis
    using run_fill_effect [OF _ assms True] observe_ok [OF assms] assms
    by (cases "run_order c ord") fastforce
next
  case False
  then show ?thesis
    using assms operational_keeps_economics [OF False] operational_keeps_flags [OF _ False]
    by (simp add: order_ok_def)
qed

lemma run_order_identity:
  assumes "order_ok ord"
  shows "order_identity (snd (run_order c ord)) = order_identity ord"
  using operational_keeps_identity [of c ord] run_fill_effect [OF _ assms, of c]
  by (cases "is_fill_call c"; cases "run_order c ord") fastforce+


section \<open>What a later state may no longer change\<close>

definition keeps :: "'a option \<Rightarrow> 'a option \<Rightarrow> bool" where
  "keeps a b \<longleftrightarrow> a = None \<or> b = a"

definition order_le :: "order_projection \<Rightarrow> order_projection \<Rightarrow> bool" where
  "order_le s t \<longleftrightarrow> order_identity t = order_identity s
     \<and> (\<exists>hs. fill_history t = fill_history s @ hs)
     \<and> keeps (provider_order_id s) (provider_order_id t)
     \<and> keeps (submission_attempt_id s) (submission_attempt_id t)
     \<and> (submission_state s \<in> {SUBMIT_ACCEPTED, SUBMIT_REJECTED} \<longrightarrow> submission_state t = submission_state s)
     \<and> (cancelled s \<longrightarrow> cancelled t) \<and> (expired s \<longrightarrow> expired t) \<and> (rejected s \<longrightarrow> rejected t)
     \<and> (oco_violation s \<longrightarrow> oco_violation t)
     \<and> set (resolved_replace_commands s) \<subseteq> set (resolved_replace_commands t)"

lemma order_le_refl: "order_le s s"
  by (simp add: order_le_def keeps_def)

lemma keeps_trans: "keeps a b \<Longrightarrow> keeps b c \<Longrightarrow> keeps a c"
  by (auto simp: keeps_def)

lemma order_le_trans: "order_le s t \<Longrightarrow> order_le t u \<Longrightarrow> order_le s u"
  unfolding order_le_def
  by (elim conjE exE, intro conjI) (erule (1) keeps_trans | simp | erule (1) subset_trans)+

lemma observe_le: "order_le ord (observe h ord)"
  by (simp add: order_le_def observe_def keeps_def order_identity_def)

lemma settle_submission_le: "order_le ord (snd (settle_submission i s ord))"
  by (auto simp: settle_submission_def order_le_def keeps_def order_identity_def)

lemma mark_send_started_le: "order_le ord (snd (mark_send_started a ord))"
  by (auto simp: mark_send_started_def bind_submission_attempt_def raising_def order_le_def keeps_def
      order_identity_def split: sum.split)

lemma acknowledge_le: "order_le ord (snd (acknowledge i s a ord))"
proof -
  have bind: "order_le ord t" if "bind_submission_attempt b ord = (r, t)" for b r t
    using mark_send_started_le [of ord b] that by (simp add: mark_send_started_def)
  have settle: "order_le ord (snd (settle_submission x y t))"
    if "bind_submission_attempt b ord = (r, t)" for b r t x y
    using order_le_trans [OF bind [OF that] settle_submission_le] .
  show ?thesis
    by (auto simp: acknowledge_def raising_def settle_submission_le order_le_refl
        split: option.split sum.split prod.split intro: bind settle)
qed

lemma operational_le: "\<not> is_fill_call c \<Longrightarrow> order_le ord (snd (run_order c ord))"
  by (cases c; simp add: mark_send_started_le acknowledge_le)
    (simp_all add: request_cancel_def reject_cancel_def request_replace_def reject_replace_def
      confirm_expired_def confirm_cancel_def mark_oco_peer_filled_def raising_def
      order_le_def keeps_def order_identity_def set_insert split: option.split sum.split, auto)

lemma run_order_le:
  assumes "order_ok ord"
  shows "order_le ord (snd (run_order c ord))"
  using operational_le [of c ord] run_fill_effect [OF _ assms, of c] observe_le order_le_refl
  by (cases "is_fill_call c"; cases "run_order c ord") fastforce+

interpretation orders: monotone_object run_order order_ok order_le
  by unfold_locales (fact run_order_ok, fact order_le_refl, fact order_le_trans, fact run_order_le)

lemma new_order_ok: "new_order p a e c i s q g par = Inr ord \<Longrightarrow> order_ok ord"
  by (auto simp: new_order_def order_ok_def indexes_def replayed_def flags_ok_def Let_def
      split: if_splits intro: order_log.empty dest: op_decimal_Inr)

lemma reachable_ok:
  "new_order p a e c i s q g par = Inr ord \<Longrightarrow> order_ok (after run_order ord calls)"
  by (rule orders.inv_after_from [OF new_order_ok])

lemma run_order_raises:
  assumes "run_order c ord = (Inl e, ord')"
  shows "ord' = ord \<or> (\<exists>i s a. c = Acknowledge i s (Some a) \<and> submission_attempt_id ord = None
    \<and> ord' = ord\<lparr>submission_attempt_id := Some (strip a)\<rparr>)"
proof (cases "\<exists>i s a. c = Acknowledge i s a")
  case True
  then obtain i s a where c: "c = Acknowledge i s a" by blast
  have settle: "t' = t" if "settle_submission x y t = (Inl e, t')" for x y t t'
    using that by (auto simp: settle_submission_def split: if_splits)
  have bind: "t' = ord \<or> submission_attempt_id ord = None \<and> t' = ord\<lparr>submission_attempt_id := Some (strip b)\<rparr>"
    if "bind_submission_attempt b ord = (r, t')" for b r t'
    using that by (auto simp: bind_submission_attempt_def raising_def split: sum.splits if_splits)
  show ?thesis
    using assms unfolding c
    by (auto simp: acknowledge_def raising_raises split: option.splits prod.splits sum.splits
        dest!: settle dest: bind)
next
  case False
  then show ?thesis
    using assms
    by (cases c) (auto simp: mark_send_started_def bind_submission_attempt_def request_cancel_def
        reject_cancel_def request_replace_def reject_replace_def confirm_expired_def confirm_cancel_def
        mark_oco_peer_filled_def record_fill_def bust_fill_def correct_fill_def apply_revision_def
        admit_fill_def admit_revision_def Let_def raising_raises split: if_splits option.splits)
qed


section \<open>Economics\<close>

definition filled_total :: "order_projection \<Rightarrow> rat" where
  "filled_total ord = (\<Sum>f \<leftarrow> active_fills ord. dval (fill_quantity f))"

definition notional_total :: "order_projection \<Rightarrow> rat" where
  "notional_total ord = (\<Sum>f \<leftarrow> active_fills ord. dval (fill_quantity f) * dval (fill_price f))"

lemma filled_quantity_Inr: "filled_quantity ord = Inr d \<Longrightarrow> dval d = filled_total ord \<and> in_envelope d"
  by (auto simp: filled_quantity_def filled_total_def comp_def dest: exact.total_val)

lemma active_fills_economic:
  assumes "order_ok ord" and "f \<in> set (active_fills ord)"
  shows "economic_fill f" "fill_active f" "f \<in> set (fill_history ord)"
    "dict_get (fills ord) (owner f) = Some f"
proof -
  obtain p where "(p, f) \<in> set (fills ord)" "fill_active f"
    using assms(2) by (auto simp: active_fills_def)
  then have get: "dict_get (fills ord) p = Some f"
    using order_okD(2) [OF assms(1)] by (simp add: dict_mem_get)
  then have "f \<in> set (fill_history ord)" "owner f = p"
    using current_of_mem order_okD(2) [OF assms(1)] by auto
  then show "economic_fill f" "fill_active f" "f \<in> set (fill_history ord)"
    "dict_get (fills ord) (owner f) = Some f"
    using \<open>fill_active f\<close> get log_economic [OF order_okD(1) [OF assms(1)]] by auto
qed

lemma filled_total_nonneg: "order_ok ord \<Longrightarrow> 0 \<le> filled_total ord"
  unfolding filled_total_def
  by (rule sum_list_nonneg_map) (auto dest: active_fills_economic simp: economic_fill_def)

lemma filled_total_zero_iff: "order_ok ord \<Longrightarrow> filled_total ord = 0 \<longleftrightarrow> active_fills ord = []"
proof (cases "active_fills ord")
  case (Cons f fs)
  assume ok: "order_ok ord"
  have "0 \<le> dval (fill_quantity g)" if "g \<in> set (active_fills ord)" for g
    using active_fills_economic(1) [OF ok that] by (simp add: economic_fill_def)
  then have "dval (fill_quantity f) \<le> filled_total ord"
    unfolding filled_total_def using Cons by (intro sum_list_member_le) simp_all
  moreover have "0 < dval (fill_quantity f)"
    using active_fills_economic(1) [OF ok, of f] Cons by (simp add: economic_fill_def)
  ultimately show ?thesis using Cons by simp
qed (simp add: filled_total_def)

text \<open>The log in its last entry.\<close>

inductive_cases order_log_snocE: "order_log (hs @ [h])"

lemma order_log_snoc:
  assumes "order_log (hs @ [h])"
  shows "order_log hs"
    and "correction_of h = None \<and> fill_id h \<notin> fill_id ` set hs
      \<or> (\<exists>p g. correction_of h = Some p \<and> dict_get (current_of hs) p = Some g \<and> (fill_active h \<longrightarrow> fill_active g))"
  using assms by (auto elim!: order_log_snocE)

lemma order_log_prefix: "order_log (hs @ ks) \<Longrightarrow> order_log hs"
  by (induction ks rule: rev_induct) (auto simp flip: append_assoc dest: order_log_snoc(1))

text \<open>A fill that was once observed busted is busted now.\<close>

lemma log_busted:
  "order_log hs \<Longrightarrow> h \<in> set hs \<Longrightarrow> \<not> fill_active h \<Longrightarrow>
     \<exists>g. dict_get (current_of hs) (owner h) = Some g \<and> \<not> fill_active g"
proof (induction arbitrary: h rule: order_log.induct)
  case (original hs n)
  then have "h \<in> set hs" by auto
  moreover from this have "owner h \<noteq> owner n"
    using original.hyps(2,5) log_owner_fill_id [OF original.hyps(1), of h] by auto
  ultimately show ?case using original by simp
next
  case (revision hs p g n)
  have n: "owner n = p" using revision by (simp add: owner_def)
  show ?case
  proof (cases "h = n")
    case False
    then have h: "h \<in> set hs" using revision.prems by auto
    from revision.IH [OF h revision.prems(2)] obtain k where
      k: "dict_get (current_of hs) (owner h) = Some k" "\<not> fill_active k" by blast
    then show ?thesis using n revision.hyps(2,7) by (cases "owner h = p") auto
  qed (use n revision.prems in simp)
qed simp

lemma bust_fill_returns:
  assumes "bust_fill f r c ord = (Inr b, ord')"
  shows "\<exists>n h. admit_revision (strip f) n h ord = (Inr b, ord') \<and> correction_of h = Some (strip f)
    \<and> \<not> fill_active h"
  using assms by (fastforce simp: bust_fill_def apply_revision_def revision_candidate_def)

lemma bust_fill_observed:
  assumes "bust_fill f r c ord = (Inr b, ord')" and "order_ok ord"
  shows "\<exists>h \<in> set (fill_history ord'). owner h = strip f \<and> \<not> fill_active h"
proof -
  from bust_fill_returns [OF assms(1)] obtain n h
    where run: "admit_revision (strip f) n h ord = (Inr b, ord')"
      and h: "correction_of h = Some (strip f)" "\<not> fill_active h" by blast
  show ?thesis
  proof (cases b)
    case True
    with run have "h \<in> set (fill_history ord')"
      by (auto simp: admit_revision_def split: option.splits if_splits)
    then show ?thesis using h by force
  next
    case False
    with run obtain k where k: "dict_get (revision_records ord) (strip f, n) = Some k" "same_fill k h"
      and "ord' = ord"
      by (auto simp: admit_revision_def split: option.splits if_splits)
    with revisions_of_mem h show ?thesis
      using order_okD(4) [OF assms(2)] by (fastforce simp: same_fill_def)
  qed
qed

lemma busted_out:
  assumes "order_ok ord" and "h \<in> set (fill_history ord)" and "\<not> fill_active h"
  shows "\<forall>x \<in> set (active_fills ord). owner x \<noteq> owner h"
  using log_busted [OF order_okD(1) [OF assms(1)] assms(2,3)] active_fills_economic [OF assms(1)]
    order_okD(2) [OF assms(1)] by fastforce

lemma record_fill_observed:
  assumes "admit_fill h ord = (Inr b, ord')" and "order_ok ord"
  shows "list_ex (\<lambda>item. same_fill item h) (fill_history ord')"
proof (cases b)
  case True
  with assms(1) show ?thesis
    by (auto simp: admit_fill_def same_fill_def Let_def split: if_splits option.splits)
next
  case False
  with assms(1) have "ord' = ord" and
    "list_ex (\<lambda>item. same_fill item h) (fill_history ord)
      \<or> (\<exists>g. dict_get (fills ord) (fill_id h) = Some g \<and> same_fill g h)"
    by (auto simp: admit_fill_def Let_def split: if_splits option.splits)
  then show ?thesis
    using current_of_mem order_okD(2) [OF assms(2)] by (auto simp: list_ex_iff)
qed

lemma later_history:
  assumes "order_ok ord"
  obtains hs where "fill_history (after run_order ord calls) = fill_history ord @ hs"
  using orders.le_after_from [OF assms, of calls] by (auto simp: order_le_def)

lemma record_fill_later:
  assumes "record_fill f e q p r ord = (Inr b, ord')" and "order_ok ord"
  shows "record_fill f e q p r (after run_order ord' calls) = (Inr False, after run_order ord' calls)"
proof -
  obtain h where h: "fill_candidate f e q p r = Inr h" "admit_fill h ord = (Inr b, ord')"
    using assms(1) by (auto simp: record_fill_def)
  have ok: "order_ok ord'" using run_order_ok [OF assms(2), of "Record_Fill f e q p r"] assms(1) by simp
  have "list_ex (\<lambda>item. same_fill item h) (fill_history ord')"
    using record_fill_observed [OF h(2) assms(2)] .
  then have "list_ex (\<lambda>item. same_fill item h) (fill_history (after run_order ord' calls))"
    by (metis later_history [OF ok] list_ex_append)
  then show ?thesis by (simp add: record_fill_def h(1) admit_fill_def)
qed

lemma observe_new_total:
  assumes "dict_get (fills ord) (owner h) = None" and "fill_active h"
  shows "filled_total (observe h ord) = filled_total ord + dval (fill_quantity h)"
  using assms by (simp add: filled_total_def active_fills_def observe_def dict_set_new)

lemma admit_new_fill:
  assumes "order_ok ord" and "correction_of h = None"
    and "fill_id h \<notin> fill_id ` set (fill_history ord)"
    and "provider_execution_id h \<notin> provider_execution_id ` set (fill_history ord)"
  shows "admit_fill h ord = (Inr True, observe h ord)" "dict_get (fills ord) (owner h) = None"
proof -
  have own: "owner h = fill_id h" using assms(2) by simp
  have fresh: "g \<in> set (fill_history ord) \<Longrightarrow> owner g \<noteq> fill_id h" for g
    using log_owner_fill_id [OF order_okD(1) [OF assms(1)], of g] assms(3) by auto
  then show held: "dict_get (fills ord) (owner h) = None"
    using current_of_mem [of "fill_history ord" "fill_id h"] order_okD(2) [OF assms(1)] own
    by (cases "dict_get (fills ord) (fill_id h)") auto
  have rev: "dict_get (revision_records ord) (fill_id h, r) = None" for r
    using fresh revisions_of_mem [of "fill_history ord" "fill_id h" r] order_okD(4) [OF assms(1)]
    by (cases "dict_get (revision_records ord) (fill_id h, r)") auto
  have "dict_get (execution_ids ord) (provider_execution_id h) = None"
    using assms(4) order_okD(3) [OF assms(1)] by (simp add: executions_of_dom)
  moreover have "\<not> list_ex (\<lambda>item. fill_id item = fill_id h) (fill_history ord)"
    "\<not> list_ex (\<lambda>item. same_fill item h) (fill_history ord)"
    using assms(3) unfolding list_ex_iff same_fill_def by (metis image_eqI)+
  ultimately show "admit_fill h ord = (Inr True, observe h ord)"
    using held rev unfolding own by (simp add: admit_fill_def observe_def own Let_def split: option.splits)
qed


text \<open>What each state says of the requested and the filled quantity, and of the flags.\<close>

fun state_says :: "order_state \<Rightarrow> order_projection \<Rightarrow> rat \<Rightarrow> rat \<Rightarrow> bool" where
  "state_says OVERFILLED_AFTER_CANCEL x r f = (r < f \<and> cancelled x)"
| "state_says OVERFILLED_AFTER_EXPIRY x r f = (r < f \<and> expired x)"
| "state_says OVERFILLED_AFTER_REJECT x r f = (r < f \<and> rejected x)"
| "state_says OVERFILLED_DURING_CANCEL x r f = (r < f \<and> cancel_requested x)"
| "state_says OVERFILLED_DURING_REPLACE x r f = (r < f \<and> replace_requested x)"
| "state_says OVERFILLED x r f = (r < f)"
| "state_says FILLED_AFTER_CANCEL x r f = (f = r \<and> cancelled x)"
| "state_says PARTIALLY_FILLED_CANCELLED x r f = (0 < f \<and> f < r \<and> cancelled x)"
| "state_says CANCELLED x r f = (f = 0 \<and> cancelled x)"
| "state_says FILLED_AFTER_EXPIRY x r f = (f = r \<and> expired x)"
| "state_says PARTIALLY_FILLED_EXPIRED x r f = (0 < f \<and> f < r \<and> expired x)"
| "state_says EXPIRED x r f = (f = 0 \<and> expired x)"
| "state_says FILLED_AFTER_REJECT x r f = (0 < f \<and> f \<le> r \<and> rejected x)"
| "state_says REJECTED x r f = (f = 0 \<and> rejected x)"
| "state_says FILLED x r f = (f = r)"
| "state_says PARTIALLY_FILLED_CANCEL_REQUESTED x r f = (0 < f \<and> f < r \<and> cancel_requested x)"
| "state_says CANCEL_REQUESTED x r f = (f = 0 \<and> cancel_requested x)"
| "state_says PARTIALLY_FILLED_REPLACE_REQUESTED x r f = (0 < f \<and> f < r \<and> replace_requested x)"
| "state_says REPLACE_REQUESTED x r f = (f = 0 \<and> replace_requested x)"
| "state_says PARTIALLY_FILLED x r f = (0 < f \<and> f < r)"
| "state_says WORKING x r f = (f = 0 \<and> submission_state x = SUBMIT_ACCEPTED)"
| "state_says UNKNOWN x r f = (f = 0 \<and> submission_state x = SUBMIT_UNKNOWN)"
| "state_says SEND_STARTED x r f = (f = 0 \<and> submission_attempt_id x \<noteq> None)"
| "state_says PENDING x r f = (f = 0 \<and> submission_attempt_id x = None)"
| "state_says OCO_VIOLATION x r f = oco_violation x"

definition terminal_flag :: "order_projection \<Rightarrow> bool" where
  "terminal_flag x = (cancelled x \<or> expired x \<or> rejected x)"

definition WORKING_STATES :: "order_state set" where
  "WORKING_STATES = {WORKING, PARTIALLY_FILLED, PENDING, SEND_STARTED, UNKNOWN}"

lemma state_without_oco_sound:
  assumes "state_without_oco ord = Inr st" and "order_ok ord"
  shows "state_says st ord (dval (requested_quantity ord)) (filled_total ord)"
    and "st \<in> WORKING_STATES \<Longrightarrow> \<not> terminal_flag ord \<and> \<not> cancel_requested ord \<and> \<not> replace_requested ord"
proof -
  from assms(1) obtain f where f: "filled_quantity ord = Inr f"
    by (auto simp: state_without_oco_def)
  note total = filled_quantity_Inr [OF f] and pos = filled_total_nonneg [OF assms(2)]
  show "state_says st ord (dval (requested_quantity ord)) (filled_total ord)"
    using assms(1) pos by (auto simp: state_without_oco_def f total Let_def)
  show "st \<in> WORKING_STATES \<Longrightarrow> \<not> terminal_flag ord \<and> \<not> cancel_requested ord \<and> \<not> replace_requested ord"
    using assms(1) by (auto simp: state_without_oco_def f Let_def WORKING_STATES_def terminal_flag_def split: if_splits)
qed

lemma snapshot_order_quantities:
  assumes "snapshot_order v ord = Inr sn" and "order_ok ord"
  shows "dval (snap_filled_quantity sn) = filled_total ord"
    and "dval (snap_open_quantity sn) = max 0 (dval (requested_quantity ord) - filled_total ord)"
    and "dval (snap_overfill_quantity sn) = max 0 (filled_total ord - dval (requested_quantity ord))"
    and "snap_fill_count sn = 0 \<longleftrightarrow> filled_total ord = 0"
  using assms filled_total_zero_iff [OF assms(2)]
  by (auto simp: snapshot_order_def open_quantity_def Let_def max_def
      dest!: filled_quantity_Inr exact.sub_val split: if_splits)

lemma products_total:
  "rmap (\<lambda>f. exact_multiply [fill_quantity f, fill_price f]) fs = Inr ps \<Longrightarrow>
     sum_list (map dval ps) = (\<Sum>f \<leftarrow> fs. dval (fill_quantity f) * dval (fill_price f))"
  by (induction fs arbitrary: ps) (auto dest: exact.product_val)

lemma average_fill_price_value:
  assumes "average_fill_price ord = Inr (Some d)"
  shows "filled_total ord \<noteq> 0"
    and "2 * \<bar>dval d - notional_total ord / filled_total ord\<bar> \<le> 1 / 10 ^ 18"
proof -
  from assms obtain total ps notional where
    total: "filled_quantity ord = Inr total" "dval total \<noteq> 0"
    and ps: "rmap (\<lambda>f. exact_multiply [fill_quantity f, fill_price f]) (active_fills ord) = Inr ps"
    "exact_sum ps = Inr notional"
    and avg: "(case terminating_decimal (dval notional / dval total) of
       Inl ExactDecimalError \<Rightarrow>
         round_fraction_to_quantum (dval notional / dval total) (Decimal False 1 (- 18)) HALF_EVEN
       | r \<Rightarrow> r) = Inr d"
    by (auto simp: average_fill_price_def filled_quantity_def Let_def as_fraction_eq split: if_splits)
  have vals: "dval total = filled_total ord" "dval notional = notional_total ord"
    using filled_quantity_Inr [OF total(1)] exact.total_val [OF ps(2)] products_total [OF ps(1)]
    by (simp_all add: notional_total_def)
  show "filled_total ord \<noteq> 0" using total vals by simp
  show "2 * \<bar>dval d - notional_total ord / filled_total ord\<bar> \<le> 1 / 10 ^ 18"
    using avg round_half_even_close
    by (cases "notional_total ord / filled_total ord" rule: terminating_decimal_cases)
      (auto simp: vals dest!: round_half_even_close)
qed


lemma fill_candidate_quantity: "fill_candidate f e q p r = Inr h \<Longrightarrow> dval (fill_quantity h) = pyval q"
  by (auto simp: fill_candidate_def op_positive_def split: if_splits dest: op_decimal_Inr)

lemma correction_redelivery:
  assumes "correct_fill f q p r c ord = (Inr True, ord1)" and "bust_fill f r2 c2 ord1 = (Inr True, ord2)"
    and "dict_get (fills ord) (strip f) = Some g" and "fill_active g"
  shows "correct_fill f q p r c ord2 = (Inl OrderProjectionConflict, ord2)"
proof -
  from assms(1,3) obtain qty px fid n h where in1: "strip f \<noteq> []" "op_positive q p = Inr (qty, px)"
    "revision_candidate (fills ord) (strip f) qty px (fill_active g) r c = Inr (fid, n, h)"
    "admit_revision fid n h ord = (Inr True, ord1)"
    by (auto simp: correct_fill_def apply_revision_def)
  have h: "fid = strip f" "n = strip r" "n \<noteq> []" "fill_active h"
    "provider_execution_id h = provider_execution_id g"
    using in1(3) assms(3,4) by (auto simp: revision_candidate_def)
  from in1(4) have o1: "fills ord1 = dict_set (fills ord) fid h"
    "revision_records ord1 = dict_set (revision_records ord) (fid, n) h"
    by (auto simp: admit_revision_def split: option.splits if_splits)
  from bust_fill_returns [OF assms(2)] obtain m b
    where b: "\<not> fill_active b" "admit_revision fid m b ord1 = (Inr True, ord2)"
    using h(1) by blast
  then have o2: "fills ord2 = dict_set (fills ord1) fid b" "dict_get (revision_records ord1) (fid, m) = None"
    "revision_records ord2 = dict_set (revision_records ord1) (fid, m) b"
    by (auto simp: admit_revision_def split: option.splits if_splits)
  have prior: "dict_get (revision_records ord2) (strip f, strip r) = Some h"
    using o2(2) h by (auto simp: o1 o2(3))
  obtain k where cand: "revision_candidate (fills ord2) (strip f) qty px False r c = Inr (strip f, strip r, k)"
    and "\<not> fill_active k"
    using in1(1,3) h(1-3) by (auto simp: revision_candidate_def o1 o2(1))
  then have "\<not> same_fill h k" using h(4) by (simp add: same_fill_def)
  then show ?thesis
    using in1(1,2) h(1) b(1) cand prior
    by (simp add: correct_fill_def apply_revision_def admit_revision_def o2(1) op_text_def
        dict_lookup_def)
qed

section \<open>Properties\<close>

text \<open>(C21) The order implements its observation log: after any history of calls, raising ones
  included, the history is an admissible log and the three indexes the code updates in place are
  exactly what replaying that log gives.\<close>

theorem order_indexes_replay_log:
  assumes "new_order pid acc env cid ins sd q grp par = Inr ord0"
  shows "let ord = after run_order ord0 calls in
     order_log (fill_history ord) \<and> fills ord = current_of (fill_history ord)
     \<and> execution_ids ord = executions_of (fill_history ord)
     \<and> revision_records ord = revisions_of (fill_history ord)"
  using order_okD(1-4) [OF reachable_ok [OF assms, of calls]] by (simp add: Let_def)

text \<open>The lifecycle only moves forward: identity, bound provider identities, accepted and
  rejected outcomes, cancellation, expiry and observed fills of an order are never taken back by later calls, cancel
  and replace are never pending together, an expired order has neither pending, and calls other
  than fills, busts and corrections do not touch a fill.\<close>

theorem order_lifecycle_progress:
  assumes "new_order pid acc env cid ins sd q grp par = Inr ord0"
  shows "let ord = after run_order ord0 xs in
     order_le ord (after run_order ord ys) \<and> flags_ok ord
     \<and> (is_fill_call c \<or> (fills (snd (run_order c ord)) = fills ord
           \<and> fill_history (snd (run_order c ord)) = fill_history ord))"
  using orders.le_after_from [OF reachable_ok [OF assms, of xs], of ys]
    order_okD(5) [OF reachable_ok [OF assms, of xs]] operational_keeps_economics [of c]
  by (auto simp: Let_def indexes_def)

text \<open>(C22) Terminal operational states never suppress economic truth: whatever calls came before,
  a readable fill with a new fill identity and a new execution identity is recorded, and the filled
  quantity grows by exactly its quantity.\<close>

theorem late_fill_always_counted:
  assumes "new_order pid acc env cid ins sd q grp par = Inr ord0"
    and "ord = after run_order ord0 calls" and "fill_candidate f e qty px rv = Inr h"
    and "fill_id h \<notin> fill_id ` set (fill_history ord)"
    and "provider_execution_id h \<notin> provider_execution_id ` set (fill_history ord)"
  shows "\<exists>ord'. record_fill f e qty px rv ord = (Inr True, ord')
     \<and> fill_history ord' = fill_history ord @ [h] \<and> filled_total ord' = filled_total ord + pyval qty"
proof -
  have ok: "order_ok ord" using reachable_ok [OF assms(1)] assms(2) by simp
  note h = fill_candidate_Inr [OF assms(3)]
  note admit = admit_new_fill [OF ok _ assms(4,5)]
  show ?thesis
    using admit observe_new_total [of ord h] h fill_candidate_quantity [OF assms(3)]
    by (intro exI [of _ "observe h ord"]) (simp add: record_fill_def assms(3))
qed

text \<open>Redelivery is harmless: once a fill was accepted or recognised, reporting it again after
  any further calls (corrections and busts of that fill included) answers \<open>False\<close> and changes
  nothing.\<close>

theorem fill_redelivery_ignored:
  assumes "new_order pid acc env cid ins sd q grp par = Inr ord0"
    and "record_fill f e qty px rv (after run_order ord0 xs) = (Inr b, ord)"
  shows "record_fill f e qty px rv (after run_order ord ys) = (Inr False, after run_order ord ys)"
  using record_fill_later [OF assms(2) reachable_ok [OF assms(1)]] .

text \<open>A busted fill stays busted: after a bust returned, no later calls make the fill count
  again.\<close>

theorem busted_fill_stays_busted:
  assumes "new_order pid acc env cid ins sd q grp par = Inr ord0"
    and "bust_fill f rv c (after run_order ord0 xs) = (Inr b, ord)"
  shows "\<forall>x \<in> set (active_fills (after run_order ord ys)). owner x \<noteq> strip f"
proof -
  note ok0 = reachable_ok [OF assms(1), of xs]
  have ok: "order_ok ord" using run_order_ok [OF ok0, of "Bust_Fill f rv c"] assms(2) by simp
  obtain h where h: "h \<in> set (fill_history ord)" "owner h = strip f" "\<not> fill_active h"
    using bust_fill_observed [OF assms(2) ok0] by blast
  obtain hs where "fill_history (after run_order ord ys) = fill_history ord @ hs"
    by (rule later_history [OF ok])
  then have "h \<in> set (fill_history (after run_order ord ys))" using h(1) by simp
  then show ?thesis
    using busted_out [OF orders.inv_after_from [OF ok], of h ys] h(2,3) by simp
qed

text \<open>The reported state is sound: it states truly how the filled quantity stands to the
  requested one and which outcome the order had, and a working state is reported only while nothing
  is pending and no terminal outcome was recorded.\<close>

theorem order_state_sound:
  assumes "new_order pid acc env cid ins sd q grp par = Inr ord0"
    and "ord = after run_order ord0 calls" and "order_status ord = Inr st"
  shows "state_says st ord (dval (requested_quantity ord)) (filled_total ord)
     \<and> (st \<in> WORKING_STATES \<longrightarrow> \<not> terminal_flag ord \<and> \<not> cancel_requested ord \<and> \<not> replace_requested ord)"
proof (cases "oco_violation ord")
  case True
  then show ?thesis using assms(3) by (auto simp: order_status_def WORKING_STATES_def)
next
  case False
  then have "state_without_oco ord = Inr st" using assms(3) by (simp add: order_status_def)
  then show ?thesis
    using state_without_oco_sound reachable_ok [OF assms(1)] assms(2) by blast
qed

text \<open>A snapshot adds up: the filled quantity is the sum of the active fills, the open and the
  overfilled quantity are the two sides of its difference to the requested one, and the average
  price, present exactly when something is filled, is within half of \<open>10\<close> to the \<open>-18\<close> of the exact
  volume-weighted price.\<close>

theorem order_snapshot_adds_up:
  assumes "new_order pid acc env cid ins sd q grp par = Inr ord0"
    and "ord = after run_order ord0 calls" and "snapshot_order forced ord = Inr sn"
  shows "dval (snap_filled_quantity sn) = filled_total ord
     \<and> dval (snap_open_quantity sn) = max 0 (dval (requested_quantity ord) - filled_total ord)
     \<and> dval (snap_overfill_quantity sn) = max 0 (filled_total ord - dval (requested_quantity ord))
     \<and> (case snap_average_fill_price sn of
          None \<Rightarrow> filled_total ord = 0
        | Some d \<Rightarrow> 0 < filled_total ord
            \<and> 2 * \<bar>dval d - notional_total ord / filled_total ord\<bar> \<le> 1 / 10 ^ 18)"
proof -
  have ok: "order_ok ord" using reachable_ok [OF assms(1)] assms(2) by simp
  have "case snap_average_fill_price sn of
          None \<Rightarrow> filled_total ord = 0
        | Some d \<Rightarrow> 0 < filled_total ord
            \<and> 2 * \<bar>dval d - notional_total ord / filled_total ord\<bar> \<le> 1 / 10 ^ 18"
  proof (cases "snap_average_fill_price sn")
    case None
    then have "average_fill_price ord = Inr None" using assms(3) by (auto simp: snapshot_order_def Let_def)
    then have "filled_total ord = 0"
      by (auto simp: average_fill_price_def Let_def split: if_splits
          dest!: filled_quantity_Inr simp flip: filled_quantity_def)
    with None show ?thesis by simp
  next
    case (Some d)
    then have "average_fill_price ord = Inr (Some d)" using assms(3) by (auto simp: snapshot_order_def Let_def)
    from average_fill_price_value [OF this] Some filled_total_nonneg [OF ok] show ?thesis by simp
  qed
  then show ?thesis using snapshot_order_quantities [OF assms(3) ok] by blast
qed

text \<open>(C24) A raising call leaves the order as it was, with one exception: an acknowledgement that is
  refused after it named the first submission attempt has bound that attempt.\<close>

theorem failed_order_call:
  assumes "run_order c ord = (Inl err, ord')"
  shows "ord' = ord \<or> (\<exists>i s a. c = Acknowledge i s (Some a) \<and> submission_attempt_id ord = None
    \<and> ord' = ord\<lparr>submission_attempt_id := Some (strip a)\<rparr>)"
  by (rule run_order_raises [OF assms])

text \<open>(C25) Unlike a fill, a correction is not safe to redeliver: once the corrected fill has been
  busted, the same correction reported again raises a conflict.\<close>

theorem redelivered_correction_conflicts:
  assumes "correct_fill f qty px rv c ord = (Inr True, ord1)"
    and "dict_get (fills ord) (strip f) = Some g" and "fill_active g"
    and "bust_fill f rv2 c2 ord1 = (Inr True, ord2)"
  shows "correct_fill f qty px rv c ord2 = (Inl OrderProjectionConflict, ord2)"
  using correction_redelivery [OF assms(1,4,2,3)] .


section \<open>Witnesses\<close>

definition sample_order :: order_projection where
  "sample_order = projr (new_order '' alpaca '' ''A-1'' ''paper'' ''c-1'' ''AAPL'' ''buy'' (PyStr ''10'') None None)"

lemma sample_order_new:
  "new_order '' alpaca '' ''A-1'' ''paper'' ''c-1'' ''AAPL'' ''buy'' (PyStr ''10'') None None = Inr sample_order"
  by code_simp

definition sample_calls :: "order_call list" where
  "sample_calls = [Acknowledge (Some ''p-1'') ''accepted'' (Some ''t-1''),
     Record_Fill ''f-1'' ''e-1'' (PyInt 4) (PyStr ''2.5'') None, Confirm_Cancel]"

definition worked_order :: order_projection where
  "worked_order = after run_order sample_order sample_calls"

theorem order_indexes_replay_log_witness:
  "order_log (fill_history worked_order) \<and> fills worked_order = current_of (fill_history worked_order)
     \<and> length (fill_history worked_order) = 1"
proof -
  have "length (fill_history worked_order) = 1" by code_simp
  then show ?thesis
    using order_indexes_replay_log [OF sample_order_new, of sample_calls]
    by (simp add: worked_order_def Let_def)
qed

theorem order_lifecycle_progress_witness:
  "order_le worked_order (after run_order worked_order [Confirm_Expired, Request_Replace ''r''])
     \<and> cancelled worked_order \<and> fst (run_order Confirm_Expired worked_order) = Inl OrderProjectionConflict"
proof -
  have "cancelled worked_order" "fst (run_order Confirm_Expired worked_order) = Inl OrderProjectionConflict"
    by code_simp+
  then show ?thesis
    using order_lifecycle_progress [OF sample_order_new, of sample_calls
        "[Confirm_Expired, Request_Replace ''r'']" Confirm_Cancel]
    unfolding worked_order_def Let_def by blast
qed

definition late_fill :: fill_record where
  "late_fill = projr (fill_candidate ''f-2'' ''e-2'' (PyInt 6) (PyStr ''2.4'') None)"

theorem late_fill_always_counted_witness:
  "cancelled worked_order
     \<and> (\<exists>ord'. record_fill ''f-2'' ''e-2'' (PyInt 6) (PyStr ''2.4'') None worked_order = (Inr True, ord')
          \<and> filled_total ord' = filled_total worked_order + 6)"
proof -
  have c: "cancelled worked_order" by code_simp
  have h: "fill_candidate ''f-2'' ''e-2'' (PyInt 6) (PyStr ''2.4'') None = Inr late_fill" by code_simp
  have "fill_id late_fill \<notin> fill_id ` set (fill_history worked_order)"
    "provider_execution_id late_fill \<notin> provider_execution_id ` set (fill_history worked_order)"
    by code_simp+
  with c late_fill_always_counted [OF sample_order_new worked_order_def h] show ?thesis by auto
qed

theorem fill_redelivery_ignored_witness:
  "let ord = after run_order worked_order [Bust_Fill ''f-1'' ''r-1'' None] in
     record_fill ''f-1'' ''e-1'' (PyStr ''4.0'') (PyStr ''2.50'') None ord = (Inr False, ord)
     \<and> fst (record_fill ''f-1'' ''e-1'' (PyStr ''5'') (PyStr ''2.50'') None ord) = Inl OrderProjectionConflict"
proof -
  have "record_fill ''f-1'' ''e-1'' (PyStr ''4.0'') (PyStr ''2.50'') None
      (after run_order sample_order sample_calls) = (Inr False, worked_order)"
    by code_simp
  note again = fill_redelivery_ignored [OF sample_order_new this, of "[Bust_Fill ''f-1'' ''r-1'' None]"]
  have "fst (record_fill ''f-1'' ''e-1'' (PyStr ''5'') (PyStr ''2.50'') None
      (after run_order worked_order [Bust_Fill ''f-1'' ''r-1'' None])) = Inl OrderProjectionConflict"
    by code_simp
  with again show ?thesis by (simp only: Let_def simp_thms)
qed

definition busted_order :: order_projection where
  "busted_order = snd (bust_fill ''f-1'' ''r-1'' None worked_order)"

theorem busted_fill_stays_busted_witness:
  "active_fills worked_order \<noteq> []
     \<and> ''f-1'' \<notin> owner ` set (active_fills (after run_order busted_order
            [Correct_Fill ''f-1'' (PyInt 3) (PyInt 2) ''r-2'' None]))"
proof -
  have "bust_fill ''f-1'' ''r-1'' None (after run_order sample_order sample_calls) = (Inr True, busted_order)"
    "active_fills worked_order \<noteq> []" "strip ''f-1'' = ''f-1''"
    by code_simp+
  then show ?thesis
    using busted_fill_stays_busted [OF sample_order_new] by (metis imageE)
qed

theorem order_state_sound_witness:
  "order_status worked_order = Inr PARTIALLY_FILLED_CANCELLED \<and> 0 < filled_total worked_order"
proof -
  have st: "order_status worked_order = Inr PARTIALLY_FILLED_CANCELLED" by code_simp
  with order_state_sound [OF sample_order_new worked_order_def st] show ?thesis by simp
qed

definition worked_snapshot :: order_snapshot where
  "worked_snapshot = projr (snapshot_order None worked_order)"

theorem order_snapshot_adds_up_witness:
  "dval (snap_filled_quantity worked_snapshot) = filled_total worked_order
     \<and> dval (snap_filled_quantity worked_snapshot) = 4 \<and> dval (snap_open_quantity worked_snapshot) = 6"
proof -
  have "snapshot_order None worked_order = Inr worked_snapshot"
    "dval (snap_filled_quantity worked_snapshot) = 4" "dval (snap_open_quantity worked_snapshot) = 6"
    by code_simp+
  then show ?thesis
    using order_snapshot_adds_up [OF sample_order_new worked_order_def] by blast
qed

theorem failed_order_call_witness:
  "\<exists>ord'. run_order (Acknowledge None ''whatever'' (Some ''t-1'')) sample_order = (Inl ValueError, ord')
     \<and> submission_attempt_id ord' = Some ''t-1''
     \<and> (ord' = sample_order \<or> ord' = sample_order\<lparr>submission_attempt_id := Some ''t-1''\<rparr>)"
proof -
  obtain res ord' where run: "run_order (Acknowledge None ''whatever'' (Some ''t-1'')) sample_order = (res, ord')"
    by force
  have "fst (run_order (Acknowledge None ''whatever'' (Some ''t-1'')) sample_order) = Inl ValueError"
    "submission_attempt_id (snd (run_order (Acknowledge None ''whatever'' (Some ''t-1'')) sample_order)) = Some ''t-1''"
    "strip ''t-1'' = ''t-1''"
    by code_simp+
  with run failed_order_call [of "Acknowledge None ''whatever'' (Some ''t-1'')" sample_order ValueError ord']
  show ?thesis by auto
qed

definition corrected_order :: order_projection where
  "corrected_order = snd (correct_fill ''f-1'' (PyInt 3) (PyInt 2) ''r-1'' None worked_order)"

definition corrected_busted_order :: order_projection where
  "corrected_busted_order = snd (bust_fill ''f-1'' ''r-2'' None corrected_order)"

theorem redelivered_correction_conflicts_witness:
  "correct_fill ''f-1'' (PyInt 3) (PyInt 2) ''r-1'' None corrected_order = (Inr False, corrected_order)
     \<and> correct_fill ''f-1'' (PyInt 3) (PyInt 2) ''r-1'' None corrected_busted_order
         = (Inl OrderProjectionConflict, corrected_busted_order)"
proof -
  have "correct_fill ''f-1'' (PyInt 3) (PyInt 2) ''r-1'' None worked_order = (Inr True, corrected_order)"
    "bust_fill ''f-1'' ''r-2'' None corrected_order = (Inr True, corrected_busted_order)"
    "correct_fill ''f-1'' (PyInt 3) (PyInt 2) ''r-1'' None corrected_order = (Inr False, corrected_order)"
    "dict_get (fills worked_order) (strip ''f-1'') \<noteq> None"
    "fill_active (the (dict_get (fills worked_order) (strip ''f-1'')))"
    by code_simp+
  then show ?thesis
    using redelivered_correction_conflicts by fastforce
qed

end
