(* ===== verification/Order_Book_Projection.thy ===== *)
theory Order_Book_Projection
  imports Order_Projection "HOL-Library.List_Lexorder" "HOL-Library.Char_ord"
begin

text \<open>
  \<open>OrderBookProjection\<close> and \<open>OcoGroupProjection\<close> of \<open>mvp/autotrade_mvp/order_projection.py\<close>.  Both
  hold references to orders the caller also holds, so the orders live in a store (a list, the address
  of an order is its index) and the aggregates keep addresses.  The registration seal an aggregate is
  bound to outside its own attributes is the field \<open>book_seal\<close> or \<open>group_seal\<close>: the scope and, for
  every registered order, its key, its address and its identity at registration.
\<close>

section \<open>Identities and seals\<close>

type_synonym registration = "string \<times> string \<times> string \<times> string \<times> string \<times> string
  \<times> decimal \<times> string option \<times> string option"

type_synonym scope = "string \<times> string \<times> string"

type_synonym seal_entry = "string \<times> nat \<times> registration"

type_synonym store = "order_projection list"

fun is_finite :: "decimal \<Rightarrow> bool" where
  "is_finite (Decimal _ _ _) = True"
| "is_finite _ = False"

definition registration_identity :: "order_projection \<Rightarrow> registration option" where
  "registration_identity ord =
     (if is_finite (requested_quantity ord)
      then Some (provider_id ord, account_id ord, environment ord, client_order_id ord, instrument ord,
        side ord, requested_quantity ord, oco_group_id ord, parent_intent_id ord)
      else None)"

text \<open>Tuples compare componentwise, the quantity by value.\<close>

fun same_registration :: "registration \<Rightarrow> registration \<Rightarrow> bool" where
  "same_registration (p, a, e, c, i, s, q, g, par) (p', a', e', c', i', s', q', g', par') =
     (p = p' \<and> a = a' \<and> e = e' \<and> c = c' \<and> i = i' \<and> s = s' \<and> dval q = dval q' \<and> g = g' \<and> par = par')"

definition matches :: "registration option \<Rightarrow> registration option \<Rightarrow> bool" where
  "matches expected current =
     (case (expected, current) of (Some x, Some y) \<Rightarrow> same_registration y x | _ \<Rightarrow> False)"

definition deref :: "store \<Rightarrow> nat \<Rightarrow> order_projection option" where
  "deref heap a = (if a < length heap then Some (heap ! a) else None)"

definition aggregate_sealed :: "store \<Rightarrow> bool \<Rightarrow> seal_entry list \<Rightarrow> (string, nat) dict
    \<Rightarrow> (string, registration) dict \<Rightarrow> bool" where
  "aggregate_sealed heap scope_same entries orders identities \<longleftrightarrow>
     length orders = length entries \<and> length identities = length entries
     \<and> list_all (\<lambda>(_, a, _). deref heap a \<noteq> None) entries
     \<and> scope_same
     \<and> list_all (\<lambda>(key, a, identity). dict_get orders key = Some a
          \<and> matches (Some identity) (dict_get identities key)) entries"

section \<open>The order book\<close>

record order_book =
  book_scope :: scope
  book_orders :: "(string, nat) dict"
  book_identities :: "(string, registration) dict"
  amend_children :: "(string, string) dict"
  book_seal :: "scope \<times> seal_entry list"

definition new_order_book :: "string \<Rightarrow> string \<Rightarrow> string \<Rightarrow> order_book result" where
  "new_order_book provider account env =
     rbind (op_text provider) (\<lambda>p. rbind (op_text account) (\<lambda>a. rbind (op_environment env) (\<lambda>e.
       Inr \<lparr>book_scope = (upper p, a, e), book_orders = [], book_identities = [], amend_children = [],
            book_seal = ((upper p, a, e), [])\<rparr>)))"

definition parent_of :: "registration \<Rightarrow> string option" where
  "parent_of identity = (case identity of (_, _, _, _, _, _, _, _, par) \<Rightarrow> par)"

definition expected_pairs :: "seal_entry list \<Rightarrow> (string \<times> string) list" where
  "expected_pairs entries = concat (map (\<lambda>(key, _, identity).
     case parent_of identity of None \<Rightarrow> [] | Some p \<Rightarrow> [(p, key)]) entries)"

definition book_assert_seal :: "store \<Rightarrow> order_book \<Rightarrow> unit result" where
  "book_assert_seal heap b =
     (let entries = snd (book_seal b); pairs = expected_pairs entries in
      rbind (require (aggregate_sealed heap (book_scope b = fst (book_seal b)) entries
          (book_orders b) (book_identities b)) OrderProjectionConflict) (\<lambda>_.
      require (length (amend_children b) = length pairs
          \<and> list_all (\<lambda>(p, c). dict_get (amend_children b) p = Some c) pairs)
        OrderProjectionConflict))"

definition book_assert_registered :: "store \<Rightarrow> order_book \<Rightarrow> string \<Rightarrow> nat \<Rightarrow> unit result" where
  "book_assert_registered heap b key a =
     rbind (book_assert_seal heap b) (\<lambda>_.
       require (matches (dict_get (book_identities b) key)
           (Option.bind (deref heap a) registration_identity)) OrderProjectionConflict)"

text \<open>The checked orders, with the object each address stands for.\<close>

definition checked_orders :: "store \<Rightarrow> order_book \<Rightarrow> (string \<times> order_projection) list result" where
  "checked_orders heap b =
     rbind (book_assert_seal heap b) (\<lambda>_.
       rmap (\<lambda>(key, a). rbind (book_assert_registered heap b key a) (\<lambda>_.
         case deref heap a of None \<Rightarrow> Inl OrderProjectionConflict | Some ord \<Rightarrow> Inr (key, ord)))
       (book_orders b))"

definition book_order :: "store \<Rightarrow> order_book \<Rightarrow> string \<Rightarrow> nat result" where
  "book_order heap b client =
     rbind (book_assert_seal heap b) (\<lambda>_. rbind (op_text client) (\<lambda>order_id.
     rbind (dict_lookup (book_orders b) order_id) (\<lambda>a.
     rbind (book_assert_registered heap b order_id a) (\<lambda>_. Inr a))))"

text \<open>The conditions on the child of an amendment.\<close>

definition check_amendment :: "store \<Rightarrow> order_book \<Rightarrow> order_projection \<Rightarrow> string \<Rightarrow> unit result" where
  "check_amendment heap b ord parent =
     (if dict_get (book_orders b) parent = None then Inl KeyError
      else rbind (book_order heap b parent) (\<lambda>pa.
        case deref heap pa of None \<Rightarrow> Inl OrderProjectionConflict
        | Some parent_order \<Rightarrow>
          if instrument ord \<noteq> instrument parent_order then Inl OrderProjectionConflict
          else if side ord \<noteq> side parent_order then Inl OrderProjectionConflict
          else if oco_group_id ord \<noteq> oco_group_id parent_order then Inl OrderProjectionConflict
          else case dict_get (amend_children b) parent of
            Some child \<Rightarrow> if child \<noteq> client_order_id ord then Inl OrderProjectionConflict else Inr ()
          | None \<Rightarrow> Inr ()))"

definition enter_order :: "nat \<Rightarrow> order_projection \<Rightarrow> registration \<Rightarrow> order_book \<Rightarrow> order_book" where
  "enter_order a ord identity b = b\<lparr>
     amend_children := (case parent_intent_id ord of None \<Rightarrow> amend_children b
        | Some p \<Rightarrow> dict_set (amend_children b) p (client_order_id ord)),
     book_orders := dict_set (book_orders b) (client_order_id ord) a,
     book_identities := dict_set (book_identities b) (client_order_id ord) identity,
     book_seal := (fst (book_seal b), snd (book_seal b) @ [(client_order_id ord, a, identity)])\<rparr>"

text \<open>\<open>register(order)\<close> for the object at address \<open>a\<close>; \<open>existing_order is order\<close> compares addresses.\<close>

definition book_register :: "store \<Rightarrow> nat \<Rightarrow> (order_book, bool) operation" where
  "book_register heap a b =
     raising (book_assert_seal heap b) (\<lambda>_ b.
     case deref heap a of None \<Rightarrow> (Inl TypeError, b)
     | Some ord \<Rightarrow>
     case registration_identity ord of None \<Rightarrow> (Inl OrderProjectionConflict, b)
     | Some identity \<Rightarrow>
     raising (checked_orders heap b) (\<lambda>_ b.
     case find (\<lambda>(_, x). x = a) (book_orders b) of
       Some (registered_id, x) \<Rightarrow>
         raising (book_assert_registered heap b registered_id x) (\<lambda>_ b. (Inr False, b)) b
     | None \<Rightarrow>
       if (provider_id ord, account_id ord, environment ord) \<noteq> book_scope b
         then (Inl OrderProjectionConflict, b)
       else if dict_get (book_orders b) (client_order_id ord) \<noteq> None
         then (Inl OrderProjectionConflict, b)
       else raising (case parent_intent_id ord of None \<Rightarrow> Inr ()
             | Some p \<Rightarrow> check_amendment heap b ord p) (\<lambda>_ b.
           (Inr True, enter_order a ord identity b)) b) b) b"

text \<open>\<open>create\<close> allocates the order, then registers it; the object of a refused registration is
  unreachable.\<close>

definition book_create :: "string \<Rightarrow> string \<Rightarrow> string \<Rightarrow> pynum \<Rightarrow> string option \<Rightarrow> string option
    \<Rightarrow> (store \<times> order_book, nat) operation" where
  "book_create client instr sd requested oco parent s =
     (case s of (heap, b) \<Rightarrow>
      raising (book_assert_seal heap b) (\<lambda>_.
      raising (case book_scope b of (p, ac, e) \<Rightarrow> new_order p ac e client instr sd requested oco parent)
        (\<lambda>ord (heap, b).
          case book_register (heap @ [ord]) (length heap) b of
            (Inl e, b') \<Rightarrow> (Inl e, (heap @ [ord], b'))
          | (Inr _, b') \<Rightarrow> (Inr (length heap), (heap @ [ord], b')))) (heap, b))"

definition amendment_child :: "store \<Rightarrow> order_book \<Rightarrow> string \<Rightarrow> string option result" where
  "amendment_child heap b parent =
     rbind (book_assert_seal heap b) (\<lambda>_. rbind (op_text parent) (\<lambda>parent_id.
     rbind (case dict_get (book_orders b) parent_id of None \<Rightarrow> Inr ()
            | Some a \<Rightarrow> book_assert_registered heap b parent_id a) (\<lambda>_.
     case dict_get (amend_children b) parent_id of
       None \<Rightarrow> Inr None
     | Some child \<Rightarrow> rbind (dict_lookup (book_orders b) child) (\<lambda>a.
         rbind (book_assert_registered heap b child a) (\<lambda>_. Inr (Some child))))))"

section \<open>Queries across orders\<close>

definition own_execution :: "string \<Rightarrow> (string, string) dict \<Rightarrow> fill_record \<Rightarrow> (string, string) dict result" where
  "own_execution key owners observation =
     (let prior = dict_get owners (provider_execution_id observation) in
      if prior \<noteq> None \<and> prior \<noteq> Some key then Inl OrderProjectionConflict
      else Inr (dict_set owners (provider_execution_id observation) key))"

definition effective_step :: "fill_record list \<times> (string, string) dict \<Rightarrow> string \<times> order_projection
    \<Rightarrow> (fill_record list \<times> (string, string) dict) result" where
  "effective_step st item =
     (case (st, item) of ((collected, owners), (key, ord)) \<Rightarrow>
       rbind (rfold (own_execution key) owners (fill_history ord)) (\<lambda>owners'.
         Inr (collected @ active_fills ord, owners')))"

definition effective_fills :: "store \<Rightarrow> order_book \<Rightarrow> fill_record list result" where
  "effective_fills heap b = rbind (checked_orders heap b) (\<lambda>orders.
     rbind (rfold effective_step ([], []) orders) (\<lambda>(collected, _). Inr collected))"

definition breach_step :: "bool \<Rightarrow> (string, string list) dict \<Rightarrow> string \<times> order_projection
    \<Rightarrow> (string, string list) dict result" where
  "breach_step historical groups item =
     (case item of (key, ord) \<Rightarrow>
      case oco_group_id ord of None \<Rightarrow> Inr groups
      | Some g \<Rightarrow>
        rbind (if historical then Inr (historical_execution_observed ord)
               else rbind (filled_quantity ord) (\<lambda>f. Inr (0 < dval f))) (\<lambda>observed.
        if \<not> observed then Inr groups
        else Inr (dict_set groups g
          ((case dict_get groups g of None \<Rightarrow> [] | Some ks \<Rightarrow> ks) @ [key]))))"

definition book_oco_breaches :: "bool \<Rightarrow> store \<Rightarrow> order_book \<Rightarrow> (string, string list) dict result" where
  "book_oco_breaches historical heap b = rbind (checked_orders heap b) (\<lambda>orders.
     rbind (rfold (breach_step historical) [] orders) (\<lambda>groups.
       Inr (map (\<lambda>(g, ks). (g, sort ks)) (filter (\<lambda>(g, ks). 1 < length ks) groups))))"

definition oco_breaches :: "store \<Rightarrow> order_book \<Rightarrow> (string, string list) dict result" where
  "oco_breaches heap b = book_oco_breaches True heap b"

definition active_oco_breaches :: "store \<Rightarrow> order_book \<Rightarrow> (string, string list) dict result" where
  "active_oco_breaches heap b = book_oco_breaches False heap b"

definition book_snapshots :: "store \<Rightarrow> order_book \<Rightarrow> order_snapshot list result" where
  "book_snapshots heap b = rbind (book_oco_breaches True heap b) (\<lambda>breaches.
     let violated = concat (dict_values breaches) in
     rbind (checked_orders heap b) (\<lambda>orders.
       rmap (\<lambda>(key, ord). snapshot_order (Some (key \<in> set violated)) ord) orders))"

section \<open>OCO groups\<close>

record oco_group =
  group_id :: string
  group_orders :: "(string, nat) dict"
  group_identities :: "(string, registration) dict"
  group_scope :: "scope option"
  group_seal :: "(string \<times> scope option) \<times> seal_entry list"

definition new_oco_group :: "string \<Rightarrow> oco_group result" where
  "new_oco_group g = rbind (op_text g) (\<lambda>t.
     Inr \<lparr>group_id = t, group_orders = [], group_identities = [], group_scope = None,
          group_seal = ((t, None), [])\<rparr>)"

definition group_assert_seal :: "store \<Rightarrow> oco_group \<Rightarrow> unit result" where
  "group_assert_seal heap g =
     require (aggregate_sealed heap ((group_id g, group_scope g) = fst (group_seal g))
       (snd (group_seal g)) (group_orders g) (group_identities g)) OrderProjectionConflict"

definition group_assert_registered :: "store \<Rightarrow> oco_group \<Rightarrow> string \<Rightarrow> nat \<Rightarrow> unit result" where
  "group_assert_registered heap g key a =
     rbind (group_assert_seal heap g) (\<lambda>_.
       require (matches (dict_get (group_identities g) key)
           (Option.bind (deref heap a) registration_identity)) OrderProjectionConflict)"

definition group_checked_orders :: "store \<Rightarrow> oco_group \<Rightarrow> order_projection list result" where
  "group_checked_orders heap g =
     rbind (group_assert_seal heap g) (\<lambda>_.
       rmap (\<lambda>(key, a). rbind (group_assert_registered heap g key a) (\<lambda>_.
         case deref heap a of None \<Rightarrow> Inl OrderProjectionConflict | Some ord \<Rightarrow> Inr ord))
       (group_orders g))"

text \<open>The peers' common scope is fixed by the first order, before its key is looked at.\<close>

definition group_add :: "store \<Rightarrow> nat \<Rightarrow> (oco_group, unit) operation" where
  "group_add heap a g =
     raising (group_assert_seal heap g) (\<lambda>_ g.
     case deref heap a of None \<Rightarrow> (Inl TypeError, g)
     | Some ord \<Rightarrow>
     case registration_identity ord of None \<Rightarrow> (Inl OrderProjectionConflict, g)
     | Some identity \<Rightarrow>
     raising (group_checked_orders heap g) (\<lambda>_ g.
     case find (\<lambda>(_, x). x = a) (group_orders g) of
       Some (registered_id, x) \<Rightarrow>
         raising (group_assert_registered heap g registered_id x) (\<lambda>_ g. (Inr (), g)) g
     | None \<Rightarrow>
       if oco_group_id ord \<noteq> Some (group_id g) then (Inl ValueError, g)
       else let scope = (provider_id ord, account_id ord, environment ord) in
       if group_scope g \<noteq> None \<and> group_scope g \<noteq> Some scope then (Inl OrderProjectionConflict, g)
       else let g = g\<lparr>group_scope := Some scope\<rparr> in
       if dict_get (group_orders g) (client_order_id ord) \<noteq> None
         then (Inl OrderProjectionConflict, g)
       else (Inr (), g\<lparr>
         group_orders := dict_set (group_orders g) (client_order_id ord) a,
         group_identities := dict_set (group_identities g) (client_order_id ord) identity,
         group_seal := ((group_id g, Some scope),
           snd (group_seal g) @ [(client_order_id ord, a, identity)])\<rparr>)) g) g"

definition group_refresh :: "store \<Rightarrow> oco_group \<Rightarrow> bool result" where
  "group_refresh heap g = rbind (group_checked_orders heap g) (\<lambda>orders.
     Inr (1 < length (filter historical_execution_observed orders)))"


section \<open>Invariants\<close>

definition sealed_ok :: "store \<Rightarrow> (string, nat) dict \<Rightarrow> (string, registration) dict \<Rightarrow> seal_entry list \<Rightarrow> bool" where
  "sealed_ok heap orders identities entries \<longleftrightarrow> dict_ok orders
     \<and> (\<forall>(k, a) \<in> set orders. a < length heap \<and> client_order_id (heap ! a) = k)
     \<and> identities = map (\<lambda>(k, a). (k, order_identity (heap ! a))) orders
     \<and> entries = map (\<lambda>(k, a). (k, a, order_identity (heap ! a))) orders"

definition order_scope :: "order_projection \<Rightarrow> scope" where
  "order_scope ord = (provider_id ord, account_id ord, environment ord)"

definition amends :: "store \<Rightarrow> (string, nat) dict \<Rightarrow> order_projection \<Rightarrow> bool" where
  "amends heap orders ord \<longleftrightarrow> (case parent_intent_id ord of None \<Rightarrow> True
     | Some p \<Rightarrow> \<exists>a. dict_get orders p = Some a \<and> instrument ord = instrument (heap ! a)
         \<and> side ord = side (heap ! a) \<and> oco_group_id ord = oco_group_id (heap ! a))"

definition order_book_ok :: "store \<Rightarrow> order_book \<Rightarrow> bool" where
  "order_book_ok heap b \<longleftrightarrow> sealed_ok heap (book_orders b) (book_identities b) (snd (book_seal b))
     \<and> fst (book_seal b) = book_scope b
     \<and> amend_children b = expected_pairs (snd (book_seal b)) \<and> dict_ok (amend_children b)
     \<and> (\<forall>(k, a) \<in> set (book_orders b). order_scope (heap ! a) = book_scope b
          \<and> amends heap (book_orders b) (heap ! a))"

definition group_ok :: "store \<Rightarrow> oco_group \<Rightarrow> bool" where
  "group_ok heap g \<longleftrightarrow> sealed_ok heap (group_orders g) (group_identities g) (snd (group_seal g))
     \<and> fst (group_seal g) = (group_id g, group_scope g)
     \<and> (group_scope g = None \<longleftrightarrow> group_orders g = [])
     \<and> (\<forall>(k, a) \<in> set (group_orders g). Some (order_scope (heap ! a)) = group_scope g
          \<and> oco_group_id (heap ! a) = Some (group_id g))"

definition parent_normal :: "order_projection \<Rightarrow> bool" where
  "parent_normal ord \<longleftrightarrow> (case parent_intent_id ord of None \<Rightarrow> True | Some p \<Rightarrow> strip p = p)"

definition heap_ok :: "store \<Rightarrow> bool" where
  "heap_ok heap \<longleftrightarrow> list_all (\<lambda>ord. order_ok ord \<and> parent_normal ord) heap"

text \<open>Later heaps keep every object, and every object its identity and its history.\<close>

definition heap_le :: "store \<Rightarrow> store \<Rightarrow> bool" where
  "heap_le h h' \<longleftrightarrow> length h \<le> length h' \<and> (\<forall>a < length h. order_le (h ! a) (h' ! a))"

lemma identity_fields:
  assumes "order_identity x = order_identity y"
  shows "client_order_id x = client_order_id y" "parent_intent_id x = parent_intent_id y"
    "oco_group_id x = oco_group_id y" "instrument x = instrument y" "side x = side y"
    "order_scope x = order_scope y"
  using assms by (simp_all add: order_identity_def order_scope_def)

lemma heap_le_refl: "heap_le h h"
  by (simp add: heap_le_def order_le_refl)

lemma heap_le_trans: "heap_le h h' \<Longrightarrow> heap_le h' h'' \<Longrightarrow> heap_le h h''"
  unfolding heap_le_def using order_le_trans by (meson order_less_le_trans order_trans)

lemma heap_le_identity: "heap_le h h' \<Longrightarrow> a < length h \<Longrightarrow> order_identity (h' ! a) = order_identity (h ! a)"
  by (simp add: heap_le_def order_le_def)

lemma heap_le_append: "heap_le h (h @ [x])"
  by (simp add: heap_le_def nth_append order_le_refl)

lemma heap_le_call: "heap_ok h \<Longrightarrow> a < length h \<Longrightarrow> heap_le h (h[a := snd (run_order c (h ! a))])"
  by (auto simp: heap_le_def heap_ok_def list_all_length nth_list_update order_le_refl run_order_le)

lemma heap_ok_call: "heap_ok h \<Longrightarrow> a < length h \<Longrightarrow> heap_ok (h[a := snd (run_order c (h ! a))])"
  using identity_fields(2) [OF run_order_identity, of "h ! a" c]
  by (auto simp: heap_ok_def list_all_length nth_list_update run_order_ok parent_normal_def)

lemma sealed_ok_later:
  assumes "sealed_ok h orders ids es" and "heap_le h h'"
  shows "sealed_ok h' orders ids es"
proof -
  have same: "a < length h'" "order_identity (h' ! a) = order_identity (h ! a)"
    "client_order_id (h' ! a) = k" if "(k, a) \<in> set orders" for k a
  proof -
    from that assms(1) have a: "a < length h" "client_order_id (h ! a) = k" by (auto simp: sealed_ok_def)
    then show "a < length h'" using assms(2) by (simp add: heap_le_def)
    show "order_identity (h' ! a) = order_identity (h ! a)" using heap_le_identity [OF assms(2) a(1)] .
    from identity_fields(1) [OF this] a(2) show "client_order_id (h' ! a) = k" by simp
  qed
  have maps: "map (\<lambda>(k, a). (k, order_identity (h' ! a))) orders = map (\<lambda>(k, a). (k, order_identity (h ! a))) orders"
    "map (\<lambda>(k, a). (k, a, order_identity (h' ! a))) orders = map (\<lambda>(k, a). (k, a, order_identity (h ! a))) orders"
    using same(2) by auto
  show ?thesis
    using assms(1) same(1,3) unfolding sealed_ok_def maps by blast
qed

lemma sealed_ok_mem:
  assumes "sealed_ok h orders ids es" and "(k, a) \<in> set orders"
  shows "a < length h" "client_order_id (h ! a) = k" "dict_get orders k = Some a"
  using assms by (auto simp: sealed_ok_def dict_mem_get)

lemma amends_later:
  assumes "sealed_ok h orders ids es" and "heap_le h h'" and "order_identity x' = order_identity x"
    and "amends h orders x"
  shows "amends h' orders x'"
proof (cases "parent_intent_id x")
  case None
  then show ?thesis using identity_fields [OF assms(3)] by (simp add: amends_def)
next
  case (Some p)
  with assms(4) obtain a where a: "dict_get orders p = Some a" "instrument x = instrument (h ! a)"
    "side x = side (h ! a)" "oco_group_id x = oco_group_id (h ! a)"
    by (auto simp: amends_def)
  from a(1) have "a < length h" using sealed_ok_mem(1) [OF assms(1)] dict_get_mem by fast
  from identity_fields [OF heap_le_identity [OF assms(2) this]] identity_fields [OF assms(3)]
  show ?thesis using a Some by (simp add: amends_def)
qed

lemma book_ok_later:
  assumes "order_book_ok h b" and "heap_le h h'"
  shows "order_book_ok h' b"
proof -
  have s: "sealed_ok h (book_orders b) (book_identities b) (snd (book_seal b))"
    using assms(1) by (simp add: order_book_ok_def)
  have "order_scope (h' ! a) = book_scope b \<and> amends h' (book_orders b) (h' ! a)"
    if "(k, a) \<in> set (book_orders b)" for k a
  proof -
    have id: "order_identity (h' ! a) = order_identity (h ! a)"
      using heap_le_identity [OF assms(2) sealed_ok_mem(1) [OF s that]] .
    then show ?thesis
      using amends_later [OF s assms(2) id] identity_fields(6) [OF id] assms(1) that
      by (auto simp: order_book_ok_def)
  qed
  then show ?thesis
    using assms(1) sealed_ok_later [OF s assms(2)] by (auto simp: order_book_ok_def)
qed

lemma group_ok_later:
  assumes "group_ok h g" and "heap_le h h'"
  shows "group_ok h' g"
proof -
  have s: "sealed_ok h (group_orders g) (group_identities g) (snd (group_seal g))"
    using assms(1) by (simp add: group_ok_def)
  have "Some (order_scope (h' ! a)) = group_scope g \<and> oco_group_id (h' ! a) = Some (group_id g)"
    if "(k, a) \<in> set (group_orders g)" for k a
    using identity_fields(3,6) [OF heap_le_identity [OF assms(2) sealed_ok_mem(1) [OF s that]]]
      assms(1) that by (auto simp: group_ok_def)
  then show ?thesis
    using assms(1) sealed_ok_later [OF s assms(2)] by (auto simp: group_ok_def)
qed

section \<open>The guards in reachable states\<close>

lemma same_registration_refl [simp]: "same_registration x x"
  by (cases "(x, x)" rule: same_registration.cases) auto

lemma heap_okD: "heap_ok h \<Longrightarrow> a < length h \<Longrightarrow> order_ok (h ! a)"
  and heap_parent: "heap_ok h \<Longrightarrow> a < length h \<Longrightarrow> parent_normal (h ! a)"
  by (simp_all add: heap_ok_def list_all_length)

lemma registration_identity_eq: "order_ok ord \<Longrightarrow> registration_identity ord = Some (order_identity ord)"
proof -
  assume "order_ok ord"
  then have "in_envelope (requested_quantity ord)" using order_okD(5) by (auto simp: flags_ok_def)
  then have "is_finite (requested_quantity ord)"
    by (cases "requested_quantity ord") (auto simp: in_envelope_def)
  then show ?thesis by (simp add: registration_identity_def order_identity_def)
qed

lemma sealed_ok_identities:
  assumes "sealed_ok h orders ids es" and "(k, a) \<in> set orders"
  shows "dict_get ids k = Some (order_identity (h ! a))"
proof -
  have "dict_get ids k = map_option (\<lambda>a. order_identity (h ! a)) (dict_get orders k)"
    using assms(1) by (simp add: sealed_ok_def map_of_map)
  then show ?thesis using sealed_ok_mem(3) [OF assms] by simp
qed

lemma sealed_ok_seal:
  assumes "sealed_ok h orders ids es"
  shows "aggregate_sealed h True es orders ids"
proof -
  have "length orders = length es" "length ids = length es" using assms by (simp_all add: sealed_ok_def)
  moreover have es: "es = map (\<lambda>(k, a). (k, a, order_identity (h ! a))) orders"
    using assms by (simp add: sealed_ok_def)
  ultimately show ?thesis
    using sealed_ok_mem [OF assms] sealed_ok_identities [OF assms]
    by (auto simp: aggregate_sealed_def es list_all_iff deref_def matches_def)
qed

lemma book_sealed: "order_book_ok h b \<Longrightarrow> book_assert_seal h b = Inr ()"
  by (auto simp: book_assert_seal_def order_book_ok_def Let_def sealed_ok_seal require_def list_all_iff
      intro: dict_mem_get)

lemma group_sealed: "group_ok h g \<Longrightarrow> group_assert_seal h g = Inr ()"
  by (auto simp: group_assert_seal_def group_ok_def sealed_ok_seal)

lemma book_registered:
  assumes "order_book_ok h b" and "heap_ok h" and "(k, a) \<in> set (book_orders b)"
  shows "book_assert_registered h b k a = Inr ()"
proof -
  have s: "sealed_ok h (book_orders b) (book_identities b) (snd (book_seal b))"
    using assms(1) by (simp add: order_book_ok_def)
  have a: "a < length h" using sealed_ok_mem(1) [OF s assms(3)] .
  show ?thesis
    using book_sealed [OF assms(1)] sealed_ok_identities [OF s assms(3)] a
      registration_identity_eq [OF heap_okD [OF assms(2) a]]
    by (simp add: book_assert_registered_def deref_def matches_def)
qed

lemma group_registered:
  assumes "group_ok h g" and "heap_ok h" and "(k, a) \<in> set (group_orders g)"
  shows "group_assert_registered h g k a = Inr ()"
proof -
  have s: "sealed_ok h (group_orders g) (group_identities g) (snd (group_seal g))"
    using assms(1) by (simp add: group_ok_def)
  have a: "a < length h" using sealed_ok_mem(1) [OF s assms(3)] .
  show ?thesis
    using group_sealed [OF assms(1)] sealed_ok_identities [OF s assms(3)] a
      registration_identity_eq [OF heap_okD [OF assms(2) a]]
    by (simp add: group_assert_registered_def deref_def matches_def)
qed

lemma book_checked:
  assumes "order_book_ok h b" and "heap_ok h"
  shows "checked_orders h b = Inr (map (\<lambda>(k, a). (k, h ! a)) (book_orders b))"
proof -
  have s: "sealed_ok h (book_orders b) (book_identities b) (snd (book_seal b))"
    using assms(1) by (simp add: order_book_ok_def)
  show ?thesis
    unfolding checked_orders_def
    by (auto simp: book_sealed [OF assms(1)] book_registered [OF assms] deref_def
        sealed_ok_mem(1) [OF s] intro!: rmap_cong_all)
qed

lemma group_checked:
  assumes "group_ok h g" and "heap_ok h"
  shows "group_checked_orders h g = Inr (map (\<lambda>(k, a). h ! a) (group_orders g))"
proof -
  have s: "sealed_ok h (group_orders g) (group_identities g) (snd (group_seal g))"
    using assms(1) by (simp add: group_ok_def)
  show ?thesis
    unfolding group_checked_orders_def
    by (auto simp: group_sealed [OF assms(1)] group_registered [OF assms] deref_def
        sealed_ok_mem(1) [OF s] intro!: rmap_cong_all)
qed


section \<open>Registration\<close>

lemma sealed_ok_enter:
  assumes "sealed_ok h orders ids es" and "a < length h" and "dict_get orders (client_order_id (h ! a)) = None"
  shows "sealed_ok h (dict_set orders (client_order_id (h ! a)) a)
      (dict_set ids (client_order_id (h ! a)) (order_identity (h ! a)))
      (es @ [(client_order_id (h ! a), a, order_identity (h ! a))])"
proof -
  let ?k = "client_order_id (h ! a)"
  have "dict_get ids ?k = None"
    using assms(1,3) by (simp add: sealed_ok_def map_of_map)
  moreover have "dict_ok (orders @ [(?k, a)])"
    using assms(1) dict_ok_set [of orders ?k a] dict_set_new [OF assms(3)] by (simp add: sealed_ok_def)
  ultimately show ?thesis
    using assms by (auto simp: sealed_ok_def dict_set_new)
qed

lemma find_address_None: "find (\<lambda>(_, x). x = a) orders = None \<Longrightarrow> (k, a) \<notin> set orders"
  by (auto simp: find_None_iff)

lemma find_address_Some: "find (\<lambda>(_, x). x = a) orders = Some (k, x) \<Longrightarrow> (k, x) \<in> set orders"
  by (auto simp: find_Some_iff in_set_conv_nth)

lemma amendment_returns:
  assumes "check_amendment h b ord p = Inr ()" and "order_book_ok h b"
    and "dict_get (book_orders b) (client_order_id ord) = None" and "strip p = p"
  shows "\<exists>a. dict_get (book_orders b) p = Some a \<and> instrument ord = instrument (h ! a)
      \<and> side ord = side (h ! a) \<and> oco_group_id ord = oco_group_id (h ! a)"
    and "dict_get (amend_children b) p = None"
proof -
  have s: "sealed_ok h (book_orders b) (book_identities b) (snd (book_seal b))"
    using assms(2) by (simp add: order_book_ok_def)
  from assms(1) obtain a where a: "dict_get (book_orders b) (strip p) = Some a"
    and p: "dict_get (book_orders b) p \<noteq> None" and h: "deref h a \<noteq> None"
    "instrument ord = instrument (h ! a)" "side ord = side (h ! a)" "oco_group_id ord = oco_group_id (h ! a)"
    by (auto simp: check_amendment_def book_order_def deref_def split: if_splits option.splits)
  show "dict_get (amend_children b) p = None"
  proof (rule ccontr)
    assume "dict_get (amend_children b) p \<noteq> None"
    then obtain c where c: "dict_get (amend_children b) p = Some c" by auto
    then have "c = client_order_id ord"
      using assms(1) by (auto simp: check_amendment_def split: if_splits option.splits)
    moreover from c have "(p, c) \<in> set (expected_pairs (snd (book_seal b)))"
      using assms(2) by (auto simp: order_book_ok_def dest: dict_get_mem)
    then have "c \<in> set (dict_keys (book_orders b))"
      using s by (force simp: expected_pairs_def sealed_ok_def split: option.splits)
    ultimately show False using assms(3) by (simp add: dict_get_None_iff)
  qed
  show "\<exists>a. dict_get (book_orders b) p = Some a \<and> instrument ord = instrument (h ! a)
      \<and> side ord = side (h ! a) \<and> oco_group_id ord = oco_group_id (h ! a)"
    using a h assms(4) by auto
qed

lemma register_effect:
  assumes "book_register h a b = (res, b')" and "order_book_ok h b" and "heap_ok h"
  shows "b' = b \<or> a < length h \<and> res = Inr True \<and> b' = enter_order a (h ! a) (order_identity (h ! a)) b
    \<and> order_scope (h ! a) = book_scope b \<and> dict_get (book_orders b) (client_order_id (h ! a)) = None
    \<and> (case parent_intent_id (h ! a) of None \<Rightarrow> True | Some p \<Rightarrow> check_amendment h b (h ! a) p = Inr ())"
proof (cases "a < length h")
  case True
  have d: "deref h a = Some (h ! a)" using True by (simp add: deref_def)
  show ?thesis
    using assms(1) True registration_identity_eq [OF heap_okD [OF assms(3) True]]
    by (auto simp: book_register_def book_sealed [OF assms(2)] book_checked [OF assms(2,3)] d
        order_scope_def raising_def split: option.splits if_splits sum.splits)
next
  case False
  then show ?thesis
    using assms(1) by (simp add: book_register_def book_sealed [OF assms(2)] deref_def)
qed

lemma register_ok:
  assumes "book_register h a b = (res, b')" and "order_book_ok h b" and "heap_ok h"
  shows "order_book_ok h b'"
proof (cases "b' = b")
  case False
  let ?x = "h ! a"
  from register_effect [OF assms] False have a: "a < length h"
    and b': "b' = enter_order a ?x (order_identity ?x) b" and sc: "order_scope ?x = book_scope b"
    and new: "dict_get (book_orders b) (client_order_id ?x) = None"
    and par: "case parent_intent_id ?x of None \<Rightarrow> True | Some p \<Rightarrow> check_amendment h b ?x p = Inr ()"
    by auto
  have s: "sealed_ok h (book_orders b) (book_identities b) (snd (book_seal b))"
    and ch: "amend_children b = expected_pairs (snd (book_seal b))" "dict_ok (amend_children b)"
    using assms(2) by (auto simp: order_book_ok_def)
  have pi: "parent_of (order_identity ?x) = parent_intent_id ?x"
    by (simp add: parent_of_def order_identity_def)
  have orders: "book_orders b' = book_orders b @ [(client_order_id ?x, a)]"
    using new by (simp add: b' enter_order_def dict_set_new)
  have get: "dict_get (book_orders b) p = Some y \<Longrightarrow> dict_get (book_orders b') p = Some y" for p y
    using new by (auto simp: b' enter_order_def)
  have am: "amends h (book_orders b') y" if "amends h (book_orders b) y" for y
    using that get unfolding amends_def by (fastforce split: option.splits)
  have mine: "amends h (book_orders b') ?x \<and> amend_children b' = expected_pairs (snd (book_seal b'))
      \<and> dict_ok (amend_children b')"
  proof (cases "parent_intent_id ?x")
    case None
    then show ?thesis using ch pi by (simp add: b' enter_order_def expected_pairs_def amends_def)
  next
    case (Some p)
    then have "strip p = p" using heap_parent [OF assms(3) a] by (simp add: parent_normal_def)
    note ret = amendment_returns [OF _ assms(2) new this]
    have ck: "check_amendment h b ?x p = Inr ()" using par Some by simp
    obtain y where "dict_get (book_orders b) p = Some y" "instrument ?x = instrument (h ! y)"
      "side ?x = side (h ! y)" "oco_group_id ?x = oco_group_id (h ! y)"
      using ret(1) [OF ck] by blast
    then have "amends h (book_orders b') ?x" using get Some by (auto simp: amends_def)
    moreover have "amend_children b' = amend_children b @ [(p, client_order_id ?x)]"
      "dict_ok (amend_children b')"
      using ret(2) [OF ck] Some dict_set_new dict_ok_set [OF ch(2)] by (simp_all add: b' enter_order_def)
    moreover have "expected_pairs (snd (book_seal b')) = expected_pairs (snd (book_seal b)) @ [(p, client_order_id ?x)]"
      using pi Some by (simp add: b' enter_order_def expected_pairs_def)
    ultimately show ?thesis using ch by simp
  qed
  moreover have "sealed_ok h (book_orders b') (book_identities b') (snd (book_seal b'))"
    using sealed_ok_enter [OF s a new] by (simp add: b' enter_order_def)
  moreover have "fst (book_seal b') = book_scope b'" "book_scope b' = book_scope b"
    using assms(2) by (auto simp: b' enter_order_def order_book_ok_def)
  moreover have "order_scope (h ! y) = book_scope b \<and> amends h (book_orders b') (h ! y)"
    if "(k, y) \<in> set (book_orders b')" for k y
    using that orders mine sc am assms(2) by (auto simp: order_book_ok_def)
  ultimately show ?thesis unfolding order_book_ok_def by auto
qed (use assms in simp)

lemma group_add_effect:
  assumes "group_add h a g = (res, g')" and "group_ok h g" and "heap_ok h"
  shows "g' = g \<or> a < length h \<and> res = Inr () \<and> oco_group_id (h ! a) = Some (group_id g)
    \<and> (group_scope g = None \<or> group_scope g = Some (order_scope (h ! a)))
    \<and> dict_get (group_orders g) (client_order_id (h ! a)) = None
    \<and> g' = g\<lparr>group_scope := Some (order_scope (h ! a)),
         group_orders := dict_set (group_orders g) (client_order_id (h ! a)) a,
         group_identities := dict_set (group_identities g) (client_order_id (h ! a)) (order_identity (h ! a)),
         group_seal := ((group_id g, Some (order_scope (h ! a))),
           snd (group_seal g) @ [(client_order_id (h ! a), a, order_identity (h ! a))])\<rparr>"
proof (cases "a < length h")
  case True
  have d: "deref h a = Some (h ! a)" using True by (simp add: deref_def)
  have empty: "group_scope g = None \<Longrightarrow> group_orders g = []" using assms(2) by (simp add: group_ok_def)
  note run = assms(1) [unfolded group_add_def, simplified group_sealed [OF assms(2)]
      group_checked [OF assms(2,3)] d registration_identity_eq [OF heap_okD [OF assms(3) True]]
      raising_simps option.case]
  show ?thesis
  proof (cases "group_scope g")
    case None
    then show ?thesis
      using run True empty by (auto simp: order_scope_def Let_def split: if_splits)
  next
    case (Some sc)
    then have same: "g\<lparr>group_scope := Some sc\<rparr> = g" by simp
    show ?thesis
      using run True Some same
      by (auto simp: order_scope_def raising_def Let_def split: option.splits if_splits sum.splits)
  qed
next
  case False
  then show ?thesis
    using assms(1) by (simp add: group_add_def group_sealed [OF assms(2)] deref_def)
qed

lemma group_add_ok:
  assumes "group_add h a g = (res, g')" and "group_ok h g" and "heap_ok h"
  shows "group_ok h g'"
proof (cases "g' = g")
  case False
  from group_add_effect [OF assms] False have a: "a < length h"
    and gid: "oco_group_id (h ! a) = Some (group_id g)"
    and sc: "group_scope g = None \<or> group_scope g = Some (order_scope (h ! a))"
    and new: "dict_get (group_orders g) (client_order_id (h ! a)) = None"
    and g': "g' = g\<lparr>group_scope := Some (order_scope (h ! a)),
         group_orders := dict_set (group_orders g) (client_order_id (h ! a)) a,
         group_identities := dict_set (group_identities g) (client_order_id (h ! a)) (order_identity (h ! a)),
         group_seal := ((group_id g, Some (order_scope (h ! a))),
           snd (group_seal g) @ [(client_order_id (h ! a), a, order_identity (h ! a))])\<rparr>"
    by auto
  have s: "sealed_ok h (group_orders g) (group_identities g) (snd (group_seal g))"
    and old: "group_scope g = None \<longleftrightarrow> group_orders g = []"
    "\<forall>(k, a) \<in> set (group_orders g). Some (order_scope (h ! a)) = group_scope g
          \<and> oco_group_id (h ! a) = Some (group_id g)"
    using assms(2) by (auto simp: group_ok_def)
  show ?thesis
    using sealed_ok_enter [OF s a new] old sc gid unfolding g' group_ok_def
    by (auto simp: dict_set_new [OF new])
qed (use assms in simp)


section \<open>The system of orders, book and group\<close>

record order_system =
  heap :: store
  the_book :: order_book
  the_group :: oco_group

datatype system_call =
    New_Order string string string string string string pynum "string option" "string option"
  | Register nat
  | Create string string string pynum "string option" "string option"
  | Add_Peer nat
  | On_Order nat order_call

text \<open>An address that was never allocated names no object.\<close>

fun run_system :: "system_call \<Rightarrow> (order_system, bool option) operation" where
  "run_system (New_Order p ac e c i sd q g par) s =
     raising (new_order p ac e c i sd q g par) (\<lambda>ord s. (Inr None, s\<lparr>heap := heap s @ [ord]\<rparr>)) s"
| "run_system (Register a) s =
     (case book_register (heap s) a (the_book s) of (r, b') \<Rightarrow> (map_sum id Some r, s\<lparr>the_book := b'\<rparr>))"
| "run_system (Create c i sd q g par) s =
     (case book_create c i sd q g par (heap s, the_book s) of (r, h', b') \<Rightarrow>
        (map_sum id (\<lambda>_. None) r, s\<lparr>heap := h', the_book := b'\<rparr>))"
| "run_system (Add_Peer a) s =
     (case group_add (heap s) a (the_group s) of (r, g') \<Rightarrow> (map_sum id (\<lambda>_. None) r, s\<lparr>the_group := g'\<rparr>))"
| "run_system (On_Order a c) s =
     (case deref (heap s) a of None \<Rightarrow> (Inl TypeError, s)
      | Some ord \<Rightarrow> (case run_order c ord of (r, ord') \<Rightarrow> (r, s\<lparr>heap := (heap s)[a := ord']\<rparr>)))"

definition system_ok :: "order_system \<Rightarrow> bool" where
  "system_ok s \<longleftrightarrow> heap_ok (heap s) \<and> order_book_ok (heap s) (the_book s) \<and> group_ok (heap s) (the_group s)"

text \<open>Objects keep their identity and history, the book and the group their registrations.\<close>

definition system_le :: "order_system \<Rightarrow> order_system \<Rightarrow> bool" where
  "system_le s t \<longleftrightarrow> heap_le (heap s) (heap t)
     \<and> (\<exists>more. book_orders (the_book t) = book_orders (the_book s) @ more)
     \<and> (\<exists>more. group_orders (the_group t) = group_orders (the_group s) @ more)
     \<and> book_scope (the_book t) = book_scope (the_book s) \<and> group_id (the_group t) = group_id (the_group s)"

lemma system_le_refl: "system_le s s"
  by (simp add: system_le_def heap_le_refl)

lemma system_le_trans: "system_le s t \<Longrightarrow> system_le t u \<Longrightarrow> system_le s u"
  unfolding system_le_def
  by (elim conjE exE, intro conjI) (erule (1) heap_le_trans | simp)+

lemma new_order_parent: "new_order p a e c i s q g par = Inr ord \<Longrightarrow> parent_normal ord"
  by (auto simp: new_order_def parent_normal_def Let_def opt_text_def split: if_splits option.splits)

lemma heap_ok_new: "heap_ok h \<Longrightarrow> new_order p a e c i s q g par = Inr ord \<Longrightarrow> heap_ok (h @ [ord])"
  by (simp add: heap_ok_def new_order_ok new_order_parent)

lemma register_le:
  assumes "book_register h a b = (res, b')" and "order_book_ok h b" and "heap_ok h"
  shows "(\<exists>more. book_orders b' = book_orders b @ more) \<and> book_scope b' = book_scope b"
  using register_effect [OF assms] by (auto simp: enter_order_def dict_set_new)

lemma group_add_le:
  assumes "group_add h a g = (res, g')" and "group_ok h g" and "heap_ok h"
  shows "(\<exists>more. group_orders g' = group_orders g @ more) \<and> group_id g' = group_id g"
  using group_add_effect [OF assms] by (auto simp: dict_set_new)

lemma create_cases:
  assumes "book_create c i sd q g par (h, b) = (res, h', b')" and "order_book_ok h b"
  shows "(h' = h \<and> b' = b) \<or> (\<exists>p ac e ord r. new_order p ac e c i sd q g par = Inr ord \<and> h' = h @ [ord]
    \<and> book_register h' (length h) b = (r, b'))"
proof -
  obtain p ac e where sc: "book_scope b = (p, ac, e)" by (cases "book_scope b") auto
  show ?thesis
    using assms(1) by (auto simp: book_create_def book_sealed [OF assms(2)] raising_def sc
        split: sum.splits prod.splits)
qed

lemma run_system_step:
  assumes ok: "system_ok s"
  shows "system_ok (snd (run_system c s)) \<and> system_le s (snd (run_system c s))"
proof -
  have h: "heap_ok (heap s)" and b: "order_book_ok (heap s) (the_book s)" and g: "group_ok (heap s) (the_group s)"
    using ok by (auto simp: system_ok_def)
  note later = book_ok_later [OF b] group_ok_later [OF g]
  show ?thesis
  proof (cases c)
    case (New_Order p ac e c' i sd q gr par)
    then show ?thesis
      using ok later [OF heap_le_append] heap_ok_new [OF h] heap_le_append
      by (cases "new_order p ac e c' i sd q gr par") (auto simp: system_ok_def system_le_refl system_le_def)
  next
    case (Register a)
    obtain r b' where run: "book_register (heap s) a (the_book s) = (r, b')" by force
    from register_ok [OF run b h] register_le [OF run b h] h g show ?thesis
      by (simp add: Register run system_ok_def system_le_def heap_le_refl)
  next
    case (Create c' i sd q gr par)
    obtain r h' b' where run: "book_create c' i sd q gr par (heap s, the_book s) = (r, h', b')"
      by (metis surj_pair)
    from create_cases [OF run b] show ?thesis
    proof (elim disjE exE conjE)
      fix p ac e ord r'
      assume new: "new_order p ac e c' i sd q gr par = Inr ord" and h': "h' = heap s @ [ord]"
        and reg: "book_register h' (length (heap s)) (the_book s) = (r', b')"
      have hok: "heap_ok h'" and le: "heap_le (heap s) h'"
        using heap_ok_new [OF h new] heap_le_append by (simp_all add: h')
      from later [OF le] register_ok [OF reg _ hok] register_le [OF reg _ hok] hok le show ?thesis
        by (simp add: Create run system_ok_def system_le_def)
    qed (use ok in \<open>simp add: Create run system_ok_def system_le_refl system_le_def heap_le_refl\<close>)
  next
    case (Add_Peer a)
    obtain r g' where run: "group_add (heap s) a (the_group s) = (r, g')" by force
    from group_add_ok [OF run g h] group_add_le [OF run g h] h b show ?thesis
      by (simp add: Add_Peer run system_ok_def system_le_def heap_le_refl)
  next
    case (On_Order a c')
    show ?thesis
    proof (cases "a < length (heap s)")
      case True
      obtain r x where run: "run_order c' (heap s ! a) = (r, x)" by force
      have le: "heap_le (heap s) ((heap s)[a := x])" and hok: "heap_ok ((heap s)[a := x])"
        using heap_le_call [OF h True, of c'] heap_ok_call [OF h True, of c'] run by simp_all
      from later [OF le] le hok True show ?thesis
        by (simp add: On_Order run deref_def system_ok_def system_le_def)
    qed (use ok in \<open>simp add: On_Order deref_def system_le_refl\<close>)
  qed
qed

interpretation order_objects: monotone_object run_system system_ok system_le
  by unfold_locales
    (blast intro: system_le_refl system_le_trans conjunct1 [OF run_system_step] conjunct2 [OF run_system_step])+

definition new_system :: "order_book \<Rightarrow> oco_group \<Rightarrow> order_system" where
  "new_system b g = \<lparr>heap = [], the_book = b, the_group = g\<rparr>"

lemma new_system_ok:
  "new_order_book p a e = Inr b \<Longrightarrow> new_oco_group n = Inr g \<Longrightarrow> system_ok (new_system b g)"
  by (auto simp: new_system_def new_order_book_def new_oco_group_def system_ok_def heap_ok_def order_book_ok_def
      group_ok_def sealed_ok_def expected_pairs_def)

lemma reachable_system_ok:
  "new_order_book p a e = Inr b \<Longrightarrow> new_oco_group n = Inr g \<Longrightarrow> system_ok (after run_system (new_system b g) calls)"
  by (rule order_objects.inv_after_from [OF new_system_ok])


section \<open>OCO breaches\<close>

definition peers_of :: "string \<Rightarrow> (string \<times> order_projection) list \<Rightarrow> string list" where
  "peers_of g orders = map fst (filter (\<lambda>(_, ord). oco_group_id ord = Some g
     \<and> historical_execution_observed ord) orders)"

definition listed :: "(string, string list) dict \<Rightarrow> string \<Rightarrow> string list" where
  "listed d g = (case dict_get d g of None \<Rightarrow> [] | Some ks \<Rightarrow> ks)"

lemma breach_fold:
  assumes "dict_ok groups"
  shows "\<exists>gs. rfold (breach_step True) groups orders = Inr gs \<and> dict_ok gs
    \<and> (\<forall>g. listed gs g = listed groups g @ peers_of g orders)"
  using assms
proof (induction orders arbitrary: groups)
  case Nil
  then show ?case by (simp add: peers_of_def)
next
  case (Cons item orders)
  obtain k ord where item: "item = (k, ord)" by force
  show ?case
  proof (cases "oco_group_id ord")
    case None
    with Cons item show ?thesis by (simp add: breach_step_def peers_of_def)
  next
    case (Some g)
    show ?thesis
    proof (cases "historical_execution_observed ord")
      case True
      let ?d = "dict_set groups g (listed groups g @ [k])"
      have "breach_step True groups item = Inr ?d"
        by (simp add: breach_step_def item Some True listed_def)
      moreover have "listed ?d g' @ peers_of g' orders = listed groups g' @ peers_of g' (item # orders)" for g'
        using Some True by (auto simp: item peers_of_def listed_def)
      moreover obtain gs where "rfold (breach_step True) ?d orders = Inr gs" "dict_ok gs"
        "\<And>g'. listed gs g' = listed ?d g' @ peers_of g' orders"
        using Cons.IH [of ?d] Cons.prems by auto
      ultimately show ?thesis by (intro exI [of _ gs]) simp
    next
      case False
      with Cons item Some show ?thesis by (simp add: breach_step_def peers_of_def)
    qed
  qed
qed

lemma dict_get_filter:
  "dict_ok d \<Longrightarrow> dict_get (filter (\<lambda>(k, v). P v) d) k
     = (case dict_get d k of None \<Rightarrow> None | Some v \<Rightarrow> if P v then Some v else None)"
  by (induction d) (auto simp: dict_ok_def map_of_eq_None_iff image_iff split: option.splits)

text \<open>The orders of a group that were ever observed executed; two of them are a breach.\<close>

lemma oco_breaches_spec:
  assumes "order_book_ok h b" and "heap_ok h"
  shows "\<exists>br. oco_breaches h b = Inr br \<and> (\<forall>g. dict_get br g =
    (let ks = peers_of g (map (\<lambda>(k, a). (k, h ! a)) (book_orders b)) in
     if 1 < length ks then Some (sort ks) else None))"
proof -
  let ?orders = "map (\<lambda>(k, a). (k, h ! a)) (book_orders b)"
  from breach_fold [of "[]" ?orders] obtain gs where gs: "rfold (breach_step True) [] ?orders = Inr gs"
    "dict_ok gs" "\<And>g. listed gs g = peers_of g ?orders"
    by (auto simp: listed_def)
  have "dict_get (map (\<lambda>(g, ks). (g, sort ks)) (filter (\<lambda>(g, ks). 1 < length ks) gs)) g =
      (let ks = peers_of g ?orders in if 1 < length ks then Some (sort ks) else None)" for g
    using gs(3) [of g] by (auto simp: map_of_map dict_get_filter [OF gs(2)] listed_def Let_def split: option.splits)
  then show ?thesis
    by (simp add: oco_breaches_def book_oco_breaches_def book_checked [OF assms] gs(1))
qed

lemma historical_later: "order_le x y \<Longrightarrow> historical_execution_observed x \<Longrightarrow> historical_execution_observed y"
  by (auto simp: order_le_def historical_execution_observed_def list_ex_iff)

text \<open>Observed peers stay observed, in the book and in the group.\<close>

lemma peers_later:
  assumes "heap_le h h'" and "\<forall>(k, a) \<in> set orders. a < length h"
  shows "set (peers_of g (map (\<lambda>(k, a). (k, h ! a)) orders)) \<subseteq> set (peers_of g (map (\<lambda>(k, a). (k, h' ! a)) orders))
    \<and> length (peers_of g (map (\<lambda>(k, a). (k, h ! a)) orders)) \<le> length (peers_of g (map (\<lambda>(k, a). (k, h' ! a)) orders))"
  using assms(2)
proof (induction orders)
  case (Cons p orders)
  obtain k a where p: "p = (k, a)" by force
  with Cons.prems have le: "order_le (h ! a) (h' ! a)" using assms(1) by (auto simp: heap_le_def)
  then have same: "order_identity (h' ! a) = order_identity (h ! a)" by (simp add: order_le_def)
  have "oco_group_id (h' ! a) = oco_group_id (h ! a)"
    "historical_execution_observed (h ! a) \<Longrightarrow> historical_execution_observed (h' ! a)"
    using historical_later [OF le] identity_fields(3) [OF same] by simp_all
  moreover have "peers_of g ((k, x) # ys) = (if oco_group_id x = Some g \<and> historical_execution_observed x
      then k # peers_of g ys else peers_of g ys)" for x ys
    by (simp add: peers_of_def)
  ultimately show ?case using Cons p by auto
qed (simp add: peers_of_def)

lemma peers_of_append: "peers_of g (xs @ ys) = peers_of g xs @ peers_of g ys"
  by (simp add: peers_of_def)

lemma breach_later:
  assumes "system_ok s" and "system_le s t" and "system_ok t"
    and "oco_breaches (heap s) (the_book s) = Inr br" and "dict_get br g = Some ids"
  shows "\<exists>br' ids'. oco_breaches (heap t) (the_book t) = Inr br' \<and> dict_get br' g = Some ids' \<and> set ids \<subseteq> set ids'"
proof -
  let ?os = "\<lambda>h orders. map (\<lambda>(k, a). (k, h ! a)) orders"
  have s: "order_book_ok (heap s) (the_book s)" "heap_ok (heap s)" and t: "order_book_ok (heap t) (the_book t)" "heap_ok (heap t)"
    using assms(1,3) by (auto simp: system_ok_def)
  from oco_breaches_spec [OF s] assms(4,5) have ids: "ids = sort (peers_of g (?os (heap s) (book_orders (the_book s))))"
    "1 < length (peers_of g (?os (heap s) (book_orders (the_book s))))"
    by (auto simp: Let_def split: if_splits)
  obtain more where ord: "book_orders (the_book t) = book_orders (the_book s) @ more"
    using assms(2) by (auto simp: system_le_def)
  have "\<forall>(k, a) \<in> set (book_orders (the_book s)). a < length (heap s)"
    using s(1) by (auto simp: order_book_ok_def sealed_ok_def)
  from peers_later [OF _ this, of "heap t" g] assms(2) [unfolded system_le_def]
  have "set (peers_of g (?os (heap s) (book_orders (the_book s)))) \<subseteq> set (peers_of g (?os (heap t) (book_orders (the_book s))))"
    "length (peers_of g (?os (heap s) (book_orders (the_book s)))) \<le> length (peers_of g (?os (heap t) (book_orders (the_book s))))"
    by blast+
  with ids ord have "1 < length (peers_of g (?os (heap t) (book_orders (the_book t))))"
    "set ids \<subseteq> set (sort (peers_of g (?os (heap t) (book_orders (the_book t)))))"
    by (auto simp: peers_of_append)
  with oco_breaches_spec [OF t] show ?thesis by (auto simp: Let_def)
qed

lemma peers_of_group:
  "\<forall>(k, a) \<in> set xs. oco_group_id (h ! a) = Some n \<Longrightarrow>
     length (filter historical_execution_observed (map (\<lambda>(k, a). h ! a) xs))
       = length (peers_of n (map (\<lambda>(k, a). (k, h ! a)) xs))"
  by (induction xs) (auto simp: peers_of_def)

lemma group_refresh_spec:
  assumes "group_ok h g" and "heap_ok h"
  shows "group_refresh h g = Inr (1 < length (peers_of (group_id g) (map (\<lambda>(k, a). (k, h ! a)) (group_orders g))))"
proof -
  have "\<forall>(k, a) \<in> set (group_orders g). oco_group_id (h ! a) = Some (group_id g)"
    using assms(1) by (auto simp: group_ok_def)
  from peers_of_group [OF this] show ?thesis by (simp add: group_refresh_def group_checked [OF assms])
qed

lemma refresh_later:
  assumes "system_ok s" and "system_le s t" and "system_ok t"
    and "group_refresh (heap s) (the_group s) = Inr True"
  shows "group_refresh (heap t) (the_group t) = Inr True"
proof -
  let ?os = "\<lambda>h orders. map (\<lambda>(k, a). (k, h ! a)) orders"
  let ?n = "group_id (the_group s)"
  have s: "group_ok (heap s) (the_group s)" "heap_ok (heap s)" and t: "group_ok (heap t) (the_group t)" "heap_ok (heap t)"
    using assms(1,3) by (auto simp: system_ok_def)
  obtain more where ord: "group_orders (the_group t) = group_orders (the_group s) @ more"
    and n: "group_id (the_group t) = ?n"
    using assms(2) by (auto simp: system_le_def)
  have "\<forall>(k, a) \<in> set (group_orders (the_group s)). a < length (heap s)"
    using s(1) by (auto simp: group_ok_def sealed_ok_def)
  from peers_later [OF _ this, of "heap t" ?n] assms(2)
  have "length (peers_of ?n (?os (heap s) (group_orders (the_group s))))
      \<le> length (peers_of ?n (?os (heap t) (group_orders (the_group s))))"
    by (auto simp: system_le_def)
  then show ?thesis
    using assms(4) group_refresh_spec [OF s] group_refresh_spec [OF t] n
    by (simp add: ord peers_of_append)
qed

section \<open>Execution ownership across orders\<close>

abbreviation observed_executions :: "order_projection \<Rightarrow> string set" where
  "observed_executions ord \<equiv> provider_execution_id ` set (fill_history ord)"

definition disputed :: "(string \<times> order_projection) list \<Rightarrow> bool" where
  "disputed orders \<longleftrightarrow> (\<exists>k x k' x'. (k, x) \<in> set orders \<and> (k', x') \<in> set orders \<and> k \<noteq> k'
     \<and> observed_executions x \<inter> observed_executions x' \<noteq> {})"

lemma own_execution_fold:
  "case rfold (own_execution key) owners hs of
     Inr d \<Rightarrow> (\<forall>h \<in> set hs. dict_get owners (provider_execution_id h) \<in> {None, Some key})
       \<and> dict_get d = (\<lambda>e. if e \<in> provider_execution_id ` set hs then Some key else dict_get owners e)
   | Inl x \<Rightarrow> x = OrderProjectionConflict
       \<and> (\<exists>h \<in> set hs. \<exists>k. dict_get owners (provider_execution_id h) = Some k \<and> k \<noteq> key)"
proof (induction hs arbitrary: owners)
  case (Cons h hs)
  let ?e = "provider_execution_id h"
  show ?case
  proof (cases "dict_get owners ?e \<in> {None, Some key}")
    case True
    have "own_execution key owners h = Inr (dict_set owners ?e key)"
      using True by (auto simp: own_execution_def Let_def)
    then show ?thesis
      using Cons [of "dict_set owners ?e key"] True
      by (auto simp: fun_eq_iff split: sum.splits if_splits)
  next
    case False
    then have "own_execution key owners h = Inl OrderProjectionConflict"
      by (auto simp: own_execution_def Let_def)
    then show ?thesis using False by auto
  qed
qed simp

lemma disputed_snoc:
  assumes "k \<notin> fst ` set orders"
  shows "disputed (orders @ [(k, x)]) \<longleftrightarrow> disputed orders
     \<or> (\<exists>k' x'. (k', x') \<in> set orders \<and> observed_executions x' \<inter> observed_executions x \<noteq> {})"
proof -
  have "k' \<noteq> k" if "(k', x') \<in> set orders" for k' x' using assms that by force
  then have sep: "\<And>k' x'. (k', x') \<in> set orders \<Longrightarrow> k' \<noteq> k" .
  have comm: "observed_executions y \<inter> observed_executions x = observed_executions x \<inter> observed_executions y" for y
    by (rule Int_commute)
  show ?thesis (is "?L \<longleftrightarrow> disputed orders \<or> ?R")
  proof
    assume ?L
    then obtain k1 x1 k2 x2 where d: "(k1, x1) \<in> set orders \<or> k1 = k \<and> x1 = x"
      "(k2, x2) \<in> set orders \<or> k2 = k \<and> x2 = x" "k1 \<noteq> k2"
      "observed_executions x1 \<inter> observed_executions x2 \<noteq> {}"
      unfolding disputed_def by fastforce
    then consider "(k1, x1) \<in> set orders" "(k2, x2) \<in> set orders" | "(k1, x1) \<in> set orders" "x2 = x"
      | "(k2, x2) \<in> set orders" "x1 = x" by blast
    then show "disputed orders \<or> ?R"
      using d(3,4) comm unfolding disputed_def by cases metis+
  next
    assume "disputed orders \<or> ?R"
    then show ?L
    proof
      assume "disputed orders"
      then show ?L unfolding disputed_def set_append by blast
    next
      assume ?R
      then obtain k' x' where "(k', x') \<in> set orders" "observed_executions x' \<inter> observed_executions x \<noteq> {}"
        by blast
      with sep show ?L
        unfolding disputed_def
        by (intro exI [of _ k'] exI [of _ x'] exI [of _ k] exI [of _ x]) auto
    qed
  qed
qed

definition owned_by :: "(string, string) dict \<Rightarrow> (string \<times> order_projection) list \<Rightarrow> bool" where
  "owned_by d orders \<longleftrightarrow> (\<forall>e k. dict_get d e = Some k \<longleftrightarrow> (\<exists>x. (k, x) \<in> set orders \<and> e \<in> observed_executions x))"

lemma effective_step_pair:
  "effective_step (fs, d) (k, x) =
     rbind (rfold (own_execution k) d (fill_history x)) (\<lambda>d'. Inr (fs @ active_fills x, d'))"
  by (simp add: effective_step_def)

lemma effective_fold:
  "distinct (map fst orders) \<Longrightarrow>
   case rfold effective_step ([], []) orders of
     Inr (fs, d) \<Rightarrow> \<not> disputed orders \<and> fs = concat (map (\<lambda>(_, x). active_fills x) orders) \<and> owned_by d orders
   | Inl e \<Rightarrow> e = OrderProjectionConflict \<and> disputed orders"
proof (induction orders rule: rev_induct)
  case Nil
  show ?case by (simp add: disputed_def owned_by_def)
next
  case (snoc item orders)
  obtain k x where item: "item = (k, x)" by force
  have k: "k \<notin> fst ` set orders" and IH: "case rfold effective_step ([], []) orders of
     Inr (fs, d) \<Rightarrow> \<not> disputed orders \<and> fs = concat (map (\<lambda>(_, x). active_fills x) orders) \<and> owned_by d orders
   | Inl e \<Rightarrow> e = OrderProjectionConflict \<and> disputed orders"
    using snoc item by auto
  show ?case
  proof (cases "rfold effective_step ([], []) orders")
    case (Inl e)
    then show ?thesis using IH disputed_snoc [OF k] by (auto simp: rfold_append item)
  next
    case (Inr st)
    obtain fs d where st: "st = (fs, d)" by force
    have d: "\<not> disputed orders" "fs = concat (map (\<lambda>(_, x). active_fills x) orders)" "owned_by d orders"
      using IH Inr st by auto
    note own = own_execution_fold [where key = k and owners = d and hs = "fill_history x"]
    show ?thesis
    proof (cases "rfold (own_execution k) d (fill_history x)")
      case (Inl e)
      with own obtain h k' where "e = OrderProjectionConflict" "h \<in> set (fill_history x)"
        "dict_get d (provider_execution_id h) = Some k'"
        by auto
      moreover from this d(3) have "\<exists>k' x'. (k', x') \<in> set orders \<and> observed_executions x' \<inter> observed_executions x \<noteq> {}"
        unfolding owned_by_def by blast
      ultimately have "disputed (orders @ [(k, x)])" "e = OrderProjectionConflict"
        using disputed_snoc [OF k] by blast+
      then show ?thesis using Inr Inl st by (simp add: rfold_append item effective_step_pair)
    next
      case (Inr d')
      note fold = Inr
      have free: "\<forall>h \<in> set (fill_history x). dict_get d (provider_execution_id h) \<in> {None, Some k}"
        and d': "dict_get d' = (\<lambda>e. if e \<in> observed_executions x then Some k else dict_get d e)"
        using own fold by simp_all
      have none: "dict_get d e \<noteq> Some k" for e using d(3) k unfolding owned_by_def by force
      have apart: "observed_executions x' \<inter> observed_executions x = {}" if "(k', x') \<in> set orders" for k' x'
      proof (rule ccontr)
        assume "observed_executions x' \<inter> observed_executions x \<noteq> {}"
        then obtain e where "e \<in> observed_executions x" and e: "e \<in> observed_executions x'" by blast
        then obtain h where "h \<in> set (fill_history x)" "e = provider_execution_id h" by (elim imageE)
        with e have "h \<in> set (fill_history x)" "provider_execution_id h \<in> observed_executions x'" by simp_all
        moreover from this d(3) that have "dict_get d (provider_execution_id h) = Some k'"
          unfolding owned_by_def by blast
        ultimately show False using free none by force
      qed
      have "dict_get d' e = Some j \<longleftrightarrow> (\<exists>y. (j, y) \<in> set (orders @ [(k, x)]) \<and> e \<in> observed_executions y)" for e j
      proof (cases "e \<in> observed_executions x")
        case True
        then have "(j, y) \<in> set orders \<Longrightarrow> e \<notin> observed_executions y" for y using apart by blast
        with True show ?thesis by (auto simp: d')
      next
        case False
        then show ?thesis using d(3) unfolding owned_by_def by (auto simp add: d' conj_disj_distribR ex_disj_distrib)
      qed
      then have "owned_by d' (orders @ [(k, x)])" unfolding owned_by_def by blast
      moreover have "\<not> disputed (orders @ [(k, x)])" using d(1) apart disputed_snoc [OF k] by blast
      ultimately show ?thesis
        using \<open>rfold effective_step ([], []) orders = Inr st\<close> fold st d(2)
        by (simp add: rfold_append item effective_step_pair)
    qed
  qed
qed


section \<open>Tampering\<close>

lemma rmap_raises:
  assumes "\<And>x. x \<in> set xs \<Longrightarrow> (\<exists>y. f x = Inr y) \<or> f x = Inl e" and "x \<in> set xs" and "f x = Inl e"
  shows "rmap f xs = Inl e"
  using assms
proof (induction xs)
  case (Cons y ys)
  then show ?case
    by (cases "f y") (auto simp: rbind_def split: sum.splits, fastforce+)
qed simp

lemma tampered_checked:
  assumes "order_book_ok h b" and "(k, a) \<in> set (book_orders b)"
    and "\<not> matches (Some (order_identity (h ! a))) (registration_identity y)"
  shows "checked_orders (h[a := y]) b = Inl OrderProjectionConflict"
    and "book_assert_seal (h[a := y]) b = Inr ()"
proof -
  let ?h = "h[a := y]"
  have s: "sealed_ok h (book_orders b) (book_identities b) (snd (book_seal b))"
    using assms(1) by (simp add: order_book_ok_def)
  have live: "deref ?h x \<noteq> None \<longleftrightarrow> deref h x \<noteq> None" for x by (simp add: deref_def)
  have "aggregate_sealed ?h sc es os is = aggregate_sealed h sc es os is" for sc es os "is"
    by (simp only: aggregate_sealed_def live)
  then show seal: "book_assert_seal ?h b = Inr ()"
    using book_sealed [OF assms(1)] by (simp add: book_assert_seal_def Let_def)
  have a: "a < length h" using sealed_ok_mem(1) [OF s assms(2)] .
  let ?f = "\<lambda>(key, a). rbind (book_assert_registered ?h b key a) (\<lambda>_.
         case deref ?h a of None \<Rightarrow> Inl OrderProjectionConflict | Some ord \<Rightarrow> Inr (key, ord))"
  have "rmap ?f (book_orders b) = Inl OrderProjectionConflict"
  proof (rule rmap_raises)
    show "(\<exists>y. ?f x = Inr y) \<or> ?f x = Inl OrderProjectionConflict" for x
      by (cases x) (auto simp: book_assert_registered_def seal require_def split: option.splits)
    show "?f (k, a) = Inl OrderProjectionConflict"
      using a assms(3) sealed_ok_identities [OF s assms(2)]
      by (simp add: book_assert_registered_def seal deref_def)
  qed (fact assms(2))
  then show "checked_orders ?h b = Inl OrderProjectionConflict"
    by (simp add: checked_orders_def seal)
qed

section \<open>Properties\<close>

text \<open>(C23) The registration guards never fire in honest use: after any history of calls on the
  orders, the book and the group, the book hands out exactly its registered orders, each under its own
  client identity and in the book's scope; a parent has at most one amendment child, and the child
  agrees with it on instrument, side and OCO group.\<close>

theorem order_book_sound:
  assumes "new_order_book p ac env = Inr b" and "new_oco_group n = Inr g"
    and "s = after run_system (new_system b g) calls"
  shows "checked_orders (heap s) (the_book s) = Inr (map (\<lambda>(k, a). (k, heap s ! a)) (book_orders (the_book s)))
    \<and> distinct (dict_keys (book_orders (the_book s))) \<and> distinct (dict_keys (amend_children (the_book s)))
    \<and> (\<forall>(k, a) \<in> set (book_orders (the_book s)).
         client_order_id (heap s ! a) = k \<and> order_scope (heap s ! a) = book_scope (the_book s)
         \<and> amends (heap s) (book_orders (the_book s)) (heap s ! a))"
proof -
  have "system_ok s" using reachable_system_ok [OF assms(1,2)] assms(3) by simp
  then have ok: "order_book_ok (heap s) (the_book s)" "heap_ok (heap s)" by (auto simp: system_ok_def)
  then show ?thesis
    using book_checked [OF ok] by (auto simp: order_book_ok_def sealed_ok_def dict_ok_def)
qed

text \<open>An OCO breach is historical truth: once two orders of a group were both observed executed,
  every later report still lists the group with at least those orders, whatever busts and corrections
  followed; and the group's own answer, once true, stays true.\<close>

theorem oco_breach_permanent:
  assumes "new_order_book p ac env = Inr b" and "new_oco_group n = Inr g"
    and "s = after run_system (new_system b g) xs" and "t = after run_system s ys"
    and "oco_breaches (heap s) (the_book s) = Inr br" and "dict_get br grp = Some ids"
  shows "(\<exists>br' ids'. oco_breaches (heap t) (the_book t) = Inr br' \<and> dict_get br' grp = Some ids'
       \<and> set ids \<subseteq> set ids')
    \<and> (group_refresh (heap s) (the_group s) = Inr True \<longrightarrow> group_refresh (heap t) (the_group t) = Inr True)"
proof -
  have s: "system_ok s" using reachable_system_ok [OF assms(1,2)] assms(3) by simp
  note t = order_objects.inv_after_from [OF s, of ys] order_objects.le_after_from [OF s, of ys]
  show ?thesis
    using breach_later [OF s t(2,1) assms(5,6)] refresh_later [OF s t(2,1)] assms(4) by simp
qed

text \<open>Execution identities belong to one order: the effective fills of a book are the active
  fills of its orders in registration order, and the query raises exactly when two orders have ever
  observed the same execution identity, active or not.\<close>

theorem effective_fills_owned:
  assumes "new_order_book p ac env = Inr b" and "new_oco_group n = Inr g"
    and "s = after run_system (new_system b g) calls"
  shows "let orders = map (\<lambda>(k, a). (k, heap s ! a)) (book_orders (the_book s)) in
     effective_fills (heap s) (the_book s) =
       (if disputed orders then Inl OrderProjectionConflict
        else Inr (concat (map (\<lambda>(_, x). active_fills x) orders)))"
proof -
  let ?os = "map (\<lambda>(k, a). (k, heap s ! a)) (book_orders (the_book s))"
  have "system_ok s" using reachable_system_ok [OF assms(1,2)] assms(3) by simp
  then have ok: "order_book_ok (heap s) (the_book s)" "heap_ok (heap s)" by (auto simp: system_ok_def)
  then have "distinct (map fst ?os)"
    by (simp add: order_book_ok_def sealed_ok_def dict_ok_def comp_def case_prod_beta)
  from effective_fold [OF this] show ?thesis
    by (auto simp: effective_fills_def book_checked [OF ok] Let_def split: sum.splits)
qed

text \<open>Tampering is noticed: when a registered order's identity is overwritten behind the book's
  back, the book refuses to report effective fills, breaches or snapshots and refuses every further
  registration, without changing.\<close>

theorem tampered_order_refused:
  assumes "new_order_book p ac env = Inr b0" and "new_oco_group n = Inr g"
    and "s = after run_system (new_system b0 g) calls" and "(k, a) \<in> set (book_orders (the_book s))"
    and "\<not> matches (Some (order_identity (heap s ! a))) (registration_identity y)"
    and "h = (heap s)[a := y]" and "x < length h"
  shows "effective_fills h (the_book s) = Inl OrderProjectionConflict
    \<and> oco_breaches h (the_book s) = Inl OrderProjectionConflict
    \<and> book_snapshots h (the_book s) = Inl OrderProjectionConflict
    \<and> book_register h x (the_book s) = (Inl OrderProjectionConflict, the_book s)"
proof -
  have "system_ok s" using reachable_system_ok [OF assms(1,2)] assms(3) by simp
  then have ok: "order_book_ok (heap s) (the_book s)" by (auto simp: system_ok_def)
  note t = tampered_checked [OF ok assms(4,5), folded assms(6)]
  show ?thesis
    using assms(7) t
    by (auto simp: effective_fills_def oco_breaches_def book_oco_breaches_def book_snapshots_def
        book_register_def deref_def split: option.splits)
qed


section \<open>Witnesses\<close>

definition sample_book :: order_book where
  "sample_book = projr (new_order_book ''alpaca'' ''A-1'' ''paper'')"

definition sample_group :: oco_group where
  "sample_group = projr (new_oco_group ''oco-1'')"

lemma sample_parts: "new_order_book ''alpaca'' ''A-1'' ''paper'' = Inr sample_book"
  "new_oco_group ''oco-1'' = Inr sample_group"
  by code_simp+

definition race_calls :: "system_call list" where
  "race_calls =
    [Create ''c-1'' ''AAPL'' ''buy'' (PyInt 10) (Some ''oco-1'') None,
     Create ''c-2'' ''AAPL'' ''sell'' (PyInt 10) (Some ''oco-1'') None,
     Create ''c-3'' ''AAPL'' ''buy'' (PyInt 8) (Some ''oco-1'') (Some ''c-1''),
     Create ''c-4'' ''AAPL'' ''buy'' (PyInt 8) (Some ''oco-1'') (Some ''c-1''),
     Add_Peer 0, Add_Peer 1,
     On_Order 0 (Record_Fill ''f-1'' ''e-1'' (PyInt 4) (PyInt 2) None),
     On_Order 1 (Record_Fill ''f-2'' ''e-2'' (PyInt 4) (PyInt 2) None)]"

definition raced :: order_system where
  "raced = after run_system (new_system sample_book sample_group) race_calls"

theorem order_book_sound_witness:
  "dict_keys (book_orders (the_book raced)) = [''c-1'', ''c-2'', ''c-3'']
     \<and> amend_children (the_book raced) = [(''c-1'', ''c-3'')]
     \<and> checked_orders (heap raced) (the_book raced)
        = Inr (map (\<lambda>(k, a). (k, heap raced ! a)) (book_orders (the_book raced)))"
proof -
  have "dict_keys (book_orders (the_book raced)) = [''c-1'', ''c-2'', ''c-3'']"
    "amend_children (the_book raced) = [(''c-1'', ''c-3'')]"
    by code_simp+
  then show ?thesis using order_book_sound [OF sample_parts raced_def] by blast
qed

definition unwound :: order_system where
  "unwound = after run_system raced [On_Order 0 (Bust_Fill ''f-1'' ''r-1'' None)]"

theorem oco_breach_permanent_witness:
  "active_oco_breaches (heap unwound) (the_book unwound) = Inr []
     \<and> (\<exists>br' ids'. oco_breaches (heap unwound) (the_book unwound) = Inr br'
          \<and> dict_get br' ''oco-1'' = Some ids' \<and> {''c-1'', ''c-2''} \<subseteq> set ids')
     \<and> group_refresh (heap unwound) (the_group unwound) = Inr True"
proof -
  have "active_oco_breaches (heap unwound) (the_book unwound) = Inr []"
    "oco_breaches (heap raced) (the_book raced) = Inr [(''oco-1'', [''c-1'', ''c-2''])]"
    "group_refresh (heap raced) (the_group raced) = Inr True"
    by code_simp+
  then show ?thesis
    using oco_breach_permanent [OF sample_parts raced_def unwound_def,
        of "[(''oco-1'', [''c-1'', ''c-2''])]" "''oco-1''" "[''c-1'', ''c-2'']"]
    by simp
qed

definition shared_execution :: order_system where
  "shared_execution = after run_system raced [On_Order 2 (Record_Fill ''f-3'' ''e-1'' (PyInt 1) (PyInt 2) None)]"

theorem effective_fills_owned_witness:
  "(\<exists>fs. effective_fills (heap raced) (the_book raced) = Inr fs \<and> length fs = 2
      \<and> \<not> disputed (map (\<lambda>(k, a). (k, heap raced ! a)) (book_orders (the_book raced))))
   \<and> effective_fills (heap shared_execution) (the_book shared_execution) = Inl OrderProjectionConflict"
proof -
  have conflict: "effective_fills (heap shared_execution) (the_book shared_execution) = Inl OrderProjectionConflict"
    and len: "map_sum id length (effective_fills (heap raced) (the_book raced)) = Inr 2"
    by code_simp+
  from len obtain fs where "effective_fills (heap raced) (the_book raced) = Inr fs" "length fs = 2"
    by (cases "effective_fills (heap raced) (the_book raced)") auto
  with conflict effective_fills_owned [OF sample_parts raced_def] show ?thesis
    by (auto simp: Let_def split: if_splits)
qed

definition forged :: order_projection where
  "forged = (heap raced ! 0)\<lparr>side := ''SELL''\<rparr>"

theorem tampered_order_refused_witness:
  "effective_fills ((heap raced)[0 := forged]) (the_book raced) = Inl OrderProjectionConflict
     \<and> book_register ((heap raced)[0 := forged]) 1 (the_book raced) = (Inl OrderProjectionConflict, the_book raced)"
proof -
  have "(''c-1'', 0) \<in> set (book_orders (the_book raced))"
    "\<not> matches (Some (order_identity (heap raced ! 0))) (registration_identity forged)"
    "1 < length ((heap raced)[0 := forged])"
    by code_simp+
  then show ?thesis
    using tampered_order_refused [OF sample_parts raced_def _ _ refl] by blast
qed

end
