(* ===== verification/Financing.thy ===== *)
theory Financing
  imports Economic_Book
begin

text \<open>
  \<open>mvp/autotrade_mvp/financing.py\<close>: provider-evidenced financing charges.  A charge has numbered
  revisions, indicated or final; only final ones are economic, and a later final revision is booked
  as its difference to the previous one.  \<open>event_fields\<close> is what a caller passes (and what the
  attributes of an event object hold); \<open>financing_event\<close> is an event after normalisation.
\<close>

section \<open>Inputs\<close>

definition fn_decimal :: "pynum \<Rightarrow> decimal result" where
  "fn_decimal v =
     (case v of
        PyBool _ \<Rightarrow> Inl FinancingError | PyFloat \<Rightarrow> Inl FinancingError | PyOther \<Rightarrow> Inl FinancingError
      | _ \<Rightarrow> translate TypeError FinancingError
               (translate ExactDecimalError FinancingError (parse_bounded_exact_decimal v True)))"

definition fn_text :: "string \<Rightarrow> string result" where
  "fn_text v = (let t = strip v in if t = [] then Inl FinancingError else Inr t)"

definition fn_utc :: "moment \<Rightarrow> int result" where
  "fn_utc v = (case v of Not_Aware \<Rightarrow> Inl FinancingError | Beyond_Calendar \<Rightarrow> Inl OverflowError
     | Moment us \<Rightarrow> Inr us)"

section \<open>Events\<close>

datatype charge_kind = INDICATED | FINAL

record event_fields =
  f_charge_id :: string
  f_revision :: pynum
  f_kind :: string
  f_effective_at :: moment
  f_available_at :: moment
  f_unit :: string
  f_amount :: pynum
  f_source_account :: string
  f_evidence_ref :: string

record financing_event =
  charge_id :: string
  revision :: int
  kind :: charge_kind
  effective_at :: int
  available_at :: int
  unit :: string
  amount :: decimal
  source_account :: string
  evidence_ref :: string

definition fn_kind :: "string \<Rightarrow> charge_kind result" where
  "fn_kind v = rbind (fn_text v) (\<lambda>t. let k = upper t in
     if k = ''INDICATED'' then Inr INDICATED else if k = ''FINAL'' then Inr FINAL
     else Inl FinancingError)"

definition fn_revision :: "pynum \<Rightarrow> int result" where
  "fn_revision v = (case v of PyInt n \<Rightarrow> if n < 1 then Inl FinancingError else Inr n
     | _ \<Rightarrow> Inl FinancingError)"

text \<open>The checks \<open>create\<close> and \<open>__post_init__\<close> share, in their order.\<close>

definition checked_terms :: "event_fields \<Rightarrow> (charge_kind \<times> int \<times> decimal \<times> int \<times> int) result" where
  "checked_terms f =
     rbind (fn_kind (f_kind f)) (\<lambda>k. rbind (fn_revision (f_revision f)) (\<lambda>r.
     rbind (fn_decimal (f_amount f)) (\<lambda>charge.
     if dval charge < 0 then Inl FinancingError
     else rbind (fn_utc (f_effective_at f)) (\<lambda>eff. rbind (fn_utc (f_available_at f)) (\<lambda>av.
     if k = FINAL \<and> av < eff then Inl FinancingError
     else Inr (k, r, charge, eff, av))))))"

definition financing_post_init :: "event_fields \<Rightarrow> financing_event result" where
  "financing_post_init f =
     rbind (checked_terms f) (\<lambda>(k, r, charge, eff, av).
     rbind (fn_text (f_charge_id f)) (\<lambda>c. rbind (fn_text (f_unit f)) (\<lambda>u.
     rbind (fn_text (f_source_account f)) (\<lambda>s. rbind (fn_text (f_evidence_ref f)) (\<lambda>e.
       Inr \<lparr>charge_id = c, revision = r, kind = k, effective_at = eff, available_at = av,
            unit = upper u, amount = charge, source_account = s, evidence_ref = e\<rparr>)))))"

definition kind_text :: "charge_kind \<Rightarrow> string" where
  "kind_text k = (case k of INDICATED \<Rightarrow> ''INDICATED'' | FINAL \<Rightarrow> ''FINAL'')"

definition financing_create :: "event_fields \<Rightarrow> financing_event result" where
  "financing_create f =
     rbind (checked_terms f) (\<lambda>(k, r, charge, eff, av).
     rbind (fn_text (f_charge_id f)) (\<lambda>c. rbind (fn_text (f_unit f)) (\<lambda>u.
     rbind (fn_text (f_source_account f)) (\<lambda>s. rbind (fn_text (f_evidence_ref f)) (\<lambda>e.
       financing_post_init \<lparr>f_charge_id = c, f_revision = PyInt r, f_kind = kind_text k,
         f_effective_at = Moment eff, f_available_at = Moment av, f_unit = u,
         f_amount = PyDecimal charge, f_source_account = s, f_evidence_ref = e\<rparr>)))))"

text \<open>The attributes of an event object.\<close>

definition event_state :: "financing_event \<Rightarrow> event_fields" where
  "event_state ev = \<lparr>f_charge_id = charge_id ev, f_revision = PyInt (revision ev),
     f_kind = kind_text (kind ev), f_effective_at = Moment (effective_at ev),
     f_available_at = Moment (available_at ev), f_unit = unit ev, f_amount = PyDecimal (amount ev),
     f_source_account = source_account ev, f_evidence_ref = evidence_ref ev\<rparr>"

definition reseal_financing_event :: "event_fields \<Rightarrow> financing_event result" where
  "reseal_financing_event f = financing_create f"

definition economic_charge :: "financing_event \<Rightarrow> decimal" where
  "economic_charge ev = (if kind ev = FINAL then amount ev else dzero)"

definition same_event :: "financing_event \<Rightarrow> financing_event \<Rightarrow> bool" where
  "same_event a b \<longleftrightarrow> charge_id a = charge_id b \<and> revision a = revision b \<and> kind a = kind b
     \<and> effective_at a = effective_at b \<and> available_at a = available_at b \<and> unit a = unit b
     \<and> dval (amount a) = dval (amount b) \<and> source_account a = source_account b
     \<and> evidence_ref a = evidence_ref b"

section \<open>The revision book\<close>

record financing_update =
  accepted :: bool
  economic_delta :: decimal
  current_revision :: int
  current_final_charge :: decimal

record financing_book =
  latest_events :: "(string, financing_event) dict"
  final_charges :: "(string, decimal) dict"
  charge_history :: "financing_event list"

definition empty_financing_book :: financing_book where
  "empty_financing_book = \<lparr>latest_events = [], final_charges = [], charge_history = []\<rparr>"

definition final_charge :: "financing_book \<Rightarrow> string \<Rightarrow> decimal" where
  "final_charge b c = (case dict_get (final_charges b) c of None \<Rightarrow> dzero | Some d \<Rightarrow> d)"

definition latest :: "financing_book \<Rightarrow> string \<Rightarrow> financing_event option result" where
  "latest b c = rbind (fn_text c) (\<lambda>t. Inr (dict_get (latest_events b) t))"

text \<open>Whether a revision is a repetition of the latest one (\<open>True\<close>) or may follow it.\<close>

definition check_revision :: "financing_event option \<Rightarrow> financing_event \<Rightarrow> bool result" where
  "check_revision previous ev =
     (case previous of None \<Rightarrow> Inr False
      | Some p \<Rightarrow>
        if revision ev < revision p then Inl FinancingConflict
        else if revision ev = revision p then
          (if same_event ev p then Inr True else Inl FinancingConflict)
        else if effective_at ev \<noteq> effective_at p then Inl FinancingConflict
        else if available_at ev < available_at p then Inl FinancingConflict
        else if unit ev \<noteq> unit p then Inl FinancingConflict
        else if source_account ev \<noteq> source_account p then Inl FinancingConflict
        else if kind p = FINAL \<and> kind ev = INDICATED then Inl FinancingConflict
        else Inr False)"

text \<open>The three fields are written before the difference is computed.\<close>

definition accept_revision :: "financing_event \<Rightarrow> (financing_book, financing_update) operation" where
  "accept_revision ev b =
     (let old_final = final_charge b (charge_id ev);
          new_final = (if kind ev = FINAL then economic_charge ev else old_final);
          b' = b\<lparr>latest_events := dict_set (latest_events b) (charge_id ev) ev,
             final_charges := (if kind ev = FINAL
               then dict_set (final_charges b) (charge_id ev) new_final else final_charges b),
             charge_history := charge_history b @ [ev]\<rparr>
      in raising (exact_subtract new_final old_final) (\<lambda>delta b'.
        (Inr \<lparr>accepted = True, economic_delta = delta, current_revision = revision ev,
              current_final_charge = new_final\<rparr>, b')) b')"

definition financing_record :: "event_fields \<Rightarrow> (financing_book, financing_update) operation" where
  "financing_record f =
     raising (reseal_financing_event f) (\<lambda>ev b.
     raising (check_revision (dict_get (latest_events b) (charge_id ev)) ev) (\<lambda>repeated b.
       if repeated
       then (Inr \<lparr>accepted = False, economic_delta = dzero, current_revision = revision ev,
                  current_final_charge = final_charge b (charge_id ev)\<rparr>, b)
       else accept_revision ev b) b)"

text \<open>\<open>FinancingRevisionBook(history)\<close>: the constructor raises what a \<open>record\<close> raises.\<close>

definition financing_step :: "financing_book \<Rightarrow> event_fields \<Rightarrow> financing_book result" where
  "financing_step b f = (case financing_record f b of (Inl e, _) \<Rightarrow> Inl e | (Inr _, b') \<Rightarrow> Inr b')"

definition financing_book_of :: "event_fields list \<Rightarrow> financing_book result" where
  "financing_book_of fs = rfold financing_step empty_financing_book fs"

definition book_financing_delta :: "string \<Rightarrow> string \<Rightarrow> string \<Rightarrow> string \<Rightarrow> pynum \<Rightarrow> journal_transaction result" where
  "book_financing_delta tid cid currency source delta_in =
     rbind (fn_decimal delta_in) (\<lambda>delta.
     if dval delta = 0 then Inl FinancingError
     else rbind (fn_text currency) (\<lambda>u0. let u = upper u0 in
     rbind (fn_text source) (\<lambda>src.
     rbind (exact_subtract dzero delta) (\<lambda>negative.
     rbind (fn_text tid) (\<lambda>t. rbind (fn_text cid) (\<lambda>c.
     rbind (make_posting src u (PyDecimal negative)) (\<lambda>p1.
     rbind (make_posting (''FINANCING_EXPENSE:'' @ u) u (PyDecimal delta)) (\<lambda>p2.
       validated (plain_transaction t c [p1, p2])))))))))"


section \<open>Normalised events\<close>

lemma fn_text_Inr [simp, result_simps]: "fn_text v = Inr t \<longleftrightarrow> strip v = t \<and> t \<noteq> []"
  by (auto simp: fn_text_def Let_def)

lemma fn_kind_text [simp]: "fn_kind (kind_text k) = Inr k"
proof -
  have "fn_kind (kind_text INDICATED) = Inr INDICATED" "fn_kind (kind_text FINAL) = Inr FINAL"
    by code_simp+
  then show ?thesis by (cases k) simp_all
qed

lemma fn_revision_Inr [simp, result_simps]: "fn_revision v = Inr n \<longleftrightarrow> v = PyInt n \<and> 1 \<le> n"
  by (cases v) (auto simp: fn_revision_def)

lemma fn_utc_Inr [simp, result_simps]: "fn_utc v = Inr us \<longleftrightarrow> v = Moment us"
  by (cases v) (auto simp: fn_utc_def)

definition normal_decimal :: "decimal \<Rightarrow> bool" where
  "normal_decimal d \<longleftrightarrow> in_envelope d \<and> (dval d = 0 \<longrightarrow> d = dzero)"

lemma fn_decimal_envelope: "fn_decimal v = Inr d \<Longrightarrow> in_envelope d \<and> dval d = pyval v"
  by (cases v) (auto simp: fn_decimal_def dest: parse_Inr)

lemma fn_decimal_PyDecimal:
  "in_envelope d \<Longrightarrow> fn_decimal (PyDecimal d) = Inr (if dval d = 0 then dzero else d)"
  by (simp add: fn_decimal_def parse_decimal)

lemma dval_dzero_normal: "normal_decimal (if dval d = 0 then dzero else d) \<longleftrightarrow> in_envelope d \<or> dval d = 0"
  by (simp add: normal_decimal_def)

text \<open>What an accepted event looks like.\<close>

definition event_ok :: "financing_event \<Rightarrow> bool" where
  "event_ok ev \<longleftrightarrow> strip (charge_id ev) = charge_id ev \<and> charge_id ev \<noteq> [] \<and> 1 \<le> revision ev
     \<and> (kind ev = FINAL \<longrightarrow> effective_at ev \<le> available_at ev)
     \<and> strip (unit ev) = unit ev \<and> unit ev \<noteq> [] \<and> upper (unit ev) = unit ev
     \<and> normal_decimal (amount ev) \<and> 0 \<le> dval (amount ev)
     \<and> strip (source_account ev) = source_account ev \<and> source_account ev \<noteq> []
     \<and> strip (evidence_ref ev) = evidence_ref ev \<and> evidence_ref ev \<noteq> []"

lemma checked_terms_Inr:
  "checked_terms f = Inr (k, r, d, eff, av) \<Longrightarrow>
     fn_kind (f_kind f) = Inr k \<and> f_revision f = PyInt r \<and> 1 \<le> r \<and> fn_decimal (f_amount f) = Inr d
     \<and> 0 \<le> dval d \<and> f_effective_at f = Moment eff \<and> f_available_at f = Moment av
     \<and> (k = FINAL \<longrightarrow> eff \<le> av)"
  by (auto simp: checked_terms_def split: if_splits)

lemma financing_create_ok:
  assumes "financing_create f = Inr ev"
  shows "event_ok ev" "charge_id ev = strip (f_charge_id f)" "dval (amount ev) = pyval (f_amount f)"
proof -
  from assms obtain k r d eff av where terms: "checked_terms f = Inr (k, r, d, eff, av)"
    and ne: "strip (f_charge_id f) \<noteq> []" "strip (f_unit f) \<noteq> []" "strip (f_source_account f) \<noteq> []"
      "strip (f_evidence_ref f) \<noteq> []"
    and post: "financing_post_init \<lparr>f_charge_id = strip (f_charge_id f), f_revision = PyInt r, f_kind = kind_text k,
         f_effective_at = Moment eff, f_available_at = Moment av, f_unit = strip (f_unit f),
         f_amount = PyDecimal d, f_source_account = strip (f_source_account f),
         f_evidence_ref = strip (f_evidence_ref f)\<rparr> = Inr ev"
    by (auto simp: financing_create_def)
  note c = checked_terms_Inr [OF terms]
  have d: "in_envelope d" "dval d = pyval (f_amount f)" using fn_decimal_envelope c by auto
  have "ev = \<lparr>charge_id = strip (f_charge_id f), revision = r, kind = k, effective_at = eff,
      available_at = av, unit = upper (strip (f_unit f)), amount = (if dval d = 0 then dzero else d),
      source_account = strip (f_source_account f), evidence_ref = strip (f_evidence_ref f)\<rparr>"
    using post c d ne
    by (auto simp: financing_post_init_def checked_terms_def fn_decimal_PyDecimal split: if_splits)
  then show "event_ok ev" "charge_id ev = strip (f_charge_id f)" "dval (amount ev) = pyval (f_amount f)"
    using c d ne by (auto simp: event_ok_def normal_decimal_def strip_upper)
qed

text \<open>Resealing an accepted event gives it back.\<close>

lemma reseal_event_state:
  assumes "event_ok ev"
  shows "reseal_financing_event (event_state ev) = Inr ev"
proof -
  have d: "fn_decimal (PyDecimal (amount ev)) = Inr (amount ev)"
    using assms by (simp add: event_ok_def normal_decimal_def fn_decimal_PyDecimal)
  have rv: "fn_revision (PyInt (revision ev)) = Inr (revision ev)"
    using assms by (simp add: event_ok_def)
  have terms: "checked_terms f = Inr (kind ev, revision ev, amount ev, effective_at ev, available_at ev)"
    if "f_kind f = kind_text (kind ev)" "f_revision f = PyInt (revision ev)" "f_amount f = PyDecimal (amount ev)"
      "f_effective_at f = Moment (effective_at ev)" "f_available_at f = Moment (available_at ev)" for f
    using that assms d rv by (auto simp: checked_terms_def event_ok_def fn_utc_def)
  have texts: "fn_text (charge_id ev) = Inr (charge_id ev)" "fn_text (unit ev) = Inr (unit ev)"
    "fn_text (source_account ev) = Inr (source_account ev)" "fn_text (evidence_ref ev) = Inr (evidence_ref ev)"
    "upper (unit ev) = unit ev"
    using assms by (simp_all add: event_ok_def)
  show ?thesis
    by (simp add: reseal_financing_event_def financing_create_def event_state_def terms texts
        financing_post_init_def)
qed

section \<open>The book as its history\<close>

definition latest_of :: "financing_event list \<Rightarrow> (string, financing_event) dict" where
  "latest_of hs = foldl (\<lambda>d ev. dict_set d (charge_id ev) ev) [] hs"

definition finals_of :: "financing_event list \<Rightarrow> (string, decimal) dict" where
  "finals_of hs = foldl (\<lambda>d ev. if kind ev = FINAL then dict_set d (charge_id ev) (amount ev) else d) [] hs"

definition book_from :: "financing_event list \<Rightarrow> financing_book" where
  "book_from hs = \<lparr>latest_events = latest_of hs, final_charges = finals_of hs, charge_history = hs\<rparr>"

inductive revision_log :: "financing_event list \<Rightarrow> bool" where
  start: "revision_log []"
| extend: "revision_log hs \<Longrightarrow> event_ok ev
    \<Longrightarrow> check_revision (dict_get (latest_of hs) (charge_id ev)) ev = Inr False \<Longrightarrow> revision_log (hs @ [ev])"

inductive_cases revision_log_snocE: "revision_log (hs @ [ev])"

definition financing_ok :: "financing_book \<Rightarrow> bool" where
  "financing_ok b \<longleftrightarrow> b = book_from (charge_history b) \<and> revision_log (charge_history b)"

lemma of_snoc [simp]:
  "latest_of (hs @ [ev]) = dict_set (latest_of hs) (charge_id ev) ev"
  "finals_of (hs @ [ev]) = (if kind ev = FINAL then dict_set (finals_of hs) (charge_id ev) (amount ev) else finals_of hs)"
  "latest_of [] = []" "finals_of [] = []"
  by (simp_all add: latest_of_def finals_of_def)

lemma book_from_simps [simp]:
  "charge_history (book_from hs) = hs" "latest_events (book_from hs) = latest_of hs"
  "final_charges (book_from hs) = finals_of hs"
  by (simp_all add: book_from_def)

lemma accept_revision_book: "snd (accept_revision ev (book_from hs)) = book_from (hs @ [ev])"
  by (simp add: accept_revision_def Let_def raising_def book_from_def economic_charge_def split: sum.split)

lemma accept_revision_reply:
  "fst (accept_revision ev b) =
     rbind (exact_subtract (if kind ev = FINAL then amount ev else final_charge b (charge_id ev))
       (final_charge b (charge_id ev))) (\<lambda>delta.
     Inr \<lparr>accepted = True, economic_delta = delta, current_revision = revision ev,
       current_final_charge = (if kind ev = FINAL then amount ev else final_charge b (charge_id ev))\<rparr>)"
  by (simp add: accept_revision_def Let_def raising_def economic_charge_def rbind_def split: sum.split)

lemma input_raises:
  "fn_text v = Inl e \<Longrightarrow> e \<noteq> ExactDecimalError"
  "fn_revision w = Inl e \<Longrightarrow> e \<noteq> ExactDecimalError"
  "fn_utc m = Inl e \<Longrightarrow> e \<noteq> ExactDecimalError"
  "fn_decimal w = Inl e \<Longrightarrow> e \<noteq> ExactDecimalError"
  "fn_kind v = Inl e \<Longrightarrow> e \<noteq> ExactDecimalError"
  by (auto simp: fn_text_def fn_revision_def fn_utc_def fn_decimal_def fn_kind_def Let_def rbind_Inl_iff
      translate_def split: if_splits pynum.splits moment.splits sum.splits)

lemma checked_terms_raises: "checked_terms f = Inl e \<Longrightarrow> e \<noteq> ExactDecimalError"
  by (auto simp: checked_terms_def rbind_Inl_iff dest: input_raises split: if_splits)

lemma financing_post_init_raises: "financing_post_init f = Inl e \<Longrightarrow> e \<noteq> ExactDecimalError"
  by (auto simp: financing_post_init_def rbind_Inl_iff dest: input_raises checked_terms_raises)

lemma financing_create_raises: "financing_create f = Inl e \<Longrightarrow> e \<noteq> ExactDecimalError"
  by (auto simp: financing_create_def rbind_Inl_iff
      dest: input_raises checked_terms_raises financing_post_init_raises)

text \<open>The three outcomes of a call.\<close>

lemma financing_record_cases:
  assumes "financing_ok b"
  obtains (refused) e where "financing_record f b = (Inl e, b)" "e \<noteq> ExactDecimalError"
  | (repeated) u ev where "financing_record f b = (Inr u, b)" "dval (economic_delta u) = 0" "accepted u = False"
  | (entered) ev where "reseal_financing_event f = Inr ev" "financing_record f b = accept_revision ev b"
      "revision_log (charge_history b @ [ev])"
proof (cases "reseal_financing_event f")
  case (Inl e)
  have "e \<noteq> ExactDecimalError"
    using Inl financing_create_raises by (simp add: reseal_financing_event_def)
  with Inl show thesis by (auto intro!: refused simp: financing_record_def)
next
  case (Inr ev)
  let ?chk = "check_revision (dict_get (latest_events b) (charge_id ev)) ev"
  have run: "financing_record f b = raising ?chk (\<lambda>repeated b.
       if repeated
       then (Inr \<lparr>accepted = False, economic_delta = dzero, current_revision = revision ev,
                  current_final_charge = final_charge b (charge_id ev)\<rparr>, b)
       else accept_revision ev b) b"
    by (simp add: financing_record_def Inr)
  show thesis
  proof (cases ?chk)
    case (Inl e)
    moreover have "e \<noteq> ExactDecimalError"
      using Inl by (auto simp: check_revision_def split: option.splits if_splits)
    ultimately show thesis using run by (auto intro!: refused)
  next
    case (Inr r)
    show thesis
    proof (cases r)
      case True
      then show thesis using run Inr by (auto intro!: repeated)
    next
      case False
      have "latest_events b = latest_of (charge_history b)" "revision_log (charge_history b)"
        using assms unfolding financing_ok_def by (metis book_from_simps(2))+
      moreover have "event_ok ev"
        using \<open>reseal_financing_event f = Inr ev\<close> financing_create_ok(1) by (simp add: reseal_financing_event_def)
      ultimately have "revision_log (charge_history b @ [ev])"
        using Inr False revision_log.extend by simp
      then show thesis
        using entered [OF \<open>reseal_financing_event f = Inr ev\<close>] run Inr False by simp
    qed
  qed
qed

lemma financing_record_ok:
  assumes "financing_ok b"
  shows "financing_ok (snd (financing_record f b))"
  using assms
proof (cases rule: financing_record_cases [where f = f])
  case (entered ev)
  have "b = book_from (charge_history b)" using assms by (simp add: financing_ok_def)
  then have "snd (financing_record f b) = book_from (charge_history b @ [ev])"
    using accept_revision_book [of ev "charge_history b"] entered(2) by simp
  then show ?thesis using entered(3) by (simp add: financing_ok_def)
qed (use assms in simp_all)

definition history_extends :: "financing_book \<Rightarrow> financing_book \<Rightarrow> bool" where
  "history_extends a b \<longleftrightarrow> (\<exists>hs. charge_history b = charge_history a @ hs)"

lemma financing_record_extends:
  assumes "financing_ok b"
  shows "history_extends b (snd (financing_record f b))"
  using assms
proof (cases rule: financing_record_cases [where f = f])
  case (entered ev)
  have "b = book_from (charge_history b)" using assms by (simp add: financing_ok_def)
  then have "snd (financing_record f b) = book_from (charge_history b @ [ev])"
    using accept_revision_book [of ev "charge_history b"] entered(2) by simp
  then show ?thesis by (simp add: history_extends_def)
qed (simp_all add: history_extends_def)

lemma empty_financing_ok: "financing_ok empty_financing_book"
  by (simp add: financing_ok_def empty_financing_book_def book_from_def revision_log.start)

interpretation financing: monotone_object financing_record financing_ok history_extends
  by unfold_locales
    (fact financing_record_ok, auto simp: history_extends_def intro: financing_record_extends [unfolded history_extends_def])


section \<open>Deltas\<close>

definition delta_for :: "string \<Rightarrow> event_fields \<Rightarrow> financing_update result \<Rightarrow> rat" where
  "delta_for c f r = (case r of Inl _ \<Rightarrow> 0
     | Inr u \<Rightarrow> if strip (f_charge_id f) = c then dval (economic_delta u) else 0)"

lemma exact_subtract_raises: "exact_subtract a b = Inl e \<Longrightarrow> e = ExactDecimalError"
  using exact_step_cases [where g = "(-)" and a = a and b = b and m = "exact_subtract a b"]
  by (auto simp: exact_subtract_def)

lemma financing_step_delta:
  assumes "financing_ok b" and "fst (financing_record f b) \<noteq> Inl ExactDecimalError"
  shows "dval (final_charge (snd (financing_record f b)) c)
    = dval (final_charge b c) + delta_for c f (fst (financing_record f b))"
  using assms(1)
proof (cases rule: financing_record_cases [where f = f])
  case (entered ev)
  have b: "b = book_from (charge_history b)" using assms(1) by (simp add: financing_ok_def)
  have id: "charge_id ev = strip (f_charge_id f)"
    using entered(1) financing_create_ok(2) by (simp add: reseal_financing_event_def)
  have snd: "snd (financing_record f b) = book_from (charge_history b @ [ev])"
    using accept_revision_book [of ev "charge_history b"] b entered(2) by simp
  let ?new = "if kind ev = FINAL then amount ev else final_charge b (charge_id ev)"
  obtain d where d: "exact_subtract ?new (final_charge b (charge_id ev)) = Inr d"
    using assms(2) exact_subtract_raises entered(2) accept_revision_reply [of ev b]
    by (cases "exact_subtract ?new (final_charge b (charge_id ev))") fastforce+
  have fin: "final_charges b = finals_of (charge_history b)" by (metis b book_from_simps(3))
  have "dval (final_charge (snd (financing_record f b)) c)
      = (if charge_id ev = c then dval ?new else dval (final_charge b c))"
    unfolding snd by (simp add: final_charge_def fin)
  moreover have "fst (financing_record f b) = Inr \<lparr>accepted = True, economic_delta = d, current_revision = revision ev,
       current_final_charge = ?new\<rparr>"
    using entered(2) accept_revision_reply [of ev b] d by simp
  ultimately show ?thesis using id exact.sub_val [OF d] by (simp add: delta_for_def)
qed (auto simp: delta_for_def)

lemma financing_deltas_from:
  assumes "financing_ok b" and "Inl ExactDecimalError \<notin> set (replies financing_record b fs)"
  shows "dval (final_charge (after financing_record b fs) c) = dval (final_charge b c)
    + (\<Sum>(f, r) \<leftarrow> zip fs (replies financing_record b fs). delta_for c f r)"
  using assms
proof (induction fs arbitrary: b)
  case (Cons f fs)
  from Cons.prems have "fst (financing_record f b) \<noteq> Inl ExactDecimalError" by auto
  from financing_step_delta [OF Cons.prems(1) this] Cons.IH [OF financing_record_ok [OF Cons.prems(1)], of f] Cons.prems(2)
  show ?case by simp
qed simp

section \<open>Restart\<close>

definition restarts :: "financing_book \<Rightarrow> bool" where
  "restarts b \<longleftrightarrow> financing_ok b \<and> financing_book_of (map event_state (charge_history b)) = Inr b"

lemma restarts_step:
  assumes "restarts b" and "fst (financing_record f b) \<noteq> Inl ExactDecimalError"
  shows "restarts (snd (financing_record f b))"
proof -
  have ok: "financing_ok b" using assms(1) by (simp add: restarts_def)
  then show ?thesis
  proof (cases rule: financing_record_cases [where f = f])
    case (entered ev)
    have "event_ok ev" using entered(1) financing_create_ok(1) by (simp add: reseal_financing_event_def)
    then have again: "financing_record (event_state ev) b = financing_record f b"
      using entered(1) by (simp add: financing_record_def reseal_event_state)
    have b: "b = book_from (charge_history b)" using ok by (simp add: financing_ok_def)
    have snd: "snd (financing_record f b) = book_from (charge_history b @ [ev])"
      using accept_revision_book [of ev "charge_history b"] b entered(2) by simp
    have "\<exists>u. fst (financing_record f b) = Inr u"
      using assms(2) exact_subtract_raises entered(2) accept_revision_reply [of ev b]
      by (cases "fst (financing_record f b)") (fastforce simp: rbind_Inl_iff)+
    then obtain u where "financing_record f b = (Inr u, book_from (charge_history b @ [ev]))"
      using snd by (metis prod.collapse)
    then have "financing_step b (event_state ev) = Inr (book_from (charge_history b @ [ev]))"
      by (simp add: financing_step_def again)
    then show ?thesis
      using assms(1) financing_record_ok [OF ok, of f] snd
      by (simp add: restarts_def financing_book_of_def rfold_append)
  qed (use assms(1) in simp_all)
qed

lemma restarts_after:
  "restarts b \<Longrightarrow> Inl ExactDecimalError \<notin> set (replies financing_record b fs) \<Longrightarrow>
     restarts (after financing_record b fs)"
proof (induction fs arbitrary: b)
  case (Cons f fs)
  from Cons.prems have "fst (financing_record f b) \<noteq> Inl ExactDecimalError" by auto
  from Cons.IH [OF restarts_step [OF Cons.prems(1) this]] Cons.prems(2) show ?case by simp
qed simp

lemma finals_envelope: "revision_log hs \<Longrightarrow> dict_get (finals_of hs) c = Some d \<Longrightarrow> in_envelope d"
  by (induction rule: revision_log.induct) (auto simp: event_ok_def normal_decimal_def split: if_splits)

lemma final_charge_envelope: "financing_ok b \<Longrightarrow> in_envelope (final_charge b c)"
  using finals_envelope [of "charge_history b" c]
  by (auto simp: financing_ok_def final_charge_def split: option.splits) (metis book_from_simps(3))

lemma exact_subtract_self: "in_envelope a \<Longrightarrow> exact_subtract a a \<noteq> Inl e"
  using exact_step_cases [where g = "(-)" and a = a and b = a and m = "exact_subtract a a"] envelope_dzero
  by (fastforce simp: exact_subtract_def representable_def dest: spec [of _ dzero])

lemma lost_delta:
  assumes "financing_ok b" and "financing_record f b = (Inl ExactDecimalError, b')"
  shows "\<exists>ev u. charge_history b' = charge_history b @ [ev] \<and> charge_id ev = strip (f_charge_id f)
    \<and> financing_record f b' = (Inr u, b') \<and> \<not> accepted u \<and> dval (economic_delta u) = 0
    \<and> dval (current_final_charge u) = pyval (f_amount f)"
  using assms(1)
proof (cases rule: financing_record_cases [where f = f])
  case (entered ev)
  have b: "b = book_from (charge_history b)" using assms(1) by (simp add: financing_ok_def)
  have b': "b' = book_from (charge_history b @ [ev])"
    using accept_revision_book [of ev "charge_history b"] b entered(2) assms(2) by (metis snd_conv)
  have ev: "charge_id ev = strip (f_charge_id f)" "dval (amount ev) = pyval (f_amount f)"
    using entered(1) financing_create_ok(2,3) by (simp_all add: reseal_financing_event_def)
  have "kind ev = FINAL"
  proof (rule ccontr)
    assume "kind ev \<noteq> FINAL"
    moreover have "fst (accept_revision ev b) = Inl ExactDecimalError" using assms(2) entered(2) by simp
    ultimately have "exact_subtract (final_charge b (charge_id ev)) (final_charge b (charge_id ev)) = Inl ExactDecimalError"
      unfolding accept_revision_reply by (simp add: rbind_Inl_iff)
    then show False using exact_subtract_self [OF final_charge_envelope [OF assms(1)]] by simp
  qed
  then have "financing_record f b' = (Inr \<lparr>accepted = False, economic_delta = dzero, current_revision = revision ev,
      current_final_charge = amount ev\<rparr>, b')"
    by (simp add: financing_record_def entered(1) b' check_revision_def same_event_def final_charge_def)
  then show ?thesis using b' ev by simp
qed (use assms(2) in simp_all)


section \<open>Booking\<close>

lemma book_financing_delta_legs:
  assumes "book_financing_delta tid cid currency source v = Inr t"
  defines "u \<equiv> upper (strip currency)"
  shows "legs (postings t) [(strip source, u, - pyval v), (''FINANCING_EXPENSE:'' @ u, u, pyval v)]"
    and "strip u = u" "u \<noteq> []" "strip source \<noteq> []"
proof -
  from assms(1) obtain d nd p1 p2 where d: "fn_decimal v = Inr d" "exact_subtract dzero d = Inr nd"
    and ne: "strip currency \<noteq> []" "strip source \<noteq> []"
    and ps: "make_posting (strip source) u (PyDecimal nd) = Inr p1"
      "make_posting (''FINANCING_EXPENSE:'' @ u) u (PyDecimal d) = Inr p2"
    and t: "postings t = [p1, p2]"
    unfolding u_def by (auto simp: book_financing_delta_def plain_transaction_def Let_def split: if_splits)
  show u: "strip u = u" "u \<noteq> []" "strip source \<noteq> []" using ne by (simp_all add: u_def strip_upper)
  have "ledger_account p1 = strip source" "asset_or_currency p1 = u" "dval (signed_amount p1) = - pyval v"
    using make_posting_Inr(1-3) [OF ps(1)] u exact.sub_val [OF d(2)] fn_decimal_envelope [OF d(1)]
    by (auto dest!: ac_decimal_Inr)
  moreover have "ledger_account p2 = ''FINANCING_EXPENSE:'' @ u" "asset_or_currency p2 = u"
    "dval (signed_amount p2) = pyval v"
    using make_posting_account [OF ps(2) u(1,2)] fn_decimal_envelope [OF d(1)] by (simp_all add: is_space_def)
  ultimately show "legs (postings t) [(strip source, u, - pyval v), (''FINANCING_EXPENSE:'' @ u, u, pyval v)]"
    by (simp add: legs_def t)
qed

lemma financing_posted:
  assumes "book_financing_delta tid cid currency source v = Inr t" and "book_append t b = (Inr True, b')"
  defines "u \<equiv> upper (strip currency)"
  shows "posted a c (book_postings b') = posted a c (book_postings b)
    + leg_sum a c [(strip source, u, - pyval v), (''FINANCING_EXPENSE:'' @ u, u, pyval v)]"
proof -
  note f = book_financing_delta_legs [OF assms(1), folded u_def]
  from append_True_posted [OF assms(2)] obtain n where n: "normalized_transaction t = Inr n"
    "posted a c (book_postings b') = posted a c (book_postings b) + posted a c (postings n)" by blast
  have "strip (ledger_account p) = ledger_account p \<and> strip (asset_or_currency p) = asset_or_currency p"
    if "p \<in> set (postings t)" for p
  proof -
    have "(ledger_account p, asset_or_currency p, dval (signed_amount p))
        \<in> set [(strip source, u, - pyval v), (''FINANCING_EXPENSE:'' @ u, u, pyval v)]"
      unfolding f(1) [unfolded legs_def, symmetric] using that by simp
    then show ?thesis
      using f(2-4) strip_prefixed [OF f(2,3), of "''FINANCING_EXPENSE:''"] by (auto simp: is_space_def)
  qed
  then have "list_all2 same_posting (postings n) (postings t)" using normalized_same_postings [OF n(1)] by blast
  with posted_same n(2) posted_legs [OF f(1)] show ?thesis by metis
qed

section \<open>Properties\<close>

text \<open>(C26) Deltas neither lose nor double count: as long as every difference could be represented,
  the deltas the book handed out for a charge, over any sequence of deliveries, repetitions, conflicts
  and revisions, add up to the final charge it holds.\<close>

theorem financing_deltas_add_up:
  assumes "Inl ExactDecimalError \<notin> set (replies financing_record empty_financing_book fs)"
  shows "(\<Sum>(f, r) \<leftarrow> zip fs (replies financing_record empty_financing_book fs). delta_for c f r)
    = dval (final_charge (after financing_record empty_financing_book fs) c)"
  using financing_deltas_from [OF empty_financing_ok assms, of c]
  by (simp add: final_charge_def empty_financing_book_def)

text \<open>Restart: under the same condition the book built from its own accepted history is the book
  itself, latest revisions, final charges and history alike.\<close>

theorem financing_book_restarts:
  assumes "Inl ExactDecimalError \<notin> set (replies financing_record empty_financing_book fs)"
    and "b = after financing_record empty_financing_book fs"
  shows "financing_book_of (map event_state (charge_history b)) = Inr b"
proof -
  have "restarts empty_financing_book"
    using empty_financing_ok
    by (simp add: restarts_def financing_book_of_def) (simp add: empty_financing_book_def)
  from restarts_after [OF this assms(1)] show ?thesis by (simp add: restarts_def assms(2))
qed

text \<open>(C27) Without that condition the delta is lost: when the difference of two final charges has no
  bounded representation, \<open>record\<close> raises after it has already entered the event, and delivering the
  same event again reports it as known, with no delta, although the final charge has changed.\<close>

theorem financing_delta_lost:
  assumes "b = after financing_record empty_financing_book fs"
    and "financing_record f b = (Inl ExactDecimalError, b')"
  shows "\<exists>ev u. charge_history b' = charge_history b @ [ev] \<and> charge_id ev = strip (f_charge_id f)
    \<and> financing_record f b' = (Inr u, b') \<and> \<not> accepted u \<and> dval (economic_delta u) = 0
    \<and> dval (current_final_charge u) = pyval (f_amount f)"
  using lost_delta [OF _ assms(2)] financing.inv_after_from [OF empty_financing_ok, of fs] assms(1) by simp

text \<open>A booked delta, once in the journal, moves the financing expense of its unit by exactly the
  delta.\<close>

theorem financing_delta_books_expense:
  assumes "book_financing_delta tid cid currency source v = Inr t" and "book_append t b = (Inr True, b')"
    and "strip source \<noteq> ''FINANCING_EXPENSE:'' @ upper (strip currency)"
    and "balance b (''FINANCING_EXPENSE:'' @ upper (strip currency)) (upper (strip currency)) = Inr x"
    and "balance b' (''FINANCING_EXPENSE:'' @ upper (strip currency)) (upper (strip currency)) = Inr x'"
  shows "dval x' = dval x + pyval v"
proof -
  let ?u = "upper (strip currency)"
  note u = book_financing_delta_legs(2,3) [OF assms(1)]
  have st: "strip (''FINANCING_EXPENSE:'' @ ?u) = ''FINANCING_EXPENSE:'' @ ?u"
    using strip_prefixed [OF u, of "''FINANCING_EXPENSE:''"] by (simp add: is_space_def)
  have "dval x = posted (''FINANCING_EXPENSE:'' @ ?u) ?u (book_postings b)"
    "dval x' = posted (''FINANCING_EXPENSE:'' @ ?u) ?u (book_postings b')"
    using balance_Inr [OF assms(4)] balance_Inr [OF assms(5)] st u by metis+
  moreover have "leg_sum (''FINANCING_EXPENSE:'' @ ?u) ?u
      [(strip source, ?u, - pyval v), (''FINANCING_EXPENSE:'' @ ?u, ?u, pyval v)] = pyval v"
    using assms(3) unfolding leg_sum_def list.map sum_list.Cons sum_list.Nil prod.case by simp
  ultimately show ?thesis using financing_posted [OF assms(1,2)] by simp
qed

section \<open>Witnesses\<close>

definition sample_event :: "int \<Rightarrow> string \<Rightarrow> pynum \<Rightarrow> event_fields" where
  "sample_event r k v = \<lparr>f_charge_id = ''loan-1'', f_revision = PyInt r, f_kind = k,
     f_effective_at = Moment 0, f_available_at = Moment 10, f_unit = ''usd'', f_amount = v,
     f_source_account = ''CASH:USD'', f_evidence_ref = ''stmt''\<rparr>"

definition sample_events :: "event_fields list" where
  "sample_events = [sample_event 1 ''indicated'' (PyStr ''5''), sample_event 2 ''final'' (PyStr ''4.25''),
     sample_event 2 ''final'' (PyStr ''4.25''), sample_event 1 ''final'' (PyInt 9),
     sample_event 3 ''final'' (PyStr ''4.5'')]"

lemma sample_events_exact:
  "Inl ExactDecimalError \<notin> set (replies financing_record empty_financing_book sample_events)"
  by code_simp

definition sample_financing_book :: financing_book where
  "sample_financing_book = after financing_record empty_financing_book sample_events"

theorem financing_deltas_add_up_witness:
  "(\<Sum>(f, r) \<leftarrow> zip sample_events (replies financing_record empty_financing_book sample_events). delta_for ''loan-1'' f r) = 9 / 2"
proof -
  have "dval (final_charge (after financing_record empty_financing_book sample_events) ''loan-1'') = 9 / 2"
    by code_simp
  then show ?thesis using financing_deltas_add_up [OF sample_events_exact, of "''loan-1''"] by simp
qed

theorem financing_book_restarts_witness:
  "length (charge_history sample_financing_book) = 3
     \<and> financing_book_of (map event_state (charge_history sample_financing_book)) = Inr sample_financing_book"
proof -
  have "length (charge_history sample_financing_book) = 3" by code_simp
  then show ?thesis using financing_book_restarts [OF sample_events_exact sample_financing_book_def] by blast
qed

text \<open>A charge of \<open>10 ^ 255\<close> revised to a hundredth: the difference has 257 digits.\<close>

lemma hundredth_apart: "\<not> representable (1 / 100 - 10 ^ 255)"
proof
  assume "representable (1 / 100 - 10 ^ 255)"
  then obtain d where d: "in_envelope d" "dval d = 1 / 100 - 10 ^ 255" by (auto simp: representable_def)
  obtain c k where ck: "scaled d = (c, k)" by force
  have "of_int c / 10 ^ k = (1 / 100 - 10 ^ 255 :: rat)" using dval_scaled [of d] d(2) by (simp add: ck)
  then have "(of_int (c * 100) :: rat) = of_int ((1 - 10 ^ 257) * 10 ^ k)" by (simp add: field_simps)
  then have eq: "c * 100 = (1 - 10 ^ 257) * 10 ^ k" by (simp only: of_int_eq_iff)
  have small: "\<bar>c\<bar> < 10 ^ 256" using envelope_scaled(1) [OF d(1) ck] by (simp add: MAX_INTEGER_DIGITS_def)
  have "k = 0 \<or> k = 1 \<or> (\<exists>j. k = j + 2)" by presburger
  have odd: "odd ((1 :: int) - 10 ^ 257)" by simp
  from \<open>k = 0 \<or> k = 1 \<or> (\<exists>j. k = j + 2)\<close> consider "k = 0" | "k = 1" | j where "k = j + 2" by blast
  then show False
  proof cases
    case 3
    then have "c = (1 - 10 ^ 257) * 10 ^ j" using eq by (simp add: power_add)
    then have "\<bar>c\<bar> = (10 ^ 257 - 1) * 10 ^ j" by (simp add: abs_mult)
    moreover have grow: "n \<le> n * 10 ^ j" if "0 \<le> n" for n :: int
      using that mult_left_mono [of 1 "10 ^ j" n] by simp
    have "(0 :: int) \<le> 10 ^ 257 - 1" by simp
    from grow [OF this] have "10 ^ 257 - 1 \<le> (10 ^ 257 - 1) * (10 ^ j :: int)" .
    moreover have "(10 :: int) ^ 256 \<le> 10 ^ 257 - 1" by simp
    ultimately show False using small by linarith
  next
    case 1
    then have "c * 100 = 1 - 10 ^ 257" using eq by simp
    moreover have "even (c * 100)" by simp
    ultimately show False using odd by metis
  next
    case 2
    then have "c * 10 = 1 - 10 ^ 257" using eq by simp
    moreover have "even (c * 10)" by simp
    ultimately show False using odd by metis
  qed
qed

definition huge_event :: event_fields where
  "huge_event = sample_event 1 ''final'' (PyDecimal (Decimal False 1 255))"

definition tiny_event :: event_fields where
  "tiny_event = sample_event 2 ''final'' (PyStr ''0.01'')"

definition huge_charge :: financing_event where
  "huge_charge = \<lparr>charge_id = ''loan-1'', revision = 1, kind = FINAL, effective_at = 0, available_at = 10,
     unit = ''USD'', amount = Decimal False 1 255, source_account = ''CASH:USD'', evidence_ref = ''stmt''\<rparr>"

definition tiny_charge :: financing_event where
  "tiny_charge = huge_charge\<lparr>revision := 2, amount := Decimal False 1 (- 2)\<rparr>"

definition huge_book :: financing_book where
  "huge_book = after financing_record empty_financing_book [huge_event]"

definition torn_book :: financing_book where
  "torn_book = snd (financing_record tiny_event huge_book)"

lemma huge_resealed: "reseal_financing_event huge_event = Inr huge_charge"
  by code_simp

lemma tiny_resealed: "reseal_financing_event tiny_event = Inr tiny_charge"
  by code_simp

lemma huge_book_eq: "huge_book = book_from [huge_charge]"
proof -
  have "empty_financing_book = book_from []" by (simp add: empty_financing_book_def book_from_def)
  moreover have "financing_record huge_event (book_from []) = accept_revision huge_charge (book_from [])"
    by (simp add: financing_record_def huge_resealed check_revision_def)
  ultimately show ?thesis
    using accept_revision_book [of huge_charge "[]"] by (simp add: huge_book_def)
qed

theorem financing_delta_lost_witness:
  "fst (financing_record tiny_event huge_book) = Inl ExactDecimalError
     \<and> (\<exists>u. financing_record tiny_event torn_book = (Inr u, torn_book) \<and> \<not> accepted u)"
proof -
  have vals: "dval (amount tiny_charge) = 1 / 100" "dval (amount huge_charge) = 10 ^ 255"
    by (simp_all add: tiny_charge_def huge_charge_def power_int_def power2_eq_square)
  have "exact_subtract (amount tiny_charge) (amount huge_charge) = Inl ExactDecimalError"
  proof (cases "exact_subtract (amount tiny_charge) (amount huge_charge)")
    case (Inl e)
    then show ?thesis using exact_subtract_raises by blast
  next
    case (Inr d)
    from exact.sub_val [OF this] have "representable (1 / 100 - 10 ^ 255)"
      unfolding representable_def vals by blast
    with hundredth_apart show ?thesis by blast
  qed
  moreover have "financing_record tiny_event huge_book = accept_revision tiny_charge huge_book"
    by (simp add: financing_record_def tiny_resealed huge_book_eq check_revision_def latest_of_def dict_set_def)
      (simp add: tiny_charge_def huge_charge_def)
  ultimately have "financing_record tiny_event huge_book = (Inl ExactDecimalError, torn_book)"
    using accept_revision_reply [of tiny_charge huge_book]
    by (intro prod_eqI) (simp_all add: torn_book_def huge_book_eq final_charge_def finals_of_def tiny_charge_def
        huge_charge_def dict_set_def)
  with financing_delta_lost [OF huge_book_def this] show ?thesis by auto
qed

definition financing_tx :: journal_transaction where
  "financing_tx = projr (book_financing_delta ''t-f'' ''loan-1'' ''usd'' ''CASH:USD'' (PyStr ''4.25''))"

definition charged_book :: economic_book where
  "charged_book = snd (book_append financing_tx empty_economic_book)"

theorem financing_delta_books_expense_witness:
  "\<exists>x. balance charged_book ''FINANCING_EXPENSE:USD'' ''USD'' = Inr x \<and> dval x = 17 / 4"
proof -
  have 1: "book_financing_delta ''t-f'' ''loan-1'' ''usd'' ''CASH:USD'' (PyStr ''4.25'') = Inr financing_tx"
    "book_append financing_tx empty_economic_book = (Inr True, charged_book)"
    "strip ''CASH:USD'' \<noteq> ''FINANCING_EXPENSE:'' @ upper (strip ''usd'')"
    "upper (strip ''usd'') = ''USD''" "pyval (PyStr ''4.25'') = 17 / 4"
    by code_simp+
  have x: "balance empty_economic_book ''FINANCING_EXPENSE:USD'' ''USD'' = Inr dzero" "dval dzero = 0"
    and x': "balance charged_book ''FINANCING_EXPENSE:USD'' ''USD'' = Inr (Decimal False 425 (- 2))"
    by code_simp+
  from financing_delta_books_expense [OF 1(1,2,3)] 1(4,5) x x' show ?thesis by simp
qed

end
