(* ===== verification/Settlement.thy ===== *)
theory Settlement
  imports Equity_Projection "HOL-Library.List_Lexorder" "HOL-Library.Product_Lexorder"
    "HOL-Library.Char_ord"
begin

text \<open>
  \<open>mvp/autotrade_mvp/settlement.py\<close>: contractual cash obligations kept apart from spendable cash.
  Dates are day numbers and instants microseconds (theory \<open>Instants\<close>).  A \<open>SettlementBook\<close> is its
  five fields; \<open>from_economic_book\<close> takes the transactions of a plain \<open>EconomicBook\<close>, and the wrappers
  that check the owner of a scoped or durable book are left out, as are the digest of a rule and the
  text form of a buying-power observation.
\<close>

section \<open>Inputs\<close>

definition st_decimal :: "pynum \<Rightarrow> decimal result" where
  "st_decimal v =
     (case v of
        PyBool _ \<Rightarrow> Inl TypeError | PyFloat \<Rightarrow> Inl TypeError | PyOther \<Rightarrow> Inl TypeError
      | _ \<Rightarrow> translate ExactDecimalError ValueError (parse_bounded_exact_decimal v True))"

definition st_text :: "string \<Rightarrow> string result" where
  "st_text v = (if strip v = [] then Inl ValueError else Inr (strip v))"

definition st_utc :: "moment \<Rightarrow> int result" where
  "st_utc v = (case v of Not_Aware \<Rightarrow> Inl TypeError | Beyond_Calendar \<Rightarrow> Inl OverflowError
     | Moment us \<Rightarrow> Inr us)"

section \<open>Scopes, rules, obligations and evidence\<close>

record settlement_scope =
  sc_provider_id :: string
  sc_account_id :: string
  sc_environment :: string
  sc_provider_environment :: string

definition make_scope :: "string \<Rightarrow> string \<Rightarrow> string \<Rightarrow> string option \<Rightarrow> settlement_scope result" where
  "make_scope provider account env penv =
     rbind (st_text provider) (\<lambda>p0. let p = upper p0 in
     rbind (st_text account) (\<lambda>a. rbind (st_text env) (\<lambda>e0. let e = upper e0 in
     if e \<notin> {''REPLAY'', ''SIMULATION'', ''PAPER'', ''LIVE''} then Inl ValueError
     else rbind (case penv of None \<Rightarrow> Inr e | Some x \<Rightarrow> rbind (st_text x) (\<lambda>t. Inr (upper t))) (\<lambda>pe.
       if p = ''BYBIT'' then
         (if penv = None then Inl ValueError
          else if pe \<notin> {''MAINNET'', ''TESTNET'', ''DEMO''} then Inl ValueError
          else if e = ''LIVE'' \<and> pe \<noteq> ''MAINNET'' \<or> e = ''PAPER'' \<and> pe \<notin> {''TESTNET'', ''DEMO''}
            then Inl ValueError
          else Inr \<lparr>sc_provider_id = p, sc_account_id = a, sc_environment = e, sc_provider_environment = pe\<rparr>)
       else if pe \<noteq> e then Inl ValueError
       else Inr \<lparr>sc_provider_id = p, sc_account_id = a, sc_environment = e, sc_provider_environment = pe\<rparr>))))"

record rule_binding =
  rb_rule_id :: string
  rb_rule_version :: string
  rb_scope :: settlement_scope
  rb_instrument_version :: string
  rb_currency :: string
  rb_effective_from :: int
  rb_effective_to :: "int option"
  rb_evidence_refs :: "string list"

definition make_rule_binding :: "string \<Rightarrow> string \<Rightarrow> settlement_scope \<Rightarrow> string \<Rightarrow> string \<Rightarrow> int
    \<Rightarrow> int option \<Rightarrow> string list \<Rightarrow> rule_binding result" where
  "make_rule_binding rid version scope instr currency from_day to_day refs =
     rbind (st_text rid) (\<lambda>r. rbind (st_text version) (\<lambda>v. rbind (st_text instr) (\<lambda>i.
     rbind (st_text currency) (\<lambda>c.
     if (case to_day of None \<Rightarrow> False | Some d \<Rightarrow> d \<le> from_day) then Inl ValueError
     else if refs = [] then Inl ValueError
     else rbind (rmap st_text refs) (\<lambda>rs.
     if \<not> distinct rs then Inl ValueError
     else Inr \<lparr>rb_rule_id = r, rb_rule_version = v, rb_scope = scope, rb_instrument_version = i,
       rb_currency = upper c, rb_effective_from = from_day, rb_effective_to = to_day,
       rb_evidence_refs = rs\<rparr>)))))"

definition applies_on :: "rule_binding \<Rightarrow> int \<Rightarrow> bool" where
  "applies_on rule day \<longleftrightarrow> rb_effective_from rule \<le> day
     \<and> (case rb_effective_to rule of None \<Rightarrow> True | Some d \<Rightarrow> day < d)"

record obligation =
  ob_id :: string
  ob_cause :: string
  ob_currency :: string
  ob_amount :: decimal
  ob_trade_date :: int
  ob_settlement_date :: int
  ob_component :: string
  ob_source :: "string option"
  ob_rule :: "rule_binding option"

definition make_obligation :: "string \<Rightarrow> string \<Rightarrow> string \<Rightarrow> pynum \<Rightarrow> int \<Rightarrow> int \<Rightarrow> string
    \<Rightarrow> string option \<Rightarrow> rule_binding option \<Rightarrow> obligation result" where
  "make_obligation oid cause currency amount trade settle component source rule =
     rbind (st_text oid) (\<lambda>i. rbind (st_text cause) (\<lambda>c. rbind (st_text component) (\<lambda>k.
     rbind (st_text currency) (\<lambda>u0. let u = upper u0 in
     rbind (st_decimal amount) (\<lambda>v.
     if dval v = 0 then Inl ValueError
     else if settle < trade then Inl ValueError
     else rbind (opt_text st_text source) (\<lambda>s.
     if (case rule of None \<Rightarrow> False | Some r \<Rightarrow> rb_currency r \<noteq> u) then Inl SettlementConflict
     else if (case rule of None \<Rightarrow> False | Some r \<Rightarrow> \<not> applies_on r trade) then Inl SettlementConflict
     else Inr \<lparr>ob_id = i, ob_cause = c, ob_currency = u, ob_amount = v, ob_trade_date = trade,
       ob_settlement_date = settle, ob_component = upper k, ob_source = s, ob_rule = rule\<rparr>))))))"

definition same_obligation :: "obligation \<Rightarrow> obligation \<Rightarrow> bool" where
  "same_obligation a b \<longleftrightarrow> ob_id a = ob_id b \<and> ob_cause a = ob_cause b \<and> ob_currency a = ob_currency b
     \<and> dval (ob_amount a) = dval (ob_amount b) \<and> ob_trade_date a = ob_trade_date b
     \<and> ob_settlement_date a = ob_settlement_date b \<and> ob_component a = ob_component b
     \<and> ob_source a = ob_source b \<and> ob_rule a = ob_rule b"

record settlement_evidence =
  se_obligation_id :: string
  se_evidence_ref :: string
  se_observed_at :: int

definition make_settlement_evidence :: "string \<Rightarrow> string \<Rightarrow> moment \<Rightarrow> settlement_evidence result" where
  "make_settlement_evidence oid ref observed =
     rbind (st_text oid) (\<lambda>i. rbind (st_text ref) (\<lambda>r. rbind (st_utc observed) (\<lambda>us.
       Inr \<lparr>se_obligation_id = i, se_evidence_ref = r, se_observed_at = us\<rparr>)))"

section \<open>The settlement book\<close>

record settlement_book =
  settled_cash :: "(string, decimal) dict"
  obligations :: "(string, obligation) dict"
  by_cause_component :: "(string \<times> string, obligation) dict"
  settled_ids :: "string list"
  settlement_evidences :: "(string, settlement_evidence) dict"

definition cash_step :: "(string, decimal) dict \<Rightarrow> string \<times> pynum \<Rightarrow> (string, decimal) dict result" where
  "cash_step held item = (case item of (currency, amount) \<Rightarrow>
     rbind (st_text currency) (\<lambda>c. let u = upper c in
     if dict_get held u \<noteq> None then Inl SettlementConflict
     else rbind (st_decimal amount) (\<lambda>v. Inr (dict_set held u v))))"

definition add_obligation :: "obligation \<Rightarrow> (settlement_book, bool) operation" where
  "add_obligation ob b =
     (case dict_get (obligations b) (ob_id ob) of
        Some existing \<Rightarrow>
          if same_obligation existing ob then (Inr False, b) else (Inl SettlementConflict, b)
      | None \<Rightarrow>
          let cause_key = (ob_cause ob, ob_component ob) in
          if dict_get (by_cause_component b) cause_key \<noteq> None then (Inl SettlementConflict, b)
          else (Inr True, b\<lparr>obligations := dict_set (obligations b) (ob_id ob) ob,
                  by_cause_component := dict_set (by_cause_component b) cause_key ob\<rparr>))"

definition add_step :: "settlement_book \<Rightarrow> obligation \<Rightarrow> settlement_book result" where
  "add_step b ob = (case add_obligation ob b of (Inl e, _) \<Rightarrow> Inl e | (Inr _, b') \<Rightarrow> Inr b')"

text \<open>Evidence given to the constructor marks its obligation settled without moving cash.\<close>

definition evidence_step :: "settlement_book \<Rightarrow> string \<times> settlement_evidence \<Rightarrow> settlement_book result" where
  "evidence_step b item = (case item of (raw_id, record) \<Rightarrow>
     rbind (st_text raw_id) (\<lambda>key.
     if se_obligation_id record \<noteq> key then Inl SettlementConflict
     else case dict_get (obligations b) key of
       None \<Rightarrow> Inl SettlementConflict
     | Some ob \<Rightarrow>
         if dict_get (settlement_evidences b) key \<noteq> None then Inl SettlementConflict
         else if day_of (se_observed_at record) < ob_settlement_date ob then Inl SettlementConflict
         else Inr (b\<lparr>settled_ids := List.insert key (settled_ids b),
                settlement_evidences := dict_set (settlement_evidences b) key record\<rparr>)))"

definition new_settlement_book :: "(string \<times> pynum) list \<Rightarrow> obligation list
    \<Rightarrow> (string \<times> settlement_evidence) list \<Rightarrow> settlement_book result" where
  "new_settlement_book opening obs evidence =
     rbind (rfold cash_step [] opening) (\<lambda>c.
     rbind (rfold add_step \<lparr>settled_cash = c, obligations = [], by_cause_component = [],
       settled_ids = [], settlement_evidences = []\<rparr> obs) (\<lambda>b.
     rfold evidence_step b evidence))"

definition is_settled :: "settlement_book \<Rightarrow> string \<Rightarrow> bool result" where
  "is_settled b oid = rbind (st_text oid) (\<lambda>k. Inr (k \<in> set (settled_ids b)))"

definition cash_of :: "settlement_book \<Rightarrow> string \<Rightarrow> decimal" where
  "cash_of b c = (case dict_get (settled_cash b) c of None \<Rightarrow> dzero | Some v \<Rightarrow> v)"

definition settle :: "string \<Rightarrow> int \<Rightarrow> settlement_evidence \<Rightarrow> (settlement_book, bool) operation" where
  "settle oid as_of evidence =
     raising (st_text oid) (\<lambda>key b.
       if se_obligation_id evidence \<noteq> key then (Inl SettlementConflict, b)
       else case dict_get (obligations b) key of
         None \<Rightarrow> (Inl SettlementConflict, b)
       | Some ob \<Rightarrow>
           if key \<in> set (settled_ids b) then
             raising (dict_lookup (settlement_evidences b) key) (\<lambda>prior b.
               if prior \<noteq> evidence then (Inl SettlementConflict, b) else (Inr False, b)) b
           else if as_of < ob_settlement_date ob then (Inl SettlementConflict, b)
           else if day_of (se_observed_at evidence) < ob_settlement_date ob
             then (Inl SettlementConflict, b)
           else if as_of < day_of (se_observed_at evidence) then (Inl SettlementConflict, b)
           else raising (exact_add (cash_of b (ob_currency ob)) (ob_amount ob)) (\<lambda>cash b.
             (Inr True, b\<lparr>settled_cash := dict_set (settled_cash b) (ob_currency ob) cash,
               settled_ids := List.insert key (settled_ids b),
               settlement_evidences := dict_set (settlement_evidences b) key evidence\<rparr>)) b)"

text \<open>The evidence given to \<open>settle_due\<close>, checked against the known obligations.\<close>

definition due_evidence_step :: "settlement_book \<Rightarrow> (string, settlement_evidence) dict
    \<Rightarrow> string \<times> settlement_evidence \<Rightarrow> (string, settlement_evidence) dict result" where
  "due_evidence_step b normalized item = (case item of (raw_id, record) \<Rightarrow>
     rbind (st_text raw_id) (\<lambda>key.
     if se_obligation_id record \<noteq> key then Inl SettlementConflict
     else if dict_get (obligations b) key = None then Inl SettlementConflict
     else if dict_get normalized key \<noteq> None then Inl SettlementConflict
     else Inr (dict_set normalized key record)))"

definition due_order :: "obligation list \<Rightarrow> obligation list" where
  "due_order obs = sort_key (\<lambda>ob. (ob_settlement_date ob, ob_id ob)) obs"

fun settle_each :: "int \<Rightarrow> (string, settlement_evidence) dict \<Rightarrow> obligation list
    \<Rightarrow> (settlement_book, string list) operation" where
  "settle_each as_of evidence [] b = (Inr [], b)"
| "settle_each as_of evidence (ob # obs) b =
     (case dict_get evidence (ob_id ob) of
        Some record \<Rightarrow>
          if ob_id ob \<notin> set (settled_ids b) \<and> ob_settlement_date ob \<le> as_of
             \<and> day_of (se_observed_at record) \<le> as_of
          then (case settle (ob_id ob) as_of record b of
              (Inl e, b') \<Rightarrow> (Inl e, b')
            | (Inr _, b') \<Rightarrow> gives ((#) (ob_id ob)) (settle_each as_of evidence obs) b')
          else settle_each as_of evidence obs b
      | None \<Rightarrow> settle_each as_of evidence obs b)"

definition settle_due :: "int \<Rightarrow> (string \<times> settlement_evidence) list \<Rightarrow> (settlement_book, string list) operation" where
  "settle_due as_of evidence b =
     raising (rfold (due_evidence_step b) [] evidence) (\<lambda>normalized b.
       settle_each as_of normalized (due_order (dict_values (obligations b))) b) b"

section \<open>Cash projections\<close>

record settlement_snapshot =
  sn_currency :: string
  sn_settled_cash :: decimal
  sn_receivable :: decimal
  sn_payable :: decimal

definition open_obligations :: "settlement_book \<Rightarrow> string \<Rightarrow> obligation list" where
  "open_obligations b u = filter (\<lambda>ob. ob_currency ob = u \<and> ob_id ob \<notin> set (settled_ids b))
     (dict_values (obligations b))"

definition settlement_snapshot_of :: "settlement_book \<Rightarrow> string \<Rightarrow> settlement_snapshot result" where
  "settlement_snapshot_of b currency =
     rbind (st_text currency) (\<lambda>c. let u = upper c;
         pending = open_obligations b u;
         receivables = map ob_amount (filter (\<lambda>ob. 0 < dval (ob_amount ob)) pending) in
     rbind (rmap (\<lambda>ob. exact_subtract dzero (ob_amount ob))
         (filter (\<lambda>ob. \<not> 0 < dval (ob_amount ob)) pending)) (\<lambda>payables.
     rbind (exact_sum receivables) (\<lambda>receivable. rbind (exact_sum payables) (\<lambda>payable.
       Inr \<lparr>sn_currency = u, sn_settled_cash = cash_of b u, sn_receivable = receivable,
            sn_payable = payable\<rparr>))))"

definition net_unsettled :: "settlement_snapshot \<Rightarrow> decimal result" where
  "net_unsettled sn = exact_subtract (sn_receivable sn) (sn_payable sn)"

definition economic_cash :: "settlement_snapshot \<Rightarrow> decimal result" where
  "economic_cash sn = rbind (net_unsettled sn) (\<lambda>n. exact_add (sn_settled_cash sn) n)"

definition available_to_spend :: "settlement_book \<Rightarrow> string \<Rightarrow> pynum \<Rightarrow> decimal result" where
  "available_to_spend b currency hold =
     rbind (settlement_snapshot_of b currency) (\<lambda>sn. rbind (st_decimal hold) (\<lambda>locked.
     if dval locked < 0 then Inl ValueError
     else rbind (exact_subtract (sn_settled_cash sn) (sn_payable sn)) (\<lambda>x.
       rbind (exact_subtract x locked) (\<lambda>available.
         Inr (if 0 < dval available then available else dzero)))))"

section \<open>Checkpoints and restart\<close>

record settlement_checkpoint =
  cp_id :: string
  cp_cash :: "(string, decimal) dict"
  cp_evidence :: "settlement_evidence list"

definition checkpoint_cash_step :: "(string, decimal) dict \<Rightarrow> string \<times> decimal \<Rightarrow> (string, decimal) dict result" where
  "checkpoint_cash_step acc item = (case item of (raw, amount) \<Rightarrow>
     rbind (st_text raw) (\<lambda>t. let c = upper t in
     if c \<noteq> raw then Inl ValueError
     else rbind (st_decimal (PyDecimal amount)) (\<lambda>v.
       if dict_get acc c \<noteq> None then Inl SettlementConflict else Inr (dict_set acc c v))))"

definition same_cash :: "(string \<times> decimal) list \<Rightarrow> (string \<times> decimal) list \<Rightarrow> bool" where
  "same_cash a b \<longleftrightarrow> list_all2 (\<lambda>(c, v) (d, w). c = d \<and> dval v = dval w) a b"

definition checkpoint_post_init :: "settlement_checkpoint \<Rightarrow> settlement_checkpoint result" where
  "checkpoint_post_init cp =
     rbind (st_text (cp_id cp)) (\<lambda>i. rbind (rfold checkpoint_cash_step [] (cp_cash cp)) (\<lambda>cash.
     if \<not> same_cash (sort_key fst cash) (cp_cash cp) then Inl SettlementConflict
     else if \<not> distinct (map se_obligation_id (cp_evidence cp)) then Inl SettlementConflict
     else if sort_key se_obligation_id (cp_evidence cp) \<noteq> cp_evidence cp then Inl SettlementConflict
     else Inr (cp\<lparr>cp_id := i\<rparr>)))"

definition checkpoint_evidence_step :: "(string, settlement_evidence) dict \<Rightarrow> string \<times> settlement_evidence
    \<Rightarrow> (string, settlement_evidence) dict result" where
  "checkpoint_evidence_step acc item = (case item of (raw_id, record) \<Rightarrow>
     rbind (st_text raw_id) (\<lambda>key.
     if se_obligation_id record \<noteq> key then Inl SettlementConflict
     else if dict_get acc key \<noteq> None then Inl SettlementConflict
     else Inr (dict_set acc key record)))"

definition checkpoint_create :: "string \<Rightarrow> (string \<times> pynum) list \<Rightarrow> (string \<times> settlement_evidence) list
    \<Rightarrow> settlement_checkpoint result" where
  "checkpoint_create cid opening evidence =
     rbind (rfold cash_step [] opening) (\<lambda>c. rbind (rfold checkpoint_evidence_step [] evidence) (\<lambda>ev.
     rbind (st_text cid) (\<lambda>i.
       checkpoint_post_init \<lparr>cp_id = i, cp_cash = sort_key fst c,
         cp_evidence = map snd (sort_key fst ev)\<rparr>)))"

definition book_checkpoint :: "settlement_book \<Rightarrow> string \<Rightarrow> settlement_checkpoint result" where
  "book_checkpoint b cid = checkpoint_create cid
     (map (\<lambda>(c, v). (c, PyDecimal v)) (settled_cash b)) (settlement_evidences b)"

definition evidence_dict :: "settlement_checkpoint \<Rightarrow> (string, settlement_evidence) dict" where
  "evidence_dict cp = map (\<lambda>r. (se_obligation_id r, r)) (cp_evidence cp)"

definition history_step :: "settlement_book \<Rightarrow> (string, settlement_evidence) dict
    \<Rightarrow> string \<times> settlement_evidence \<Rightarrow> (string, settlement_evidence) dict result" where
  "history_step v normalized item = (case item of (raw_id, record) \<Rightarrow>
     rbind (st_text raw_id) (\<lambda>key.
     if se_obligation_id record \<noteq> key then Inl SettlementConflict
     else if dict_get normalized key \<noteq> None then Inl SettlementConflict
     else if dict_get (obligations v) key = None then Inl SettlementConflict
     else Inr (dict_set normalized key record)))"

definition date_of_obligation :: "settlement_book \<Rightarrow> string \<Rightarrow> int" where
  "date_of_obligation b key = (case dict_get (obligations b) key of None \<Rightarrow> 0 | Some ob \<Rightarrow> ob_settlement_date ob)"

definition replay_settlement :: "(string, settlement_evidence) dict \<Rightarrow> settlement_book \<Rightarrow> string \<Rightarrow> settlement_book result" where
  "replay_settlement normalized b key =
     rbind (dict_lookup normalized key) (\<lambda>record.
       case settle key (max (date_of_obligation b key) (day_of (se_observed_at record))) record b of
         (Inl e, _) \<Rightarrow> Inl e | (Inr _, b') \<Rightarrow> Inr b')"

definition from_history :: "settlement_checkpoint \<Rightarrow> obligation list \<Rightarrow> (string \<times> settlement_evidence) list
    \<Rightarrow> settlement_book result" where
  "from_history cp obs evidence =
     rbind (new_settlement_book (map (\<lambda>(c, v). (c, PyDecimal v)) (cp_cash cp)) obs (evidence_dict cp)) (\<lambda>v.
     rbind (rfold (history_step v) [] evidence) (\<lambda>normalized.
     let ordered = sort_key (\<lambda>k. (date_of_obligation v k, k)) (dict_keys normalized);
         n = length (evidence_dict cp); prefix_ids = take n ordered in
     if set prefix_ids \<noteq> set (dict_keys (evidence_dict cp)) then Inl SettlementConflict
     else if list_ex (\<lambda>k. dict_get normalized k \<noteq> dict_get (evidence_dict cp) k) prefix_ids
       then Inl SettlementConflict
     else rfold (replay_settlement normalized) v (drop (length prefix_ids) ordered)))"


section \<open>Settlement of a journal\<close>

definition is_cash_leg :: "posting \<Rightarrow> bool" where
  "is_cash_leg p \<longleftrightarrow> ledger_account p = ''CASH:'' @ asset_or_currency p"

definition cash_leg_step :: "(string, decimal) dict \<Rightarrow> posting \<Rightarrow> (string, decimal) dict result" where
  "cash_leg_step acc p =
     (if is_cash_leg p then
        rbind (exact_add (case dict_get acc (asset_or_currency p) of None \<Rightarrow> dzero | Some v \<Rightarrow> v) (signed_amount p))
          (\<lambda>v. Inr (dict_set acc (asset_or_currency p) v))
      else Inr acc)"

text \<open>The net cash of a transaction by currency, and the check that each non-zero one is bound.\<close>

definition check_bound :: "(string \<times> string) list \<Rightarrow> journal_transaction \<Rightarrow> unit result" where
  "check_bound bound t =
     rbind (rfold cash_leg_step [] (postings t)) (\<lambda>legs.
       if list_ex (\<lambda>(c, v). dval v \<noteq> 0 \<and> (transaction_id t, c) \<notin> set bound) legs
       then Inl SettlementConflict else Inr ())"

definition cash_in :: "string \<Rightarrow> posting list \<Rightarrow> decimal list" where
  "cash_in u ps = map signed_amount (filter (\<lambda>p. ledger_account p = ''CASH:'' @ u \<and> asset_or_currency p = u) ps)"

definition active_obligation_step :: "(string, journal_transaction) dict \<Rightarrow> string list
    \<Rightarrow> obligation list \<times> (string \<times> string) list \<Rightarrow> obligation
    \<Rightarrow> (obligation list \<times> (string \<times> string) list) result" where
  "active_obligation_step by_tid reversed_ids st ob =
     (case st of (active, pairs) \<Rightarrow>
      case (ob_source ob, ob_rule ob) of
        (Some src, Some rule) \<Rightarrow>
          (case dict_get by_tid src of
             None \<Rightarrow> Inl SettlementConflict
           | Some t \<Rightarrow>
               if cause_event_id t \<noteq> ob_cause ob then Inl SettlementConflict
               else if src \<in> set reversed_ids then Inr st
               else if (src, ob_currency ob) \<in> set pairs then Inl SettlementConflict
               else rbind (exact_sum (cash_in (ob_currency ob) (postings t))) (\<lambda>effect.
                 if dval effect \<noteq> dval (ob_amount ob) then Inl SettlementConflict
                 else Inr (active @ [ob], pairs @ [(src, ob_currency ob)])))
      | _ \<Rightarrow> Inl SettlementConflict)"

definition trading :: "journal_transaction \<Rightarrow> bool" where
  "trading t \<longleftrightarrow> list_ex (\<lambda>p. starts_with ''POSITION:'' (ledger_account p)
     \<or> starts_with ''FX_CLEARING:'' (ledger_account p)) (postings t)"

definition journal_currencies :: "journal_transaction list \<Rightarrow> obligation list \<Rightarrow> string list" where
  "journal_currencies ts obs = remdups (map asset_or_currency (filter is_cash_leg (concat (map postings ts)))
     @ map ob_currency obs)"

definition opening_cash :: "journal_transaction list \<Rightarrow> obligation list \<Rightarrow> string \<Rightarrow> (string \<times> pynum) result" where
  "opening_cash ts active c =
     rbind (exact_sum (cash_in c (concat (map postings ts)))) (\<lambda>total.
     rbind (exact_sum (map ob_amount (filter (\<lambda>ob. ob_currency ob = c) active))) (\<lambda>bound.
     rbind (exact_subtract total bound) (\<lambda>v. Inr (c, PyDecimal v))))"

definition from_economic_book :: "economic_book \<Rightarrow> obligation list \<Rightarrow> (string \<times> settlement_evidence) list
    \<Rightarrow> settlement_book result" where
  "from_economic_book book items evidence =
     (let ts = bk_transactions book;
          by_tid = index_by_id ts;
          reversed_ids = concat (map (\<lambda>t. case reverses_transaction_id t of None \<Rightarrow> [] | Some r \<Rightarrow> [r]) ts);
          bound = concat (map (\<lambda>ob. case ob_source ob of None \<Rightarrow> [] | Some s \<Rightarrow> [(s, ob_currency ob)]) items) in
      if list_ex (\<lambda>(k, _). k \<notin> ob_id ` set items) evidence then Inl SettlementConflict
      else rbind (rmap (check_bound bound) (filter (\<lambda>t. case corrects_transaction_id t of None \<Rightarrow> False
          | Some c \<Rightarrow> transaction_id t \<notin> set reversed_ids \<and> c \<in> fst ` set bound) ts)) (\<lambda>_.
      rbind (rfold (active_obligation_step by_tid reversed_ids) ([], []) items) (\<lambda>(active, pairs).
      rbind (rmap (check_bound pairs) (filter (\<lambda>t. transaction_id t \<notin> set reversed_ids
          \<and> reverses_transaction_id t = None \<and> trading t) ts)) (\<lambda>_.
      rbind (rmap (opening_cash ts active) (journal_currencies ts items)) (\<lambda>opening.
      rbind (checkpoint_create ''economic-book-settlement-opening'' opening []) (\<lambda>cp.
        from_history cp active (filter (\<lambda>(k, _). k \<in> ob_id ` set active) evidence)))))))"

section \<open>Available capital\<close>

record buying_power =
  bp_evidence_id :: string
  bp_scope :: settlement_scope
  bp_currency :: string
  bp_additional_credit :: decimal
  bp_observed_at :: int
  bp_valid_until :: int
  bp_evidence_refs :: "string list"

definition make_buying_power :: "string \<Rightarrow> settlement_scope \<Rightarrow> string \<Rightarrow> pynum \<Rightarrow> moment \<Rightarrow> moment
    \<Rightarrow> string list \<Rightarrow> buying_power result" where
  "make_buying_power eid scope currency credit observed until refs =
     (if refs = [] then Inl TypeError
      else rbind (st_text eid) (\<lambda>i. rbind (st_text currency) (\<lambda>c. rbind (st_decimal credit) (\<lambda>v.
      if dval v < 0 then Inl ValueError
      else rbind (st_utc observed) (\<lambda>o1. rbind (st_utc until) (\<lambda>u1.
      if u1 \<le> o1 then Inl ValueError
      else rbind (rmap st_text refs) (\<lambda>rs.
      if \<not> distinct rs then Inl ValueError
      else Inr \<lparr>bp_evidence_id = i, bp_scope = scope, bp_currency = upper c, bp_additional_credit = v,
        bp_observed_at = o1, bp_valid_until = u1, bp_evidence_refs = rs\<rparr>)))))))"

record capital_projection =
  ca_scope :: settlement_scope
  ca_currency :: string
  ca_as_of :: int
  ca_settled_cash :: decimal
  ca_receivable :: decimal
  ca_payable :: decimal
  ca_available_cash :: decimal
  ca_buying_power :: decimal
  ca_available_capital :: decimal
  ca_overdue :: "string list"
  ca_blocks_new_risk :: bool

definition overdue_step :: "settlement_book \<Rightarrow> settlement_scope \<Rightarrow> string \<Rightarrow> int \<Rightarrow> string list \<Rightarrow> obligation
    \<Rightarrow> string list result" where
  "overdue_step b scope u point overdue ob =
     (if ob_currency ob \<noteq> u then Inr overdue
      else case (ob_source ob, ob_rule ob) of
        (Some _, Some rule) \<Rightarrow>
          if rb_scope rule \<noteq> scope then Inl SettlementConflict
          else Inr (if ob_id ob \<notin> set (settled_ids b) \<and> ob_settlement_date ob < day_of point
            then overdue @ [ob_id ob] else overdue)
      | _ \<Rightarrow> Inl SettlementConflict)"

definition credit_of :: "settlement_scope \<Rightarrow> string \<Rightarrow> int \<Rightarrow> buying_power option \<Rightarrow> bool \<Rightarrow> (decimal \<times> bool) result" where
  "credit_of scope u point evidence required =
     (case evidence of None \<Rightarrow> Inr (dzero, required)
      | Some bp \<Rightarrow>
          if bp_scope bp \<noteq> scope \<or> bp_currency bp \<noteq> u then Inl SettlementConflict
          else if bp_observed_at bp \<le> point \<and> point < bp_valid_until bp then Inr (bp_additional_credit bp, False)
          else Inr (dzero, required))"

definition available_capital :: "settlement_book \<Rightarrow> settlement_scope \<Rightarrow> string \<Rightarrow> moment \<Rightarrow> buying_power option
    \<Rightarrow> bool \<Rightarrow> capital_projection result" where
  "available_capital b scope currency as_of evidence required =
     rbind (st_text currency) (\<lambda>c. let u = upper c in
     rbind (st_utc as_of) (\<lambda>point.
     rbind (rfold (overdue_step b scope u point) [] (dict_values (obligations b))) (\<lambda>overdue.
     rbind (credit_of scope u point evidence required) (\<lambda>(credit, unknown).
     rbind (settlement_snapshot_of b u) (\<lambda>sn.
     rbind (available_to_spend b u (PyInt 0)) (\<lambda>spendable.
     rbind (exact_add spendable credit) (\<lambda>total.
       Inr \<lparr>ca_scope = scope, ca_currency = u, ca_as_of = point, ca_settled_cash = sn_settled_cash sn,
         ca_receivable = sn_receivable sn, ca_payable = sn_payable sn, ca_available_cash = spendable,
         ca_buying_power = credit, ca_available_capital = total, ca_overdue = sort overdue,
         ca_blocks_new_risk = (overdue \<noteq> [] \<or> unknown)\<rparr>)))))))"

definition capital_resources :: "capital_projection \<Rightarrow> (string \<times> pynum) list" where
  "capital_resources cap =
     [(''CASH:'' @ ca_currency cap, PyDecimal (if dval (ca_available_cash cap) < 0 then dzero else ca_available_cash cap)),
      (''MARGIN_CREDIT:'' @ ca_currency cap, PyDecimal (if dval (ca_buying_power cap) < 0 then dzero else ca_buying_power cap))]"

section \<open>Obligations of booked transactions\<close>

definition cash_settlement_obligation_from_transaction :: "journal_transaction \<Rightarrow> string \<Rightarrow> string \<Rightarrow> int \<Rightarrow> int
    \<Rightarrow> string \<Rightarrow> string \<Rightarrow> rule_binding \<Rightarrow> obligation result" where
  "cash_settlement_obligation_from_transaction t oid currency trade settle_day component instr rule =
     rbind (st_text currency) (\<lambda>c. let u = upper c in
     rbind (st_text instr) (\<lambda>i.
     if rb_instrument_version rule \<noteq> i then Inl SettlementConflict
     else if rb_currency rule \<noteq> u then Inl SettlementConflict
     else if \<not> applies_on rule trade then Inl SettlementConflict
     else rbind (exact_sum (cash_in u (postings t))) (\<lambda>amount.
     if dval amount = 0 then Inl SettlementConflict
     else rbind (st_text oid) (\<lambda>o1. rbind (st_text component) (\<lambda>k.
       make_obligation o1 (cause_event_id t) u (PyDecimal amount) trade settle_day (upper k)
         (Some (transaction_id t)) (Some rule))))))"

definition trade_day :: "instant_text \<Rightarrow> int result" where
  "trade_day v = (case v of Unreadable \<Rightarrow> Inl SettlementConflict | No_Offset \<Rightarrow> Inl SettlementConflict
     | Out_Of_Range \<Rightarrow> Inl OverflowError | At us \<Rightarrow> Inr (day_of us))"

definition equity_cash_obligation_from_transaction :: "journal_transaction \<Rightarrow> string \<Rightarrow> string \<Rightarrow> string \<Rightarrow> int
    \<Rightarrow> rule_binding \<Rightarrow> obligation result" where
  "equity_cash_obligation_from_transaction t oid instr currency settle_day rule =
     (case economic_effective_at t of None \<Rightarrow> Inl SettlementConflict
      | Some eff \<Rightarrow>
        rbind (canonical_equity_fill_terms t instr currency) (\<lambda>terms.
        if terms = None then Inl SettlementConflict
        else rbind (st_text currency) (\<lambda>c. let u = upper c in
        rbind (trade_day eff) (\<lambda>day.
        if rb_currency rule \<noteq> u then Inl SettlementConflict
        else if \<not> applies_on rule day then Inl SettlementConflict
        else cash_settlement_obligation_from_transaction t oid u day settle_day
          ''PRINCIPAL_AND_SAME_CURRENCY_FEE'' instr rule))))"

definition equity_cash_obligation :: "string \<Rightarrow> string \<Rightarrow> string \<Rightarrow> string \<Rightarrow> pynum \<Rightarrow> pynum \<Rightarrow> pynum
    \<Rightarrow> int \<Rightarrow> int \<Rightarrow> obligation result" where
  "equity_cash_obligation oid cause currency sd quantity price fee trade settle_day =
     rbind (st_text currency) (\<lambda>c. let u = upper c in
     rbind (st_text sd) (\<lambda>s0. let normalized_side = upper s0 in
     if normalized_side \<noteq> ''BUY'' \<and> normalized_side \<noteq> ''SELL'' then Inl ValueError
     else rbind (st_decimal quantity) (\<lambda>qty. rbind (st_decimal price) (\<lambda>px. rbind (st_decimal fee) (\<lambda>f.
     if dval qty \<le> 0 \<or> dval px \<le> 0 \<or> dval f < 0 then Inl ValueError
     else rbind (exact_multiply [qty, px]) (\<lambda>gross.
     rbind (if normalized_side = ''BUY'' then rbind (exact_add gross f) (\<lambda>x. exact_subtract dzero x)
            else exact_subtract gross f) (\<lambda>amount.
     if dval amount = 0 then Inl ValueError
     else rbind (st_text oid) (\<lambda>o1. rbind (st_text cause) (\<lambda>c1.
       make_obligation o1 c1 u (PyDecimal amount) trade settle_day ''PRINCIPAL_AND_SAME_CURRENCY_FEE''
         None None)))))))))"


section \<open>The book's invariant\<close>

lemma st_text_Inr [simp, result_simps]: "st_text v = Inr t \<longleftrightarrow> strip v = t \<and> t \<noteq> []"
  by (auto simp: st_text_def)

lemma st_decimal_Inr: "st_decimal v = Inr d \<Longrightarrow> in_envelope d \<and> dval d = pyval v"
  by (cases v) (auto simp: st_decimal_def dest: parse_Inr)

lemma st_decimal_PyDecimal: "in_envelope d \<Longrightarrow> st_decimal (PyDecimal d) = Inr (if dval d = 0 then dzero else d)"
  by (simp add: st_decimal_def parse_decimal)

definition code_ok :: "string \<Rightarrow> bool" where
  "code_ok c \<longleftrightarrow> strip c = c \<and> c \<noteq> [] \<and> upper c = c"

text \<open>An obligation as its constructor makes it.\<close>

definition proper :: "obligation \<Rightarrow> bool" where
  "proper ob \<longleftrightarrow> strip (ob_id ob) = ob_id ob \<and> ob_id ob \<noteq> [] \<and> code_ok (ob_currency ob)
     \<and> in_envelope (ob_amount ob) \<and> dval (ob_amount ob) \<noteq> 0"

lemma make_obligation_proper:
  "make_obligation i c u v td sd k src rule = Inr ob \<Longrightarrow> proper ob"
  by (auto simp: make_obligation_def proper_def code_ok_def Let_def strip_upper split: if_splits
      dest!: st_decimal_Inr)

definition settlement_ok :: "settlement_book \<Rightarrow> bool" where
  "settlement_ok b \<longleftrightarrow> dict_ok (obligations b) \<and> dict_ok (settled_cash b) \<and> dict_ok (settlement_evidences b)
     \<and> (\<forall>(k, ob) \<in> set (obligations b). ob_id ob = k \<and> proper ob)
     \<and> (\<forall>(c, v) \<in> set (settled_cash b). code_ok c \<and> in_envelope v)
     \<and> distinct (settled_ids b) \<and> set (settled_ids b) = set (dict_keys (settlement_evidences b))
     \<and> (\<forall>(k, r) \<in> set (settlement_evidences b). se_obligation_id r = k
          \<and> (\<exists>ob. dict_get (obligations b) k = Some ob \<and> ob_settlement_date ob \<le> day_of (se_observed_at r)))
     \<and> dict_values (by_cause_component b) = dict_values (obligations b)
     \<and> dict_keys (by_cause_component b) = map (\<lambda>ob. (ob_cause ob, ob_component ob)) (dict_values (obligations b))
     \<and> dict_ok (by_cause_component b)"

lemma settlement_okD:
  assumes "settlement_ok b"
  shows "dict_ok (obligations b)" "dict_ok (settled_cash b)" "dict_ok (settlement_evidences b)"
    "dict_get (obligations b) k = Some ob \<Longrightarrow> ob_id ob = k \<and> proper ob"
    "set (settled_ids b) = set (dict_keys (settlement_evidences b))"
    "dict_get (settlement_evidences b) k = Some r \<Longrightarrow> se_obligation_id r = k
      \<and> (\<exists>ob. dict_get (obligations b) k = Some ob \<and> ob_settlement_date ob \<le> day_of (se_observed_at r))"
  using assms by (auto simp: settlement_ok_def dest!: dict_get_mem)

lemma add_obligation_cases:
  assumes "add_obligation ob b = (res, b')"
  shows "b' = b \<and> res \<noteq> Inr True \<or> res = Inr True \<and> dict_get (obligations b) (ob_id ob) = None
    \<and> dict_get (by_cause_component b) (ob_cause ob, ob_component ob) = None
    \<and> b' = b\<lparr>obligations := obligations b @ [(ob_id ob, ob)],
         by_cause_component := by_cause_component b @ [((ob_cause ob, ob_component ob), ob)]\<rparr>"
  using assms by (auto simp: add_obligation_def Let_def dict_set_new split: option.splits if_splits)

lemma add_obligation_ok:
  assumes "add_obligation ob b = (res, b')" and "settlement_ok b" and "proper ob"
  shows "settlement_ok b'"
  using add_obligation_cases [OF assms(1)]
proof (elim disjE conjE)
  assume new: "dict_get (obligations b) (ob_id ob) = None"
    "dict_get (by_cause_component b) (ob_cause ob, ob_component ob) = None"
    and b': "b' = b\<lparr>obligations := obligations b @ [(ob_id ob, ob)],
         by_cause_component := by_cause_component b @ [((ob_cause ob, ob_component ob), ob)]\<rparr>"
  have "dict_ok (obligations b @ [(ob_id ob, ob)])"
    "dict_ok (by_cause_component b @ [((ob_cause ob, ob_component ob), ob)])"
    using dict_ok_set [of "obligations b" "ob_id ob" ob] dict_set_new [OF new(1)]
      dict_ok_set [of "by_cause_component b" "(ob_cause ob, ob_component ob)" ob] dict_set_new [OF new(2)] assms(2)
    by (simp_all add: settlement_ok_def)
  moreover have "\<exists>ob'. dict_get (obligations b @ [(ob_id ob, ob)]) k = Some ob'
      \<and> ob_settlement_date ob' \<le> day_of (se_observed_at r)"
    if "(k, r) \<in> set (settlement_evidences b)" for k r
    using that assms(2) by (auto simp: settlement_ok_def map_of_append map_add_Some_iff)
  ultimately show ?thesis
    using assms(2,3) unfolding b' settlement_ok_def by (auto simp del: map_of_append)
qed (use assms in simp)

lemma settle_cases:
  assumes "settle oid as_of ev b = (res, b')" and "settlement_ok b"
  shows "b' = b \<and> res \<noteq> Inr True \<or> (\<exists>k ob v. res = Inr True \<and> k = strip oid \<and> se_obligation_id ev = k
    \<and> dict_get (obligations b) k = Some ob \<and> k \<notin> set (settled_ids b)
    \<and> dict_get (settlement_evidences b) k = None
    \<and> ob_settlement_date ob \<le> day_of (se_observed_at ev) \<and> day_of (se_observed_at ev) \<le> as_of
    \<and> in_envelope v \<and> dval v = dval (cash_of b (ob_currency ob)) + dval (ob_amount ob)
    \<and> b' = b\<lparr>settled_cash := dict_set (settled_cash b) (ob_currency ob) v,
         settled_ids := k # settled_ids b,
         settlement_evidences := settlement_evidences b @ [(k, ev)]\<rparr>)"
proof (cases "res = Inr True")
  case True
  have "k \<notin> set (settled_ids b) \<Longrightarrow> dict_get (settlement_evidences b) k = None" for k
    using settlement_okD(5) [OF assms(2)] by (simp add: dict_get_None_iff)
  with True assms(1) show ?thesis
    by (auto simp: settle_def dict_set_new split: if_splits option.splits dest!: exact.add_val)
next
  case False
  then show ?thesis
    using assms(1) by (auto simp: settle_def raising_def dict_lookup_def
        split: if_splits option.splits sum.splits)
qed


lemma dict_set_mem: "(x, y) \<in> set (dict_set d k v) \<Longrightarrow> (x, y) = (k, v) \<or> (x, y) \<in> set d"
  unfolding dict_set_def by (induction d) (auto split: if_splits)

lemma settle_ok:
  assumes "settle oid as_of ev b = (res, b')" and "settlement_ok b"
  shows "settlement_ok b'"
  using settle_cases [OF assms]
proof (elim disjE exE conjE)
  fix k ob v
  assume k: "se_obligation_id ev = k" "dict_get (obligations b) k = Some ob" "k \<notin> set (settled_ids b)"
    "dict_get (settlement_evidences b) k = None" "ob_settlement_date ob \<le> day_of (se_observed_at ev)"
    and v: "in_envelope v"
    and b': "b' = b\<lparr>settled_cash := dict_set (settled_cash b) (ob_currency ob) v,
         settled_ids := k # settled_ids b, settlement_evidences := settlement_evidences b @ [(k, ev)]\<rparr>"
  have ob: "ob_id ob = k" "proper ob" using settlement_okD(4) [OF assms(2) k(2)] by auto
  have "dict_ok (settlement_evidences b @ [(k, ev)])"
    using dict_ok_set [of "settlement_evidences b" k ev] dict_set_new [OF k(4)] assms(2)
    by (simp add: settlement_ok_def)
  moreover have "code_ok c \<and> in_envelope w" if "(c, w) \<in> set (dict_set (settled_cash b) (ob_currency ob) v)" for c w
    using dict_set_mem [OF that] v ob(2) assms(2) by (auto simp: settlement_ok_def proper_def)
  ultimately show ?thesis
    using assms(2) k ob unfolding b' settlement_ok_def by auto
qed (use assms in simp)

text \<open>\<open>settle_due\<close> is a sequence of \<open>settle\<close> calls: what each of them keeps, it keeps.\<close>

lemma settle_each_keeps:
  assumes "settle_each as_of evd obs b = (res, b')" and "Q b"
    and step: "\<And>oid ev b res b'. settle oid as_of ev b = (res, b') \<Longrightarrow> Q b \<Longrightarrow> Q b'"
  shows "Q b'"
  using assms(1,2)
proof (induction obs arbitrary: b res)
  case (Cons ob obs)
  show ?case
  proof (cases "\<exists>ev. dict_get evd (ob_id ob) = Some ev \<and> ob_id ob \<notin> set (settled_ids b)
      \<and> ob_settlement_date ob \<le> as_of \<and> day_of (se_observed_at ev) \<le> as_of")
    case True
    then obtain ev where ev: "dict_get evd (ob_id ob) = Some ev"
      "ob_id ob \<notin> set (settled_ids b) \<and> ob_settlement_date ob \<le> as_of \<and> day_of (se_observed_at ev) \<le> as_of"
      by auto
    obtain r b1 where s: "settle (ob_id ob) as_of ev b = (r, b1)" by force
    have "Q b1" using step [OF s Cons.prems(2)] .
    moreover obtain res' where "b' = b1 \<or> settle_each as_of evd obs b1 = (res', b')"
      using Cons.prems(1) ev s by (cases r) (auto simp: gives_def split: prod.splits)
    ultimately show ?thesis using Cons.IH by blast
  next
    case False
    then have "settle_each as_of evd obs b = (res, b')"
      using Cons.prems(1) by (auto split: option.splits if_splits)
    then show ?thesis using Cons.IH Cons.prems(2) by blast
  qed
qed simp

lemma settle_due_keeps:
  assumes "settle_due as_of evd b = (res, b')" and "Q b"
    and "\<And>oid ev b res b'. settle oid as_of ev b = (res, b') \<Longrightarrow> Q b \<Longrightarrow> Q b'"
  shows "Q b'"
proof (cases "rfold (due_evidence_step b) [] evd")
  case (Inr normalized)
  then have "settle_each as_of normalized (due_order (dict_values (obligations b))) b = (res, b')"
    using assms(1) by (simp add: settle_due_def)
  from settle_each_keeps [where Q = Q, OF this assms(2,3)] show ?thesis .
qed (use assms in \<open>simp add: settle_due_def\<close>)

section \<open>Conservation of cash\<close>

definition owed :: "(obligation \<Rightarrow> bool) \<Rightarrow> settlement_book \<Rightarrow> string \<Rightarrow> rat" where
  "owed P b u = (\<Sum>(k, ob) \<leftarrow> obligations b. if ob_currency ob = u \<and> P ob then dval (ob_amount ob) else 0)"

abbreviation settled_total :: "settlement_book \<Rightarrow> string \<Rightarrow> rat" where
  "settled_total b u \<equiv> owed (\<lambda>ob. ob_id ob \<in> set (settled_ids b)) b u"

abbreviation pending_total :: "settlement_book \<Rightarrow> string \<Rightarrow> rat" where
  "pending_total b u \<equiv> owed (\<lambda>ob. ob_id ob \<notin> set (settled_ids b)) b u"

text \<open>Cash the book holds that is not explained by settled obligations.\<close>

definition base_cash :: "settlement_book \<Rightarrow> string \<Rightarrow> rat" where
  "base_cash b u = dval (cash_of b u) - settled_total b u"

lemma owed_split: "owed (\<lambda>_. True) b u = settled_total b u + pending_total b u"
  unfolding owed_def sum_list_addf [symmetric] by (rule arg_cong [of _ _ sum_list], rule map_cong) auto

lemma sum_one_key:
  assumes "dict_ok d" and "dict_get d k = Some v"
  shows "(\<Sum>(k', x) \<leftarrow> d. if k' = k then f x else (0 :: rat)) = f v"
  using assms
proof (induction d)
  case (Cons p d)
  obtain a x where p: "p = (a, x)" by force
  have zero: "k \<notin> set (dict_keys d) \<Longrightarrow> (\<Sum>(k', x) \<leftarrow> d. if k' = k then f x else (0 :: rat)) = 0" for d
    by (induction d) auto
  show ?case
    using Cons p zero [of d] by (auto simp: dict_ok_def)
qed simp

lemma settled_total_insert:
  assumes "settlement_ok b" and "dict_get (obligations b) k = Some ob" and "k \<notin> set (settled_ids b)"
  shows "owed (\<lambda>x. ob_id x \<in> insert k (set (settled_ids b))) b u
    = settled_total b u + (if ob_currency ob = u then dval (ob_amount ob) else 0)"
proof -
  let ?f = "\<lambda>x. if ob_currency x = u then dval (ob_amount x) else 0"
  have ids: "(k', x) \<in> set (obligations b) \<Longrightarrow> ob_id x = k'" for k' x
    using assms(1) by (auto simp: settlement_ok_def)
  have "owed (\<lambda>x. ob_id x \<in> insert k (set (settled_ids b))) b u
      = settled_total b u + (\<Sum>(k', x) \<leftarrow> obligations b. if k' = k then ?f x else 0)"
    unfolding owed_def sum_list_addf [symmetric]
    by (rule arg_cong [of _ _ sum_list], rule map_cong) (use ids assms(3) in auto)
  then show ?thesis using sum_one_key [OF settlement_okD(1) [OF assms(1)] assms(2), of ?f] by simp
qed

lemma settle_base:
  assumes "settle oid as_of ev b = (res, b')" and "settlement_ok b"
  shows "base_cash b' u = base_cash b u \<and> owed (\<lambda>_. True) b' u = owed (\<lambda>_. True) b u"
  using settle_cases [OF assms]
proof (elim disjE exE conjE)
  fix k ob v
  assume k: "dict_get (obligations b) k = Some ob" "k \<notin> set (settled_ids b)"
    and v: "dval v = dval (cash_of b (ob_currency ob)) + dval (ob_amount ob)"
    and b': "b' = b\<lparr>settled_cash := dict_set (settled_cash b) (ob_currency ob) v,
         settled_ids := k # settled_ids b, settlement_evidences := settlement_evidences b @ [(k, ev)]\<rparr>"
  have "settled_total b' u = owed (\<lambda>x. ob_id x \<in> insert k (set (settled_ids b))) b u"
    by (simp add: owed_def b')
  moreover have "dval (cash_of b' u) = dval (cash_of b u) + (if ob_currency ob = u then dval (ob_amount ob) else 0)"
    using v by (auto simp: cash_of_def b')
  moreover have "owed (\<lambda>_. True) b' u = owed (\<lambda>_. True) b u" by (simp add: owed_def b')
  ultimately show ?thesis
    using settled_total_insert [OF assms(2) k, of u] by (simp add: base_cash_def)
qed simp

lemma settle_due_base:
  assumes "settle_due as_of evd b = (res, b')" and "settlement_ok b"
  shows "base_cash b' u = base_cash b u \<and> owed (\<lambda>_. True) b' u = owed (\<lambda>_. True) b u"
  using settle_due_keeps [where Q = "\<lambda>s. settlement_ok s \<and> base_cash s u = base_cash b u
      \<and> owed (\<lambda>_. True) s u = owed (\<lambda>_. True) b u", OF assms(1)] assms(2) settle_ok settle_base
  by metis

lemma add_base:
  assumes "add_obligation ob b = (res, b')" and "settlement_ok b"
  shows "base_cash b' u = base_cash b u \<and> owed (\<lambda>_. True) b' u = owed (\<lambda>_. True) b u
    + (if res = Inr True \<and> ob_currency ob = u then dval (ob_amount ob) else 0)"
proof -
  have "ob_id ob \<notin> set (settled_ids b)" if "dict_get (obligations b) (ob_id ob) = None"
  proof
    assume "ob_id ob \<in> set (settled_ids b)"
    then obtain r where "dict_get (settlement_evidences b) (ob_id ob) = Some r"
      using settlement_okD(5) [OF assms(2)] dict_get_keys [of "ob_id ob" "settlement_evidences b"] by auto
    from settlement_okD(6) [OF assms(2) this] that show False by simp
  qed
  moreover have "owed P (b\<lparr>obligations := obligations b @ [(k, ob)], by_cause_component := x\<rparr>) u
      = owed P b u + (if ob_currency ob = u \<and> P ob then dval (ob_amount ob) else 0)" for P k x
    by (simp add: owed_def)
  ultimately show ?thesis
    using add_obligation_cases [OF assms(1)] by (elim disjE conjE) (simp_all add: base_cash_def cash_of_def)
qed

section \<open>The book as an object\<close>

datatype settlement_call =
    Add_Obligation string string string pynum int int string "string option" "rule_binding option"
  | Settle string int settlement_evidence
  | Settle_Due int "(string \<times> settlement_evidence) list"

fun settlement_run :: "settlement_call \<Rightarrow> (settlement_book, string list) operation" where
  "settlement_run (Add_Obligation i c u v td sd k src rule) =
     raising (make_obligation i c u v td sd k src rule) (\<lambda>ob. gives (\<lambda>_. []) (add_obligation ob))"
| "settlement_run (Settle oid as_of ev) = gives (\<lambda>_. []) (settle oid as_of ev)"
| "settlement_run (Settle_Due as_of evd) = settle_due as_of evd"

text \<open>Every step of the book is the identity, an added obligation or a settlement.\<close>

lemma settlement_run_keeps:
  assumes "settlement_run c b = (res, b')" and "Q b"
    and add: "\<And>ob b res b'. proper ob \<Longrightarrow> add_obligation ob b = (res, b') \<Longrightarrow> Q b \<Longrightarrow> Q b'"
    and settled: "\<And>oid as_of ev b res b'. settle oid as_of ev b = (res, b') \<Longrightarrow> Q b \<Longrightarrow> Q b'"
  shows "Q b'"
proof (cases c)
  case (Add_Obligation i cause u v td sd k src rule)
  show ?thesis
  proof (cases "make_obligation i cause u v td sd k src rule")
    case (Inr ob)
    obtain r where "add_obligation ob b = (r, b')"
      using assms(1) Inr unfolding Add_Obligation by (auto simp: gives_def split: prod.splits)
    then show ?thesis using add make_obligation_proper [OF Inr] assms(2) by blast
  qed (use assms(1,2) Add_Obligation in simp)
next
  case (Settle oid as_of ev)
  then obtain r where "settle oid as_of ev b = (r, b')"
    using assms(1) by (auto simp: gives_def split: prod.splits)
  then show ?thesis using settled assms(2) by blast
next
  case (Settle_Due as_of evd)
  then have "settle_due as_of evd b = (res, b')" using assms(1) by simp
  then show ?thesis using settle_due_keeps [where Q = Q] assms(2) settled by blast
qed

definition settlement_grows :: "settlement_book \<Rightarrow> settlement_book \<Rightarrow> bool" where
  "settlement_grows b b' \<longleftrightarrow> (\<exists>xs. obligations b' = obligations b @ xs)
     \<and> (\<exists>ys. settlement_evidences b' = settlement_evidences b @ ys)"

lemma settlement_grows_trans: "settlement_grows a b \<Longrightarrow> settlement_grows b c \<Longrightarrow> settlement_grows a c"
  by (auto simp: settlement_grows_def)

lemma settle_grows: "settle oid as_of ev b = (res, b') \<Longrightarrow> settlement_ok b \<Longrightarrow> settlement_grows b b'"
  by (drule (1) settle_cases) (auto simp: settlement_grows_def)

lemma add_grows: "add_obligation ob b = (res, b') \<Longrightarrow> settlement_grows b b'"
  by (drule add_obligation_cases) (auto simp: settlement_grows_def)

interpretation settlement: monotone_object settlement_run settlement_ok settlement_grows
proof
  fix c s
  assume ok: "settlement_ok s"
  obtain res s' where run: "settlement_run c s = (res, s')" by force
  have "settlement_ok s' \<and> settlement_grows s s'"
  proof (rule settlement_run_keeps [where Q = "\<lambda>x. settlement_ok x \<and> settlement_grows s x", OF run])
    show "settlement_ok s \<and> settlement_grows s s" using ok by (simp add: settlement_grows_def)
  next
    fix ob b res b'
    assume "proper ob" "add_obligation ob b = (res, b')" "settlement_ok b \<and> settlement_grows s b"
    then show "settlement_ok b' \<and> settlement_grows s b'"
      by (meson add_obligation_ok add_grows settlement_grows_trans)
  next
    fix oid as_of ev b res b'
    assume "settle oid as_of ev b = (res, b')" "settlement_ok b \<and> settlement_grows s b"
    then show "settlement_ok b' \<and> settlement_grows s b'"
      by (meson settle_ok settle_grows settlement_grows_trans)
  qed
  then show "settlement_ok (snd (settlement_run c s))" "settlement_grows s (snd (settlement_run c s))"
    using run by simp_all
qed (auto simp: settlement_grows_def)

lemma base_after:
  assumes "settlement_ok b"
  shows "base_cash (after settlement_run b calls) u = base_cash b u"
  using assms
proof (induction calls arbitrary: b)
  case (Cons c calls)
  obtain res s' where run: "settlement_run c b = (res, s')" by force
  have "settlement_ok s' \<and> base_cash s' u = base_cash b u"
    by (rule settlement_run_keeps [where Q = "\<lambda>x. settlement_ok x \<and> base_cash x u = base_cash b u", OF run])
      (use Cons.prems add_obligation_ok settle_ok add_base settle_base in metis)+
  with Cons.IH run show ?case by simp
qed simp

section \<open>What the projections compute\<close>

abbreviation receivable_total :: "settlement_book \<Rightarrow> string \<Rightarrow> rat" where
  "receivable_total b u \<equiv> owed (\<lambda>ob. ob_id ob \<notin> set (settled_ids b) \<and> 0 < dval (ob_amount ob)) b u"

abbreviation payable_total :: "settlement_book \<Rightarrow> string \<Rightarrow> rat" where
  "payable_total b u \<equiv> - owed (\<lambda>ob. ob_id ob \<notin> set (settled_ids b) \<and> \<not> 0 < dval (ob_amount ob)) b u"

lemma sum_values_filter:
  "(\<Sum>(k, x) \<leftarrow> d. if P x then f x else (0 :: rat)) = sum_list (map f (filter P (dict_values d)))"
  by (induction d) auto

lemma owed_filter:
  "owed P b u = sum_list (map (\<lambda>ob. dval (ob_amount ob))
     (filter (\<lambda>ob. ob_currency ob = u \<and> P ob) (dict_values (obligations b))))"
  unfolding owed_def by (rule sum_values_filter)

lemma pending_split: "pending_total b u = receivable_total b u - payable_total b u"
  unfolding owed_def minus_minus diff_minus_eq_add sum_list_addf [symmetric]
  by (rule arg_cong [of _ _ sum_list], rule map_cong) auto

lemma payable_nonneg: "0 \<le> payable_total b u"
  unfolding owed_def uminus_sum_list_map by (rule sum_list_nonneg) auto

lemma snapshot_Inr:
  assumes "settlement_snapshot_of b c = Inr sn"
  shows "sn_currency sn = upper (strip c)" and "sn_settled_cash sn = cash_of b (upper (strip c))"
    and "dval (sn_receivable sn) = receivable_total b (upper (strip c))"
    and "dval (sn_payable sn) = payable_total b (upper (strip c))"
proof -
  let ?u = "upper (strip c)"
  obtain payables r p where p: "rmap (\<lambda>ob. exact_subtract dzero (ob_amount ob))
         (filter (\<lambda>ob. \<not> 0 < dval (ob_amount ob)) (open_obligations b ?u)) = Inr payables"
    and r: "exact_sum (map ob_amount (filter (\<lambda>ob. 0 < dval (ob_amount ob)) (open_obligations b ?u))) = Inr r"
    and sp: "exact_sum payables = Inr p"
    and sn: "sn = \<lparr>sn_currency = ?u, sn_settled_cash = cash_of b ?u, sn_receivable = r, sn_payable = p\<rparr>"
    using assms by (auto simp: settlement_snapshot_of_def Let_def)
  show "sn_currency sn = ?u" "sn_settled_cash sn = cash_of b ?u" by (simp_all add: sn)
  have "list_all2 (\<lambda>ob v. exact_subtract dzero (ob_amount ob) = Inr v)
      (filter (\<lambda>ob. \<not> 0 < dval (ob_amount ob)) (open_obligations b ?u)) payables"
    using p by (simp only: rmap_Inr_iff)
  then have "sum_list (map dval payables) = - sum_list (map (\<lambda>ob. dval (ob_amount ob))
      (filter (\<lambda>ob. \<not> 0 < dval (ob_amount ob)) (open_obligations b ?u)))"
    by (induction rule: list_all2_induct) (auto dest!: exact.sub_val)
  moreover have "filter (\<lambda>ob. \<not> 0 < dval (ob_amount ob)) (open_obligations b ?u)
      = filter (\<lambda>ob. ob_currency ob = ?u \<and> ob_id ob \<notin> set (settled_ids b) \<and> \<not> 0 < dval (ob_amount ob))
          (dict_values (obligations b))"
    unfolding open_obligations_def filter_filter by (rule filter_cong) auto
  ultimately show "dval (sn_payable sn) = payable_total b ?u"
    using exact.total_val [OF sp] by (simp add: sn owed_filter)
  have "filter (\<lambda>ob. 0 < dval (ob_amount ob)) (open_obligations b ?u)
      = filter (\<lambda>ob. ob_currency ob = ?u \<and> ob_id ob \<notin> set (settled_ids b) \<and> 0 < dval (ob_amount ob))
          (dict_values (obligations b))"
    unfolding open_obligations_def filter_filter by (rule filter_cong) auto
  then show "dval (sn_receivable sn) = receivable_total b ?u"
    using exact.total_val [OF r] by (simp add: sn owed_filter o_def)
qed

lemma economic_cash_Inr:
  "economic_cash sn = Inr e \<Longrightarrow> dval e = dval (sn_settled_cash sn) + (dval (sn_receivable sn) - dval (sn_payable sn))"
  by (auto simp: economic_cash_def net_unsettled_def dest!: exact.add_val exact.sub_val)

lemma available_to_spend_Inr:
  assumes "available_to_spend b c hold = Inr v"
  shows "0 \<le> pyval hold"
    and "dval v = max 0 (dval (cash_of b (upper (strip c))) - payable_total b (upper (strip c)) - pyval hold)"
proof -
  obtain sn h x y where sn: "settlement_snapshot_of b c = Inr sn" and h: "st_decimal hold = Inr h"
    and nonneg: "\<not> dval h < 0" and x: "exact_subtract (sn_settled_cash sn) (sn_payable sn) = Inr x"
    and y: "exact_subtract x h = Inr y" and v: "v = (if 0 < dval y then y else dzero)"
    using assms by (auto simp: available_to_spend_def split: if_splits)
  have "dval y = dval (cash_of b (upper (strip c))) - payable_total b (upper (strip c)) - pyval hold"
    using exact.sub_val [OF x] exact.sub_val [OF y] snapshot_Inr [OF sn] st_decimal_Inr [OF h] by simp
  then show "dval v = max 0 (dval (cash_of b (upper (strip c))) - payable_total b (upper (strip c)) - pyval hold)"
    using v by (simp only: max_def) (auto split: if_splits)
  show "0 \<le> pyval hold" using nonneg st_decimal_Inr [OF h] by simp
qed

section \<open>Construction\<close>

definition cash_ok :: "(string, decimal) dict \<Rightarrow> bool" where
  "cash_ok d \<longleftrightarrow> dict_ok d \<and> (\<forall>(c, v) \<in> set d. code_ok c \<and> in_envelope v)"

lemma cash_step_ok: "cash_step held item = Inr held' \<Longrightarrow> cash_ok held \<Longrightarrow> cash_ok held'"
  by (cases item) (auto simp: cash_step_def cash_ok_def code_ok_def strip_upper Let_def
      split: if_splits dest!: st_decimal_Inr dict_set_mem)

lemma settlement_ok_empty: "cash_ok c \<Longrightarrow> settlement_ok \<lparr>settled_cash = c, obligations = [],
    by_cause_component = [], settled_ids = [], settlement_evidences = []\<rparr>"
  by (simp add: settlement_ok_def cash_ok_def)

lemma add_step_ok: "add_step b ob = Inr b' \<Longrightarrow> settlement_ok b \<Longrightarrow> proper ob \<Longrightarrow> settlement_ok b'"
  by (auto simp: add_step_def split: prod.splits sum.splits intro: add_obligation_ok)

lemma evidence_step_cases:
  assumes "evidence_step b item = Inr b'" and "settlement_ok b"
  obtains k r ob where "snd item = r" "k = strip (fst item)" "se_obligation_id r = k"
    "dict_get (obligations b) k = Some ob" "k \<notin> set (settled_ids b)"
    "dict_get (settlement_evidences b) k = None" "ob_settlement_date ob \<le> day_of (se_observed_at r)"
    "b' = b\<lparr>settled_ids := k # settled_ids b, settlement_evidences := settlement_evidences b @ [(k, r)]\<rparr>"
proof -
  have "dict_get (settlement_evidences b) k = None \<Longrightarrow> k \<notin> set (settled_ids b)" for k
    using settlement_okD(5) [OF assms(2)] by (simp add: dict_get_None_iff)
  with assms(1) that show thesis
    by (cases item) (auto simp: evidence_step_def dict_set_new split: if_splits option.splits)
qed

lemma evidence_step_ok:
  assumes "evidence_step b item = Inr b'" and "settlement_ok b"
  shows "settlement_ok b'"
  using assms
proof (rule evidence_step_cases)
  fix k r ob
  assume k: "se_obligation_id r = k" "dict_get (obligations b) k = Some ob" "k \<notin> set (settled_ids b)"
    "dict_get (settlement_evidences b) k = None" "ob_settlement_date ob \<le> day_of (se_observed_at r)"
    and b': "b' = b\<lparr>settled_ids := k # settled_ids b, settlement_evidences := settlement_evidences b @ [(k, r)]\<rparr>"
  have "dict_ok (settlement_evidences b @ [(k, r)])"
    using dict_ok_set [of "settlement_evidences b" k r] dict_set_new [OF k(4)] assms(2)
    by (simp add: settlement_ok_def)
  then show ?thesis using assms(2) k unfolding b' settlement_ok_def by auto
qed

lemma new_settlement_book_cases:
  assumes "new_settlement_book opening obs evidence = Inr b" and "list_all proper obs"
  obtains c b1 where "rfold cash_step [] opening = Inr c" "cash_ok c"
    "rfold add_step \<lparr>settled_cash = c, obligations = [], by_cause_component = [],
       settled_ids = [], settlement_evidences = []\<rparr> obs = Inr b1" "settlement_ok b1"
    "rfold evidence_step b1 evidence = Inr b" "settlement_ok b"
proof -
  from assms(1) obtain c b1 where c: "rfold cash_step [] opening = Inr c"
    and b1: "rfold add_step \<lparr>settled_cash = c, obligations = [], by_cause_component = [],
       settled_ids = [], settlement_evidences = []\<rparr> obs = Inr b1"
    and b: "rfold evidence_step b1 evidence = Inr b"
    by (auto simp: new_settlement_book_def)
  have ok: "cash_ok c"
    using c by (rule rfold_invariant) (auto simp: cash_ok_def [of "[]"] intro: cash_step_ok)
  have ok1: "settlement_ok b1"
    using b1 by (rule rfold_invariant)
      (use assms(2) add_step_ok settlement_ok_empty [OF ok] in \<open>auto simp: list_all_iff\<close>)
  have "settlement_ok b"
    using b by (rule rfold_invariant) (use ok1 evidence_step_ok in auto)
  with c ok b1 ok1 b that show thesis by blast
qed

section \<open>Conservation, availability and finality\<close>

lemma opening_book:
  assumes "new_settlement_book opening [] [] = Inr b"
  shows "settlement_ok b" and "base_cash b u = dval (cash_of b u)"
proof -
  from assms have "list_all proper []" by simp
  from assms this obtain c b1 where "rfold add_step \<lparr>settled_cash = c, obligations = [], by_cause_component = [],
       settled_ids = [], settlement_evidences = []\<rparr> [] = Inr b1" "rfold evidence_step b1 [] = Inr b"
    and ok: "settlement_ok b"
    by (rule new_settlement_book_cases)
  then show "base_cash b u = dval (cash_of b u)" by (auto simp: base_cash_def owed_def)
  show "settlement_ok b" by (rule ok)
qed

text \<open>(C28) Cash is conserved.  Start from any opening balances, then add obligations and settle them in any
  order, with calls that raise included.  At every moment the settled cash of a currency is its opening
  balance plus the amounts of its settled obligations, the open receivables less the open payables are
  the amounts of its unsettled ones, and the economic cash is the opening balance plus all of them:
  settling moves cash between the two sides and never creates or loses any.
\<close>

theorem settlement_conserves_cash:
  assumes "new_settlement_book opening [] [] = Inr b0" and "b = after settlement_run b0 calls"
    and "settlement_snapshot_of b currency = Inr sn"
  shows "dval (sn_settled_cash sn) = dval (cash_of b0 (sn_currency sn)) + settled_total b (sn_currency sn)
    \<and> dval (sn_receivable sn) - dval (sn_payable sn) = pending_total b (sn_currency sn)
    \<and> (\<forall>e. economic_cash sn = Inr e \<longrightarrow>
      dval e = dval (cash_of b0 (sn_currency sn)) + owed (\<lambda>_. True) b (sn_currency sn))"
proof (intro conjI allI impI)
  let ?u = "sn_currency sn"
  have u: "upper (strip currency) = ?u" using snapshot_Inr [OF assms(3)] by simp
  note sn = snapshot_Inr [OF assms(3), unfolded u]
  have "base_cash b ?u = dval (cash_of b0 ?u)"
    using base_after [OF opening_book(1) [OF assms(1)], of calls] opening_book(2) [OF assms(1)] assms(2) by simp
  then show settled: "dval (sn_settled_cash sn) = dval (cash_of b0 ?u) + settled_total b ?u"
    using sn(2) by (simp add: base_cash_def)
  show pending: "dval (sn_receivable sn) - dval (sn_payable sn) = pending_total b ?u"
    using sn pending_split [of b ?u] by simp
  show "dval e = dval (cash_of b0 ?u) + owed (\<lambda>_. True) b ?u" if "economic_cash sn = Inr e" for e
    using economic_cash_Inr [OF that] settled pending owed_split [of b ?u] by simp
qed

text \<open>(C29) Receivables are never spendable.  What a book reports as spendable is exactly the settled cash
  less the open payables less the caller's hold, never below zero; adding a receivable changes nothing
  of it, and adding a payable takes its amount off at once, before anything settles.
\<close>

theorem only_settled_cash_is_spendable:
  assumes "available_to_spend b currency hold = Inr v" and "u = upper (strip currency)"
  shows "dval v = max 0 (dval (cash_of b u) - payable_total b u - pyval hold)
    \<and> (\<forall>ob b' v'. add_obligation ob b = (Inr True, b') \<and> ob_id ob \<notin> set (settled_ids b) \<and> ob_currency ob = u
        \<and> available_to_spend b' currency hold = Inr v' \<longrightarrow>
        dval v' = (if 0 < dval (ob_amount ob) then dval v
          else max 0 (dval (cash_of b u) - payable_total b u - pyval hold + dval (ob_amount ob))))"
proof (intro conjI allI impI)
  note v = available_to_spend_Inr(2) [OF assms(1), folded assms(2)]
  show "dval v = max 0 (dval (cash_of b u) - payable_total b u - pyval hold)" by (rule v)
  fix ob b' v'
  assume *: "add_obligation ob b = (Inr True, b') \<and> ob_id ob \<notin> set (settled_ids b) \<and> ob_currency ob = u
        \<and> available_to_spend b' currency hold = Inr v'"
  then have b': "b' = b\<lparr>obligations := obligations b @ [(ob_id ob, ob)],
         by_cause_component := by_cause_component b @ [((ob_cause ob, ob_component ob), ob)]\<rparr>"
    using add_obligation_cases by blast
  have "payable_total b' u = payable_total b u - (if 0 < dval (ob_amount ob) then 0 else dval (ob_amount ob))"
    using * by (simp add: b' owed_def)
  then have "dval (cash_of b' u) - payable_total b' u - pyval hold = (if 0 < dval (ob_amount ob)
      then dval (cash_of b u) - payable_total b u - pyval hold
      else dval (cash_of b u) - payable_total b u - pyval hold + dval (ob_amount ob))"
    by (simp add: b' cash_of_def)
  moreover have spend': "available_to_spend b' currency hold = Inr v'" using * by blast
  note available_to_spend_Inr(2) [OF spend', folded assms(2)]
  ultimately show "dval v' = (if 0 < dval (ob_amount ob) then dval v
          else max 0 (dval (cash_of b u) - payable_total b u - pyval hold + dval (ob_amount ob)))"
    unfolding v by (cases "0 < dval (ob_amount ob)") (simp_all only: if_True if_False)
qed

lemma settle_retry:
  assumes "settlement_ok b" and "dict_get (settlement_evidences b) k = Some ev"
    and "strip oid = k" and "se_obligation_id ev' = k"
  shows "settle oid as_of ev' b = (if ev' = ev then Inr False else Inl SettlementConflict, b)"
proof -
  have "k \<in> set (settled_ids b)"
    using assms(2) settlement_okD(5) [OF assms(1)] by (metis dict_get_None_iff option.distinct(1))
  moreover obtain ob where ob: "dict_get (obligations b) k = Some ob"
    using settlement_okD(6) [OF assms(1,2)] by blast
  moreover have "k \<noteq> []"
    using settlement_okD(4) [OF assms(1) ob] by (auto simp: proper_def)
  ultimately show ?thesis
    using assms(2-4) by (auto simp: settle_def st_text_def dict_lookup_def)
qed

text \<open>A settlement is dated, final and idempotent.  A call of \<open>settle\<close> that books cash does so on evidence
  observed no earlier than the contractual settlement date and no later than the projection date.
  After any further calls the same evidence is answered \<open>False\<close> and changes nothing, and different
  evidence for the obligation is a conflict that changes nothing.
\<close>

theorem settlement_is_final:
  assumes "new_settlement_book opening [] [] = Inr b0" and "b = after settlement_run b0 calls"
    and "settle oid as_of ev b = (Inr True, b1)"
  shows "(\<exists>ob. dict_get (obligations b) (strip oid) = Some ob
      \<and> ob_settlement_date ob \<le> day_of (se_observed_at ev) \<and> day_of (se_observed_at ev) \<le> as_of
      \<and> dval (cash_of b1 (ob_currency ob)) = dval (cash_of b (ob_currency ob)) + dval (ob_amount ob))
    \<and> settle oid as_of' ev (after settlement_run b1 later) = (Inr False, after settlement_run b1 later)
    \<and> (\<forall>ev'. ev' \<noteq> ev \<and> se_obligation_id ev' = strip oid \<longrightarrow>
      settle oid as_of' ev' (after settlement_run b1 later)
        = (Inl SettlementConflict, after settlement_run b1 later))"
proof (intro conjI allI impI)
  have ok: "settlement_ok b"
    using settlement.inv_after_from opening_book(1) [OF assms(1)] assms(2) by blast
  obtain ob v where s: "se_obligation_id ev = strip oid" "dict_get (obligations b) (strip oid) = Some ob"
    "ob_settlement_date ob \<le> day_of (se_observed_at ev)" "day_of (se_observed_at ev) \<le> as_of"
    "dval v = dval (cash_of b (ob_currency ob)) + dval (ob_amount ob)"
    "b1 = b\<lparr>settled_cash := dict_set (settled_cash b) (ob_currency ob) v,
         settled_ids := strip oid # settled_ids b,
         settlement_evidences := settlement_evidences b @ [(strip oid, ev)]\<rparr>"
    "dict_get (settlement_evidences b) (strip oid) = None"
    using settle_cases [OF assms(3) ok] by auto
  then show "\<exists>ob. dict_get (obligations b) (strip oid) = Some ob
      \<and> ob_settlement_date ob \<le> day_of (se_observed_at ev) \<and> day_of (se_observed_at ev) \<le> as_of
      \<and> dval (cash_of b1 (ob_currency ob)) = dval (cash_of b (ob_currency ob)) + dval (ob_amount ob)"
    by (auto simp: cash_of_def)
  let ?b2 = "after settlement_run b1 later"
  have ok1: "settlement_ok b1" using settle_ok [OF assms(3) ok] .
  have ok2: "settlement_ok ?b2" using settlement.inv_after_from ok1 .
  have "dict_get (settlement_evidences b1) (strip oid) = Some ev"
    using s(6,7) by (simp add: map_add_Some_iff)
  then have "dict_get (settlement_evidences ?b2) (strip oid) = Some ev"
    using settlement.le_after_from [OF ok1, of later] by (auto simp: settlement_grows_def map_add_Some_iff)
  note retry = settle_retry [OF ok2 this refl]
  show "settle oid as_of' ev ?b2 = (Inr False, ?b2)" using retry [OF s(1)] by simp
  show "settle oid as_of' ev' ?b2 = (Inl SettlementConflict, ?b2)"
    if "ev' \<noteq> ev \<and> se_obligation_id ev' = strip oid" for ev'
    using retry [of ev'] that by simp
qed

section \<open>Instances\<close>

text \<open>An account with 100 dollars sells for 50 and buys for 30; the sale settles on day 12.\<close>

definition sale_evidence :: settlement_evidence where
  "sale_evidence = \<lparr>se_obligation_id = ''sale'', se_evidence_ref = ''statement'', se_observed_at = 1036800000005\<rparr>"

definition opened_book :: settlement_book where
  "opened_book = \<lparr>settled_cash = [(''USD'', Decimal False 100 0)], obligations = [], by_cause_component = [],
     settled_ids = [], settlement_evidences = []\<rparr>"

definition trades :: "settlement_call list" where
  "trades = [Add_Obligation '' sale'' ''c1'' ''usd'' (PyInt 50) 10 12 ''principal'' None None,
     Add_Obligation ''purchase'' ''c2'' ''USD'' (PyInt (- 30)) 10 12 ''principal'' None None]"

lemma opened: "new_settlement_book [(''usd'', PyInt 100)] [] [] = Inr opened_book"
  by code_simp

theorem settlement_conserves_cash_witness:
  "\<exists>sn e. settlement_snapshot_of (after settlement_run opened_book (trades @ [Settle ''sale'' 13 sale_evidence])) ''usd'' = Inr sn
     \<and> economic_cash sn = Inr e \<and> dval (sn_settled_cash sn) = 150 \<and> dval e = 120"
proof -
  let ?b = "after settlement_run opened_book (trades @ [Settle ''sale'' 13 sale_evidence])"
  define sn where "sn = \<lparr>sn_currency = ''USD'', sn_settled_cash = Decimal False 150 0,
    sn_receivable = Decimal False 0 0, sn_payable = Decimal False 30 0\<rparr>"
  have sn: "settlement_snapshot_of ?b ''usd'' = Inr sn" unfolding sn_def by code_simp
  have e: "economic_cash sn = Inr (Decimal False 120 0)" unfolding sn_def by code_simp
  have "dval (cash_of opened_book ''USD'') = 100" "settled_total ?b ''USD'' = 50" "owed (\<lambda>_. True) ?b ''USD'' = 20"
    by code_simp+
  moreover have "sn_currency sn = ''USD''" by (simp add: sn_def)
  ultimately show ?thesis
    using settlement_conserves_cash [OF opened refl sn] e sn
    by (intro exI [of _ sn] exI [of _ "Decimal False 120 0"] conjI) simp_all
qed

lemma spendable_before: "available_to_spend (after settlement_run opened_book trades) ''usd'' (PyInt 15) = Inr (Decimal False 55 0)"
  by code_simp

theorem only_settled_cash_is_spendable_witness:
  "available_to_spend (after settlement_run opened_book trades) ''usd'' (PyInt 15) = Inr (Decimal False 55 0)
     \<and> dval (Decimal False 55 0) = max 0 (100 - 30 - 15)"
proof -
  have "cash_of (after settlement_run opened_book trades) ''USD'' = Decimal False 100 0"
    "payable_total (after settlement_run opened_book trades) ''USD'' = 30" "pyval (PyInt 15) = 15"
    "dval (Decimal False 100 0) = 100" "upper (strip ''usd'') = ''USD''"
    by code_simp+
  then show ?thesis using only_settled_cash_is_spendable [OF spendable_before refl] spendable_before by simp
qed

theorem settlement_is_final_witness:
  "settle ''sale'' 20 sale_evidence (after settlement_run opened_book (trades @ [Settle ''sale'' 13 sale_evidence]))
     = (Inr False, after settlement_run opened_book (trades @ [Settle ''sale'' 13 sale_evidence]))"
proof -
  let ?b = "after settlement_run opened_book trades"
  have "fst (settle ''sale'' 13 sale_evidence ?b) = Inr True" by code_simp
  then obtain b1 where b1: "settle ''sale'' 13 sale_evidence ?b = (Inr True, b1)" by (metis prod.collapse)
  then have "after settlement_run opened_book (trades @ [Settle ''sale'' 13 sale_evidence]) = b1"
    by (simp add: after_append gives_def)
  with settlement_is_final [OF opened refl b1, where later = "[]" and as_of' = 20] show ?thesis by simp
qed

end
