(* ===== verification/Settlement_Restart.thy ===== *)
theory Settlement_Restart
  imports Settlement
begin

text \<open>
  Restart of a settlement book (\<open>settlement.py\<close>): a checkpoint of a book restores it exactly, and
  later history replayed over the checkpoint never applies a settlement twice.  The history is replayed
  in the order of settlement dates, so evidence that arrives late blocks a restart.
\<close>

section \<open>Cash and evidence in canonical form\<close>

abbreviation normal_zero :: "decimal \<Rightarrow> decimal" where
  "normal_zero v \<equiv> if dval v = 0 then dzero else v"

definition normal_cash :: "(string, decimal) dict \<Rightarrow> (string, decimal) dict" where
  "normal_cash d = map (\<lambda>(c, v). (c, normal_zero v)) d"

lemma normal_cash_simps [simp]:
  "normal_cash [] = []" "normal_cash ((c, v) # d) = (c, normal_zero v) # normal_cash d"
  by (simp_all add: normal_cash_def)

lemma normal_cash_keys [simp]: "dict_keys (normal_cash d) = dict_keys d"
  by (simp add: normal_cash_def case_prod_beta o_def)

lemma normal_cash_get: "dict_get (normal_cash d) c = map_option normal_zero (dict_get d c)"
  by (induction d) auto

lemma normal_cash_idem: "normal_cash (normal_cash d) = normal_cash d"
  by (induction d) auto

lemma cash_ok_Cons: "cash_ok ((c, v) # d) \<longleftrightarrow> code_ok c \<and> in_envelope v \<and> c \<notin> set (dict_keys d) \<and> cash_ok d"
  by (auto simp: cash_ok_def dict_ok_def)

lemma normal_cash_fst [simp]: "fst ` set (normal_cash d) = fst ` set d"
  unfolding normal_cash_def set_map image_image by (rule image_cong) auto

lemma cash_ok_normal: "cash_ok d \<Longrightarrow> cash_ok (normal_cash d)"
proof (induction d)
  case (Cons p d)
  then show ?case by (cases p) (auto simp: cash_ok_Cons)
qed simp

lemma dict_ok_sort: "dict_ok (sort_key fst d) \<longleftrightarrow> dict_ok d"
  by (simp add: dict_ok_def distinct_map)

lemma cash_ok_sort: "cash_ok d \<Longrightarrow> cash_ok (sort_key fst d)"
  by (simp add: cash_ok_def dict_ok_sort)

lemma sort_normal: "sort_key fst (normal_cash d) = normal_cash (sort_key fst d)"
proof -
  have "insort_key fst (c, normal_zero v) (normal_cash d) = normal_cash (insort_key fst (c, v) d)" for c v d
    by (induction d) auto
  then show ?thesis by (induction d) auto
qed

lemma cash_step_fold:
  "cash_ok d \<Longrightarrow> set (dict_keys acc) \<inter> set (dict_keys d) = {} \<Longrightarrow>
     rfold cash_step acc (map (\<lambda>(c, v). (c, PyDecimal v)) d) = Inr (acc @ normal_cash d)"
proof (induction d arbitrary: acc)
  case (Cons p d)
  obtain c v where p: "p = (c, v)" by force
  have c: "code_ok c" "in_envelope v" "cash_ok d" "c \<notin> set (dict_keys d)"
    using Cons.prems(1) p by (auto simp: cash_ok_Cons)
  have "dict_get acc c = None" using Cons.prems(2) p by (simp add: dict_get_None_iff)
  with c have "cash_step acc (c, PyDecimal v) = Inr (acc @ [(c, normal_zero v)])"
    by (simp add: cash_step_def code_ok_def st_text_def st_decimal_PyDecimal dict_set_new)
  moreover have "set (dict_keys (acc @ [(c, normal_zero v)])) \<inter> set (dict_keys d) = {}"
    using Cons.prems(2) c(4) p by auto
  ultimately show ?case using Cons.IH [OF c(3)] p by simp
qed simp

lemma checkpoint_cash_fold:
  "cash_ok d \<Longrightarrow> set (dict_keys acc) \<inter> set (dict_keys d) = {} \<Longrightarrow>
     rfold checkpoint_cash_step acc d = Inr (acc @ normal_cash d)"
proof (induction d arbitrary: acc)
  case (Cons p d)
  obtain c v where p: "p = (c, v)" by force
  have c: "code_ok c" "in_envelope v" "cash_ok d" "c \<notin> set (dict_keys d)"
    using Cons.prems(1) p by (auto simp: cash_ok_Cons)
  have "dict_get acc c = None" using Cons.prems(2) p by (simp add: dict_get_None_iff)
  with c have "checkpoint_cash_step acc (c, v) = Inr (acc @ [(c, normal_zero v)])"
    by (simp add: checkpoint_cash_step_def code_ok_def st_text_def st_decimal_PyDecimal dict_set_new)
  moreover have "set (dict_keys (acc @ [(c, normal_zero v)])) \<inter> set (dict_keys d) = {}"
    using Cons.prems(2) c(4) p by auto
  ultimately show ?case using Cons.IH [OF c(3)] p by simp
qed simp

text \<open>Evidence of a book: its keys are stripped identities of known obligations.\<close>

definition evidence_ok :: "(string, settlement_evidence) dict \<Rightarrow> bool" where
  "evidence_ok d \<longleftrightarrow> dict_ok d \<and> (\<forall>(k, r) \<in> set d. strip k = k \<and> k \<noteq> [] \<and> se_obligation_id r = k)"

lemma evidence_ok_sort: "evidence_ok d \<Longrightarrow> evidence_ok (sort_key fst d)"
  by (simp add: evidence_ok_def dict_ok_sort)

lemma evidence_fold:
  assumes step: "\<And>acc k r. strip k = k \<Longrightarrow> k \<noteq> [] \<Longrightarrow> se_obligation_id r = k \<Longrightarrow> dict_get acc k = None \<Longrightarrow>
      known k \<Longrightarrow> f acc (k, r) = Inr (acc @ [(k, r)])"
  shows "evidence_ok d \<Longrightarrow> \<forall>k \<in> set (dict_keys d). known k \<Longrightarrow> set (dict_keys acc) \<inter> set (dict_keys d) = {} \<Longrightarrow>
     rfold f acc d = Inr (acc @ d)"
proof (induction d arbitrary: acc)
  case (Cons p d)
  obtain k r where p: "p = (k, r)" by force
  have k: "strip k = k" "k \<noteq> []" "se_obligation_id r = k" "known k" "evidence_ok d" "k \<notin> set (dict_keys d)"
    using Cons.prems(1,2) p by (auto simp: evidence_ok_def dict_ok_def)
  have new: "dict_get acc k = None" using Cons.prems(3) p by (simp add: dict_get_None_iff)
  have "set (dict_keys (acc @ [(k, r)])) \<inter> set (dict_keys d) = {}"
    using Cons.prems(3) k(6) p by auto
  then show ?case using Cons.IH [OF k(5)] Cons.prems(2) step [OF k(1-3) new k(4)] p by simp
qed simp

lemma checkpoint_evidence_fold: "evidence_ok d \<Longrightarrow> rfold checkpoint_evidence_step [] d = Inr d"
  using evidence_fold [of "\<lambda>_. True" checkpoint_evidence_step d "[]"]
  by (simp add: checkpoint_evidence_step_def st_text_def dict_set_new)

lemma history_fold:
  assumes "evidence_ok d" and "set (dict_keys d) \<subseteq> set (dict_keys (obligations v))"
  shows "rfold (history_step v) [] d = Inr d"
  using evidence_fold [of "\<lambda>k. dict_get (obligations v) k \<noteq> None" "history_step v" d "[]"] assms
  by (simp add: history_step_def st_text_def dict_set_new dict_get_None_iff subset_iff)

lemma settlement_ok_evidence:
  assumes "settlement_ok b"
  shows "evidence_ok (settlement_evidences b)"
    and "set (dict_keys (settlement_evidences b)) \<subseteq> set (dict_keys (obligations b))"
    and "cash_ok (settled_cash b)"
proof -
  have known: "strip k = k \<and> k \<noteq> [] \<and> se_obligation_id r = k \<and> k \<in> set (dict_keys (obligations b))"
    if "(k, r) \<in> set (settlement_evidences b)" for k r
  proof -
    have "dict_get (settlement_evidences b) k = Some r"
      using dict_mem_get [OF settlement_okD(3) [OF assms] that] .
    from settlement_okD(6) [OF assms this]
    obtain ob where r: "se_obligation_id r = k" "dict_get (obligations b) k = Some ob" by blast
    have "k \<in> set (dict_keys (obligations b))" using dict_get_mem [OF r(2)] by force
    with r settlement_okD(4) [OF assms r(2)] show ?thesis by (auto simp: proper_def)
  qed
  then show "evidence_ok (settlement_evidences b)"
    using settlement_okD(3) [OF assms] by (auto simp: evidence_ok_def)
  show "set (dict_keys (settlement_evidences b)) \<subseteq> set (dict_keys (obligations b))"
    using known by fastforce
  show "cash_ok (settled_cash b)" using assms by (simp add: settlement_ok_def cash_ok_def)
qed

section \<open>The checkpoint of a book\<close>

lemma same_cash_refl: "same_cash xs xs"
  by (auto simp: same_cash_def list_all2_same)

lemma evidence_ids: "evidence_ok d \<Longrightarrow> map (\<lambda>x. se_obligation_id (snd x)) d = dict_keys d"
  by (auto simp: evidence_ok_def)

lemma book_checkpoint_eq:
  assumes "settlement_ok b" and "strip cid \<noteq> []"
  shows "book_checkpoint b cid = Inr \<lparr>cp_id = strip cid, cp_cash = normal_cash (sort_key fst (settled_cash b)),
    cp_evidence = map snd (sort_key fst (settlement_evidences b))\<rparr>"
proof -
  let ?cash = "normal_cash (sort_key fst (settled_cash b))" and ?ev = "sort_key fst (settlement_evidences b)"
  note ok = settlement_ok_evidence [OF assms(1)]
  have 1: "rfold cash_step [] (map (\<lambda>(c, v). (c, PyDecimal v)) (settled_cash b)) = Inr (normal_cash (settled_cash b))"
    using cash_step_fold [OF ok(3), of "[]"] by simp
  have "cash_ok ?cash" by (intro cash_ok_normal cash_ok_sort ok)
  from checkpoint_cash_fold [OF this, of "[]"] have 2: "rfold checkpoint_cash_step [] ?cash = Inr ?cash"
    by (simp add: normal_cash_idem)
  have 3: "sort_key fst ?cash = ?cash"
    by (rule sort_key_id_if_sorted) (simp only: normal_cash_keys sorted_sort_key)
  have ids: "map se_obligation_id (map snd ?ev) = dict_keys ?ev"
    using evidence_ids [OF evidence_ok_sort [OF ok(1)]] by (simp add: o_def)
  have 4: "sort_key se_obligation_id (map snd ?ev) = map snd ?ev"
    by (rule sort_key_id_if_sorted) (simp only: ids sorted_sort_key)
  have 5: "distinct (map se_obligation_id (map snd ?ev))"
    unfolding ids using evidence_ok_sort [OF ok(1)] by (simp only: evidence_ok_def dict_ok_def)
  show ?thesis
    unfolding book_checkpoint_def checkpoint_create_def 1 checkpoint_evidence_fold [OF ok(1)]
    using assms(2) 2 3 4 5
    by (simp add: sort_normal checkpoint_post_init_def st_text_def same_cash_refl del: map_map)
qed

lemma evidence_dict_checkpoint:
  assumes "evidence_ok d"
  shows "evidence_dict \<lparr>cp_id = i, cp_cash = c, cp_evidence = map snd d\<rparr> = d"
  using assms by (auto simp: evidence_dict_def evidence_ok_def o_def intro!: map_idI)

section \<open>The book restored from a checkpoint\<close>

definition index_of :: "obligation list \<Rightarrow> (string, obligation) dict" where
  "index_of obs = map (\<lambda>ob. (ob_id ob, ob)) obs"

definition cause_index :: "obligation list \<Rightarrow> (string \<times> string, obligation) dict" where
  "cause_index obs = map (\<lambda>ob. ((ob_cause ob, ob_component ob), ob)) obs"

lemma zip_map_self: "zip (map f xs) xs = map (\<lambda>x. (f x, x)) xs"
  by (induction xs) auto

lemma settlement_ok_index:
  assumes "settlement_ok b"
  shows "index_of (dict_values (obligations b)) = obligations b"
    and "cause_index (dict_values (obligations b)) = by_cause_component b"
    and "distinct (map ob_id (dict_values (obligations b)))"
    and "distinct (map (\<lambda>ob. (ob_cause ob, ob_component ob)) (dict_values (obligations b)))"
proof -
  show index: "index_of (dict_values (obligations b)) = obligations b"
    using assms by (auto simp: index_of_def settlement_ok_def o_def intro!: map_idI)
  have vals: "dict_values (by_cause_component b) = dict_values (obligations b)"
    and keys: "dict_keys (by_cause_component b) = map (\<lambda>ob. (ob_cause ob, ob_component ob)) (dict_values (obligations b))"
    and ok: "dict_ok (by_cause_component b)"
    using assms by (simp_all add: settlement_ok_def)
  have "zip (dict_keys (by_cause_component b)) (dict_values (by_cause_component b)) = by_cause_component b"
    by (rule zip_map_fst_snd)
  then show "cause_index (dict_values (obligations b)) = by_cause_component b"
    unfolding vals keys zip_map_self by (simp only: cause_index_def)
  show "distinct (map (\<lambda>ob. (ob_cause ob, ob_component ob)) (dict_values (obligations b)))"
    using ok by (simp only: dict_ok_def keys)
  have ids: "map ob_id (dict_values (obligations b)) = dict_keys (obligations b)"
    using index [THEN arg_cong [of _ _ dict_keys]] by (simp add: index_of_def o_def)
  show "distinct (map ob_id (dict_values (obligations b)))"
    using settlement_okD(1) [OF assms] by (simp only: dict_ok_def ids)
qed

lemma add_step_fold:
  "distinct (map ob_id (pre @ obs)) \<Longrightarrow> distinct (map (\<lambda>ob. (ob_cause ob, ob_component ob)) (pre @ obs)) \<Longrightarrow>
     rfold add_step \<lparr>settled_cash = c, obligations = index_of pre, by_cause_component = cause_index pre,
         settled_ids = [], settlement_evidences = []\<rparr> obs
     = Inr \<lparr>settled_cash = c, obligations = index_of (pre @ obs), by_cause_component = cause_index (pre @ obs),
         settled_ids = [], settlement_evidences = []\<rparr>"
proof (induction obs arbitrary: pre)
  case (Cons ob obs)
  have new: "dict_get (index_of pre) (ob_id ob) = None"
    "dict_get (cause_index pre) (ob_cause ob, ob_component ob) = None"
    using Cons.prems by (auto simp: dict_get_None_iff index_of_def cause_index_def)
  show ?case
    using Cons.IH [of "pre @ [ob]"] Cons.prems new
    by (simp add: add_step_def add_obligation_def dict_set_new) (simp add: index_of_def cause_index_def)
qed simp

lemma evidence_step_fold:
  "evidence_ok ev \<Longrightarrow>
   (\<And>k r. (k, r) \<in> set ev \<Longrightarrow> \<exists>ob. dict_get (obligations b) k = Some ob
      \<and> ob_settlement_date ob \<le> day_of (se_observed_at r)) \<Longrightarrow>
   set (dict_keys (settlement_evidences b)) \<inter> set (dict_keys ev) = {} \<Longrightarrow>
   set (settled_ids b) \<inter> set (dict_keys ev) = {} \<Longrightarrow>
   rfold evidence_step b ev = Inr (b\<lparr>settled_ids := rev (dict_keys ev) @ settled_ids b,
     settlement_evidences := settlement_evidences b @ ev\<rparr>)"
proof (induction ev arbitrary: b)
  case (Cons p ev)
  obtain k r where p: "p = (k, r)" by force
  have k: "strip k = k" "k \<noteq> []" "se_obligation_id r = k" "evidence_ok ev" "k \<notin> set (dict_keys ev)"
    using Cons.prems(1) p by (auto simp: evidence_ok_def dict_ok_def)
  obtain ob where ob: "dict_get (obligations b) k = Some ob" "ob_settlement_date ob \<le> day_of (se_observed_at r)"
    using Cons.prems(2) [of k r] p by auto
  have new: "dict_get (settlement_evidences b) k = None" "k \<notin> set (settled_ids b)"
    using Cons.prems(3,4) p by (auto simp: dict_get_None_iff)
  let ?b = "b\<lparr>settled_ids := k # settled_ids b, settlement_evidences := settlement_evidences b @ [(k, r)]\<rparr>"
  have step: "evidence_step b (k, r) = Inr ?b"
    using k ob new by (simp add: evidence_step_def st_text_def dict_set_new not_less)
  have "rfold evidence_step ?b ev = Inr (?b\<lparr>settled_ids := rev (dict_keys ev) @ settled_ids ?b,
      settlement_evidences := settlement_evidences ?b @ ev\<rparr>)"
    using Cons.prems(2-4) k(5) p by (intro Cons.IH k(4)) auto
  then show ?case using step p by simp
qed simp

text \<open>The book a checkpoint of \<open>b\<close> gives over the obligations of a later book.\<close>

definition restored :: "settlement_book \<Rightarrow> settlement_book \<Rightarrow> settlement_book" where
  "restored b b2 = \<lparr>settled_cash = normal_cash (sort_key fst (settled_cash b)), obligations = obligations b2,
     by_cause_component = by_cause_component b2, settled_ids = rev (dict_keys (sort_key fst (settlement_evidences b))),
     settlement_evidences = sort_key fst (settlement_evidences b)\<rparr>"

lemma grows_get: "settlement_grows b b2 \<Longrightarrow> dict_get (obligations b) k = Some ob \<Longrightarrow> dict_get (obligations b2) k = Some ob"
  and grows_evidence: "settlement_grows b b2 \<Longrightarrow> dict_get (settlement_evidences b) k = Some r \<Longrightarrow>
    dict_get (settlement_evidences b2) k = Some r"
  by (auto simp: settlement_grows_def map_add_Some_iff)

lemma new_book_restored:
  assumes "settlement_ok b" and "settlement_ok b2" and "settlement_grows b b2"
  shows "new_settlement_book (map (\<lambda>(c, v). (c, PyDecimal v)) (normal_cash (sort_key fst (settled_cash b))))
    (dict_values (obligations b2)) (sort_key fst (settlement_evidences b)) = Inr (restored b b2)"
proof -
  let ?cash = "normal_cash (sort_key fst (settled_cash b))" and ?ev = "sort_key fst (settlement_evidences b)"
  let ?b1 = "\<lparr>settled_cash = ?cash, obligations = obligations b2, by_cause_component = by_cause_component b2,
      settled_ids = [], settlement_evidences = []\<rparr>"
  note ok = settlement_ok_evidence [OF assms(1)]
  have "cash_ok ?cash" by (intro cash_ok_normal cash_ok_sort ok)
  from cash_step_fold [OF this, of "[]"]
  have 1: "rfold cash_step [] (map (\<lambda>(c, v). (c, PyDecimal v)) ?cash) = Inr ?cash"
    by (simp add: normal_cash_idem)
  have 2: "rfold add_step \<lparr>settled_cash = ?cash, obligations = [], by_cause_component = [], settled_ids = [],
      settlement_evidences = []\<rparr> (dict_values (obligations b2)) = Inr ?b1"
    using add_step_fold [of "[]" "dict_values (obligations b2)" ?cash] settlement_ok_index [OF assms(2)]
    by (simp add: index_of_def [of "[]"] cause_index_def [of "[]"])
  have "\<exists>ob. dict_get (obligations ?b1) k = Some ob \<and> ob_settlement_date ob \<le> day_of (se_observed_at r)"
    if "(k, r) \<in> set ?ev" for k r
    using that settlement_okD(6) [OF assms(1) dict_mem_get [OF settlement_okD(3) [OF assms(1)]], of k r]
      grows_get [OF assms(3)] by auto
  then have "rfold evidence_step ?b1 ?ev = Inr (restored b b2)"
    by (subst evidence_step_fold [OF evidence_ok_sort [OF ok(1)]]) (auto simp: restored_def)
  with 1 2 show ?thesis by (simp add: new_settlement_book_def)
qed

section \<open>Replay of later settlements\<close>

lemma settle_returns:
  assumes "settle oid as_of ev b = (Inr x, b')" and "settlement_ok b"
  shows "set (settled_ids b') = insert (strip oid) (set (settled_ids b)) \<and> se_obligation_id ev = strip oid"
  using settle_cases [OF assms]
proof (elim disjE exE conjE)
  assume "b' = b" "Inr x \<noteq> (Inr True :: bool result)"
  with assms(1) show ?thesis
    by (auto simp: settle_def raising_def dict_lookup_def split: if_splits option.splits sum.splits)
qed auto

definition tracks :: "settlement_book \<Rightarrow> settlement_book \<Rightarrow> settlement_book \<Rightarrow> bool" where
  "tracks b b2 x \<longleftrightarrow> settlement_ok x \<and> obligations x = obligations b2 \<and> (\<forall>u. base_cash x u = base_cash b u)
     \<and> (\<forall>k r. dict_get (settlement_evidences x) k = Some r \<longrightarrow> dict_get (settlement_evidences b2) k = Some r)"

lemma settle_tracks:
  assumes "settle k as_of r x = (res, x')" and "tracks b b2 x"
    and "dict_get (settlement_evidences b2) (strip k) = Some r"
  shows "tracks b b2 x'"
proof -
  have ok: "settlement_ok x" using assms(2) by (simp add: tracks_def)
  note cases = settle_cases [OF assms(1) ok]
  have "obligations x' = obligations x" using cases by auto
  moreover have "dict_get (settlement_evidences b2) k' = Some r'"
    if "dict_get (settlement_evidences x') k' = Some r'" for k' r'
    using cases that assms(2,3) by (auto simp: tracks_def map_add_Some_iff split: if_splits)
  ultimately show ?thesis
    using assms(2) settle_ok [OF assms(1) ok] settle_base [OF assms(1) ok] by (simp add: tracks_def)
qed

lemma replay_Inr:
  assumes "replay_settlement n x k = Inr x1"
  shows "\<exists>r y. dict_get n k = Some r
    \<and> settle k (max (date_of_obligation x k) (day_of (se_observed_at r))) r x = (Inr y, x1)"
proof -
  obtain r where r: "dict_get n k = Some r" using assms by (auto simp: replay_settlement_def)
  obtain res s where s: "settle k (max (date_of_obligation x k) (day_of (se_observed_at r))) r x = (res, s)" by force
  with r assms show ?thesis by (cases res) (auto simp: replay_settlement_def)
qed

lemma replay_tracks:
  assumes "rfold (replay_settlement (settlement_evidences b2)) x ks = Inr x'" and "tracks b b2 x"
    and "list_all (\<lambda>k. strip k = k) ks"
  shows "tracks b b2 x' \<and> set (settled_ids x') = set ks \<union> set (settled_ids x)"
  using assms
proof (induction ks arbitrary: x)
  case (Cons k ks)
  obtain x1 where x1: "replay_settlement (settlement_evidences b2) x k = Inr x1"
    "rfold (replay_settlement (settlement_evidences b2)) x1 ks = Inr x'"
    using Cons.prems(1) by auto
  obtain r y where r: "dict_get (settlement_evidences b2) k = Some r"
    "settle k (max (date_of_obligation x k) (day_of (se_observed_at r))) r x = (Inr y, x1)"
    using replay_Inr [OF x1(1)] by blast
  have k: "strip k = k" using Cons.prems(3) by simp
  have "tracks b b2 x1" using settle_tracks [OF r(2) Cons.prems(2)] r(1) k by simp
  moreover have "set (settled_ids x1) = insert k (set (settled_ids x))"
    using settle_returns [OF r(2)] Cons.prems(2) k by (simp add: tracks_def)
  ultimately show ?case using Cons.IH [OF x1(2)] Cons.prems(3) by auto
qed simp

lemma base_cash_restored:
  assumes "settlement_ok b" and "settlement_ok b2" and "settlement_grows b b2"
  shows "base_cash (restored b b2) u = base_cash b u"
proof -
  obtain xs where xs: "obligations b2 = obligations b @ xs" using assms(3) by (auto simp: settlement_grows_def)
  have "set (dict_keys (obligations b)) \<inter> set (dict_keys xs) = {}"
    using settlement_okD(1) [OF assms(2)] by (simp add: xs dict_ok_def)
  moreover have "(k, ob) \<in> set xs \<Longrightarrow> ob_id ob = k" for k ob
    using assms(2) by (auto simp: settlement_ok_def xs)
  ultimately have ids: "(k, ob) \<in> set xs \<Longrightarrow> ob_id ob = k \<and> k \<notin> set (dict_keys (obligations b))" for k ob
    by force
  have settled: "set (settled_ids (restored b b2)) = set (settled_ids b)"
    using settlement_okD(5) [OF assms(1)] by (simp add: restored_def)
  have "set (settled_ids b) \<subseteq> set (dict_keys (obligations b))"
    using settlement_ok_evidence(2) [OF assms(1)] settlement_okD(5) [OF assms(1)] by simp
  then have "ob_id ob \<notin> set (settled_ids b)" if "(k, ob) \<in> set xs" for k ob
    using ids [OF that] by blast
  then have "map (\<lambda>(k, ob). if ob_currency ob = u \<and> ob_id ob \<in> set (settled_ids b)
      then dval (ob_amount ob) else 0) xs = map (\<lambda>_. 0) xs"
    by (intro map_cong) auto
  then have "settled_total (restored b b2) u = settled_total b u"
    unfolding settled by (simp add: owed_def restored_def xs del: map_eq_conv)
  moreover have "dval (cash_of (restored b b2) u) = dval (cash_of b u)"
    using dict_get_sort [OF settlement_okD(2) [OF assms(1)]]
    by (simp add: cash_of_def restored_def normal_cash_get split: option.splits)
  ultimately show ?thesis by (simp add: base_cash_def)
qed

section \<open>Restart\<close>

lemma settlement_ok_proper: "settlement_ok b \<Longrightarrow> list_all proper (dict_values (obligations b))"
  by (auto simp: settlement_ok_def list_all_iff)

lemma restored_tracks:
  assumes "settlement_ok b" and "settlement_ok b2" and "settlement_grows b b2"
  shows "tracks b b2 (restored b b2)"
proof -
  have "settlement_ok (restored b b2)"
    by (rule new_settlement_book_cases [OF new_book_restored [OF assms] settlement_ok_proper [OF assms(2)]])
  moreover have "dict_get (settlement_evidences b2) k = Some r"
    if "dict_get (settlement_evidences (restored b b2)) k = Some r" for k r
    using that grows_evidence [OF assms(3)] dict_get_sort [OF settlement_okD(3) [OF assms(1)]]
    by (simp add: restored_def)
  ultimately show ?thesis
    using base_cash_restored [OF assms] by (simp add: tracks_def restored_def)
qed

lemma from_history_unfold:
  assumes "settlement_ok b" and "settlement_ok b2" and "settlement_grows b b2" and "strip cid \<noteq> []"
    and "book_checkpoint b cid = Inr cp"
    and ordered: "ordered = sort_key (\<lambda>k. (date_of_obligation b2 k, k)) (dict_keys (settlement_evidences b2))"
    and n: "n = length (settlement_evidences b)"
  shows "from_history cp (dict_values (obligations b2)) (settlement_evidences b2) =
    (if set (take n ordered) \<noteq> set (settled_ids b) then Inl SettlementConflict
     else rfold (replay_settlement (settlement_evidences b2)) (restored b b2) (drop n ordered))"
proof -
  let ?ev = "sort_key fst (settlement_evidences b)"
  have cp: "cp = \<lparr>cp_id = strip cid, cp_cash = normal_cash (sort_key fst (settled_cash b)), cp_evidence = map snd ?ev\<rparr>"
    using book_checkpoint_eq [OF assms(1,4)] assms(5) by simp
  have ev: "evidence_dict cp = ?ev"
    unfolding cp by (rule evidence_dict_checkpoint) (intro evidence_ok_sort settlement_ok_evidence assms(1))
  have hist: "rfold (history_step (restored b b2)) [] (settlement_evidences b2) = Inr (settlement_evidences b2)"
    using settlement_ok_evidence(1,2) [OF assms(2)] by (intro history_fold) (simp_all add: restored_def)
  have date: "date_of_obligation (restored b b2) = date_of_obligation b2"
    by (simp add: date_of_obligation_def restored_def fun_eq_iff)
  have keys: "set (dict_keys ?ev) = set (settled_ids b)" using settlement_okD(5) [OF assms(1)] by simp
  have same: "\<not> list_ex (\<lambda>k. dict_get (settlement_evidences b2) k \<noteq> dict_get ?ev k) (take n ordered)"
    if "set (take n ordered) = set (settled_ids b)"
  proof -
    have "dict_get (settlement_evidences b2) k = dict_get ?ev k" if k: "k \<in> set (settled_ids b)" for k
    proof -
      obtain r where r: "dict_get (settlement_evidences b) k = Some r"
        using k dict_get_keys [of k "settlement_evidences b"] settlement_okD(5) [OF assms(1)] by auto
      then show ?thesis
        using grows_evidence [OF assms(3) r] dict_get_sort [OF settlement_okD(3) [OF assms(1)]] by simp
    qed
    with that show ?thesis by (auto simp: list_ex_iff)
  qed
  have len: "length (take n ordered) = n"
    using assms(3) by (auto simp: n ordered settlement_grows_def)
  show ?thesis
    unfolding from_history_def ev
    using new_book_restored [OF assms(1-3)] hist same len keys
    by (auto simp: cp date ordered [symmetric] n [symmetric] Let_def)
qed

lemma restart_same:
  assumes "settlement_ok b" and "settlement_ok b2" and "settlement_grows b b2"
    and base: "\<And>u. base_cash b2 u = base_cash b u" and "strip cid \<noteq> []"
    and "book_checkpoint b cid = Inr cp"
    and "from_history cp (dict_values (obligations b2)) (settlement_evidences b2) = Inr r"
  shows "obligations r = obligations b2 \<and> set (settled_ids r) = set (settled_ids b2)
    \<and> dict_get (settlement_evidences r) = dict_get (settlement_evidences b2)
    \<and> (\<forall>u. dval (cash_of r u) = dval (cash_of b2 u))"
proof -
  define ordered where
    "ordered = sort_key (\<lambda>k. (date_of_obligation b2 k, k)) (dict_keys (settlement_evidences b2))"
  define n where "n = length (settlement_evidences b)"
  note hist = from_history_unfold [OF assms(1-3,5,6) ordered_def n_def]
  have prefix_ids: "set (take n ordered) = set (settled_ids b)"
    and replay: "rfold (replay_settlement (settlement_evidences b2)) (restored b b2) (drop n ordered) = Inr r"
    using assms(7) hist by (auto split: if_splits)
  have stripped: "list_all (\<lambda>k. strip k = k) (drop n ordered)"
    using settlement_ok_evidence(1) [OF assms(2)] set_drop_subset [of n ordered]
    by (force simp: list_all_iff ordered_def evidence_ok_def)
  have r: "tracks b b2 r" "set (settled_ids r) = set (drop n ordered) \<union> set (settled_ids (restored b b2))"
    using replay_tracks [OF replay restored_tracks [OF assms(1-3)] stripped] by auto
  have "set (settled_ids (restored b b2)) = set (take n ordered)"
    using settlement_okD(5) [OF assms(1)] prefix_ids by (simp add: restored_def)
  then have "set (settled_ids r) = set (take n ordered @ drop n ordered)"
    unfolding set_append using r(2) by blast
  then have settled: "set (settled_ids r) = set (settled_ids b2)"
    using settlement_okD(5) [OF assms(2)] by (simp add: ordered_def)
  have ok: "settlement_ok r" and obs: "obligations r = obligations b2" and base_r: "base_cash r u = base_cash b u"
    and sub: "dict_get (settlement_evidences r) k = Some x \<Longrightarrow> dict_get (settlement_evidences b2) k = Some x" for u k x
    using r(1) by (auto simp: tracks_def)
  have "dict_get (settlement_evidences r) k = dict_get (settlement_evidences b2) k" for k
  proof (cases "dict_get (settlement_evidences r) k")
    case None
    then have "k \<notin> set (settled_ids b2)"
      using settlement_okD(5) [OF ok] settled by (simp add: dict_get_None_iff)
    then have "dict_get (settlement_evidences b2) k = None"
      using settlement_okD(5) [OF assms(2)] by (simp add: dict_get_None_iff)
    with None show ?thesis by simp
  qed (simp add: sub)
  moreover have "dval (cash_of r u) = dval (cash_of b2 u)" for u
  proof -
    have "settled_total r u = settled_total b2 u" unfolding settled by (simp add: owed_def obs)
    then show ?thesis using base [of u] base_r [of u] by (simp add: base_cash_def)
  qed
  ultimately show ?thesis using obs settled by auto
qed

text \<open>(C31) A checkpoint restores its book.  For every book reached from opening balances by any calls, a
  checkpoint with a non-blank name is made, and restoring it over the book's own obligations and
  evidence returns a book with the same obligations, settled identities, evidence and cash.
\<close>

theorem checkpoint_restores_book:
  assumes "new_settlement_book opening [] [] = Inr b0" and "b = after settlement_run b0 calls"
    and "strip cid \<noteq> []"
  shows "\<exists>cp r. book_checkpoint b cid = Inr cp
    \<and> from_history cp (dict_values (obligations b)) (settlement_evidences b) = Inr r
    \<and> obligations r = obligations b \<and> set (settled_ids r) = set (settled_ids b)
    \<and> dict_get (settlement_evidences r) = dict_get (settlement_evidences b)
    \<and> (\<forall>u. dval (cash_of r u) = dval (cash_of b u))"
proof -
  have ok: "settlement_ok b" using settlement.inv_after_from opening_book(1) [OF assms(1)] assms(2) by blast
  have le: "settlement_grows b b" by (rule settlement.le_refl)
  obtain cp where cp: "book_checkpoint b cid = Inr cp" using book_checkpoint_eq [OF ok assms(3)] by blast
  have "from_history cp (dict_values (obligations b)) (settlement_evidences b) = Inr (restored b b)"
    using from_history_unfold [OF ok ok le assms(3) cp refl refl] settlement_okD(5) [OF ok] by simp
  with restart_same [OF ok ok le refl assms(3) cp this] cp show ?thesis by blast
qed

text \<open>(C32) Settled history is applied once.  Take a checkpoint of a book, let any calls follow, and restore the
  checkpoint over the whole retained history, the part it already contains included.  If the restart
  is accepted, the restored book has the obligations, the settlements and the cash of the later book:
  nothing of the checkpointed history is counted a second time and nothing of the rest is lost.
\<close>

theorem restart_applies_history_once:
  assumes "new_settlement_book opening [] [] = Inr b0" and "b = after settlement_run b0 calls"
    and "book_checkpoint b cid = Inr cp" and "b2 = after settlement_run b later"
    and "from_history cp (dict_values (obligations b2)) (settlement_evidences b2) = Inr r"
  shows "obligations r = obligations b2 \<and> set (settled_ids r) = set (settled_ids b2)
    \<and> dict_get (settlement_evidences r) = dict_get (settlement_evidences b2)
    \<and> (\<forall>u. dval (cash_of r u) = dval (cash_of b2 u))"
proof -
  have ok: "settlement_ok b" using settlement.inv_after_from opening_book(1) [OF assms(1)] assms(2) by blast
  have ok2: "settlement_ok b2" using settlement.inv_after_from [OF ok] assms(4) by simp
  have cid: "strip cid \<noteq> []" using assms(3) by (auto simp: book_checkpoint_def checkpoint_create_def)
  show ?thesis
    using restart_same [OF ok ok2 _ _ cid assms(3,5)] settlement.le_after_from [OF ok] base_after [OF ok] assms(4)
    by simp
qed

text \<open>(C33) Late evidence blocks a restart.  The prefix of the retained history is taken in the order of
  contractual settlement dates, not of arrival.  So when an obligation settles after the checkpoint
  although it fell due before one the checkpoint contains, the retained history is refused as a conflict,
  though every call that made it was accepted.
\<close>

theorem late_settlement_blocks_restart:
  assumes "new_settlement_book opening [] [] = Inr b0" and "b = after settlement_run b0 calls"
    and "book_checkpoint b cid = Inr cp" and "b2 = after settlement_run b later"
    and "k \<in> set (settled_ids b2)" and "k \<notin> set (settled_ids b)" and "k' \<in> set (settled_ids b)"
    and "(date_of_obligation b2 k, k) < (date_of_obligation b2 k', k')"
  shows "from_history cp (dict_values (obligations b2)) (settlement_evidences b2) = Inl SettlementConflict"
proof -
  have ok: "settlement_ok b" using settlement.inv_after_from opening_book(1) [OF assms(1)] assms(2) by blast
  have ok2: "settlement_ok b2" using settlement.inv_after_from [OF ok] assms(4) by simp
  have le: "settlement_grows b b2" using settlement.le_after_from [OF ok] assms(4) by simp
  have cid: "strip cid \<noteq> []" using assms(3) by (auto simp: book_checkpoint_def checkpoint_create_def)
  define f where "f = (\<lambda>k. (date_of_obligation b2 k, k))"
  define ordered where "ordered = sort_key f (dict_keys (settlement_evidences b2))"
  define n where "n = length (settlement_evidences b)"
  have "set (take n ordered) \<noteq> set (settled_ids b)"
  proof
    assume prefix_ids: "set (take n ordered) = set (settled_ids b)"
    have "k \<in> set (take n ordered @ drop n ordered)"
      unfolding append_take_drop_id using assms(5) settlement_okD(5) [OF ok2] by (simp add: ordered_def)
    then have "k \<in> set (drop n ordered)" "k' \<in> set (take n ordered)"
      unfolding set_append using assms(6,7) prefix_ids by blast+
    moreover have "sorted (map f (take n ordered @ drop n ordered))"
      unfolding append_take_drop_id by (simp add: ordered_def)
    ultimately have "f k' \<le> f k" unfolding map_append sorted_append by auto
    then show False using assms(8) leD unfolding f_def by blast
  qed
  then show ?thesis
    using from_history_unfold [OF ok ok2 le cid assms(3) ordered_def [unfolded f_def] n_def] by simp
qed

section \<open>Instances\<close>

text \<open>The purchase settles before the checkpoint and the sale after it, then the other way round: both fall
  due on day 12, and \<open>purchase\<close> precedes \<open>sale\<close> in the retained order.\<close>

definition purchase_evidence :: settlement_evidence where
  "purchase_evidence = \<lparr>se_obligation_id = ''purchase'', se_evidence_ref = ''statement'', se_observed_at = 1036800000001\<rparr>"

definition bought_first :: settlement_book where
  "bought_first = after settlement_run opened_book (trades @ [Settle ''purchase'' 12 purchase_evidence])"

definition sold_first :: settlement_book where
  "sold_first = after settlement_run opened_book (trades @ [Settle ''sale'' 12 sale_evidence])"

theorem checkpoint_restores_book_witness:
  "\<exists>cp r. book_checkpoint sold_first ''eod'' = Inr cp
    \<and> from_history cp (dict_values (obligations sold_first)) (settlement_evidences sold_first) = Inr r
    \<and> dval (cash_of r ''USD'') = 150"
proof -
  have "strip ''eod'' \<noteq> []" "dval (cash_of sold_first ''USD'') = 150" by code_simp+
  with checkpoint_restores_book [OF opened sold_first_def] show ?thesis by metis
qed

theorem restart_applies_history_once_witness:
  "\<exists>cp r. book_checkpoint bought_first ''eod'' = Inr cp
    \<and> from_history cp (dict_values (obligations (after settlement_run bought_first [Settle ''sale'' 12 sale_evidence])))
        (settlement_evidences (after settlement_run bought_first [Settle ''sale'' 12 sale_evidence])) = Inr r
    \<and> dval (cash_of r ''USD'') = 120"
proof -
  let ?b2 = "after settlement_run bought_first [Settle ''sale'' 12 sale_evidence]"
  define cp where "cp = \<lparr>cp_id = ''eod'', cp_cash = [(''USD'', Decimal False 70 0)], cp_evidence = [purchase_evidence]\<rparr>"
  have cp: "book_checkpoint bought_first ''eod'' = Inr cp" unfolding cp_def by code_simp
  have "\<exists>r. from_history cp (dict_values (obligations ?b2)) (settlement_evidences ?b2) = Inr r"
  proof (cases "from_history cp (dict_values (obligations ?b2)) (settlement_evidences ?b2)")
    case (Inl e)
    moreover have "case_sum (\<lambda>_. False) (\<lambda>_. True) (from_history cp (dict_values (obligations ?b2)) (settlement_evidences ?b2))"
      unfolding cp_def by code_simp
    ultimately show ?thesis by simp
  qed blast
  then obtain r where r: "from_history cp (dict_values (obligations ?b2)) (settlement_evidences ?b2) = Inr r" ..
  have "dval (cash_of ?b2 ''USD'') = 120" by code_simp
  with restart_applies_history_once [OF opened bought_first_def cp refl r] cp r show ?thesis by metis
qed

theorem late_settlement_blocks_restart_witness:
  "\<exists>cp. book_checkpoint sold_first ''eod'' = Inr cp
    \<and> from_history cp (dict_values (obligations (after settlement_run sold_first [Settle ''purchase'' 12 purchase_evidence])))
        (settlement_evidences (after settlement_run sold_first [Settle ''purchase'' 12 purchase_evidence]))
      = Inl SettlementConflict"
proof -
  let ?b2 = "after settlement_run sold_first [Settle ''purchase'' 12 purchase_evidence]"
  define cp where "cp = \<lparr>cp_id = ''eod'', cp_cash = [(''USD'', Decimal False 150 0)], cp_evidence = [sale_evidence]\<rparr>"
  have cp: "book_checkpoint sold_first ''eod'' = Inr cp" unfolding cp_def by code_simp
  have "''purchase'' \<in> set (settled_ids ?b2)" "''purchase'' \<notin> set (settled_ids sold_first)"
    "''sale'' \<in> set (settled_ids sold_first)"
    "(date_of_obligation ?b2 ''purchase'', ''purchase'') < (date_of_obligation ?b2 ''sale'', ''sale'')"
    by code_simp+
  from late_settlement_blocks_restart [OF opened sold_first_def cp refl this] cp show ?thesis by blast
qed

end
