(* ===== verification/Settlement_Journal.thy ===== *)
theory Settlement_Journal
  imports Settlement_Restart
begin

text \<open>
  \<open>SettlementBook.from_economic_book\<close> over the journal of \<open>accounting.py\<close>: the settlement book rebuilt from a
  journal carries exactly the journal's cash, split into settled and owed.
\<close>

section \<open>Active obligations\<close>

definition source_key :: "obligation \<Rightarrow> string option \<times> string" where
  "source_key ob = (ob_source ob, ob_currency ob)"

definition selected :: "obligation list \<Rightarrow> obligation list \<times> (string \<times> string) list \<Rightarrow> bool" where
  "selected items st \<longleftrightarrow> set (fst st) \<subseteq> set items \<and> distinct (map source_key (fst st))
     \<and> map source_key (fst st) = map (\<lambda>(s, u). (Some s, u)) (snd st)"

lemma active_step_selected:
  assumes "active_obligation_step by_tid rv st ob = Inr st'" and "selected items st" and "ob \<in> set items"
  shows "selected items st'"
proof -
  obtain active pairs where st: "st = (active, pairs)" by force
  have keys: "map source_key active = map (\<lambda>(s, u). (Some s, u)) pairs"
    using assms(2) by (simp add: selected_def st)
  have fresh: "(src, u) \<notin> set pairs \<Longrightarrow> (Some src, u) \<notin> set (map source_key active)" for src u
    unfolding keys by auto
  obtain src rule where src: "ob_source ob = Some src" "ob_rule ob = Some rule"
    using assms(1) st by (auto simp: active_obligation_step_def split: option.splits)
  have "st' = st \<or> (src, ob_currency ob) \<notin> set pairs
      \<and> st' = (active @ [ob], pairs @ [(src, ob_currency ob)])"
    using assms(1) st src by (auto simp: active_obligation_step_def split: option.splits if_splits)
  then show ?thesis
  proof
    assume *: "(src, ob_currency ob) \<notin> set pairs \<and> st' = (active @ [ob], pairs @ [(src, ob_currency ob)])"
    have "source_key ob = (Some src, ob_currency ob)" by (simp add: source_key_def src)
    with * fresh [of src "ob_currency ob"] keys assms(2,3) st show ?thesis by (simp add: selected_def)
  qed (use assms(2) in simp)
qed

lemma active_selected:
  assumes "rfold (active_obligation_step by_tid rv) ([], []) items = Inr (active, pairs)"
  shows "set active \<subseteq> set items" and "distinct (map source_key active)"
proof -
  have "selected items (active, pairs)"
    using assms by (rule rfold_invariant) (auto simp: selected_def [of items "([], [])"] intro: active_step_selected)
  then show "set active \<subseteq> set items" "distinct (map source_key active)"
    unfolding selected_def fst_conv by blast+
qed

text \<open>Obligations of different sources are all entered.\<close>

lemma add_step_fold_index:
  "rfold add_step b obs = Inr b1 \<Longrightarrow> obligations b = index_of pre \<Longrightarrow> distinct (map source_key (pre @ obs)) \<Longrightarrow>
     obligations b1 = index_of (pre @ obs) \<and> settled_cash b1 = settled_cash b \<and> settled_ids b1 = settled_ids b"
proof (induction obs arbitrary: b pre)
  case (Cons ob obs)
  obtain b' where b': "add_step b ob = Inr b'" "rfold add_step b' obs = Inr b1"
    using Cons.prems(1) by auto
  obtain x where add: "add_obligation ob b = (Inr x, b')"
    using b'(1) by (auto simp: add_step_def split: prod.splits sum.splits)
  have "dict_get (obligations b) (ob_id ob) = None"
  proof (rule ccontr)
    assume "dict_get (obligations b) (ob_id ob) \<noteq> None"
    then obtain old where old: "dict_get (obligations b) (ob_id ob) = Some old" by blast
    have "same_obligation old ob"
      using add old by (auto simp: add_obligation_def split: if_splits)
    then have "source_key old = source_key ob" by (simp add: same_obligation_def source_key_def)
    moreover have "old \<in> set pre"
      using dict_get_mem [OF old] by (auto simp: Cons.prems(2) index_of_def)
    ultimately show False using Cons.prems(3) by (auto simp: image_iff)
  qed
  with add have "b' = b\<lparr>obligations := obligations b @ [(ob_id ob, ob)],
         by_cause_component := by_cause_component b @ [((ob_cause ob, ob_component ob), ob)]\<rparr>"
    by (auto simp: add_obligation_def Let_def dict_set_new split: if_splits)
  then show ?case
    using Cons.IH [OF b'(2), of "pre @ [ob]"] Cons.prems(2,3) by (simp add: index_of_def)
qed simp

section \<open>Opening balances\<close>

lemma dval_cash_in: "sum_list (map dval (cash_in u ps)) = posted (''CASH:'' @ u) u ps"
  by (induction ps) (auto simp: cash_in_def)

lemma opening_cash_Inr:
  assumes "opening_cash ts active u = Inr x"
  shows "\<exists>v. x = (u, PyDecimal v) \<and> in_envelope v \<and> dval v = posted (''CASH:'' @ u) u (concat (map postings ts))
    - sum_list (map (\<lambda>ob. dval (ob_amount ob)) (filter (\<lambda>ob. ob_currency ob = u) active))"
  using assms by (auto simp: opening_cash_def o_def dval_cash_in dest!: exact.total_val exact.sub_val)

lemma opening_rows:
  assumes "rmap (opening_cash ts active) us = Inr rows"
  shows "\<exists>d. rows = map (\<lambda>(c, v). (c, PyDecimal v)) d \<and> dict_keys d = us \<and> (\<forall>(u, v) \<in> set d. in_envelope v
    \<and> dval v = posted (''CASH:'' @ u) u (concat (map postings ts))
    - sum_list (map (\<lambda>ob. dval (ob_amount ob)) (filter (\<lambda>ob. ob_currency ob = u) active)))"
  using assms
proof (induction us arbitrary: rows)
  case (Cons u us)
  then obtain x xs where x: "opening_cash ts active u = Inr x" "rmap (opening_cash ts active) us = Inr xs"
    "rows = x # xs" by auto
  from Cons.IH [OF x(2)] obtain d where "xs = map (\<lambda>(c, v). (c, PyDecimal v)) d" "dict_keys d = us"
    "\<forall>(u, v) \<in> set d. in_envelope v \<and> dval v = posted (''CASH:'' @ u) u (concat (map postings ts))
      - sum_list (map (\<lambda>ob. dval (ob_amount ob)) (filter (\<lambda>ob. ob_currency ob = u) active))" by blast
  moreover from opening_cash_Inr [OF x(1)] obtain v where "x = (u, PyDecimal v)" "in_envelope v"
    "dval v = posted (''CASH:'' @ u) u (concat (map postings ts))
      - sum_list (map (\<lambda>ob. dval (ob_amount ob)) (filter (\<lambda>ob. ob_currency ob = u) active))" by blast
  ultimately show ?case using x(3) by (intro exI [of _ "(u, v) # d"]) auto
qed simp

lemma no_cash_legs: "u \<notin> set (map asset_or_currency (filter is_cash_leg ps)) \<Longrightarrow> posted (''CASH:'' @ u) u ps = 0"
  by (induction ps) (auto simp: is_cash_leg_def split: if_splits)

section \<open>The rebuilt book\<close>

lemma replay_keeps:
  assumes "rfold (replay_settlement n) v ks = Inr b" and "settlement_ok v"
  shows "settlement_ok b \<and> base_cash b u = base_cash v u \<and> owed (\<lambda>_. True) b u = owed (\<lambda>_. True) v u"
proof (rule rfold_invariant [where P = "\<lambda>x. settlement_ok x \<and> base_cash x u = base_cash v u
      \<and> owed (\<lambda>_. True) x u = owed (\<lambda>_. True) v u", OF assms(1)])
  fix x k x'
  assume x: "settlement_ok x \<and> base_cash x u = base_cash v u \<and> owed (\<lambda>_. True) x u = owed (\<lambda>_. True) v u"
    and "replay_settlement n x k = Inr x'"
  from replay_Inr [OF this(2)] obtain as_of r y where s: "settle k as_of r x = (Inr y, x')" by blast
  show "settlement_ok x' \<and> base_cash x' u = base_cash v u \<and> owed (\<lambda>_. True) x' u = owed (\<lambda>_. True) v u"
    using settle_ok [OF s] settle_base [OF s] x by simp
qed (use assms(2) in simp)

lemma from_opening:
  assumes "cash_ok d" and "checkpoint_create cid (map (\<lambda>(c, v). (c, PyDecimal v)) d) [] = Inr cp"
    and "from_history cp active evidence = Inr b" and "list_all proper active" and "distinct (map source_key active)"
  shows "base_cash b u = (case dict_get d u of None \<Rightarrow> 0 | Some v \<Rightarrow> dval v)"
    and "owed (\<lambda>_. True) b u = sum_list (map (\<lambda>ob. dval (ob_amount ob)) (filter (\<lambda>ob. ob_currency ob = u) active))"
proof -
  define e where "e = \<lparr>settled_cash = d, obligations = [], by_cause_component = [], settled_ids = [],
    settlement_evidences = []\<rparr>"
  have e: "settlement_ok e" "settled_cash e = d" "settlement_evidences e = []"
    using settlement_ok_empty [OF assms(1)] by (simp_all add: e_def)
  have "strip cid \<noteq> []" using assms(2) by (auto simp: checkpoint_create_def)
  from book_checkpoint_eq [OF e(1) this]
  have cp: "cp = \<lparr>cp_id = strip cid, cp_cash = normal_cash (sort_key fst d), cp_evidence = []\<rparr>"
    using assms(2) e(2,3) by (simp add: book_checkpoint_def)
  have "evidence_dict cp = []" by (simp add: cp evidence_dict_def)
  with assms(3) obtain v n where v: "new_settlement_book (map (\<lambda>(c, v). (c, PyDecimal v))
      (normal_cash (sort_key fst d))) active [] = Inr v"
    and replay: "\<exists>ks. rfold (replay_settlement n) v ks = Inr b"
    by (auto simp: from_history_def Let_def cp split: if_splits)
  from v assms(4) obtain c b1 where
    c: "rfold cash_step [] (map (\<lambda>(c, v). (c, PyDecimal v)) (normal_cash (sort_key fst d))) = Inr c"
    and added: "rfold add_step \<lparr>settled_cash = c, obligations = [], by_cause_component = [], settled_ids = [],
      settlement_evidences = []\<rparr> active = Inr b1" and b1: "rfold evidence_step b1 [] = Inr v" and ok: "settlement_ok v"
    by (rule new_settlement_book_cases)
  have add: "rfold add_step \<lparr>settled_cash = c, obligations = [], by_cause_component = [], settled_ids = [],
      settlement_evidences = []\<rparr> active = Inr v" using added b1 by simp
  have "cash_ok (normal_cash (sort_key fst d))" by (intro cash_ok_normal cash_ok_sort assms(1))
  from cash_step_fold [OF this, of "[]"] c have c_eq: "c = normal_cash (sort_key fst d)"
    by (simp add: normal_cash_idem)
  have v_eq: "obligations v = index_of active" "settled_cash v = c" "settled_ids v = []"
    using add_step_fold_index [OF add, of "[]"] assms(5) by (simp_all add: index_of_def [of "[]"])
  obtain ks where "rfold (replay_settlement n) v ks = Inr b" using replay by blast
  note kept = replay_keeps [OF this ok, of u]
  have "dict_get (sort_key fst d) = dict_get d"
    using dict_get_sort [of d] assms(1) by (simp add: cash_ok_def)
  then have "base_cash v u = (case dict_get d u of None \<Rightarrow> 0 | Some v \<Rightarrow> dval v)"
    by (simp add: base_cash_def cash_of_def v_eq c_eq normal_cash_get owed_filter split: option.splits)
  with kept show "base_cash b u = (case dict_get d u of None \<Rightarrow> 0 | Some v \<Rightarrow> dval v)" by simp
  show "owed (\<lambda>_. True) b u = sum_list (map (\<lambda>ob. dval (ob_amount ob)) (filter (\<lambda>ob. ob_currency ob = u) active))"
    using kept by (simp add: owed_filter v_eq index_of_def o_def)
qed

definition canonical_cash :: "economic_book \<Rightarrow> bool" where
  "canonical_cash book \<longleftrightarrow> list_all (\<lambda>p. code_ok (asset_or_currency p)) (filter is_cash_leg (book_postings book))"

lemma from_economic_book_cash:
  assumes "from_economic_book book items evidence = Inr b" and "list_all proper items" and "canonical_cash book"
  shows "dval (cash_of b u) + pending_total b u = posted (''CASH:'' @ u) u (book_postings book)"
proof -
  let ?ts = "bk_transactions book"
  obtain active pairs rv by_tid rows cp ev where
    active: "rfold (active_obligation_step by_tid rv) ([], []) items = Inr (active, pairs)"
    and rows: "rmap (opening_cash ?ts active) (journal_currencies ?ts items) = Inr rows"
    and cp: "checkpoint_create ''economic-book-settlement-opening'' rows [] = Inr cp"
    and b: "from_history cp active ev = Inr b"
    using assms(1) by (auto simp: from_economic_book_def Let_def split: if_splits)
  from opening_rows [OF rows] obtain d where d: "rows = map (\<lambda>(c, v). (c, PyDecimal v)) d"
    "dict_keys d = journal_currencies ?ts items"
    "\<forall>(u, v) \<in> set d. in_envelope v \<and> dval v = posted (''CASH:'' @ u) u (concat (map postings ?ts))
      - sum_list (map (\<lambda>ob. dval (ob_amount ob)) (filter (\<lambda>ob. ob_currency ob = u) active))"
    by blast
  have proper_active: "list_all proper active" and keys: "distinct (map source_key active)"
    using active_selected [OF active] assms(2) by (auto simp: list_all_iff)
  have code: "code_ok c" if "c \<in> set (journal_currencies ?ts items)" for c
    using that assms(2,3)
    by (auto simp: journal_currencies_def canonical_cash_def book_postings_def list_all_iff proper_def)
  have "code_ok c \<and> in_envelope v" if "(c, v) \<in> set d" for c v
  proof -
    have "c \<in> set (dict_keys d)" using that by (metis fst_conv image_eqI set_map)
    with code d(2,3) that show ?thesis by auto
  qed
  moreover have "dict_ok d" unfolding dict_ok_def d(2) by (simp add: journal_currencies_def)
  ultimately have "cash_ok d" by (auto simp: cash_ok_def)
  note start = from_opening [OF this cp [unfolded d(1)] b proper_active keys, of u]
  have "base_cash b u + owed (\<lambda>_. True) b u = posted (''CASH:'' @ u) u (book_postings book)"
  proof (cases "dict_get d u")
    case None
    then have out: "u \<notin> set (journal_currencies ?ts items)"
      unfolding d(2) [symmetric] by (simp add: dict_get_None_iff)
    then have "posted (''CASH:'' @ u) u (book_postings book) = 0"
      by (intro no_cash_legs) (auto simp: journal_currencies_def book_postings_def)
    moreover have "filter (\<lambda>ob. ob_currency ob = u) active = []"
      using out active_selected(1) [OF active] by (auto simp: journal_currencies_def filter_empty_conv)
    ultimately show ?thesis using start None by simp
  next
    case (Some v)
    then have "dval v = posted (''CASH:'' @ u) u (concat (map postings ?ts))
      - sum_list (map (\<lambda>ob. dval (ob_amount ob)) (filter (\<lambda>ob. ob_currency ob = u) active))"
      using d(3) dict_get_mem by fastforce
    then show ?thesis using start Some by (simp add: book_postings_def)
  qed
  then show ?thesis by (simp add: base_cash_def owed_split)
qed

section \<open>Available capital\<close>

abbreviation late_in :: "settlement_book \<Rightarrow> string \<Rightarrow> int \<Rightarrow> obligation \<Rightarrow> bool" where
  "late_in b u point ob \<equiv> ob_currency ob = u \<and> ob_id ob \<notin> set (settled_ids b) \<and> ob_settlement_date ob < day_of point"

lemma overdue_step_Inr:
  "overdue_step b scope u point acc ob = Inr acc' \<Longrightarrow> acc' = acc @ (if late_in b u point ob then [ob_id ob] else [])"
  by (auto simp: overdue_step_def split: option.splits if_splits)

lemma overdue_fold:
  "rfold (overdue_step b scope u point) acc obs = Inr overdue \<Longrightarrow>
     overdue = acc @ map ob_id (filter (late_in b u point) obs)"
proof (induction obs arbitrary: acc)
  case (Cons ob obs)
  then obtain acc' where "overdue_step b scope u point acc ob = Inr acc'"
    "rfold (overdue_step b scope u point) acc' obs = Inr overdue" by auto
  with overdue_step_Inr Cons.IH show ?case by fastforce
qed simp

lemma available_capital_Inr:
  assumes "available_capital b scope currency as_of evidence required = Inr cap"
  obtains point credit unknown where
    "ca_currency cap = upper (strip currency)" "strip currency \<noteq> []"
    "as_of = Moment point" "ca_as_of cap = point"
    "credit_of scope (ca_currency cap) point evidence required = Inr (credit, unknown)"
    "ca_overdue cap = sort (map ob_id (filter (late_in b (ca_currency cap) point) (dict_values (obligations b))))"
    "ca_blocks_new_risk cap \<longleftrightarrow> ca_overdue cap \<noteq> [] \<or> unknown"
    "dval (ca_available_cash cap) = max 0 (dval (cash_of b (ca_currency cap)) - payable_total b (ca_currency cap))"
    "ca_buying_power cap = credit"
    "dval (ca_available_capital cap) = dval (ca_available_cash cap) + dval credit"
proof -
  let ?u = "upper (strip currency)"
  note run = assms [unfolded available_capital_def Let_def]
  have ne: "strip currency \<noteq> []" using run by auto
  obtain point where p: "st_utc as_of = Inr point" using run by auto
  obtain overdue where o1: "rfold (overdue_step b scope ?u point) [] (dict_values (obligations b)) = Inr overdue"
    using run p by auto
  obtain credit unknown where c: "credit_of scope ?u point evidence required = Inr (credit, unknown)"
    using run p by auto
  obtain sn where sn: "settlement_snapshot_of b ?u = Inr sn" using run by auto
  obtain spendable where s: "available_to_spend b ?u (PyInt 0) = Inr spendable" using run by auto
  obtain total where t: "exact_add spendable credit = Inr total" using run p c s by auto
  have cap: "cap = \<lparr>ca_scope = scope, ca_currency = ?u, ca_as_of = point, ca_settled_cash = sn_settled_cash sn,
         ca_receivable = sn_receivable sn, ca_payable = sn_payable sn, ca_available_cash = spendable,
         ca_buying_power = credit, ca_available_capital = total, ca_overdue = sort overdue,
         ca_blocks_new_risk = (overdue \<noteq> [] \<or> unknown)\<rparr>"
    using run ne p o1 c sn s t by (simp add: st_text_def)
  have "upper (strip ?u) = ?u" by (simp add: strip_upper)
  then have cash: "dval spendable = max 0 (dval (cash_of b ?u) - payable_total b ?u)"
    using available_to_spend_Inr(2) [OF s] by simp
  have overdue: "overdue = map ob_id (filter (late_in b ?u point) (dict_values (obligations b)))"
    using overdue_fold [OF o1] by simp
  show thesis
  proof (rule that [of point credit unknown])
    show "as_of = Moment point" using p by (auto simp: st_utc_def split: moment.splits)
    show "ca_blocks_new_risk cap \<longleftrightarrow> ca_overdue cap \<noteq> [] \<or> unknown"
      using length_sort [of "\<lambda>x. x" overdue] by (auto simp: cap simp del: length_sort)
    show "dval (ca_available_capital cap) = dval (ca_available_cash cap) + dval credit"
      using exact.add_val [OF t] by (simp add: cap)
  qed (use ne c cash overdue in \<open>simp_all add: cap\<close>)
qed

lemma credit_of_Inr:
  assumes "credit_of scope u point evidence required = Inr (credit, unknown)"
  shows "case evidence of
      Some bp \<Rightarrow> bp_scope bp = scope \<and> bp_currency bp = u
        \<and> (if bp_observed_at bp \<le> point \<and> point < bp_valid_until bp
           then credit = bp_additional_credit bp \<and> \<not> unknown else dval credit = 0 \<and> unknown = required)
    | None \<Rightarrow> dval credit = 0 \<and> unknown = required"
  using assms by (auto simp: credit_of_def split: option.splits if_splits)

section \<open>Properties\<close>

text \<open>(C30) The settlement book of a journal carries the journal's cash.  When a book is rebuilt from a journal,
  obligations and evidence, its economic cash in every currency is exactly the cash balance the journal
  reports, and its settled cash is that balance less the open receivables plus the open payables.  The
  obligations are as their constructor makes them and the journal's cash legs use canonical currency codes.
\<close>

theorem journal_cash_is_settled_or_owed:
  assumes "from_economic_book book items evidence = Inr b" and "list_all proper items" and "canonical_cash book"
    and "upper (strip currency) = strip currency" and "cash book currency = Inr x"
    and "settlement_snapshot_of b currency = Inr sn" and "economic_cash sn = Inr e"
  shows "dval e = dval x \<and> dval (sn_settled_cash sn) = dval x - dval (sn_receivable sn) + dval (sn_payable sn)"
proof -
  note sn = snapshot_Inr [OF assms(6), unfolded assms(4)]
  have "strip currency \<noteq> []" using assms(5) by (simp add: cash_def)
  then have "dval x = posted (''CASH:'' @ strip currency) (strip currency) (book_postings book)"
    using assms(5) account_strip(1) [of "strip currency"] by (auto simp: cash_def dest!: balance_Inr)
  then show ?thesis
    using from_economic_book_cash [OF assms(1-3), of "strip currency"] economic_cash_Inr [OF assms(7)] sn pending_split
    by simp
qed

text \<open>Capital is settled cash and live credit.  A projected availability is the settled cash less open
  payables, never below zero, plus credit; credit is counted only from evidence of the same scope and
  currency that was observed by the projection instant and has not expired; the overdue identities are
  exactly those of unsettled obligations whose date has passed; and new risk is blocked exactly when one is
  overdue or required credit evidence is not live.
\<close>

theorem capital_is_settled_cash_and_live_credit:
  assumes "available_capital b scope currency as_of evidence required = Inr cap"
  shows "dval (ca_available_cash cap) = max 0 (dval (cash_of b (ca_currency cap)) - payable_total b (ca_currency cap))
    \<and> dval (ca_available_capital cap) = dval (ca_available_cash cap) + dval (ca_buying_power cap)
    \<and> (dval (ca_buying_power cap) \<noteq> 0 \<longrightarrow> (\<exists>bp. evidence = Some bp \<and> bp_scope bp = scope
        \<and> bp_currency bp = ca_currency cap \<and> ca_buying_power cap = bp_additional_credit bp
        \<and> bp_observed_at bp \<le> ca_as_of cap \<and> ca_as_of cap < bp_valid_until bp))
    \<and> set (ca_overdue cap) = ob_id ` {ob \<in> set (dict_values (obligations b)). ob_currency ob = ca_currency cap
        \<and> ob_id ob \<notin> set (settled_ids b) \<and> ob_settlement_date ob < day_of (ca_as_of cap)}
    \<and> (ca_blocks_new_risk cap \<longleftrightarrow> ca_overdue cap \<noteq> [] \<or> required \<and> (case evidence of None \<Rightarrow> True
        | Some bp \<Rightarrow> \<not> (bp_observed_at bp \<le> ca_as_of cap \<and> ca_as_of cap < bp_valid_until bp)))"
  using assms
proof (rule available_capital_Inr)
  fix point credit unknown
  assume *: "ca_as_of cap = point" "credit_of scope (ca_currency cap) point evidence required = Inr (credit, unknown)"
    "ca_overdue cap = sort (map ob_id (filter (late_in b (ca_currency cap) point) (dict_values (obligations b))))"
    "ca_blocks_new_risk cap \<longleftrightarrow> ca_overdue cap \<noteq> [] \<or> unknown"
    "dval (ca_available_cash cap) = max 0 (dval (cash_of b (ca_currency cap)) - payable_total b (ca_currency cap))"
    "ca_buying_power cap = credit"
    "dval (ca_available_capital cap) = dval (ca_available_cash cap) + dval credit"
  have "set (ca_overdue cap) = ob_id ` {ob \<in> set (dict_values (obligations b)). late_in b (ca_currency cap) point ob}"
    by (simp only: *(3) set_sort set_map set_filter)
  with * credit_of_Inr [OF *(2)] show ?thesis
    by (intro conjI) (auto split: option.splits if_splits)
qed

section \<open>Instances\<close>

definition usd_rule :: rule_binding where
  "usd_rule = \<lparr>rb_rule_id = ''T2'', rb_rule_version = ''1'', rb_scope = \<lparr>sc_provider_id = ''P'', sc_account_id = ''a'',
     sc_environment = ''PAPER'', sc_provider_environment = ''PAPER''\<rparr>, rb_instrument_version = ''ACME'',
     rb_currency = ''USD'', rb_effective_from = 0, rb_effective_to = None, rb_evidence_refs = [''doc'']\<rparr>"

definition fill_obligation :: obligation where
  "fill_obligation = \<lparr>ob_id = ''ob-1'', ob_cause = ''c2'', ob_currency = ''USD'', ob_amount = Decimal True 21 0,
     ob_trade_date = 10, ob_settlement_date = 12, ob_component = ''PRINCIPAL'', ob_source = Some ''t2'',
     ob_rule = Some usd_rule\<rparr>"

lemma fill_obligation_made: "cash_settlement_obligation_from_transaction fill_tx ''ob-1'' ''usd'' 10 12 ''principal'' ''ACME'' usd_rule
    = Inr fill_obligation"
  by code_simp

lemma fill_obligation_proper: "proper fill_obligation"
  using fill_obligation_made unfolding cash_settlement_obligation_from_transaction_def Let_def
  by (auto split: if_splits dest!: make_obligation_proper)

definition settlement_of_investment :: settlement_book where
  "settlement_of_investment = \<lparr>settled_cash = [(''USD'', Decimal False 100 0)], obligations = [(''ob-1'', fill_obligation)],
     by_cause_component = [((''c2'', ''PRINCIPAL''), fill_obligation)], settled_ids = [], settlement_evidences = []\<rparr>"

lemma investment_settles: "from_economic_book invested_book [fill_obligation] [] = Inr settlement_of_investment"
  by code_simp

theorem journal_cash_is_settled_or_owed_witness:
  "\<exists>sn e x. settlement_snapshot_of settlement_of_investment ''USD'' = Inr sn \<and> economic_cash sn = Inr e
    \<and> cash invested_book ''USD'' = Inr x \<and> dval x = 79 \<and> dval e = dval x"
proof -
  define sn where "sn = \<lparr>sn_currency = ''USD'', sn_settled_cash = Decimal False 100 0,
    sn_receivable = Decimal False 0 0, sn_payable = Decimal False 21 0\<rparr>"
  have sn: "settlement_snapshot_of settlement_of_investment ''USD'' = Inr sn" unfolding sn_def by code_simp
  have e: "economic_cash sn = Inr (Decimal False 79 0)" unfolding sn_def by code_simp
  have x: "cash invested_book ''USD'' = Inr (Decimal False 79 0)" "dval (Decimal False 79 0) = 79" by code_simp+
  have "canonical_cash invested_book" "upper (strip ''USD'') = strip ''USD''"
    by code_simp+
  from journal_cash_is_settled_or_owed [OF investment_settles _ this x(1) sn e] fill_obligation_proper x sn e
  show ?thesis by (intro exI [of _ sn] exI [of _ "Decimal False 79 0"] conjI) simp_all
qed

lemma investment_capital: "\<exists>cap. available_capital settlement_of_investment (rb_scope usd_rule) ''usd''
    (Moment 1036800000000) None False = Inr cap \<and> ca_currency cap = ''USD'' \<and> ca_blocks_new_risk cap = False
    \<and> capital_resources cap = [(''CASH:USD'', PyDecimal (Decimal False 79 0)), (''MARGIN_CREDIT:USD'', PyDecimal (Decimal False 0 0))]"
proof -
  define cap where "cap = \<lparr>ca_scope = rb_scope usd_rule, ca_currency = ''USD'', ca_as_of = 1036800000000,
    ca_settled_cash = Decimal False 100 0, ca_receivable = Decimal False 0 0, ca_payable = Decimal False 21 0,
    ca_available_cash = Decimal False 79 0, ca_buying_power = Decimal False 0 0,
    ca_available_capital = Decimal False 79 0, ca_overdue = [], ca_blocks_new_risk = False\<rparr>"
  have "available_capital settlement_of_investment (rb_scope usd_rule) ''usd'' (Moment 1036800000000) None False = Inr cap"
    unfolding cap_def by code_simp
  moreover have "capital_resources cap = [(''CASH:USD'', PyDecimal (Decimal False 79 0)),
      (''MARGIN_CREDIT:USD'', PyDecimal (Decimal False 0 0))]"
    unfolding cap_def by code_simp
  ultimately show ?thesis by (intro exI [of _ cap]) (simp add: cap_def)
qed

theorem capital_is_settled_cash_and_live_credit_witness:
  "\<exists>cap. available_capital settlement_of_investment (rb_scope usd_rule) ''usd'' (Moment 1036800000000) None False = Inr cap
    \<and> dval (ca_available_cash cap) = 79 \<and> ca_overdue cap = []"
proof -
  obtain cap where cap: "available_capital settlement_of_investment (rb_scope usd_rule) ''usd''
    (Moment 1036800000000) None False = Inr cap" "ca_currency cap = ''USD''" "ca_blocks_new_risk cap = False"
    using investment_capital by blast
  have "dval (cash_of settlement_of_investment ''USD'') = 100" "payable_total settlement_of_investment ''USD'' = 21"
    by code_simp+
  with capital_is_settled_cash_and_live_credit [OF cap(1)] cap show ?thesis by (intro exI [of _ cap]) simp
qed

end
