(* ===== verification/Fx_Valuation.thy ===== *)
theory Fx_Valuation
  imports Exact_Decimal_Text Instants "HOL-Library.List_Lexorder" "HOL-Library.Char_ord" "HOL-Library.While_Combinator"
begin

text \<open>
  \<open>mvp/autotrade_mvp/fx_valuation.py\<close>: conservative valuation of balances in a reporting currency from one
  direct or inverse quote.  Instants and ages are microseconds.  SHA-256 is a parameter of the
  functions that name a rounding policy by its digest; a sealed quote or policy is its fields.
\<close>

section \<open>Inputs\<close>

definition fx_decimal :: "pynum \<Rightarrow> decimal result" where
  "fx_decimal v =
     (case v of
        PyBool _ \<Rightarrow> Inl FxValuationError | PyFloat \<Rightarrow> Inl FxValuationError | PyOther \<Rightarrow> Inl FxValuationError
      | _ \<Rightarrow> translate ExactDecimalError FxValuationError (parse_bounded_exact_decimal v True))"

definition fx_text :: "string \<Rightarrow> string result" where
  "fx_text v = (let t = strip v in if t = [] then Inl FxValuationError else Inr t)"

text \<open>\<open>[A-Z0-9]{2,12}\<close> on the upper-cased text.\<close>

definition is_code_char :: "char \<Rightarrow> bool" where
  "is_code_char c \<longleftrightarrow> (CHR ''A'' \<le> c \<and> c \<le> CHR ''Z'') \<or> (CHR ''0'' \<le> c \<and> c \<le> CHR ''9'')"

definition fx_currency :: "string \<Rightarrow> string result" where
  "fx_currency v = rbind (fx_text v) (\<lambda>t. let c = upper t in
     if list_all is_code_char c \<and> 2 \<le> length c \<and> length c \<le> 12 then Inr c else Inl FxValuationError)"

definition fx_instant :: "moment \<Rightarrow> int result" where
  "fx_instant v = (case v of Not_Aware \<Rightarrow> Inl FxValuationError | Beyond_Calendar \<Rightarrow> Inl OverflowError
     | Moment us \<Rightarrow> Inr us)"

definition fx_digest :: "string \<Rightarrow> string result" where
  "fx_digest v = rbind (fx_text v) (\<lambda>t.
     if take 7 t = ''sha256:'' \<and> length t = 71 \<and> list_all is_hex_lower (drop 7 t) then Inr t
     else Inl FxValuationError)"

definition age_limit :: "int \<Rightarrow> int result" where
  "age_limit v = (if v < 0 then Inl FxValuationError else Inr v)"

section \<open>Exact rates\<close>

definition fx_fraction :: "decimal \<Rightarrow> rat result" where
  "fx_fraction v = translate ExactDecimalError FxValuationError (as_fraction v)"

definition fx_bounded :: "rat \<Rightarrow> rat result" where
  "fx_bounded q = translate ExactDecimalError FxValuationError (bounded_fraction q)"

definition fx_terminating :: "rat \<Rightarrow> decimal result" where
  "fx_terminating q = translate ExactDecimalError FxValuationError (terminating_decimal q)"

definition fx_round :: "rat \<Rightarrow> decimal \<Rightarrow> decimal result" where
  "fx_round q quantum = translate ExactDecimalError FxValuationError (round_fraction_to_quantum q quantum FLOOR)"

text \<open>One of the two loops that divide a prime out of a denominator.\<close>

fun divide_out :: "nat \<Rightarrow> nat \<Rightarrow> nat" where
  "divide_out p d = (if 1 < p \<and> 0 < d \<and> d mod p = 0 then divide_out p (d div p) else d)"

declare divide_out.simps [simp del]

definition has_terminating_decimal :: "rat \<Rightarrow> bool" where
  "has_terminating_decimal q = (divide_out 5 (divide_out 2 (nat (snd (quotient_of q)))) = 1)"

text \<open>The same function with its two loops as loops: \<open>None\<close> would be a loop that does not end.\<close>

definition terminating_decimal_loops :: "rat \<Rightarrow> bool option" where
  "terminating_decimal_loops q =
     Option.bind (while_option (\<lambda>d. d mod 2 = 0) (\<lambda>d. d div 2) (nat (snd (quotient_of q)))) (\<lambda>d.
     Option.bind (while_option (\<lambda>d. d mod 5 = 0) (\<lambda>d. d div 5) d) (\<lambda>d. Some (d = 1)))"

definition optional_terminating_decimal :: "rat \<Rightarrow> decimal option" where
  "optional_terminating_decimal q =
     (if \<not> has_terminating_decimal q then None
      else case terminating_decimal q of Inl _ \<Rightarrow> None | Inr d \<Rightarrow> Some d)"

section \<open>Rounding policies and quotes\<close>

record fx_policy =
  po_reporting :: string
  po_quantum :: decimal
  po_version :: string

definition make_fx_policy :: "string \<Rightarrow> pynum \<Rightarrow> string \<Rightarrow> fx_policy result" where
  "make_fx_policy reporting quantum version =
     rbind (fx_currency reporting) (\<lambda>c. rbind (fx_decimal quantum) (\<lambda>q.
     if dval q \<le> 0 then Inl FxValuationError
     else rbind (fx_text version) (\<lambda>v. Inr \<lparr>po_reporting = c, po_quantum = q, po_version = v\<rparr>)))"

definition policy_id :: "(string \<Rightarrow> string) \<Rightarrow> fx_policy \<Rightarrow> string result" where
  "policy_id sha256 po =
     rbind (translate ExactDecimalError FxValuationError (canonical_decimal_text (po_quantum po))) (\<lambda>q.
       Inr (''fx-rounding:sha256:'' @ sha256 (''FX_CONSERVATIVE_FINAL_AMOUNT|'' @ po_version po @ ''|''
         @ po_reporting po @ ''|'' @ q @ ''|FLOOR'')))"

definition validated_rounding_policy :: "fx_policy option \<Rightarrow> string \<Rightarrow> fx_policy option result" where
  "validated_rounding_policy value reporting =
     (case value of None \<Rightarrow> Inr None
      | Some po \<Rightarrow> rbind (make_fx_policy (po_reporting po) (PyDecimal (po_quantum po)) (po_version po)) (\<lambda>p.
          if po_reporting p \<noteq> reporting then Inl FxValuationError else Inr (Some p)))"

record fx_quote =
  qu_base :: string
  qu_quote :: string
  qu_bid :: decimal
  qu_ask :: decimal
  qu_available_at :: int
  qu_source_id :: string
  qu_evidence :: string

definition make_fx_quote :: "string \<Rightarrow> string \<Rightarrow> pynum \<Rightarrow> pynum \<Rightarrow> moment \<Rightarrow> string \<Rightarrow> string \<Rightarrow> fx_quote result" where
  "make_fx_quote base quote bid ask available source evidence =
     rbind (fx_currency base) (\<lambda>b. rbind (fx_currency quote) (\<lambda>q.
     if b = q then Inl FxValuationError
     else rbind (fx_decimal bid) (\<lambda>bid_value. rbind (fx_decimal ask) (\<lambda>ask_value.
     if dval bid_value \<le> 0 \<or> dval ask_value \<le> 0 then Inl FxValuationError
     else if dval ask_value < dval bid_value then Inl FxValuationError
     else rbind (fx_instant available) (\<lambda>t. rbind (fx_text source) (\<lambda>s. rbind (fx_digest evidence) (\<lambda>e.
       Inr \<lparr>qu_base = b, qu_quote = q, qu_bid = bid_value, qu_ask = ask_value, qu_available_at = t,
         qu_source_id = s, qu_evidence = e\<rparr>)))))))"

definition validated_quote :: "fx_quote \<Rightarrow> fx_quote result" where
  "validated_quote q = make_fx_quote (qu_base q) (qu_quote q) (PyDecimal (qu_bid q)) (PyDecimal (qu_ask q))
     (Moment (qu_available_at q)) (qu_source_id q) (qu_evidence q)"

section \<open>Valuation of one balance\<close>

record fx_valuation =
  va_source_amount :: decimal
  va_source_currency :: string
  va_reporting_currency :: string
  va_converted_amount :: "decimal option"
  va_rate_used :: "decimal option"
  va_side :: string
  va_status :: string
  va_available_at :: "int option"
  va_source_id :: "string option"
  va_evidence :: "string option"
  va_haircut :: decimal
  va_reason :: string
  va_rate_numerator :: "int option"
  va_rate_denominator :: "int option"
  va_rounding_policy_id :: "string option"
  va_rounding_quantum :: "decimal option"

definition allocatable :: "fx_valuation \<Rightarrow> bool" where
  "allocatable v \<longleftrightarrow> va_status v = ''CERTAIN''"

definition unavailable :: "decimal \<Rightarrow> string \<Rightarrow> string \<Rightarrow> string \<Rightarrow> string \<Rightarrow> fx_quote option \<Rightarrow> decimal \<Rightarrow> string
    \<Rightarrow> rat option \<Rightarrow> fx_valuation" where
  "unavailable amount source reporting status side quote haircut reason rate =
     \<lparr>va_source_amount = amount, va_source_currency = source, va_reporting_currency = reporting,
      va_converted_amount = None, va_rate_used = None, va_side = side, va_status = status,
      va_available_at = map_option qu_available_at quote, va_source_id = map_option qu_source_id quote,
      va_evidence = map_option qu_evidence quote, va_haircut = haircut, va_reason = reason,
      va_rate_numerator = map_option (fst \<circ> quotient_of) rate,
      va_rate_denominator = map_option (snd \<circ> quotient_of) rate,
      va_rounding_policy_id = None, va_rounding_quantum = None\<rparr>"

text \<open>The quoted side, the exact rate and its decimal form, when it has one.\<close>

definition select_rate :: "fx_quote \<Rightarrow> string \<Rightarrow> string \<Rightarrow> decimal \<Rightarrow> (string \<times> rat \<times> decimal option) result" where
  "select_rate quote source reporting amount =
     (if qu_base quote = source \<and> qu_quote quote = reporting then
        let (quoted_rate, side) = (if 0 < dval amount then (qu_bid quote, ''BID'')
          else (qu_ask quote, ''ASK_FOR_LIABILITY'')) in
        rbind (fx_fraction quoted_rate) (\<lambda>r. Inr (side, r, Some quoted_rate))
      else if qu_quote quote = source \<and> qu_base quote = reporting then
        let (quoted_rate, side) = (if 0 < dval amount then (qu_ask quote, ''INVERSE_ASK'')
          else (qu_bid quote, ''INVERSE_BID_FOR_LIABILITY'')) in
        rbind (fx_fraction quoted_rate) (\<lambda>f. rbind (fx_bounded (1 / f)) (\<lambda>r.
          Inr (side, r, optional_terminating_decimal r)))
      else Inl FxValuationError)"

definition apply_haircut :: "rat \<Rightarrow> decimal \<Rightarrow> rat result" where
  "apply_haircut converted haircut =
     rbind (fx_fraction haircut) (\<lambda>h.
       if 0 < converted then rbind (fx_bounded (1 - h)) (\<lambda>factor. fx_bounded (converted * factor))
       else if converted < 0 then rbind (fx_bounded (1 + h)) (\<lambda>factor. fx_bounded (converted * factor))
       else Inr converted)"

definition convert_amount :: "(string \<Rightarrow> string) \<Rightarrow> decimal \<Rightarrow> string \<Rightarrow> string \<Rightarrow> fx_quote \<Rightarrow> decimal
    \<Rightarrow> fx_policy option \<Rightarrow> fx_valuation result" where
  "convert_amount sha256 amount source reporting quote haircut policy =
     rbind (select_rate quote source reporting amount) (\<lambda>(side, rate, rate_used).
     rbind (fx_fraction amount) (\<lambda>a. rbind (fx_bounded (a * rate)) (\<lambda>gross.
     rbind (apply_haircut gross haircut) (\<lambda>converted.
     let certain = (\<lambda>d pid quantum. \<lparr>va_source_amount = amount, va_source_currency = source,
        va_reporting_currency = reporting, va_converted_amount = Some d, va_rate_used = rate_used, va_side = side,
        va_status = ''CERTAIN'', va_available_at = Some (qu_available_at quote),
        va_source_id = Some (qu_source_id quote), va_evidence = Some (qu_evidence quote), va_haircut = haircut,
        va_reason = ''fresh evidenced conservative FX valuation'',
        va_rate_numerator = Some (fst (quotient_of rate)), va_rate_denominator = Some (snd (quotient_of rate)),
        va_rounding_policy_id = pid, va_rounding_quantum = quantum\<rparr>) in
     if has_terminating_decimal converted then rbind (fx_terminating converted) (\<lambda>d. Inr (certain d None None))
     else case policy of
       None \<Rightarrow> Inr (unavailable amount source reporting ''ROUNDING_POLICY_REQUIRED'' side (Some quote) haircut
         ''exact FX result has a non-terminating decimal expansion; an explicit reporting-currency rounding policy is required''
         (Some rate))
     | Some po \<Rightarrow> rbind (fx_round converted (po_quantum po)) (\<lambda>d. rbind (policy_id sha256 po) (\<lambda>pid.
         Inr (certain d (Some pid) (Some (po_quantum po)))))))))"

definition value_checked :: "(string \<Rightarrow> string) \<Rightarrow> decimal \<Rightarrow> string \<Rightarrow> string \<Rightarrow> fx_quote option \<Rightarrow> int \<Rightarrow> int
    \<Rightarrow> decimal \<Rightarrow> fx_policy option \<Rightarrow> fx_valuation result" where
  "value_checked sha256 amount source reporting quote point limit haircut policy =
     (if source = reporting then
        Inr \<lparr>va_source_amount = amount, va_source_currency = source, va_reporting_currency = reporting,
          va_converted_amount = Some amount, va_rate_used = Some (Decimal False 1 0), va_side = ''IDENTITY'',
          va_status = ''CERTAIN'', va_available_at = Some point, va_source_id = Some ''IDENTITY'', va_evidence = None,
          va_haircut = dzero, va_reason = ''no FX conversion required'', va_rate_numerator = Some 1,
          va_rate_denominator = Some 1, va_rounding_policy_id = None, va_rounding_quantum = None\<rparr>
      else if dval amount = 0 then
        Inr \<lparr>va_source_amount = amount, va_source_currency = source, va_reporting_currency = reporting,
          va_converted_amount = Some dzero, va_rate_used = None, va_side = ''ZERO_BALANCE'', va_status = ''CERTAIN'',
          va_available_at = None, va_source_id = None, va_evidence = None, va_haircut = dzero,
          va_reason = ''zero foreign balance requires no FX rate'', va_rate_numerator = None,
          va_rate_denominator = None, va_rounding_policy_id = None, va_rounding_quantum = None\<rparr>
      else case quote of
        None \<Rightarrow> Inr (unavailable amount source reporting ''MISSING'' ''UNAVAILABLE'' None haircut
          ''direct or inverse one-hop FX quote is missing'' None)
      | Some raw \<Rightarrow> rbind (validated_quote raw) (\<lambda>q.
          if point < qu_available_at q then Inr (unavailable amount source reporting ''FUTURE_EVIDENCE''
            ''UNAVAILABLE'' (Some q) haircut ''FX quote was not available at valuation time'' None)
          else if limit < point - qu_available_at q then Inr (unavailable amount source reporting ''STALE''
            ''UNAVAILABLE'' (Some q) haircut ''FX quote exceeds maximum permitted age'' None)
          else convert_amount sha256 amount source reporting q haircut policy))"

definition value_amount :: "(string \<Rightarrow> string) \<Rightarrow> pynum \<Rightarrow> string \<Rightarrow> string \<Rightarrow> fx_quote option \<Rightarrow> moment \<Rightarrow> int
    \<Rightarrow> pynum \<Rightarrow> fx_policy option \<Rightarrow> fx_valuation result" where
  "value_amount sha256 amount source_currency reporting_currency quote as_of max_age haircut policy =
     rbind (fx_decimal amount) (\<lambda>a. rbind (fx_currency source_currency) (\<lambda>s.
     rbind (fx_currency reporting_currency) (\<lambda>r. rbind (fx_instant as_of) (\<lambda>point.
     rbind (age_limit max_age) (\<lambda>limit. rbind (fx_decimal haircut) (\<lambda>h.
     if dval h < 0 \<or> 1 \<le> dval h then Inl FxValuationError
     else rbind (validated_rounding_policy policy r) (\<lambda>po. value_checked sha256 a s r quote point limit h po)))))))"

section \<open>Valuation of a portfolio\<close>

record portfolio_valuation =
  pv_reporting_currency :: string
  pv_total :: "decimal option"
  pv_status :: string
  pv_components :: "fx_valuation list"
  pv_reasons :: "string list"

definition quote_step :: "(string, fx_quote) dict \<Rightarrow> string \<times> fx_quote \<Rightarrow> (string, fx_quote) dict result" where
  "quote_step acc item = (case item of (raw, quote) \<Rightarrow>
     rbind (fx_currency raw) (\<lambda>c. if dict_get acc c \<noteq> None then Inl FxValuationError
       else rbind (validated_quote quote) (\<lambda>q. Inr (dict_set acc c q))))"

definition balance_step :: "(string \<Rightarrow> string) \<Rightarrow> (string, fx_quote) dict \<Rightarrow> string \<Rightarrow> moment \<Rightarrow> int \<Rightarrow> decimal
    \<Rightarrow> fx_policy option \<Rightarrow> string list \<times> fx_valuation list \<Rightarrow> string \<times> pynum
    \<Rightarrow> (string list \<times> fx_valuation list) result" where
  "balance_step sha256 quotes reporting point limit haircut policy st item =
     (case st of (seen, components) \<Rightarrow> case item of (raw, balance) \<Rightarrow>
      rbind (fx_currency raw) (\<lambda>c. if c \<in> set seen then Inl FxValuationError
       else rbind (fx_decimal balance) (\<lambda>amount.
         rbind (value_amount sha256 (PyDecimal amount) c reporting
             (if c = reporting then None else dict_get quotes c) point limit (PyDecimal haircut) policy) (\<lambda>v.
           Inr (c # seen, components @ [v])))))"

definition portfolio_of :: "string \<Rightarrow> fx_valuation list \<Rightarrow> portfolio_valuation result" where
  "portfolio_of reporting components =
     (let uncertain = map (\<lambda>v. va_source_currency v @ '': '' @ va_status v @ '' - '' @ va_reason v)
           (filter (\<lambda>v. \<not> allocatable v) components) in
     if uncertain \<noteq> [] then Inr \<lparr>pv_reporting_currency = reporting, pv_total = None, pv_status = ''UNCERTAIN'',
         pv_components = components, pv_reasons = uncertain\<rparr>
     else rbind (translate ExactDecimalError FxValuationError
         (exact_sum (concat (map (\<lambda>v. case va_converted_amount v of None \<Rightarrow> [] | Some d \<Rightarrow> [d]) components)))) (\<lambda>total.
       Inr \<lparr>pv_reporting_currency = reporting, pv_total = Some total, pv_status = ''CERTAIN'',
         pv_components = components, pv_reasons = []\<rparr>))"

definition value_cash_balances :: "(string \<Rightarrow> string) \<Rightarrow> (string \<times> pynum) list \<Rightarrow> string \<Rightarrow> (string \<times> fx_quote) list
    \<Rightarrow> moment \<Rightarrow> int \<Rightarrow> pynum \<Rightarrow> fx_policy option \<Rightarrow> portfolio_valuation result" where
  "value_cash_balances sha256 balances reporting_currency quotes as_of max_age haircut policy =
     rbind (rfold quote_step [] quotes) (\<lambda>normalized. rbind (fx_currency reporting_currency) (\<lambda>reporting.
     rbind (fx_instant as_of) (\<lambda>point. rbind (age_limit max_age) (\<lambda>limit. rbind (fx_decimal haircut) (\<lambda>h.
     if dval h < 0 \<or> 1 \<le> dval h then Inl FxValuationError
     else rbind (validated_rounding_policy policy reporting) (\<lambda>po.
     rbind (rfold (balance_step sha256 normalized reporting (Moment point) limit h po) ([], [])
         (sort_key fst balances)) (\<lambda>(seen, components).
       portfolio_of reporting components)))))))"

definition portfolio_allocatable :: "portfolio_valuation \<Rightarrow> bool" where
  "portfolio_allocatable p \<longleftrightarrow> pv_status p = ''CERTAIN'' \<and> pv_total p \<noteq> None"

section \<open>Terminating expansions\<close>

lemma divide_out_spec:
  assumes "1 < p" and "0 < d"
  shows "\<exists>k. d = p ^ k * divide_out p d \<and> \<not> p dvd divide_out p d"
  using assms
proof (induction p d rule: divide_out.induct)
  case (1 p d)
  show ?case
  proof (cases "p dvd d")
    case True
    then have step: "divide_out p d = divide_out p (d div p)" and d: "d = p * (d div p)"
      using 1(2,3) by (auto simp: divide_out.simps [of p d])
    have "0 < d div p" using True 1(2,3) by (simp add: dvd_imp_le div_greater_zero_iff)
    then obtain k where "d div p = p ^ k * divide_out p (d div p)" "\<not> p dvd divide_out p (d div p)"
      using 1(1) 1(2,3) True by auto
    with step d show ?thesis by (intro exI [of _ "Suc k"]) (metis mult.assoc power_Suc)
  next
    case False
    then have "divide_out p d = d" by (simp add: divide_out.simps [of p d] mod_eq_0_iff_dvd)
    with False show ?thesis by (intro exI [of _ 0]) simp
  qed
qed

lemma divide_out_ten:
  assumes "0 < d"
  shows "divide_out 5 (divide_out 2 d) = 1 \<longleftrightarrow> (\<exists>k. d dvd 10 ^ k)"
proof -
  obtain a where a: "d = 2 ^ a * divide_out 2 d" "\<not> 2 dvd divide_out 2 d"
    using divide_out_spec [of 2 d] assms by auto
  let ?m = "divide_out 2 d"
  have "0 < ?m" using a(1) assms by (metis gr0I mult_0_right)
  then obtain b where b: "?m = 5 ^ b * divide_out 5 ?m" "\<not> 5 dvd divide_out 5 ?m"
    using divide_out_spec [of 5 ?m] by auto
  let ?r = "divide_out 5 ?m"
  have d: "d = 2 ^ a * 5 ^ b * ?r" using a(1) b(1) by (metis mult.assoc)
  show ?thesis
  proof
    assume "?r = 1"
    then have "d = 2 ^ a * 5 ^ b" using d by simp
    moreover have "(2 :: nat) ^ a * 5 ^ b dvd 2 ^ (a + b) * 5 ^ (a + b)"
      by (intro mult_dvd_mono le_imp_power_dvd) simp_all
    ultimately have "d dvd (2 * 5) ^ (a + b)" by (simp only: power_mult_distrib)
    then show "\<exists>k. d dvd 10 ^ k" by auto
  next
    assume "\<exists>k. d dvd 10 ^ k"
    then obtain k where "d dvd 10 ^ k" by auto
    then have "?r dvd 10 ^ k" using d by (metis dvd_mult_right)
    then have r: "int ?r dvd 10 ^ k" by (metis of_nat_dvd_iff of_nat_numeral of_nat_power)
    have "\<not> 2 dvd ?r" using a(2) b(1) by (metis dvd_mult)
    then have "\<not> 2 dvd int ?r" "\<not> 5 dvd int ?r" using b(2) by presburger+
    then have "coprime (int ?r) (10 ^ k)" by (rule coprime_two_five)
    with r have "is_unit (int ?r)" by (meson coprime_common_divisor dvd_refl)
    then show "?r = 1" by simp
  qed
qed

lemma has_terminating_decimal_iff: "has_terminating_decimal q \<longleftrightarrow> (\<exists>k. snd (quotient_of q) dvd 10 ^ k)"
proof -
  have pos: "0 < snd (quotient_of q)" by (rule quotient_of_denom_pos')
  have "nat (snd (quotient_of q)) dvd 10 ^ k \<longleftrightarrow> snd (quotient_of q) dvd 10 ^ k" for k
    using pos by (metis int_nat_eq less_imp_le of_nat_dvd_iff of_nat_numeral of_nat_power)
  then show ?thesis
    using divide_out_ten [of "nat (snd (quotient_of q))"] pos by (simp add: has_terminating_decimal_def)
qed

lemma divide_out_pos: "0 < d \<Longrightarrow> 1 < p \<Longrightarrow> 0 < divide_out p d"
  using divide_out_spec [of p d] by (metis dvd_0_right gr0I)

lemma divide_out_loop:
  "1 < p \<Longrightarrow> 0 < d \<Longrightarrow> while_option (\<lambda>d. d mod p = 0) (\<lambda>d. d div p) d = Some (divide_out p d)"
proof (induction p d rule: divide_out.induct)
  case (1 p d)
  show ?case
  proof (cases "d mod p = 0")
    case True
    then have "0 < d div p" using 1(2,3) by (auto simp: div_greater_zero_iff dest: dvd_imp_le)
    with True 1 show ?thesis by (subst while_option_unfold) (simp add: divide_out.simps [of p d])
  next
    case False
    then show ?thesis by (subst while_option_unfold) (simp add: divide_out.simps [of p d])
  qed
qed

text \<open>(C35) The expansion test ends and is exact.  The two division loops of \<open>_has_terminating_decimal\<close> end on every
  rational, and the answer is whether the denominator divides a power of ten, that is whether the value
  has a finite decimal expansion.
\<close>

theorem terminating_decimal_loops_end:
  "terminating_decimal_loops q = Some (\<exists>k. snd (quotient_of q) dvd 10 ^ k)
   \<and> (has_terminating_decimal q \<longleftrightarrow> (\<exists>k. snd (quotient_of q) dvd 10 ^ k))"
proof -
  have "0 < nat (snd (quotient_of q))" using quotient_of_denom_pos' [of q] by simp
  then have "terminating_decimal_loops q = Some (has_terminating_decimal q)"
    by (simp add: terminating_decimal_loops_def has_terminating_decimal_def divide_out_loop divide_out_pos)
  then show ?thesis by (simp add: has_terminating_decimal_iff)
qed

section \<open>Inputs that returned\<close>

lemma fx_decimal_Inr: "fx_decimal v = Inr d \<Longrightarrow> in_envelope d \<and> dval d = pyval v"
  by (cases v) (auto simp: fx_decimal_def dest: parse_Inr)

lemma fx_ops_Inr [simp, result_simps]:
  "fx_fraction d = Inr q \<longleftrightarrow> in_envelope d \<and> q = dval d"
  "fx_text v = Inr t \<longleftrightarrow> strip v = t \<and> t \<noteq> []"
  by (auto simp: fx_fraction_def fx_text_def Let_def)

lemma fx_bounded_Inr: "fx_bounded q = Inr r \<Longrightarrow> r = q"
  by (auto simp: fx_bounded_def bounded_fraction_def)

lemma fx_terminating_Inr: "fx_terminating q = Inr d \<Longrightarrow> dval d = q"
  by (auto simp: fx_terminating_def dest: terminating_decimal_sound)

lemma fx_round_Inr:
  assumes "fx_round q quantum = Inr d"
  shows "0 < dval quantum" "dval d \<le> q" "q < dval d + dval quantum"
proof -
  from assms have r: "round_fraction_to_quantum q quantum FLOOR = Inr d" by (simp add: fx_round_def)
  note v = round_fraction_Inr [OF r, unfolded round_units_floor]
  let ?u = "q / dval quantum"
  show pos: "0 < dval quantum" by (rule v(1))
  have fl: "of_int \<lfloor>?u\<rfloor> \<le> ?u" "?u \<le> of_int \<lfloor>?u\<rfloor> + 1" "?u < of_int \<lfloor>?u\<rfloor> + 1"
    using floor_correct [of ?u] by auto
  show "dval d \<le> q" "q < dval d + dval quantum"
    using mult_right_mono [OF fl(1) less_imp_le [OF pos]] mult_strict_right_mono [OF fl(3) pos] v(2) pos
    by (simp_all add: algebra_simps)
qed

definition quote_ok :: "fx_quote \<Rightarrow> bool" where
  "quote_ok q \<longleftrightarrow> qu_base q \<noteq> qu_quote q \<and> 0 < dval (qu_bid q) \<and> dval (qu_bid q) \<le> dval (qu_ask q)"

lemma validated_quote_Inr:
  assumes "validated_quote q = Inr q'"
  shows "quote_ok q'" and "dval (qu_bid q') = dval (qu_bid q)" "dval (qu_ask q') = dval (qu_ask q)"
    "qu_available_at q' = qu_available_at q"
  using assms by (auto simp: validated_quote_def make_fx_quote_def quote_ok_def fx_instant_def
      split: if_splits dest!: fx_decimal_Inr)

text \<open>Quotes are sealed.  Whatever \<open>FxQuote.create\<close> returns has two different upper-case currency codes, a positive
  bid not above the ask, exactly the numbers it was given, and is a fixed point of the validation every
  valuation repeats: resealing returns the same quote.
\<close>

theorem created_quote_is_sealed:
  assumes "make_fx_quote base quote bid ask available source evidence = Inr q"
  shows "quote_ok q \<and> upper (qu_base q) = qu_base q \<and> upper (qu_quote q) = qu_quote q
    \<and> dval (qu_bid q) = pyval bid \<and> dval (qu_ask q) = pyval ask \<and> validated_quote q = Inr q"
proof -
  have currency: "fx_currency x = Inr c \<Longrightarrow> upper c = c \<and> fx_currency c = Inr c" for x c
    by (auto simp: fx_currency_def Let_def fx_text_def strip_upper split: if_splits)
  have instant: "fx_instant x = Inr i \<Longrightarrow> fx_instant (Moment i) = Inr i" for x i
    by (simp add: fx_instant_def)
  have digest: "fx_digest x = Inr t \<Longrightarrow> fx_digest t = Inr t" for x t
    by (auto simp: fx_digest_def fx_text_def Let_def split: if_splits)
  obtain b c bv av i s e where run: "fx_currency base = Inr b" "fx_currency quote = Inr c" "b \<noteq> c"
    "fx_decimal bid = Inr bv" "fx_decimal ask = Inr av" "0 < dval bv" "0 < dval av" "dval bv \<le> dval av"
    "fx_instant available = Inr i" "fx_text source = Inr s" "fx_digest evidence = Inr e"
    and q: "q = \<lparr>qu_base = b, qu_quote = c, qu_bid = bv, qu_ask = av, qu_available_at = i, qu_source_id = s, qu_evidence = e\<rparr>"
    using assms unfolding make_fx_quote_def by (auto simp: not_le not_less split: if_splits)
  have again: "fx_decimal (PyDecimal bv) = Inr bv" "fx_decimal (PyDecimal av) = Inr av"
    using run(6,7) fx_decimal_Inr [OF run(4)] fx_decimal_Inr [OF run(5)] by (auto simp: fx_decimal_def parse_decimal)
  have "strip s = s" "s \<noteq> []" using run(10) by auto
  then have "fx_text s = Inr s" by simp
  with again run currency [OF run(1)] currency [OF run(2)] digest [OF run(11)] instant [OF run(9)] have "validated_quote q = Inr q"
    by (simp add: q validated_quote_def make_fx_quote_def)
  with run currency [OF run(1)] currency [OF run(2)] fx_decimal_Inr [OF run(4)] fx_decimal_Inr [OF run(5)]
  show ?thesis by (simp add: q quote_ok_def)
qed

section \<open>Conservative conversion\<close>

text \<open>The rates at which the market of a quote converts one unit of a currency into another.\<close>

definition market_rate :: "fx_quote \<Rightarrow> string \<Rightarrow> string \<Rightarrow> rat \<Rightarrow> bool" where
  "market_rate q source reporting x \<longleftrightarrow>
     qu_base q = source \<and> qu_quote q = reporting \<and> dval (qu_bid q) \<le> x \<and> x \<le> dval (qu_ask q)
     \<or> qu_quote q = source \<and> qu_base q = reporting \<and> (\<exists>y. dval (qu_bid q) \<le> y \<and> y \<le> dval (qu_ask q) \<and> x = 1 / y)"

lemma selected_rate:
  assumes "select_rate q source reporting a = Inr (side, rate, used)" and "quote_ok q" and "dval a \<noteq> 0"
  shows "0 < rate" and "market_rate q source reporting x \<Longrightarrow> dval a * rate \<le> dval a * x"
proof -
  have bid: "0 < dval (qu_bid q)" "0 < dval (qu_ask q)" "qu_base q \<noteq> qu_quote q"
    using assms(2) by (auto simp: quote_ok_def)
  have rate: "qu_base q = source \<and> qu_quote q = reporting \<and> rate = (if 0 < dval a then dval (qu_bid q) else dval (qu_ask q))
    \<or> qu_quote q = source \<and> qu_base q = reporting
      \<and> rate = 1 / (if 0 < dval a then dval (qu_ask q) else dval (qu_bid q))"
    using assms(1) by (auto simp: select_rate_def Let_def split: if_splits prod.splits dest!: fx_bounded_Inr)
  then show "0 < rate" using bid by (auto split: if_splits)
  assume x: "market_rate q source reporting x"
  show "dval a * rate \<le> dval a * x"
  proof (cases "0 < dval a")
    case True
    have "rate \<le> x"
    proof (cases "qu_base q = source")
      case True
      then show ?thesis using rate x bid(3) \<open>0 < dval a\<close> by (auto simp: market_rate_def)
    next
      case False
      then obtain y where "dval (qu_bid q) \<le> y" "y \<le> dval (qu_ask q)" "x = 1 / y"
        using x by (auto simp: market_rate_def)
      moreover have "rate = 1 / dval (qu_ask q)" using rate False \<open>0 < dval a\<close> by auto
      ultimately show ?thesis using bid by (auto intro!: divide_left_mono)
    qed
    then show ?thesis using True by simp
  next
    case False
    then have neg: "dval a < 0" using assms(3) by simp
    have "x \<le> rate"
    proof (cases "qu_base q = source")
      case True
      then show ?thesis using rate x bid(3) neg by (auto simp: market_rate_def)
    next
      case False
      then obtain y where "dval (qu_bid q) \<le> y" "y \<le> dval (qu_ask q)" "x = 1 / y"
        using x by (auto simp: market_rate_def)
      moreover have "rate = 1 / dval (qu_bid q)" using rate False neg by auto
      ultimately show ?thesis using bid by (auto intro!: divide_left_mono)
    qed
    then show ?thesis using neg by simp
  qed
qed

definition after_haircut :: "rat \<Rightarrow> rat \<Rightarrow> rat" where
  "after_haircut gross h = (if 0 < gross then gross * (1 - h) else gross * (1 + h))"

lemma apply_haircut_Inr: "apply_haircut gross h = Inr c \<Longrightarrow> c = after_haircut gross (dval h)"
  by (auto simp: apply_haircut_def after_haircut_def split: if_splits dest!: fx_bounded_Inr)

lemma after_haircut_le:
  assumes "0 \<le> h"
  shows "after_haircut gross h \<le> gross"
proof -
  have "0 < gross \<Longrightarrow> 0 \<le> gross * h" "gross \<le> 0 \<Longrightarrow> gross * h \<le> 0"
    using assms by (auto intro: mult_nonneg_nonneg mult_nonpos_nonneg)
  then show ?thesis by (auto simp: after_haircut_def algebra_simps)
qed

lemma convert_amount_Inr:
  assumes "convert_amount sha256 a source reporting q h po = Inr v" and "quote_ok q" and "dval a \<noteq> 0" and "0 \<le> dval h"
    and "va_converted_amount v = Some d"
  obtains rate where "va_rate_numerator v = Some (fst (quotient_of rate))"
    "va_rate_denominator v = Some (snd (quotient_of rate))"
    "\<And>x. market_rate q source reporting x \<Longrightarrow> dval d \<le> dval a * x"
    "case va_rounding_quantum v of
       None \<Rightarrow> dval d = after_haircut (dval a * rate) (dval h)
     | Some u \<Rightarrow> after_haircut (dval a * rate) (dval h) - dval u < dval d
         \<and> dval d \<le> after_haircut (dval a * rate) (dval h)"
    "va_available_at v = Some (qu_available_at q)" "va_haircut v = h" "va_status v = ''CERTAIN''"
proof -
  note run = assms(1) [unfolded convert_amount_def Let_def]
  obtain side rate used where sel: "select_rate q source reporting a = Inr (side, rate, used)"
    using run by auto
  obtain gross where gross: "fx_bounded (dval a * rate) = Inr gross" using run sel by auto
  have g: "gross = dval a * rate" using fx_bounded_Inr [OF gross] .
  obtain c where c: "apply_haircut (dval a * rate) h = Inr c" using run sel gross g by auto
  have c_eq: "c = after_haircut (dval a * rate) (dval h)" using apply_haircut_Inr [OF c] .
  have cases: "va_rate_numerator v = Some (fst (quotient_of rate)) \<and> va_rate_denominator v = Some (snd (quotient_of rate))
    \<and> va_available_at v = Some (qu_available_at q) \<and> va_haircut v = h \<and> va_status v = ''CERTAIN''
    \<and> (va_rounding_quantum v = None \<and> dval d = c
       \<or> (\<exists>u. va_rounding_quantum v = Some u \<and> c - dval u < dval d \<and> dval d \<le> c))"
  proof (cases "has_terminating_decimal c")
    case True
    then show ?thesis using run sel gross g c assms(5) by (auto dest!: fx_terminating_Inr)
  next
    case False
    then obtain pol where pol: "po = Some pol"
      using run sel gross g c assms(5) by (cases po) (auto simp: unavailable_def)
    with False obtain y where y: "fx_round c (po_quantum pol) = Inr y" using run sel gross g c by auto
    have "d = y \<and> va_rounding_quantum v = Some (po_quantum pol)"
      "va_rate_numerator v = Some (fst (quotient_of rate)) \<and> va_rate_denominator v = Some (snd (quotient_of rate))
      \<and> va_available_at v = Some (qu_available_at q) \<and> va_haircut v = h \<and> va_status v = ''CERTAIN''"
      using run sel gross g c assms(5) pol False y by auto
    then show ?thesis using fx_round_Inr [OF y] by (simp add: algebra_simps)
  qed
  have "dval d \<le> c" using cases by auto
  moreover have "c \<le> dval a * rate" unfolding c_eq by (rule after_haircut_le [OF assms(4)])
  ultimately have "dval d \<le> dval a * x" if "market_rate q source reporting x" for x
    using selected_rate(2) [OF sel assms(2,3) that] by simp
  with cases c_eq that [of rate] show thesis by auto
qed

lemma value_amount_Inr:
  assumes "value_amount sha256 amount source reporting quote as_of max_age haircut policy = Inr v"
  obtains a s r point h po where "fx_decimal amount = Inr a" "fx_currency source = Inr s" "fx_currency reporting = Inr r"
    "as_of = Moment point" "0 \<le> dval h" "dval h < 1" "dval h = pyval haircut"
    "value_checked sha256 a s r quote point max_age h po = Inr v"
proof -
  note run = assms [unfolded value_amount_def]
  obtain a where a: "fx_decimal amount = Inr a" using run by auto
  obtain s where s: "fx_currency source = Inr s" using run by auto
  obtain r where r: "fx_currency reporting = Inr r" using run by auto
  obtain point where p: "as_of = Moment point" "fx_instant as_of = Inr point"
    using run by (auto simp: fx_instant_def split: moment.splits)
  obtain h where h: "fx_decimal haircut = Inr h" "\<not> (dval h < 0 \<or> 1 \<le> dval h)"
    using run by (auto split: if_splits)
  obtain po where po: "validated_rounding_policy policy r = Inr po" using run r h by (auto split: if_splits)
  have "age_limit max_age = Inr max_age" using run by (auto simp: age_limit_def split: if_splits)
  then have "value_checked sha256 a s r quote point max_age h po = Inr v"
    using run a s r p h po by simp
  with a s r p h fx_decimal_Inr [OF h(1)] show thesis using that by force
qed

lemma value_checked_fields:
  assumes "value_checked sha256 a s r quote point limit h po = Inr v"
  shows "va_source_currency v = s \<and> va_reporting_currency v = r
    \<and> (allocatable v \<longleftrightarrow> va_converted_amount v \<noteq> None)"
proof -
  have conv: "va_source_currency v = s \<and> va_reporting_currency v = r \<and> (allocatable v \<longleftrightarrow> va_converted_amount v \<noteq> None)"
    if "convert_amount sha256 a s r q h po = Inr v" for q
    using that by (auto simp: convert_amount_def Let_def unavailable_def allocatable_def
        split: if_splits option.splits prod.splits)
  show ?thesis
  proof (cases "s = r \<or> dval a = 0 \<or> quote = None")
    case True
    then show ?thesis using assms by (auto simp: value_checked_def unavailable_def allocatable_def split: if_splits)
  next
    case False
    then obtain raw q where "quote = Some raw" and q: "validated_quote raw = Inr q"
      using assms by (auto simp: value_checked_def)
    with False assms conv [of q] show ?thesis
      by (cases "point < qu_available_at q"; cases "limit < point - qu_available_at q")
        (auto simp: value_checked_def unavailable_def allocatable_def)
  qed
qed

section \<open>Properties\<close>

text \<open>(C34) A foreign balance is never valued above the market.  Whenever a non-zero balance in another currency is
  given an amount, it was converted with a quote that was available by the valuation instant and within
  the permitted age.  The amount is at most the balance times any rate between the quote's bid and ask, or
  times the inverse of any such price for an inverse quote, whether the balance is an asset or a
  liability.  It is the exact haircut value at the rate the valuation reports, or below it by less than one
  quantum of the rounding policy it names.
\<close>

theorem fx_valuation_is_conservative:
  assumes "value_amount sha256 amount source reporting quote as_of max_age haircut policy = Inr v"
    and "va_converted_amount v = Some d" and "va_source_currency v \<noteq> va_reporting_currency v" and "pyval amount \<noteq> 0"
  shows "\<exists>raw q point n m. quote = Some raw \<and> validated_quote raw = Inr q \<and> as_of = Moment point
    \<and> qu_available_at q \<le> point \<and> point - qu_available_at q \<le> max_age
    \<and> (\<forall>x. market_rate q (va_source_currency v) (va_reporting_currency v) x \<longrightarrow> dval d \<le> pyval amount * x)
    \<and> va_rate_numerator v = Some n \<and> va_rate_denominator v = Some m
    \<and> (case va_rounding_quantum v of
         None \<Rightarrow> dval d = after_haircut (pyval amount * (of_int n / of_int m)) (pyval haircut)
       | Some u \<Rightarrow> after_haircut (pyval amount * (of_int n / of_int m)) (pyval haircut) - dval u < dval d
           \<and> dval d \<le> after_haircut (pyval amount * (of_int n / of_int m)) (pyval haircut))"
  using assms(1)
proof (rule value_amount_Inr)
  fix a s r point h po
  assume a: "fx_decimal amount = Inr a" and point: "as_of = Moment point"
    and h: "0 \<le> dval h" "dval h = pyval haircut" and v: "value_checked sha256 a s r quote point max_age h po = Inr v"
  have av: "dval a = pyval amount" using fx_decimal_Inr [OF a] by simp
  have sr: "va_source_currency v = s" "va_reporting_currency v = r" using value_checked_fields [OF v] by auto
  have ne: "s \<noteq> r" "dval a \<noteq> 0" using assms(3,4) sr av by simp_all
  have none: "unavailable a s r st side x h reason rate \<noteq> v" for st side x reason rate
    using assms(2) by (auto simp: unavailable_def)
  obtain raw where raw: "quote = Some raw"
    using v ne none by (cases quote) (auto simp: value_checked_def)
  then obtain q where q: "validated_quote raw = Inr q"
    using v ne by (auto simp: value_checked_def)
  have fresh: "qu_available_at q \<le> point" "point - qu_available_at q \<le> max_age"
    and conv: "convert_amount sha256 a s r q h po = Inr v"
    using v ne none raw q by (auto simp: value_checked_def split: if_splits)
  from convert_amount_Inr [OF conv validated_quote_Inr(1) [OF q] ne(2) h(1) assms(2)]
  obtain rate where rate: "va_rate_numerator v = Some (fst (quotient_of rate))"
    "va_rate_denominator v = Some (snd (quotient_of rate))"
    "\<And>x. market_rate q s r x \<Longrightarrow> dval d \<le> dval a * x"
    "case va_rounding_quantum v of
       None \<Rightarrow> dval d = after_haircut (dval a * rate) (dval h)
     | Some u \<Rightarrow> after_haircut (dval a * rate) (dval h) - dval u < dval d
         \<and> dval d \<le> after_haircut (dval a * rate) (dval h)" by metis
  have reported: "of_int (fst (quotient_of rate)) / of_int (snd (quotient_of rate)) = rate"
    by (rule quotient_of_div [symmetric]) (rule prod.collapse [symmetric])
  have "dval d \<le> pyval amount * x" if "market_rate q (va_source_currency v) (va_reporting_currency v) x" for x
    using rate(3) that unfolding sr av by blast
  then show ?thesis
    using rate(4) raw q point fresh
    unfolding av [symmetric] h(2) [symmetric] rate(1,2)
    by (intro exI [of _ raw] exI [of _ q] exI [of _ point] exI [of _ "fst (quotient_of rate)"]
        exI [of _ "snd (quotient_of rate)"], unfold reported) blast
qed

text \<open>Doubt never carries an amount: a valuation has an amount exactly when its status is \<open>CERTAIN\<close>.\<close>

theorem fx_uncertain_has_no_amount:
  assumes "value_amount sha256 amount source reporting quote as_of max_age haircut policy = Inr v"
  shows "allocatable v \<longleftrightarrow> va_converted_amount v \<noteq> None"
  using assms by (rule value_amount_Inr) (use value_checked_fields in blast)

section \<open>Portfolios\<close>

lemma balance_step_Inr:
  assumes "balance_step sha256 quotes reporting point limit haircut policy (seen, components) (raw, balance) = Inr st"
  shows "\<exists>c a v. fx_currency raw = Inr c \<and> c \<notin> set seen \<and> st = (c # seen, components @ [v])
    \<and> va_source_currency v = c \<and> (allocatable v \<longleftrightarrow> va_converted_amount v \<noteq> None) \<and> dval a = pyval balance
    \<and> value_amount sha256 (PyDecimal a) c reporting (if c = reporting then None else dict_get quotes c) point limit
        (PyDecimal haircut) policy = Inr v"
proof -
  note run = assms [unfolded balance_step_def]
  obtain c where c: "fx_currency raw = Inr c" "c \<notin> set seen" using run by (auto split: if_splits)
  obtain a where a: "fx_decimal balance = Inr a" using run c by auto
  obtain v where v: "value_amount sha256 (PyDecimal a) c reporting (if c = reporting then None else dict_get quotes c)
      point limit (PyDecimal haircut) policy = Inr v" "st = (c # seen, components @ [v])"
    using run c a by auto
  have "va_source_currency v = c \<and> (allocatable v \<longleftrightarrow> va_converted_amount v \<noteq> None)"
    using v(1)
  proof (rule value_amount_Inr)
    fix a' s r p h po
    assume s: "fx_currency c = Inr s" and run: "value_checked sha256 a' s r
      (if c = reporting then None else dict_get quotes c) p limit h po = Inr v"
    have "fx_currency c = Inr c"
      using c(1) by (auto simp: fx_currency_def Let_def strip_upper split: if_splits)
    with s value_checked_fields [OF run] show ?thesis by simp
  qed
  with c v fx_decimal_Inr [OF a] show ?thesis by blast
qed

definition valued :: "(string \<times> pynum) list \<Rightarrow> string list \<times> fx_valuation list \<Rightarrow> bool" where
  "valued balances st \<longleftrightarrow> distinct (fst st) \<and> map va_source_currency (snd st) = rev (fst st)
     \<and> list_all2 (\<lambda>(raw, _) c. fx_currency raw = Inr c) balances (rev (fst st))
     \<and> (\<forall>v \<in> set (snd st). allocatable v \<longleftrightarrow> va_converted_amount v \<noteq> None)"

lemma balances_valued:
  assumes "rfold (balance_step sha256 quotes reporting point limit haircut policy) st items = Inr st'" and "valued done st"
  shows "valued (done @ items) st'"
  using assms
proof (induction items arbitrary: st "done")
  case (Cons item items)
  obtain raw balance where item: "item = (raw, balance)" by force
  obtain seen components where st: "st = (seen, components)" by force
  obtain st1 where st1: "balance_step sha256 quotes reporting point limit haircut policy (seen, components) (raw, balance) = Inr st1"
    "rfold (balance_step sha256 quotes reporting point limit haircut policy) st1 items = Inr st'"
    using Cons.prems(1) st item by auto
  have "valued (done @ [item]) st1"
    using balance_step_Inr [OF st1(1)] Cons.prems(2) st item
    by (auto simp: valued_def intro!: list_all2_appendI)
  from Cons.IH [OF st1(2) this] show ?case by simp
qed simp

lemma sum_converted:
  "list_all allocatable vs \<Longrightarrow> \<forall>v \<in> set vs. allocatable v \<longleftrightarrow> va_converted_amount v \<noteq> None \<Longrightarrow>
     sum_list (map dval (concat (map (\<lambda>v. case va_converted_amount v of None \<Rightarrow> [] | Some d \<Rightarrow> [d]) vs)))
     = sum_list (map (\<lambda>v. dval (the (va_converted_amount v))) vs)"
  by (induction vs) auto

text \<open>A portfolio is valued all or not at all, one currency at a time.  The components are the balances in the
  order of their names, in distinct currencies; a total is reported exactly when every one is certain, and is
  then the sum of the amounts already converted into the reporting currency.  Otherwise the portfolio is
  uncertain, has no total, and gives one reason for each uncertain component.
\<close>

theorem portfolio_valued_all_or_nothing:
  assumes "value_cash_balances sha256 balances reporting quotes as_of max_age haircut policy = Inr p"
  shows "list_all2 (\<lambda>(raw, _) v. fx_currency raw = Inr (va_source_currency v)) (sort_key fst balances) (pv_components p)
    \<and> distinct (map va_source_currency (pv_components p))
    \<and> (portfolio_allocatable p \<longleftrightarrow> list_all allocatable (pv_components p))
    \<and> (case pv_total p of
         Some t \<Rightarrow> list_all allocatable (pv_components p)
           \<and> dval t = (\<Sum>v \<leftarrow> pv_components p. dval (the (va_converted_amount v)))
       | None \<Rightarrow> pv_status p = ''UNCERTAIN'' \<and> pv_reasons p \<noteq> []
           \<and> length (pv_reasons p) = length (filter (\<lambda>v. \<not> allocatable v) (pv_components p)))"
proof -
  note go = assms [unfolded value_cash_balances_def]
  obtain normalized r point h po where
    pre: "rfold quote_step [] quotes = Inr normalized" "fx_currency reporting = Inr r" "fx_instant as_of = Inr point"
    "age_limit max_age = Inr max_age" "fx_decimal haircut = Inr h" "\<not> (dval h < 0 \<or> 1 \<le> dval h)"
    "validated_rounding_policy policy r = Inr po"
    using go by (auto simp: age_limit_def split: if_splits)
  obtain seen components where
    run: "rfold (balance_step sha256 normalized r (Moment point) max_age h po) ([], []) (sort_key fst balances)
      = Inr (seen, components)" and p: "portfolio_of r components = Inr p"
    using go pre by auto
  have valued: "valued (sort_key fst balances) (seen, components)"
    using balances_valued [OF run, of "[]"] by (simp add: valued_def [of "[]"])
  have comps: "pv_components p = components"
    using p by (auto simp: portfolio_of_def Let_def split: if_splits)
  have names: "map va_source_currency components = rev seen" using valued by (simp add: valued_def)
  have 1: "list_all2 (\<lambda>(raw, _) v. fx_currency raw = Inr (va_source_currency v)) (sort_key fst balances) components"
    using valued unfolding valued_def fst_conv snd_conv names [symmetric] by (auto simp: list_all2_map2 elim!: list_all2_mono)
  have 2: "distinct (map va_source_currency components)"
    unfolding names using valued by (simp add: valued_def)
  have 3: "\<forall>v \<in> set components. allocatable v \<longleftrightarrow> va_converted_amount v \<noteq> None"
    using valued by (simp add: valued_def)
  show ?thesis
  proof (cases "list_all allocatable components")
    case True
    then have "filter (\<lambda>v. \<not> allocatable v) components = []" by (simp add: list_all_iff)
    then obtain t where t: "exact_sum (concat (map (\<lambda>v. case va_converted_amount v of None \<Rightarrow> [] | Some d \<Rightarrow> [d]) components)) = Inr t"
      "p = \<lparr>pv_reporting_currency = r, pv_total = Some t, pv_status = ''CERTAIN'', pv_components = components, pv_reasons = []\<rparr>"
      using p by (auto simp: portfolio_of_def Let_def)
    have "dval t = (\<Sum>v \<leftarrow> components. dval (the (va_converted_amount v)))"
      using exact.total_val [OF t(1)] sum_converted [OF True 3] by simp
    then show ?thesis using 1 2 True t(2) by (simp add: portfolio_allocatable_def)
  next
    case False
    then have "filter (\<lambda>v. \<not> allocatable v) components \<noteq> []" by (auto simp: list_all_iff filter_empty_conv)
    then show ?thesis using p 1 2 False by (auto simp: portfolio_allocatable_def portfolio_of_def Let_def)
  qed
qed

section \<open>Instances\<close>

text \<open>Dollars in euros through a euro quote in dollars, rounded down to cents.\<close>

definition eur_usd :: fx_quote where
  "eur_usd = \<lparr>qu_base = ''EUR'', qu_quote = ''USD'', qu_bid = Decimal False 11 (- 1), qu_ask = Decimal False 12 (- 1),
     qu_available_at = 5, qu_source_id = ''feed'', qu_evidence = ''sha256:'' @ replicate 64 (CHR ''0'')\<rparr>"

definition cents :: fx_policy where
  "cents = \<lparr>po_reporting = ''EUR'', po_quantum = Decimal False 1 (- 2), po_version = ''1''\<rparr>"

abbreviation dollars_in_euros :: "fx_policy option \<Rightarrow> fx_valuation result" where
  "dollars_in_euros po \<equiv> value_amount (\<lambda>_. ''digest'') (PyInt 100) ''usd'' ''EUR'' (Some eur_usd) (Moment 8) 10 (PyInt 0) po"

lemma dollars_valued: "\<exists>v. dollars_in_euros (Some cents) = Inr v \<and> va_converted_amount v = Some (Decimal False 8333 (- 2))
    \<and> va_source_currency v \<noteq> va_reporting_currency v"
proof (cases "dollars_in_euros (Some cents)")
  case (Inl e)
  moreover have "case_sum (\<lambda>_. False) (\<lambda>_. True) (dollars_in_euros (Some cents))" by code_simp
  ultimately show ?thesis by simp
next
  case (Inr v)
  moreover have "case_sum (\<lambda>_. False) (\<lambda>v. va_converted_amount v = Some (Decimal False 8333 (- 2))
    \<and> va_source_currency v \<noteq> va_reporting_currency v) (dollars_in_euros (Some cents))" by code_simp
  ultimately show ?thesis by simp
qed

theorem fx_valuation_is_conservative_witness:
  "\<exists>v. dollars_in_euros (Some cents) = Inr v \<and> va_converted_amount v = Some (Decimal False 8333 (- 2))
    \<and> dval (Decimal False 8333 (- 2)) \<le> 100 * (1 / (6 / 5))"
proof -
  from dollars_valued obtain v where v: "dollars_in_euros (Some cents) = Inr v"
    "va_converted_amount v = Some (Decimal False 8333 (- 2))" "va_source_currency v \<noteq> va_reporting_currency v" by blast
  have "pyval (PyInt 100) \<noteq> 0" by simp
  from fx_valuation_is_conservative [OF v this] obtain q where q: "validated_quote eur_usd = Inr q"
    "\<And>x. market_rate q (va_source_currency v) (va_reporting_currency v) x \<Longrightarrow>
       dval (Decimal False 8333 (- 2)) \<le> pyval (PyInt 100) * x" by auto
  have "validated_quote eur_usd = Inr eur_usd" by code_simp
  then have "q = eur_usd" using q(1) by simp
  moreover have "va_source_currency v = ''USD''" "va_reporting_currency v = ''EUR''"
  proof -
    have "case_sum (\<lambda>_. False) (\<lambda>v. va_source_currency v = ''USD'' \<and> va_reporting_currency v = ''EUR'')
      (dollars_in_euros (Some cents))" by code_simp
    then show "va_source_currency v = ''USD''" "va_reporting_currency v = ''EUR''" using v(1) by simp_all
  qed
  moreover have "market_rate eur_usd ''USD'' ''EUR'' (1 / (6 / 5))"
    unfolding market_rate_def by (rule disjI2) (intro conjI exI [of _ "6 / 5"], code_simp+)
  ultimately show ?thesis using q(2) v by auto
qed

lemma eur_usd_created: "make_fx_quote ''eur'' '' USD'' (PyStr ''1.1'') (PyStr ''1.2'') (Moment 5) ''feed''
    (''sha256:'' @ replicate 64 (CHR ''0'')) = Inr eur_usd"
  by code_simp

theorem created_quote_is_sealed_witness: "quote_ok eur_usd \<and> validated_quote eur_usd = Inr eur_usd"
  using created_quote_is_sealed [OF eur_usd_created] by simp

theorem fx_uncertain_has_no_amount_witness:
  "case_sum (\<lambda>_. False) (\<lambda>v. \<not> allocatable v \<and> va_converted_amount v = None) (dollars_in_euros None)"
proof (cases "dollars_in_euros None")
  case (Inl e)
  moreover have "case_sum (\<lambda>_. False) (\<lambda>_. True) (dollars_in_euros None)" by code_simp
  ultimately show ?thesis by simp
next
  case (Inr v)
  moreover have "case_sum (\<lambda>_. False) (\<lambda>v. \<not> allocatable v) (dollars_in_euros None)" by code_simp
  ultimately show ?thesis
    using fx_uncertain_has_no_amount [of "\<lambda>_. ''digest''" "PyInt 100" "''usd''" "''EUR''" "Some eur_usd" "Moment 8" 10 "PyInt 0" None v]
    by simp
qed

definition two_balances :: "portfolio_valuation result" where
  "two_balances = value_cash_balances (\<lambda>_. ''digest'') [(''usd'', PyInt 100), (''EUR'', PyInt 5)] ''EUR''
     [(''USD'', eur_usd)] (Moment 8) 10 (PyInt 0) (Some cents)"

theorem portfolio_valued_all_or_nothing_witness:
  "\<exists>p. two_balances = Inr p \<and> pv_total p = Some (Decimal False 8833 (- 2))
    \<and> dval (Decimal False 8833 (- 2)) = (\<Sum>v \<leftarrow> pv_components p. dval (the (va_converted_amount v)))"
proof (cases two_balances)
  case (Inl e)
  have "case_sum (\<lambda>_. False) (\<lambda>_. True) two_balances" by code_simp
  then have False unfolding Inl sum.case .
  then show ?thesis ..
next
  case (Inr p)
  have "case_sum (\<lambda>_. False) (\<lambda>p. pv_total p = Some (Decimal False 8833 (- 2))) two_balances" by code_simp
  then have total: "pv_total p = Some (Decimal False 8833 (- 2))" unfolding Inr sum.case .
  show ?thesis
    using portfolio_valued_all_or_nothing [OF Inr [unfolded two_balances_def]] total Inr by (intro exI [of _ p]) simp
qed

end
