(* ===== verification/Perpetuals.thy ===== *)
theory Perpetuals
  imports Exact_Decimal_Text Instants
begin

text \<open>
  \<open>mvp/autotrade_mvp/perpetuals.py\<close>: perpetual contracts.  Profit, funding and stress of linear and inverse
  contracts, freshness of market, margin and liquidation evidence and admission of new risk.  Instants and
  ages are microseconds.  \<open>FundingLedger\<close> of the same file is the theory \<open>Funding_Ledger\<close>.
\<close>

section \<open>Inputs and exact arithmetic\<close>

definition pp_translate :: "'a result \<Rightarrow> 'a result" where
  "pp_translate m = translate ExactDecimalError PerpetualError m"

definition pp_decimal :: "pynum \<Rightarrow> bool \<Rightarrow> decimal result" where
  "pp_decimal v positive =
     (case v of
        PyBool _ \<Rightarrow> Inl PerpetualError | PyFloat \<Rightarrow> Inl PerpetualError
      | _ \<Rightarrow> rbind (pp_translate (parse_bounded_exact_decimal v True)) (\<lambda>d.
          if positive \<and> dval d \<le> 0 then Inl PerpetualError else Inr d))"

definition pp_text :: "string \<Rightarrow> string result" where
  "pp_text v = (if strip v = [] then Inl PerpetualError else Inr (strip v))"

definition pp_utc :: "moment \<Rightarrow> int result" where
  "pp_utc v = (case v of Not_Aware \<Rightarrow> Inl PerpetualError | Beyond_Calendar \<Rightarrow> Inl OverflowError
     | Moment us \<Rightarrow> Inr us)"

definition pp_fraction :: "decimal \<Rightarrow> rat result" where
  "pp_fraction d = pp_translate (as_fraction d)"

definition pp_bounded :: "rat \<Rightarrow> rat result" where
  "pp_bounded q = pp_translate (bounded_fraction q)"

definition pp_finite :: "rat \<Rightarrow> decimal result" where
  "pp_finite q = pp_translate (terminating_decimal q)"

definition pp_fsub :: "rat \<Rightarrow> rat \<Rightarrow> rat result" where "pp_fsub a b = pp_bounded (a - b)"

definition pp_fmul :: "rat \<Rightarrow> rat \<Rightarrow> rat result" where "pp_fmul a b = pp_bounded (a * b)"

definition pp_fdiv :: "rat \<Rightarrow> rat \<Rightarrow> rat result" where
  "pp_fdiv a b = (if b = 0 then Inl ZeroDivisionError else pp_bounded (a / b))"

definition pp_multiply :: "decimal list \<Rightarrow> decimal result" where
  "pp_multiply ds = pp_translate (exact_multiply ds)"

definition pp_add :: "decimal \<Rightarrow> decimal \<Rightarrow> decimal result" where
  "pp_add a b = pp_translate (exact_add a b)"

definition pp_sum :: "decimal list \<Rightarrow> decimal result" where
  "pp_sum ds = pp_translate (exact_sum ds)"

definition pp_canonical_text :: "decimal \<Rightarrow> string result" where
  "pp_canonical_text d = pp_translate (canonical_decimal_text d)"

section \<open>Contracts and conventions\<close>

datatype payoff = LINEAR | INVERSE

definition payoff_of :: "string \<Rightarrow> payoff result" where
  "payoff_of t = (if t = ''LINEAR'' then Inr LINEAR else if t = ''INVERSE'' then Inr INVERSE else Inl PerpetualError)"

record perpetual_contract =
  pc_instrument_id :: string
  pc_settlement_currency :: string
  pc_collateral_currency :: string
  pc_multiplier :: decimal
  pc_payoff :: payoff
  pc_face_currency :: "string option"
  pc_price_quote_currency :: "string option"
  pc_price_base_currency :: "string option"

definition opt_unit :: "string option \<Rightarrow> string option result" where
  "opt_unit v = opt_text (\<lambda>t. rbind (pp_text t) (\<lambda>u. Inr (upper u))) v"

definition make_contract :: "string \<Rightarrow> string \<Rightarrow> string \<Rightarrow> pynum \<Rightarrow> string \<Rightarrow> string option \<Rightarrow> string option
    \<Rightarrow> string option \<Rightarrow> perpetual_contract result" where
  "make_contract instrument settlement collateral multiplier payoff face quote base =
     rbind (pp_text instrument) (\<lambda>i. rbind (pp_text settlement) (\<lambda>s. rbind (pp_text collateral) (\<lambda>c.
     rbind (pp_decimal multiplier True) (\<lambda>m. rbind (payoff_of payoff) (\<lambda>p. rbind (opt_unit face) (\<lambda>f.
     rbind (opt_unit quote) (\<lambda>q. rbind (opt_unit base) (\<lambda>b.
       Inr \<lparr>pc_instrument_id = i, pc_settlement_currency = upper s, pc_collateral_currency = upper c,
         pc_multiplier = m, pc_payoff = p, pc_face_currency = f, pc_price_quote_currency = q,
         pc_price_base_currency = b\<rparr>))))))))"

definition require_inverse_units :: "perpetual_contract \<Rightarrow> unit result" where
  "require_inverse_units c =
     (if pc_payoff c \<noteq> INVERSE then Inl PerpetualError
      else if pc_face_currency c = None then Inl PerpetualError
      else if pc_price_quote_currency c = None then Inl PerpetualError
      else if pc_face_currency c \<noteq> pc_price_quote_currency c then Inl PerpetualError
      else if pc_price_base_currency c = None then Inl PerpetualError
      else if Some (pc_settlement_currency c) \<noteq> pc_price_base_currency c then Inl PerpetualError
      else Inr ())"

datatype rate_effect = LONG_PAYS | LONG_RECEIVES

datatype price_basis = MARK | INDEX

record funding_convention =
  fc_positive_rate_effect :: rate_effect
  fc_price_basis :: price_basis

definition make_convention :: "string \<Rightarrow> string \<Rightarrow> funding_convention result" where
  "make_convention effect basis =
     rbind (if effect = ''LONG_PAYS'' then Inr LONG_PAYS else if effect = ''LONG_RECEIVES'' then Inr LONG_RECEIVES
            else Inl PerpetualError) (\<lambda>e.
     rbind (if basis = ''MARK'' then Inr MARK else if basis = ''INDEX'' then Inr INDEX else Inl PerpetualError) (\<lambda>b.
       Inr \<lparr>fc_positive_rate_effect = e, fc_price_basis = b\<rparr>))"

section \<open>Evidence and its age\<close>

text \<open>The age check every snapshot repeats.\<close>

definition check_age :: "int \<Rightarrow> int \<Rightarrow> moment \<Rightarrow> unit result" where
  "check_age observed max_age now =
     rbind (pp_utc now) (\<lambda>point.
       if point < observed then Inl PerpetualError
       else if max_age < point - observed then Inl PerpetualError
       else Inr ())"

record market_snapshot =
  mk_mark_price :: decimal
  mk_index_price :: decimal
  mk_observed_at :: int
  mk_max_age :: int
  mk_max_deviation :: decimal

definition make_market :: "pynum \<Rightarrow> pynum \<Rightarrow> moment \<Rightarrow> int \<Rightarrow> pynum \<Rightarrow> market_snapshot result" where
  "make_market mark index observed max_age deviation =
     rbind (pp_decimal mark True) (\<lambda>m. rbind (pp_decimal index True) (\<lambda>i. rbind (pp_utc observed) (\<lambda>t.
     if max_age \<le> 0 then Inl PerpetualError
     else rbind (pp_decimal deviation True) (\<lambda>d.
       Inr \<lparr>mk_mark_price = m, mk_index_price = i, mk_observed_at = t, mk_max_age = max_age, mk_max_deviation = d\<rparr>))))"

definition market_require_valid :: "market_snapshot \<Rightarrow> moment \<Rightarrow> unit result" where
  "market_require_valid mk now =
     rbind (check_age (mk_observed_at mk) (mk_max_age mk) now) (\<lambda>_.
     rbind (pp_fraction (mk_mark_price mk)) (\<lambda>m. rbind (pp_fraction (mk_index_price mk)) (\<lambda>i.
     rbind (pp_fsub m i) (\<lambda>difference. let distance = \<bar>difference\<bar> in
     rbind (pp_fraction (mk_max_deviation mk)) (\<lambda>dev. rbind (pp_fmul dev i) (\<lambda>permitted.
       if permitted < distance then Inl PerpetualError else Inr ()))))))"

record collateral_quote =
  cq_from_currency :: string
  cq_to_currency :: string
  cq_rate :: decimal
  cq_observed_at :: int
  cq_max_age :: int

definition make_collateral_quote :: "string \<Rightarrow> string \<Rightarrow> pynum \<Rightarrow> moment \<Rightarrow> int \<Rightarrow> collateral_quote result" where
  "make_collateral_quote from_currency to_currency rate observed max_age =
     rbind (pp_text from_currency) (\<lambda>f. rbind (pp_text to_currency) (\<lambda>t.
     if upper f = upper t then Inl PerpetualError
     else rbind (pp_decimal rate True) (\<lambda>r. rbind (pp_utc observed) (\<lambda>ob.
     if max_age \<le> 0 then Inl PerpetualError
     else Inr \<lparr>cq_from_currency = upper f, cq_to_currency = upper t, cq_rate = r, cq_observed_at = ob,
       cq_max_age = max_age\<rparr>))))"

definition collateral_convert :: "collateral_quote \<Rightarrow> pynum \<Rightarrow> moment \<Rightarrow> decimal result" where
  "collateral_convert q amount now =
     rbind (check_age (cq_observed_at q) (cq_max_age q) now) (\<lambda>_.
     rbind (pp_decimal amount False) (\<lambda>a. pp_multiply [a, cq_rate q]))"

record margin_snapshot =
  mg_equity :: decimal
  mg_maintenance_requirement :: decimal
  mg_observed_at :: int
  mg_max_age :: int

definition make_margin :: "pynum \<Rightarrow> pynum \<Rightarrow> moment \<Rightarrow> int \<Rightarrow> margin_snapshot result" where
  "make_margin equity maintenance observed max_age =
     rbind (pp_decimal equity False) (\<lambda>e. rbind (pp_decimal maintenance True) (\<lambda>m. rbind (pp_utc observed) (\<lambda>t.
     if max_age \<le> 0 then Inl PerpetualError
     else Inr \<lparr>mg_equity = e, mg_maintenance_requirement = m, mg_observed_at = t, mg_max_age = max_age\<rparr>)))"

definition margin_require_fresh :: "margin_snapshot \<Rightarrow> moment \<Rightarrow> unit result" where
  "margin_require_fresh mg now = check_age (mg_observed_at mg) (mg_max_age mg) now"

datatype position_side = LONG | SHORT

record liquidation_snapshot =
  lq_side :: position_side
  lq_liquidation_price :: decimal
  lq_tier_id :: string
  lq_evidence_ref :: string
  lq_observed_at :: int
  lq_max_age :: int

definition make_liquidation :: "string \<Rightarrow> pynum \<Rightarrow> string \<Rightarrow> string \<Rightarrow> moment \<Rightarrow> int \<Rightarrow> liquidation_snapshot result" where
  "make_liquidation sd price tier evidence observed max_age =
     rbind (if sd = ''LONG'' then Inr LONG else if sd = ''SHORT'' then Inr SHORT else Inl PerpetualError) (\<lambda>s.
     rbind (pp_decimal price True) (\<lambda>p. rbind (pp_text tier) (\<lambda>t. rbind (pp_text evidence) (\<lambda>e.
     rbind (pp_utc observed) (\<lambda>ob.
     if max_age \<le> 0 then Inl PerpetualError
     else Inr \<lparr>lq_side = s, lq_liquidation_price = p, lq_tier_id = t, lq_evidence_ref = e, lq_observed_at = ob,
       lq_max_age = max_age\<rparr>)))))"

definition liquidation_require_fresh :: "liquidation_snapshot \<Rightarrow> moment \<Rightarrow> unit result" where
  "liquidation_require_fresh lq now = check_age (lq_observed_at lq) (lq_max_age lq) now"

definition headroom_fraction :: "liquidation_snapshot \<Rightarrow> pynum \<Rightarrow> rat result" where
  "headroom_fraction lq mark_price =
     rbind (pp_decimal mark_price True) (\<lambda>mark. rbind (pp_fraction mark) (\<lambda>m.
     rbind (pp_fraction (lq_liquidation_price lq)) (\<lambda>l.
     if lq_side lq = LONG then
       if dval mark \<le> dval (lq_liquidation_price lq) then Inl PerpetualError
       else rbind (pp_fsub m l) (\<lambda>x. pp_fdiv x m)
     else if dval (lq_liquidation_price lq) \<le> dval mark then Inl PerpetualError
     else rbind (pp_fsub l m) (\<lambda>x. pp_fdiv x m))))"

definition liquidation_distance :: "liquidation_snapshot \<Rightarrow> decimal \<Rightarrow> rat result" where
  "liquidation_distance lq mark =
     (if lq_side lq = LONG then
        if dval mark \<le> dval (lq_liquidation_price lq) then Inl PerpetualError
        else rbind (pp_fraction mark) (\<lambda>m. rbind (pp_fraction (lq_liquidation_price lq)) (\<lambda>l. pp_fsub m l))
      else if dval (lq_liquidation_price lq) \<le> dval mark then Inl PerpetualError
      else rbind (pp_fraction (lq_liquidation_price lq)) (\<lambda>l. rbind (pp_fraction mark) (\<lambda>m. pp_fsub l m)))"

definition require_liquidation_headroom :: "liquidation_snapshot \<Rightarrow> market_snapshot \<Rightarrow> pynum \<Rightarrow> moment \<Rightarrow> rat result" where
  "require_liquidation_headroom lq mk minimum_headroom now =
     rbind (liquidation_require_fresh lq now) (\<lambda>_. rbind (market_require_valid mk now) (\<lambda>_.
     rbind (pp_decimal minimum_headroom False) (\<lambda>minimum.
     if dval minimum < 0 then Inl PerpetualError
     else rbind (liquidation_distance lq (mk_mark_price mk)) (\<lambda>distance.
     rbind (pp_fraction minimum) (\<lambda>mn. rbind (pp_fraction (mk_mark_price mk)) (\<lambda>m.
     rbind (pp_fmul mn m) (\<lambda>required_distance.
     if distance < required_distance then Inl PerpetualError
     else headroom_fraction lq (PyDecimal (mk_mark_price mk)))))))))"

section \<open>Economics of positions\<close>

definition linear_notional :: "pynum \<Rightarrow> pynum \<Rightarrow> pynum \<Rightarrow> decimal result" where
  "linear_notional signed_contracts multiplier price =
     rbind (pp_decimal signed_contracts False) (\<lambda>contracts. rbind (pp_decimal multiplier True) (\<lambda>m.
     rbind (pp_decimal price True) (\<lambda>mark. pp_multiply [contracts, m, mark])))"

definition inverse_perpetual_pnl_exact :: "perpetual_contract \<Rightarrow> pynum \<Rightarrow> pynum \<Rightarrow> pynum \<Rightarrow> rat result" where
  "inverse_perpetual_pnl_exact c signed_contracts entry_price exit_price =
     rbind (require_inverse_units c) (\<lambda>_. rbind (pp_decimal signed_contracts False) (\<lambda>contracts.
     rbind (pp_decimal (PyDecimal (pc_multiplier c)) True) (\<lambda>face. rbind (pp_decimal entry_price True) (\<lambda>entry.
     rbind (pp_decimal exit_price True) (\<lambda>exit_value.
     rbind (pp_fraction contracts) (\<lambda>n. rbind (pp_fraction face) (\<lambda>f. rbind (pp_bounded (n * f)) (\<lambda>notional.
     rbind (pp_fraction entry) (\<lambda>en. rbind (pp_bounded (1 / en)) (\<lambda>entry_inverse.
     rbind (pp_fraction exit_value) (\<lambda>ex. rbind (pp_bounded (1 / ex)) (\<lambda>exit_inverse.
     rbind (pp_bounded (entry_inverse - exit_inverse)) (\<lambda>reciprocal_delta.
       pp_bounded (notional * reciprocal_delta))))))))))))))"

definition price_of_basis :: "market_snapshot \<Rightarrow> funding_convention \<Rightarrow> decimal" where
  "price_of_basis mk conv = (if fc_price_basis conv = MARK then mk_mark_price mk else mk_index_price mk)"

definition inverse_funding_cashflow_exact :: "perpetual_contract \<Rightarrow> pynum \<Rightarrow> pynum \<Rightarrow> market_snapshot
    \<Rightarrow> funding_convention \<Rightarrow> moment \<Rightarrow> (string \<times> rat) result" where
  "inverse_funding_cashflow_exact c signed_contracts funding_rate mk conv now =
     rbind (require_inverse_units c) (\<lambda>_. rbind (market_require_valid mk now) (\<lambda>_.
     rbind (pp_decimal signed_contracts False) (\<lambda>contracts. rbind (pp_decimal funding_rate False) (\<lambda>rate.
     rbind (pp_fraction contracts) (\<lambda>n. rbind (pp_fraction (pc_multiplier c)) (\<lambda>f.
     rbind (pp_bounded (n * f)) (\<lambda>position_numerator. rbind (pp_fraction (price_of_basis mk conv)) (\<lambda>b.
     rbind (if b = 0 then Inl ZeroDivisionError else pp_bounded (position_numerator / b)) (\<lambda>position_value. rbind (pp_fraction rate) (\<lambda>r.
     rbind (pp_bounded (position_value * r)) (\<lambda>raw.
     rbind (pp_bounded (if fc_positive_rate_effect conv = LONG_PAYS then - raw else raw)) (\<lambda>cashflow.
       Inr (pc_settlement_currency c, cashflow)))))))))))))"

definition inverse_stressed_loss_exact :: "perpetual_contract \<Rightarrow> pynum \<Rightarrow> pynum \<Rightarrow> pynum \<Rightarrow> rat result" where
  "inverse_stressed_loss_exact c signed_contracts mark_price adverse_move =
     rbind (require_inverse_units c) (\<lambda>_. rbind (pp_decimal signed_contracts False) (\<lambda>contracts.
     if dval contracts = 0 then Inr 0
     else rbind (pp_decimal mark_price True) (\<lambda>mark. rbind (pp_decimal adverse_move True) (\<lambda>move.
     if 1 \<le> dval move then Inl PerpetualError
     else rbind (pp_fraction contracts) (\<lambda>n. rbind (pp_fraction (pc_multiplier c)) (\<lambda>f.
     rbind (pp_fraction mark) (\<lambda>m. rbind (pp_fraction move) (\<lambda>mv.
     rbind (pp_bounded (if 0 < dval contracts then 1 - mv else 1 + mv)) (\<lambda>move_factor.
     rbind (pp_bounded (m * move_factor)) (\<lambda>ex. rbind (pp_bounded (1 / m)) (\<lambda>mark_inverse.
     rbind (pp_bounded (1 / ex)) (\<lambda>exit_inverse. rbind (pp_bounded (mark_inverse - exit_inverse)) (\<lambda>reciprocal_delta.
     rbind (pp_bounded (n * f)) (\<lambda>notional. rbind (pp_bounded (notional * reciprocal_delta)) (\<lambda>pnl.
       pp_bounded (if pnl < 0 then - pnl else 0))))))))))))))))"

definition funding_cashflow :: "perpetual_contract \<Rightarrow> pynum \<Rightarrow> pynum \<Rightarrow> market_snapshot \<Rightarrow> funding_convention
    \<Rightarrow> moment \<Rightarrow> (string \<times> decimal) result" where
  "funding_cashflow c signed_contracts funding_rate mk conv now =
     (if pc_payoff c \<noteq> LINEAR then Inl PerpetualError
      else rbind (market_require_valid mk now) (\<lambda>_. rbind (pp_decimal funding_rate False) (\<lambda>rate.
      rbind (linear_notional signed_contracts (PyDecimal (pc_multiplier c)) (PyDecimal (price_of_basis mk conv))) (\<lambda>notional.
      rbind (pp_multiply [notional, rate]) (\<lambda>raw.
      rbind (if fc_positive_rate_effect conv = LONG_PAYS then pp_multiply [raw, Decimal True 1 0] else Inr raw) (\<lambda>cashflow.
        Inr (pc_settlement_currency c, cashflow)))))))"

definition stressed_loss :: "perpetual_contract \<Rightarrow> pynum \<Rightarrow> pynum \<Rightarrow> pynum \<Rightarrow> decimal result" where
  "stressed_loss c signed_contracts mark_price adverse_move =
     (if pc_payoff c \<noteq> LINEAR then Inl PerpetualError
      else rbind (pp_decimal signed_contracts False) (\<lambda>position. rbind (pp_decimal mark_price True) (\<lambda>mark.
      rbind (pp_decimal adverse_move True) (\<lambda>move.
      if 1 \<le> dval move then Inl PerpetualError
      else rbind (pp_fraction position) (\<lambda>n. rbind (pp_fraction (pc_multiplier c)) (\<lambda>f.
      rbind (pp_fmul \<bar>n\<bar> f) (\<lambda>loss1. rbind (pp_fraction mark) (\<lambda>m. rbind (pp_fmul loss1 m) (\<lambda>loss2.
      rbind (pp_fraction move) (\<lambda>mv. rbind (pp_fmul loss2 mv) (\<lambda>loss3. pp_finite loss3)))))))))))"

definition require_new_risk_capacity :: "margin_snapshot \<Rightarrow> market_snapshot \<Rightarrow> pynum \<Rightarrow> pynum \<Rightarrow> moment \<Rightarrow> unit result" where
  "require_new_risk_capacity mg mk stressed_position_loss reserve_buffer now =
     rbind (margin_require_fresh mg now) (\<lambda>_. rbind (market_require_valid mk now) (\<lambda>_.
     rbind (pp_decimal stressed_position_loss False) (\<lambda>loss.
     if dval loss < 0 then Inl PerpetualError
     else rbind (pp_decimal reserve_buffer False) (\<lambda>buffer.
     if dval buffer < 0 then Inl PerpetualError
     else rbind (pp_sum [mg_maintenance_requirement mg, loss, buffer]) (\<lambda>required.
     if dval (mg_equity mg) \<le> dval required then Inl PerpetualError else Inr ())))))"

section \<open>What the steps compute\<close>

lemma pp_decimal_Inr: "pp_decimal v positive = Inr d \<Longrightarrow> in_envelope d \<and> dval d = pyval v \<and> (positive \<longrightarrow> 0 < dval d)"
  by (cases v) (auto simp: pp_decimal_def pp_translate_def dest: parse_Inr split: if_splits)

lemma pp_ops_Inr [simp, result_simps]:
  "pp_utc v = Inr us \<longleftrightarrow> v = Moment us"
  "pp_fraction d = Inr q \<longleftrightarrow> in_envelope d \<and> q = dval d"
  "pp_bounded q = Inr r \<longleftrightarrow> rat_bounded q \<and> r = q"
  "pp_text t = Inr u \<longleftrightarrow> strip t \<noteq> [] \<and> u = strip t"
  by (cases v) (auto simp: pp_utc_def pp_fraction_def pp_bounded_def pp_translate_def pp_text_def)

lemma pp_exact_Inr:
  "pp_finite q = Inr d \<Longrightarrow> in_envelope d \<and> dval d = q"
  "pp_multiply ds = Inr d \<Longrightarrow> in_envelope d \<and> dval d = prod_list (map dval ds)"
  "pp_add a b = Inr d \<Longrightarrow> in_envelope d \<and> dval d = dval a + dval b"
  "pp_sum ds = Inr d \<Longrightarrow> in_envelope d \<and> dval d = sum_list (map dval ds)"
  by (auto simp: pp_finite_def pp_multiply_def pp_add_def pp_sum_def pp_translate_def
      dest: terminating_decimal_sound exact.product_val exact.total_val exact.add_val)

lemma check_age_Inr: "check_age ob limit now = Inr u \<longleftrightarrow> (\<exists>t. now = Moment t \<and> ob \<le> t \<and> t - ob \<le> limit)"
  by (auto simp: check_age_def not_less)

text \<open>A market snapshot that is accepted at an instant: observed before it, not too old, and with a mark
  close to the index.\<close>

definition market_valid :: "market_snapshot \<Rightarrow> moment \<Rightarrow> bool" where
  "market_valid mk now \<longleftrightarrow> (\<exists>t. now = Moment t \<and> mk_observed_at mk \<le> t \<and> t - mk_observed_at mk \<le> mk_max_age mk)
     \<and> \<bar>dval (mk_mark_price mk) - dval (mk_index_price mk)\<bar> \<le> dval (mk_max_deviation mk) * dval (mk_index_price mk)"

lemma market_require_valid_Inr: "market_require_valid mk now = Inr u \<Longrightarrow> market_valid mk now"
  by (auto simp: market_require_valid_def market_valid_def check_age_Inr pp_fsub_def pp_fmul_def Let_def not_less
      split: if_splits)

lemma linear_notional_Inr:
  assumes "linear_notional n m p = Inr d"
  shows "dval d = pyval n * pyval m * pyval p" and "0 < pyval m" and "0 < pyval p"
  using assms
  by (auto simp: linear_notional_def dest!: pp_decimal_Inr pp_exact_Inr)

lemma inverse_pnl_Inr:
  assumes "inverse_perpetual_pnl_exact c n en ex = Inr pnl"
  shows "pnl = pyval n * dval (pc_multiplier c) * (1 / pyval en - 1 / pyval ex)"
    and "0 < dval (pc_multiplier c)" and "0 < pyval en" and "0 < pyval ex"
  using assms
  by (auto simp: inverse_perpetual_pnl_exact_def dest!: pp_decimal_Inr)

lemma stressed_loss_Inr:
  assumes "stressed_loss c n m mv = Inr loss"
  shows "dval loss = \<bar>pyval n\<bar> * dval (pc_multiplier c) * pyval m * pyval mv"
    and "0 < pyval m" and "0 < pyval mv" and "pyval mv < 1"
  using assms
  by (auto simp: stressed_loss_def pp_fmul_def not_le split: if_splits dest!: pp_decimal_Inr pp_exact_Inr)

text \<open>The stressed price of a position is below the mark for a long and above it for a short.\<close>

definition stressed_price :: "rat \<Rightarrow> rat \<Rightarrow> rat \<Rightarrow> rat" where
  "stressed_price n m mv = m * (if 0 < n then 1 - mv else 1 + mv)"

lemma inverse_stress_terms:
  fixes n f m mv :: rat
  assumes "n \<noteq> 0" and "0 < f" and "0 < m" and "0 < mv" and "mv < 1"
  shows "n * f * (1 / m - 1 / stressed_price n m mv) < 0"
proof (cases "0 < n")
  case True
  then have "0 < stressed_price n m mv" "stressed_price n m mv < m"
    using assms by (auto simp: stressed_price_def)
  then have "1 / m < 1 / stressed_price n m mv" by (simp add: frac_less2)
  with True assms show ?thesis by (simp add: mult_pos_neg)
next
  case False
  then have "m < stressed_price n m mv" using assms by (simp add: stressed_price_def)
  then have "1 / stressed_price n m mv < 1 / m" using assms by (simp add: frac_less2)
  moreover have "n * f < 0" using False assms by (simp add: mult_neg_pos)
  ultimately show ?thesis by (simp add: mult_neg_pos)
qed

lemma inverse_stressed_loss_Inr:
  assumes "inverse_stressed_loss_exact c n m mv = Inr loss" and "0 < dval (pc_multiplier c)"
  shows "if pyval n = 0 then loss = 0
    else 0 < pyval m \<and> 0 < pyval mv \<and> pyval mv < 1 \<and> 0 < loss
      \<and> loss = - (pyval n * dval (pc_multiplier c) * (1 / pyval m - 1 / stressed_price (pyval n) (pyval m) (pyval mv)))"
proof (cases "pyval n = 0")
  case True
  with assms(1) show ?thesis by (auto simp: inverse_stressed_loss_exact_def dest!: pp_decimal_Inr)
next
  case False
  let ?pnl = "pyval n * dval (pc_multiplier c) * (1 / pyval m - 1 / stressed_price (pyval n) (pyval m) (pyval mv))"
  have run: "0 < pyval m" "0 < pyval mv" "pyval mv < 1" "loss = (if ?pnl < 0 then - ?pnl else 0)"
    using assms(1) False
    by (auto simp: inverse_stressed_loss_exact_def stressed_price_def not_le dest!: pp_decimal_Inr split: if_splits)
  moreover have "?pnl < 0" using False assms(2) run(1-3) by (rule inverse_stress_terms)
  ultimately show ?thesis using False by auto
qed

section \<open>Stress, admission and liquidation\<close>

text \<open>A linear position gains and loses in proportion to the price, an inverse one in proportion to its reciprocal.\<close>

lemma linear_move_bounded:
  fixes n f m mv x :: rat
  assumes "0 < f" and "\<bar>x - m\<bar> \<le> mv * m"
  shows "- (\<bar>n\<bar> * f * m * mv) \<le> n * f * x - n * f * m"
proof -
  have "\<bar>n * f * (x - m)\<bar> \<le> \<bar>n\<bar> * f * (mv * m)"
    using assms by (simp add: abs_mult mult_left_mono)
  then show ?thesis by (simp add: algebra_simps abs_le_iff)
qed

lemma inverse_move_bounded:
  fixes n f m mv x :: rat
  assumes "0 < f" and "0 < m" and "0 < x" and "0 < mv" and "mv < 1" and "\<bar>x - m\<bar> \<le> mv * m"
  shows "n * f * (1 / m - 1 / stressed_price n m mv) \<le> n * f * (1 / m - 1 / x)"
proof (cases "0 < n")
  case True
  have "0 < stressed_price n m mv" "stressed_price n m mv \<le> x"
    using True assms by (simp_all add: stressed_price_def abs_le_iff algebra_simps)
  then have "1 / x \<le> 1 / stressed_price n m mv" by (simp add: frac_le)
  with True assms(1) show ?thesis by (simp add: mult_left_mono)
next
  case False
  then have "x \<le> stressed_price n m mv" using assms by (simp add: stressed_price_def abs_le_iff algebra_simps)
  then have "1 / stressed_price n m mv \<le> 1 / x" using assms(3) by (simp add: frac_le)
  moreover have "n * f \<le> 0" using False assms(1) by (simp add: mult_nonpos_nonneg)
  ultimately show ?thesis by (simp add: mult_left_mono_neg)
qed

text \<open>The stressed loss of an inverse position covers every move up to the stressed one.  Whatever exit price within
  the adverse fraction of the mark the position is closed at, its exact profit is at least minus the
  stressed loss, and at the stressed price itself it is exactly that.\<close>

theorem inverse_stress_covers_move:
  assumes "inverse_stressed_loss_exact c n mark move = Inr loss"
    and "inverse_perpetual_pnl_exact c n mark x = Inr pnl"
    and "\<bar>pyval x - pyval mark\<bar> \<le> pyval move * pyval mark"
  shows "0 \<le> loss \<and> - loss \<le> pnl
    \<and> (pyval x = stressed_price (pyval n) (pyval mark) (pyval move) \<longrightarrow> pnl = - loss)"
proof -
  note pnl = inverse_pnl_Inr [OF assms(2)]
  note loss = inverse_stressed_loss_Inr [OF assms(1) pnl(2)]
  show ?thesis
  proof (cases "pyval n = 0")
    case True
    with pnl(1) loss show ?thesis by simp
  next
    case False
    with loss have mv: "0 < pyval move" "pyval move < 1" "0 < loss" by simp_all
    from inverse_move_bounded [OF pnl(2,3,4) mv(1,2) assms(3), of "pyval n"] pnl(1) loss False
    show ?thesis by auto
  qed
qed

text \<open>(C36) A position admitted with its stressed loss survives the stress.  When the stressed loss of a linear position is
  passed to \<open>require_new_risk_capacity\<close> and accepted, the margin and market evidence are fresh, and after
  any price move up to the stressed fraction the equity, changed by the move of the position's notional,
  still exceeds the maintenance requirement plus the reserve buffer.\<close>

theorem admitted_position_survives_stress:
  assumes "stressed_loss c n (PyDecimal (mk_mark_price mk)) move = Inr loss"
    and "require_new_risk_capacity mg mk (PyDecimal loss) reserve_buffer now = Inr ()"
    and "linear_notional n (PyDecimal (pc_multiplier c)) (PyDecimal (mk_mark_price mk)) = Inr before"
    and "linear_notional n (PyDecimal (pc_multiplier c)) x = Inr moved"
    and "\<bar>pyval x - dval (mk_mark_price mk)\<bar> \<le> pyval move * dval (mk_mark_price mk)"
  shows "market_valid mk now \<and> (\<exists>t. now = Moment t \<and> mg_observed_at mg \<le> t \<and> t - mg_observed_at mg \<le> mg_max_age mg)
    \<and> dval (mg_maintenance_requirement mg) + pyval reserve_buffer < dval (mg_equity mg) + (dval moved - dval before)"
proof -
  note loss = stressed_loss_Inr [OF assms(1)]
  note before = linear_notional_Inr [OF assms(3)] and moved = linear_notional_Inr [OF assms(4)]
  have fresh: "margin_require_fresh mg now = Inr ()" and mk: "market_require_valid mk now = Inr ()"
    and cover: "dval (mg_maintenance_requirement mg) + dval loss + pyval reserve_buffer < dval (mg_equity mg)"
    using assms(2)
    by (auto simp: require_new_risk_capacity_def not_le add.assoc dest!: pp_decimal_Inr pp_exact_Inr(4) split: if_splits)
  have "- dval loss \<le> dval moved - dval before"
    using linear_move_bounded [OF before(2), of "pyval x" "dval (mk_mark_price mk)" "pyval move" "pyval n"] assms(5)
      loss(1) before(1) moved(1) by simp
  with cover market_require_valid_Inr [OF mk] fresh show ?thesis
    by (simp add: margin_require_fresh_def check_age_Inr)
qed

text \<open>Liquidation headroom.  An accepted headroom is at least the configured minimum and positive, its evidence is
  fresh, and no price closer to the mark than the headroom reaches the liquidation boundary.\<close>

theorem liquidation_headroom_is_safe:
  assumes "require_liquidation_headroom lq mk minimum now = Inr h"
  shows "pyval minimum \<le> h \<and> 0 \<le> pyval minimum \<and> 0 < h \<and> market_valid mk now
    \<and> (\<exists>t. now = Moment t \<and> lq_observed_at lq \<le> t \<and> t - lq_observed_at lq \<le> lq_max_age lq)
    \<and> (\<forall>x. \<bar>x - dval (mk_mark_price mk)\<bar> < h * dval (mk_mark_price mk) \<longrightarrow>
         (case lq_side lq of LONG \<Rightarrow> dval (lq_liquidation_price lq) < x | SHORT \<Rightarrow> x < dval (lq_liquidation_price lq)))"
proof -
  let ?m = "dval (mk_mark_price mk)" and ?l = "dval (lq_liquidation_price lq)"
  let ?d = "case lq_side lq of LONG \<Rightarrow> ?m - ?l | SHORT \<Rightarrow> ?l - ?m"
  have fresh: "liquidation_require_fresh lq now = Inr ()" and mk: "market_require_valid mk now = Inr ()"
    and min: "0 \<le> pyval minimum" "pyval minimum * ?m \<le> ?d"
    and h: "headroom_fraction lq (PyDecimal (mk_mark_price mk)) = Inr h"
    using assms
    by (auto simp: require_liquidation_headroom_def liquidation_distance_def pp_fsub_def pp_fmul_def not_less
        dest!: pp_decimal_Inr split: if_splits position_side.splits)
  have m: "0 < ?m" and d: "0 < ?d" and hv: "h = ?d / ?m"
    using h by (auto simp: headroom_fraction_def pp_fsub_def pp_fdiv_def not_le dest!: pp_decimal_Inr
        split: if_splits position_side.splits)
  have "pyval minimum \<le> h" "0 < h" "h * ?m = ?d" using min m d hv by (simp_all add: pos_le_divide_eq)
  moreover have "case lq_side lq of LONG \<Rightarrow> ?l < x | SHORT \<Rightarrow> x < ?l" if "\<bar>x - ?m\<bar> < h * ?m" for x
    using that \<open>h * ?m = ?d\<close> by (cases "lq_side lq") auto
  ultimately show ?thesis
    using min(1) market_require_valid_Inr [OF mk] fresh by (simp add: liquidation_require_fresh_def check_age_Inr)
qed

section \<open>Funding\<close>

definition funding_sign :: "funding_convention \<Rightarrow> rat" where
  "funding_sign conv = (if fc_positive_rate_effect conv = LONG_PAYS then - 1 else 1)"

lemma funding_cashflow_Inr:
  assumes "funding_cashflow c n rate mk conv now = Inr (u, a)"
  shows "u = pc_settlement_currency c"
    and "dval a = funding_sign conv * (pyval n * dval (pc_multiplier c) * dval (price_of_basis mk conv) * pyval rate)"
    and "0 < dval (pc_multiplier c)" and "0 < dval (price_of_basis mk conv)"
proof -
  obtain rt notional raw where run: "pp_decimal rate False = Inr rt"
    "linear_notional n (PyDecimal (pc_multiplier c)) (PyDecimal (price_of_basis mk conv)) = Inr notional"
    "pp_multiply [notional, rt] = Inr raw"
    "(if fc_positive_rate_effect conv = LONG_PAYS then pp_multiply [raw, Decimal True 1 0] else Inr raw) = Inr a"
    "u = pc_settlement_currency c"
    using assms by (auto simp: funding_cashflow_def split: if_splits)
  have "dval a = funding_sign conv * dval raw"
    using run(4) by (auto simp: funding_sign_def dest: pp_exact_Inr(2) split: if_splits)
  moreover have "dval raw = dval notional * pyval rate"
    using pp_exact_Inr(2) [OF run(3)] pp_decimal_Inr [OF run(1)] by simp
  moreover note linear_notional_Inr [OF run(2)]
  ultimately show "dval a = funding_sign conv * (pyval n * dval (pc_multiplier c) * dval (price_of_basis mk conv) * pyval rate)"
    and "0 < dval (pc_multiplier c)" and "0 < dval (price_of_basis mk conv)" by simp_all
  show "u = pc_settlement_currency c" by (rule run(5))
qed

lemma inverse_funding_Inr:
  assumes "inverse_funding_cashflow_exact c n rate mk conv now = Inr (u, a)"
  shows "u = pc_settlement_currency c"
    and "a = funding_sign conv * (pyval n * dval (pc_multiplier c) / dval (price_of_basis mk conv) * pyval rate)"
  using assms
  by (auto simp: inverse_funding_cashflow_exact_def funding_sign_def dest!: pp_decimal_Inr split: if_splits)

text \<open>Funding is zero-sum: at the same rate, market and convention a long and a short of the same size exchange exactly
  opposite cashflows in the settlement currency, and with a positive rate the long pays precisely when the
  convention says so.  This holds of linear contracts and of inverse ones.\<close>

theorem funding_is_zero_sum:
  assumes "pyval short = - pyval long"
  shows "(\<forall>u a v b. funding_cashflow c long rate mk conv now = Inr (u, a)
        \<longrightarrow> funding_cashflow c short rate mk conv now = Inr (v, b)
        \<longrightarrow> u = v \<and> dval a + dval b = 0
          \<and> (0 < pyval long \<longrightarrow> 0 < pyval rate \<longrightarrow> (dval a < 0 \<longleftrightarrow> fc_positive_rate_effect conv = LONG_PAYS)))
    \<and> (\<forall>u a v b. inverse_funding_cashflow_exact c long rate mk conv now = Inr (u, a)
        \<longrightarrow> inverse_funding_cashflow_exact c short rate mk conv now = Inr (v, b)
        \<longrightarrow> u = v \<and> a + b = 0)"
proof (intro conjI allI impI)
  fix u a v b
  assume k: "funding_cashflow c long rate mk conv now = Inr (u, a)" "funding_cashflow c short rate mk conv now = Inr (v, b)"
  note l = funding_cashflow_Inr [OF k(1)] and s = funding_cashflow_Inr [OF k(2)]
  show "u = v" using l(1) s(1) by simp
  show "dval a + dval b = 0" using l(2) s(2) assms by simp
  assume "0 < pyval long" "0 < pyval rate"
  with l(3,4) have "0 < pyval long * dval (pc_multiplier c) * dval (price_of_basis mk conv) * pyval rate" by simp
  with l(2) show "dval a < 0 \<longleftrightarrow> fc_positive_rate_effect conv = LONG_PAYS" by (simp add: funding_sign_def)
next
  fix u a v b
  assume k: "inverse_funding_cashflow_exact c long rate mk conv now = Inr (u, a)"
    "inverse_funding_cashflow_exact c short rate mk conv now = Inr (v, b)"
  note l = inverse_funding_Inr [OF k(1)] and s = inverse_funding_Inr [OF k(2)]
  show "u = v" using l(1) s(1) by simp
  show "a + b = 0" using l(2) s(2) assms by simp
qed

section \<open>Example\<close>

text \<open>Ten contracts of a linear and of an inverse perpetual, an hour of market evidence and a margin account.\<close>

definition btc_linear :: perpetual_contract where
  "btc_linear = \<lparr>pc_instrument_id = ''BTC-PERP'', pc_settlement_currency = ''USD'', pc_collateral_currency = ''USD'',
     pc_multiplier = Decimal False 1 (- 2), pc_payoff = LINEAR, pc_face_currency = None,
     pc_price_quote_currency = None, pc_price_base_currency = None\<rparr>"

definition btc_inverse :: perpetual_contract where
  "btc_inverse = \<lparr>pc_instrument_id = ''BTCUSD'', pc_settlement_currency = ''BTC'', pc_collateral_currency = ''BTC'',
     pc_multiplier = Decimal False 100 0, pc_payoff = INVERSE, pc_face_currency = Some ''USD'',
     pc_price_quote_currency = Some ''USD'', pc_price_base_currency = Some ''BTC''\<rparr>"

definition btc_market :: market_snapshot where
  "btc_market = \<lparr>mk_mark_price = Decimal False 50000 0, mk_index_price = Decimal False 50010 0, mk_observed_at = 1000,
     mk_max_age = 3600, mk_max_deviation = Decimal False 1 (- 2)\<rparr>"

definition account_margin :: margin_snapshot where
  "account_margin = \<lparr>mg_equity = Decimal False 2000 0, mg_maintenance_requirement = Decimal False 250 0,
     mg_observed_at = 1000, mg_max_age = 3600\<rparr>"

definition long_boundary :: liquidation_snapshot where
  "long_boundary = \<lparr>lq_side = LONG, lq_liquidation_price = Decimal False 40000 0, lq_tier_id = ''T1'',
     lq_evidence_ref = ''ev1'', lq_observed_at = 1000, lq_max_age = 3600\<rparr>"

theorem inverse_stress_covers_move_witness:
  "\<exists>loss pnl. inverse_stressed_loss_exact btc_inverse (PyInt 10) (PyInt 50000) (PyStr ''0.2'') = Inr loss
    \<and> inverse_perpetual_pnl_exact btc_inverse (PyInt 10) (PyInt 50000) (PyInt 40000) = Inr pnl \<and> pnl = - loss"
proof -
  have r: "inverse_stressed_loss_exact btc_inverse (PyInt 10) (PyInt 50000) (PyStr ''0.2'') = Inr (1 / 200)"
    "inverse_perpetual_pnl_exact btc_inverse (PyInt 10) (PyInt 50000) (PyInt 40000) = Inr (- (1 / 200))"
    "\<bar>pyval (PyInt 40000) - pyval (PyInt 50000)\<bar> \<le> pyval (PyStr ''0.2'') * pyval (PyInt 50000)"
    "pyval (PyInt 40000) = stressed_price (pyval (PyInt 10)) (pyval (PyInt 50000)) (pyval (PyStr ''0.2''))"
    by code_simp+
  from inverse_stress_covers_move [OF r(1-3)] r show ?thesis by blast
qed

theorem admitted_position_survives_stress_witness:
  "dval (mg_maintenance_requirement account_margin) + 100 < dval (mg_equity account_margin) + (4000 - 5000)"
proof -
  have r: "stressed_loss btc_linear (PyInt 10) (PyDecimal (mk_mark_price btc_market)) (PyStr ''0.2'') = Inr (Decimal False 1000 0)"
    "require_new_risk_capacity account_margin btc_market (PyDecimal (Decimal False 1000 0)) (PyInt 100) (Moment 2000) = Inr ()"
    "linear_notional (PyInt 10) (PyDecimal (pc_multiplier btc_linear)) (PyDecimal (mk_mark_price btc_market)) = Inr (Decimal False 5000 0)"
    "linear_notional (PyInt 10) (PyDecimal (pc_multiplier btc_linear)) (PyInt 40000) = Inr (Decimal False 4000 0)"
    "\<bar>pyval (PyInt 40000) - dval (mk_mark_price btc_market)\<bar> \<le> pyval (PyStr ''0.2'') * dval (mk_mark_price btc_market)"
    by code_simp+
  have "dval (Decimal False 5000 0) = 5000" "dval (Decimal False 4000 0) = 4000" by code_simp+
  with admitted_position_survives_stress [OF r] show ?thesis by simp
qed

theorem liquidation_headroom_is_safe_witness:
  "\<exists>h. require_liquidation_headroom long_boundary btc_market (PyStr ''0.1'') (Moment 2000) = Inr h
    \<and> pyval (PyStr ''0.1'') \<le> h \<and> 0 < h"
proof -
  have r: "require_liquidation_headroom long_boundary btc_market (PyStr ''0.1'') (Moment 2000) = Inr (1 / 5)"
    by code_simp
  from liquidation_headroom_is_safe [OF r] r show ?thesis by blast
qed

definition long_pays_mark :: funding_convention where
  "long_pays_mark = \<lparr>fc_positive_rate_effect = LONG_PAYS, fc_price_basis = MARK\<rparr>"

theorem funding_is_zero_sum_witness:
  "\<exists>a b. funding_cashflow btc_linear (PyInt 10) (PyStr ''0.0001'') btc_market long_pays_mark (Moment 2000) = Inr (''USD'', a)
    \<and> funding_cashflow btc_linear (PyInt (- 10)) (PyStr ''0.0001'') btc_market long_pays_mark (Moment 2000) = Inr (''USD'', b)
    \<and> dval a + dval b = 0 \<and> dval a < 0"
proof -
  let ?long = "Decimal True 5 (- 1)" and ?short = "Decimal False 5 (- 1)"
  have r: "funding_cashflow btc_linear (PyInt 10) (PyStr ''0.0001'') btc_market long_pays_mark (Moment 2000) = Inr (''USD'', ?long)"
    "funding_cashflow btc_linear (PyInt (- 10)) (PyStr ''0.0001'') btc_market long_pays_mark (Moment 2000) = Inr (''USD'', ?short)"
    "pyval (PyInt (- 10)) = - pyval (PyInt 10)" "0 < pyval (PyInt 10)" "0 < pyval (PyStr ''0.0001'')"
    "fc_positive_rate_effect long_pays_mark = LONG_PAYS"
    by code_simp+
  from funding_is_zero_sum [OF r(3)] r show ?thesis by blast
qed

end
