(* ===== verification/Json_Text.thy ===== *)
theory Json_Text
  imports Exact_Decimal_Text "HOL-Library.List_Lexorder" "HOL-Library.Char_ord"
begin

text \<open>
  \<open>json.dumps(value, separators=(",", ":"), sort_keys=True)\<close>, the text every digest of the platform is taken of,
  with \<open>ensure_ascii=True\<close> (\<open>json_text\<close>) or \<open>False\<close> (\<open>json_text_raw\<close>).  Two values without floats have the same
  text exactly when they are the same up to the order of object keys; the proof is done once, for any
  escaping of characters that can be undone (locale \<open>json_escaping\<close>).
\<close>

section \<open>Values and their text\<close>

datatype json = JNull | JBool bool | JInt int | JStr string | JList "json list" | JObj "(string \<times> json) list"

text \<open>\<open>json.dumps\<close> of a string: printable ASCII except quote and backslash stands for itself.\<close>

definition hex_digit :: "nat \<Rightarrow> char" where
  "hex_digit n = char_of (if n < 10 then 48 + n else 87 + n)"

definition json_escape :: "char \<Rightarrow> string" where
  "json_escape c = (let n = (of_char c :: nat) in
     if n = 92 \<or> n = 34 then [CHR 0x5C, c]
     else if 32 \<le> n \<and> n \<le> 126 then [c]
     else if n = 10 then [CHR 0x5C, CHR ''n''] else if n = 13 then [CHR 0x5C, CHR ''r'']
     else if n = 9 then [CHR 0x5C, CHR ''t''] else if n = 12 then [CHR 0x5C, CHR ''f'']
     else if n = 8 then [CHR 0x5C, CHR ''b'']
     else CHR 0x5C # ''u00'' @ [hex_digit (n div 16), hex_digit (n mod 16)])"

text \<open>With \<open>ensure_ascii=False\<close> only the control characters are escaped.\<close>

definition raw_escape :: "char \<Rightarrow> string" where
  "raw_escape c = (if 127 \<le> (of_char c :: nat) then [c] else json_escape c)"

definition json_string :: "(char \<Rightarrow> string) \<Rightarrow> string \<Rightarrow> string" where
  "json_string esc s = CHR 0x22 # concat (map esc s) @ [CHR 0x22]"

definition int_text :: "int \<Rightarrow> string" where
  "int_text n = (if n < 0 then CHR ''-'' # digits_text (digits_of (nat (- n))) else digits_text (digits_of (nat n)))"

definition comma_list :: "string list \<Rightarrow> string" where
  "comma_list ts = (case ts of [] \<Rightarrow> [] | t # us \<Rightarrow> t @ concat (map (\<lambda>u. CHR '','' # u) us))"

fun json_dumps :: "(char \<Rightarrow> string) \<Rightarrow> json \<Rightarrow> string" where
  "json_dumps esc JNull = ''null''"
| "json_dumps esc (JBool b) = (if b then ''true'' else ''false'')"
| "json_dumps esc (JInt n) = int_text n"
| "json_dumps esc (JStr s) = json_string esc s"
| "json_dumps esc (JList vs) = CHR ''['' # comma_list (map (json_dumps esc) vs) @ '']''"
| "json_dumps esc (JObj kvs) =
     CHR ''{'' # comma_list (map (\<lambda>(k, v). json_string esc k @ CHR '':'' # json_dumps esc v) kvs) @ ''}''"

text \<open>\<open>sort_keys=True\<close>.\<close>

fun json_sort :: "json \<Rightarrow> json" where
  "json_sort (JList vs) = JList (map json_sort vs)"
| "json_sort (JObj kvs) = JObj (sort_key fst (map (\<lambda>(k, v). (k, json_sort v)) kvs))"
| "json_sort v = v"

definition json_text :: "json \<Rightarrow> string" where
  "json_text v = json_dumps json_escape (json_sort v)"

definition json_text_raw :: "json \<Rightarrow> string" where
  "json_text_raw v = json_dumps raw_escape (json_sort v)"

section \<open>Strings and numbers\<close>

definition escape_value :: "string \<Rightarrow> char" where
  "escape_value t =
     (if hd t \<noteq> CHR 0x5C then hd t
      else if t ! 1 = CHR ''u'' then
        char_of (let v = (\<lambda>c. if (of_char c :: nat) < 58 then of_char c - 48 else of_char c - 87 :: nat)
                 in v (t ! 4) * 16 + v (t ! 5))
      else if t ! 1 = CHR ''n'' then CHR 0x0A else if t ! 1 = CHR ''r'' then CHR 0x0D
      else if t ! 1 = CHR ''t'' then CHR 0x09 else if t ! 1 = CHR ''f'' then CHR 0x0C
      else if t ! 1 = CHR ''b'' then CHR 0x08 else t ! 1)"

definition escape_ok :: "string \<Rightarrow> char \<Rightarrow> bool" where
  "escape_ok t c \<longleftrightarrow> escape_value t = c \<and> hd t \<noteq> CHR 0x22
     \<and> (if hd t \<noteq> CHR 0x5C then length t = 1 else if t ! 1 \<noteq> CHR ''u'' then length t = 2 else length t = 6)"

lemma hex_digit_code: "k < 16 \<Longrightarrow> (of_char (hex_digit k) :: nat) = (if k < 10 then 48 + k else 87 + k)"
  by (simp add: hex_digit_def)

lemma hex_escape_ok:
  assumes "a < 16" and "b < 16"
  shows "escape_ok (CHR 0x5C # ''u00'' @ [hex_digit a, hex_digit b]) (char_of (a * 16 + b))"
  using assms by (simp add: escape_ok_def escape_value_def hex_digit_code Let_def)

lemma escapes_ok: "escape_ok (json_escape c) c" "escape_ok (raw_escape c) c"
proof -
  let ?n = "of_char c :: nat"
  have c: "?n div 16 < 16" by (rule less_mult_imp_div_less) simp
  have named: "c = d" if "?n = of_char d" for d using that by (metis of_char_eq_iff)
  show 1: "escape_ok (json_escape c) c"
  proof (cases "?n \<in> {92, 34, 10, 13, 9, 12, 8}")
    case True
    let ?ds = "[CHR 0x5C, CHR 0x22, CHR 0x0A, CHR 0x0D, CHR 0x09, CHR 0x0C, CHR 0x08]"
    have "list_all (\<lambda>d. escape_ok (json_escape d) d) ?ds"
      by (simp add: escape_ok_def escape_value_def json_escape_def)
    moreover from True have "?n \<in> of_char ` set ?ds" by simp
    ultimately show ?thesis using named by (auto simp only: list_all_iff)
  next
    case False
    then have ne: "c \<noteq> CHR 0x5C" "c \<noteq> CHR 0x22" by auto
    show ?thesis
    proof (cases "32 \<le> ?n \<and> ?n \<le> 126")
      case True
      with False ne show ?thesis by (simp add: escape_ok_def escape_value_def json_escape_def Let_def)
    next
      case False': False
      with False have "json_escape c = CHR 0x5C # ''u00'' @ [hex_digit (?n div 16), hex_digit (?n mod 16)]"
        by (auto simp: json_escape_def Let_def)
      moreover have "c = char_of (?n div 16 * 16 + ?n mod 16)" by simp
      ultimately show ?thesis using hex_escape_ok [OF c, of "?n mod 16"] by simp
    qed
  qed
  have "escape_ok [c] c" if "127 \<le> ?n"
    using that by (auto simp: escape_ok_def escape_value_def)
  with 1 show "escape_ok (raw_escape c) c" by (simp add: raw_escape_def)
qed

text \<open>What an escaping needs for the text to be readable: escapes can be told apart and none starts with a quote.\<close>

locale json_escaping =
  fixes esc :: "char \<Rightarrow> string"
  assumes esc_append: "esc c @ r = esc d @ s \<Longrightarrow> c = d \<and> r = s"
    and esc_quote: "esc c @ r \<noteq> CHR 0x22 # s"

lemma escape_append_inj:
  assumes "escape_ok t c" and "escape_ok u d" and "t @ r = u @ s"
  shows "c = d \<and> r = s"
proof -
  have len: "0 < length x" "hd x = CHR 0x5C \<Longrightarrow> 1 < length x" if "escape_ok x e" for x e
    using that by (auto simp: escape_ok_def split: if_splits)
  have hd: "hd t = hd u" using assms len(1) by (metis hd_append2 length_greater_0_conv)
  have snd: "t ! 1 = u ! 1" if "hd t = CHR 0x5C"
    using arg_cong [OF assms(3), of "\<lambda>t. t ! 1"] len(2) [OF assms(1)] len(2) [OF assms(2)] hd that by (simp add: nth_append)
  have "length t = length u"
    using assms(1,2) hd snd by (auto simp: escape_ok_def split: if_splits)
  then have "t = u" "r = s" using assms(3) by auto
  with assms(1,2) show ?thesis by (auto simp: escape_ok_def)
qed

lemma escape_not_quote: "escape_ok t c \<Longrightarrow> t @ r \<noteq> CHR 0x22 # s"
  by (cases t) (auto simp: escape_ok_def split: if_splits)

interpretation ascii_json: json_escaping json_escape
  using escape_append_inj [OF escapes_ok(1) escapes_ok(1)] escape_not_quote [OF escapes_ok(1)] by unfold_locales blast+

interpretation raw_json: json_escaping raw_escape
  using escape_append_inj [OF escapes_ok(2) escapes_ok(2)] escape_not_quote [OF escapes_ok(2)] by unfold_locales blast+

context json_escaping
begin

lemma json_string_append_inj:
  "json_string esc s @ r = json_string esc t @ q \<Longrightarrow> s = t \<and> r = q"
proof (induction s arbitrary: t)
  case Nil
  then show ?case by (cases t) (simp_all add: json_string_def esc_quote esc_quote [symmetric])
next
  case (Cons c s)
  show ?case
  proof (cases t)
    case Nil
    with Cons.prems show ?thesis by (simp add: json_string_def esc_quote esc_quote [symmetric])
  next
    case t: (Cons d u)
    with Cons.prems have "esc c @ (concat (map esc s) @ CHR 0x22 # r)
        = esc d @ (concat (map esc u) @ CHR 0x22 # q)" by (simp add: json_string_def)
    from esc_append [OF this] have "c = d" "json_string esc s @ r = json_string esc u @ q"
      by (simp_all add: json_string_def)
    with Cons.IH t show ?thesis by blast
  qed
qed

end

text \<open>What may follow a value inside a text.\<close>

definition delimited :: "string \<Rightarrow> bool" where
  "delimited r \<longleftrightarrow> r = [] \<or> hd r \<in> set '',]}''"

lemma digits_delimited:
  assumes "digits_text (digits_of m) @ r = digits_text (digits_of n) @ s" and "delimited r" and "delimited s"
  shows "m = n \<and> r = s"
proof -
  have nd: "\<not> is_digit (hd x)" if "delimited x" "x \<noteq> []" for x
    using that by (auto simp: delimited_def is_digit_def)
  have tw: "takeWhile is_digit (digits_text (digits_of k) @ x) = digits_text (digits_of k)" if "delimited x" for k x
  proof -
    have "\<forall>c \<in> set (digits_text (digits_of k)). is_digit c"
      using digits_text_all_digits [OF small_digits_of, of k] by (simp add: all_digits_def list_all_iff)
    then show ?thesis using nd [OF that] by (cases x) (auto simp: takeWhile_append2)
  qed
  have eq: "digits_text (digits_of m) = digits_text (digits_of n)"
    using tw [OF assms(2), of m] tw [OF assms(3), of n] assms(1) by simp
  then have "text_value (digits_text (digits_of m)) = text_value (digits_text (digits_of n))" by simp
  then have "m = n" by (simp add: text_value_digits)
  with assms(1) eq show ?thesis by simp
qed

lemma digits_head: "\<exists>c cs. digits_text (digits_of n) = c # cs \<and> is_digit c"
  using digits_text_all_digits [OF small_digits_of, of n] digits_of_nonempty [of n]
  by (cases "digits_text (digits_of n)") (auto simp: all_digits_def)

lemma int_text_delimited:
  assumes "int_text m @ r = int_text n @ s" and "delimited r" and "delimited s"
  shows "m = n \<and> r = s"
proof -
  have minus: False if "digits_text (digits_of k) @ x = CHR ''-'' # y" for k x y
    using that digits_head [of k] by (auto simp: is_digit_def)
  show ?thesis
  proof (cases "m < 0 \<longleftrightarrow> n < 0")
    case True
    with assms digits_delimited [of "nat \<bar>m\<bar>" r "nat \<bar>n\<bar>" s] show ?thesis
      by (auto simp: int_text_def split: if_splits)
  next
    case False
    with assms(1) minus show ?thesis by (fastforce simp: int_text_def dest: sym split: if_splits)
  qed
qed

section \<open>Texts determine values\<close>

text \<open>An encoding whose words can be told apart when they are followed by a delimiter.\<close>

definition readable_at :: "('a \<Rightarrow> string) \<Rightarrow> 'a \<Rightarrow> bool" where
  "readable_at enc x \<longleftrightarrow> (\<forall>y r s. delimited r \<longrightarrow> delimited s \<longrightarrow> enc x @ r = enc y @ s \<longrightarrow> x = y \<and> r = s)"

lemma readable_atD: "readable_at enc x \<Longrightarrow> enc x @ r = enc y @ s \<Longrightarrow> delimited r \<Longrightarrow> delimited s \<Longrightarrow> x = y \<and> r = s"
  by (auto simp: readable_at_def)

lemma delimited_simps [simp]:
  "delimited (CHR '','' # r)" "delimited (CHR '']'' # r)" "delimited (CHR ''}'' # r)" "delimited []"
  by (simp_all add: delimited_def)

lemma comma_rest_inj:
  assumes "\<forall>x \<in> set xs. readable_at enc x" and "close = CHR '']'' \<or> close = CHR ''}''"
    and "concat (map (\<lambda>u. CHR '','' # u) (map enc xs)) @ close # r = concat (map (\<lambda>u. CHR '','' # u) (map enc ys)) @ close # s"
  shows "xs = ys \<and> r = s"
  using assms
proof (induction xs arbitrary: ys)
  case Nil
  then show ?case by (cases ys) auto
next
  case (Cons x xs)
  show ?case
  proof (cases ys)
    case Nil
    with Cons.prems show ?thesis by auto
  next
    case ys: (Cons y zs)
    let ?rest = "\<lambda>ws t. concat (map (\<lambda>u. CHR '','' # u) (map enc ws)) @ close # t"
    have del: "delimited (?rest ws t)" for ws t using Cons.prems(2) by (cases ws) auto
    from Cons.prems(3) ys have eq: "enc x @ ?rest xs r = enc y @ ?rest zs s" by simp
    have "readable_at enc x" using Cons.prems(1) by simp
    from readable_atD [where r = "?rest xs r" and s = "?rest zs s", OF this eq del del] have "x = y" "?rest xs r = ?rest zs s" by auto
    with Cons.IH [of zs] Cons.prems(1,2) ys show ?thesis by simp
  qed
qed

lemma comma_list_inj:
  assumes "\<forall>x \<in> set xs. readable_at enc x" and "close = CHR '']'' \<or> close = CHR ''}''"
    and "\<And>x. \<exists>c cs. enc x = c # cs \<and> c \<noteq> close"
    and "comma_list (map enc xs) @ close # r = comma_list (map enc ys) @ close # s"
  shows "xs = ys \<and> r = s"
proof (cases xs)
  case xs: Nil
  show ?thesis
  proof (cases ys)
    case Nil
    with xs assms(4) show ?thesis by simp
  next
    case (Cons y vs)
    with assms(3) [of y] assms(4) xs show ?thesis by (auto simp: comma_list_def)
  qed
next
  case xs: (Cons x us)
  show ?thesis
  proof (cases ys)
    case Nil
    with assms(3) [of x] assms(4) xs show ?thesis by (auto simp: comma_list_def)
  next
    case ys: (Cons y vs)
    let ?rest = "\<lambda>ws t. concat (map (\<lambda>u. CHR '','' # u) (map enc ws)) @ close # t"
    have del: "delimited (?rest ws t)" for ws t using assms(2) by (cases ws) auto
    from assms(4) xs ys have eq: "enc x @ ?rest us r = enc y @ ?rest vs s" by (simp add: comma_list_def)
    have "readable_at enc x" using assms(1) xs by simp
    from readable_atD [where r = "?rest us r" and s = "?rest vs s", OF this eq del del] have "x = y" "?rest us r = ?rest vs s" by auto
    with comma_rest_inj [of us enc close r vs s] assms(1,2) xs ys show ?thesis by simp
  qed
qed

text \<open>The kind of a value shows in the first character of its text.\<close>

definition json_kind :: "string \<Rightarrow> nat" where
  "json_kind t = (let c = hd t in
     if c = CHR ''n'' then 0 else if c = CHR ''t'' then 1 else if c = CHR ''f'' then 2 else if c = CHR 0x22 then 3
     else if c = CHR ''['' then 4 else if c = CHR ''{'' then 5 else 6)"

context json_escaping
begin

lemma json_dumps_head: "\<exists>c cs. json_dumps esc v = c # cs \<and> c \<noteq> CHR '']'' \<and> c \<noteq> CHR ''}''"
proof (cases v)
  case (JInt n)
  then show ?thesis using digits_head [of "nat n"] by (auto simp: int_text_def is_digit_def)
qed (auto simp: json_string_def)

lemma json_kind_dumps:
  "json_kind (json_dumps esc v @ r) = (case v of JNull \<Rightarrow> 0 | JBool b \<Rightarrow> if b then 1 else 2 | JStr _ \<Rightarrow> 3
     | JList _ \<Rightarrow> 4 | JObj _ \<Rightarrow> 5 | JInt _ \<Rightarrow> 6)"
proof (cases v)
  case (JInt n)
  then show ?thesis
    using digits_head [of "nat n"] digits_head [of "nat (- n)"] by (auto simp: int_text_def json_kind_def is_digit_def)
qed (auto simp: json_kind_def json_string_def)

lemma json_readable: "readable_at (json_dumps esc) v"
proof (induction v)
  case (JList vs)
  show ?case unfolding readable_at_def
  proof (intro allI impI)
    fix w r s
    assume d: "delimited r" "delimited s" and eq: "json_dumps esc (JList vs) @ r = json_dumps esc w @ s"
    from arg_cong [OF eq, of json_kind] obtain ws where w: "w = JList ws"
      unfolding json_kind_dumps by (cases w) (auto split: if_splits)
    with eq have "comma_list (map (json_dumps esc) vs) @ CHR '']'' # r = comma_list (map (json_dumps esc) ws) @ CHR '']'' # s" by simp
    with comma_list_inj [of vs "json_dumps esc" "CHR '']''" r ws s] JList json_dumps_head w show "JList vs = w \<and> r = s" by blast
  qed
next
  case (JObj kvs)
  let ?enc = "\<lambda>(k, v). json_string esc k @ CHR '':'' # json_dumps esc v"
  have rd: "readable_at ?enc kv" if "kv \<in> set kvs" for kv
  proof -
    obtain k v where kv: "kv = (k, v)" by force
    with that JObj have v: "readable_at (json_dumps esc) v" by fastforce
    show ?thesis unfolding readable_at_def kv
      by (auto dest!: json_string_append_inj readable_atD [OF v])
  qed
  show ?case unfolding readable_at_def
  proof (intro allI impI)
    fix w r s
    assume d: "delimited r" "delimited s" and eq: "json_dumps esc (JObj kvs) @ r = json_dumps esc w @ s"
    from arg_cong [OF eq, of json_kind] obtain ws where w: "w = JObj ws"
      unfolding json_kind_dumps by (cases w) (auto split: if_splits)
    have hd: "\<exists>c cs. ?enc kv = c # cs \<and> c \<noteq> CHR ''}''" for kv by (cases kv) (simp add: json_string_def)
    from eq w have "comma_list (map ?enc kvs) @ CHR ''}'' # r = comma_list (map ?enc ws) @ CHR ''}'' # s" by simp
    with comma_list_inj [of kvs ?enc "CHR ''}''" r ws s] rd hd w show "JObj kvs = w \<and> r = s" by blast
  qed
next
  case (JInt n)
  show ?case unfolding readable_at_def
  proof (intro allI impI)
    fix w r s
    assume d: "delimited r" "delimited s" and eq: "json_dumps esc (JInt n) @ r = json_dumps esc w @ s"
    from arg_cong [OF eq, of json_kind] obtain m where "w = JInt m"
      unfolding json_kind_dumps by (cases w) (auto split: if_splits)
    with eq int_text_delimited [OF _ d, of n m] show "JInt n = w \<and> r = s" by simp
  qed
next
  case (JStr t)
  show ?case unfolding readable_at_def
  proof (intro allI impI)
    fix w r s
    assume d: "delimited r" "delimited s" and eq: "json_dumps esc (JStr t) @ r = json_dumps esc w @ s"
    from arg_cong [OF eq, of json_kind] obtain u where "w = JStr u"
      unfolding json_kind_dumps by (cases w) (auto split: if_splits)
    with eq json_string_append_inj [of t r u s] show "JStr t = w \<and> r = s" by simp
  qed
next
  case JNull
  show ?case unfolding readable_at_def
  proof (intro allI impI)
    fix w r s
    assume eq: "json_dumps esc JNull @ r = json_dumps esc w @ s"
    from arg_cong [OF eq, of json_kind] have "w = JNull"
      unfolding json_kind_dumps by (cases w) (auto split: if_splits)
    with eq show "JNull = w \<and> r = s" by simp
  qed
next
  case (JBool b)
  show ?case unfolding readable_at_def
  proof (intro allI impI)
    fix w r s
    assume eq: "json_dumps esc (JBool b) @ r = json_dumps esc w @ s"
    from arg_cong [OF eq, of json_kind] have "w = JBool b"
      unfolding json_kind_dumps by (cases w) (auto split: if_splits)
    with eq show "JBool b = w \<and> r = s" by simp
  qed
qed

lemma dumps_determines: "json_dumps esc v = json_dumps esc w \<longleftrightarrow> v = w"
  using readable_atD [OF json_readable [of v], of "[]" w "[]"] by auto

end

text \<open>The canonical text of a value determines the value up to the order of object keys.\<close>

theorem json_text_determines: "json_text v = json_text w \<longleftrightarrow> json_sort v = json_sort w"
  unfolding json_text_def by (rule ascii_json.dumps_determines)

theorem json_text_raw_determines: "json_text_raw v = json_text_raw w \<longleftrightarrow> json_sort v = json_sort w"
  unfolding json_text_raw_def by (rule raw_json.dumps_determines)

lemma json_sort_get:
  assumes "json_sort (JObj d) = json_sort (JObj e)" and "dict_ok d" and "dict_ok e"
  shows "map_option json_sort (dict_get d k) = map_option json_sort (dict_get e k)"
proof -
  let ?s = "\<lambda>d. map (\<lambda>(k, v). (k, json_sort v)) d"
  have ok: "dict_ok (?s d)" "dict_ok (?s e)" using assms(2,3) by (simp_all add: dict_ok_def comp_def case_prod_beta)
  have "sort_key fst (?s d) = sort_key fst (?s e)" using assms(1) by simp
  then have "dict_get (?s d) k = dict_get (?s e) k" using dict_get_sort [OF ok(1)] dict_get_sort [OF ok(2)] by metis
  then show ?thesis by (simp only: dict_get_map_keys [of "\<lambda>_. json_sort"])
qed

lemma json_obj_get:
  assumes "json_text (JObj d) = json_text (JObj e)" and "dict_ok d" and "dict_ok e"
  shows "map_option json_sort (dict_get d k) = map_option json_sort (dict_get e k)"
  using assms by (intro json_sort_get) (simp only: json_text_determines)

end
