(* ===== verification/Funding_Ledger.thy ===== *)
theory Funding_Ledger
  imports Perpetuals Json_Text
begin

text \<open>
  \<open>FundingLedger\<close> of \<open>mvp/autotrade_mvp/perpetuals.py\<close>: the accumulator of funding events, its exported state and
  its restoration.  An event is identified by the SHA-256 digest of a JSON object; the JSON text is modelled
  and the digest is the parameter \<open>sha256\<close>.
\<close>

section \<open>The fingerprint of a funding event\<close>

definition funding_payload :: "string \<Rightarrow> string \<Rightarrow> string \<Rightarrow> string" where
  "funding_payload instrument currency amount =
     json_text (JObj [(''instrument_id'', JStr instrument), (''currency'', JStr currency), (''amount'', JStr amount)])"

definition funding_fingerprint :: "(string \<Rightarrow> string) \<Rightarrow> string \<Rightarrow> string \<Rightarrow> decimal \<Rightarrow> string result" where
  "funding_fingerprint sha256 instrument currency amount =
     rbind (pp_canonical_text amount) (\<lambda>t. Inr (sha256 (funding_payload instrument currency t)))"

section \<open>The ledger\<close>

record funding_ledger =
  fl_events :: "(string, string \<times> string \<times> string \<times> decimal) dict"
  fl_periods :: "(string \<times> string, string \<times> string \<times> decimal) dict"
  fl_balances :: "(string, decimal) dict"

definition empty_funding_ledger :: funding_ledger where
  "empty_funding_ledger = \<lparr>fl_events = [], fl_periods = [], fl_balances = []\<rparr>"

text \<open>The part of \<open>apply\<close> after its arguments were read.\<close>

definition admit_funding :: "string \<Rightarrow> string \<Rightarrow> string \<Rightarrow> string \<Rightarrow> decimal \<Rightarrow> string \<Rightarrow> (funding_ledger, decimal) operation" where
  "admit_funding identifier period instrument unit amount fingerprint L =
     (case dict_get (fl_events L) identifier of
        Some (old_fingerprint, old_period, old_currency, old_amount) \<Rightarrow>
          if old_fingerprint \<noteq> fingerprint \<or> old_period \<noteq> period then (Inl PerpetualError, L)
          else (Inr old_amount, L)
      | None \<Rightarrow>
        case dict_get (fl_periods L) (instrument, period) of
          Some (old_fingerprint, old_currency, old_amount) \<Rightarrow>
            if old_fingerprint \<noteq> fingerprint then (Inl PerpetualError, L)
            else (Inr old_amount, L\<lparr>fl_events := dict_set (fl_events L) identifier (fingerprint, period, unit, amount)\<rparr>)
        | None \<Rightarrow>
            raising (pp_add (case dict_get (fl_balances L) unit of None \<Rightarrow> dzero | Some b \<Rightarrow> b) amount)
              (\<lambda>new_balance L.
                (Inr amount,
                 L\<lparr>fl_events := dict_set (fl_events L) identifier (fingerprint, period, unit, amount),
                   fl_periods := dict_set (fl_periods L) (instrument, period) (fingerprint, unit, amount),
                   fl_balances := dict_set (fl_balances L) unit new_balance\<rparr>)) L)"

definition funding_apply :: "(string \<Rightarrow> string) \<Rightarrow> string \<Rightarrow> string \<Rightarrow> string \<Rightarrow> string \<Rightarrow> pynum
    \<Rightarrow> (funding_ledger, decimal) operation" where
  "funding_apply sha256 event_id funding_period_id instrument_id currency amount =
     raising (pp_text event_id) (\<lambda>identifier. raising (pp_text funding_period_id) (\<lambda>period.
     raising (pp_text instrument_id) (\<lambda>instrument. raising (pp_text currency) (\<lambda>raw_unit.
     raising (pp_decimal amount False) (\<lambda>v. raising (funding_fingerprint sha256 instrument (upper raw_unit) v) (\<lambda>f.
       admit_funding identifier period instrument (upper raw_unit) v f))))))"

definition funding_balance :: "funding_ledger \<Rightarrow> string \<Rightarrow> decimal result" where
  "funding_balance L currency = rbind (pp_text currency) (\<lambda>u.
     Inr (case dict_get (fl_balances L) (upper u) of None \<Rightarrow> dzero | Some b \<Rightarrow> b))"

section \<open>Exported state\<close>

record exported_event =
  xe_event_id :: string
  xe_funding_period_id :: string
  xe_instrument_id :: string
  xe_currency :: string
  xe_amount :: string

record funding_state =
  fs_schema_version :: string
  fs_events :: "exported_event list"
  fs_balances :: "(string, string) dict"

definition expected_balance_step :: "(string, decimal) dict \<Rightarrow> string \<times> string \<Rightarrow> (string, decimal) dict result" where
  "expected_balance_step acc item = (case item of (currency, amount) \<Rightarrow>
     rbind (pp_text currency) (\<lambda>t. if upper t \<noteq> currency then Inl PerpetualError
       else rbind (pp_decimal (PyStr amount) False) (\<lambda>v. rbind (pp_canonical_text v) (\<lambda>canonical.
         if canonical \<noteq> amount then Inl PerpetualError else Inr (dict_set acc (upper t) v)))))"

definition restore_event_step :: "(string \<Rightarrow> string) \<Rightarrow> string list \<times> funding_ledger \<Rightarrow> exported_event
    \<Rightarrow> (string list \<times> funding_ledger) result" where
  "restore_event_step sha256 st ev = (case st of (seen, L) \<Rightarrow>
     if list_ex (\<lambda>t. t = [] \<or> t \<noteq> strip t)
          [xe_event_id ev, xe_funding_period_id ev, xe_instrument_id ev, xe_currency ev, xe_amount ev]
        \<or> xe_currency ev \<noteq> upper (xe_currency ev) then Inl PerpetualError
     else if xe_event_id ev \<in> set seen then Inl PerpetualError
     else rbind (pp_decimal (PyStr (xe_amount ev)) False) (\<lambda>amount. rbind (pp_canonical_text amount) (\<lambda>canonical.
       if canonical \<noteq> xe_amount ev then Inl PerpetualError
       else case funding_apply sha256 (xe_event_id ev) (xe_funding_period_id ev) (xe_instrument_id ev) (xe_currency ev)
           (PyStr (xe_amount ev)) L of
         (Inl e, _) \<Rightarrow> Inl e
       | (Inr _, L') \<Rightarrow> Inr (xe_event_id ev # seen, L'))))"

definition same_value :: "decimal \<Rightarrow> decimal \<Rightarrow> bool" where
  "same_value a b \<longleftrightarrow> dval a = dval b"

definition ledger_from_state :: "(string \<Rightarrow> string) \<Rightarrow> funding_state \<Rightarrow> funding_ledger result" where
  "ledger_from_state sha256 state =
     (if fs_schema_version state \<noteq> ''funding-ledger@1'' then Inl PerpetualError
      else rbind (rfold expected_balance_step [] (fs_balances state)) (\<lambda>expected_balances.
      rbind (rfold (restore_event_step sha256) ([], empty_funding_ledger) (fs_events state)) (\<lambda>(seen, restored).
        if \<not> dict_same same_value (fl_balances restored) expected_balances then Inl PerpetualError
        else Inr restored)))"

definition period_owners :: "funding_ledger \<Rightarrow> (string \<times> string, string \<times> string \<times> decimal) dict" where
  "period_owners L = foldl (\<lambda>d ((instrument, period), (fingerprint, currency, amount)).
     dict_set d (fingerprint, period) (instrument, currency, amount)) [] (fl_periods L)"

definition export_event :: "(string \<times> string, string \<times> string \<times> decimal) dict
    \<Rightarrow> string \<times> string \<times> string \<times> string \<times> decimal \<Rightarrow> exported_event result" where
  "export_event owners item = (case item of (event_id, fingerprint, period, currency, amount) \<Rightarrow>
     case dict_get owners (fingerprint, period) of
       None \<Rightarrow> Inl PerpetualError
     | Some (instrument, owner_currency, owner_amount) \<Rightarrow>
         if owner_currency \<noteq> currency \<or> \<not> same_value owner_amount amount then Inl PerpetualError
         else rbind (pp_canonical_text amount) (\<lambda>t.
           Inr \<lparr>xe_event_id = event_id, xe_funding_period_id = period, xe_instrument_id = instrument,
             xe_currency = currency, xe_amount = t\<rparr>))"

definition ledger_same :: "funding_ledger \<Rightarrow> funding_ledger \<Rightarrow> bool" where
  "ledger_same L M \<longleftrightarrow>
     dict_same (rel_prod (=) (rel_prod (=) (rel_prod (=) same_value))) (fl_events L) (fl_events M)
     \<and> dict_same (rel_prod (=) (rel_prod (=) same_value)) (fl_periods L) (fl_periods M)
     \<and> dict_same same_value (fl_balances L) (fl_balances M)"

definition export_ledger :: "(string \<Rightarrow> string) \<Rightarrow> funding_ledger \<Rightarrow> funding_state result" where
  "export_ledger sha256 L =
     rbind (rmap (export_event (period_owners L)) (fl_events L)) (\<lambda>events.
     rbind (rmap (\<lambda>(currency, amount). rbind (pp_canonical_text amount) (\<lambda>t. Inr (currency, t)))
         (sort_key fst (fl_balances L))) (\<lambda>balances.
     let state = \<lparr>fs_schema_version = ''funding-ledger@1'', fs_events = events, fs_balances = balances\<rparr> in
     rbind (ledger_from_state sha256 state) (\<lambda>restored.
       if \<not> ledger_same restored L then Inl PerpetualError else Inr state)))"

section \<open>The JSON text identifies the event\<close>

lemma funding_payload_inj:
  assumes "funding_payload i u t = funding_payload j w s"
  shows "i = j \<and> u = w \<and> t = s"
proof -
  let ?obj = "\<lambda>i u t. [(''instrument_id'', JStr i), (''currency'', JStr u), (''amount'', JStr t)]"
  have ok: "dict_ok (?obj i u t)" "dict_ok (?obj j w s)" by (simp_all add: dict_ok_def)
  note same = json_obj_get [OF assms [unfolded funding_payload_def] ok]
  from same [of "''instrument_id''"] same [of "''currency''"] same [of "''amount''"] show ?thesis by simp
qed

section \<open>Normalised events\<close>

text \<open>An event after its arguments were read: identifier, period, instrument, unit and amount.\<close>

type_synonym funding_entry = "string \<times> string \<times> string \<times> string \<times> decimal"

definition is_name :: "string \<Rightarrow> bool" where "is_name t \<longleftrightarrow> t \<noteq> [] \<and> strip t = t"

definition is_unit :: "string \<Rightarrow> bool" where "is_unit t \<longleftrightarrow> is_name t \<and> upper t = t"

definition entry_ok :: "funding_entry \<Rightarrow> bool" where
  "entry_ok e = (case e of (i, p, inst, u, v) \<Rightarrow> is_name i \<and> is_name p \<and> is_name inst \<and> is_unit u \<and> in_envelope v)"

definition amount_text :: "decimal \<Rightarrow> string" where
  "amount_text v = (case canonical_decimal_text v of Inl _ \<Rightarrow> [] | Inr t \<Rightarrow> t)"

definition content :: "(string \<Rightarrow> string) \<Rightarrow> string \<Rightarrow> string \<Rightarrow> decimal \<Rightarrow> string" where
  "content sha256 inst u v = sha256 (funding_payload inst u (amount_text v))"

definition enter :: "(string \<Rightarrow> string) \<Rightarrow> funding_entry \<Rightarrow> (funding_ledger, decimal) operation" where
  "enter sha256 e = (case e of (i, p, inst, u, v) \<Rightarrow> admit_funding i p inst u v (content sha256 inst u v))"

lemma canonical_text_total:
  assumes "in_envelope v"
  shows "canonical_decimal_text v = Inr (amount_text v)" and "pp_canonical_text v = Inr (amount_text v)"
proof -
  show "canonical_decimal_text v = Inr (amount_text v)"
    using assms by (auto simp: amount_text_def canonical_decimal_text_def validate_decimal_envelope_eq Let_def)
  then show "pp_canonical_text v = Inr (amount_text v)" by (simp add: pp_canonical_text_def pp_translate_def)
qed

lemma amount_text_eq: "in_envelope v \<Longrightarrow> in_envelope w \<Longrightarrow> amount_text v = amount_text w \<longleftrightarrow> dval v = dval w"
  using canonical_text_unique [of v w] canonical_text_total [of v] canonical_text_total [of w]
    canonical_text_parses [of v "amount_text v"] canonical_text_parses [of w "amount_text w"] by auto

lemma content_inj:
  assumes "inj sha256" and "in_envelope v" and "in_envelope w" and "content sha256 i u v = content sha256 j x w"
  shows "i = j \<and> u = x \<and> dval v = dval w"
proof -
  have "funding_payload i u (amount_text v) = funding_payload j x (amount_text w)"
    using assms(1,4) by (auto simp: content_def dest: injD)
  from funding_payload_inj [OF this] show ?thesis using amount_text_eq [OF assms(2,3)] by auto
qed

lemma content_same: "in_envelope v \<Longrightarrow> in_envelope w \<Longrightarrow> dval v = dval w \<Longrightarrow> content sha256 i u v = content sha256 i u w"
  using amount_text_eq [of v w] by (simp add: content_def)

lemma fingerprint_eq: "in_envelope v \<Longrightarrow> funding_fingerprint sha256 i u v = Inr (content sha256 i u v)"
  by (simp add: funding_fingerprint_def canonical_text_total content_def)

lemma funding_apply_eq:
  "funding_apply sha256 i p inst u amount L =
     (if strip i = [] \<or> strip p = [] \<or> strip inst = [] \<or> strip u = [] then (Inl PerpetualError, L)
      else case pp_decimal amount False of Inl e \<Rightarrow> (Inl e, L)
      | Inr v \<Rightarrow> enter sha256 (strip i, strip p, strip inst, upper (strip u), v) L)"
  by (auto simp: funding_apply_def pp_text_def enter_def fingerprint_eq dest: pp_decimal_Inr split: sum.splits)

lemma funding_apply_entry:
  assumes "funding_apply sha256 i p inst u amount L = (Inr a, L')"
  obtains v where "entry_ok (strip i, strip p, strip inst, upper (strip u), v)" and "dval v = pyval amount"
    and "enter sha256 (strip i, strip p, strip inst, upper (strip u), v) L = (Inr a, L')"
    and "\<And>M. funding_apply sha256 i p inst u amount M = enter sha256 (strip i, strip p, strip inst, upper (strip u), v) M"
  using assms
  by (auto simp: funding_apply_eq entry_ok_def is_name_def is_unit_def strip_upper dest: pp_decimal_Inr
      split: if_splits sum.splits)

abbreviation funding_held :: "funding_ledger \<Rightarrow> string \<Rightarrow> decimal" where
  "funding_held L u \<equiv> (case dict_get (fl_balances L) u of None \<Rightarrow> dzero | Some b \<Rightarrow> b)"

text \<open>The three ways an event is accepted: it is known, its period is known, or both are new.\<close>

lemma enter_cases:
  assumes "enter sha256 (i, p, inst, u, v) L = (Inr a, L')"
  obtains (known) w where "dict_get (fl_events L) i = Some (content sha256 inst u v, p, w, a)" "L' = L"
  | (repeated) w where "dict_get (fl_events L) i = None" "dict_get (fl_periods L) (inst, p) = Some (content sha256 inst u v, w, a)"
      "L' = L\<lparr>fl_events := fl_events L @ [(i, content sha256 inst u v, p, u, v)]\<rparr>"
  | (new) b where "dict_get (fl_events L) i = None" "dict_get (fl_periods L) (inst, p) = None" "a = v"
      "in_envelope b" "dval b = dval (funding_held L u) + dval v" "pp_add (funding_held L u) v = Inr b"
      "L' = L\<lparr>fl_events := fl_events L @ [(i, content sha256 inst u v, p, u, v)],
              fl_periods := fl_periods L @ [((inst, p), content sha256 inst u v, u, v)],
              fl_balances := dict_set (fl_balances L) u b\<rparr>"
proof (cases "dict_get (fl_events L) i")
  case ev: None
  show thesis
  proof (cases "dict_get (fl_periods L) (inst, p)")
    case None
    with assms ev new show thesis
      by (auto simp: enter_def admit_funding_def dict_set_new dest: pp_exact_Inr(3))
  next
    case (Some x)
    with assms ev repeated show thesis
      by (cases x) (auto simp: enter_def admit_funding_def dict_set_new split: if_splits)
  qed
next
  case (Some x)
  with assms known show thesis by (cases x) (auto simp: enter_def admit_funding_def split: if_splits)
qed

lemma enter_atomic: "enter sha256 e L = (Inl x, L') \<Longrightarrow> L' = L"
  by (cases e) (auto simp: enter_def admit_funding_def raising_raises split: option.splits if_splits)

section \<open>The ledger as an object\<close>

datatype funding_call = Apply string string string string pynum

fun run_funding :: "(string \<Rightarrow> string) \<Rightarrow> funding_call \<Rightarrow> (funding_ledger, decimal) operation" where
  "run_funding sha256 (Apply i p inst u amount) = funding_apply sha256 i p inst u amount"

text \<open>The funding a ledger has counted in a currency: one amount for each period.\<close>

definition period_amount :: "string \<Rightarrow> (string \<times> string) \<times> string \<times> string \<times> decimal \<Rightarrow> rat" where
  "period_amount u e = (case e of (k, f, w, a) \<Rightarrow> if w = u then dval a else 0)"

definition period_ok :: "(string \<Rightarrow> string) \<Rightarrow> (string \<times> string) \<times> string \<times> string \<times> decimal \<Rightarrow> bool" where
  "period_ok sha256 e = (case e of ((inst, p), f, u, a) \<Rightarrow> f = content sha256 inst u a \<and> in_envelope a)"

definition funding_ok :: "(string \<Rightarrow> string) \<Rightarrow> funding_ledger \<Rightarrow> bool" where
  "funding_ok sha256 L \<longleftrightarrow> dict_ok (fl_events L) \<and> dict_ok (fl_periods L) \<and> dict_ok (fl_balances L)
     \<and> list_all (period_ok sha256) (fl_periods L)
     \<and> list_all (\<lambda>(u, b). is_unit u \<and> in_envelope b) (fl_balances L)
     \<and> (\<forall>u. dval (funding_held L u) = sum_list (map (period_amount u) (fl_periods L)))"

definition ledger_le :: "funding_ledger \<Rightarrow> funding_ledger \<Rightarrow> bool" where
  "ledger_le L M \<longleftrightarrow> (\<exists>xs. fl_events M = fl_events L @ xs) \<and> (\<exists>ys. fl_periods M = fl_periods L @ ys)"

lemma enter_ok:
  assumes "funding_ok sha256 L" and "entry_ok e" and "enter sha256 e L = (Inr a, L')"
  shows "funding_ok sha256 L'"
proof -
  obtain i p inst u v where e: "e = (i, p, inst, u, v)" by (cases e)
  from assms(3) [unfolded e] show ?thesis
  proof (cases rule: enter_cases)
    case (new b)
    have "dval (funding_held L' x) = sum_list (map (period_amount x) (fl_periods L'))" for x
      using assms(1) new by (simp add: funding_ok_def period_amount_def)
    with new assms(1,2) e show ?thesis
      by (simp add: funding_ok_def dict_ok_snoc list_all_dict_set period_ok_def entry_ok_def)
  qed (use assms(1) in \<open>simp_all add: funding_ok_def dict_ok_snoc\<close>)
qed

lemma enter_le: "enter sha256 e L = (Inr a, L') \<Longrightarrow> ledger_le L L'"
proof -
  assume run: "enter sha256 e L = (Inr a, L')"
  obtain i p inst u v where e: "e = (i, p, inst, u, v)" by (cases e)
  from run [unfolded e] show ?thesis by (cases rule: enter_cases) (simp_all add: ledger_le_def)
qed

text \<open>The events of a ledger with the instruments they came with: entering them again, in order, gives the ledger.\<close>

definition enter_step :: "(string \<Rightarrow> string) \<Rightarrow> funding_ledger \<Rightarrow> funding_entry \<Rightarrow> funding_ledger result" where
  "enter_step sha256 L e = (case enter sha256 e L of (Inl x, _) \<Rightarrow> Inl x | (Inr _, L') \<Rightarrow> Inr L')"

definition event_of :: "(string \<Rightarrow> string) \<Rightarrow> funding_entry \<Rightarrow> string \<times> string \<times> string \<times> string \<times> decimal" where
  "event_of sha256 e = (case e of (i, p, inst, u, v) \<Rightarrow> (i, content sha256 inst u v, p, u, v))"

definition has_period :: "(string \<Rightarrow> string) \<Rightarrow> funding_ledger \<Rightarrow> funding_entry \<Rightarrow> bool" where
  "has_period sha256 L e = (case e of (i, p, inst, u, v) \<Rightarrow>
     \<exists>w a. dict_get (fl_periods L) (inst, p) = Some (content sha256 inst u v, w, a))"

definition logged :: "(string \<Rightarrow> string) \<Rightarrow> funding_entry list \<Rightarrow> funding_ledger \<Rightarrow> bool" where
  "logged sha256 entries L \<longleftrightarrow> list_all entry_ok entries \<and> distinct (map fst entries) \<and> fl_events L = map (event_of sha256) entries
     \<and> list_all (has_period sha256 L) entries \<and> rfold (enter_step sha256) empty_funding_ledger entries = Inr L"

definition replayable :: "(string \<Rightarrow> string) \<Rightarrow> funding_ledger \<Rightarrow> bool" where
  "replayable sha256 L \<longleftrightarrow> funding_ok sha256 L \<and> (\<exists>entries. logged sha256 entries L)"

lemma event_of_fst [simp]: "fst (event_of sha256 e) = fst e"
  by (cases e) (simp add: event_of_def)

lemma logged_keys: "logged sha256 entries L \<Longrightarrow> dict_keys (fl_events L) = map fst entries"
  by (simp add: logged_def)

lemma has_period_le:
  assumes "ledger_le L M" and "has_period sha256 L e"
  shows "has_period sha256 M e"
  using assms by (cases e) (fastforce simp: ledger_le_def has_period_def map_add_Some_iff)

lemma logged_snoc:
  assumes "logged sha256 entries L" and "entry_ok e" and "enter sha256 e L = (Inr a, L')"
    and "dict_get (fl_events L) (fst e) = None" and "fl_events L' = fl_events L @ [event_of sha256 e]"
    and "has_period sha256 L' e"
  shows "logged sha256 (entries @ [e]) L'"
proof -
  have "list_all (has_period sha256 L') entries"
    using assms(1) has_period_le [OF enter_le [OF assms(3)]] by (simp add: logged_def list_all_iff)
  moreover have "fst e \<notin> set (map fst entries)"
    using assms(4) logged_keys [OF assms(1)] by (simp only: dict_get_None_iff) simp
  moreover have "rfold (enter_step sha256) empty_funding_ledger (entries @ [e]) = Inr L'"
    using assms(1,3) by (simp add: logged_def rfold_append enter_step_def)
  ultimately show ?thesis using assms by (simp add: logged_def)
qed

lemma enter_replayable:
  assumes "replayable sha256 L" and "entry_ok e" and "enter sha256 e L = (Inr a, L')"
  shows "replayable sha256 L'"
proof -
  from assms(1) obtain entries where ok: "funding_ok sha256 L" and entries: "logged sha256 entries L" by (auto simp: replayable_def)
  obtain i p inst u v where e: "e = (i, p, inst, u, v)" by (cases e)
  from assms(3) [unfolded e] have "\<exists>entries. logged sha256 entries L'"
  proof (cases rule: enter_cases)
    case (known w)
    with entries show ?thesis by blast
  next
    case (repeated w)
    then have "logged sha256 (entries @ [e]) L'"
      using e by (intro logged_snoc [OF entries assms(2,3)]) (simp_all add: event_of_def has_period_def)
    then show ?thesis by blast
  next
    case (new b)
    then have "logged sha256 (entries @ [e]) L'"
      using e by (intro logged_snoc [OF entries assms(2,3)]) (simp_all add: event_of_def has_period_def map_add_def)
    then show ?thesis by blast
  qed
  with enter_ok [OF ok assms(2,3)] show ?thesis by (simp add: replayable_def)
qed

interpretation funding: ordered_object "run_funding sha256" empty_funding_ledger "replayable sha256" ledger_le
proof unfold_locales
  have "logged sha256 [] empty_funding_ledger" by (simp add: logged_def empty_funding_ledger_def)
  then show "replayable sha256 empty_funding_ledger"
    by (auto simp: replayable_def funding_ok_def empty_funding_ledger_def)
  show "replayable sha256 s'" if "replayable sha256 s" "run_funding sha256 c s = (Inr r, s')" for s c r s'
    using that by (cases c) (auto elim!: funding_apply_entry intro: enter_replayable)
  show "atomic (run_funding sha256 c)" for c
    by (rule atomicI, cases c) (auto simp: funding_apply_eq dest: enter_atomic split: if_splits sum.splits)
  show "ledger_le s s" for s by (simp add: ledger_le_def)
  show "ledger_le s u" if "ledger_le s t" "ledger_le t u" for s t u
    using that by (auto simp: ledger_le_def)
  show "ledger_le s s'" if "replayable sha256 s" "run_funding sha256 c s = (Inr r, s')" for s c r s'
    using that by (cases c) (auto elim!: funding_apply_entry intro: enter_le)
qed

text \<open>(C37) Every funding period is counted exactly once.  After any calls to a new ledger the balance of a currency is the
  sum, over the instrument and period pairs the ledger has recorded, of the one amount recorded in that
  currency for the pair, and no pair occurs twice; a call that raised changed nothing.\<close>

theorem funding_counted_once:
  "let L = after (run_funding sha256) empty_funding_ledger calls in
     distinct (dict_keys (fl_periods L))
     \<and> (\<forall>u b. funding_balance L u = Inr b \<longrightarrow>
           dval b = sum_list (map (period_amount (upper (strip u))) (fl_periods L)))
     \<and> (\<forall>i p inst u amount e L'. funding_apply sha256 i p inst u amount L = (Inl e, L') \<longrightarrow> L' = L)"
proof -
  let ?L = "after (run_funding sha256) empty_funding_ledger calls"
  have ok: "funding_ok sha256 ?L" using funding.inv_after [of sha256 calls] by (simp add: replayable_def)
  have "L' = ?L" if k: "funding_apply sha256 i p inst u amount ?L = (Inl e, L')" for i p inst u amount e L'
    using atomicD [OF funding.run_atomic, of sha256 "Apply i p inst u amount" ?L e L'] k by simp
  with ok show ?thesis
    unfolding Let_def by (auto simp: funding_ok_def dict_ok_def funding_balance_def)
qed

section \<open>Redelivery\<close>

text \<open>With collision-free digests an event and its period carry the same economic content.\<close>

lemma period_of_event:
  assumes "inj sha256" and "replayable sha256 L" and "dict_get (fl_events L) i = Some (content sha256 inst u v, p, w, a)"
    and "in_envelope v"
  shows "w = u \<and> dval a = dval v \<and> dict_get (fl_periods L) (inst, p) \<noteq> None"
proof -
  obtain entries where log: "logged sha256 entries L" using assms(2) by (auto simp: replayable_def)
  have "(i, content sha256 inst u v, p, w, a) \<in> set (map (event_of sha256) entries)"
    using dict_get_mem [OF assms(3)] log by (simp add: logged_def)
  then obtain inst' where e: "(i, p, inst', w, a) \<in> set entries" "content sha256 inst' w a = content sha256 inst u v"
    by (auto simp: event_of_def split: prod.splits)
  then have "entry_ok (i, p, inst', w, a)" "has_period sha256 L (i, p, inst', w, a)"
    using log by (auto simp: logged_def list_all_iff)
  with content_inj [OF assms(1) _ assms(4) e(2)] show ?thesis by (auto simp: entry_ok_def has_period_def)
qed

lemma period_content:
  assumes "inj sha256" and "funding_ok sha256 L" and "dict_get (fl_periods L) (inst, p) = Some (content sha256 inst u v, w, a)"
    and "in_envelope v"
  shows "w = u \<and> dval a = dval v"
proof -
  have "period_ok sha256 ((inst, p), content sha256 inst u v, w, a)"
    using dict_get_mem [OF assms(3)] assms(2) by (auto simp: funding_ok_def list_all_iff)
  then have "content sha256 inst w a = content sha256 inst u v" "in_envelope a" by (simp_all add: period_ok_def)
  with content_inj [OF assms(1) _ assms(4)] show ?thesis by blast
qed

lemma enter_recorded:
  assumes "enter sha256 (i, p, inst, u, v) L = (Inr a, L')"
  shows "\<exists>w b. dict_get (fl_events L') i = Some (content sha256 inst u v, p, w, b)"
  using assms by (cases rule: enter_cases) (auto simp: map_add_Some_iff)

lemma dict_get_le:
  assumes "ledger_le L M" and "dict_get (fl_events L) i = Some x" and "dict_ok (fl_events M)"
  shows "dict_get (fl_events M) i = Some x"
proof -
  have "(i, x) \<in> set (fl_events M)" using assms(1) dict_get_mem [OF assms(2)] by (auto simp: ledger_le_def)
  with assms(3) show ?thesis by (rule dict_mem_get)
qed

text \<open>Redelivered funding is ignored.  Suppose the digest has no collisions.  An accepted call returns exactly the amount it
  was given; it moves the balance of its currency by that amount when the instrument and period pair is
  new, and leaves every balance alone when the pair is known.  After any further calls the same call returns
  the same amount again and changes nothing.\<close>

theorem funding_redelivery_ignored:
  assumes "inj sha256" and "L = after (run_funding sha256) empty_funding_ledger calls"
    and "funding_apply sha256 i p inst u amount L = (Inr a, L')"
  shows "dval a = pyval amount
    \<and> (\<forall>x. dval (funding_held L' x) = dval (funding_held L x)
         + (if dict_get (fl_periods L) (strip inst, strip p) = None \<and> x = upper (strip u) then pyval amount else 0))
    \<and> (\<forall>more. let M = after (run_funding sha256) L' more in
         \<exists>b. funding_apply sha256 i p inst u amount M = (Inr b, M) \<and> dval b = pyval amount)"
proof -
  have inv: "replayable sha256 L" unfolding assms(2) by (rule funding.inv_after)
  then have ok: "funding_ok sha256 L" by (simp add: replayable_def)
  from assms(3) obtain v where e: "entry_ok (strip i, strip p, strip inst, upper (strip u), v)" "dval v = pyval amount"
    "enter sha256 (strip i, strip p, strip inst, upper (strip u), v) L = (Inr a, L')"
    "\<And>M. funding_apply sha256 i p inst u amount M = enter sha256 (strip i, strip p, strip inst, upper (strip u), v) M"
    by (rule funding_apply_entry) blast
  then have env: "in_envelope v" by (simp add: entry_ok_def)
  from e(3) have now: "dval a = pyval amount \<and> (\<forall>x. dval (funding_held L' x) = dval (funding_held L x)
      + (if dict_get (fl_periods L) (strip inst, strip p) = None \<and> x = upper (strip u) then pyval amount else 0))"
  proof (cases rule: enter_cases)
    case (known w)
    with period_of_event [OF assms(1) inv known(1) env] e(2) show ?thesis by auto
  next
    case (repeated w)
    with period_content [OF assms(1) ok repeated(2) env] e(2) show ?thesis by simp
  next
    case (new b)
    with e(2) show ?thesis by simp
  qed
  have later: "\<exists>b. funding_apply sha256 i p inst u amount M = (Inr b, M) \<and> dval b = pyval amount"
    if M: "M = after (run_funding sha256) L' more" for more M
  proof -
    have inv': "replayable sha256 L'" by (rule enter_replayable [OF inv e(1,3)])
    have invM: "replayable sha256 M" and le: "ledger_le L' M"
      unfolding M by (rule funding.inv_after_from [OF inv'], rule funding.le_after_from [OF inv'])
    then have okM: "dict_ok (fl_events M)" by (simp add: replayable_def funding_ok_def)
    obtain w b where b: "dict_get (fl_events M) (strip i) = Some (content sha256 (strip inst) (upper (strip u)) v, strip p, w, b)"
      using enter_recorded [OF e(3)] dict_get_le [OF le _ okM] by blast
    have "funding_apply sha256 i p inst u amount M = (Inr b, M)"
      using b by (simp add: e(4) enter_def admit_funding_def)
    moreover have "dval b = pyval amount" using period_of_event [OF assms(1) invM b env] e(2) by simp
    ultimately show ?thesis by blast
  qed
  from now later show ?thesis by (simp add: Let_def)
qed

section \<open>Restoration\<close>

text \<open>Amounts that are equal as numbers, and ledgers that agree up to such amounts.\<close>

definition same_amount :: "decimal \<Rightarrow> decimal \<Rightarrow> bool" where
  "same_amount a b \<longleftrightarrow> in_envelope a \<and> in_envelope b \<and> dval a = dval b"

abbreviation entries_rel :: "('v \<Rightarrow> 'w \<Rightarrow> bool) \<Rightarrow> ('k, 'v) dict \<Rightarrow> ('k, 'w) dict \<Rightarrow> bool" where
  "entries_rel R \<equiv> list_all2 (rel_prod (=) R)"

definition ledger_rel :: "funding_ledger \<Rightarrow> funding_ledger \<Rightarrow> bool" where
  "ledger_rel L M \<longleftrightarrow> entries_rel (rel_prod (=) (rel_prod (=) (rel_prod (=) same_amount))) (fl_events L) (fl_events M)
     \<and> entries_rel (rel_prod (=) (rel_prod (=) same_amount)) (fl_periods L) (fl_periods M)
     \<and> entries_rel same_amount (fl_balances L) (fl_balances M)"

lemma entries_rel_get: "entries_rel R d e \<Longrightarrow> rel_option R (dict_get d k) (dict_get e k)"
  by (induction rule: list_all2_induct) auto

lemma entries_rel_set: "entries_rel R d e \<Longrightarrow> R v w \<Longrightarrow> entries_rel R (dict_set d k v) (dict_set e k w)"
  by (induction rule: list_all2_induct) (auto simp: dict_set_def)

lemma entries_rel_same:
  assumes "entries_rel R d e" and "dict_ok d" and "\<And>x y. R x y \<Longrightarrow> S y x"
  shows "dict_same S e d"
proof -
  have keys: "length e = length d" using assms(1) by (auto dest: list_all2_lengthD)
  have "case dict_get d k of None \<Rightarrow> False | Some v \<Rightarrow> S w v" if k: "(k, w) \<in> set e" for k w
  proof -
    have "\<exists>v. (k, v) \<in> set d \<and> R v w" using assms(1) k by (induction rule: list_all2_induct) auto
    with dict_mem_get [OF assms(2)] assms(3) show ?thesis by fastforce
  qed
  with keys show ?thesis by (auto simp: dict_same_def list_all_iff)
qed

lemma pp_add_same: "same_amount a b \<Longrightarrow> same_amount c d \<Longrightarrow> pp_add a c = pp_add b d"
  by (simp add: pp_add_def exact_add_def as_fraction_eq same_amount_def)

lemma enter_rel:
  assumes "ledger_rel L M" and "same_amount v w" and "enter sha256 (i, p, inst, u, v) L = (r, L')"
  shows "\<exists>q M'. enter sha256 (i, p, inst, u, w) M = (q, M') \<and> rel_sum (=) same_amount r q \<and> ledger_rel L' M'"
proof -
  have c: "content sha256 inst u v = content sha256 inst u w"
    using assms(2) by (intro content_same) (simp_all add: same_amount_def)
  note rel = assms(1) [unfolded ledger_rel_def]
  note ev = entries_rel_get [OF rel [THEN conjunct1], of i]
  note per = entries_rel_get [OF rel [THEN conjunct2, THEN conjunct1], of "(inst, p)"]
  note bals = rel [THEN conjunct2, THEN conjunct2]
  have event: "rel_prod (=) (rel_prod (=) (rel_prod (=) same_amount)) (content sha256 inst u w, p, u, v) (content sha256 inst u w, p, u, w)"
    using assms(2) by simp
  have "same_amount (funding_held L u) (funding_held M u)"
    using entries_rel_get [OF bals, of u] by (cases "dict_get (fl_balances L) u") (auto simp: option_rel_Some1 same_amount_def)
  then have bal: "pp_add (funding_held L u) v = pp_add (funding_held M u) w" using assms(2) by (rule pp_add_same)
  show ?thesis
  proof (cases "dict_get (fl_events L) i")
    case (Some x)
    with ev obtain f0 p0 u0 a b where "dict_get (fl_events L) i = Some (f0, p0, u0, a)"
      "dict_get (fl_events M) i = Some (f0, p0, u0, b)" "same_amount a b"
      by (cases x) (auto simp: option_rel_Some1 rel_prod_sel)
    with assms(1,3) c show ?thesis by (auto simp: enter_def admit_funding_def split: if_splits)
  next
    case None
    with ev have fresh: "dict_get (fl_events M) i = None" by simp
    show ?thesis
    proof (cases "dict_get (fl_periods L) (inst, p)")
      case (Some x)
      with per obtain f0 u0 a b where "dict_get (fl_periods L) (inst, p) = Some (f0, u0, a)"
        "dict_get (fl_periods M) (inst, p) = Some (f0, u0, b)" "same_amount a b"
        by (cases x) (auto simp: option_rel_Some1 rel_prod_sel)
      with None fresh assms(1,3) c entries_rel_set [OF rel [THEN conjunct1] event, of i] show ?thesis
        by (auto simp: enter_def admit_funding_def ledger_rel_def split: if_splits)
    next
      case new: None
      with per have "dict_get (fl_periods M) (inst, p) = None" by simp
      note known = None fresh new this
      show ?thesis
      proof (cases "pp_add (funding_held L u) v")
        case (Inl x)
        then have "pp_add (funding_held M u) w = Inl x" using bal by simp
        then have "enter sha256 (i, p, inst, u, w) M = (Inl x, M)" using known by (simp add: enter_def admit_funding_def)
        moreover have "r = Inl x" "L' = L" using known Inl assms(3) by (simp_all add: enter_def admit_funding_def)
        ultimately show ?thesis using assms(1) by simp
      next
        case (Inr b)
        then have "pp_add (funding_held M u) w = Inr b" using bal by simp
        with known have "enter sha256 (i, p, inst, u, w) M = (Inr w, M\<lparr>
            fl_events := dict_set (fl_events M) i (content sha256 inst u w, p, u, w),
            fl_periods := dict_set (fl_periods M) (inst, p) (content sha256 inst u w, u, w),
            fl_balances := dict_set (fl_balances M) u b\<rparr>)" by (simp add: enter_def admit_funding_def)
        moreover have "r = Inr v" "L' = L\<lparr>fl_events := dict_set (fl_events L) i (content sha256 inst u w, p, u, v),
            fl_periods := dict_set (fl_periods L) (inst, p) (content sha256 inst u w, u, v),
            fl_balances := dict_set (fl_balances L) u b\<rparr>"
          using known Inr c assms(3) by (simp_all add: enter_def admit_funding_def)
        moreover have "same_amount b b" using pp_exact_Inr(3) [OF Inr] by (simp add: same_amount_def)
        ultimately show ?thesis
          using assms(2) entries_rel_set [OF rel [THEN conjunct1] event, of i] entries_rel_set [OF bals, of b b u]
            entries_rel_set [OF rel [THEN conjunct2, THEN conjunct1], of "(content sha256 inst u w, u, v)" "(content sha256 inst u w, u, w)" "(inst, p)"]
          by (simp add: ledger_rel_def)
      qed
    qed
  qed
qed

text \<open>The exported form of an event is accepted by \<open>from_state\<close> and enters the same event.\<close>

definition exported :: "funding_entry \<Rightarrow> exported_event" where
  "exported e = (case e of (i, p, inst, u, v) \<Rightarrow> \<lparr>xe_event_id = i, xe_funding_period_id = p, xe_instrument_id = inst,
     xe_currency = u, xe_amount = amount_text v\<rparr>)"

lemma amount_text_name: "in_envelope v \<Longrightarrow> is_name (amount_text v)"
proof -
  assume env: "in_envelope v"
  show ?thesis
  proof (cases "dval v = 0")
    case True
    then have "amount_text v = ''0''"
      using env by (simp add: amount_text_def canonical_decimal_text_def validate_decimal_envelope_eq)
    then show ?thesis by (simp only:) code_simp
  next
    case False
    with env obtain s ip fp where "canonical_decimal_text v = Inr (assemble s ip fp)" and parts: "canonical_parts ip fp"
      by (rule canonical_text_shape)
    then have t: "amount_text v = assemble s ip fp" by (simp add: amount_text_def)
    have digit: "\<not> is_space x" if "is_digit x" for x
      using that by (auto simp: is_digit_def is_space_def Let_def)
    have "set (assemble s ip fp) \<subseteq> {CHR ''-'', CHR ''.''} \<union> set (digits_text ip) \<union> set (digits_text fp)"
      by (auto simp: assemble_def)
    moreover have "\<forall>x \<in> set (digits_text ip) \<union> set (digits_text fp). is_digit x"
      using parts digits_text_all_digits [of ip] digits_text_all_digits [of fp]
      by (auto simp: canonical_parts_def all_digits_def list_all_iff)
    moreover have "\<not> is_space (CHR ''-'')" "\<not> is_space (CHR ''.'')" by (simp_all add: is_space_def)
    ultimately have "\<not> is_space x" if "x \<in> set (assemble s ip fp)" for x
      using that digit by blast
    moreover have "assemble s ip fp \<noteq> []" using parts by (simp add: assemble_def canonical_parts_def)
    ultimately show ?thesis unfolding t is_name_def by (metis hd_in_set last_in_set strip_id)
  qed
qed

lemma amount_text_parses:
  assumes "in_envelope v"
  obtains w where "pp_decimal (PyStr (amount_text v)) False = Inr w" and "same_amount v w" and "pp_canonical_text w = Inr (amount_text v)"
proof -
  from canonical_text_read [OF canonical_text_total(1) [OF assms], of True] obtain w where
    w: "parse_bounded_exact_decimal (PyStr (amount_text v)) True = Inr w" "dval w = dval v" by blast
  then have env: "in_envelope w" using parse_Inr by blast
  show thesis
  proof (rule that)
    show "pp_decimal (PyStr (amount_text v)) False = Inr w" using w by (simp add: pp_decimal_def pp_translate_def)
    show "same_amount v w" using w env assms by (simp add: same_amount_def)
    show "pp_canonical_text w = Inr (amount_text v)"
      using canonical_text_total(2) [OF env] amount_text_eq [OF assms env] w by simp
  qed
qed

lemma restore_exported:
  assumes "entry_ok e" and "fst e \<notin> set seen" and "ledger_rel L M" and "enter_step sha256 L e = Inr L'"
  shows "\<exists>M'. restore_event_step sha256 (seen, M) (exported e) = Inr (fst e # seen, M') \<and> ledger_rel L' M'"
proof -
  obtain i p inst u v where e: "e = (i, p, inst, u, v)" by (cases e)
  with assms(1) have names: "is_name i" "is_name p" "is_name inst" "is_name u" "upper u = u" and env: "in_envelope v"
    by (simp_all add: entry_ok_def is_unit_def)
  from env obtain w where w: "pp_decimal (PyStr (amount_text v)) False = Inr w" "same_amount v w"
    "pp_canonical_text w = Inr (amount_text v)" by (rule amount_text_parses)
  obtain a where "enter sha256 (i, p, inst, u, v) L = (Inr a, L')"
    using assms(4) e by (auto simp: enter_step_def split: prod.splits sum.splits)
  from enter_rel [OF assms(3) w(2) this] obtain b M' where
    M': "enter sha256 (i, p, inst, u, w) M = (Inr b, M')" "ledger_rel L' M'"
    by (metis rel_sum.cases sum.distinct(1))
  have "funding_apply sha256 i p inst u (PyStr (amount_text v)) M = (Inr b, M')"
    using names w(1) M'(1) by (simp add: funding_apply_eq is_name_def)
  with names amount_text_name [OF env] assms(2) w(1,3) M'(2) e show ?thesis
    by (simp add: restore_event_step_def exported_def is_name_def)
qed

lemma restore_entries:
  assumes "list_all entry_ok entries" and "distinct (map fst entries)" and "set (map fst entries) \<inter> set seen = {}"
    and "ledger_rel L M" and "rfold (enter_step sha256) L entries = Inr L'"
  shows "\<exists>s M'. rfold (restore_event_step sha256) (seen, M) (map exported entries) = Inr (s, M') \<and> ledger_rel L' M'"
  using assms
proof (induction entries arbitrary: seen L M)
  case (Cons e entries)
  from Cons.prems(5) obtain L1 where L1: "enter_step sha256 L e = Inr L1" "rfold (enter_step sha256) L1 entries = Inr L'"
    by auto
  obtain M1 where M1: "restore_event_step sha256 (seen, M) (exported e) = Inr (fst e # seen, M1)" "ledger_rel L1 M1"
    using restore_exported [OF _ _ Cons.prems(4) L1(1), of seen] Cons.prems(1,3) by auto
  from Cons.IH [OF _ _ _ M1(2) L1(2), of "fst e # seen"] Cons.prems M1(1) show ?case by auto
qed simp

text \<open>The owner of a fingerprint and period is the instrument whose period it is.\<close>

lemma period_owners_get:
  assumes "inj sha256" and "funding_ok sha256 L" and "dict_get (fl_periods L) (inst, p) = Some (f, w, a)"
  shows "dict_get (period_owners L) (f, p) = Some (inst, w, a)"
proof -
  let ?key = "\<lambda>((inst, p), f, w, a). (f, p)" and ?val = "\<lambda>((inst, p), f, w, a). (inst, w, a)"
  have ok: "list_all (period_ok sha256) (fl_periods L)" and keys: "distinct (map fst (fl_periods L))"
    using assms(2) by (simp_all add: funding_ok_def dict_ok_def)
  have "fst x = fst y" if k: "x \<in> set (fl_periods L)" "y \<in> set (fl_periods L)" "?key x = ?key y" for x y
  proof -
    obtain i p f u a j q g v b where xy: "x = ((i, p), f, u, a)" "y = ((j, q), g, v, b)" by (metis prod.exhaust)
    have "period_ok sha256 x" "period_ok sha256 y" using ok k by (simp_all add: list_all_iff)
    then have c: "content sha256 i u a = content sha256 j v b" "in_envelope a" "in_envelope b"
      using k(3) xy by (simp_all add: period_ok_def)
    from content_inj [OF assms(1) c(2,3,1)] k(3) xy show ?thesis by simp
  qed
  then have "inj_on ?key (set (fl_periods L))"
    using keys unfolding distinct_map by (intro inj_onI) (blast dest: inj_onD)
  then have d: "distinct (map ?key (fl_periods L))" using keys by (simp add: distinct_map)
  have po: "period_owners L = map (\<lambda>x. (?key x, ?val x)) (fl_periods L)"
    using dict_of_distinct [OF d, of ?val] by (simp add: period_owners_def case_prod_beta')
  have "((f, p), (inst, w, a)) \<in> set (period_owners L)"
    unfolding po using dict_get_mem [OF assms(3)] by force
  moreover have "dict_ok (period_owners L)" unfolding po using d by (simp add: dict_ok_def comp_def)
  ultimately show ?thesis by (intro dict_mem_get)
qed

lemma export_events:
  assumes "inj sha256" and "funding_ok sha256 L" and "logged sha256 entries L"
  shows "rmap (export_event (period_owners L)) (fl_events L) = Inr (map exported entries)"
proof -
  have "export_event (period_owners L) (event_of sha256 e) = Inr (exported e)" if e: "e \<in> set entries" for e
  proof -
    obtain i p inst u v where t: "e = (i, p, inst, u, v)" by (cases e)
    from e assms(3) have "entry_ok e" "has_period sha256 L e" by (simp_all add: logged_def list_all_iff)
    then obtain w a where env: "in_envelope v" and g: "dict_get (fl_periods L) (inst, p) = Some (content sha256 inst u v, w, a)"
      using t by (auto simp: entry_ok_def has_period_def)
    from period_content [OF assms(1,2) g env] period_owners_get [OF assms(1,2) g] canonical_text_total(2) [OF env]
    show ?thesis by (simp add: t event_of_def export_event_def exported_def same_value_def)
  qed
  then have "rmap (\<lambda>e. export_event (period_owners L) (event_of sha256 e)) entries = Inr (map exported entries)"
    by (rule rmap_cong_all)
  then show ?thesis using assms(3) by (simp add: logged_def rmap_map)
qed

lemma expected_balances:
  assumes "list_all (\<lambda>(u, b). is_unit u \<and> in_envelope b) ds" and "distinct (map fst (acc @ ds))"
  shows "\<exists>es. rfold expected_balance_step acc (map (\<lambda>(u, b). (u, amount_text b)) ds) = Inr (acc @ es)
    \<and> entries_rel same_amount ds es"
  using assms
proof (induction ds arbitrary: acc)
  case (Cons d ds)
  obtain u b where d: "d = (u, b)" by force
  with Cons.prems have u: "is_unit u" and env: "in_envelope b" by simp_all
  from env obtain w where w: "pp_decimal (PyStr (amount_text b)) False = Inr w" "same_amount b w"
    "pp_canonical_text w = Inr (amount_text b)" by (rule amount_text_parses)
  have "dict_get acc u = None" using Cons.prems(2) d by (simp add: map_of_eq_None_iff)
  with u w have step: "expected_balance_step acc (u, amount_text b) = Inr (acc @ [(u, w)])"
    by (simp add: expected_balance_step_def is_unit_def is_name_def dict_set_new)
  obtain es where "rfold expected_balance_step (acc @ [(u, w)]) (map (\<lambda>(u, b). (u, amount_text b)) ds) = Inr ((acc @ [(u, w)]) @ es)"
    "entries_rel same_amount ds es"
    using Cons.IH [of "acc @ [(u, w)]"] Cons.prems d by auto
  with step w(2) d show ?case by (intro exI [of _ "(u, w) # es"]) simp
qed simp

lemma restored_balances:
  assumes "funding_ok sha256 L" and "entries_rel same_amount (fl_balances L) d" and "entries_rel same_amount (sort_key fst (fl_balances L)) es"
  shows "dict_same same_value d es"
proof -
  have len: "length d = length es"
    using assms(2,3) by (metis list_all2_lengthD length_sort)
  have "case dict_get es u of None \<Rightarrow> False | Some c \<Rightarrow> same_value b c" if k: "(u, b) \<in> set d" for u b
  proof -
    have "\<exists>a. (u, a) \<in> set (fl_balances L) \<and> same_amount a b"
      using assms(2) k by (induction rule: list_all2_induct) auto
    then obtain a where a: "(u, a) \<in> set (fl_balances L)" "same_amount a b" by blast
    have "dict_get (sort_key fst (fl_balances L)) u = Some a"
      using dict_mem_get [OF _ a(1)] assms(1) by (simp add: dict_get_sort funding_ok_def)
    with entries_rel_get [OF assms(3), of u] a(2) show ?thesis
      by (auto simp: option_rel_Some1 same_value_def same_amount_def)
  qed
  with len show ?thesis by (auto simp: dict_same_def list_all_iff)
qed

lemma rel_prod_flip:
  assumes "rel_prod (=) R x y" and "\<And>a b. R a b \<Longrightarrow> S b a"
  shows "rel_prod (=) S y x"
  using assms by (cases x; cases y) auto

lemma same_amount_flip: "same_amount a b \<Longrightarrow> same_value b a"
  by (simp add: same_amount_def same_value_def)

lemma ledger_rel_same:
  assumes "ledger_rel L M" and "funding_ok sha256 L"
  shows "ledger_same M L"
  unfolding ledger_same_def
proof (intro conjI)
  note rel = assms(1) [unfolded ledger_rel_def] and ok = assms(2) [unfolded funding_ok_def]
  show "dict_same (rel_prod (=) (rel_prod (=) (rel_prod (=) same_value))) (fl_events M) (fl_events L)"
    by (rule entries_rel_same [OF rel [THEN conjunct1]]) (use ok in \<open>blast intro: rel_prod_flip same_amount_flip\<close>)+
  show "dict_same (rel_prod (=) (rel_prod (=) same_value)) (fl_periods M) (fl_periods L)"
    by (rule entries_rel_same [OF rel [THEN conjunct2, THEN conjunct1]]) (use ok in \<open>blast intro: rel_prod_flip same_amount_flip\<close>)+
  show "dict_same same_value (fl_balances M) (fl_balances L)"
    by (rule entries_rel_same [OF rel [THEN conjunct2, THEN conjunct2]]) (use ok in \<open>blast intro: same_amount_flip\<close>)+
qed

text \<open>A later ledger answers as its restored copy does.\<close>

lemma funding_apply_rel:
  assumes "ledger_rel L M"
  shows "rel_sum (=) same_amount (fst (run_funding sha256 c L)) (fst (run_funding sha256 c M))
    \<and> ledger_rel (snd (run_funding sha256 c L)) (snd (run_funding sha256 c M))"
proof (cases c)
  case (Apply i p inst u amount)
  show ?thesis
  proof (cases "strip i = [] \<or> strip p = [] \<or> strip inst = [] \<or> strip u = [] \<or> (\<exists>e. pp_decimal amount False = Inl e)")
    case True
    then show ?thesis using assms Apply by (auto simp: funding_apply_eq split: sum.splits)
  next
    case False
    then obtain v where v: "pp_decimal amount False = Inr v" by (cases "pp_decimal amount False") auto
    then have "same_amount v v" using pp_decimal_Inr by (auto simp: same_amount_def)
    moreover obtain r L' where r: "enter sha256 (strip i, strip p, strip inst, upper (strip u), v) L = (r, L')" by force
    ultimately obtain q M' where "enter sha256 (strip i, strip p, strip inst, upper (strip u), v) M = (q, M')"
      "rel_sum (=) same_amount r q" "ledger_rel L' M'"
      using enter_rel [OF assms] by blast
    with False v r Apply show ?thesis by (simp add: funding_apply_eq)
  qed
qed

lemma replies_rel:
  "ledger_rel L M \<Longrightarrow> list_all2 (rel_sum (=) same_amount) (replies (run_funding sha256) L calls) (replies (run_funding sha256) M calls)"
  by (induction calls arbitrary: L M) (auto simp: funding_apply_rel)

text \<open>(C38) A ledger survives export and restoration.  Suppose the digest has no collisions.  After any calls the ledger exports
  a state without raising, the state restores without raising to a ledger with the same events, periods
  and balances, and the restored ledger answers every later sequence of calls with the same exceptions and
  numerically the same amounts as the original.\<close>

theorem funding_ledger_restores:
  assumes "inj sha256"
  shows "let L = after (run_funding sha256) empty_funding_ledger calls in
    \<exists>st M. export_ledger sha256 L = Inr st \<and> ledger_from_state sha256 st = Inr M \<and> ledger_same M L
      \<and> (\<forall>more. list_all2 (rel_sum (=) same_amount)
            (replies (run_funding sha256) L more) (replies (run_funding sha256) M more))"
proof -
  let ?L = "after (run_funding sha256) empty_funding_ledger calls"
  obtain entries where ok: "funding_ok sha256 ?L" and log: "logged sha256 entries ?L"
    using funding.inv_after [of sha256 calls] by (auto simp: replayable_def)
  have "ledger_rel empty_funding_ledger empty_funding_ledger" by (simp add: ledger_rel_def empty_funding_ledger_def)
  then obtain s M where M: "rfold (restore_event_step sha256) ([], empty_funding_ledger) (map exported entries) = Inr (s, M)"
    and rel: "ledger_rel ?L M"
    using restore_entries [of entries "[]" empty_funding_ledger empty_funding_ledger sha256 ?L] log by (auto simp: logged_def)
  let ?bals = "map (\<lambda>(u, b). (u, amount_text b)) (sort_key fst (fl_balances ?L))"
  let ?st = "\<lparr>fs_schema_version = ''funding-ledger@1'', fs_events = map exported entries, fs_balances = ?bals\<rparr>"
  have bals: "list_all (\<lambda>(u, b). is_unit u \<and> in_envelope b) (sort_key fst (fl_balances ?L))"
    using ok by (simp add: funding_ok_def list_all_iff)
  obtain es where es: "rfold expected_balance_step [] ?bals = Inr es" "entries_rel same_amount (sort_key fst (fl_balances ?L)) es"
    using expected_balances [OF bals, of "[]"] sorted_keys_distinct [of "fl_balances ?L"] ok by (auto simp: funding_ok_def)
  have "entries_rel same_amount (fl_balances ?L) (fl_balances M)" using rel by (simp add: ledger_rel_def)
  from restored_balances [OF ok this es(2)] M es(1) have restored: "ledger_from_state sha256 ?st = Inr M"
    by (simp add: ledger_from_state_def)
  have same: "ledger_same M ?L" by (rule ledger_rel_same [OF rel ok])
  have "rmap (\<lambda>(u, b). rbind (pp_canonical_text b) (\<lambda>t. Inr (u, t))) (sort_key fst (fl_balances ?L)) = Inr ?bals"
    using bals canonical_text_total(2) by (intro rmap_cong_all) (auto simp: list_all_iff)
  with export_events [OF assms ok log] restored same have "export_ledger sha256 ?L = Inr ?st"
    by (simp add: export_ledger_def)
  with restored same replies_rel [OF rel] show ?thesis unfolding Let_def by blast
qed

section \<open>Example\<close>

text \<open>One period delivered twice under two event identifiers, and a second period.  The digest is the identity.\<close>

definition funding_calls :: "funding_call list" where
  "funding_calls = [Apply ''e1'' ''p1'' ''BTC-PERP'' ''usd'' (PyStr ''1.50''), Apply ''e2'' ''p1'' ''BTC-PERP'' ''USD'' (PyStr ''1.5''),
     Apply ''e3'' ''p2'' ''BTC-PERP'' ''USD'' (PyStr ''-0.25'')]"

lemma funding_example_balance:
  "funding_balance (after (run_funding (\<lambda>x. x)) empty_funding_ledger funding_calls) ''usd'' = Inr (Decimal False 125 (- 2))"
  by code_simp

theorem funding_counted_once_witness:
  "let L = after (run_funding (\<lambda>x. x)) empty_funding_ledger funding_calls in
     sum_list (map (period_amount ''USD'') (fl_periods L)) = dval (Decimal False 125 (- 2))"
proof -
  have u: "upper (strip ''usd'') = ''USD''" by code_simp
  show ?thesis
    using funding_counted_once [of "\<lambda>x. x" funding_calls] funding_example_balance u unfolding Let_def by metis
qed

theorem funding_redelivery_ignored_witness:
  "\<exists>a L. funding_apply (\<lambda>x. x) ''e4'' ''p1'' ''BTC-PERP'' ''USD'' (PyStr ''1.5'')
        (after (run_funding (\<lambda>x. x)) empty_funding_ledger funding_calls) = (Inr a, L)
      \<and> dval a = pyval (PyStr ''1.5'')"
proof -
  have "case_sum (\<lambda>_. False) (\<lambda>_. True) (fst (funding_apply (\<lambda>x. x) ''e4'' ''p1'' ''BTC-PERP'' ''USD'' (PyStr ''1.5'')
      (after (run_funding (\<lambda>x. x)) empty_funding_ledger funding_calls)))" by code_simp
  then obtain a L where r: "funding_apply (\<lambda>x. x) ''e4'' ''p1'' ''BTC-PERP'' ''USD'' (PyStr ''1.5'')
      (after (run_funding (\<lambda>x. x)) empty_funding_ledger funding_calls) = (Inr a, L)"
    by (auto split: sum.splits simp: fst_def split: prod.splits)
  have "inj (\<lambda>x :: string. x)" by (simp add: inj_on_def)
  from funding_redelivery_ignored [OF this refl r] r show ?thesis by blast
qed

theorem funding_ledger_restores_witness:
  "\<exists>st M. export_ledger (\<lambda>x. x) (after (run_funding (\<lambda>x. x)) empty_funding_ledger funding_calls) = Inr st
      \<and> ledger_from_state (\<lambda>x. x) st = Inr M"
proof -
  have "inj (\<lambda>x :: string. x)" by (simp add: inj_on_def)
  from funding_ledger_restores [OF this, of funding_calls] show ?thesis unfolding Let_def by blast
qed

end
