(* ===== verification/Risk_Inputs.thy ===== *)
theory Risk_Inputs
  imports Json_Text Instants
begin

text \<open>
  \<open>mvp/autotrade_mvp/risk.py\<close>, first part: exact risk arithmetic, normalisation of mappings, and the sealed inputs of
  a risk evaluation: intent, policy, context and liquidation evidence.  A record has a type parameter for
  its numbers: what a caller passes (\<open>pynum\<close>) or the Decimals \<open>create\<close> stores; an optional mapping that is absent
  is the empty one, as \<open>create\<close> makes it.
\<close>

section \<open>Numbers\<close>

definition rk :: "'a result \<Rightarrow> 'a result" where
  "rk m = translate ExactDecimalError ValueError m"

definition rk_add :: "decimal \<Rightarrow> decimal \<Rightarrow> decimal result" where "rk_add a b = rk (exact_add a b)"

definition rk_sum :: "decimal list \<Rightarrow> decimal result" where "rk_sum ds = rk (exact_sum ds)"

definition rk_product :: "decimal list \<Rightarrow> decimal result" where "rk_product ds = rk (exact_multiply ds)"

definition rk_abs :: "decimal \<Rightarrow> decimal result" where "rk_abs d = rk (exact_abs d)"

definition rk_negate :: "decimal \<Rightarrow> decimal result" where "rk_negate d = rk (exact_subtract dzero d)"

definition rk_fraction :: "rat \<Rightarrow> rat result" where "rk_fraction q = rk (bounded_fraction q)"

definition rk_decimal :: "pynum \<Rightarrow> decimal result" where
  "rk_decimal v = (case v of PyBool _ \<Rightarrow> Inl TypeError | PyFloat \<Rightarrow> Inl TypeError | PyOther \<Rightarrow> Inl TypeError
     | _ \<Rightarrow> rk (parse_bounded_exact_decimal v True))"

definition exact_risk_ratio :: "decimal \<Rightarrow> decimal \<Rightarrow> rat result" where
  "exact_risk_ratio numerator denominator =
     rbind (rk (as_fraction numerator)) (\<lambda>n. rbind (rk (as_fraction denominator)) (\<lambda>d.
       if d \<le> 0 then Inl ValueError else rk (bounded_fraction (n / d))))"

definition fraction_le_decimal :: "rat \<Rightarrow> decimal \<Rightarrow> bool result" where
  "fraction_le_decimal q limit = rk (rbind (bounded_fraction q) (\<lambda>q. rbind (as_fraction limit) (\<lambda>l. Inr (q \<le> l))))"

definition ratio_report :: "rat \<Rightarrow> decimal result" where
  "ratio_report q = rk (rbind (bounded_fraction q) (\<lambda>q. round_fraction_to_quantum q (Decimal False 1 (- 18)) CEILING))"

definition nonnegative_fraction_ceiling :: "rat \<Rightarrow> int result" where
  "nonnegative_fraction_ceiling q =
     rbind (rk_fraction q) (\<lambda>admitted.
       if admitted < 0 then Inl ValueError
       else Inr (- ((- fst (quotient_of admitted)) div snd (quotient_of admitted))))"

definition rk_positive :: "bool \<Rightarrow> pynum \<Rightarrow> decimal result" where
  "rk_positive allow_zero v = rbind (rk_decimal v) (\<lambda>d.
     if dval d < 0 \<or> (dval d = 0 \<and> \<not> allow_zero) then Inl ValueError else Inr d)"

definition risk_text :: "decimal \<Rightarrow> string result" where
  "risk_text d = rk (canonical_decimal_text d)"

text \<open>\<open>max\<close> of Decimals: the first greatest one.\<close>

definition dmax :: "decimal \<Rightarrow> decimal \<Rightarrow> decimal" where
  "dmax a b = (if dval a < dval b then b else a)"

definition dmax_list :: "decimal list \<Rightarrow> decimal" where
  "dmax_list ds = (case ds of [] \<Rightarrow> dzero | d # es \<Rightarrow> foldl dmax d es)"

section \<open>Mappings and labels\<close>

definition identity_key :: "string \<Rightarrow> string result" where
  "identity_key v = (if strip v = [] then Inl ValueError else Inr (strip v))"

definition mapping_step :: "('v \<Rightarrow> 'w result) \<Rightarrow> (string, 'w) dict \<Rightarrow> string \<times> 'v \<Rightarrow> (string, 'w) dict result" where
  "mapping_step parser normalized item = (case item of (raw_key, raw_value) \<Rightarrow>
     rbind (identity_key raw_key) (\<lambda>key.
       if dict_get normalized key \<noteq> None then Inl ValueError
       else rbind (parser raw_value) (\<lambda>v. Inr (dict_set normalized key v))))"

definition normalize_mapping :: "('v \<Rightarrow> 'w result) \<Rightarrow> (string, 'v) dict \<Rightarrow> (string, 'w) dict result" where
  "normalize_mapping parser values = rfold (mapping_step parser) [] values"

definition normalize_reservation_requirements :: "(string, pynum) dict \<Rightarrow> (string \<times> decimal) list result" where
  "normalize_reservation_requirements values =
     rbind (normalize_mapping (rk_positive False) values) (\<lambda>normalized.
       if normalized = [] then Inl ValueError else Inr (sort_key fst normalized))"

definition reservation_requirements_payload :: "(string \<times> decimal) list \<Rightarrow> (string, string) dict result" where
  "reservation_requirements_payload values =
     (if values = [] then Inl TypeError
      else rbind (normalize_mapping (\<lambda>d. rk_positive False (PyDecimal d)) values) (\<lambda>items.
        let normalized = sort_key fst items in
        if \<not> list_all2 (\<lambda>(k, a) (l, b). k = l \<and> dval a = dval b) normalized values then Inl ValueError
        else rmap (\<lambda>(resource, amount). rbind (risk_text amount) (\<lambda>t. Inr (resource, t))) normalized))"

definition RISK_ACTIONS :: "string list" where
  "RISK_ACTIONS = [''TRADE'', ''REDUCE'', ''HEDGE'', ''FLATTEN'', ''EXERCISE'']"

definition RISK_INSTRUMENT_TYPES :: "string list" where
  "RISK_INSTRUMENT_TYPES = [''GENERIC'', ''SPOT'', ''EQUITY'', ''FUTURE'', ''PERPETUAL'', ''OPTION'']"

definition RISK_ENVIRONMENTS :: "string list" where
  "RISK_ENVIRONMENTS = [''REPLAY'', ''SIMULATION'', ''PAPER'', ''LIVE'']"

definition action_step :: "string list \<Rightarrow> string \<Rightarrow> string list result" where
  "action_step normalized v =
     (if strip v = [] then Inl ValueError
      else let action = upper (strip v) in
        if action \<notin> set RISK_ACTIONS \<or> action \<in> set normalized then Inl ValueError else Inr (normalized @ [action]))"

definition normalize_actions :: "string list \<Rightarrow> string list result" where
  "normalize_actions values = rbind (rfold action_step [] values) (\<lambda>normalized.
     if normalized = [] then Inl ValueError else Inr normalized)"

definition label_step :: "string list \<Rightarrow> string \<Rightarrow> string list result" where
  "label_step normalized v =
     (if strip v = [] \<or> strip v \<in> set normalized then Inl ValueError else Inr (normalized @ [strip v]))"

definition normalize_labels :: "string list \<Rightarrow> string list result" where
  "normalize_labels values = rfold label_step [] values"

definition is_sha256 :: "string \<Rightarrow> bool" where
  "is_sha256 t \<longleftrightarrow> take 7 t = ''sha256:'' \<and> length t = 71 \<and> list_all is_hex_lower (drop 7 t)"

definition scenario_digest_value :: "string \<Rightarrow> string result" where
  "scenario_digest_value raw = (if is_sha256 (strip raw) then Inr (strip raw) else Inl ValueError)"

definition normalize_scenario_digests :: "(string, string) dict \<Rightarrow> (string \<times> string) list result" where
  "normalize_scenario_digests values =
     rbind (normalize_mapping scenario_digest_value values) (\<lambda>normalized.
       if normalized = [] then Inl ValueError else Inr (sort_key fst normalized))"

definition canonical_scenario_digest_mapping :: "(string \<times> string) list option \<Rightarrow> (string, string) dict option result" where
  "canonical_scenario_digest_mapping values = (case values of None \<Rightarrow> Inr None
     | Some pairs \<Rightarrow> rbind (rfold (\<lambda>d (label, digest).
         if dict_get d label \<noteq> None then Inl ValueError else Inr (dict_set d label digest)) [] pairs) (\<lambda>d. Inr (Some d)))"

definition stress_scenario_digest :: "(string \<Rightarrow> string) \<Rightarrow> (string, pynum) dict \<Rightarrow> string result" where
  "stress_scenario_digest sha256 scenario =
     rbind (normalize_mapping rk_decimal scenario) (\<lambda>normalized.
     rbind (rmap (\<lambda>(k, v). rbind (risk_text v) (\<lambda>t. Inr (k, JStr t))) (sort_key fst normalized)) (\<lambda>items.
       Inr (''sha256:'' @ sha256 (json_text (JObj items)))))"

definition tail_scenario_set_digest :: "(string \<Rightarrow> string) \<Rightarrow> (string, pynum) dict list \<Rightarrow> string result" where
  "tail_scenario_set_digest sha256 scenarios =
     rbind (rmap (stress_scenario_digest sha256) scenarios) (\<lambda>digests.
       Inr (''sha256:'' @ sha256 (json_text (JList (map JStr (sort digests))))))"

definition ropt :: "('a \<Rightarrow> 'b result) \<Rightarrow> 'a option \<Rightarrow> 'b option result" where
  "ropt f v = (case v of None \<Rightarrow> Inr None | Some x \<Rightarrow> rbind (f x) (\<lambda>y. Inr (Some y)))"

section \<open>Liquidation evidence\<close>

definition rk_utc :: "moment \<Rightarrow> int result" where
  "rk_utc v = (case v of Not_Aware \<Rightarrow> Inl ValueError | Beyond_Calendar \<Rightarrow> Inl OverflowError | Moment us \<Rightarrow> Inr us)"

record liquidation_scope =
  ls_provider_id :: string
  ls_account_id :: string
  ls_environment :: string
  ls_margin_mode :: string
  ls_risk_tier_version :: string

definition make_liquidation_scope :: "liquidation_scope \<Rightarrow> liquidation_scope result" where
  "make_liquidation_scope s =
     rbind (identity_key (ls_provider_id s)) (\<lambda>provider. rbind (identity_key (ls_account_id s)) (\<lambda>account.
     rbind (identity_key (ls_environment s)) (\<lambda>environment.
     if upper environment \<notin> set RISK_ENVIRONMENTS then Inl ValueError
     else rbind (identity_key (ls_margin_mode s)) (\<lambda>mode. rbind (identity_key (ls_risk_tier_version s)) (\<lambda>tier.
       Inr \<lparr>ls_provider_id = upper provider, ls_account_id = account, ls_environment = upper environment,
         ls_margin_mode = upper mode, ls_risk_tier_version = tier\<rparr>)))))"

text \<open>\<open>str(UUID(text))\<close>: \<open>int(hex, 16)\<close> of what is left after prefixes, braces and hyphens are taken off.\<close>

fun remove_all :: "string \<Rightarrow> string \<Rightarrow> string" where
  "remove_all pat [] = []"
| "remove_all pat (c # s) =
     (if pat \<noteq> [] \<and> take (length pat) (c # s) = pat then remove_all pat (drop (length pat - 1) s) else c # remove_all pat s)"

definition hex_value :: "char \<Rightarrow> nat option" where
  "hex_value c = (let n = (of_char c :: nat) in
     if 48 \<le> n \<and> n \<le> 57 then Some (n - 48) else if 97 \<le> n \<and> n \<le> 102 then Some (n - 87)
     else if 65 \<le> n \<and> n \<le> 70 then Some (n - 55) else None)"

text \<open>Digits with single underscores between them; \<open>after_digit\<close> tells whether an underscore may come next.\<close>

fun hex_digits :: "bool \<Rightarrow> string \<Rightarrow> nat \<Rightarrow> nat option" where
  "hex_digits after_digit [] acc = (if after_digit then Some acc else None)"
| "hex_digits after_digit (c # s) acc =
     (case hex_value c of Some d \<Rightarrow> hex_digits True s (acc * 16 + d)
      | None \<Rightarrow> if c = CHR ''_'' \<and> after_digit then hex_digits False s acc else None)"

definition int_base16 :: "string \<Rightarrow> int option" where
  "int_base16 raw =
     (let t = strip raw; negative = (t \<noteq> [] \<and> hd t = CHR ''-''); u = drop_sign t;
          v = (if take 2 u = ''0x'' \<or> take 2 u = ''0X'' then (if take 1 (drop 2 u) = ''_'' then drop 3 u else drop 2 u) else u)
      in map_option (\<lambda>n. if negative then - int n else int n) (hex_digits False v 0))"

fun hex_text :: "nat \<Rightarrow> nat \<Rightarrow> string" where
  "hex_text 0 n = []"
| "hex_text (Suc k) n = hex_text k (n div 16) @ [hex_digit (n mod 16)]"

definition uuid_text :: "string \<Rightarrow> string result" where
  "uuid_text t =
     (let brace = (\<lambda>c. c = CHR ''{'' \<or> c = CHR ''}'');
          hex = remove_all ''-'' (rstrip_by brace (lstrip_by brace (remove_all ''uuid:'' (remove_all ''urn:'' t)))) in
      if length hex \<noteq> 32 then Inl ValueError
      else case int_base16 hex of None \<Rightarrow> Inl ValueError
        | Some n \<Rightarrow> if n < 0 then Inl ValueError
            else let h = hex_text 32 (nat n) in
              Inr (take 8 h @ ''-'' @ take 4 (drop 8 h) @ ''-'' @ take 4 (drop 12 h) @ ''-'' @ take 4 (drop 16 h)
                @ ''-'' @ drop 20 h))"

record headroom_evidence =
  he_headroom :: decimal
  he_state_version :: int
  he_scope :: liquidation_scope
  he_observed_at :: int
  he_expires_at :: int
  he_artifact_id :: string
  he_sha256 :: string

definition make_headroom_evidence :: "pynum \<Rightarrow> int \<Rightarrow> liquidation_scope \<Rightarrow> moment \<Rightarrow> moment \<Rightarrow> string \<Rightarrow> string
    \<Rightarrow> headroom_evidence result" where
  "make_headroom_evidence headroom state_version raw_scope observed_at expires_at artifact_id digest =
     (if state_version < 0 then Inl ValueError
      else rbind (make_liquidation_scope raw_scope) (\<lambda>scope. rbind (rk_utc observed_at) (\<lambda>observed.
      rbind (rk_utc expires_at) (\<lambda>expires.
      if expires \<le> observed then Inl ValueError
      else rbind (uuid_text artifact_id) (\<lambda>artifact. rbind (identity_key digest) (\<lambda>dg.
      if \<not> is_sha256 dg then Inl ValueError
      else rbind (rk_decimal headroom) (\<lambda>h.
        Inr \<lparr>he_headroom = h, he_state_version = state_version, he_scope = scope, he_observed_at = observed,
          he_expires_at = expires, he_artifact_id = artifact, he_sha256 = dg\<rparr>)))))))"

definition reseal_evidence :: "headroom_evidence \<Rightarrow> headroom_evidence result" where
  "reseal_evidence e = make_headroom_evidence (PyDecimal (he_headroom e)) (he_state_version e) (he_scope e)
     (Moment (he_observed_at e)) (Moment (he_expires_at e)) (he_artifact_id e) (he_sha256 e)"

section \<open>The intent\<close>

record 'n risk_intent =
  in_symbol :: string
  in_side :: string
  in_quantity :: 'n
  in_price :: 'n
  in_expected_version :: int
  in_reduce_only :: bool
  in_action :: string
  in_type :: string

definition make_intent :: "pynum risk_intent \<Rightarrow> decimal risk_intent result" where
  "make_intent r =
     rbind (require (strip (in_symbol r) \<noteq> []) ValueError) (\<lambda>_.
     rbind (require (upper (in_side r) \<in> {''BUY'', ''SELL''}) ValueError) (\<lambda>_.
     rbind (require (0 \<le> in_expected_version r) ValueError) (\<lambda>_.
     rbind (require (strip (in_action r) \<noteq> []) ValueError) (\<lambda>_.
     let action = upper (strip (in_action r)) in
     rbind (require (action \<in> set RISK_ACTIONS) ValueError) (\<lambda>_.
     rbind (require (action \<in> {''REDUCE'', ''FLATTEN''} \<longrightarrow> in_reduce_only r) ValueError) (\<lambda>_.
     rbind (require (strip (in_type r) \<noteq> []) ValueError) (\<lambda>_.
     let instrument_type = upper (strip (in_type r)) in
     rbind (require (instrument_type \<in> set RISK_INSTRUMENT_TYPES) ValueError) (\<lambda>_.
     rbind (require (action = ''EXERCISE'' \<longrightarrow> instrument_type = ''OPTION'') ValueError) (\<lambda>_.
     rbind (rk_positive False (in_quantity r)) (\<lambda>quantity.
     rbind (rk_positive False (in_price r)) (\<lambda>price.
       Inr \<lparr>in_symbol = strip (in_symbol r), in_side = upper (in_side r), in_quantity = quantity, in_price = price,
         in_expected_version = in_expected_version r, in_reduce_only = in_reduce_only r, in_action = action,
         in_type = instrument_type\<rparr>)))))))))))"

definition raw_intent :: "decimal risk_intent \<Rightarrow> pynum risk_intent" where
  "raw_intent i = \<lparr>in_symbol = in_symbol i, in_side = in_side i, in_quantity = PyDecimal (in_quantity i),
     in_price = PyDecimal (in_price i), in_expected_version = in_expected_version i,
     in_reduce_only = in_reduce_only i, in_action = in_action i, in_type = in_type i\<rparr>"

section \<open>The policy\<close>

record 'n risk_policy =
  pl_max_abs_position :: 'n
  pl_max_single_notional :: 'n
  pl_max_gross_leverage :: 'n
  pl_max_net_leverage :: 'n
  pl_max_daily_loss :: 'n
  pl_max_drawdown :: 'n
  pl_max_data_age :: 'n
  pl_max_fx_age :: 'n
  pl_min_margin :: 'n
  pl_max_stress_loss :: 'n
  pl_max_shortfall :: "'n option"
  pl_tail_fraction :: "'n option"
  pl_min_liquidation :: "'n option"
  pl_stress_labels :: "string list option"
  pl_stress_digests :: "(string \<times> string) list option"
  pl_tail_digest :: "string option"
  pl_max_asset_concentration :: "'n option"
  pl_max_venue_concentration :: "'n option"
  pl_max_participation :: "'n option"
  pl_max_factor :: "'n option"
  pl_max_spread :: "'n option"
  pl_max_slippage :: "'n option"
  pl_max_clock_age :: "'n option"
  pl_allowed_actions :: "string list option"
  pl_require_settlement :: bool
  pl_require_exercise :: bool
  pl_min_delivery :: "'n option"

definition fraction_limit :: "pynum \<Rightarrow> decimal result" where
  "fraction_limit v = rbind (rk_positive True v) (\<lambda>f. rbind (require (dval f \<le> 1) ValueError) (\<lambda>_. Inr f))"

definition make_policy :: "pynum risk_policy \<Rightarrow> decimal risk_policy result" where
  "make_policy r =
     rbind (rk_positive False (pl_max_abs_position r)) (\<lambda>abs_position.
     rbind (rk_positive False (pl_max_single_notional r)) (\<lambda>single.
     rbind (rk_positive False (pl_max_gross_leverage r)) (\<lambda>gross.
     rbind (rk_positive False (pl_max_net_leverage r)) (\<lambda>net.
     rbind (rk_positive True (pl_max_daily_loss r)) (\<lambda>daily.
     rbind (rk_positive True (pl_max_drawdown r)) (\<lambda>drawdown.
     rbind (rk_positive True (pl_max_data_age r)) (\<lambda>data_age.
     rbind (rk_positive True (pl_max_fx_age r)) (\<lambda>fx_age.
     rbind (rk_positive True (pl_min_margin r)) (\<lambda>margin.
     rbind (rk_positive True (pl_max_stress_loss r)) (\<lambda>stress.
     rbind (require (dval drawdown \<le> 1) ValueError) (\<lambda>_.
     rbind (ropt (rk_positive True) (pl_max_shortfall r)) (\<lambda>shortfall.
     rbind (ropt (rk_positive False) (pl_tail_fraction r)) (\<lambda>tail.
     rbind (require ((shortfall = None) = (tail = None)) ValueError) (\<lambda>_.
     rbind (require (case tail of None \<Rightarrow> True | Some f \<Rightarrow> dval f \<le> 1) ValueError) (\<lambda>_.
     rbind (ropt (rk_positive True) (pl_min_liquidation r)) (\<lambda>liquidation.
     rbind (ropt normalize_labels (pl_stress_labels r)) (\<lambda>labels.
     rbind (require (labels \<noteq> Some []) ValueError) (\<lambda>_.
     rbind (ropt normalize_scenario_digests (pl_stress_digests r)) (\<lambda>digests.
     rbind (require ((labels = None) = (digests = None)) ValueError) (\<lambda>_.
     rbind (require (case labels of None \<Rightarrow> True
         | Some ls \<Rightarrow> set (map fst (case digests of None \<Rightarrow> [] | Some ds \<Rightarrow> ds)) = set ls) ValueError) (\<lambda>_.
     rbind (ropt scenario_digest_value (pl_tail_digest r)) (\<lambda>tail_digest.
     rbind (require (shortfall \<noteq> None \<longrightarrow> tail_digest \<noteq> None) ValueError) (\<lambda>_.
     rbind (require (shortfall = None \<longrightarrow> tail_digest = None) ValueError) (\<lambda>_.
     rbind (ropt fraction_limit (pl_max_asset_concentration r)) (\<lambda>asset.
     rbind (ropt fraction_limit (pl_max_venue_concentration r)) (\<lambda>venue.
     rbind (ropt fraction_limit (pl_max_participation r)) (\<lambda>participation.
     rbind (ropt fraction_limit (pl_max_spread r)) (\<lambda>spread.
     rbind (ropt fraction_limit (pl_max_slippage r)) (\<lambda>slippage.
     rbind (ropt (rk_positive True) (pl_max_factor r)) (\<lambda>factor.
     rbind (ropt (rk_positive True) (pl_max_clock_age r)) (\<lambda>clock.
     rbind (ropt normalize_actions (pl_allowed_actions r)) (\<lambda>actions.
     rbind (ropt (rk_positive True) (pl_min_delivery r)) (\<lambda>delivery.
       Inr \<lparr>pl_max_abs_position = abs_position, pl_max_single_notional = single, pl_max_gross_leverage = gross,
         pl_max_net_leverage = net, pl_max_daily_loss = daily, pl_max_drawdown = drawdown, pl_max_data_age = data_age,
         pl_max_fx_age = fx_age, pl_min_margin = margin, pl_max_stress_loss = stress, pl_max_shortfall = shortfall,
         pl_tail_fraction = tail, pl_min_liquidation = liquidation, pl_stress_labels = labels,
         pl_stress_digests = digests, pl_tail_digest = tail_digest, pl_max_asset_concentration = asset,
         pl_max_venue_concentration = venue, pl_max_participation = participation, pl_max_factor = factor,
         pl_max_spread = spread, pl_max_slippage = slippage, pl_max_clock_age = clock, pl_allowed_actions = actions,
         pl_require_settlement = pl_require_settlement r, pl_require_exercise = pl_require_exercise r,
         pl_min_delivery = delivery\<rparr>)))))))))))))))))))))))))))))))))"

definition raw_policy :: "decimal risk_policy \<Rightarrow> (string, string) dict option \<Rightarrow> pynum risk_policy" where
  "raw_policy p digests = \<lparr>pl_max_abs_position = PyDecimal (pl_max_abs_position p),
     pl_max_single_notional = PyDecimal (pl_max_single_notional p),
     pl_max_gross_leverage = PyDecimal (pl_max_gross_leverage p), pl_max_net_leverage = PyDecimal (pl_max_net_leverage p),
     pl_max_daily_loss = PyDecimal (pl_max_daily_loss p), pl_max_drawdown = PyDecimal (pl_max_drawdown p),
     pl_max_data_age = PyDecimal (pl_max_data_age p), pl_max_fx_age = PyDecimal (pl_max_fx_age p),
     pl_min_margin = PyDecimal (pl_min_margin p), pl_max_stress_loss = PyDecimal (pl_max_stress_loss p),
     pl_max_shortfall = map_option PyDecimal (pl_max_shortfall p),
     pl_tail_fraction = map_option PyDecimal (pl_tail_fraction p),
     pl_min_liquidation = map_option PyDecimal (pl_min_liquidation p), pl_stress_labels = pl_stress_labels p,
     pl_stress_digests = digests, pl_tail_digest = pl_tail_digest p,
     pl_max_asset_concentration = map_option PyDecimal (pl_max_asset_concentration p),
     pl_max_venue_concentration = map_option PyDecimal (pl_max_venue_concentration p),
     pl_max_participation = map_option PyDecimal (pl_max_participation p),
     pl_max_factor = map_option PyDecimal (pl_max_factor p), pl_max_spread = map_option PyDecimal (pl_max_spread p),
     pl_max_slippage = map_option PyDecimal (pl_max_slippage p),
     pl_max_clock_age = map_option PyDecimal (pl_max_clock_age p), pl_allowed_actions = pl_allowed_actions p,
     pl_require_settlement = pl_require_settlement p, pl_require_exercise = pl_require_exercise p,
     pl_min_delivery = map_option PyDecimal (pl_min_delivery p)\<rparr>"

definition reseal_policy :: "decimal risk_policy \<Rightarrow> decimal risk_policy result" where
  "reseal_policy p = rbind (canonical_scenario_digest_mapping (pl_stress_digests p)) (\<lambda>digests.
     make_policy (raw_policy p digests))"

section \<open>The context\<close>

record ('n, 't) risk_context =
  cx_state_version :: int
  cx_equity :: 'n
  cx_positions :: "(string, 'n) dict"
  cx_marks :: "(string, 'n) dict"
  cx_reserved :: "(string, 'n) dict"
  cx_daily_pnl :: 'n
  cx_drawdown :: 'n
  cx_data_age :: 'n
  cx_fx_age :: "(string, 'n) dict"
  cx_fx_required :: bool
  cx_margin :: 'n
  cx_capability :: bool
  cx_borrow :: "bool option"
  cx_stress :: "(string, 'n) dict list"
  cx_stress_labels :: "string list"
  cx_tail :: "(string, 'n) dict list"
  cx_liquidation :: "'n option"
  cx_scope :: "liquidation_scope option"
  cx_evidence :: "headroom_evidence option"
  cx_time :: "'t option"
  cx_buckets :: "(string, string) dict"
  cx_venues :: "(string, string) dict"
  cx_liquidity :: "(string, 'n) dict"
  cx_loadings :: "(string, (string, 'n) dict) dict"
  cx_spread :: "(string, 'n) dict"
  cx_slippage :: "(string, 'n) dict"
  cx_clock_age :: "'n option"
  cx_settlement :: "bool option"
  cx_deliverable :: "bool option"
  cx_exercise_required :: "'n option"
  cx_exercise_available :: "'n option"
  cx_delivery :: "(string, 'n) dict"
  cx_equivalents :: "(string, 'n) dict"
  cx_types :: "(string, string) dict"

definition normalize_types :: "(string, string) dict \<Rightarrow> (string, string) dict result" where
  "normalize_types values = rbind (normalize_mapping identity_key values) (\<lambda>types.
     let upper_types = map (\<lambda>(s, t). (s, upper t)) types in
     rbind (require (list_all (\<lambda>(s, t). t \<in> set RISK_INSTRUMENT_TYPES) upper_types) ValueError) (\<lambda>_. Inr upper_types))"

text \<open>The checks between a headroom, its evidence and the scope, and the headroom that is stored.\<close>

definition seal_liquidation :: "int \<Rightarrow> liquidation_scope option \<Rightarrow> int option \<Rightarrow> headroom_evidence option \<Rightarrow> decimal option
    \<Rightarrow> decimal option result" where
  "seal_liquidation version scope decision_time evidence headroom = (case evidence of None \<Rightarrow> Inr headroom
     | Some e \<Rightarrow>
         rbind (require (scope \<noteq> None \<and> decision_time \<noteq> None) ValueError) (\<lambda>_.
         rbind (require (scope = Some (he_scope e)) ValueError) (\<lambda>_.
         rbind (require (he_state_version e = version) ValueError) (\<lambda>_.
         rbind (require (case headroom of None \<Rightarrow> True | Some h \<Rightarrow> dval h = dval (he_headroom e)) ValueError) (\<lambda>_.
           Inr (Some (he_headroom e)))))))"

definition make_context :: "(pynum, moment) risk_context \<Rightarrow> (decimal, int) risk_context result" where
  "make_context r =
     rbind (require (0 \<le> cx_state_version r) ValueError) (\<lambda>_.
     rbind (normalize_mapping rk_decimal (cx_positions r)) (\<lambda>positions.
     rbind (normalize_mapping (rk_positive False) (cx_marks r)) (\<lambda>marks.
     rbind (normalize_mapping rk_decimal (cx_reserved r)) (\<lambda>reserved.
     rbind (normalize_mapping (rk_positive True) (cx_fx_age r)) (\<lambda>fx.
     rbind (normalize_mapping identity_key (cx_buckets r)) (\<lambda>buckets.
     rbind (normalize_mapping identity_key (cx_venues r)) (\<lambda>venues.
     rbind (normalize_types (cx_types r)) (\<lambda>types.
     rbind (normalize_mapping (rk_positive True) (cx_liquidity r)) (\<lambda>liquidity.
     rbind (normalize_mapping (normalize_mapping rk_decimal) (cx_loadings r)) (\<lambda>loadings.
     rbind (normalize_mapping (rk_positive True) (cx_spread r)) (\<lambda>spread.
     rbind (normalize_mapping (rk_positive True) (cx_slippage r)) (\<lambda>slippage.
     rbind (ropt (rk_positive True) (cx_clock_age r)) (\<lambda>clock.
     rbind (ropt (rk_positive True) (cx_exercise_required r)) (\<lambda>exercise_required.
     rbind (ropt (rk_positive True) (cx_exercise_available r)) (\<lambda>exercise_available.
     rbind (normalize_mapping rk_decimal (cx_delivery r)) (\<lambda>delivery.
     rbind (normalize_mapping rk_decimal (cx_equivalents r)) (\<lambda>equivalents.
     rbind (require (list_all (\<lambda>(s, e). dval e \<noteq> 0) equivalents) ValueError) (\<lambda>_.
     rbind (rmap (normalize_mapping rk_decimal) (cx_stress r)) (\<lambda>scenarios.
     rbind (normalize_labels (cx_stress_labels r)) (\<lambda>labels.
     rbind (require (labels = [] \<or> length labels = length scenarios) ValueError) (\<lambda>_.
     rbind (rmap (normalize_mapping rk_decimal) (cx_tail r)) (\<lambda>tail.
     rbind (ropt rk_decimal (cx_liquidation r)) (\<lambda>given_headroom.
     rbind (ropt make_liquidation_scope (cx_scope r)) (\<lambda>scope.
     rbind (ropt reseal_evidence (cx_evidence r)) (\<lambda>evidence.
     rbind (ropt rk_utc (cx_time r)) (\<lambda>decision_time.
     rbind (seal_liquidation (cx_state_version r) scope decision_time evidence given_headroom) (\<lambda>headroom.
     rbind (rk_positive True (cx_drawdown r)) (\<lambda>drawdown.
     rbind (require (dval drawdown \<le> 1) ValueError) (\<lambda>_.
     rbind (rk_positive False (cx_equity r)) (\<lambda>equity.
     rbind (rk_decimal (cx_daily_pnl r)) (\<lambda>daily.
     rbind (rk_positive True (cx_data_age r)) (\<lambda>data_age.
     rbind (rk_positive True (cx_margin r)) (\<lambda>margin.
       Inr \<lparr>cx_state_version = cx_state_version r, cx_equity = equity, cx_positions = positions, cx_marks = marks,
         cx_reserved = reserved, cx_daily_pnl = daily, cx_drawdown = drawdown, cx_data_age = data_age, cx_fx_age = fx,
         cx_fx_required = cx_fx_required r, cx_margin = margin, cx_capability = cx_capability r,
         cx_borrow = cx_borrow r, cx_stress = scenarios, cx_stress_labels = labels, cx_tail = tail,
         cx_liquidation = headroom, cx_scope = scope, cx_evidence = evidence, cx_time = decision_time,
         cx_buckets = buckets, cx_venues = venues, cx_liquidity = liquidity, cx_loadings = loadings,
         cx_spread = spread, cx_slippage = slippage, cx_clock_age = clock, cx_settlement = cx_settlement r,
         cx_deliverable = cx_deliverable r, cx_exercise_required = exercise_required,
         cx_exercise_available = exercise_available, cx_delivery = delivery, cx_equivalents = equivalents,
         cx_types = types\<rparr>)))))))))))))))))))))))))))))))))"

definition raw_dict :: "(string, decimal) dict \<Rightarrow> (string, pynum) dict" where
  "raw_dict d = map (\<lambda>(k, v). (k, PyDecimal v)) d"

definition raw_context :: "(decimal, int) risk_context \<Rightarrow> (pynum, moment) risk_context" where
  "raw_context c = \<lparr>cx_state_version = cx_state_version c, cx_equity = PyDecimal (cx_equity c),
     cx_positions = raw_dict (cx_positions c), cx_marks = raw_dict (cx_marks c), cx_reserved = raw_dict (cx_reserved c),
     cx_daily_pnl = PyDecimal (cx_daily_pnl c), cx_drawdown = PyDecimal (cx_drawdown c),
     cx_data_age = PyDecimal (cx_data_age c), cx_fx_age = raw_dict (cx_fx_age c), cx_fx_required = cx_fx_required c,
     cx_margin = PyDecimal (cx_margin c), cx_capability = cx_capability c, cx_borrow = cx_borrow c,
     cx_stress = map raw_dict (cx_stress c), cx_stress_labels = cx_stress_labels c, cx_tail = map raw_dict (cx_tail c),
     cx_liquidation = map_option PyDecimal (cx_liquidation c), cx_scope = cx_scope c, cx_evidence = cx_evidence c,
     cx_time = map_option Moment (cx_time c), cx_buckets = cx_buckets c, cx_venues = cx_venues c,
     cx_liquidity = raw_dict (cx_liquidity c), cx_loadings = map (\<lambda>(k, d). (k, raw_dict d)) (cx_loadings c),
     cx_spread = raw_dict (cx_spread c), cx_slippage = raw_dict (cx_slippage c),
     cx_clock_age = map_option PyDecimal (cx_clock_age c), cx_settlement = cx_settlement c,
     cx_deliverable = cx_deliverable c, cx_exercise_required = map_option PyDecimal (cx_exercise_required c),
     cx_exercise_available = map_option PyDecimal (cx_exercise_available c), cx_delivery = raw_dict (cx_delivery c),
     cx_equivalents = raw_dict (cx_equivalents c), cx_types = cx_types c\<rparr>"

end
