(* ===== verification/Utc_Text.thy ===== *)
theory Utc_Text
  imports Exact_Decimal_Text
begin

text \<open>
  \<open>isoformat().replace("+00:00", "Z")\<close> of a UTC datetime, the text of an instant in every digest and evidence
  payload.  An instant is the number of microseconds since 1 January of year 1.  The text determines the instant.
\<close>

section \<open>The text\<close>

definition pad_text :: "nat \<Rightarrow> int \<Rightarrow> string" where
  "pad_text width n = (let t = digits_text (digits_of (nat n)) in replicate (width - length t) CHR ''0'' @ t)"

definition leap_year :: "int \<Rightarrow> bool" where
  "leap_year y \<longleftrightarrow> y mod 4 = 0 \<and> (y mod 100 \<noteq> 0 \<or> y mod 400 = 0)"

text \<open>Days are counted in cycles of 400, 100, 4 and 1 years.\<close>

definition year_and_day :: "int \<Rightarrow> int \<times> int" where
  "year_and_day days =
     (let n400 = days div 146097; r = days mod 146097; n100 = min 3 (r div 36524); r = r - n100 * 36524;
          n4 = r div 1461; r = r mod 1461; n1 = min 3 (r div 365) in
      (400 * n400 + 100 * n100 + 4 * n4 + n1 + 1, r - n1 * 365))"

fun month_and_day :: "int list \<Rightarrow> int \<Rightarrow> int \<Rightarrow> int \<times> int" where
  "month_and_day [] m d = (m, d + 1)"
| "month_and_day (l # ls) m d = (if d < l then (m, d + 1) else month_and_day ls (m + 1) (d - l))"

definition month_lengths :: "int \<Rightarrow> int list" where
  "month_lengths y = [31, if leap_year y then 29 else 28, 31, 30, 31, 30, 31, 31, 30, 31, 30, 31]"

definition utc_text :: "int \<Rightarrow> string" where
  "utc_text us =
     (let (y, day) = year_and_day (us div 86400000000); (m, d) = month_and_day (month_lengths y) 1 day;
          seconds = (us mod 86400000000) div 1000000; micro = us mod 1000000 in
      pad_text 4 y @ ''-'' @ pad_text 2 m @ ''-'' @ pad_text 2 d @ ''T'' @ pad_text 2 (seconds div 3600) @ '':''
        @ pad_text 2 (seconds mod 3600 div 60) @ '':'' @ pad_text 2 (seconds mod 60)
        @ (if micro = 0 then [] else ''.'' @ pad_text 6 micro) @ ''Z'')"

section \<open>Reading it back\<close>

text \<open>The instants a \<open>datetime\<close> can hold: years 1 to 9999.\<close>

definition in_calendar :: "int \<Rightarrow> bool" where
  "in_calendar us \<longleftrightarrow> 0 \<le> us \<and> us < 3652059 * 86400000000"

definition days_before_year :: "int \<Rightarrow> int" where
  "days_before_year y = (let n = y - 1 in 365 * n + n div 4 - n div 100 + n div 400)"

definition field_value :: "nat \<Rightarrow> nat \<Rightarrow> string \<Rightarrow> int" where
  "field_value start width t = int (text_value (take width (drop start t)))"

definition utc_value :: "string \<Rightarrow> int" where
  "utc_value t =
     (let y = field_value 0 4 t; m = field_value 5 2 t; d = field_value 8 2 t;
          days = days_before_year y + sum_list (take (nat (m - 1)) (month_lengths y)) + d - 1;
          seconds = field_value 11 2 t * 3600 + field_value 14 2 t * 60 + field_value 17 2 t in
      (days * 86400 + seconds) * 1000000 + (if length t = 20 then 0 else field_value 20 6 t))"

lemma text_value_padded: "text_value (replicate k CHR ''0'' @ t) = text_value t"
  by (induction k) (simp_all add: text_value_def nat_of_digits_def digit_value_def)

lemma pad_text_facts:
  assumes "0 \<le> n" and "n < 10 ^ w" and "0 < w"
  shows "length (pad_text w n) = w" and "int (text_value (pad_text w n)) = n"
proof -
  have "length (digits_text (digits_of (nat n))) \<le> w"
    using assms by (simp add: digits_text_def length_digits_of nat_less_iff)
  then show "length (pad_text w n) = w" by (simp add: pad_text_def Let_def)
  show "int (text_value (pad_text w n)) = n"
    using assms(1) by (simp add: pad_text_def Let_def text_value_padded text_value_digits small_digits_of)
qed

lemma year_and_day_facts:
  assumes "0 \<le> days" and "year_and_day days = (y, day)"
  shows "days = days_before_year y + day" and "0 \<le> day" and "day < (if leap_year y then 366 else 365)" and "1 \<le> y"
    and "days < 3652059 \<Longrightarrow> y \<le> 9999"
proof -
  define n400 where "n400 = days div 146097"
  define r1 where "r1 = days mod 146097"
  define n100 where "n100 = min 3 (r1 div 36524)"
  define r2 where "r2 = r1 - n100 * 36524"
  define n4 where "n4 = r2 div 1461"
  define r3 where "r3 = r2 mod 1461"
  define n1 where "n1 = min 3 (r3 div 365)"
  have y: "y = 400 * n400 + 100 * n100 + 4 * n4 + n1 + 1" "day = r3 - n1 * 365"
    using assms(2) by (simp_all add: year_and_day_def Let_def n400_def r1_def n100_def r2_def n4_def r3_def n1_def)
  have d: "days = 146097 * n400 + r1" "0 \<le> r1" "r1 < 146097" "0 \<le> n400"
    using assms(1) by (simp_all add: n400_def r1_def pos_imp_zdiv_nonneg_iff)
  have r1: "0 \<le> n100" "n100 \<le> 3" "r1 = n100 * 36524 + r2" "0 \<le> r2" "r2 \<le> 36524" "n100 < 3 \<Longrightarrow> r2 < 36524"
    using d(2,3) by (auto simp: n100_def r2_def min_def)
  have r2: "0 \<le> n4" "n4 \<le> 24" "r2 = 1461 * n4 + r3" "0 \<le> r3" "r3 < 1461"
    using r1 by (auto simp: n4_def r3_def)
  have r3_last: "n4 = 24 \<Longrightarrow> n100 < 3 \<Longrightarrow> r3 < 1460" using r1(6) r2(3) by linarith
  have r3: "0 \<le> n1" "n1 \<le> 3" "0 \<le> day" "day \<le> 365" "n1 < 3 \<Longrightarrow> day < 365" "r3 = 365 * n1 + day"
    using r2 by (auto simp: n1_def y(2) min_def)
  define m where "m = y - 1"
  have m: "m = 400 * n400 + (100 * n100 + (4 * n4 + n1))" by (simp add: m_def y)
  have divs: "m div 400 = n400" "m div 100 = 4 * n400 + n100" "m div 4 = 100 * n400 + 25 * n100 + n4"
    using r1(1,2) r2(1,2) r3(1,2) by (simp_all add: m)
  show "days = days_before_year y + day"
    using d(1) r1(3) r2(3) r3(6) by (simp add: days_before_year_def m_def [symmetric] divs Let_def) (simp add: m)
  show "0 \<le> day" "1 \<le> y" using r3(3) d(4) r1(1) r2(1) r3(1) y(1) by simp_all
  show "day < (if leap_year y then 366 else 365)"
  proof (cases "n1 = 3 \<and> day = 365")
    case True
    then have "r3 = 1460" using r3(6) by simp
    then have cases: "n4 \<noteq> 24 \<or> n100 = 3" using r3_last r1(2) by linarith
    have "y = 4 * (100 * n400 + 25 * n100 + n4 + 1)" using y(1) True by simp
    moreover have "y mod 100 \<noteq> 0 \<or> y mod 400 = 0"
    proof (cases "n4 = 24")
      case True
      with cases y(1) \<open>n1 = 3 \<and> day = 365\<close> show ?thesis by simp
    next
      case False
      have "y = (4 * n4 + 4) + 100 * (4 * n400 + n100)" using y(1) \<open>n1 = 3 \<and> day = 365\<close> by simp
      then have "y mod 100 = (4 * n4 + 4) mod 100" by (simp only: mod_mult_self2)
      also have "\<dots> = 4 * n4 + 4" using r2(1,2) False by (intro mod_pos_pos_trivial) auto
      finally have "y mod 100 = 4 * n4 + 4" .
      with r2(1) show ?thesis by simp
    qed
    ultimately have "leap_year y" unfolding leap_year_def by simp
    with True show ?thesis by simp
  next
    case False
    with r3 show ?thesis by auto
  qed
  show "y \<le> 9999" if "days < 3652059"
  proof -
    have "n400 \<le> 24" using that d by linarith
    then consider "n400 \<le> 23" | "n400 = 24" "n100 \<le> 2" | "n400 = 24" "n100 = 3" "n4 \<le> 23"
      | "n400 = 24" "n100 = 3" "n4 = 24" using r1(2) r2(2) by linarith
    then show ?thesis
    proof cases
      case 4
      with that d r1(3) r2(3) r3(3,6) have "n1 \<le> 2" by linarith
      with 4 y(1) show ?thesis by linarith
    qed (use y(1) r1(2) r2(2) r3(2) in linarith)+
  qed
qed

lemma month_and_day_facts:
  assumes "month_and_day ls m d = (m', d')" and "0 \<le> d" and "d < sum_list ls"
  shows "m \<le> m' \<and> m' < m + int (length ls) \<and> d = sum_list (take (nat (m' - m)) ls) + d' - 1
    \<and> 1 \<le> d' \<and> d' \<le> Max (insert 1 (set ls))"
  using assms
proof (induction ls arbitrary: m d)
  case (Cons l ls)
  show ?case
  proof (cases "d < l")
    case True
    have "l \<le> Max (insert 1 (set (l # ls)))" by (rule Max_ge) auto
    with True have "d + 1 \<le> Max (insert 1 (set (l # ls)))" by simp
    with True Cons.prems show ?thesis by (auto simp del: Max_insert)
  next
    case False
    with Cons.prems have eq: "month_and_day ls (m + 1) (d - l) = (m', d')" "0 \<le> d - l" "d - l < sum_list ls" by auto
    from Cons.IH [OF this] have ih: "m + 1 \<le> m'" "m' < m + 1 + int (length ls)"
      "d - l = sum_list (take (nat (m' - (m + 1))) ls) + d' - 1" "1 \<le> d'" "d' \<le> Max (insert 1 (set ls))" by auto
    have "nat (m' - m) = Suc (nat (m' - (m + 1)))" using ih(1) by simp
    moreover have "d' \<le> Max (insert 1 (set (l # ls)))"
      by (rule order_trans [OF ih(5) Max_mono]) auto
    ultimately show ?thesis using ih(1-4) by (simp del: Max_insert)
  qed
qed simp

lemma month_facts:
  assumes "month_and_day (month_lengths y) 1 day = (m, d)" and "0 \<le> day" and "day < (if leap_year y then 366 else 365)"
  shows "1 \<le> m \<and> m \<le> 12 \<and> 1 \<le> d \<and> d \<le> 31 \<and> day = sum_list (take (nat (m - 1)) (month_lengths y)) + d - 1"
proof -
  have "day < sum_list (month_lengths y)" using assms(3) by (cases "leap_year y") (simp_all add: month_lengths_def)
  from month_and_day_facts [OF assms(1,2) this] show ?thesis by (auto simp: month_lengths_def split: if_splits)
qed

lemma layout_fields:
  fixes year month day hour minute second rest :: string
  assumes "length year = 4" and "length month = 2" and "length day = 2" and "length hour = 2" and "length minute = 2"
    and "length second = 2"
  defines "t \<equiv> year @ ''-'' @ month @ ''-'' @ day @ ''T'' @ hour @ '':'' @ minute @ '':'' @ second @ rest"
  shows "field_value 0 4 t = int (text_value year)" and "field_value 5 2 t = int (text_value month)"
    and "field_value 8 2 t = int (text_value day)" and "field_value 11 2 t = int (text_value hour)"
    and "field_value 14 2 t = int (text_value minute)" and "field_value 17 2 t = int (text_value second)"
    and "length t = 19 + length rest" and "rest = CHR ''.'' # micro @ z \<Longrightarrow> length micro = 6 \<Longrightarrow> field_value 20 6 t = int (text_value micro)"
  unfolding t_def field_value_def using assms(1-6) by simp_all

text \<open>The text of an instant in the calendar reads back as the instant.\<close>

theorem utc_text_round_trip:
  assumes "in_calendar us"
  shows "utc_value (utc_text us) = us"
proof -
  define days where "days = us div 86400000000"
  obtain y day where yd: "year_and_day days = (y, day)" by force
  obtain m d where md: "month_and_day (month_lengths y) 1 day = (m, d)" by force
  define s where "s = (us mod 86400000000) div 1000000"
  define mic where "mic = us mod 1000000"
  have dd: "0 \<le> days" "days < 3652059" using assms by (auto simp: in_calendar_def days_def pos_imp_zdiv_nonneg_iff)
  note yf = year_and_day_facts [OF dd(1) yd]
  note mf = month_facts [OF md yf(2,3)]
  have s: "0 \<le> s" "s < 86400" by (simp_all add: s_def)
  have us: "us = (days * 86400 + s) * 1000000 + mic" 
  proof -
    have "us = 86400000000 * days + us mod 86400000000" by (simp add: days_def)
    moreover have "us mod 86400000000 = 1000000 * s + us mod 86400000000 mod 1000000" by (simp add: s_def)
    moreover have "us mod 86400000000 mod 1000000 = mic" by (simp add: mic_def mod_mod_cancel)
    ultimately show ?thesis by simp
  qed
  have fields: "length (pad_text 4 y) = 4" "int (text_value (pad_text 4 y)) = y"
    "length (pad_text 2 m) = 2" "int (text_value (pad_text 2 m)) = m" "length (pad_text 2 d) = 2" "int (text_value (pad_text 2 d)) = d"
    "length (pad_text 2 (s div 3600)) = 2" "int (text_value (pad_text 2 (s div 3600))) = s div 3600"
    "length (pad_text 2 (s mod 3600 div 60)) = 2" "int (text_value (pad_text 2 (s mod 3600 div 60))) = s mod 3600 div 60"
    "length (pad_text 2 (s mod 60)) = 2" "int (text_value (pad_text 2 (s mod 60))) = s mod 60"
    "length (pad_text 6 mic) = 6" "int (text_value (pad_text 6 mic)) = mic"
    using yf(4) yf(5) [OF dd(2)] mf s by (simp_all add: pad_text_facts mic_def)
  have ut: "utc_text us = pad_text 4 y @ ''-'' @ pad_text 2 m @ ''-'' @ pad_text 2 d @ ''T'' @ pad_text 2 (s div 3600) @ '':''
        @ pad_text 2 (s mod 3600 div 60) @ '':'' @ pad_text 2 (s mod 60) @ (if mic = 0 then [] else ''.'' @ pad_text 6 mic) @ ''Z''"
    by (simp add: utc_text_def days_def [symmetric] yd md s_def mic_def Let_def)
  note layout = layout_fields [OF fields(1,3,5,7,9,11)]
  have "s mod 60 = s mod 3600 mod 60" by (simp add: mod_mod_cancel)
  then have "s mod 3600 div 60 * 60 + s mod 60 = s mod 3600" by simp
  then have clock: "s div 3600 * 3600 + s mod 3600 div 60 * 60 + s mod 60 = s" by (simp add: add.assoc)
  have date: "days_before_year y + sum_list (take (nat (m - 1)) (month_lengths y)) + d - 1 = days" using yf(1) mf by simp
  have read: "field_value 0 4 (utc_text us) = y" "field_value 5 2 (utc_text us) = m" "field_value 8 2 (utc_text us) = d"
    "field_value 11 2 (utc_text us) = s div 3600" "field_value 14 2 (utc_text us) = s mod 3600 div 60"
    "field_value 17 2 (utc_text us) = s mod 60" "length (utc_text us) = 20 \<longleftrightarrow> mic = 0"
    unfolding ut by (simp_all only: layout fields, simp_all add: fields(13))
  have micro: "field_value 20 6 (utc_text us) = mic" if "mic \<noteq> 0"
    unfolding ut using that layout(8) [of _ "pad_text 6 mic" "''Z''"] fields(13,14) by simp
  have "utc_value (utc_text us) = (days * 86400 + s) * 1000000 + (if mic = 0 then 0 else field_value 20 6 (utc_text us))"
    unfolding utc_value_def Let_def by (simp only: read date clock)
  also have "\<dots> = (days * 86400 + s) * 1000000 + mic" using micro by (cases "mic = 0") (simp_all only: if_True if_False simp_thms)
  finally have "utc_value (utc_text us) = (days * 86400 + s) * 1000000 + mic" .
  with us show ?thesis by simp
qed

lemma utc_text_inj: "in_calendar a \<Longrightarrow> in_calendar b \<Longrightarrow> utc_text a = utc_text b \<longleftrightarrow> a = b"
  using utc_text_round_trip [of a] utc_text_round_trip [of b] by metis

end
