(* ===== verification/Risk_Evaluation.thy ===== *)
theory Risk_Evaluation
  imports Risk_Inputs Utc_Text
begin

text \<open>
  \<open>evaluate_risk\<close> of \<open>mvp/autotrade_mvp/risk.py\<close>: projected exposure, the measures the policy bounds, the protective
  reduction exception and the list of rules whose conjunction admits an intent.  A set of symbols is a list
  without repetitions; the artifact store is a function from artifact ids to a manifest and its bytes, absent where
  the authenticated read raises.
\<close>

section \<open>Liquidation evidence\<close>

definition liquidation_evidence_payload :: "headroom_evidence \<Rightarrow> (string \<times> json) list result" where
  "liquidation_evidence_payload e = rbind (risk_text (he_headroom e)) (\<lambda>headroom.
     Inr [(''artifact_kind'', JStr ''LIQUIDATION_HEADROOM_EVIDENCE''), (''schema_version'', JInt 1),
       (''provider_id'', JStr (ls_provider_id (he_scope e))), (''account_id'', JStr (ls_account_id (he_scope e))),
       (''environment'', JStr (ls_environment (he_scope e))), (''margin_mode'', JStr (ls_margin_mode (he_scope e))),
       (''risk_tier_version'', JStr (ls_risk_tier_version (he_scope e))), (''state_version'', JInt (he_state_version e)),
       (''observed_at'', JStr (utc_text (he_observed_at e))), (''expires_at'', JStr (utc_text (he_expires_at e))),
       (''headroom'', JStr headroom)])"

text \<open>Truth and equality of manifest values, as Python has them: \<open>True\<close> equals 1.\<close>

fun json_true :: "json \<Rightarrow> bool" where
  "json_true JNull = False" | "json_true (JBool b) = b" | "json_true (JInt n) = (n \<noteq> 0)"
| "json_true (JStr s) = (s \<noteq> [])" | "json_true (JList vs) = (vs \<noteq> [])" | "json_true (JObj kvs) = (kvs \<noteq> [])"

definition scalar_equal :: "json \<Rightarrow> json \<Rightarrow> bool" where
  "scalar_equal v w = (case (v, w) of (JBool b, JInt n) \<Rightarrow> n = (if b then 1 else 0)
     | (JInt n, JBool b) \<Rightarrow> n = (if b then 1 else 0) | _ \<Rightarrow> v = w)"

type_synonym evidence_store = "string \<Rightarrow> ((string \<times> json) list \<times> string) option"

definition manifest_text :: "(string \<times> json) list \<Rightarrow> string \<Rightarrow> string \<Rightarrow> bool" where
  "manifest_text manifest key v \<longleftrightarrow> dict_get manifest key = Some (JStr v)"

definition artifact_matches :: "(string \<Rightarrow> string) \<Rightarrow> headroom_evidence \<Rightarrow> (string \<times> json) list \<Rightarrow> string \<Rightarrow> bool result" where
  "artifact_matches sha256 e manifest raw =
     (if \<not> manifest_text manifest ''artifact_id'' (he_artifact_id e) \<or> \<not> manifest_text manifest ''sha256'' (he_sha256 e)
         \<or> ''sha256:'' @ sha256 raw \<noteq> he_sha256 e
         \<or> \<not> (case dict_get manifest ''manifest_hash'' of None \<Rightarrow> False | Some h \<Rightarrow> json_true h) then Inr False
      else rbind (liquidation_evidence_payload e) (\<lambda>payload.
        if raw \<noteq> json_text (JObj payload) then Inr False
        else Inr (case dict_get manifest ''metadata'' of Some (JObj metadata) \<Rightarrow> dict_same scalar_equal metadata payload
          | _ \<Rightarrow> False)))"

definition verify_liquidation_headroom_evidence :: "(string \<Rightarrow> string) \<Rightarrow> headroom_evidence option
    \<Rightarrow> liquidation_scope option \<Rightarrow> int \<Rightarrow> int option \<Rightarrow> evidence_store option \<Rightarrow> bool result" where
  "verify_liquidation_headroom_evidence sha256 evidence expected_scope expected_version decision_time store =
     (case (evidence, expected_scope, decision_time, store) of
        (Some e, Some scope, Some point, Some read) \<Rightarrow>
          if he_scope e \<noteq> scope \<or> he_state_version e \<noteq> expected_version then Inr False
          else if \<not> (he_observed_at e \<le> point \<and> point < he_expires_at e) then Inr False
          else (case read (he_artifact_id e) of None \<Rightarrow> Inr False
            | Some (manifest, raw) \<Rightarrow> artifact_matches sha256 e manifest raw)
      | _ \<Rightarrow> Inr False)"

section \<open>Positions and exposure\<close>

type_synonym intent = "decimal risk_intent"
type_synonym policy = "decimal risk_policy"
type_synonym sealed_context = "(decimal, int) risk_context"

definition dget :: "(string, decimal) dict \<Rightarrow> string \<Rightarrow> decimal" where
  "dget d k = (case dict_get d k of None \<Rightarrow> dzero | Some v \<Rightarrow> v)"

definition derivative_types :: "string set" where
  "derivative_types = {''FUTURE'', ''PERPETUAL'', ''OPTION''}"

definition directional_types :: "string set" where
  "directional_types = {''FUTURE'', ''PERPETUAL''}"

definition signed_quantity :: "intent \<Rightarrow> decimal result" where
  "signed_quantity i = (if in_side i = ''BUY'' then Inr (in_quantity i) else rk_negate (in_quantity i))"

definition nonpositive_equivalent :: "sealed_context \<Rightarrow> string \<Rightarrow> string \<Rightarrow> bool" where
  "nonpositive_equivalent c s t \<longleftrightarrow> t \<in> directional_types
     \<and> (case dict_get (cx_equivalents c) s of None \<Rightarrow> False | Some e \<Rightarrow> dval e \<le> 0)"

definition check_instruments :: "intent \<Rightarrow> sealed_context \<Rightarrow> unit result" where
  "check_instruments i c =
     rbind (require (case dict_get (cx_types c) (in_symbol i) of None \<Rightarrow> True | Some t \<Rightarrow> t = in_type i) ValueError) (\<lambda>_.
     rbind (require (list_all (\<lambda>(s, t). \<not> nonpositive_equivalent c s t) (cx_types c)) ValueError) (\<lambda>_.
       require (\<not> nonpositive_equivalent c (in_symbol i) (in_type i)) ValueError))"

definition exposed :: "sealed_context \<Rightarrow> string \<Rightarrow> bool" where
  "exposed c s \<longleftrightarrow> dval (dget (cx_positions c) s) \<noteq> 0 \<or> dval (dget (cx_reserved c) s) \<noteq> 0"

definition exposed_symbols :: "sealed_context \<Rightarrow> string list" where
  "exposed_symbols c = filter (exposed c) (remdups (dict_keys (cx_positions c) @ dict_keys (cx_reserved c)))"

definition missing_type_symbols :: "sealed_context \<Rightarrow> string list" where
  "missing_type_symbols c = sort (filter (\<lambda>s. dict_get (cx_types c) s = None) (exposed_symbols c))"

definition authoritative_type :: "intent \<Rightarrow> sealed_context \<Rightarrow> string \<Rightarrow> string option" where
  "authoritative_type i c s =
     (if s = in_symbol i \<and> \<not> exposed c s then Some (in_type i) else dict_get (cx_types c) s)"

definition is_derivative :: "intent \<Rightarrow> sealed_context \<Rightarrow> string \<Rightarrow> bool" where
  "is_derivative i c s = (case authoritative_type i c s of None \<Rightarrow> False | Some t \<Rightarrow> t \<in> derivative_types)"

definition missing_equivalent_symbols :: "intent \<Rightarrow> sealed_context \<Rightarrow> string list" where
  "missing_equivalent_symbols i c =
     (let required = filter (is_derivative i c) (exposed_symbols c);
          required = (if in_type i \<in> derivative_types then List.insert (in_symbol i) required else required) in
      sort (filter (\<lambda>s. dict_get (cx_equivalents c) s = None) required))"

definition add_delta :: "(string, decimal) dict \<Rightarrow> string \<times> decimal \<Rightarrow> (string, decimal) dict result" where
  "add_delta d item = (case item of (s, delta) \<Rightarrow> rbind (rk_add (dget d s) delta) (\<lambda>v. Inr (dict_set d s v)))"

definition exposure_per_unit :: "intent \<Rightarrow> sealed_context \<Rightarrow> string \<Rightarrow> decimal result" where
  "exposure_per_unit i c s = rbind (dict_lookup (cx_marks c) s) (\<lambda>mark.
     Inr (if is_derivative i c s then (case dict_get (cx_equivalents c) s of None \<Rightarrow> mark | Some e \<Rightarrow> e) else mark))"

definition position_notionals :: "intent \<Rightarrow> sealed_context \<Rightarrow> (string, decimal) dict \<Rightarrow> (string, decimal) dict result" where
  "position_notionals i c positions =
     rmap (\<lambda>(s, qty). rbind (exposure_per_unit i c s) (\<lambda>unit. rbind (rk_product [qty, unit]) (\<lambda>n. Inr (s, n))))
       (filter (\<lambda>(s, qty). dval qty \<noteq> 0) positions)"

text \<open>\<open>_risk_sum\<close> over a generator: the terms are computed as the sum goes along.\<close>

definition rk_sum_of :: "('a \<Rightarrow> decimal result) \<Rightarrow> 'a list \<Rightarrow> decimal result" where
  "rk_sum_of f xs =
     rbind (rfold (\<lambda>acc x. rbind (f x) (\<lambda>v. rk (rbind (as_fraction v) (\<lambda>q.
         rbind (validate_fraction_intermediate (acc + q)) (\<lambda>_. Inr (acc + q)))))) 0 xs)
       (\<lambda>total. rk (terminating_decimal total))"

definition gross_notional :: "(string, decimal) dict \<Rightarrow> decimal result" where
  "gross_notional notionals = rk_sum_of rk_abs (dict_values notionals)"

definition net_notional :: "(string, decimal) dict \<Rightarrow> decimal result" where
  "net_notional notionals = rbind (rk_sum (dict_values notionals)) rk_abs"

record exposure =
  ex_signed :: decimal
  ex_current :: decimal
  ex_base :: decimal
  ex_resulting :: decimal
  ex_positions :: "(string, decimal) dict"
  ex_base_notionals :: "(string, decimal) dict"
  ex_notionals :: "(string, decimal) dict"
  ex_base_gross :: decimal
  ex_base_net :: decimal
  ex_gross :: decimal
  ex_net :: decimal
  ex_gross_ratio :: rat
  ex_net_ratio :: rat
  ex_gross_leverage :: decimal
  ex_net_leverage :: decimal
  ex_single :: decimal

definition single_notional :: "intent \<Rightarrow> sealed_context \<Rightarrow> decimal \<Rightarrow> decimal result" where
  "single_notional i c resulting =
     rbind (exposure_per_unit i c (in_symbol i)) (\<lambda>unit.
     rbind (rbind (rk_product [resulting, unit]) rk_abs) (\<lambda>mark_notional.
     rbind (rk_product [in_quantity i, in_price i]) (\<lambda>priced.
     rbind (rbind (rk_product [in_quantity i, unit]) rk_abs) (\<lambda>marked.
       Inr (dmax mark_notional (dmax priced marked))))))"

definition measure_exposure :: "intent \<Rightarrow> sealed_context \<Rightarrow> exposure result" where
  "measure_exposure i c =
     rbind (require (dict_get (cx_marks c) (in_symbol i) \<noteq> None) ValueError) (\<lambda>_.
     rbind (signed_quantity i) (\<lambda>signed.
     rbind (check_instruments i c) (\<lambda>_.
     let current = dget (cx_positions c) (in_symbol i) in
     rbind (rk_add current (dget (cx_reserved c) (in_symbol i))) (\<lambda>base.
     rbind (rk_add base signed) (\<lambda>resulting.
     rbind (rfold add_delta (cx_positions c) (cx_reserved c)) (\<lambda>base_positions.
     rbind (add_delta base_positions (in_symbol i, signed)) (\<lambda>positions.
     rbind (require (list_all (\<lambda>(s, qty). dval qty \<noteq> 0 \<longrightarrow> dict_get (cx_marks c) s \<noteq> None) positions) ValueError) (\<lambda>_.
     rbind (position_notionals i c base_positions) (\<lambda>base_notionals.
     rbind (position_notionals i c positions) (\<lambda>notionals.
     rbind (gross_notional base_notionals) (\<lambda>base_gross.
     rbind (net_notional base_notionals) (\<lambda>base_net.
     rbind (gross_notional notionals) (\<lambda>gross.
     rbind (net_notional notionals) (\<lambda>net.
     rbind (exact_risk_ratio gross (cx_equity c)) (\<lambda>gross_ratio.
     rbind (exact_risk_ratio net (cx_equity c)) (\<lambda>net_ratio.
     rbind (ratio_report gross_ratio) (\<lambda>gross_leverage.
     rbind (ratio_report net_ratio) (\<lambda>net_leverage.
     rbind (single_notional i c resulting) (\<lambda>single.
       Inr \<lparr>ex_signed = signed, ex_current = current, ex_base = base, ex_resulting = resulting, ex_positions = positions,
         ex_base_notionals = base_notionals, ex_notionals = notionals, ex_base_gross = base_gross,
         ex_base_net = base_net, ex_gross = gross, ex_net = net, ex_gross_ratio = gross_ratio,
         ex_net_ratio = net_ratio, ex_gross_leverage = gross_leverage, ex_net_leverage = net_leverage,
         ex_single = single\<rparr>)))))))))))))))))))"

section \<open>Concentration, participation, factors\<close>

text \<open>The symbols without a group, and the exposure of each group.\<close>

definition group_step :: "(string, string) dict \<Rightarrow> string list \<times> (string, decimal) dict \<Rightarrow> string \<times> decimal
    \<Rightarrow> (string list \<times> (string, decimal) dict) result" where
  "group_step labels acc item = (case acc of (missing, groups) \<Rightarrow> case item of (s, notional) \<Rightarrow>
     case dict_get labels s of None \<Rightarrow> Inr (missing @ [s], groups)
     | Some g \<Rightarrow> rbind (rk_abs notional) (\<lambda>a. rbind (rk_add (dget groups g) a) (\<lambda>v. Inr (missing, dict_set groups g v))))"

record concentration =
  cn_missing :: "string list"
  cn_ratio :: rat
  cn_report :: decimal

definition measure_concentration :: "decimal option \<Rightarrow> decimal \<Rightarrow> (string, string) dict \<Rightarrow> (string, decimal) dict
    \<Rightarrow> concentration result" where
  "measure_concentration limit gross labels notionals =
     (if limit = None \<or> \<not> 0 < dval gross then Inr \<lparr>cn_missing = [], cn_ratio = 0, cn_report = dzero\<rparr>
      else rbind (rfold (group_step labels) ([], []) notionals) (\<lambda>(missing, groups).
        if missing = [] \<and> groups \<noteq> []
        then rbind (exact_risk_ratio (dmax_list (dict_values groups)) gross) (\<lambda>ratio.
          rbind (ratio_report ratio) (\<lambda>report. Inr \<lparr>cn_missing = [], cn_ratio = ratio, cn_report = report\<rparr>))
        else Inr \<lparr>cn_missing = missing, cn_ratio = 0, cn_report = dzero\<rparr>))"

text \<open>The evidenced participation, if the policy bounds it and the capacity is known.\<close>

definition measure_participation :: "intent \<Rightarrow> sealed_context \<Rightarrow> policy \<Rightarrow> (rat \<times> decimal) option result" where
  "measure_participation i c p = (case pl_max_participation p of None \<Rightarrow> Inr (Some (0, dzero))
     | Some _ \<Rightarrow> (case dict_get (cx_liquidity c) (in_symbol i) of None \<Rightarrow> Inr None
       | Some capacity \<Rightarrow> if dval capacity \<le> 0 then Inr None
           else rbind (exact_risk_ratio (in_quantity i) capacity) (\<lambda>ratio.
             rbind (ratio_report ratio) (\<lambda>report. Inr (Some (ratio, report))))))"

definition factor_add :: "decimal \<Rightarrow> (string, decimal) dict \<Rightarrow> string \<times> decimal \<Rightarrow> (string, decimal) dict result" where
  "factor_add notional factors item = (case item of (factor, loading) \<Rightarrow>
     rbind (rk_product [notional, loading]) (\<lambda>x. rbind (rk_add (dget factors factor) x) (\<lambda>v.
       Inr (dict_set factors factor v))))"

definition factor_step :: "(string, (string, decimal) dict) dict \<Rightarrow> string list \<times> (string, decimal) dict
    \<Rightarrow> string \<times> decimal \<Rightarrow> (string list \<times> (string, decimal) dict) result" where
  "factor_step loadings acc item = (case acc of (missing, factors) \<Rightarrow> case item of (s, notional) \<Rightarrow>
     case dict_get loadings s of None \<Rightarrow> Inr (missing @ [s], factors)
     | Some [] \<Rightarrow> Inr (missing @ [s], factors)
     | Some ls \<Rightarrow> rbind (rfold (factor_add notional) factors ls) (\<lambda>factors'. Inr (missing, factors')))"

definition greatest_abs :: "decimal list \<Rightarrow> decimal result" where
  "greatest_abs ds = rbind (rmap rk_abs ds) (\<lambda>as. Inr (dmax_list as))"

record factor_measure =
  fa_missing :: "string list"
  fa_exposure :: decimal
  fa_base :: decimal

definition measure_factors :: "sealed_context \<Rightarrow> policy \<Rightarrow> exposure \<Rightarrow> factor_measure result" where
  "measure_factors c p e = (case pl_max_factor p of None \<Rightarrow> Inr \<lparr>fa_missing = [], fa_exposure = dzero, fa_base = dzero\<rparr>
     | Some _ \<Rightarrow>
         rbind (rfold (factor_step (cx_loadings c)) ([], []) (ex_notionals e)) (\<lambda>(missing, factors).
         rbind (if missing = [] then greatest_abs (dict_values factors) else Inr dzero) (\<lambda>exposure.
         rbind (rfold (factor_step (cx_loadings c)) ([], []) (ex_base_notionals e)) (\<lambda>(_, base_factors).
         rbind (greatest_abs (dict_values base_factors)) (\<lambda>base.
           Inr \<lparr>fa_missing = missing, fa_exposure = exposure, fa_base = base\<rparr>)))))"

section \<open>Stress scenarios\<close>

text \<open>The symbols that some scenario does not shock.\<close>

definition uncovered :: "(string, decimal) dict list \<Rightarrow> string list \<Rightarrow> string list" where
  "uncovered scenarios symbols = filter (\<lambda>s. list_ex (\<lambda>scenario. dict_get scenario s = None) scenarios) symbols"

definition scenario_pnl :: "(string, decimal) dict \<Rightarrow> (string, decimal) dict \<Rightarrow> decimal result" where
  "scenario_pnl notionals scenario =
     rk_sum_of (\<lambda>(s, notional). rbind (dict_lookup scenario s) (\<lambda>shock. rk_product [notional, shock])) notionals"

definition scenario_loss :: "(string, decimal) dict \<Rightarrow> (string, decimal) dict \<Rightarrow> decimal result" where
  "scenario_loss notionals scenario = rbind (scenario_pnl notionals scenario) rk_negate"

definition stress_step :: "bool \<Rightarrow> exposure \<Rightarrow> decimal \<times> decimal \<Rightarrow> (string, decimal) dict \<Rightarrow> (decimal \<times> decimal) result" where
  "stress_step compare_base e acc scenario = (case acc of (base_worst, worst) \<Rightarrow>
     rbind (if compare_base then rbind (scenario_loss (ex_base_notionals e) scenario) (\<lambda>l. Inr (dmax base_worst l))
            else Inr base_worst) (\<lambda>base_worst'.
     rbind (scenario_loss (ex_notionals e) scenario) (\<lambda>l. Inr (base_worst', dmax worst l))))"

record stress_measure =
  sm_missing :: "string list"
  sm_complete :: bool
  sm_comparable :: bool
  sm_base_worst :: decimal
  sm_worst :: decimal

definition measure_stress :: "sealed_context \<Rightarrow> exposure \<Rightarrow> stress_measure result" where
  "measure_stress c e =
     (let scenarios = cx_stress c; symbols = dict_keys (ex_notionals e); base_symbols = dict_keys (ex_base_notionals e);
          missing = uncovered scenarios symbols;
          complete = ((scenarios \<noteq> [] \<or> symbols = []) \<and> missing = []);
          comparable = (symbols = [] \<or> base_symbols = [] \<or> scenarios \<noteq> [] \<and> uncovered scenarios base_symbols = [])
      in rbind (if complete then rfold (stress_step comparable e) (dzero, dzero) scenarios else Inr (dzero, dzero))
        (\<lambda>(base_worst, worst). Inr \<lparr>sm_missing = missing, sm_complete = complete, sm_comparable = comparable,
          sm_base_worst = base_worst, sm_worst = worst\<rparr>))"

record regime =
  rg_missing :: "string list"
  rg_mismatched :: "string list"
  rg_complete :: bool

definition scenario_mismatch :: "(string \<Rightarrow> string) \<Rightarrow> sealed_context \<Rightarrow> policy \<Rightarrow> string \<Rightarrow> bool result" where
  "scenario_mismatch sha256 c p label =
     (case dict_get (rev (zip (cx_stress_labels c) (cx_stress c))) label of None \<Rightarrow> Inr False
      | Some scenario \<Rightarrow> rbind (stress_scenario_digest sha256 (raw_dict scenario)) (\<lambda>observed.
          rbind (dict_lookup (case pl_stress_digests p of None \<Rightarrow> [] | Some ds \<Rightarrow> ds) label) (\<lambda>required.
            Inr (observed \<noteq> required))))"

definition measure_regime :: "(string \<Rightarrow> string) \<Rightarrow> sealed_context \<Rightarrow> policy \<Rightarrow> exposure \<Rightarrow> regime result" where
  "measure_regime sha256 c p e = (case pl_stress_labels p of None \<Rightarrow> Inr \<lparr>rg_missing = [], rg_mismatched = [], rg_complete = True\<rparr>
     | Some labels \<Rightarrow>
         if ex_notionals e = [] then Inr \<lparr>rg_missing = [], rg_mismatched = [], rg_complete = True\<rparr>
         else let missing = filter (\<lambda>l. l \<notin> set (cx_stress_labels c)) labels in
           rbind (rmap (\<lambda>l. rbind (scenario_mismatch sha256 c p l) (\<lambda>b. Inr (l, b))) labels) (\<lambda>checked.
           let mismatched = map fst (filter snd checked) in
             Inr \<lparr>rg_missing = missing, rg_mismatched = mismatched,
               rg_complete = (missing = [] \<and> mismatched = [] \<and> length (cx_stress_labels c) = length (cx_stress c))\<rparr>))"

section \<open>Expected shortfall\<close>

record tail_measure =
  tm_matches :: bool
  tm_complete :: bool
  tm_comparable :: bool
  tm_missing :: "string list"
  tm_shortfall :: "(rat \<times> decimal) option"
  tm_base_shortfall :: "(rat \<times> decimal) option"

definition tail_count :: "decimal \<Rightarrow> (string, decimal) dict list \<Rightarrow> nat result" where
  "tail_count fraction scenarios =
     (if scenarios = [] then Inr 0
      else rbind (as_fraction fraction) (\<lambda>f. rbind (rk_fraction (of_nat (length scenarios) * f)) (\<lambda>q.
        rbind (nonnegative_fraction_ceiling q) (\<lambda>n. Inr (nat (max 1 n))))))"

text \<open>The mean of the greatest losses; \<open>sorted(losses, reverse=True)\<close> keeps equal losses in their order.\<close>

definition shortfall_of :: "(string, decimal) dict \<Rightarrow> (string, decimal) dict list \<Rightarrow> nat \<Rightarrow> (rat \<times> decimal) result" where
  "shortfall_of notionals scenarios count =
     rbind (rmap (\<lambda>scenario. rbind (scenario_loss notionals scenario) (\<lambda>l. Inr (dmax l dzero))) scenarios) (\<lambda>losses.
     let tail = take count (sort_key (\<lambda>l. - dval l) losses) in
     rbind (rk_sum tail) (\<lambda>total.
     rbind (exact_risk_ratio total (Decimal False (length tail) 0)) (\<lambda>ratio.
     rbind (ratio_report ratio) (\<lambda>report. Inr (ratio, report)))))"

definition measure_tail :: "(string \<Rightarrow> string) \<Rightarrow> sealed_context \<Rightarrow> policy \<Rightarrow> exposure \<Rightarrow> tail_measure result" where
  "measure_tail sha256 c p e = (case pl_max_shortfall p of
      None \<Rightarrow> Inr \<lparr>tm_matches = True, tm_complete = True, tm_comparable = True, tm_missing = [], tm_shortfall = None,
        tm_base_shortfall = None\<rparr>
    | Some _ \<Rightarrow>
        let scenarios = cx_tail c; symbols = dict_keys (ex_notionals e); base_symbols = dict_keys (ex_base_notionals e) in
        rbind (if symbols = [] then Inr True else if scenarios = [] then Inr False
               else rbind (tail_scenario_set_digest sha256 (map raw_dict scenarios)) (\<lambda>d. Inr (Some d = pl_tail_digest p)))
          (\<lambda>matches.
        let missing = uncovered scenarios symbols;
            complete = ((scenarios \<noteq> [] \<or> symbols = []) \<and> matches \<and> missing = []);
            comparable = (symbols = [] \<or> base_symbols = [] \<or> scenarios \<noteq> [] \<and> uncovered scenarios base_symbols = []) in
        rbind (case pl_tail_fraction p of None \<Rightarrow> Inl AssertionError | Some f \<Rightarrow> tail_count f scenarios) (\<lambda>count.
        rbind (if complete \<and> symbols \<noteq> [] then rbind (shortfall_of (ex_notionals e) scenarios count) (\<lambda>s. Inr (Some s))
               else if complete then Inr (Some (0, dzero)) else Inr None) (\<lambda>shortfall.
        rbind (if base_symbols = [] then Inr (Some (0, dzero))
               else if comparable \<and> scenarios \<noteq> []
               then rbind (shortfall_of (ex_base_notionals e) scenarios count) (\<lambda>s. Inr (Some s))
               else Inr None) (\<lambda>base_shortfall.
          Inr \<lparr>tm_matches = matches, tm_complete = complete, tm_comparable = comparable, tm_missing = missing,
            tm_shortfall = shortfall, tm_base_shortfall = base_shortfall\<rparr>)))))"

section \<open>Protective reduction\<close>

definition moves_toward_flat :: "decimal \<Rightarrow> decimal \<Rightarrow> bool result" where
  "moves_toward_flat start result = rbind (rk_abs result) (\<lambda>a. rbind (rk_abs start) (\<lambda>b.
     if dval a < dval b then rbind (rk_product [start, result]) (\<lambda>x. Inr (0 \<le> dval x)) else Inr False))"

record assessment =
  as_exposure :: exposure
  as_asset :: concentration
  as_venue :: concentration
  as_participation :: "(rat \<times> decimal) option"
  as_factors :: factor_measure
  as_regime :: regime
  as_stress :: stress_measure
  as_tail :: tail_measure
  as_after :: decimal
  as_reduces :: bool
  as_reduces_current :: bool
  as_protective :: bool

definition tail_nonworsening :: "policy \<Rightarrow> exposure \<Rightarrow> tail_measure \<Rightarrow> bool" where
  "tail_nonworsening p e t \<longleftrightarrow> pl_max_shortfall p = None \<or> ex_notionals e = [] \<or>
     (tm_complete t \<and> tm_comparable t \<and> (case (tm_shortfall t, tm_base_shortfall t) of
        (Some (s, _), Some (b, _)) \<Rightarrow> s \<le> b | _ \<Rightarrow> False))"

definition stress_nonworsening :: "exposure \<Rightarrow> stress_measure \<Rightarrow> bool" where
  "stress_nonworsening e s \<longleftrightarrow> ex_notionals e = [] \<or>
     (sm_complete s \<and> sm_comparable s \<and> dval (sm_worst s) \<le> dval (sm_base_worst s))"

definition assess :: "(string \<Rightarrow> string) \<Rightarrow> intent \<Rightarrow> sealed_context \<Rightarrow> policy \<Rightarrow> assessment result" where
  "assess sha256 i c p =
     rbind (measure_exposure i c) (\<lambda>e.
     rbind (measure_concentration (pl_max_asset_concentration p) (ex_gross e) (cx_buckets c) (ex_notionals e)) (\<lambda>asset.
     rbind (measure_concentration (pl_max_venue_concentration p) (ex_gross e) (cx_venues c) (ex_notionals e)) (\<lambda>venue.
     rbind (measure_participation i c p) (\<lambda>participation.
     rbind (measure_factors c p e) (\<lambda>factors.
     rbind (measure_regime sha256 c p e) (\<lambda>regime.
     rbind (measure_stress c e) (\<lambda>stress.
     rbind (measure_tail sha256 c p e) (\<lambda>tail.
     rbind (moves_toward_flat (ex_base e) (ex_resulting e)) (\<lambda>reduces.
     rbind (rk_add (ex_current e) (ex_signed e)) (\<lambda>moved.
     rbind (moves_toward_flat (ex_current e) moved) (\<lambda>reduces_current.
       Inr \<lparr>as_exposure = e, as_asset = asset, as_venue = venue, as_participation = participation, as_factors = factors,
         as_regime = regime, as_stress = stress, as_tail = tail, as_after = moved, as_reduces = reduces,
         as_reduces_current = reduces_current,
         as_protective = (in_reduce_only i \<and> reduces \<and> reduces_current
           \<and> dval (ex_gross e) < dval (ex_base_gross e) \<and> dval (ex_net e) \<le> dval (ex_base_net e)
           \<and> stress_nonworsening e stress \<and> tail_nonworsening p e tail)\<rparr>)))))))))))"

section \<open>The rules\<close>

record risk_rule =
  rr_rule :: string
  rr_passed :: bool
  rr_observed :: string
  rr_limit :: string
  rr_reason :: string

text \<open>What \<open>add\<close> is given to show: a Decimal, shown canonically, or something shown by \<open>str\<close>.\<close>

datatype cell = Amount decimal | Shown string

definition cell_text :: "cell \<Rightarrow> string result" where
  "cell_text v = (case v of Amount d \<Rightarrow> risk_text d | Shown t \<Rightarrow> Inr t)"

definition bool_text :: "bool \<Rightarrow> string" where
  "bool_text b = (if b then ''True'' else ''False'')"

definition opt_amount :: "decimal option \<Rightarrow> cell" where
  "opt_amount v = (case v of None \<Rightarrow> Shown ''UNKNOWN'' | Some d \<Rightarrow> Amount d)"

definition opt_flag :: "bool option \<Rightarrow> cell" where
  "opt_flag v = (case v of None \<Rightarrow> Shown ''UNKNOWN'' | Some b \<Rightarrow> Shown (bool_text b))"

definition join_text :: "string list \<Rightarrow> string" where
  "join_text ts = comma_list ts"

definition add_rule :: "string \<Rightarrow> bool result \<Rightarrow> cell \<Rightarrow> cell \<Rightarrow> string \<Rightarrow> risk_rule result" where
  "add_rule rule passed observed limit reason =
     rbind passed (\<lambda>ok. rbind (cell_text observed) (\<lambda>o_text. rbind (cell_text limit) (\<lambda>l_text.
       Inr \<lparr>rr_rule = rule, rr_passed = ok, rr_observed = o_text, rr_limit = l_text, rr_reason = reason\<rparr>)))"

text \<open>\<open>str\<close> of a Decimal.\<close>

fun decimal_str :: "decimal \<Rightarrow> string" where
  "decimal_str (Decimal s c e) =
     (let ds = digits_text (digits_of c); len = int (length ds); left = e + len;
          dot = (if e \<le> 0 \<and> left > - 6 then left else 1) in
      (if s then ''-'' else [])
      @ (if dot \<le> 0 then ''0.'' @ replicate (nat (- dot)) CHR ''0'' @ ds
         else if len \<le> dot then ds @ replicate (nat (dot - len)) CHR ''0''
         else take (nat dot) ds @ ''.'' @ drop (nat dot) ds)
      @ (if left = dot then [] else ''E'' @ (if left - dot < 0 then [] else ''+'') @ int_text (left - dot)))"
| "decimal_str NaN = ''NaN''"
| "decimal_str (Infinity s) = (if s then ''-Infinity'' else ''Infinity'')"

definition ratio_within :: "bool \<Rightarrow> rat \<Rightarrow> decimal \<Rightarrow> bool \<Rightarrow> bool result" where
  "ratio_within evidenced q limit excused =
     (if evidenced then rbind (fraction_le_decimal q limit) (\<lambda>b. Inr (b \<or> excused)) else Inr False)"

definition rule_if :: "'a option \<Rightarrow> ('a \<Rightarrow> risk_rule result) \<Rightarrow> risk_rule result list" where
  "rule_if v f = (case v of None \<Rightarrow> [] | Some x \<Rightarrow> [f x])"

definition missing_text :: "string list \<Rightarrow> decimal \<Rightarrow> cell" where
  "missing_text missing report = (if missing = [] then Amount report else Shown (''MISSING:'' @ join_text (sort missing)))"

definition instrument_rules :: "intent \<Rightarrow> sealed_context \<Rightarrow> policy \<Rightarrow> risk_rule result list" where
  "instrument_rules i c p =
     (let no_type = missing_type_symbols c; no_equivalent = missing_equivalent_symbols i c;
          evidenced = (no_type = [] \<and> no_equivalent = []) in
      [add_rule ''derivative_equivalent_exposure'' (Inr evidenced)
         (if evidenced \<and> in_type i \<in> derivative_types
          then opt_amount (dict_get (cx_equivalents c) (in_symbol i))
          else if no_type \<noteq> [] then Shown (''MISSING_TYPE:'' @ join_text no_type)
          else if no_equivalent \<noteq> [] then Shown (''MISSING:'' @ join_text no_equivalent) else Shown ''NOT_REQUIRED'')
         (Shown ''REQUIRED_FOR_DERIVATIVE'')
         (if evidenced then ''instrument family and derivative equivalent exposure are evidenced''
          else if no_type \<noteq> [] then ''nonzero portfolio exposure lacks canonical instrument family''
          else ''derivative leverage cannot use premium/mark as exposure proxy''),
       add_rule ''state_version'' (Inr (in_expected_version i = cx_state_version c))
         (Shown (int_text (cx_state_version c))) (Shown (int_text (in_expected_version i)))
         ''authoritative state version must match the intent'',
       add_rule ''capability'' (Inr (cx_capability c)) (Shown (bool_text (cx_capability c))) (Shown ''True'')
         ''account/instrument capability must be currently evidenced'']
      @ rule_if (pl_allowed_actions p) (\<lambda>actions. add_rule ''allowed_action'' (Inr (in_action i \<in> set actions))
          (Shown (in_action i)) (Shown (join_text actions))
          ''intent action class must be explicitly permitted by risk policy'')
      @ (if pl_require_settlement p then [add_rule ''settlement'' (Inr (cx_settlement c = Some True))
           (opt_flag (cx_settlement c)) (Shown ''True'') ''settlement state must affirmatively permit the requested action'']
         else [])
      @ (if pl_require_exercise p \<and> in_action i = ''EXERCISE'' then
          [add_rule ''option_deliverable'' (Inr (cx_deliverable c = Some True)) (opt_flag (cx_deliverable c)) (Shown ''True'')
             ''option exercise requires a verified current deliverable'',
           add_rule ''option_exercise_funding''
             (Inr (case (cx_exercise_required c, cx_exercise_available c) of (Some r, Some a) \<Rightarrow> dval r \<le> dval a | _ \<Rightarrow> False))
             (if cx_exercise_required c = None then Shown ''UNKNOWN'' else opt_amount (cx_exercise_available c))
             (opt_amount (cx_exercise_required c))
             ''option exercise requires evidenced buying power for its obligation'']
         else []))"

definition freshness_rules :: "sealed_context \<Rightarrow> policy \<Rightarrow> risk_rule result list" where
  "freshness_rules c p =
     add_rule ''market_freshness'' (Inr (dval (cx_data_age c) \<le> dval (pl_max_data_age p)))
       (Amount (cx_data_age c)) (Amount (pl_max_data_age p)) ''market data must be fresh enough for admission''
     # rule_if (pl_max_clock_age p) (\<lambda>limit. add_rule ''clock_freshness''
         (Inr (case cx_clock_age c of None \<Rightarrow> False | Some a \<Rightarrow> dval a \<le> dval limit))
         (opt_amount (cx_clock_age c)) (Amount limit) ''clock synchronization evidence must be fresh enough for admission'')
     @ [let evidenced = (cx_fx_age c \<noteq> [] \<or> \<not> cx_fx_required c); stale = dmax_list (dict_values (cx_fx_age c)) in
        add_rule ''fx_freshness'' (Inr (evidenced \<and> dval stale \<le> dval (pl_max_fx_age p)))
          (if evidenced then Amount stale else Shown ''UNKNOWN'') (Amount (pl_max_fx_age p))
          ''required FX inputs must be present and fresh enough for valuation'']"

definition exposure_rules :: "sealed_context \<Rightarrow> policy \<Rightarrow> assessment \<Rightarrow> risk_rule result list" where
  "exposure_rules c p a =
     (let e = as_exposure a; protective = as_protective a in
      [rbind (greatest_abs (dict_values (ex_positions e))) (\<lambda>greatest.
         add_rule ''position_limit'' (Inr (dval greatest \<le> dval (pl_max_abs_position p) \<or> protective))
           (Amount greatest) (Amount (pl_max_abs_position p)) ''every projected absolute position must stay within policy''),
       add_rule ''single_notional'' (Inr (dval (ex_single e) \<le> dval (pl_max_single_notional p) \<or> protective))
         (Amount (ex_single e)) (Amount (pl_max_single_notional p)) ''single-instrument notional must stay within policy'',
       add_rule ''gross_leverage'' (ratio_within True (ex_gross_ratio e) (pl_max_gross_leverage p) protective)
         (Amount (ex_gross_leverage e)) (Amount (pl_max_gross_leverage p)) ''gross leverage must stay within policy'',
       add_rule ''net_leverage'' (ratio_within True (ex_net_ratio e) (pl_max_net_leverage p) protective)
         (Amount (ex_net_leverage e)) (Amount (pl_max_net_leverage p)) ''net leverage must stay within policy'']
      @ rule_if (pl_max_asset_concentration p) (\<lambda>limit. add_rule ''asset_concentration''
          (ratio_within (cn_missing (as_asset a) = []) (cn_ratio (as_asset a)) limit False)
          (missing_text (cn_missing (as_asset a)) (cn_report (as_asset a))) (Amount limit)
          ''projected gross exposure by asset bucket must stay within policy'')
      @ rule_if (pl_max_venue_concentration p) (\<lambda>limit. add_rule ''venue_concentration''
          (ratio_within (cn_missing (as_venue a) = []) (cn_ratio (as_venue a)) limit False)
          (missing_text (cn_missing (as_venue a)) (cn_report (as_venue a))) (Amount limit)
          ''projected gross exposure by venue must stay within policy''))"

definition execution_rules :: "intent \<Rightarrow> sealed_context \<Rightarrow> policy \<Rightarrow> assessment \<Rightarrow> risk_rule result list" where
  "execution_rules i c p a =
     rule_if (pl_max_participation p) (\<lambda>limit. add_rule ''liquidity_participation''
         (case as_participation a of None \<Rightarrow> Inr False | Some (ratio, _) \<Rightarrow> ratio_within True ratio limit False)
         (opt_amount (map_option snd (as_participation a))) (Amount limit)
         ''order quantity must stay within evidenced liquidity participation policy'')
     @ rule_if (pl_max_spread p) (\<lambda>limit. add_rule ''spread''
         (Inr (case dict_get (cx_spread c) (in_symbol i) of None \<Rightarrow> False | Some x \<Rightarrow> dval x \<le> dval limit))
         (opt_amount (dict_get (cx_spread c) (in_symbol i))) (Amount limit)
         ''evidenced execution spread must stay within policy'')
     @ rule_if (pl_max_slippage p) (\<lambda>limit. add_rule ''slippage''
         (Inr (case dict_get (cx_slippage c) (in_symbol i) of None \<Rightarrow> False | Some x \<Rightarrow> dval x \<le> dval limit))
         (opt_amount (dict_get (cx_slippage c) (in_symbol i))) (Amount limit)
         ''evidenced execution slippage must stay within policy'')
     @ rule_if (pl_max_factor p) (\<lambda>limit. let f = as_factors a in add_rule ''factor_exposure''
         (Inr (fa_missing f = [] \<and> (dval (fa_exposure f) \<le> dval limit
            \<or> as_protective a \<and> dval (fa_exposure f) < dval (fa_base f))))
         (missing_text (fa_missing f) (fa_exposure f)) (Amount limit)
         ''correlated factor exposure must stay within the independent policy bound'')"

definition loss_rules :: "sealed_context \<Rightarrow> policy \<Rightarrow> assessment \<Rightarrow> risk_rule result list" where
  "loss_rules c p a =
     [rbind (rk_negate (cx_daily_pnl c)) (\<lambda>l. let daily = dmax l dzero in
        add_rule ''daily_loss'' (Inr (dval daily \<le> dval (pl_max_daily_loss p) \<or> as_protective a))
          (Amount daily) (Amount (pl_max_daily_loss p)) ''daily loss must stay within policy''),
      add_rule ''drawdown'' (Inr (dval (cx_drawdown c) \<le> dval (pl_max_drawdown p) \<or> as_protective a))
        (Amount (cx_drawdown c)) (Amount (pl_max_drawdown p)) ''drawdown must stay within policy'',
      add_rule ''margin_headroom'' (Inr (dval (pl_min_margin p) \<le> dval (cx_margin c) \<or> as_protective a))
        (Amount (cx_margin c)) (Amount (pl_min_margin p)) ''margin headroom must meet policy floor'']"

definition stress_rules :: "sealed_context \<Rightarrow> policy \<Rightarrow> assessment \<Rightarrow> risk_rule result list" where
  "stress_rules c p a =
     (let s = as_stress a; g = as_regime a in
      [add_rule ''stress_coverage'' (Inr (sm_complete s))
         (Shown (if sm_missing s \<noteq> [] then join_text (sort (sm_missing s)) else int_text (int (length (cx_stress c)))))
         (Shown ''complete non-empty stress evidence for every non-zero projected position'')
         ''stress admission must fail closed when scenarios are missing or incomplete'']
      @ rule_if (pl_stress_labels p) (\<lambda>labels. add_rule ''stress_regime_coverage'' (Inr (rg_complete g))
          (Shown (if ex_notionals (as_exposure a) = [] then ''NO_PROJECTED_RISK''
             else if rg_missing g \<noteq> [] then ''MISSING:'' @ join_text (sort (rg_missing g))
             else if rg_mismatched g \<noteq> [] then ''MISMATCH:'' @ join_text (sort (rg_mismatched g))
             else join_text (cx_stress_labels c)))
          (Shown (join_text labels)) ''configured frozen stress regimes must all be evidenced by labeled scenarios'')
      @ [add_rule ''stress_loss''
           (Inr (sm_complete s \<and> (dval (sm_worst s) \<le> dval (pl_max_stress_loss p) \<or> as_protective a)))
           (if sm_complete s then Amount (sm_worst s) else Shown ''UNKNOWN'') (Amount (pl_max_stress_loss p))
           ''worst configured stress loss must stay within policy''])"

definition tail_rules :: "sealed_context \<Rightarrow> policy \<Rightarrow> assessment \<Rightarrow> risk_rule result list" where
  "tail_rules c p a = (let t = as_tail a in case pl_max_shortfall p of None \<Rightarrow> [] | Some limit \<Rightarrow>
     [add_rule ''tail_coverage'' (Inr (tm_complete t))
        (Shown (if tm_missing t \<noteq> [] then join_text (sort (tm_missing t))
           else if \<not> tm_matches t then ''DISTRIBUTION_MISMATCH'' else int_text (int (length (cx_tail c)))))
        (Shown ''complete non-empty tail scenarios for every non-zero projected position'')
        ''expected-shortfall admission requires complete frozen tail evidence'',
      add_rule ''expected_shortfall''
        (case tm_shortfall t of None \<Rightarrow> Inr False
         | Some (ratio, _) \<Rightarrow> ratio_within (tm_complete t) ratio limit (as_protective a))
        (opt_amount (map_option snd (tm_shortfall t))) (Amount limit)
        ''equal-weight expected shortfall over the configured worst tail must stay within policy''])"

definition liquidation_rules :: "(string \<Rightarrow> string) \<Rightarrow> evidence_store option \<Rightarrow> sealed_context \<Rightarrow> policy \<Rightarrow> assessment
    \<Rightarrow> risk_rule result list" where
  "liquidation_rules sha256 store c p a = rule_if (pl_min_liquidation p) (\<lambda>limit.
     rbind (verify_liquidation_headroom_evidence sha256 (cx_evidence c) (cx_scope c) (cx_state_version c) (cx_time c) store)
       (\<lambda>verified. add_rule ''liquidation_headroom''
         (Inr (verified \<and> (case cx_liquidation c of None \<Rightarrow> False
            | Some h \<Rightarrow> dval limit \<le> dval h \<or> as_protective a)))
         (case cx_liquidation c of None \<Rightarrow> Shown ''UNKNOWN''
          | Some h \<Rightarrow> if verified then Amount h else Shown ''UNVERIFIED'')
         (Amount limit)
         (''scope-bound immutable liquidation evidence must verify before ''
          @ ''the headroom floor or protective-reduction exception can admit risk'')))"

definition closing_rules :: "intent \<Rightarrow> sealed_context \<Rightarrow> policy \<Rightarrow> assessment \<Rightarrow> risk_rule result list" where
  "closing_rules i c p a =
     (let e = as_exposure a; opens_short = (dval (ex_resulting e) < 0 \<and> dval (ex_resulting e) < dval (ex_base e)) in
      [add_rule ''short_borrow'' (Inr (\<not> opens_short \<or> cx_borrow c = Some True))
         (Shown (case cx_borrow c of None \<Rightarrow> ''None'' | Some b \<Rightarrow> bool_text b)) (Shown ''True'')
         ''new or increased short exposure requires affirmative borrow evidence'']
      @ rule_if (if in_type i = ''FUTURE'' then pl_min_delivery p else None) (\<lambda>limit.
          let headroom = dict_get (cx_delivery c) (in_symbol i) in
          add_rule ''futures_delivery_cutoff''
            (Inr (as_protective a \<or> (case headroom of None \<Rightarrow> False | Some h \<Rightarrow> dval limit \<le> dval h)))
            (if as_protective a then Shown ''RISK_REDUCTION'' else opt_amount headroom) (Amount limit)
            ''new futures risk requires sufficient evidenced delivery headroom'')
      @ [rbind (rk_abs (as_after a)) (\<lambda>moved. rbind (rk_abs (ex_resulting e)) (\<lambda>resulting.
         rbind (rk_abs (ex_current e)) (\<lambda>current. rbind (rk_abs (ex_base e)) (\<lambda>base.
           add_rule ''reduce_only'' (Inr (in_reduce_only i \<longrightarrow> as_reduces a \<and> as_reduces_current a))
             (if in_reduce_only i then Shown (''current='' @ decimal_str moved @ '';projected='' @ decimal_str resulting)
              else Amount resulting)
             (if in_reduce_only i then Shown (''current<'' @ decimal_str current @ '';projected<'' @ decimal_str base)
              else Amount base)
             (''reduce-only intent must reduce both current and reserved-inclusive exposure ''
              @ ''without crossing flat'')))))])"

definition risk_rules :: "(string \<Rightarrow> string) \<Rightarrow> evidence_store option \<Rightarrow> intent \<Rightarrow> sealed_context \<Rightarrow> policy \<Rightarrow> assessment
    \<Rightarrow> risk_rule list result" where
  "risk_rules sha256 store i c p a =
     rmap (\<lambda>rule. rule)
       (instrument_rules i c p @ freshness_rules c p @ exposure_rules c p a @ execution_rules i c p a
        @ loss_rules c p a @ stress_rules c p a @ tail_rules c p a @ liquidation_rules sha256 store c p a
        @ closing_rules i c p a)"

end
