(* ===== verification/Risk_Sealing.thy ===== *)
theory Risk_Sealing
  imports Risk_Inputs
begin

text \<open>
  What the constructors of \<open>mvp/autotrade_mvp/risk.py\<close> guarantee of the objects they return, and that an object they
  returned passes through them unchanged: \<open>evaluate_risk\<close> and \<open>evaluate_bound_risk\<close> seal their inputs again before
  they use them.
\<close>

named_theorems sealed_simps \<open>a normalised value is a fixed point of its normalisation\<close>

section \<open>Numbers and text\<close>

lemma rk_Inr [simp]: "rk m = Inr x \<longleftrightarrow> m = Inr x"
  by (simp add: rk_def)

lemma preflight_nonzero:
  assumes "preflight_bounded_presentation t allow = Inr False"
  shows "dval (decimal_of_text t) \<noteq> 0"
proof -
  have m: "match_bounded_presentation t"
    using assms by (auto simp: preflight_bounded_presentation_def split: if_splits)
  obtain ip dot fp et has where sp: "split_exponent (drop_sign t) = (ip @ (if dot then CHR ''.'' # fp else []), has, et)"
    and pa: "partition_at (CHR ''.'') (ip @ (if dot then CHR ''.'' # fp else [])) = (ip, dot, fp)"
    and dg: "all_digits ip" "all_digits fp"
    using presentation_shape [OF m] by metis
  have "dropWhile (\<lambda>c. c = CHR ''0'') (ip @ fp) \<noteq> []"
    using assms sp pa by (auto simp: preflight_bounded_presentation_def Let_def split: if_splits)
  then have "0 < text_value (ip @ fp)"
    using dg by (intro text_value_length(2)) (simp_all add: all_digits_def)
  with sp pa show ?thesis by (simp add: decimal_of_text_def)
qed

lemma parse_zero_canonical: "parse_bounded_exact_decimal v allow = Inr d \<Longrightarrow> dval d = 0 \<Longrightarrow> d = dzero"
  by (cases v) (auto simp: parse_bounded_exact_decimal_def validate_decimal_envelope_eq Let_def
      dest: preflight_nonzero split: if_splits)

lemma parse_again: "parse_bounded_exact_decimal v allow = Inr d \<Longrightarrow> parse_bounded_exact_decimal (PyDecimal d) b = Inr d"
  using parse_Inr [of v allow d] parse_zero_canonical [of v allow d] by (auto simp: parse_decimal)

lemma rk_decimal_again [sealed_simps]: "rk_decimal v = Inr d \<Longrightarrow> rk_decimal (PyDecimal d) = Inr d"
  by (cases v) (auto simp: rk_decimal_def dest: parse_again)

lemma rk_decimal_envelope: "rk_decimal v = Inr d \<Longrightarrow> in_envelope d"
  by (cases v) (auto simp: rk_decimal_def dest: parse_Inr)

lemma rk_positive_Inr:
  "rk_positive allow v = Inr d \<longleftrightarrow> rk_decimal v = Inr d \<and> 0 \<le> dval d \<and> (allow \<or> dval d \<noteq> 0)"
  by (cases "rk_decimal v") (auto simp: rk_positive_def not_less split: if_splits)

lemma rk_positive_again [sealed_simps]: "rk_positive allow v = Inr d \<Longrightarrow> rk_positive allow (PyDecimal d) = Inr d"
  by (auto simp: rk_positive_Inr dest: rk_decimal_again)

lemma identity_key_again [sealed_simps]: "identity_key t = Inr u \<Longrightarrow> identity_key u = Inr u"
  by (auto simp: identity_key_def split: if_splits)

lemma fraction_limit_again [sealed_simps]: "fraction_limit v = Inr d \<Longrightarrow> fraction_limit (PyDecimal d) = Inr d"
  by (auto simp: fraction_limit_def dest: rk_positive_again)

lemma ropt_Inr [simp]:
  "ropt f v = Inr w \<longleftrightarrow> (case (v, w) of (None, None) \<Rightarrow> True | (Some x, Some y) \<Rightarrow> f x = Inr y | _ \<Rightarrow> False)"
  by (cases v; cases w) (auto simp: ropt_def)

lemma ropt_again: "ropt f v = Inr w \<Longrightarrow> (\<And>x y. f x = Inr y \<Longrightarrow> g (h y) = Inr y) \<Longrightarrow> ropt g (map_option h w) = Inr w"
  by (cases v; cases w) auto

lemmas ropt_decimal = ropt_again [where h = PyDecimal]

lemmas ropt_same = ropt_again [where h = "\<lambda>x. x", unfolded option.map_ident]

section \<open>Mappings\<close>

lemma mapping_step_Inr: "mapping_step f d (k, v) = Inr d' \<longleftrightarrow>
    strip k \<noteq> [] \<and> dict_get d (strip k) = None \<and> (\<exists>w. f v = Inr w \<and> d' = d @ [(strip k, w)])"
  by (auto simp: mapping_step_def identity_key_def dict_set_new split: if_splits)

definition sealed_keys :: "(string, 'v) dict \<Rightarrow> bool" where
  "sealed_keys d \<longleftrightarrow> dict_ok d \<and> list_all (\<lambda>k. k \<noteq> [] \<and> strip k = k) (dict_keys d)"

lemma sealed_keys_simps [simp]: "sealed_keys []"
  "sealed_keys (d @ [(k, v)]) \<longleftrightarrow> sealed_keys d \<and> k \<noteq> [] \<and> strip k = k \<and> dict_get d k = None"
proof -
  show "sealed_keys []" by (simp add: sealed_keys_def)
  show "sealed_keys (d @ [(k, v)]) \<longleftrightarrow> sealed_keys d \<and> k \<noteq> [] \<and> strip k = k \<and> dict_get d k = None"
    unfolding dict_get_None_iff by (auto simp: sealed_keys_def dict_ok_def)
qed

lemma sealed_keys_ok [simp]: "sealed_keys d \<Longrightarrow> dict_ok d"
  by (simp add: sealed_keys_def)

lemma normalize_mapping_sealed:
  assumes "normalize_mapping f d = Inr e"
  shows "sealed_keys e \<and> list_all (\<lambda>w. \<exists>v. f v = Inr w) (dict_values e)"
  using assms unfolding normalize_mapping_def
  by (rule rfold_invariant) (auto simp: mapping_step_Inr, blast)

lemma mapping_fixed:
  assumes "sealed_keys (d @ e)" and "list_all (\<lambda>(k, w). f (h w) = Inr w) e"
  shows "rfold (mapping_step f) d (map (\<lambda>(k, w). (k, h w)) e) = Inr (d @ e)"
  using assms
proof (induction e arbitrary: d)
  case (Cons p e)
  obtain k w where p: "p = (k, w)" by force
  have "sealed_keys (d @ [(k, w)])"
    using Cons.prems(1) p by (auto simp: sealed_keys_def dict_ok_def)
  then have "mapping_step f d (k, h w) = Inr (d @ [(k, w)])"
    using Cons.prems(2) p by (simp add: mapping_step_Inr)
  with Cons p show ?case by simp
qed simp

lemma normalize_mapping_again:
  assumes "normalize_mapping f d = Inr e" and "\<And>v w. f v = Inr w \<Longrightarrow> g (h w) = Inr w"
  shows "normalize_mapping g (map (\<lambda>(k, w). (k, h w)) e) = Inr e"
proof -
  note s = normalize_mapping_sealed [OF assms(1)]
  have "list_all (\<lambda>(k, w). g (h w) = Inr w) e"
    using s assms(2) by (fastforce simp: list_all_iff)
  with s show ?thesis unfolding normalize_mapping_def using mapping_fixed [of "[]" e g h] by simp
qed

lemma normalize_raw_dict [sealed_simps]:
  "normalize_mapping rk_decimal d = Inr e \<Longrightarrow> normalize_mapping rk_decimal (raw_dict e) = Inr e"
  "normalize_mapping (rk_positive b) d' = Inr e \<Longrightarrow> normalize_mapping (rk_positive b) (raw_dict e) = Inr e"
  unfolding raw_dict_def by (erule normalize_mapping_again, erule sealed_simps)+

lemma normalize_text_dict [sealed_simps]:
  "normalize_mapping identity_key d = Inr e \<Longrightarrow> normalize_mapping identity_key e = Inr e"
  using normalize_mapping_again [of identity_key d e identity_key "\<lambda>x. x"] by (auto dest: identity_key_again)

lemma normalize_nested_dict [sealed_simps]:
  "normalize_mapping (normalize_mapping rk_decimal) d = Inr e \<Longrightarrow>
     normalize_mapping (normalize_mapping rk_decimal) (map (\<lambda>(k, v). (k, raw_dict v)) e) = Inr e"
  by (erule normalize_mapping_again, erule sealed_simps)

lemma rmap_again: "rmap f xs = Inr ys \<Longrightarrow> (\<And>x y. f x = Inr y \<Longrightarrow> g (h y) = Inr y) \<Longrightarrow> rmap g (map h ys) = Inr ys"
  by (induction xs arbitrary: ys) auto

lemma normalize_scenarios [sealed_simps]:
  "rmap (normalize_mapping rk_decimal) xs = Inr ys \<Longrightarrow> rmap (normalize_mapping rk_decimal) (map raw_dict ys) = Inr ys"
  by (erule rmap_again, erule sealed_simps)

lemma normalize_types_again [sealed_simps]: "normalize_types d = Inr e \<Longrightarrow> normalize_types e = Inr e"
proof -
  assume "normalize_types d = Inr e"
  then obtain t where t: "normalize_mapping identity_key d = Inr t" and e: "e = map (\<lambda>(s, t). (s, upper t)) t"
    and ok: "list_all (\<lambda>(s, t). t \<in> set RISK_INSTRUMENT_TYPES) e"
    by (auto simp: normalize_types_def Let_def)
  note s = normalize_mapping_sealed [OF t]
  have k: "dict_keys e = dict_keys t" by (simp add: e comp_def case_prod_beta)
  have "sealed_keys e" using s unfolding sealed_keys_def dict_ok_def k by simp
  moreover have "list_all (\<lambda>(k, w). identity_key w = Inr w) e"
    using s by (fastforce simp: e list_all_iff identity_key_def strip_upper split: if_splits)
  ultimately have "normalize_mapping identity_key (map (\<lambda>(k, w). (k, w)) e) = Inr e"
    unfolding normalize_mapping_def using mapping_fixed [of "[]" e identity_key "\<lambda>x. x"] by simp
  moreover have "map (\<lambda>(s, t). (s, upper t)) e = e" by (simp add: e comp_def case_prod_beta)
  ultimately show ?thesis using ok by (simp add: normalize_types_def)
qed

section \<open>Labels, actions and digests\<close>

lemma label_fold_sealed:
  "rfold label_step acc vs = Inr ls \<Longrightarrow> distinct acc \<Longrightarrow> list_all (\<lambda>l. l \<noteq> [] \<and> strip l = l) acc \<Longrightarrow>
     distinct ls \<and> list_all (\<lambda>l. l \<noteq> [] \<and> strip l = l) ls"
  by (induction vs arbitrary: acc) (auto simp: label_step_def split: if_splits)

lemma label_fold_fixed:
  "distinct (acc @ ls) \<Longrightarrow> list_all (\<lambda>l. l \<noteq> [] \<and> strip l = l) ls \<Longrightarrow> rfold label_step acc ls = Inr (acc @ ls)"
  by (induction ls arbitrary: acc) (simp_all add: label_step_def)

lemma normalize_labels_again [sealed_simps]: "normalize_labels vs = Inr ls \<Longrightarrow> normalize_labels ls = Inr ls"
  using label_fold_sealed [of "[]" vs ls] label_fold_fixed [of "[]" ls] by (simp add: normalize_labels_def)

lemma risk_actions_upper: "a \<in> set RISK_ACTIONS \<Longrightarrow> strip a = a \<and> upper a = a \<and> a \<noteq> []"
  unfolding RISK_ACTIONS_def by (auto simp: strip_def lstrip_by_def rstrip_by_def is_space_def upper_def to_upper_def)

lemma action_fold_sealed:
  "rfold action_step acc vs = Inr ls \<Longrightarrow> distinct acc \<Longrightarrow> set acc \<subseteq> set RISK_ACTIONS \<Longrightarrow>
     distinct ls \<and> set ls \<subseteq> set RISK_ACTIONS"
  by (induction vs arbitrary: acc) (auto simp: action_step_def Let_def split: if_splits)

lemma action_fold_fixed:
  "distinct (acc @ ls) \<Longrightarrow> set ls \<subseteq> set RISK_ACTIONS \<Longrightarrow> rfold action_step acc ls = Inr (acc @ ls)"
  by (induction ls arbitrary: acc) (simp_all add: action_step_def risk_actions_upper)

lemma normalize_actions_again [sealed_simps]: "normalize_actions vs = Inr ls \<Longrightarrow> normalize_actions ls = Inr ls"
  using action_fold_sealed [of "[]" vs ls] action_fold_fixed [of "[]" ls]
  by (auto simp: normalize_actions_def split: if_splits)

lemma scenario_digest_again [sealed_simps]: "scenario_digest_value t = Inr u \<Longrightarrow> scenario_digest_value u = Inr u"
  by (auto simp: scenario_digest_value_def split: if_splits)

lemma canonical_digests_id:
  "dict_ok ds \<Longrightarrow> canonical_scenario_digest_mapping (Some ds) = Inr (Some ds)"
proof -
  have "rfold (\<lambda>d (label, digest). if dict_get d label \<noteq> None then Inl ValueError else Inr (dict_set d label digest)) acc xs
      = Inr (acc @ xs)" if "dict_ok (acc @ xs)" for acc xs :: "(string \<times> string) list"
    using that
  proof (induction xs arbitrary: acc)
    case (Cons p xs)
    obtain k v where p: "p = (k, v)" by force
    have "dict_get acc k = None" unfolding dict_get_None_iff using Cons.prems p by (auto simp: dict_ok_def)
    with Cons p show ?case by (simp add: dict_set_new)
  qed simp
  from this [of "[]" ds] show "dict_ok ds \<Longrightarrow> ?thesis" by (simp add: canonical_scenario_digest_mapping_def)
qed

lemma normalize_digests_sealed:
  assumes "normalize_scenario_digests vs = Inr ds"
  shows "dict_ok ds" and "normalize_scenario_digests ds = Inr ds"
proof -
  obtain n where n: "normalize_mapping scenario_digest_value vs = Inr n" and ne: "n \<noteq> []" and ds: "ds = sort_key fst n"
    using assms by (auto simp: normalize_scenario_digests_def split: if_splits)
  note s = normalize_mapping_sealed [OF n]
  show ok: "dict_ok ds" unfolding ds dict_ok_def using s by (intro sorted_keys_distinct) simp
  have "sealed_keys ds" using s ok by (auto simp: sealed_keys_def ds list_all_iff)
  moreover have "list_all (\<lambda>(k, w). scenario_digest_value w = Inr w) ds"
    using s by (fastforce simp: ds list_all_iff dest: scenario_digest_again)
  ultimately have "normalize_mapping scenario_digest_value (map (\<lambda>(k, w). (k, w)) ds) = Inr ds"
    unfolding normalize_mapping_def using mapping_fixed [of "[]" ds scenario_digest_value "\<lambda>x. x"] by simp
  moreover have "sort_key fst ds = ds" unfolding ds by (rule sort_key_id_if_sorted) simp
  moreover have "length ds = length n" by (simp add: ds)
  with ne have "ds \<noteq> []" by auto
  ultimately show "normalize_scenario_digests ds = Inr ds" by (simp add: normalize_scenario_digests_def)
qed

section \<open>Liquidation evidence\<close>

lemma make_scope_again [sealed_simps]: "make_liquidation_scope s = Inr t \<Longrightarrow> make_liquidation_scope t = Inr t"
  by (auto simp: make_liquidation_scope_def identity_key_def strip_upper split: if_splits)

lemma remove_all_id: "pat \<noteq> [] \<Longrightarrow> hd pat \<notin> set t \<Longrightarrow> remove_all pat t = t"
proof (induction t)
  case (Cons c t)
  then show ?case by (cases pat) auto
qed simp

lemma remove_all_char: "remove_all [c] t = filter (\<lambda>x. x \<noteq> c) t"
  by (induction t) auto

definition plain_hex :: "char \<Rightarrow> bool" where
  "plain_hex c \<longleftrightarrow> \<not> is_space c \<and> c \<noteq> CHR ''u'' \<and> c \<noteq> CHR ''-'' \<and> c \<noteq> CHR ''+'' \<and> c \<noteq> CHR ''x'' \<and> c \<noteq> CHR ''X''
     \<and> c \<noteq> CHR ''{'' \<and> c \<noteq> CHR ''}''"

lemma hex_digit_table: "list_all (\<lambda>d. plain_hex (hex_digit d) \<and> hex_value (hex_digit d) = Some d) [0..<16]"
  by code_simp

lemma hex_digit_facts: "d < 16 \<Longrightarrow> plain_hex (hex_digit d)" "d < 16 \<Longrightarrow> hex_value (hex_digit d) = Some d"
  using hex_digit_table by (simp_all only: list_all_iff set_upt) auto

lemma hex_text_chars: "c \<in> set (hex_text k n) \<Longrightarrow> \<exists>d<16. c = hex_digit d"
proof (induction k arbitrary: n)
  case (Suc k)
  then show ?case by (cases "c \<in> set (hex_text k (n div 16))") (auto intro: exI [of _ "n mod 16"])
qed simp

lemma length_hex_text [simp]: "length (hex_text k n) = k"
  by (induction k arbitrary: n) auto

lemma hex_text_mod: "hex_text k (n mod 16 ^ k) = hex_text k n"
proof (induction k arbitrary: n)
  case (Suc k)
  have "n mod 16 ^ Suc k div 16 = n div 16 mod 16 ^ k" "n mod 16 ^ Suc k mod 16 = n mod 16"
    by (simp_all add: mod_mult2_eq)
  with Suc show ?case by simp
qed simp

lemma hex_digits_read:
  "list_all (\<lambda>c. \<exists>d. hex_value c = Some d) t \<Longrightarrow> t \<noteq> [] \<Longrightarrow>
     hex_digits b t acc = Some (foldl (\<lambda>a c. a * 16 + the (hex_value c)) acc t)"
proof (induction t arbitrary: b acc)
  case (Cons c t)
  then obtain d where d: "hex_value c = Some d" by auto
  show ?case
  proof (cases "t = []")
    case False
    then show ?thesis using d Cons.prems Cons.IH [of True "acc * 16 + d"] by simp
  qed (simp add: d)
qed simp

lemma hex_text_folds: "foldl (\<lambda>a c. a * 16 + the (hex_value c)) acc (hex_text k n) = acc * 16 ^ k + n mod 16 ^ k"
proof (induction k arbitrary: n)
  case (Suc k)
  have "n mod (16 * 16 ^ k) = n div 16 mod 16 ^ k * 16 + n mod 16" by (simp add: mod_mult2_eq)
  with Suc show ?case by (simp add: hex_digit_facts(2) algebra_simps)
qed simp

lemma int_base16_hex_text:
  assumes "0 < k"
  shows "int_base16 (hex_text k n) = Some (int (n mod 16 ^ k))"
proof -
  let ?h = "hex_text k n"
  have ne: "?h \<noteq> []" using assms by (metis length_hex_text length_0_conv not_gr_zero)
  have ch: "\<And>c. c \<in> set ?h \<Longrightarrow> plain_hex c" using hex_text_chars hex_digit_facts(1) by blast
  then have h: "plain_hex (hd ?h)" "plain_hex (last ?h)" using ne by simp_all
  then have st: "strip ?h = ?h" by (intro strip_id) (auto simp: plain_hex_def)
  have ds: "drop_sign ?h = ?h" using h(1) ne by (cases ?h) (auto simp: plain_hex_def is_sign_def)
  have "CHR ''x'' \<notin> set (take 2 ?h)" "CHR ''X'' \<notin> set (take 2 ?h)"
    using ch by (auto dest!: in_set_takeD simp: plain_hex_def)
  then have "take 2 ?h \<noteq> ''0x'' \<and> take 2 ?h \<noteq> ''0X''" by (metis list.set_intros(1,2))
  moreover have "hd ?h \<noteq> CHR ''-''" using h(1) by (simp add: plain_hex_def)
  moreover have "list_all (\<lambda>c. \<exists>d. hex_value c = Some d) ?h"
    using hex_text_chars hex_digit_facts(2) by (fastforce simp: list_all_iff)
  ultimately show ?thesis
    using hex_digits_read [of ?h False 0] ne by (simp add: int_base16_def Let_def st ds hex_text_folds)
qed

definition dashed :: "string \<Rightarrow> string" where
  "dashed h = take 8 h @ ''-'' @ take 4 (drop 8 h) @ ''-'' @ take 4 (drop 12 h) @ ''-'' @ take 4 (drop 16 h)
     @ ''-'' @ drop 20 h"

lemma filter_dashed: "CHR ''-'' \<notin> set h \<Longrightarrow> filter (\<lambda>x. x \<noteq> CHR ''-'') (dashed h) = h"
proof -
  assume "CHR ''-'' \<notin> set h"
  then have f: "filter (\<lambda>x. x \<noteq> CHR ''-'') (take a (drop b h)) = take a (drop b h)"
      "filter (\<lambda>x. x \<noteq> CHR ''-'') (take a h) = take a h"
      "filter (\<lambda>x. x \<noteq> CHR ''-'') (drop a h) = drop a h" for a b
    by (auto intro!: filter_True dest: in_set_takeD in_set_dropD)
  have "h = take 8 h @ take 4 (drop 8 h) @ take 4 (drop 12 h) @ take 4 (drop 16 h) @ drop 20 h"
  proof -
    have s: "drop b h = take a (drop b h) @ drop (a + b) h" for a b
      by (metis append_take_drop_id drop_drop)
    show ?thesis using s [where a = 4 and b = 8] s [where a = 4 and b = 12] s [where a = 4 and b = 16]
        append_take_drop_id [of 8 h] by simp
  qed
  then show ?thesis by (simp add: dashed_def f)
qed

lemma uuid_text_again [sealed_simps]: "uuid_text t = Inr u \<Longrightarrow> uuid_text u = Inr u"
proof -
  assume "uuid_text t = Inr u"
  then obtain n where u: "u = dashed (hex_text 32 n)"
    by (auto simp: uuid_text_def Let_def dashed_def split: if_splits option.splits)
  let ?h = "hex_text 32 n" and ?brace = "\<lambda>c. c = CHR ''{'' \<or> c = CHR ''}''"
  have h: "plain_hex c" if "c \<in> set ?h" for c using hex_text_chars [OF that] hex_digit_facts(1) by blast
  have c: "c = CHR ''-'' \<or> plain_hex c" if "c \<in> set u" for c
    using that h unfolding u dashed_def by (auto dest!: in_set_takeD in_set_dropD)
  have nu: "CHR ''u'' \<notin> set u" using c [of "CHR ''u''"] by (auto simp: plain_hex_def)
  have "remove_all ''uuid:'' (remove_all ''urn:'' u) = u" using nu by (simp add: remove_all_id)
  moreover have nb: "\<not> ?brace c" if "c \<in> set u" for c using c [OF that] by (auto simp: plain_hex_def)
  then have "lstrip_by ?brace u = u" by (cases u) (auto simp: lstrip_by_def)
  moreover have "u = [] \<or> \<not> ?brace (last u)" using nb last_in_set by metis
  then have "rstrip_by ?brace u = u" by (rule rstrip_by_id)
  moreover have "remove_all ''-'' u = ?h"
    unfolding u remove_all_char using h by (intro filter_dashed) (auto simp: plain_hex_def)
  ultimately show "uuid_text u = Inr u"
    using int_base16_hex_text [of 32 n] hex_text_mod [of 32 n]
    by (simp add: uuid_text_def Let_def) (simp add: u dashed_def)
qed

lemma reseal_evidence_again:
  "make_headroom_evidence h v s a b i d = Inr e \<Longrightarrow> reseal_evidence e = Inr e"
proof -
  assume "make_headroom_evidence h v s a b i d = Inr e"
  then obtain scope obs expi art dg hd where
    "\<not> v < 0" "make_liquidation_scope s = Inr scope" "rk_utc a = Inr obs" "rk_utc b = Inr expi" "\<not> expi \<le> obs"
    "uuid_text i = Inr art" "identity_key d = Inr dg" "is_sha256 dg" "rk_decimal h = Inr hd"
    and e: "e = \<lparr>he_headroom = hd, he_state_version = v, he_scope = scope, he_observed_at = obs,
          he_expires_at = expi, he_artifact_id = art, he_sha256 = dg\<rparr>"
    by (auto simp: make_headroom_evidence_def split: if_splits)
  moreover from this have "make_liquidation_scope scope = Inr scope" "uuid_text art = Inr art" "identity_key dg = Inr dg"
    "rk_decimal (PyDecimal hd) = Inr hd" by (blast intro: sealed_simps)+
  ultimately show ?thesis by (simp add: reseal_evidence_def make_headroom_evidence_def rk_utc_def)
qed

lemma reseal_evidence_twice [sealed_simps]: "reseal_evidence e = Inr f \<Longrightarrow> reseal_evidence f = Inr f"
  unfolding reseal_evidence_def [of e] by (rule reseal_evidence_again)

section \<open>Sealed inputs\<close>

text \<open>A value that the constructor, given it again in the form \<open>h\<close>, accepts as it is.\<close>

definition sealed :: "('a \<Rightarrow> 'b result) \<Rightarrow> ('b \<Rightarrow> 'a) \<Rightarrow> 'b \<Rightarrow> bool" where
  "sealed f h x \<longleftrightarrow> f (h x) = Inr x"

lemma sealed_parts:
  "rk_decimal v = Inr d \<Longrightarrow> sealed rk_decimal PyDecimal d"
  "rk_positive allow v = Inr d \<Longrightarrow> sealed (rk_positive allow) PyDecimal d"
  "normalize_mapping rk_decimal m = Inr n \<Longrightarrow> sealed (normalize_mapping rk_decimal) raw_dict n"
  "normalize_mapping (rk_positive allow) m = Inr n \<Longrightarrow> sealed (normalize_mapping (rk_positive allow)) raw_dict n"
  "normalize_mapping identity_key tm = Inr tn \<Longrightarrow> sealed (normalize_mapping identity_key) (\<lambda>x. x) tn"
  "normalize_types tm = Inr tn \<Longrightarrow> sealed normalize_types (\<lambda>x. x) tn"
  "normalize_mapping (normalize_mapping rk_decimal) nm = Inr nn \<Longrightarrow>
     sealed (normalize_mapping (normalize_mapping rk_decimal)) (map (\<lambda>(k, d). (k, raw_dict d))) nn"
  "rmap (normalize_mapping rk_decimal) ms = Inr ns \<Longrightarrow> sealed (rmap (normalize_mapping rk_decimal)) (map raw_dict) ns"
  "normalize_labels ls = Inr us \<Longrightarrow> sealed normalize_labels (\<lambda>x. x) us"
  unfolding sealed_def by (erule sealed_simps)+

lemma sealed_options:
  "ropt rk_decimal v = Inr d \<Longrightarrow> sealed (ropt rk_decimal) (map_option PyDecimal) d"
  "ropt (rk_positive allow) v = Inr d \<Longrightarrow> sealed (ropt (rk_positive allow)) (map_option PyDecimal) d"
  "ropt fraction_limit v = Inr d \<Longrightarrow> sealed (ropt fraction_limit) (map_option PyDecimal) d"
  "ropt normalize_labels ls = Inr us \<Longrightarrow> sealed (ropt normalize_labels) (\<lambda>x. x) us"
  "ropt normalize_actions ls = Inr us \<Longrightarrow> sealed (ropt normalize_actions) (\<lambda>x. x) us"
  "ropt scenario_digest_value t = Inr u \<Longrightarrow> sealed (ropt scenario_digest_value) (\<lambda>x. x) u"
  "ropt make_liquidation_scope s = Inr s' \<Longrightarrow> sealed (ropt make_liquidation_scope) (\<lambda>x. x) s'"
  "ropt reseal_evidence e = Inr e' \<Longrightarrow> sealed (ropt reseal_evidence) (\<lambda>x. x) e'"
  unfolding sealed_def by (erule ropt_decimal ropt_same, erule sealed_simps)+

lemma sealed_liquidation:
  "seal_liquidation v s t e h = Inr h' \<Longrightarrow> sealed (seal_liquidation v s t e) (\<lambda>x. x) h'"
  by (auto simp: sealed_def seal_liquidation_def split: option.splits)

definition sealed_digest_list :: "(string \<times> string) list option \<Rightarrow> bool" where
  "sealed_digest_list ds \<longleftrightarrow>
     canonical_scenario_digest_mapping ds = Inr ds \<and> ropt normalize_scenario_digests ds = Inr ds"

lemma sealed_digests:
  assumes "ropt normalize_scenario_digests v = Inr ds"
  shows "sealed_digest_list ds"
proof (cases ds)
  case (Some d)
  with assms obtain x where "normalize_scenario_digests x = Inr d" by (cases v) auto
  then show ?thesis using normalize_digests_sealed canonical_digests_id Some by (simp add: sealed_digest_list_def)
qed (simp add: sealed_digest_list_def canonical_scenario_digest_mapping_def)

lemma sealed_time: "ropt rk_utc v = Inr t \<Longrightarrow> sealed (ropt rk_utc) (map_option Moment) t"
  unfolding sealed_def by (erule ropt_again) (simp add: rk_utc_def)

lemma liquidation_headroom_sealed:
  "ropt rk_decimal h0 = Inr h \<Longrightarrow> ropt reseal_evidence e0 = Inr e \<Longrightarrow> seal_liquidation v s t e h = Inr h' \<Longrightarrow>
     ropt rk_decimal (map_option PyDecimal h') = Inr h'"
proof -
  assume h: "ropt rk_decimal h0 = Inr h" and e: "ropt reseal_evidence e0 = Inr e" and s: "seal_liquidation v s t e h = Inr h'"
  show ?thesis
  proof (cases e)
    case None
    then have "h' = h" using s by (simp add: seal_liquidation_def)
    then show ?thesis using sealed_options(1) [OF h] by (simp add: sealed_def del: ropt_Inr)
  next
    case (Some f)
    with e obtain f0 where "reseal_evidence f0 = Inr f" by (cases e0) auto
    then have "\<exists>v. rk_decimal v = Inr (he_headroom f)"
      unfolding reseal_evidence_def make_headroom_evidence_def by (auto split: if_splits)
    moreover have "h' = Some (he_headroom f)" using s Some by (simp add: seal_liquidation_def)
    ultimately show ?thesis by (auto dest: rk_decimal_again)
  qed
qed

lemma option_text: "strip ''OPTION'' = ''OPTION''" "upper ''OPTION'' = ''OPTION''"
  by code_simp+

lemma make_intent_again: "make_intent r = Inr i \<Longrightarrow> make_intent (raw_intent i) = Inr i"
  unfolding make_intent_def Let_def rbind_Inr_iff require_Inr_iff
  apply (elim exE conjE)
  apply (drule sealed_parts)+
  apply (simp only: sum.inject)
  apply (hypsubst)
  apply (simp add: make_intent_def raw_intent_def sealed_def strip_upper option_text)
  done

lemma make_policy_again:
  assumes "make_policy r = Inr p"
  shows "reseal_policy p = Inr p"
  using assms unfolding make_policy_def rbind_Inr_iff require_Inr_iff
  apply (elim exE conjE)
  apply (drule sealed_parts sealed_options sealed_digests)+
  apply (simp only: sum.inject)
  apply (hypsubst)
  apply (simp add: reseal_policy_def raw_policy_def make_policy_def sealed_def sealed_digest_list_def del: ropt_Inr rbind_Inr_iff not_None_eq)
  done

lemma make_context_again:
  assumes "make_context r = Inr c"
  shows "make_context (raw_context c) = Inr c"
  using assms unfolding make_context_def rbind_Inr_iff require_Inr_iff
  apply (elim exE conjE)
  apply (frule (2) liquidation_headroom_sealed)
  apply (drule sealed_parts sealed_options sealed_liquidation sealed_time)+
  apply (simp only: sum.inject)
  apply (hypsubst)
  apply (simp add: raw_context_def make_context_def sealed_def del: ropt_Inr rbind_Inr_iff)
  done

section \<open>The contract of a sealing constructor\<close>

text \<open>A constructor \<open>make\<close> whose results, presented again by \<open>raw\<close>, it accepts as they are.\<close>

locale sealing =
  fixes make :: "'r \<Rightarrow> 'a result" and raw :: "'a \<Rightarrow> 'r"
  assumes make_stable: "make r = Inr x \<Longrightarrow> make (raw x) = Inr x"
begin

lemma created_iff: "(\<exists>r. make r = Inr x) \<longleftrightarrow> make (raw x) = Inr x"
  using make_stable by blast

lemma reseal_once: "rbind (make r) (\<lambda>x. make (raw x)) = make r"
  by (cases "make r") (auto dest: make_stable)

lemma resealing_continues: "make r = Inr x \<Longrightarrow> rbind (make (raw x)) f = f x"
  by (auto dest: make_stable)

end

interpretation intent_sealing: sealing make_intent raw_intent
  by unfold_locales (rule make_intent_again)

interpretation context_sealing: sealing make_context raw_context
  by unfold_locales (rule make_context_again)

interpretation scope_sealing: sealing make_liquidation_scope "\<lambda>s. s"
  by unfold_locales (rule make_scope_again)

interpretation evidence_sealing: sealing reseal_evidence "\<lambda>e. e"
  by unfold_locales (rule reseal_evidence_twice)

end
