(* ===== verification/Risk_Exposure.thy ===== *)
theory Risk_Exposure
  imports Risk_Evaluation Risk_Sealing
begin

text \<open>
  The exposure of a book in exact arithmetic, and that the measures of the risk evaluation compute it: positions with
  reservations before and after the intent, gross and net notional, leverage, and the loss in a scenario.
\<close>

section \<open>The reference\<close>

definition moved_by :: "intent \<Rightarrow> rat" where
  "moved_by i = (if in_side i = ''BUY'' then dval (in_quantity i) else - dval (in_quantity i))"

definition held_before :: "sealed_context \<Rightarrow> string \<Rightarrow> rat" where
  "held_before c s = dval (dget (cx_positions c) s) + dval (dget (cx_reserved c) s)"

definition held_after :: "intent \<Rightarrow> sealed_context \<Rightarrow> string \<Rightarrow> rat" where
  "held_after i c s = held_before c s + (if s = in_symbol i then moved_by i else 0)"

text \<open>The exposure of one unit: the equivalent of a derivative, the mark of anything else.\<close>

definition unit_exposure :: "intent \<Rightarrow> sealed_context \<Rightarrow> string \<Rightarrow> rat" where
  "unit_exposure i c s =
     (if is_derivative i c s \<and> dict_get (cx_equivalents c) s \<noteq> None then dval (dget (cx_equivalents c) s)
      else dval (dget (cx_marks c) s))"

definition book_symbols :: "intent \<Rightarrow> sealed_context \<Rightarrow> string set" where
  "book_symbols i c = insert (in_symbol i) (set (dict_keys (cx_positions c)) \<union> set (dict_keys (cx_reserved c)))"

definition gross_of :: "intent \<Rightarrow> sealed_context \<Rightarrow> (string \<Rightarrow> rat) \<Rightarrow> rat" where
  "gross_of i c f = (\<Sum>s\<in>book_symbols i c. \<bar>f s * unit_exposure i c s\<bar>)"

definition net_of :: "intent \<Rightarrow> sealed_context \<Rightarrow> (string \<Rightarrow> rat) \<Rightarrow> rat" where
  "net_of i c f = \<bar>\<Sum>s\<in>book_symbols i c. f s * unit_exposure i c s\<bar>"

definition loss_of :: "intent \<Rightarrow> sealed_context \<Rightarrow> (string \<Rightarrow> rat) \<Rightarrow> (string, decimal) dict \<Rightarrow> rat" where
  "loss_of i c f scenario = - (\<Sum>s\<in>book_symbols i c. f s * unit_exposure i c s * dval (dget scenario s))"

definition worst_loss :: "intent \<Rightarrow> sealed_context \<Rightarrow> (string \<Rightarrow> rat) \<Rightarrow> rat" where
  "worst_loss i c f = foldl max 0 (map (loss_of i c f) (cx_stress c))"

section \<open>Arithmetic\<close>

interpretation risk_exact: exact_ops dval in_envelope rk_add "\<lambda>a b. rk (exact_subtract a b)" rk_sum rk_product
  by unfold_locales (auto simp: rk_add_def rk_sum_def rk_product_def dest: exact_simps)

lemma rk_ops:
  "rk_add a b = Inr x \<Longrightarrow> in_envelope x \<and> dval x = dval a + dval b"
  "rk_negate a = Inr x \<Longrightarrow> in_envelope x \<and> dval x = - dval a"
  "rk_abs a = Inr x \<Longrightarrow> in_envelope x \<and> dval x = \<bar>dval a\<bar>"
  "rk_product ds = Inr x \<Longrightarrow> in_envelope x \<and> dval x = prod_list (map dval ds)"
  "rk_sum ds = Inr x \<Longrightarrow> in_envelope x \<and> dval x = sum_list (map dval ds)"
  using risk_exact.add_val risk_exact.sub_val [of dzero a x] risk_exact.product_val risk_exact.total_val
  by (auto simp: rk_negate_def rk_abs_def dest: exact_simps)

lemma rk_sum_of_Inr:
  assumes "rk_sum_of f xs = Inr v"
  shows "\<exists>vs. rmap f xs = Inr vs \<and> in_envelope v \<and> dval v = sum_list (map dval vs)"
proof -
  let ?step = "\<lambda>acc x. rbind (f x) (\<lambda>v. rk (rbind (as_fraction v) (\<lambda>q.
         rbind (validate_fraction_intermediate (acc + q)) (\<lambda>_. Inr (acc + q)))))"
  have fold: "rfold ?step s xs = Inr r \<Longrightarrow> \<exists>vs. rmap f xs = Inr vs \<and> r = s + sum_list (map dval vs)" for s r
    by (induction xs arbitrary: s) (force simp: add.assoc)+
  from assms obtain r where "rfold ?step 0 xs = Inr r" and r: "terminating_decimal r = Inr v"
    by (auto simp: rk_sum_of_def)
  with fold [of 0 r] terminating_decimal_sound [OF r] show ?thesis by auto
qed

lemma exact_risk_ratio_Inr: "exact_risk_ratio a b = Inr q \<Longrightarrow> q = dval a / dval b \<and> 0 < dval b"
  by (auto simp: exact_risk_ratio_def split: if_splits)

lemma ratio_report_Inr:
  assumes "ratio_report q = Inr d"
  shows "q \<le> dval d \<and> dval d < q + 1 / 10 ^ 18"
proof -
  have r: "round_fraction_to_quantum q (Decimal False 1 (- 18)) CEILING = Inr d"
    using assms by (auto simp: ratio_report_def)
  have quantum: "dval (Decimal False 1 (- 18)) = 1 / 10 ^ 18" by code_simp
  note v = round_fraction_Inr(2) [OF r, unfolded quantum round_units_ceiling]
  obtain k :: rat where "dval d = 1 / 10 ^ 18 * k" "k < q / (1 / 10 ^ 18) + 1" "q / (1 / 10 ^ 18) \<le> k"
  proof
    show "dval d = 1 / 10 ^ 18 * of_int \<lceil>q / (1 / 10 ^ 18)\<rceil>" by (rule v)
    show "of_int \<lceil>q / (1 / 10 ^ 18)\<rceil> < q / (1 / 10 ^ 18) + 1" "q / (1 / 10 ^ 18) \<le> of_int \<lceil>q / (1 / 10 ^ 18)\<rceil>"
      using ceiling_correct [of "q / (1 / 10 ^ 18)"] by linarith+
  qed
  then show ?thesis by (simp add: field_simps)
qed

lemma dval_dmax [simp]: "dval (dmax a b) = max (dval a) (dval b)"
  by (auto simp: dmax_def)

lemma dmax_list_upper: "d \<in> set ds \<Longrightarrow> dval d \<le> dval (dmax_list ds)"
proof -
  have f: "dval (foldl dmax a ds) = foldl max (dval a) (map dval ds)" for a ds by (induction ds arbitrary: a) simp_all
  have g: "a \<le> foldl max a xs" "x \<in> set xs \<Longrightarrow> x \<le> foldl max a xs" for a x and xs :: "rat list"
  proof (induction xs arbitrary: a)
    case (Cons y ys)
    { case 1 show ?case using Cons(1) [of "max a y"] by simp }
    { case 2 then show ?case using Cons(1) [of "max a y"] Cons(2) [of "max a y"] by auto }
  qed simp_all
  show "d \<in> set ds \<Longrightarrow> dval d \<le> dval (dmax_list ds)"
    by (cases ds) (auto simp: dmax_list_def f intro: g)
qed

section \<open>Positions\<close>

lemma dget_set [simp]: "dget (dict_set d k v) s = (if s = k then v else dget d s)"
  by (simp add: dget_def)

lemma dval_dzero [simp]: "dval dzero = 0"
  by simp

lemma add_delta_Inr:
  assumes "add_delta d (s, x) = Inr d'" and "dict_ok d"
  shows "dict_ok d'" and "set (dict_keys d') = insert s (set (dict_keys d))"
    and "dval (dget d' t) = dval (dget d t) + (if t = s then dval x else 0)"
proof -
  obtain v where v: "rk_add (dget d s) x = Inr v" and d: "d' = dict_set d s v" using assms(1) by (auto simp: add_delta_def)
  show "dict_ok d'" "set (dict_keys d') = insert s (set (dict_keys d))" using assms(2) by (simp_all add: d)
  show "dval (dget d' t) = dval (dget d t) + (if t = s then dval x else 0)" using rk_ops(1) [OF v] by (simp add: d)
qed

lemma dget_absent: "k \<notin> set (dict_keys d) \<Longrightarrow> dget d k = dzero"
  using dict_get_None_iff [of d k] by (simp add: dget_def)

lemma add_deltas:
  assumes "rfold add_delta d xs = Inr d'" and "dict_ok d" and "dict_ok xs"
  shows "dict_ok d' \<and> set (dict_keys d') = set (dict_keys d) \<union> set (dict_keys xs)
    \<and> dval (dget d' t) = dval (dget d t) + dval (dget xs t)"
  using assms
proof (induction xs arbitrary: d)
  case Nil
  then show ?case by (simp add: dget_def)
next
  case (Cons p xs)
  obtain s x where p: "p = (s, x)" by force
  from Cons.prems(1) obtain d1 where d1: "add_delta d (s, x) = Inr d1" and rest: "rfold add_delta d1 xs = Inr d'"
    by (auto simp: p)
  note a = add_delta_Inr [OF d1 Cons.prems(2)]
  have xs: "dict_ok xs" "s \<notin> set (dict_keys xs)" using Cons.prems(3) by (auto simp: p dict_ok_def)
  note ih = Cons.IH [OF rest a(1) xs(1)]
  have "dget (p # xs) t = (if t = s then x else dget xs t)" by (simp add: p dget_def)
  moreover have "dval (dget xs s) = 0" by (simp add: dget_absent [OF xs(2)])
  ultimately have "dval (dget d1 t) + dval (dget xs t) = dval (dget d t) + dval (dget (p # xs) t)" using a(3) [of t] by simp
  with ih a(2) show ?case by (simp add: p)
qed

text \<open>A sum over a dictionary with distinct keys.\<close>

lemma sum_dict:
  assumes "dict_ok d"
  shows "sum_list (map (\<lambda>(s, v). h s (dval v)) d) = (\<Sum>s\<in>set (dict_keys d). h s (dval (dget d s)))"
proof -
  have "sum_list (map (\<lambda>(s, v). h s (dval v)) d) = sum_list (map (\<lambda>s. h s (dval (dget d s))) (dict_keys d))"
    unfolding map_map
  proof (rule arg_cong [where f = sum_list], rule map_cong [OF refl])
    fix p assume "p \<in> set d"
    then show "(\<lambda>(s, v). h s (dval v)) p = ((\<lambda>s. h s (dval (dget d s))) \<circ> fst) p"
      using assms dict_mem_get [of d "fst p" "snd p"] by (simp add: dget_def case_prod_beta)
  qed
  also have "\<dots> = (\<Sum>s\<in>set (dict_keys d). h s (dval (dget d s)))"
    using assms by (intro sum_list_distinct_conv_sum_set) (simp add: dict_ok_def)
  finally show ?thesis .
qed

section \<open>Notionals\<close>

lemma exposure_per_unit_Inr: "exposure_per_unit i c s = Inr u \<Longrightarrow> dval u = unit_exposure i c s \<and> dict_get (cx_marks c) s \<noteq> None"
  by (auto simp: exposure_per_unit_def unit_exposure_def dget_def split: option.splits)

lemma position_notionals_Inr:
  assumes "position_notionals i c d = Inr n"
  shows "map (\<lambda>(s, v). (s, dval v)) n = map (\<lambda>(s, q). (s, dval q * unit_exposure i c s)) (filter (\<lambda>(s, q). dval q \<noteq> 0) d)"
proof -
  have "rmap (\<lambda>(s, qty). rbind (exposure_per_unit i c s) (\<lambda>unit. rbind (rk_product [qty, unit]) (\<lambda>n. Inr (s, n)))) xs = Inr n \<Longrightarrow>
      map (\<lambda>(s, v). (s, dval v)) n = map (\<lambda>(s, q). (s, dval q * unit_exposure i c s)) xs" for xs n
  proof (induction xs arbitrary: n)
    case (Cons p xs)
    then show ?case by (cases p) (auto dest!: exposure_per_unit_Inr rk_ops(4))
  qed simp
  with assms show ?thesis by (simp add: position_notionals_def)
qed

lemma notional_keys:
  assumes "position_notionals i c d = Inr n"
  shows "dict_keys n = dict_keys (filter (\<lambda>(s, q). dval q \<noteq> 0) d)"
  using arg_cong [OF position_notionals_Inr [OF assms], of "map fst"] by (simp add: comp_def case_prod_beta)

lemma notional_key_set:
  assumes "position_notionals i c d = Inr n" and "dict_ok d"
  shows "s \<in> set (dict_keys n) \<longleftrightarrow> dval (dget d s) \<noteq> 0"
proof
  assume "s \<in> set (dict_keys n)"
  then obtain q where "(s, q) \<in> set d" "dval q \<noteq> 0" using notional_keys [OF assms(1)] by auto
  then show "dval (dget d s) \<noteq> 0" using dict_mem_get [OF assms(2)] by (simp add: dget_def)
next
  assume nz: "dval (dget d s) \<noteq> 0"
  then obtain q where "dict_get d s = Some q" by (cases "dict_get d s") (auto simp: dget_def)
  then have "(s, q) \<in> set d" "dval q \<noteq> 0" using nz dict_get_mem [of d s q] by (auto simp: dget_def)
  then show "s \<in> set (dict_keys n)" using notional_keys [OF assms(1)] by force
qed

text \<open>Any sum over the notionals is a sum over all symbols, where the flat ones contribute nothing.\<close>

lemma notional_sum:
  fixes h :: "string \<Rightarrow> rat \<Rightarrow> rat"
  assumes n: "position_notionals i c d = Inr n" and d: "dict_ok d" and h: "\<And>s. h s 0 = 0"
    and S: "finite S" "set (dict_keys d) \<subseteq> S"
  shows "sum_list (map (\<lambda>(s, v). h s (dval v)) n) = (\<Sum>s\<in>S. h s (dval (dget d s) * unit_exposure i c s))"
proof -
  let ?g = "\<lambda>s q. h s (q * unit_exposure i c s)"
  have "sum_list (map (\<lambda>(s, v). h s (dval v)) n) = sum_list (map (\<lambda>(s, v). h s v) (map (\<lambda>(s, v). (s, dval v)) n))"
    by (simp add: comp_def case_prod_unfold)
  also have "\<dots> = sum_list (map (\<lambda>(s, q). ?g s (dval q)) (filter (\<lambda>(s, q). dval q \<noteq> 0) d))"
    unfolding position_notionals_Inr [OF n] by (simp add: comp_def case_prod_unfold)
  also have "\<dots> = sum_list (map (\<lambda>(s, q). ?g s (dval q)) d)"
    by (rule sum_list_map_filter) (auto simp: h)
  also have "\<dots> = (\<Sum>s\<in>set (dict_keys d). ?g s (dval (dget d s)))" by (rule sum_dict [OF d])
  also have "\<dots> = (\<Sum>s\<in>S. ?g s (dval (dget d s)))"
    using S by (intro sum.mono_neutral_left) (auto simp: h dget_absent)
  finally show ?thesis .
qed

lemma gross_notional_Inr:
  assumes "gross_notional n = Inr g"
  shows "in_envelope g \<and> dval g = sum_list (map (\<lambda>(s, v). \<bar>dval v\<bar>) n)"
proof -
  obtain vs where vs: "rmap rk_abs (dict_values n) = Inr vs" "in_envelope g" "dval g = sum_list (map dval vs)"
    using rk_sum_of_Inr [OF assms [unfolded gross_notional_def]] by blast
  have "rmap rk_abs (dict_values m) = Inr vs \<Longrightarrow> map dval vs = map (\<lambda>(s, v). \<bar>dval v\<bar>) m" for m :: "(string, decimal) dict" and vs
    by (induction m arbitrary: vs) (auto dest!: rk_ops(3))
  with vs show ?thesis by simp
qed

lemma net_notional_Inr:
  assumes "net_notional n = Inr g"
  shows "dval g = \<bar>sum_list (map (\<lambda>(s, v). dval v) n)\<bar>"
proof -
  obtain t where "rk_sum (dict_values n) = Inr t" "rk_abs t = Inr g" using assms by (auto simp: net_notional_def)
  from rk_ops(5) [OF this(1)] rk_ops(3) [OF this(2)] show ?thesis by (simp add: comp_def case_prod_unfold)
qed

lemma scenario_loss_Inr:
  assumes "scenario_loss n scenario = Inr l"
  shows "dval l = - sum_list (map (\<lambda>(s, v). dval v * dval (dget scenario s)) n)"
    and "\<And>s. s \<in> set (dict_keys n) \<Longrightarrow> dict_get scenario s \<noteq> None"
proof -
  let ?f = "\<lambda>(s, notional). rbind (dict_lookup scenario s) (\<lambda>shock. rk_product [notional, shock])"
  obtain p where p: "scenario_pnl n scenario = Inr p" and l: "rk_negate p = Inr l" using assms by (auto simp: scenario_loss_def)
  obtain vs where vs: "rmap ?f n = Inr vs" "dval p = sum_list (map dval vs)"
    using rk_sum_of_Inr [OF p [unfolded scenario_pnl_def]] by blast
  have r: "rmap ?f m = Inr vs \<Longrightarrow> map dval vs = map (\<lambda>(s, v). dval v * dval (dget scenario s)) m
      \<and> (\<forall>s \<in> set (dict_keys m). dict_get scenario s \<noteq> None)" for m vs
  proof (induction m arbitrary: vs)
    case (Cons q m)
    then show ?case by (cases q) (auto simp: dget_def dest!: rk_ops(4))
  qed simp
  from r [OF vs(1)] vs(2) rk_ops(2) [OF l]
  show "dval l = - sum_list (map (\<lambda>(s, v). dval v * dval (dget scenario s)) n)"
    "\<And>s. s \<in> set (dict_keys n) \<Longrightarrow> dict_get scenario s \<noteq> None" by auto
qed

section \<open>The measures of exposure\<close>

definition sealed_book :: "intent \<Rightarrow> sealed_context \<Rightarrow> bool" where
  "sealed_book i c \<longleftrightarrow> in_side i \<in> {''BUY'', ''SELL''} \<and> dict_ok (cx_positions c) \<and> dict_ok (cx_reserved c)"

lemma signed_quantity_Inr: "signed_quantity i = Inr q \<Longrightarrow> dval q = moved_by i"
  by (auto simp: signed_quantity_def moved_by_def dest: rk_ops split: if_splits)

lemma measured_positions:
  assumes "sealed_book i c" and "rfold add_delta (cx_positions c) (cx_reserved c) = Inr base"
    and "add_delta base (in_symbol i, signed) = Inr positions" and "signed_quantity i = Inr signed"
  shows "dict_ok base" "dval (dget base s) = held_before c s" "set (dict_keys base) \<subseteq> book_symbols i c"
    "dict_ok positions" "dval (dget positions s) = held_after i c s" "set (dict_keys positions) = book_symbols i c"
proof -
  have ok: "dict_ok (cx_positions c)" "dict_ok (cx_reserved c)" using assms(1) by (simp_all add: sealed_book_def)
  note b = add_deltas [OF assms(2) ok]
  note p = add_delta_Inr [OF assms(3), OF b [THEN conjunct1]]
  show "dict_ok base" "dict_ok positions" using b p(1) by simp_all
  show before: "dval (dget base s) = held_before c s" for s
    using add_deltas [OF assms(2) ok, of s] by (simp add: held_before_def)
  show "set (dict_keys base) \<subseteq> book_symbols i c" "set (dict_keys positions) = book_symbols i c"
    using b p(2) by (auto simp: book_symbols_def)
  show "dval (dget positions s) = held_after i c s"
    using p(3) [of s] before [of s] signed_quantity_Inr [OF assms(4)] by (simp add: held_after_def)
qed

lemma finite_book [simp]: "finite (book_symbols i c)"
  by (simp add: book_symbols_def)

text \<open>The notionals of a book that holds \<open>f\<close>: they are of the symbols with a position, and any sum over them is the
  sum over all symbols of the book.\<close>

definition measures :: "intent \<Rightarrow> sealed_context \<Rightarrow> (string \<Rightarrow> rat) \<Rightarrow> (string, decimal) dict \<Rightarrow> bool" where
  "measures i c f n \<longleftrightarrow> (\<forall>s. s \<in> set (dict_keys n) \<longleftrightarrow> f s \<noteq> 0)
     \<and> (\<forall>h :: string \<Rightarrow> rat \<Rightarrow> rat. (\<forall>s. h s 0 = 0) \<longrightarrow>
          sum_list (map (\<lambda>(s, v). h s (dval v)) n) = (\<Sum>s\<in>book_symbols i c. h s (f s * unit_exposure i c s)))"

lemma measures_keys: "measures i c f n \<Longrightarrow> s \<in> set (dict_keys n) \<longleftrightarrow> f s \<noteq> 0"
  unfolding measures_def by blast

lemma measures_sum:
  fixes h :: "string \<Rightarrow> rat \<Rightarrow> rat"
  shows "measures i c f n \<Longrightarrow> (\<And>s. h s 0 = 0) \<Longrightarrow>
    sum_list (map (\<lambda>(s, v). h s (dval v)) n) = (\<Sum>s\<in>book_symbols i c. h s (f s * unit_exposure i c s))"
  unfolding measures_def by blast

lemma measures_book:
  assumes n: "position_notionals i c d = Inr n" and d: "dict_ok d" and keys: "set (dict_keys d) \<subseteq> book_symbols i c"
    and f: "\<And>s. dval (dget d s) = f s"
  shows "measures i c f n"
  using notional_sum [OF n d _ finite_book keys] notional_key_set [OF n d] by (simp add: measures_def f)

lemma measures_values:
  assumes m: "measures i c f n"
  shows "gross_notional n = Inr g \<Longrightarrow> dval g = gross_of i c f"
    "net_notional n = Inr g \<Longrightarrow> dval g = net_of i c f"
    "scenario_loss n scenario = Inr g \<Longrightarrow> dval g = loss_of i c f scenario"
  using measures_sum [OF m, of "\<lambda>s v. \<bar>v\<bar>"] measures_sum [OF m, of "\<lambda>s v. v"]
    measures_sum [OF m, of "\<lambda>s v. v * dval (dget scenario s)"]
  by (simp_all add: gross_of_def net_of_def loss_of_def gross_notional_Inr net_notional_Inr scenario_loss_Inr(1))

lemma single_notional_Inr:
  assumes "single_notional i c resulting = Inr v"
  shows "\<bar>dval resulting * unit_exposure i c (in_symbol i)\<bar> \<le> dval v"
    "dval (in_quantity i) * dval (in_price i) \<le> dval v"
    "\<bar>dval (in_quantity i) * unit_exposure i c (in_symbol i)\<bar> \<le> dval v"
  using assms
  by (auto simp: single_notional_def dest!: exposure_per_unit_Inr rk_ops(3,4))

lemma measure_exposure_correct:
  assumes "measure_exposure i c = Inr e" and book: "sealed_book i c"
  shows "dval (ex_signed e) = moved_by i" "ex_current e = dget (cx_positions c) (in_symbol i)"
    "dval (ex_base e) = held_before c (in_symbol i)" "dval (ex_resulting e) = held_after i c (in_symbol i)"
    "dict_ok (ex_positions e)" "dval (dget (ex_positions e) s) = held_after i c s"
    "set (dict_keys (ex_positions e)) = book_symbols i c"
    "measures i c (held_before c) (ex_base_notionals e)" "measures i c (held_after i c) (ex_notionals e)"
    "dval (ex_base_gross e) = gross_of i c (held_before c)" "dval (ex_base_net e) = net_of i c (held_before c)"
    "dval (ex_gross e) = gross_of i c (held_after i c)" "dval (ex_net e) = net_of i c (held_after i c)"
    "0 < dval (cx_equity c)" "ex_gross_ratio e = gross_of i c (held_after i c) / dval (cx_equity c)"
    "ex_net_ratio e = net_of i c (held_after i c) / dval (cx_equity c)"
    "ratio_report (ex_gross_ratio e) = Inr (ex_gross_leverage e)" "ratio_report (ex_net_ratio e) = Inr (ex_net_leverage e)"
    "single_notional i c (ex_resulting e) = Inr (ex_single e)"
    "held_after i c s \<noteq> 0 \<Longrightarrow> dict_get (cx_marks c) s \<noteq> None"
proof -
  obtain signed base resulting base_positions positions base_notionals notionals base_gross base_net gross net
      gross_ratio net_ratio gross_leverage net_leverage single where
    sq: "signed_quantity i = Inr signed"
    and ba: "rk_add (dget (cx_positions c) (in_symbol i)) (dget (cx_reserved c) (in_symbol i)) = Inr base"
    and re: "rk_add base signed = Inr resulting"
    and bp: "rfold add_delta (cx_positions c) (cx_reserved c) = Inr base_positions"
    and po: "add_delta base_positions (in_symbol i, signed) = Inr positions"
    and marks: "list_all (\<lambda>(s, qty). dval qty \<noteq> 0 \<longrightarrow> dict_get (cx_marks c) s \<noteq> None) positions"
    and bn: "position_notionals i c base_positions = Inr base_notionals"
    and no: "position_notionals i c positions = Inr notionals"
    and bg: "gross_notional base_notionals = Inr base_gross" and bt: "net_notional base_notionals = Inr base_net"
    and gr: "gross_notional notionals = Inr gross" and ne: "net_notional notionals = Inr net"
    and gq: "exact_risk_ratio gross (cx_equity c) = Inr gross_ratio"
    and nq: "exact_risk_ratio net (cx_equity c) = Inr net_ratio"
    and gl: "ratio_report gross_ratio = Inr gross_leverage" and nl: "ratio_report net_ratio = Inr net_leverage"
    and si: "single_notional i c resulting = Inr single"
    and e: "e = \<lparr>ex_signed = signed, ex_current = dget (cx_positions c) (in_symbol i), ex_base = base,
         ex_resulting = resulting, ex_positions = positions,
         ex_base_notionals = base_notionals, ex_notionals = notionals, ex_base_gross = base_gross,
         ex_base_net = base_net, ex_gross = gross, ex_net = net, ex_gross_ratio = gross_ratio,
         ex_net_ratio = net_ratio, ex_gross_leverage = gross_leverage, ex_net_leverage = net_leverage,
         ex_single = single\<rparr>"
    using assms(1) unfolding measure_exposure_def Let_def rbind_Inr_iff require_Inr_iff by (elim exE conjE) (rule that, (assumption | simp)+)
  note pos = measured_positions [OF book bp po sq]
  note before = measures_book [OF bn pos(1,3) pos(2)] and later = measures_book [OF no pos(4) equalityD1 [OF pos(6)] pos(5)]
  note before_values = measures_values [OF before] and later_values = measures_values [OF later]
  show "dval (ex_signed e) = moved_by i" "ex_current e = dget (cx_positions c) (in_symbol i)"
    using signed_quantity_Inr [OF sq] by (simp_all add: e)
  show b: "dval (ex_base e) = held_before c (in_symbol i)" using rk_ops(1) [OF ba] by (simp add: e held_before_def)
  show "dval (ex_resulting e) = held_after i c (in_symbol i)"
    using rk_ops(1) [OF re] b signed_quantity_Inr [OF sq] by (simp add: e held_after_def)
  show "dict_ok (ex_positions e)" "dval (dget (ex_positions e) s) = held_after i c s"
    "set (dict_keys (ex_positions e)) = book_symbols i c" using pos by (simp_all add: e)
  show "measures i c (held_before c) (ex_base_notionals e)" "measures i c (held_after i c) (ex_notionals e)"
    using before later by (simp_all add: e)
  show "dval (ex_base_gross e) = gross_of i c (held_before c)" "dval (ex_base_net e) = net_of i c (held_before c)"
    using before_values(1) [OF bg] before_values(2) [OF bt] by (simp_all add: e)
  show g: "dval (ex_gross e) = gross_of i c (held_after i c)" "dval (ex_net e) = net_of i c (held_after i c)"
    using later_values(1) [OF gr] later_values(2) [OF ne] by (simp_all add: e)
  show "0 < dval (cx_equity c)" "ex_gross_ratio e = gross_of i c (held_after i c) / dval (cx_equity c)"
    "ex_net_ratio e = net_of i c (held_after i c) / dval (cx_equity c)"
    using g exact_risk_ratio_Inr [OF gq] exact_risk_ratio_Inr [OF nq] by (simp_all add: e)
  show "ratio_report (ex_gross_ratio e) = Inr (ex_gross_leverage e)" "ratio_report (ex_net_ratio e) = Inr (ex_net_leverage e)"
    "single_notional i c (ex_resulting e) = Inr (ex_single e)" using gl nl si by (simp_all add: e)
  show "dict_get (cx_marks c) s \<noteq> None" if "held_after i c s \<noteq> 0"
  proof -
    have "dval (dget positions s) \<noteq> 0" using that pos(5) by simp
    then obtain q where q: "dict_get positions s = Some q" "dval q \<noteq> 0" by (cases "dict_get positions s") (auto simp: dget_def)
    then show ?thesis using marks dict_get_mem [OF q(1)] by (auto simp: list_all_iff)
  qed
qed

end
