(* ===== verification/Risk_Decision.thy ===== *)
theory Risk_Decision
  imports Risk_Evaluation
begin

text \<open>
  The decisions of \<open>mvp/autotrade_mvp/risk.py\<close>: the fingerprints of inputs and decisions, \<open>evaluate_risk\<close>,
  \<open>bind_risk_decision\<close>, \<open>validate_bound_risk_decision\<close> and \<open>evaluate_bound_risk\<close>.  \<open>sha256\<close> stands for the hash of a
  text as hexadecimal digits and \<open>read\<close> for \<open>datetime.fromisoformat\<close>.  The checks of \<open>_validate_risk_decision_shape\<close> are
  what the types of the record say.
\<close>

section \<open>The fingerprint of the inputs\<close>

definition json_decimal :: "decimal \<Rightarrow> json result" where
  "json_decimal d = rbind (risk_text d) (\<lambda>t. Inr (JStr t))"

definition json_opt :: "('a \<Rightarrow> json) \<Rightarrow> 'a option \<Rightarrow> json" where
  "json_opt f v = (case v of None \<Rightarrow> JNull | Some x \<Rightarrow> f x)"

definition json_opt_decimal :: "decimal option \<Rightarrow> json result" where
  "json_opt_decimal v = (case v of None \<Rightarrow> Inr JNull | Some d \<Rightarrow> json_decimal d)"

definition json_fields :: "(string \<times> json result) list \<Rightarrow> json result" where
  "json_fields fs = rbind (rmap (\<lambda>(k, r). rbind r (\<lambda>j. Inr (k, j))) fs) (\<lambda>kvs. Inr (JObj kvs))"

definition json_dict :: "(string, decimal) dict \<Rightarrow> json result" where
  "json_dict d = json_fields (map (\<lambda>(k, v). (k, json_decimal v)) d)"

definition json_texts :: "(string, string) dict \<Rightarrow> json" where
  "json_texts d = JObj (map (\<lambda>(k, v). (k, JStr v)) d)"

definition json_scenarios :: "(string, decimal) dict list \<Rightarrow> json result" where
  "json_scenarios ds = rbind (rmap json_dict ds) (\<lambda>js. Inr (JList js))"

definition json_scope :: "liquidation_scope \<Rightarrow> json" where
  "json_scope s = JObj [(''provider_id'', JStr (ls_provider_id s)), (''account_id'', JStr (ls_account_id s)),
     (''environment'', JStr (ls_environment s)), (''margin_mode'', JStr (ls_margin_mode s)),
     (''risk_tier_version'', JStr (ls_risk_tier_version s))]"

definition json_evidence :: "headroom_evidence \<Rightarrow> json result" where
  "json_evidence e = json_fields [(''headroom'', json_decimal (he_headroom e)),
     (''state_version'', Inr (JInt (he_state_version e))), (''provider_id'', Inr (JStr (ls_provider_id (he_scope e)))),
     (''account_id'', Inr (JStr (ls_account_id (he_scope e)))), (''environment'', Inr (JStr (ls_environment (he_scope e)))),
     (''margin_mode'', Inr (JStr (ls_margin_mode (he_scope e)))),
     (''risk_tier_version'', Inr (JStr (ls_risk_tier_version (he_scope e)))),
     (''observed_at'', Inr (JStr (utc_text (he_observed_at e)))), (''expires_at'', Inr (JStr (utc_text (he_expires_at e)))),
     (''artifact_id'', Inr (JStr (he_artifact_id e))), (''sha256'', Inr (JStr (he_sha256 e)))]"

definition json_intent :: "intent \<Rightarrow> json result" where
  "json_intent i = json_fields [(''symbol'', Inr (JStr (in_symbol i))), (''side'', Inr (JStr (in_side i))),
     (''quantity'', json_decimal (in_quantity i)), (''price'', json_decimal (in_price i)),
     (''expected_state_version'', Inr (JInt (in_expected_version i))), (''reduce_only'', Inr (JBool (in_reduce_only i))),
     (''action'', Inr (JStr (in_action i))), (''instrument_type'', Inr (JStr (in_type i)))]"

definition json_context :: "sealed_context \<Rightarrow> json result" where
  "json_context c = json_fields [(''state_version'', Inr (JInt (cx_state_version c))), (''equity'', json_decimal (cx_equity c)),
     (''positions'', json_dict (cx_positions c)), (''marks'', json_dict (cx_marks c)),
     (''reserved_position_delta'', json_dict (cx_reserved c)), (''daily_pnl'', json_decimal (cx_daily_pnl c)),
     (''drawdown_fraction'', json_decimal (cx_drawdown c)), (''market_data_age_seconds'', json_decimal (cx_data_age c)),
     (''fx_age_seconds'', json_dict (cx_fx_age c)), (''fx_required'', Inr (JBool (cx_fx_required c))),
     (''margin_headroom'', json_decimal (cx_margin c)), (''capability_allowed'', Inr (JBool (cx_capability c))),
     (''borrow_available'', Inr (json_opt JBool (cx_borrow c))), (''stress_scenarios'', json_scenarios (cx_stress c)),
     (''stress_scenario_labels'', Inr (JList (map JStr (cx_stress_labels c)))),
     (''tail_scenarios'', json_scenarios (cx_tail c)), (''liquidation_headroom'', json_opt_decimal (cx_liquidation c)),
     (''liquidation_scope'', Inr (json_opt json_scope (cx_scope c))),
     (''liquidation_headroom_evidence'', case cx_evidence c of None \<Rightarrow> Inr JNull | Some e \<Rightarrow> json_evidence e),
     (''decision_time'', Inr (json_opt (\<lambda>t. JStr (utc_text t)) (cx_time c))),
     (''asset_buckets'', Inr (json_texts (cx_buckets c))), (''venues'', Inr (json_texts (cx_venues c))),
     (''liquidity_capacity'', json_dict (cx_liquidity c)),
     (''factor_loadings'', json_fields (map (\<lambda>(k, d). (k, json_dict d)) (cx_loadings c))),
     (''spread_fraction'', json_dict (cx_spread c)), (''slippage_fraction'', json_dict (cx_slippage c)),
     (''clock_age_seconds'', json_opt_decimal (cx_clock_age c)),
     (''settlement_allowed'', Inr (json_opt JBool (cx_settlement c))),
     (''option_deliverable_verified'', Inr (json_opt JBool (cx_deliverable c))),
     (''option_exercise_cash_required'', json_opt_decimal (cx_exercise_required c)),
     (''option_exercise_cash_available'', json_opt_decimal (cx_exercise_available c)),
     (''futures_delivery_headroom_seconds'', json_dict (cx_delivery c)),
     (''equivalent_exposure_per_unit'', json_dict (cx_equivalents c)), (''instrument_types'', Inr (json_texts (cx_types c)))]"

definition json_policy :: "policy \<Rightarrow> json result" where
  "json_policy p = json_fields [(''max_abs_position'', json_decimal (pl_max_abs_position p)),
     (''max_single_notional'', json_decimal (pl_max_single_notional p)),
     (''max_gross_leverage'', json_decimal (pl_max_gross_leverage p)),
     (''max_net_leverage'', json_decimal (pl_max_net_leverage p)), (''max_daily_loss'', json_decimal (pl_max_daily_loss p)),
     (''max_drawdown_fraction'', json_decimal (pl_max_drawdown p)),
     (''max_data_age_seconds'', json_decimal (pl_max_data_age p)), (''max_fx_age_seconds'', json_decimal (pl_max_fx_age p)),
     (''min_margin_headroom'', json_decimal (pl_min_margin p)), (''max_stress_loss'', json_decimal (pl_max_stress_loss p)),
     (''max_expected_shortfall'', json_opt_decimal (pl_max_shortfall p)),
     (''expected_shortfall_tail_fraction'', json_opt_decimal (pl_tail_fraction p)),
     (''min_liquidation_headroom'', json_opt_decimal (pl_min_liquidation p)),
     (''required_stress_scenario_labels'', Inr (json_opt (\<lambda>ls. JList (map JStr ls)) (pl_stress_labels p))),
     (''required_stress_scenario_digests'',
        Inr (json_opt (\<lambda>ds. JList (map (\<lambda>(l, d). JList [JStr l, JStr d]) ds)) (pl_stress_digests p))),
     (''required_tail_scenario_set_digest'', Inr (json_opt JStr (pl_tail_digest p))),
     (''max_asset_concentration_fraction'', json_opt_decimal (pl_max_asset_concentration p)),
     (''max_venue_concentration_fraction'', json_opt_decimal (pl_max_venue_concentration p)),
     (''max_order_participation_fraction'', json_opt_decimal (pl_max_participation p)),
     (''max_abs_factor_exposure'', json_opt_decimal (pl_max_factor p)),
     (''max_spread_fraction'', json_opt_decimal (pl_max_spread p)),
     (''max_slippage_fraction'', json_opt_decimal (pl_max_slippage p)),
     (''max_clock_age_seconds'', json_opt_decimal (pl_max_clock_age p)),
     (''allowed_actions'', Inr (json_opt (\<lambda>ls. JList (map JStr ls)) (pl_allowed_actions p))),
     (''require_settlement_evidence'', Inr (JBool (pl_require_settlement p))),
     (''require_option_exercise_evidence'', Inr (JBool (pl_require_exercise p))),
     (''min_futures_delivery_headroom_seconds'', json_opt_decimal (pl_min_delivery p))]"

definition RISK_ARITHMETIC_POLICY_ID :: string where
  "RISK_ARITHMETIC_POLICY_ID = ''RISK_EXACT_FRACTION_V1_REPORT_1E-18_CEILING''"

definition risk_input_fingerprint :: "(string \<Rightarrow> string) \<Rightarrow> intent \<Rightarrow> sealed_context \<Rightarrow> policy \<Rightarrow> string result" where
  "risk_input_fingerprint sha256 i c p =
     rbind (json_fields [(''arithmetic_policy_id'', Inr (JStr RISK_ARITHMETIC_POLICY_ID)), (''intent'', json_intent i),
       (''context'', json_context c), (''policy'', json_policy p)]) (\<lambda>payload. Inr (sha256 (json_text payload)))"

section \<open>Evaluation\<close>

record risk_decision =
  rd_admitted :: bool
  rd_resulting :: decimal
  rd_gross_leverage :: decimal
  rd_net_leverage :: decimal
  rd_worst_stress :: decimal
  rd_input_fingerprint :: string
  rd_rules :: "risk_rule list"
  rd_arithmetic :: "string option"
  rd_decision_id :: "string option"
  rd_intent_hash :: "string option"
  rd_state_version :: "int option"
  rd_policy_version :: "int option"
  rd_reservation_version :: "int option"
  rd_requirements :: "(string \<times> decimal) list option"
  rd_capability :: "string option"
  rd_snapshot :: "string option"
  rd_evaluated_at :: "string option"
  rd_valid_until :: "string option"

definition evaluate_risk :: "(string \<Rightarrow> string) \<Rightarrow> evidence_store option \<Rightarrow> intent \<Rightarrow> sealed_context \<Rightarrow> policy
    \<Rightarrow> risk_decision result" where
  "evaluate_risk sha256 store given_intent given_context given_policy =
     rbind (make_intent (raw_intent given_intent)) (\<lambda>i.
     rbind (make_context (raw_context given_context)) (\<lambda>c.
     rbind (reseal_policy given_policy) (\<lambda>p.
     rbind (assess sha256 i c p) (\<lambda>a.
     rbind (risk_rules sha256 store i c p a) (\<lambda>rules.
     rbind (risk_input_fingerprint sha256 i c p) (\<lambda>fingerprint.
       Inr \<lparr>rd_admitted = list_all rr_passed rules, rd_resulting = ex_resulting (as_exposure a),
         rd_gross_leverage = ex_gross_leverage (as_exposure a), rd_net_leverage = ex_net_leverage (as_exposure a),
         rd_worst_stress = sm_worst (as_stress a), rd_input_fingerprint = fingerprint, rd_rules = rules,
         rd_arithmetic = Some RISK_ARITHMETIC_POLICY_ID, rd_decision_id = None, rd_intent_hash = None,
         rd_state_version = None, rd_policy_version = None, rd_reservation_version = None, rd_requirements = None,
         rd_capability = None, rd_snapshot = None, rd_evaluated_at = None, rd_valid_until = None\<rparr>))))))"

section \<open>Binding\<close>

definition binding_text :: "string \<Rightarrow> string result" where
  "binding_text v = (if strip v = [] then Inl ValueError else Inr (strip v))"

definition binding_instant :: "(string \<Rightarrow> instant_text) \<Rightarrow> string \<Rightarrow> int result" where
  "binding_instant read v =
     (if strip v = [] then Inl ValueError
      else read_instant (read (concat (map (\<lambda>c. if c = CHR ''Z'' then ''+00:00'' else [c]) (strip v)))))"

definition json_rule :: "risk_rule \<Rightarrow> json" where
  "json_rule r = JObj [(''rule'', JStr (rr_rule r)), (''passed'', JBool (rr_passed r)), (''observed'', JStr (rr_observed r)),
     (''limit'', JStr (rr_limit r)), (''reason'', JStr (rr_reason r))]"

definition binding_present :: "risk_decision \<Rightarrow> bool list" where
  "binding_present d = [rd_intent_hash d \<noteq> None, rd_state_version d \<noteq> None, rd_policy_version d \<noteq> None,
     rd_reservation_version d \<noteq> None, rd_requirements d \<noteq> None, rd_capability d \<noteq> None, rd_evaluated_at d \<noteq> None,
     rd_valid_until d \<noteq> None]"

definition binding_fields :: "risk_decision \<Rightarrow> (string \<times> json) list result" where
  "binding_fields d =
     rbind (case rd_requirements d of None \<Rightarrow> Inl TypeError | Some r \<Rightarrow> reservation_requirements_payload r) (\<lambda>requirements.
       Inr [(''intent_hash'', json_opt JStr (rd_intent_hash d)), (''state_version'', json_opt JInt (rd_state_version d)),
         (''policy_version'', json_opt JInt (rd_policy_version d)),
         (''reservation_version'', json_opt JInt (rd_reservation_version d)),
         (''reservation_requirements'', json_texts requirements),
         (''capability_snapshot_id'', json_opt JStr (rd_capability d)),
         (''evaluated_at'', json_opt JStr (rd_evaluated_at d)), (''valid_until'', json_opt JStr (rd_valid_until d))])"

text \<open>The \<open>binding\<close> entry of the payload, with the authoritative snapshot where there is one.\<close>

definition binding_entry :: "risk_decision \<Rightarrow> (string \<times> json) list result" where
  "binding_entry d =
     (if list_ex (\<lambda>b. b) (binding_present d) then
        rbind (require (list_all (\<lambda>b. b) (binding_present d)) ValueError) (\<lambda>_.
        rbind (binding_fields d) (\<lambda>fields.
        rbind (case rd_snapshot d of None \<Rightarrow> Inr fields
               | Some s \<Rightarrow> rbind (binding_text s) (\<lambda>t. Inr (fields @ [(''authoritative_risk_snapshot_id'', JStr t)])))
          (\<lambda>binding. Inr [(''binding'', JObj binding)])))
      else rbind (require (rd_snapshot d = None) ValueError) (\<lambda>_. Inr []))"

definition decision_payload :: "risk_decision \<Rightarrow> (string \<times> json) list result" where
  "decision_payload d =
     rbind (json_decimal (rd_resulting d)) (\<lambda>resulting. rbind (json_decimal (rd_gross_leverage d)) (\<lambda>gross.
     rbind (json_decimal (rd_net_leverage d)) (\<lambda>net. rbind (json_decimal (rd_worst_stress d)) (\<lambda>worst.
     rbind (require (case rd_arithmetic d of None \<Rightarrow> True | Some a \<Rightarrow> a = RISK_ARITHMETIC_POLICY_ID) ValueError) (\<lambda>_.
     rbind (binding_entry d) (\<lambda>binding.
       Inr ([(''admitted'', JBool (rd_admitted d)), (''resulting_position'', resulting), (''gross_leverage'', gross),
           (''net_leverage'', net), (''worst_stress_loss'', worst), (''input_fingerprint'', JStr (rd_input_fingerprint d)),
           (''rules'', JList (map json_rule (rd_rules d)))]
         @ (case rd_arithmetic d of None \<Rightarrow> [] | Some a \<Rightarrow> [(''arithmetic_policy_id'', JStr a)]) @ binding)))))))"

definition risk_decision_fingerprint :: "(string \<Rightarrow> string) \<Rightarrow> risk_decision \<Rightarrow> string result" where
  "risk_decision_fingerprint sha256 d = rbind (decision_payload d) (\<lambda>payload. Inr (sha256 (json_text (JObj payload))))"

record binding =
  bd_intent_hash :: string
  bd_state_version :: int
  bd_policy_version :: int
  bd_reservation_version :: int
  bd_requirements :: "(string, pynum) dict"
  bd_capability :: string
  bd_evaluated_at :: string
  bd_valid_until :: string
  bd_snapshot :: "string option"

definition bind_risk_decision :: "(string \<Rightarrow> string) \<Rightarrow> (string \<Rightarrow> instant_text) \<Rightarrow> risk_decision \<Rightarrow> binding
    \<Rightarrow> risk_decision result" where
  "bind_risk_decision sha256 read d b =
     rbind (require (rd_arithmetic d = Some RISK_ARITHMETIC_POLICY_ID) ValueError) (\<lambda>_.
     rbind (binding_text (bd_intent_hash b)) (\<lambda>intent_hash. rbind (binding_text (bd_capability b)) (\<lambda>capability.
     rbind (opt_text binding_text (bd_snapshot b)) (\<lambda>snapshot.
     rbind (require (0 \<le> bd_state_version b) ValueError) (\<lambda>_. rbind (require (1 \<le> bd_policy_version b) ValueError) (\<lambda>_.
     rbind (require (0 \<le> bd_reservation_version b) ValueError) (\<lambda>_.
     rbind (normalize_reservation_requirements (bd_requirements b)) (\<lambda>requirements.
     rbind (binding_text (bd_evaluated_at b)) (\<lambda>evaluated. rbind (binding_text (bd_valid_until b)) (\<lambda>valid.
     rbind (binding_instant read evaluated) (\<lambda>from_us. rbind (binding_instant read valid) (\<lambda>to_us.
     rbind (require (from_us < to_us) ValueError) (\<lambda>_.
     let bound = d\<lparr>rd_decision_id := None, rd_intent_hash := Some intent_hash, rd_state_version := Some (bd_state_version b),
           rd_policy_version := Some (bd_policy_version b), rd_reservation_version := Some (bd_reservation_version b),
           rd_requirements := Some requirements, rd_capability := Some capability, rd_snapshot := snapshot,
           rd_evaluated_at := Some evaluated, rd_valid_until := Some valid\<rparr> in
     rbind (risk_decision_fingerprint sha256 bound) (\<lambda>digest.
       Inr (bound\<lparr>rd_decision_id := Some (''risk:sha256:'' @ digest)\<rparr>)))))))))))))))"

definition opt_binding_instant :: "(string \<Rightarrow> instant_text) \<Rightarrow> string option \<Rightarrow> int result" where
  "opt_binding_instant read v = (case v of None \<Rightarrow> Inl ValueError | Some t \<Rightarrow> binding_instant read t)"

definition validate_bound_risk_decision :: "(string \<Rightarrow> string) \<Rightarrow> (string \<Rightarrow> instant_text) \<Rightarrow> risk_decision \<Rightarrow> string
    \<Rightarrow> unit result" where
  "validate_bound_risk_decision sha256 read d now =
     rbind (require (rd_decision_id d \<noteq> None) ValueError) (\<lambda>_.
     rbind (require (rd_arithmetic d = Some RISK_ARITHMETIC_POLICY_ID) ValueError) (\<lambda>_.
     rbind (risk_decision_fingerprint sha256 d) (\<lambda>digest.
     rbind (require (rd_decision_id d = Some (''risk:sha256:'' @ digest)) ValueError) (\<lambda>_.
     rbind (binding_instant read now) (\<lambda>current. rbind (opt_binding_instant read (rd_evaluated_at d)) (\<lambda>evaluated.
     rbind (opt_binding_instant read (rd_valid_until d)) (\<lambda>valid.
     rbind (require (evaluated \<le> current) ValueError) (\<lambda>_. require (current < valid) ValueError))))))))"

text \<open>On the bound path no artifact store is consulted.\<close>

definition evaluate_bound_risk :: "(string \<Rightarrow> string) \<Rightarrow> (string \<Rightarrow> instant_text) \<Rightarrow> intent \<Rightarrow> sealed_context \<Rightarrow> policy
    \<Rightarrow> evidence_store option \<Rightarrow> binding \<Rightarrow> risk_decision result" where
  "evaluate_bound_risk sha256 read i c p store b =
     rbind (case store of None \<Rightarrow> Inr () | Some _ \<Rightarrow> Inl ValueError) (\<lambda>_.
     rbind (make_context (raw_context c)) (\<lambda>sealed.
     rbind (normalize_reservation_requirements (bd_requirements b)) (\<lambda>requirements.
     rbind (evaluate_risk sha256 None i sealed p) (\<lambda>d.
       bind_risk_decision sha256 read d
         (b\<lparr>bd_state_version := cx_state_version sealed, bd_requirements := raw_dict requirements\<rparr>)))))"

end
