(* ===== verification/Risk_Samples.thy ===== *)
theory Risk_Samples
  imports Risk_Decision
begin

text \<open>
  One evaluation in full: a book with a long and a reserved position, an order that sells a part of it, and a policy
  with most of its limits configured.  The theorems about evaluations are applied to it.
\<close>

text \<open>Small fractions are within the envelope; the test on literals, and unfolding of \<open>rbind\<close>,
  keep the evaluation of examples fast.\<close>

lemma rat_bounded_small:
  assumes "\<bar>fst (quotient_of q)\<bar> < 10 ^ 40" and "snd (quotient_of q) < 10 ^ 40"
  shows "rat_bounded q"
proof -
  have "(10::int) ^ 40 \<le> 10 ^ MAX_RATIONAL_DIGITS" by (rule power_increasing) (simp_all add: MAX_RATIONAL_DIGITS_def)
  with assms show ?thesis unfolding rat_bounded_def by linarith
qed

lemma validate_fraction_code [code]:
  "validate_fraction_intermediate q =
     (if \<bar>fst (quotient_of q)\<bar> < 10000000000000000000000000000000000000000
         \<and> snd (quotient_of q) < 10000000000000000000000000000000000000000 \<or> rat_bounded q
      then Inr () else Inl ExactDecimalError)"
  using rat_bounded_small [of q] by (auto simp: validate_fraction_eq)

declare rbind_def [code_unfold]

definition sample_hash :: "string \<Rightarrow> string" where
  "sample_hash t = replicate 64 CHR ''0''"

definition sample_intent :: intent where
  "sample_intent = \<lparr>in_symbol = ''AAA'', in_side = ''SELL'', in_quantity = Decimal False 2 0, in_price = Decimal False 1 0,
    in_expected_version = 7, in_reduce_only = False, in_action = ''TRADE'', in_type = ''EQUITY''\<rparr>"

definition sample_policy :: policy where
  "sample_policy = \<lparr>pl_max_abs_position = Decimal False 9 0, pl_max_single_notional = Decimal False 9 0,
    pl_max_gross_leverage = Decimal False 2 0, pl_max_net_leverage = Decimal False 2 0, pl_max_daily_loss = Decimal False 3 0,
    pl_max_drawdown = Decimal False 2 (- 1), pl_max_data_age = Decimal False 5 0, pl_max_fx_age = Decimal False 5 0,
    pl_min_margin = Decimal False 1 0, pl_max_stress_loss = Decimal False 3 0, pl_max_shortfall = Some (Decimal False 3 0),
    pl_tail_fraction = Some (Decimal False 5 (- 1)), pl_min_liquidation = None, pl_stress_labels = None,
    pl_stress_digests = None, pl_tail_digest = Some (''sha256:'' @ replicate 64 CHR ''0''),
    pl_max_asset_concentration = Some (Decimal False 1 0), pl_max_venue_concentration = None,
    pl_max_participation = Some (Decimal False 5 (- 1)), pl_max_factor = Some (Decimal False 9 0), pl_max_spread = None,
    pl_max_slippage = None, pl_max_clock_age = None, pl_allowed_actions = Some [''REDUCE'', ''TRADE''],
    pl_require_settlement = True, pl_require_exercise = False, pl_min_delivery = None\<rparr>"

definition sample_context :: sealed_context where
  "sample_context = \<lparr>cx_state_version = 7, cx_equity = Decimal False 4 0, cx_positions = [(''AAA'', Decimal False 5 0)],
    cx_marks = [(''AAA'', Decimal False 1 0)], cx_reserved = [(''AAA'', Decimal False 1 0)],
    cx_daily_pnl = Decimal True 2 0, cx_drawdown = dzero, cx_data_age = Decimal False 1 0, cx_fx_age = [],
    cx_fx_required = False, cx_margin = Decimal False 5 0, cx_capability = True, cx_borrow = None,
    cx_stress = [[(''AAA'', Decimal True 2 (- 1))]], cx_stress_labels = [],
    cx_tail = [[(''AAA'', Decimal True 3 (- 1))], [(''AAA'', Decimal False 1 (- 1))]], cx_liquidation = None,
    cx_scope = None, cx_evidence = None, cx_time = None, cx_buckets = [(''AAA'', ''US'')], cx_venues = [],
    cx_liquidity = [(''AAA'', Decimal False 8 0)], cx_loadings = [(''AAA'', [(''BETA'', Decimal False 1 0)])],
    cx_spread = [], cx_slippage = [], cx_clock_age = None, cx_settlement = Some True, cx_deliverable = None,
    cx_exercise_required = None, cx_exercise_available = None, cx_delivery = [], cx_equivalents = [],
    cx_types = [(''AAA'', ''EQUITY'')]\<rparr>"

lemma sample_made:
  "make_intent (raw_intent sample_intent) = Inr sample_intent" "make_context (raw_context sample_context) = Inr sample_context"
  "make_policy (raw_policy sample_policy None) = Inr sample_policy" "reseal_policy sample_policy = Inr sample_policy"
  by code_simp+

lemma sample_rules:
  "case_sum (\<lambda>_. False) (list_all rr_passed)
     (rbind (assess sample_hash sample_intent sample_context sample_policy) (\<lambda>a.
        risk_rules sample_hash None sample_intent sample_context sample_policy a))"
  by code_simp

lemma sample_payload:
  "case_sum (\<lambda>_. False) (\<lambda>_. True) (json_intent sample_intent)"
  "case_sum (\<lambda>_. False) (\<lambda>_. True) (json_context sample_context)"
  "case_sum (\<lambda>_. False) (\<lambda>_. True) (json_policy sample_policy)"
  by code_simp+

lemma returns: "case_sum (\<lambda>_. False) P m \<Longrightarrow> \<exists>x. m = Inr x \<and> P x"
  by (cases m) simp_all

lemma sample_admitted:
  obtains d where "evaluate_risk sample_hash None sample_intent sample_context sample_policy = Inr d" and "rd_admitted d"
proof -
  obtain a rules where a: "assess sample_hash sample_intent sample_context sample_policy = Inr a"
    "risk_rules sample_hash None sample_intent sample_context sample_policy a = Inr rules" "list_all rr_passed rules"
    using returns [OF sample_rules] by auto
  obtain ji where ji: "json_intent sample_intent = Inr ji" using returns [OF sample_payload(1)] by blast
  obtain jc where jc: "json_context sample_context = Inr jc" using returns [OF sample_payload(2)] by blast
  obtain jp where jp: "json_policy sample_policy = Inr jp" using returns [OF sample_payload(3)] by blast
  have "\<exists>f. risk_input_fingerprint sample_hash sample_intent sample_context sample_policy = Inr f"
    by (simp add: risk_input_fingerprint_def json_fields_def ji jc jp)
  then obtain f where "risk_input_fingerprint sample_hash sample_intent sample_context sample_policy = Inr f" by blast
  then show thesis using a sample_made that by (simp add: evaluate_risk_def)
qed

end
