(* ===== verification/Risk_Admission.thy ===== *)
theory Risk_Admission
  imports Risk_Exposure Risk_Samples
begin

text \<open>
  What an admission means: theorems about \<open>evaluate_risk\<close> in the exact terms of the book before and after the intent.
\<close>

section \<open>Stress\<close>

lemma foldl_max_upper:
  fixes a :: rat
  shows "a \<le> foldl max a xs" "x \<in> set xs \<Longrightarrow> x \<le> foldl max a xs"
proof (induction xs arbitrary: a)
  case (Cons y ys)
  { case 1 show ?case using Cons(1) [of "max a y"] by simp }
  { case 2 then show ?case using Cons(1) [of "max a y"] Cons(2) [of "max a y"] by auto }
qed simp_all

lemma loss_le_worst: "scenario \<in> set (cx_stress c) \<Longrightarrow> loss_of i c f scenario \<le> worst_loss i c f"
  by (simp add: worst_loss_def foldl_max_upper(2))

lemma stress_fold:
  assumes "rfold (stress_step cmp e) (b, w) scenarios = Inr (b', w')"
    and "measures i c before (ex_base_notionals e)" and "measures i c later (ex_notionals e)"
  shows "dval w' = foldl max (dval w) (map (loss_of i c later) scenarios)
    \<and> (cmp \<longrightarrow> dval b' = foldl max (dval b) (map (loss_of i c before) scenarios))"
  using assms(1)
proof (induction scenarios arbitrary: b w)
  case (Cons scenario scenarios)
  from Cons.prems obtain st where st: "stress_step cmp e (b, w) scenario = Inr st"
    and rest': "rfold (stress_step cmp e) st scenarios = Inr (b', w')" by auto
  from st rest' obtain b1 l where
    b1: "(if cmp then rbind (scenario_loss (ex_base_notionals e) scenario) (\<lambda>l. Inr (dmax b l)) else Inr b) = Inr b1"
    and l: "scenario_loss (ex_notionals e) scenario = Inr l"
    and rest: "rfold (stress_step cmp e) (b1, dmax w l) scenarios = Inr (b', w')"
    unfolding stress_step_def by auto
  have "dval l = loss_of i c later scenario" using measures_values(3) [OF assms(3) l] .
  moreover have "cmp \<longrightarrow> dval b1 = max (dval b) (loss_of i c before scenario)"
    using measures_values(3) [OF assms(2)] b1 by (auto split: if_splits)
  ultimately show ?case using Cons.IH [OF rest] by simp
qed simp

lemma uncovered_Nil:
  "uncovered scenarios symbols = [] \<longleftrightarrow> (\<forall>scenario \<in> set scenarios. \<forall>s \<in> set symbols. dict_get scenario s \<noteq> None)"
  by (auto simp: uncovered_def filter_empty_conv list_ex_iff)

lemma measures_Nil: "measures i c f n \<Longrightarrow> n = [] \<longleftrightarrow> (\<forall>s. f s = 0)"
  using measures_keys [of i c f n] by (cases n) force+

lemma measure_stress_correct:
  assumes "measure_stress c e = Inr m"
    and before: "measures i c before (ex_base_notionals e)" and later: "measures i c later (ex_notionals e)"
  shows "sm_complete m \<longleftrightarrow> (cx_stress c \<noteq> [] \<or> (\<forall>s. later s = 0))
      \<and> (\<forall>scenario \<in> set (cx_stress c). \<forall>s. later s \<noteq> 0 \<longrightarrow> dict_get scenario s \<noteq> None)"
    and "sm_complete m \<Longrightarrow> dval (sm_worst m) = worst_loss i c later"
    and "sm_complete m \<Longrightarrow> sm_comparable m \<Longrightarrow> dval (sm_base_worst m) = worst_loss i c before"
proof -
  let ?n = "ex_notionals e" and ?b = "ex_base_notionals e"
  define complete where "complete \<longleftrightarrow> (cx_stress c \<noteq> [] \<or> dict_keys ?n = []) \<and> uncovered (cx_stress c) (dict_keys ?n) = []"
  define comparable where "comparable \<longleftrightarrow> dict_keys ?n = [] \<or> dict_keys ?b = []
    \<or> cx_stress c \<noteq> [] \<and> uncovered (cx_stress c) (dict_keys ?b) = []"
  obtain bw w where run: "(if complete then rfold (stress_step comparable e) (dzero, dzero) (cx_stress c) else Inr (dzero, dzero)) = Inr (bw, w)"
    and m: "sm_complete m = complete" "sm_comparable m = comparable" "sm_base_worst m = bw" "sm_worst m = w"
    using assms(1) unfolding measure_stress_def Let_def complete_def [symmetric] comparable_def [symmetric]
    by (auto split: prod.splits)
  have keys: "set (dict_keys ?n) = {s. later s \<noteq> 0}" using measures_keys [OF later] by blast
  show "sm_complete m \<longleftrightarrow> (cx_stress c \<noteq> [] \<or> (\<forall>s. later s = 0))
      \<and> (\<forall>scenario \<in> set (cx_stress c). \<forall>s. later s \<noteq> 0 \<longrightarrow> dict_get scenario s \<noteq> None)"
    unfolding m complete_def uncovered_Nil keys map_is_Nil_conv measures_Nil [OF later] by blast
  have "dval w = worst_loss i c later \<and> (comparable \<longrightarrow> dval bw = worst_loss i c before)" if complete
    using stress_fold [OF _ before later, of comparable dzero dzero "cx_stress c" bw w] run that by (simp add: worst_loss_def)
  then show "sm_complete m \<Longrightarrow> dval (sm_worst m) = worst_loss i c later"
    "sm_complete m \<Longrightarrow> sm_comparable m \<Longrightarrow> dval (sm_base_worst m) = worst_loss i c before" by (simp_all add: m)
qed

section \<open>Rules\<close>

definition passes :: "risk_rule result \<Rightarrow> bool" where
  "passes row \<longleftrightarrow> (\<exists>r. row = Inr r \<and> rr_passed r)"

lemma passes_add_rule: "passes (add_rule name passed observed limit reason) \<Longrightarrow> passed = Inr True"
  by (auto simp: passes_def add_rule_def)

lemma passes_rbind: "passes (rbind m f) \<longleftrightarrow> (\<exists>x. m = Inr x \<and> passes (f x))"
  by (auto simp: passes_def)

lemma rules_pass: "rmap (\<lambda>r. r) rows = Inr rules \<Longrightarrow> list_all rr_passed rules \<Longrightarrow> list_all passes rows"
  by (induction rows arbitrary: rules) (auto simp: passes_def)

lemma rule_if_pass: "list_all passes (rule_if v f) \<longleftrightarrow> (\<forall>x. v = Some x \<longrightarrow> passes (f x))"
  by (cases v) (simp_all add: rule_if_def)

lemma ratio_within_True: "ratio_within b q limit ex = Inr True \<Longrightarrow> b \<and> (q \<le> dval limit \<or> ex)"
  by (auto simp: ratio_within_def fraction_le_decimal_def split: if_splits)

section \<open>Admission\<close>

definition within_limits :: "intent \<Rightarrow> sealed_context \<Rightarrow> policy \<Rightarrow> bool" where
  "within_limits i c p \<longleftrightarrow>
     (\<forall>s. \<bar>held_after i c s\<bar> \<le> dval (pl_max_abs_position p))
   \<and> \<bar>held_after i c (in_symbol i) * unit_exposure i c (in_symbol i)\<bar> \<le> dval (pl_max_single_notional p)
   \<and> dval (in_quantity i) * dval (in_price i) \<le> dval (pl_max_single_notional p)
   \<and> gross_of i c (held_after i c) / dval (cx_equity c) \<le> dval (pl_max_gross_leverage p)
   \<and> net_of i c (held_after i c) / dval (cx_equity c) \<le> dval (pl_max_net_leverage p)
   \<and> - dval (cx_daily_pnl c) \<le> dval (pl_max_daily_loss p)
   \<and> dval (cx_drawdown c) \<le> dval (pl_max_drawdown p)
   \<and> dval (pl_min_margin p) \<le> dval (cx_margin c)
   \<and> worst_loss i c (held_after i c) \<le> dval (pl_max_stress_loss p)"

definition strictly_safer :: "intent \<Rightarrow> sealed_context \<Rightarrow> bool" where
  "strictly_safer i c \<longleftrightarrow> in_reduce_only i
   \<and> \<bar>held_after i c (in_symbol i)\<bar> < \<bar>held_before c (in_symbol i)\<bar>
   \<and> 0 \<le> held_before c (in_symbol i) * held_after i c (in_symbol i)
   \<and> gross_of i c (held_after i c) < gross_of i c (held_before c)
   \<and> net_of i c (held_after i c) \<le> net_of i c (held_before c)
   \<and> ((\<forall>s. held_after i c s = 0) \<or> worst_loss i c (held_after i c) \<le> worst_loss i c (held_before c))"

lemma moves_toward_flat_Inr:
  "moves_toward_flat x y = Inr b \<Longrightarrow> b \<Longrightarrow> \<bar>dval y\<bar> < \<bar>dval x\<bar> \<and> 0 \<le> dval x * dval y"
  by (auto simp: moves_toward_flat_def dest!: rk_ops split: if_splits)

text \<open>What is known of an evaluation that returned: the sealed inputs are the given ones, and the assessment.\<close>

lemma evaluate_risk_parts:
  assumes "evaluate_risk sha256 store i c p = Inr d"
    and "make_intent ri = Inr i" and "make_context rc = Inr c" and "make_policy rp = Inr p"
  obtains a rules where "assess sha256 i c p = Inr a" and "risk_rules sha256 store i c p a = Inr rules"
    and "rd_admitted d = list_all rr_passed rules" and "rd_resulting d = ex_resulting (as_exposure a)"
    and "rd_gross_leverage d = ex_gross_leverage (as_exposure a)" and "rd_net_leverage d = ex_net_leverage (as_exposure a)"
    and "rd_worst_stress d = sm_worst (as_stress a)" and "rd_rules d = rules"
  using assms(1) unfolding evaluate_risk_def intent_sealing.resealing_continues [OF assms(2)]
    context_sealing.resealing_continues [OF assms(3)] make_policy_again [OF assms(4)] rbind_simps rbind_Inr_iff
  by (elim exE conjE) (rule that, auto)

lemma sealed_book_made:
  assumes "make_intent ri = Inr i" and "make_context rc = Inr c"
  shows "sealed_book i c"
proof -
  have "in_side i \<in> {''BUY'', ''SELL''}" using assms(1) unfolding make_intent_def Let_def rbind_Inr_iff require_Inr_iff by auto
  moreover have "normalize_mapping rk_decimal (cx_positions rc) = Inr (cx_positions c)
      \<and> normalize_mapping rk_decimal (cx_reserved rc) = Inr (cx_reserved c)"
    using assms(2) unfolding make_context_def rbind_Inr_iff require_Inr_iff
    by (elim exE conjE, simp only: sum.inject, hypsubst) simp
  ultimately show ?thesis by (auto simp: sealed_book_def dest: normalize_mapping_sealed)
qed


lemma position_limit_made:
  assumes "make_policy rp = Inr p"
  shows "0 < dval (pl_max_abs_position p)"
proof -
  have "rk_positive False (pl_max_abs_position rp) = Inr (pl_max_abs_position p)"
    using assms unfolding make_policy_def rbind_Inr_iff require_Inr_iff
    by (elim exE conjE, simp only: sum.inject, hypsubst) simp
  then show ?thesis by (simp add: rk_positive_Inr)
qed

lemma assess_parts:
  assumes "assess sha256 i c p = Inr a"
  shows "measure_exposure i c = Inr (as_exposure a)" "measure_stress c (as_exposure a) = Inr (as_stress a)"
    "moves_toward_flat (ex_base (as_exposure a)) (ex_resulting (as_exposure a)) = Inr (as_reduces a)"
    "as_protective a \<longleftrightarrow> in_reduce_only i \<and> as_reduces a \<and> as_reduces_current a
       \<and> dval (ex_gross (as_exposure a)) < dval (ex_base_gross (as_exposure a))
       \<and> dval (ex_net (as_exposure a)) \<le> dval (ex_base_net (as_exposure a))
       \<and> stress_nonworsening (as_exposure a) (as_stress a) \<and> tail_nonworsening p (as_exposure a) (as_tail a)"
  using assms unfolding assess_def rbind_Inr_iff by (elim exE conjE, simp only: sum.inject, hypsubst, simp)+

lemma protective_is_safer:
  assumes "assess sha256 i c p = Inr a" and "sealed_book i c" and "as_protective a"
  shows "strictly_safer i c"
proof -
  note a = assess_parts [OF assms(1)] and x = measure_exposure_correct [OF assess_parts(1) [OF assms(1)] assms(2)]
  note st = measure_stress_correct [OF a(2) x(8,9)]
  have "stress_nonworsening (as_exposure a) (as_stress a)" and red: "as_reduces a" using a(4) assms(3) by simp_all
  then have "(\<forall>s. held_after i c s = 0) \<or> worst_loss i c (held_after i c) \<le> worst_loss i c (held_before c)"
    using st(2,3) measures_Nil [OF x(9)] by (auto simp: stress_nonworsening_def)
  moreover note moves_toward_flat_Inr [OF a(3) red]
  ultimately show ?thesis using a(4) assms(3) x by (simp add: strictly_safer_def)
qed

text \<open>The greatest position bounds every position.\<close>

lemma greatest_abs_upper:
  assumes "greatest_abs ds = Inr g" and "d \<in> set ds"
  shows "\<bar>dval d\<bar> \<le> dval g"
proof -
  obtain as where as: "rmap rk_abs ds = Inr as" and g: "g = dmax_list as" using assms(1) by (auto simp: greatest_abs_def)
  have "rmap rk_abs xs = Inr ys \<Longrightarrow> d \<in> set xs \<Longrightarrow> \<exists>a \<in> set ys. rk_abs d = Inr a" for xs ys
    by (induction xs arbitrary: ys) auto
  then obtain a where "a \<in> set as" "rk_abs d = Inr a" using as assms(2) by blast
  then show ?thesis using rk_ops(3) [of d a] dmax_list_upper [of a as] g by simp
qed

lemma exposure_rules_hold:
  assumes "list_all passes (exposure_rules c p a)"
  shows "as_protective a \<or> (\<exists>g. greatest_abs (dict_values (ex_positions (as_exposure a))) = Inr g \<and> dval g \<le> dval (pl_max_abs_position p))"
    "as_protective a \<or> dval (ex_single (as_exposure a)) \<le> dval (pl_max_single_notional p)"
    "as_protective a \<or> ex_gross_ratio (as_exposure a) \<le> dval (pl_max_gross_leverage p)"
    "as_protective a \<or> ex_net_ratio (as_exposure a) \<le> dval (pl_max_net_leverage p)"
  using assms unfolding exposure_rules_def Let_def list_all_append list.pred_inject passes_rbind
  by (auto dest!: passes_add_rule ratio_within_True)

lemma loss_rules_hold:
  assumes "list_all passes (loss_rules c p a)"
  shows "as_protective a \<or> - dval (cx_daily_pnl c) \<le> dval (pl_max_daily_loss p)"
    "as_protective a \<or> dval (cx_drawdown c) \<le> dval (pl_max_drawdown p)"
    "as_protective a \<or> dval (pl_min_margin p) \<le> dval (cx_margin c)"
  using assms unfolding loss_rules_def Let_def list_all_append list.pred_inject passes_rbind
  by (auto dest!: passes_add_rule rk_ops(2))

lemma stress_rules_hold:
  assumes "list_all passes (stress_rules c p a)"
  shows "sm_complete (as_stress a)" "as_protective a \<or> dval (sm_worst (as_stress a)) \<le> dval (pl_max_stress_loss p)"
  using assms unfolding stress_rules_def Let_def list_all_append list.pred_inject
  by (auto dest!: passes_add_rule)

lemma all_rules_hold:
  assumes "risk_rules sha256 store i c p a = Inr rules" and "list_all rr_passed rules"
  shows "list_all passes (instrument_rules i c p)" "list_all passes (freshness_rules c p)"
    "list_all passes (exposure_rules c p a)" "list_all passes (execution_rules i c p a)" "list_all passes (loss_rules c p a)"
    "list_all passes (stress_rules c p a)" "list_all passes (tail_rules c p a)"
    "list_all passes (liquidation_rules sha256 store c p a)" "list_all passes (closing_rules i c p a)"
  using rules_pass [OF assms(1) [unfolded risk_rules_def] assms(2)] by simp_all

text \<open>(C3) An admitted intent leaves the book within every limit of the policy -- positions, notional of the
  instrument, gross and net leverage, daily loss, drawdown, margin and worst stress loss, all in exact
  arithmetic over positions and reservations -- or is a reduce-only intent that makes the book strictly
  safer.\<close>

theorem admitted_within_limits_or_safer:
  assumes "make_intent ri = Inr i" and "make_context rc = Inr c" and "make_policy rp = Inr p"
    and "evaluate_risk sha256 store i c p = Inr d" and "rd_admitted d"
  shows "within_limits i c p \<or> strictly_safer i c"
proof -
  obtain a rules where a: "assess sha256 i c p = Inr a" and rules: "risk_rules sha256 store i c p a = Inr rules"
    and adm: "rd_admitted d = list_all rr_passed rules"
    using evaluate_risk_parts [OF assms(4,1-3)] by blast
  note book = sealed_book_made [OF assms(1,2)]
  show ?thesis
  proof (cases "as_protective a")
    case True
    then show ?thesis using protective_is_safer [OF a book] by simp
  next
    case False
    note hold = all_rules_hold [OF rules assms(5) [unfolded adm]]
    note ex = exposure_rules_hold [OF hold(3)] and lo = loss_rules_hold [OF hold(5)] and st = stress_rules_hold [OF hold(6)]
    note x = measure_exposure_correct [OF assess_parts(1) [OF a] book]
    note w = measure_stress_correct [OF assess_parts(2) [OF a] x(8,9)]
    note single = single_notional_Inr [OF x(19)]
    obtain g where g: "greatest_abs (dict_values (ex_positions (as_exposure a))) = Inr g" "dval g \<le> dval (pl_max_abs_position p)"
      using ex(1) False by blast
    have pos: "\<bar>held_after i c s\<bar> \<le> dval (pl_max_abs_position p)" for s
    proof (cases "dict_get (ex_positions (as_exposure a)) s")
      case None
      then have "held_after i c s = 0" using x(6) [of s] by (simp add: dget_def)
      then show ?thesis using position_limit_made [OF assms(3)] by simp
    next
      case (Some q)
      then have "q \<in> set (dict_values (ex_positions (as_exposure a)))" using dict_get_mem by force
      from greatest_abs_upper [OF g(1) this] g(2) x(6) [of s] Some show ?thesis by (simp add: dget_def)
    qed
    have "within_limits i c p"
      unfolding within_limits_def using pos ex lo st w(2) [OF st(1)] False single x by auto
    then show ?thesis by simp
  qed
qed

section \<open>Evidence\<close>

lemma sort_Nil: "sort xs = [] \<longleftrightarrow> xs = []" for xs :: "string list"
  by (metis set_empty set_sort)

lemma exposed_symbols_set: "s \<in> set (exposed_symbols c) \<longleftrightarrow> exposed c s"
proof -
  have "exposed c s \<Longrightarrow> s \<in> set (dict_keys (cx_positions c)) \<union> set (dict_keys (cx_reserved c))"
    using dget_absent [of s "cx_positions c"] dget_absent [of s "cx_reserved c"] by (auto simp: exposed_def)
  then show ?thesis by (auto simp: exposed_symbols_def)
qed

lemma missing_types_Nil: "missing_type_symbols c = [] \<longleftrightarrow> (\<forall>s. exposed c s \<longrightarrow> dict_get (cx_types c) s \<noteq> None)"
  unfolding missing_type_symbols_def sort_Nil filter_empty_conv Ball_def exposed_symbols_set by blast

lemma equivalents_known:
  assumes "missing_equivalent_symbols i c = []" and "is_derivative i c s" and "exposed c s \<or> s = in_symbol i"
  shows "dict_get (cx_equivalents c) s \<noteq> None"
proof -
  have none: "\<not> (dict_get (cx_equivalents c) t = None)" if "t \<in> set (if in_type i \<in> derivative_types
      then List.insert (in_symbol i) (filter (is_derivative i c) (exposed_symbols c)) else filter (is_derivative i c) (exposed_symbols c))" for t
    using assms(1) that unfolding missing_equivalent_symbols_def Let_def sort_Nil filter_empty_conv by blast
  show ?thesis
  proof (cases "exposed c s")
    case True
    then have "s \<in> set (filter (is_derivative i c) (exposed_symbols c))" using assms(2) exposed_symbols_set by simp
    then show ?thesis by (intro none) (simp split: if_splits)
  next
    case False
    with assms(2,3) have "in_type i \<in> derivative_types" "s = in_symbol i" by (auto simp: is_derivative_def authoritative_type_def)
    then show ?thesis by (intro none) simp
  qed
qed

lemma instrument_rules_hold:
  assumes "list_all passes (instrument_rules i c p)"
  shows "missing_type_symbols c = []" "missing_equivalent_symbols i c = []" "in_expected_version i = cx_state_version c"
    "cx_capability c" "pl_allowed_actions p = Some actions \<Longrightarrow> in_action i \<in> set actions"
    "pl_require_settlement p \<Longrightarrow> cx_settlement c = Some True"
  using assms unfolding instrument_rules_def Let_def list_all_append list.pred_inject rule_if_pass
  by (auto dest!: passes_add_rule)

lemma freshness_rules_hold:
  assumes "list_all passes (freshness_rules c p)"
  shows "dval (cx_data_age c) \<le> dval (pl_max_data_age p)" "cx_fx_required c \<Longrightarrow> cx_fx_age c \<noteq> []"
    "x \<in> set (dict_values (cx_fx_age c)) \<Longrightarrow> dval x \<le> dval (pl_max_fx_age p)"
    "pl_max_clock_age p = Some limit \<Longrightarrow> \<exists>t. cx_clock_age c = Some t \<and> dval t \<le> dval limit"
proof -
  have "dval (dmax_list (dict_values (cx_fx_age c))) \<le> dval (pl_max_fx_age p)"
    using assms unfolding freshness_rules_def Let_def list_all_append list.pred_inject
    by (auto dest!: passes_add_rule)
  then show "x \<in> set (dict_values (cx_fx_age c)) \<Longrightarrow> dval x \<le> dval (pl_max_fx_age p)"
    using dmax_list_upper [of x "dict_values (cx_fx_age c)"] by linarith
  show "dval (cx_data_age c) \<le> dval (pl_max_data_age p)" "cx_fx_required c \<Longrightarrow> cx_fx_age c \<noteq> []"
    "pl_max_clock_age p = Some limit \<Longrightarrow> \<exists>t. cx_clock_age c = Some t \<and> dval t \<le> dval limit"
    using assms unfolding freshness_rules_def Let_def list_all_append list.pred_inject rule_if_pass
    by (auto dest!: passes_add_rule split: option.splits)
qed

lemma closing_rules_hold:
  assumes "list_all passes (closing_rules i c p a)"
  shows "dval (ex_resulting (as_exposure a)) < 0 \<Longrightarrow> dval (ex_resulting (as_exposure a)) < dval (ex_base (as_exposure a))
      \<Longrightarrow> cx_borrow c = Some True"
    "in_reduce_only i \<Longrightarrow> as_reduces a"
  using assms unfolding closing_rules_def Let_def list_all_append list.pred_inject passes_rbind
  by (auto dest!: passes_add_rule)

text \<open>What must be known before an intent is admitted.\<close>

definition evidenced :: "intent \<Rightarrow> sealed_context \<Rightarrow> policy \<Rightarrow> bool" where
  "evidenced i c p \<longleftrightarrow>
     in_expected_version i = cx_state_version c \<and> cx_capability c
   \<and> dval (cx_data_age c) \<le> dval (pl_max_data_age p)
   \<and> (cx_fx_required c \<longrightarrow> cx_fx_age c \<noteq> []) \<and> (\<forall>x \<in> set (dict_values (cx_fx_age c)). dval x \<le> dval (pl_max_fx_age p))
   \<and> (\<forall>limit. pl_max_clock_age p = Some limit \<longrightarrow> (\<exists>t. cx_clock_age c = Some t \<and> dval t \<le> dval limit))
   \<and> (\<forall>actions. pl_allowed_actions p = Some actions \<longrightarrow> in_action i \<in> set actions)
   \<and> (pl_require_settlement p \<longrightarrow> cx_settlement c = Some True)
   \<and> (\<forall>s. exposed c s \<longrightarrow> dict_get (cx_types c) s \<noteq> None)
   \<and> (\<forall>s. held_after i c s \<noteq> 0 \<longrightarrow> dict_get (cx_marks c) s \<noteq> None \<and> cx_stress c \<noteq> []
        \<and> (\<forall>scenario \<in> set (cx_stress c). dict_get scenario s \<noteq> None)
        \<and> (is_derivative i c s \<longrightarrow> dict_get (cx_equivalents c) s \<noteq> None))
   \<and> (held_after i c (in_symbol i) < 0 \<and> held_after i c (in_symbol i) < held_before c (in_symbol i)
        \<longrightarrow> cx_borrow c = Some True)"

text \<open>(C4) Risk admission is fail-closed: an admitted intent names the current state version, the capability is
  evidenced, market data, required exchange rates and the clock are fresh, every exposed instrument has a
  known family, every position after the intent has a mark, is shocked by every scenario of a non-empty
  stress set and, for a derivative, has an equivalent exposure, and a new or larger short has borrow
  evidence.\<close>

theorem admitted_is_evidenced:
  assumes "make_intent ri = Inr i" and "make_context rc = Inr c" and "make_policy rp = Inr p"
    and "evaluate_risk sha256 store i c p = Inr d" and "rd_admitted d"
  shows "evidenced i c p"
proof -
  obtain a rules where a: "assess sha256 i c p = Inr a" and rules: "risk_rules sha256 store i c p a = Inr rules"
    and adm: "rd_admitted d = list_all rr_passed rules"
    using evaluate_risk_parts [OF assms(4,1-3)] by blast
  note hold = all_rules_hold [OF rules assms(5) [unfolded adm]]
  note ins = instrument_rules_hold [OF hold(1)] and fr = freshness_rules_hold [OF hold(2)] and cl = closing_rules_hold [OF hold(9)]
  note x = measure_exposure_correct [OF assess_parts(1) [OF a] sealed_book_made [OF assms(1,2)]]
  note st = measure_stress_correct(1) [OF assess_parts(2) [OF a] x(8,9), THEN iffD1, OF stress_rules_hold(1) [OF hold(6)]]
  have "dict_get (cx_marks c) s \<noteq> None \<and> cx_stress c \<noteq> [] \<and> (\<forall>scenario \<in> set (cx_stress c). dict_get scenario s \<noteq> None)
      \<and> (is_derivative i c s \<longrightarrow> dict_get (cx_equivalents c) s \<noteq> None)" if nz: "held_after i c s \<noteq> 0" for s
  proof -
    have "exposed c s \<or> s = in_symbol i" using nz by (auto simp: held_after_def held_before_def exposed_def split: if_splits)
    then show ?thesis using x(20) [OF nz] st nz equivalents_known [OF ins(2), of s] by blast
  qed
  moreover have "held_after i c (in_symbol i) < 0 \<and> held_after i c (in_symbol i) < held_before c (in_symbol i) \<longrightarrow> cx_borrow c = Some True"
    using cl(1) x(3,4) by simp
  ultimately show ?thesis
    unfolding evidenced_def using ins(3-6) fr missing_types_Nil [THEN iffD1, OF ins(1)] by blast
qed

text \<open>(C10) The reported leverage is exact to \<open>10\<^sup>-\<^sup>1\<^sup>8\<close> and never below the leverage of the book after the intent; the reported
  position is the position after the intent, reservations included.\<close>

theorem reported_leverage_is_ceiling:
  assumes "make_intent ri = Inr i" and "make_context rc = Inr c" and "make_policy rp = Inr p"
    and "evaluate_risk sha256 store i c p = Inr d"
  shows "gross_of i c (held_after i c) / dval (cx_equity c) \<le> dval (rd_gross_leverage d)
    \<and> dval (rd_gross_leverage d) < gross_of i c (held_after i c) / dval (cx_equity c) + 1 / 10 ^ 18
    \<and> net_of i c (held_after i c) / dval (cx_equity c) \<le> dval (rd_net_leverage d)
    \<and> dval (rd_net_leverage d) < net_of i c (held_after i c) / dval (cx_equity c) + 1 / 10 ^ 18
    \<and> dval (rd_resulting d) = held_after i c (in_symbol i)"
proof -
  obtain a where a: "assess sha256 i c p = Inr a" and d: "rd_resulting d = ex_resulting (as_exposure a)"
    "rd_gross_leverage d = ex_gross_leverage (as_exposure a)" "rd_net_leverage d = ex_net_leverage (as_exposure a)"
    using evaluate_risk_parts [OF assms(4,1-3)] by blast
  note x = measure_exposure_correct [OF assess_parts(1) [OF a] sealed_book_made [OF assms(1,2)]]
  show ?thesis using ratio_report_Inr [OF x(17)] ratio_report_Inr [OF x(18)] x(4,15,16) d by simp
qed

text \<open>(C12) A whole-book flattening is not decided when a stress scenario leaves out a symbol that is held: although no
  position remains to be stressed, the loss of the old book is computed in every scenario and the missing shock
  raises.\<close>

theorem flattening_needs_shocks:
  assumes "make_intent ri = Inr i" and "make_context rc = Inr c" and "make_policy rp = Inr p"
    and "\<And>s. held_after i c s = 0" and "held_before c s \<noteq> 0"
    and "scenario \<in> set (cx_stress c)" and "dict_get scenario s = None"
  shows "\<nexists>d. evaluate_risk sha256 store i c p = Inr d"
proof
  assume "\<exists>d. evaluate_risk sha256 store i c p = Inr d"
  then obtain d a where d: "evaluate_risk sha256 store i c p = Inr d" and a: "assess sha256 i c p = Inr a"
    using evaluate_risk_parts [OF _ assms(1-3)] by blast
  note x = measure_exposure_correct [OF assess_parts(1) [OF a] sealed_book_made [OF assms(1,2)]]
  let ?e = "as_exposure a"
  have none: "ex_notionals ?e = []" using measures_Nil [OF x(9)] assms(4) by simp
  then have "rfold (stress_step True ?e) (dzero, dzero) (cx_stress c) \<noteq> Inl x" for x
    using assess_parts(2) [OF a] by (auto simp: measure_stress_def Let_def uncovered_def rbind_def split: sum.splits)
  then obtain st where st: "rfold (stress_step True ?e) (dzero, dzero) (cx_stress c) = Inr st"
    by (cases "rfold (stress_step True ?e) (dzero, dzero) (cx_stress c)") auto
  have step: "rfold (stress_step True ?e) acc xs = Inr st \<Longrightarrow> scenario \<in> set xs \<Longrightarrow>
      \<exists>l. scenario_loss (ex_base_notionals ?e) scenario = Inr l" for acc xs
  proof (induction xs arbitrary: acc)
    case (Cons y ys)
    obtain b w where acc: "acc = (b, w)" by force
    from Cons.prems(1) obtain acc' where "stress_step True ?e acc y = Inr acc'" "rfold (stress_step True ?e) acc' ys = Inr st" by auto
    then show ?case using Cons.IH Cons.prems(2) unfolding acc stress_step_def by auto
  qed simp
  obtain l where l: "scenario_loss (ex_base_notionals ?e) scenario = Inr l" using step [OF st assms(6)] by blast
  have "s \<in> set (dict_keys (ex_base_notionals ?e))" using measures_keys [OF x(8)] assms(5) by blast
  from scenario_loss_Inr(2) [OF l this] assms(7) show False by simp
qed

text \<open>(C11) Sealing is stable: what \<open>create\<close> returned for an intent, a context or a policy passes through \<open>create\<close> unchanged, so
  that the evaluation decides about the objects it was given, whatever presentation of numbers and text they were
  created from.\<close>

theorem sealed_inputs_unchanged:
  assumes "make_intent ri = Inr i" and "make_context rc = Inr c" and "make_policy rp = Inr p"
  shows "make_intent (raw_intent i) = Inr i \<and> make_context (raw_context c) = Inr c \<and> reseal_policy p = Inr p"
  using intent_sealing.make_stable [OF assms(1)] context_sealing.make_stable [OF assms(2)] make_policy_again [OF assms(3)] by blast

section \<open>Witnesses\<close>

theorem admitted_within_limits_or_safer_witness:
  "\<exists>d. evaluate_risk sample_hash None sample_intent sample_context sample_policy = Inr d \<and> rd_admitted d
    \<and> (within_limits sample_intent sample_context sample_policy \<or> strictly_safer sample_intent sample_context)"
  by (rule sample_admitted) (use admitted_within_limits_or_safer [OF sample_made(1-3)] in blast)

theorem admitted_is_evidenced_witness:
  "\<exists>d. evaluate_risk sample_hash None sample_intent sample_context sample_policy = Inr d \<and> rd_admitted d
    \<and> evidenced sample_intent sample_context sample_policy"
  by (rule sample_admitted) (use admitted_is_evidenced [OF sample_made(1-3)] in blast)

theorem reported_leverage_is_ceiling_witness:
  "\<exists>d. evaluate_risk sample_hash None sample_intent sample_context sample_policy = Inr d
    \<and> dval (rd_resulting d) = held_after sample_intent sample_context ''AAA''"
proof (rule sample_admitted)
  fix d assume d: "evaluate_risk sample_hash None sample_intent sample_context sample_policy = Inr d"
  have "in_symbol sample_intent = ''AAA''" by (simp add: sample_intent_def)
  then show ?thesis using reported_leverage_is_ceiling [OF sample_made(1-3) d] d by auto
qed

definition flatten_intent :: intent where
  "flatten_intent = sample_intent\<lparr>in_quantity := Decimal False 6 0\<rparr>"

definition gap_context :: sealed_context where
  "gap_context = sample_context\<lparr>cx_stress := [[(''BBB'', dzero)]]\<rparr>"

lemma flatten_made:
  "make_intent (raw_intent flatten_intent) = Inr flatten_intent" "make_context (raw_context gap_context) = Inr gap_context"
  by code_simp+

lemma flatten_raises: "evaluate_risk sample_hash None flatten_intent gap_context sample_policy = Inl KeyError"
  by code_simp

theorem flattening_needs_shocks_witness:
  "evaluate_risk sample_hash None flatten_intent gap_context sample_policy = Inl KeyError
    \<and> (\<nexists>d. evaluate_risk sample_hash None flatten_intent gap_context sample_policy = Inr d)"
proof -
  have flat: "held_after flatten_intent gap_context s = 0" for s
    by (simp add: held_after_def held_before_def moved_by_def dget_def flatten_intent_def gap_context_def sample_intent_def
        sample_context_def)
  have held: "held_before gap_context ''AAA'' \<noteq> 0" by code_simp
  have mem: "[(''BBB'', dzero)] \<in> set (cx_stress gap_context)" by (simp add: gap_context_def)
  show ?thesis
    using flattening_needs_shocks [OF flatten_made sample_made(3) flat held mem, of sample_hash None] flatten_raises by simp
qed

definition loose_intent :: "pynum risk_intent" where
  "loose_intent = (raw_intent sample_intent)\<lparr>in_symbol := '' AAA '', in_side := ''sell'', in_quantity := PyInt 2\<rparr>"

definition loose_context :: "(pynum, moment) risk_context" where
  "loose_context = (raw_context sample_context)\<lparr>cx_positions := [('' AAA '', PyStr ''5'')], cx_types := [(''AAA'', ''equity'')]\<rparr>"

definition loose_policy :: "pynum risk_policy" where
  "loose_policy = (raw_policy sample_policy None)\<lparr>pl_max_drawdown := PyStr ''0.2'', pl_allowed_actions := Some ['' reduce'', ''trade'']\<rparr>"

lemma loose_made: "make_intent loose_intent = Inr sample_intent" "make_context loose_context = Inr sample_context"
  "make_policy loose_policy = Inr sample_policy"
  by code_simp+

theorem sealed_inputs_unchanged_witness:
  "make_intent loose_intent = Inr sample_intent \<and> make_intent (raw_intent sample_intent) = Inr sample_intent
    \<and> make_context (raw_context sample_context) = Inr sample_context \<and> reseal_policy sample_policy = Inr sample_policy"
  using sealed_inputs_unchanged [OF loose_made] loose_made by blast

end
