(* ===== verification/Risk_Limits.thy ===== *)
theory Risk_Limits
  imports Risk_Admission
begin

text \<open>
  The optional limits of a risk policy: concentration by asset bucket and venue, participation, spread and slippage,
  and the expected shortfall over the frozen tail distribution.
\<close>

section \<open>Concentration\<close>

definition group_exposure :: "intent \<Rightarrow> sealed_context \<Rightarrow> (string, string) dict \<Rightarrow> string \<Rightarrow> rat" where
  "group_exposure i c labels g =
     (\<Sum>s\<in>book_symbols i c. if dict_get labels s = Some g then \<bar>held_after i c s * unit_exposure i c s\<bar> else 0)"

lemma group_step_Inr:
  assumes "group_step labels (m, g) (s, v) = Inr (m', g')"
  shows "m' = m @ (if dict_get labels s = None then [s] else [])"
    and "dval (dget g' k) = dval (dget g k) + (if dict_get labels s = Some k then \<bar>dval v\<bar> else 0)"
    and "dict_ok g \<Longrightarrow> dict_ok g'"
  using assms by (auto simp: group_step_def dest!: rk_ops split: option.splits)

lemma group_fold:
  assumes "rfold (group_step labels) (m, g) ns = Inr (m', g')"
  shows "m' = m @ filter (\<lambda>s. dict_get labels s = None) (dict_keys ns)
    \<and> dval (dget g' k) = dval (dget g k) + sum_list (map (\<lambda>(s, v). if dict_get labels s = Some k then \<bar>dval v\<bar> else 0) ns)
    \<and> (dict_ok g \<longrightarrow> dict_ok g')"
  using assms
proof (induction ns arbitrary: m g)
  case (Cons p ns)
  obtain s v where p: "p = (s, v)" by force
  from Cons.prems obtain m1 g1 where st: "group_step labels (m, g) (s, v) = Inr (m1, g1)"
    and rest: "rfold (group_step labels) (m1, g1) ns = Inr (m', g')" unfolding p by auto
  show ?case using Cons.IH [OF rest] group_step_Inr [OF st] by (simp add: p)
qed simp

lemma measure_concentration_bound:
  assumes "measure_concentration (Some l) gross labels n = Inr m" and "measures i c (held_after i c) n"
    and "dval gross = gross_of i c (held_after i c)" and "cn_missing m = []" and "cn_ratio m \<le> dval l" and "0 \<le> dval l"
  shows "group_exposure i c labels g \<le> dval l * gross_of i c (held_after i c)"
    and "0 < gross_of i c (held_after i c) \<Longrightarrow> held_after i c s \<noteq> 0 \<Longrightarrow> dict_get labels s \<noteq> None"
proof -
  let ?G = "gross_of i c (held_after i c)"
  have nonneg: "0 \<le> ?G" by (simp add: gross_of_def sum_nonneg)
  have le: "group_exposure i c labels g \<le> ?G" unfolding group_exposure_def gross_of_def by (rule sum_mono) simp
  have run: "\<exists>gs. rfold (group_step labels) ([], []) n = Inr ([], gs)
      \<and> (gs \<noteq> [] \<longrightarrow> dval (dmax_list (dict_values gs)) \<le> dval l * ?G)" if pos: "0 < ?G"
  proof -
    obtain missing gs where f: "rfold (group_step labels) ([], []) n = Inr (missing, gs)"
      and tail: "(if missing = [] \<and> gs \<noteq> []
        then rbind (exact_risk_ratio (dmax_list (dict_values gs)) gross) (\<lambda>ratio.
          rbind (ratio_report ratio) (\<lambda>report. Inr \<lparr>cn_missing = [], cn_ratio = ratio, cn_report = report\<rparr>))
        else Inr \<lparr>cn_missing = missing, cn_ratio = 0, cn_report = dzero\<rparr>) = Inr m"
      using assms(1,3) pos by (auto simp: measure_concentration_def)
    have "missing = []" using tail assms(4) by (auto split: if_splits)
    moreover have "dval (dmax_list (dict_values gs)) \<le> dval l * ?G" if "gs \<noteq> []"
    proof -
      have "cn_ratio m = dval (dmax_list (dict_values gs)) / dval gross"
        using tail that \<open>missing = []\<close> by (auto dest!: exact_risk_ratio_Inr)
      then show ?thesis using assms(3,5) pos by (simp add: pos_divide_le_eq)
    qed
    ultimately show ?thesis using f by blast
  qed
  show "dict_get labels s \<noteq> None" if pos: "0 < ?G" and s: "held_after i c s \<noteq> 0"
  proof
    assume none: "dict_get labels s = None"
    obtain gs where f: "rfold (group_step labels) ([], []) n = Inr ([], gs)" using run [OF pos] by blast
    have "filter (\<lambda>s. dict_get labels s = None) (dict_keys n) = []" using group_fold [OF f] by simp
    moreover have "s \<in> set (dict_keys n)" using measures_keys [OF assms(2)] s by blast
    ultimately show False using none by (auto simp: filter_empty_conv)
  qed
  show "group_exposure i c labels g \<le> dval l * ?G"
  proof (cases "0 < ?G")
    case False
    then show ?thesis using le nonneg by simp
  next
    case True
    then obtain gs where f: "rfold (group_step labels) ([], []) n = Inr ([], gs)"
      and top: "gs \<noteq> [] \<longrightarrow> dval (dmax_list (dict_values gs)) \<le> dval l * ?G" using run by blast
    have "sum_list (map (\<lambda>(s, v). if dict_get labels s = Some g then \<bar>dval v\<bar> else 0) n) = group_exposure i c labels g"
      using measures_sum [OF assms(2), of "\<lambda>s v. if dict_get labels s = Some g then \<bar>v\<bar> else 0"]
      by (simp add: group_exposure_def)
    then have v: "dval (dget gs g) = group_exposure i c labels g" using group_fold [OF f, of g] by (simp add: dget_def)
    show ?thesis
    proof (cases "dict_get gs g")
      case None
      then show ?thesis using v assms(6) nonneg by (simp add: dget_def)
    next
      case (Some q)
      then have "q \<in> set (dict_values gs)" using dict_get_mem by force
      then show ?thesis using dmax_list_upper [of q "dict_values gs"] top v Some by (auto simp: dget_def)
    qed
  qed
qed

section \<open>Expected shortfall\<close>

text \<open>The mean of the \<open>k\<close> greatest losses.\<close>

definition tail_mean :: "nat \<Rightarrow> rat list \<Rightarrow> rat" where
  "tail_mean k losses = (let tail = take k (sort_key uminus losses) in sum_list tail / of_nat (length tail))"

definition tail_losses :: "intent \<Rightarrow> sealed_context \<Rightarrow> rat list" where
  "tail_losses i c = map (\<lambda>scenario. max 0 (loss_of i c (held_after i c) scenario)) (cx_tail c)"

lemma map_insort_key: "map g (insort_key (\<lambda>x. f (g x)) x xs) = insort_key f (g x) (map g xs)"
  by (induction xs) auto

lemma map_sort_key: "map g (sort_key (\<lambda>x. f (g x)) xs) = sort_key f (map g xs)"
  by (induction xs) (simp_all add: map_insort_key)

lemma tail_count_Inr:
  assumes "tail_count f scenarios = Inr k"
  shows "k = (if scenarios = [] then 0 else nat (max 1 \<lceil>of_nat (length scenarios) * dval f\<rceil>))"
proof (cases "scenarios = []")
  case False
  let ?q = "of_nat (length scenarios) * dval f"
  have "\<lceil>?q\<rceil> = - ((- fst (quotient_of ?q)) div snd (quotient_of ?q))"
    using round_units_ceiling [of ?q] by (simp add: round_units_def Let_def case_prod_beta)
  then show ?thesis using assms False
    by (auto simp: tail_count_def rk_fraction_def nonnegative_fraction_ceiling_def split: if_splits)
qed (use assms in \<open>simp add: tail_count_def\<close>)

lemma shortfall_of_Inr:
  assumes "shortfall_of n scenarios k = Inr (q, report)" and "measures i c f n"
  shows "q = tail_mean k (map (\<lambda>scenario. max 0 (loss_of i c f scenario)) scenarios)"
proof -
  let ?loss = "\<lambda>scenario. rbind (scenario_loss n scenario) (\<lambda>l. Inr (dmax l dzero))"
  obtain losses total where ls: "rmap ?loss scenarios = Inr losses"
    and tot: "rk_sum (take k (sort_key (\<lambda>l. - dval l) losses)) = Inr total"
    and q: "exact_risk_ratio total (Decimal False (length (take k (sort_key (\<lambda>l. - dval l) losses))) 0) = Inr q"
    using assms(1) unfolding shortfall_of_def Let_def by auto
  have "map dval losses = map (\<lambda>scenario. max 0 (loss_of i c f scenario)) scenarios"
    using ls
  proof (induction scenarios arbitrary: losses)
    case (Cons y ys)
    then show ?case using measures_values(3) [OF assms(2)] by (auto simp: max.commute)
  qed simp
  moreover have "map dval (sort_key (\<lambda>l. - dval l) losses) = sort_key uminus (map dval losses)"
    using map_sort_key [of dval uminus losses] .
  then have "sum_list (take k (sort_key uminus (map dval losses))) = dval total"
    using rk_ops(5) [OF tot] by (simp flip: take_map)
  ultimately show ?thesis
    using exact_risk_ratio_Inr [OF q] rmap_length [OF ls] by (simp add: tail_mean_def)
qed

lemma measure_tail_correct:
  assumes "measure_tail sha256 c p e = Inr m" and "pl_max_shortfall p = Some l" and later: "measures i c (held_after i c) (ex_notionals e)"
    and "tm_complete m" and "tm_shortfall m = Some (q, r)" and open': "held_after i c s \<noteq> 0"
  shows "\<exists>f. pl_tail_fraction p = Some f \<and>
      q = tail_mean (nat (max 1 \<lceil>of_nat (length (cx_tail c)) * dval f\<rceil>)) (tail_losses i c)"
    and "cx_tail c \<noteq> []" and "scenario \<in> set (cx_tail c) \<Longrightarrow> dict_get scenario s \<noteq> None"
    and "\<exists>d. tail_scenario_set_digest sha256 (map raw_dict (cx_tail c)) = Inr d \<and> pl_tail_digest p = Some d"
proof -
  let ?n = "ex_notionals e"
  have ne: "dict_keys ?n \<noteq> []" using measures_Nil [OF later] open' by auto
  obtain f where f: "pl_tail_fraction p = Some f"
    using assms(1,2) unfolding measure_tail_def Let_def by (cases "pl_tail_fraction p") simp_all
  obtain matches k shortfall where
    matches: "(if cx_tail c = [] then Inr False
               else rbind (tail_scenario_set_digest sha256 (map raw_dict (cx_tail c))) (\<lambda>d. Inr (Some d = pl_tail_digest p))) = Inr matches"
    and k: "tail_count f (cx_tail c) = Inr k"
    and sf: "(if ((cx_tail c \<noteq> [] \<or> dict_keys ?n = []) \<and> matches \<and> uncovered (cx_tail c) (dict_keys ?n) = []) \<and> dict_keys ?n \<noteq> []
        then rbind (shortfall_of ?n (cx_tail c) k) (\<lambda>s. Inr (Some s))
        else if (cx_tail c \<noteq> [] \<or> dict_keys ?n = []) \<and> matches \<and> uncovered (cx_tail c) (dict_keys ?n) = []
        then Inr (Some (0, dzero)) else Inr None) = Inr shortfall"
    and m: "tm_complete m \<longleftrightarrow> (cx_tail c \<noteq> [] \<or> dict_keys ?n = []) \<and> matches \<and> uncovered (cx_tail c) (dict_keys ?n) = []"
      "tm_shortfall m = shortfall"
    using assms(1) unfolding measure_tail_def Let_def assms(2) f option.case rbind_Inr_iff if_not_P [OF ne]
    by (elim exE conjE) (rule that, assumption, assumption, assumption, auto)
  have complete: "tm_complete m \<longleftrightarrow> cx_tail c \<noteq> [] \<and> matches \<and> uncovered (cx_tail c) (dict_keys ?n) = []" using m(1) ne by simp
  show ne_tail: "cx_tail c \<noteq> []" using complete assms(4) by simp
  show "dict_get scenario s \<noteq> None" if "scenario \<in> set (cx_tail c)"
    using complete assms(4) that measures_keys [OF later, of s] open' unfolding uncovered_Nil by blast
  show "\<exists>d. tail_scenario_set_digest sha256 (map raw_dict (cx_tail c)) = Inr d \<and> pl_tail_digest p = Some d"
    using matches complete assms(4) by (auto split: if_splits)
  have "shortfall_of ?n (cx_tail c) k = Inr (q, r)" using sf m assms(4,5) ne by (auto split: if_splits)
  from shortfall_of_Inr [OF this later] tail_count_Inr [OF k] ne_tail f
  show "\<exists>f. pl_tail_fraction p = Some f \<and>
      q = tail_mean (nat (max 1 \<lceil>of_nat (length (cx_tail c)) * dval f\<rceil>)) (tail_losses i c)"
    by (simp add: tail_losses_def)
qed

section \<open>Admission\<close>

definition optional_limits :: "intent \<Rightarrow> sealed_context \<Rightarrow> policy \<Rightarrow> bool" where
  "optional_limits i c p \<longleftrightarrow>
     (\<forall>l g. pl_max_asset_concentration p = Some l \<longrightarrow>
        group_exposure i c (cx_buckets c) g \<le> dval l * gross_of i c (held_after i c))
   \<and> (\<forall>l g. pl_max_venue_concentration p = Some l \<longrightarrow>
        group_exposure i c (cx_venues c) g \<le> dval l * gross_of i c (held_after i c))
   \<and> (\<forall>l. pl_max_participation p = Some l \<longrightarrow> (\<exists>capacity. dict_get (cx_liquidity c) (in_symbol i) = Some capacity
        \<and> 0 < dval capacity \<and> dval (in_quantity i) / dval capacity \<le> dval l))
   \<and> (\<forall>l. pl_max_spread p = Some l \<longrightarrow> (\<exists>x. dict_get (cx_spread c) (in_symbol i) = Some x \<and> dval x \<le> dval l))
   \<and> (\<forall>l. pl_max_slippage p = Some l \<longrightarrow> (\<exists>x. dict_get (cx_slippage c) (in_symbol i) = Some x \<and> dval x \<le> dval l))"

lemma concentration_limits_made:
  assumes "make_policy rp = Inr p"
  shows "pl_max_asset_concentration p = Some l \<Longrightarrow> 0 \<le> dval l" "pl_max_venue_concentration p = Some l \<Longrightarrow> 0 \<le> dval l"
proof -
  have "ropt fraction_limit (pl_max_asset_concentration rp) = Inr (pl_max_asset_concentration p)
      \<and> ropt fraction_limit (pl_max_venue_concentration rp) = Inr (pl_max_venue_concentration p)"
    using assms unfolding make_policy_def rbind_Inr_iff require_Inr_iff
    by (elim exE conjE, simp only: sum.inject, hypsubst) (simp del: ropt_Inr)
  then show "pl_max_asset_concentration p = Some l \<Longrightarrow> 0 \<le> dval l" "pl_max_venue_concentration p = Some l \<Longrightarrow> 0 \<le> dval l"
    by (auto simp: fraction_limit_def rk_positive_Inr split: option.splits)
qed

lemma assess_optional:
  assumes "assess sha256 i c p = Inr a"
  shows "measure_concentration (pl_max_asset_concentration p) (ex_gross (as_exposure a)) (cx_buckets c) (ex_notionals (as_exposure a)) = Inr (as_asset a)"
    "measure_concentration (pl_max_venue_concentration p) (ex_gross (as_exposure a)) (cx_venues c) (ex_notionals (as_exposure a)) = Inr (as_venue a)"
    "measure_participation i c p = Inr (as_participation a)" "measure_tail sha256 c p (as_exposure a) = Inr (as_tail a)"
  using assms unfolding assess_def rbind_Inr_iff by (elim exE conjE, simp only: sum.inject, hypsubst, simp)+

lemma concentration_rules_hold:
  assumes "list_all passes (exposure_rules c p a)"
  shows "pl_max_asset_concentration p = Some l \<Longrightarrow> cn_missing (as_asset a) = [] \<and> cn_ratio (as_asset a) \<le> dval l"
    "pl_max_venue_concentration p = Some l \<Longrightarrow> cn_missing (as_venue a) = [] \<and> cn_ratio (as_venue a) \<le> dval l"
  using assms unfolding exposure_rules_def Let_def list_all_append list.pred_inject rule_if_pass
  by (auto dest!: passes_add_rule ratio_within_True)

lemma execution_rules_hold:
  assumes "list_all passes (execution_rules i c p a)"
  shows "pl_max_participation p = Some l \<Longrightarrow> \<exists>q r. as_participation a = Some (q, r) \<and> q \<le> dval l"
    "pl_max_spread p = Some l \<Longrightarrow> \<exists>x. dict_get (cx_spread c) (in_symbol i) = Some x \<and> dval x \<le> dval l"
    "pl_max_slippage p = Some l \<Longrightarrow> \<exists>x. dict_get (cx_slippage c) (in_symbol i) = Some x \<and> dval x \<le> dval l"
  using assms unfolding execution_rules_def Let_def list_all_append rule_if_pass
  by (auto dest!: passes_add_rule ratio_within_True split: option.splits prod.splits)

lemma tail_rules_hold:
  assumes "list_all passes (tail_rules c p a)" and "pl_max_shortfall p = Some l"
  shows "tm_complete (as_tail a)" "\<exists>q r. tm_shortfall (as_tail a) = Some (q, r) \<and> (q \<le> dval l \<or> as_protective a)"
  using assms unfolding tail_rules_def Let_def
  by (auto dest!: passes_add_rule ratio_within_True split: option.splits prod.splits)

lemma measure_participation_Inr:
  assumes "measure_participation i c p = Inr (Some (q, r))" and "pl_max_participation p = Some l"
  shows "\<exists>capacity. dict_get (cx_liquidity c) (in_symbol i) = Some capacity \<and> 0 < dval capacity
    \<and> q = dval (in_quantity i) / dval capacity"
  using assms by (auto simp: measure_participation_def dest!: exact_risk_ratio_Inr split: option.splits if_splits)

text \<open>(C5) The optional limits have no exception: after an admitted intent no asset bucket and no venue holds more than
  its configured share of the gross exposure, the order takes at most the configured share of a known liquidity
  capacity, and spread and slippage are known and within their limits.\<close>

theorem admitted_within_optional_limits:
  assumes "make_intent ri = Inr i" and "make_context rc = Inr c" and "make_policy rp = Inr p"
    and "evaluate_risk sha256 store i c p = Inr d" and "rd_admitted d"
  shows "optional_limits i c p"
proof -
  obtain a rules where a: "assess sha256 i c p = Inr a" and rules: "risk_rules sha256 store i c p a = Inr rules"
    and adm: "rd_admitted d = list_all rr_passed rules"
    using evaluate_risk_parts [OF assms(4,1-3)] by blast
  note hold = all_rules_hold [OF rules assms(5) [unfolded adm]] and opt = assess_optional [OF a]
  note x = measure_exposure_correct [OF assess_parts(1) [OF a] sealed_book_made [OF assms(1,2)]]
  note con = concentration_rules_hold [OF hold(3)] and exe = execution_rules_hold [OF hold(4)]
  note nn = concentration_limits_made [OF assms(3)]
  have "group_exposure i c (cx_buckets c) g \<le> dval l * gross_of i c (held_after i c)" if l: "pl_max_asset_concentration p = Some l" for l g
    using measure_concentration_bound(1) [OF opt(1) [unfolded l] x(9) x(12)] con(1) [OF l] nn(1) [OF l] by simp
  moreover have "group_exposure i c (cx_venues c) g \<le> dval l * gross_of i c (held_after i c)" if l: "pl_max_venue_concentration p = Some l" for l g
    using measure_concentration_bound(1) [OF opt(2) [unfolded l] x(9) x(12)] con(2) [OF l] nn(2) [OF l] by simp
  moreover have "\<exists>capacity. dict_get (cx_liquidity c) (in_symbol i) = Some capacity
        \<and> 0 < dval capacity \<and> dval (in_quantity i) / dval capacity \<le> dval l" if l: "pl_max_participation p = Some l" for l
  proof -
    obtain q r where q: "as_participation a = Some (q, r)" "q \<le> dval l" using exe(1) [OF l] by blast
    show ?thesis using measure_participation_Inr [OF opt(3) [unfolded q(1)] l] q(2) by blast
  qed
  ultimately show ?thesis unfolding optional_limits_def using exe(2,3) by blast
qed

text \<open>(C6) Under an expected-shortfall policy an admitted intent that leaves a position open is backed by the frozen
  tail distribution -- its digest is the configured one and every scenario shocks the position -- and the mean
  of its worst \<open>\<lceil>fraction \<cdot> n\<rceil>\<close> losses, at least one, is within the limit unless the intent makes the book strictly
  safer.\<close>

theorem admitted_expected_shortfall:
  assumes "make_intent ri = Inr i" and "make_context rc = Inr c" and "make_policy rp = Inr p"
    and "evaluate_risk sha256 store i c p = Inr d" and "rd_admitted d"
    and "pl_max_shortfall p = Some l" and "held_after i c s \<noteq> 0"
  shows "cx_tail c \<noteq> [] \<and> (\<forall>scenario \<in> set (cx_tail c). dict_get scenario s \<noteq> None)
    \<and> (\<exists>digest. tail_scenario_set_digest sha256 (map raw_dict (cx_tail c)) = Inr digest \<and> pl_tail_digest p = Some digest)
    \<and> (\<exists>f. pl_tail_fraction p = Some f
        \<and> (tail_mean (nat (max 1 \<lceil>of_nat (length (cx_tail c)) * dval f\<rceil>)) (tail_losses i c) \<le> dval l \<or> strictly_safer i c))"
proof -
  obtain a rules where a: "assess sha256 i c p = Inr a" and rules: "risk_rules sha256 store i c p a = Inr rules"
    and adm: "rd_admitted d = list_all rr_passed rules"
    using evaluate_risk_parts [OF assms(4,1-3)] by blast
  note book = sealed_book_made [OF assms(1,2)]
  note hold = all_rules_hold [OF rules assms(5) [unfolded adm]]
  note x = measure_exposure_correct [OF assess_parts(1) [OF a] book]
  note t = tail_rules_hold [OF hold(7) assms(6)]
  obtain q r where q: "tm_shortfall (as_tail a) = Some (q, r)" "q \<le> dval l \<or> as_protective a" using t(2) by blast
  note m = measure_tail_correct [OF assess_optional(4) [OF a] assms(6) x(9) t(1) q(1) assms(7)]
  obtain f where f: "pl_tail_fraction p = Some f"
    "q = tail_mean (nat (max 1 \<lceil>of_nat (length (cx_tail c)) * dval f\<rceil>)) (tail_losses i c)" using m(1) by blast
  show ?thesis using m(2-4) f q(2) protective_is_safer [OF a book] by auto
qed

section \<open>Witnesses\<close>

theorem admitted_within_optional_limits_witness:
  "\<exists>d. evaluate_risk sample_hash None sample_intent sample_context sample_policy = Inr d \<and> rd_admitted d
    \<and> optional_limits sample_intent sample_context sample_policy"
  by (rule sample_admitted) (use admitted_within_optional_limits [OF sample_made(1-3)] in blast)

theorem admitted_expected_shortfall_witness:
  "cx_tail sample_context \<noteq> []
    \<and> (\<exists>f. pl_tail_fraction sample_policy = Some f
        \<and> (tail_mean (nat (max 1 \<lceil>of_nat (length (cx_tail sample_context)) * dval f\<rceil>)) (tail_losses sample_intent sample_context)
             \<le> dval (Decimal False 3 0)
           \<or> strictly_safer sample_intent sample_context))"
proof (rule sample_admitted)
  fix d assume d: "evaluate_risk sample_hash None sample_intent sample_context sample_policy = Inr d" "rd_admitted d"
  have l: "pl_max_shortfall sample_policy = Some (Decimal False 3 0)" by (simp add: sample_policy_def)
  have "held_after sample_intent sample_context ''AAA'' \<noteq> 0" by code_simp
  from admitted_expected_shortfall [OF sample_made(1-3) d l this] show ?thesis by blast
qed

end
