(* ===== verification/Risk_Binding.thy ===== *)
theory Risk_Binding
  imports Risk_Admission
begin

text \<open>
  Bound decisions: the bound path never consults a caller's artifact store, a bound decision validates inside its
  window, and its identifier fixes everything it says.
\<close>

section \<open>The bound path\<close>

lemma reseal_liquidation: "reseal_policy p = Inr q \<Longrightarrow> pl_min_liquidation q = None \<longleftrightarrow> pl_min_liquidation p = None"
proof -
  assume "reseal_policy p = Inr q"
  then obtain ds where "make_policy (raw_policy p ds) = Inr q" by (auto simp: reseal_policy_def)
  then have "ropt (rk_positive True) (map_option PyDecimal (pl_min_liquidation p)) = Inr (pl_min_liquidation q)"
    unfolding make_policy_def rbind_Inr_iff require_Inr_iff
    by (elim exE conjE, simp only: sum.inject, hypsubst) (simp add: raw_policy_def del: ropt_Inr)
  then show ?thesis by (cases "pl_min_liquidation p"; cases "pl_min_liquidation q") simp_all
qed

lemma unverified_blocks:
  assumes "risk_rules sha256 None i c p a = Inr rules" and "pl_min_liquidation p \<noteq> None"
  shows "\<not> list_all rr_passed rules"
proof
  assume "list_all rr_passed rules"
  then have "list_all passes (liquidation_rules sha256 None c p a)" by (rule all_rules_hold(8) [OF assms(1)])
  moreover have "verify_liquidation_headroom_evidence sha256 e s v t None = Inr False" for e s v t
    by (simp add: verify_liquidation_headroom_evidence_def split: option.splits)
  ultimately show False
    using assms(2) by (auto simp: liquidation_rules_def rule_if_pass passes_rbind dest!: passes_add_rule)
qed

text \<open>(C8) The bound path refuses a store given by the caller, whatever the policy, and has no other way to verify
  liquidation evidence: a policy with a liquidation-headroom floor admits nothing on it.\<close>

theorem bound_path_grants_no_liquidation_risk:
  assumes "evaluate_bound_risk sha256 read i c p store b = Inr d"
  shows "store = None \<and> (pl_min_liquidation p \<noteq> None \<longrightarrow> \<not> rd_admitted d)"
proof -
  obtain c' r e where "store = None" and e: "evaluate_risk sha256 None i c' p = Inr e"
    and d: "bind_risk_decision sha256 read e (b\<lparr>bd_state_version := cx_state_version c', bd_requirements := raw_dict r\<rparr>) = Inr d"
    using assms(1) by (auto simp: evaluate_bound_risk_def split: option.splits)
  have "rd_admitted d = rd_admitted e"
    using d unfolding bind_risk_decision_def Let_def rbind_Inr_iff require_Inr_iff by auto
  moreover obtain i1 c1 p1 a rules where p1: "reseal_policy p = Inr p1"
    and rules: "risk_rules sha256 None i1 c1 p1 a = Inr rules" "rd_admitted e = list_all rr_passed rules"
    using e unfolding evaluate_risk_def by auto
  have "\<not> list_all rr_passed rules" if "pl_min_liquidation p \<noteq> None"
    using unverified_blocks [OF rules(1)] reseal_liquidation [OF p1] that by simp
  ultimately show ?thesis using rules(2) \<open>store = None\<close> by simp
qed

section \<open>The validity window\<close>

lemma binding_text_Inr: "binding_text t = Inr u \<longleftrightarrow> u = strip t \<and> u \<noteq> []"
  by (auto simp: binding_text_def)

lemma binding_instant_strip [simp]: "binding_instant read (strip t) = binding_instant read t"
  by (simp add: binding_instant_def)

lemma payload_ignores_id [simp]: "risk_decision_fingerprint sha256 (d\<lparr>rd_decision_id := x\<rparr>) = risk_decision_fingerprint sha256 d"
  by (simp add: risk_decision_fingerprint_def decision_payload_def binding_entry_def binding_present_def binding_fields_def)

text \<open>(C9) A bound decision keeps every result of the evaluation, verdict, measures, rules and input fingerprint, and
  validates at exactly the instants from its evaluation up to, not including, the end of its validity.\<close>

theorem bound_decision_validates_in_window:
  assumes "bind_risk_decision sha256 read e b = Inr d" and "binding_instant read now = Inr t"
  shows "rd_admitted d = rd_admitted e \<and> rd_rules d = rd_rules e \<and> rd_resulting d = rd_resulting e
    \<and> rd_gross_leverage d = rd_gross_leverage e \<and> rd_net_leverage d = rd_net_leverage e \<and> rd_worst_stress d = rd_worst_stress e
    \<and> rd_input_fingerprint d = rd_input_fingerprint e \<and> rd_arithmetic d = rd_arithmetic e \<and>
    (\<exists>from_us to_us. binding_instant read (bd_evaluated_at b) = Inr from_us \<and> binding_instant read (bd_valid_until b) = Inr to_us
      \<and> from_us < to_us
      \<and> validate_bound_risk_decision sha256 read d now = (if from_us \<le> t \<and> t < to_us then Inr () else Inl ValueError))"
proof -
  obtain ihash cap snap req ev va fr to' digest bound where
    ar: "rd_arithmetic e = Some RISK_ARITHMETIC_POLICY_ID"
    and ev: "binding_text (bd_evaluated_at b) = Inr ev" and va: "binding_text (bd_valid_until b) = Inr va"
    and fr: "binding_instant read ev = Inr fr" and to': "binding_instant read va = Inr to'" and lt: "fr < to'"
    and bound: "bound = e\<lparr>rd_decision_id := None, rd_intent_hash := Some ihash, rd_state_version := Some (bd_state_version b),
           rd_policy_version := Some (bd_policy_version b), rd_reservation_version := Some (bd_reservation_version b),
           rd_requirements := Some req, rd_capability := Some cap, rd_snapshot := snap,
           rd_evaluated_at := Some ev, rd_valid_until := Some va\<rparr>"
    and fp: "risk_decision_fingerprint sha256 bound = Inr digest"
    and d: "d = bound\<lparr>rd_decision_id := Some (''risk:sha256:'' @ digest)\<rparr>"
    using assms(1) unfolding bind_risk_decision_def Let_def rbind_Inr_iff require_Inr_iff
    by (elim exE conjE) (rule that, (assumption | rule refl | simp)+)
  have inst: "binding_instant read (bd_evaluated_at b) = Inr fr" "binding_instant read (bd_valid_until b) = Inr to'"
    using ev va fr to' unfolding binding_text_Inr by simp_all
  have fields: "rd_evaluated_at d = Some ev" "rd_valid_until d = Some va" "rd_arithmetic d = rd_arithmetic e"
    "rd_admitted d = rd_admitted e" "rd_rules d = rd_rules e" "rd_resulting d = rd_resulting e"
    "rd_gross_leverage d = rd_gross_leverage e" "rd_net_leverage d = rd_net_leverage e" "rd_worst_stress d = rd_worst_stress e"
    "rd_input_fingerprint d = rd_input_fingerprint e" "rd_decision_id d = Some (''risk:sha256:'' @ digest)"
    by (simp_all add: d bound)
  have "risk_decision_fingerprint sha256 d = Inr digest" using fp by (simp add: d)
  then have "validate_bound_risk_decision sha256 read d now = (if fr \<le> t \<and> t < to' then Inr () else Inl ValueError)"
    using assms(2) fr to' fields ar by (simp add: validate_bound_risk_decision_def opt_binding_instant_def require_def)
  then show ?thesis using inst lt fields by blast
qed

section \<open>What the identifier fixes\<close>

lemma json_decimal_Inr: "json_decimal d = Inr j \<Longrightarrow> \<exists>t. j = JStr t \<and> canonical_decimal_text d = Inr t"
  by (auto simp: json_decimal_def risk_text_def)

lemma json_decimal_value:
  assumes "json_decimal a = Inr j" and "json_decimal b = Inr k" and "json_sort j = json_sort k"
  shows "dval a = dval b"
proof -
  obtain t where t: "j = JStr t" "canonical_decimal_text a = Inr t" using json_decimal_Inr [OF assms(1)] by (elim exE conjE)
  obtain u where u: "k = JStr u" "canonical_decimal_text b = Inr u" using json_decimal_Inr [OF assms(2)] by (elim exE conjE)
  have "t = u" using assms(3) t(1) u(1) by simp
  with t(2) have "canonical_decimal_text a = Inr u" by simp
  then show ?thesis using u(2) by (rule canonical_text_value)
qed

lemma json_rule_inj:
  assumes "json_sort (json_rule r) = json_sort (json_rule q)"
  shows "r = q"
proof -
  have ok: "dict_ok [(''rule'', JStr (rr_rule r)), (''passed'', JBool (rr_passed r)), (''observed'', JStr (rr_observed r)),
     (''limit'', JStr (rr_limit r)), (''reason'', JStr (rr_reason r))]" for r by (simp add: dict_ok_def)
  note get = json_sort_get [OF assms [unfolded json_rule_def] ok ok]
  show ?thesis
    using get [of "''rule''"] get [of "''passed''"] get [of "''observed''"] get [of "''limit''"] get [of "''reason''"] by simp
qed

lemma json_rules_inj: "map (json_sort \<circ> json_rule) rs = map (json_sort \<circ> json_rule) qs \<Longrightarrow> rs = qs"
proof (induction rs arbitrary: qs)
  case (Cons r rs)
  then show ?case by (cases qs) (auto dest: json_rule_inj)
qed simp

text \<open>The texts of the requirements determine their values.\<close>

lemma dict_get_all2:
  "list_all2 (\<lambda>(k, a) (l, b). k = l \<and> P a b) xs ys \<Longrightarrow> rel_option P (dict_get xs k) (dict_get ys k)"
  by (induction rule: list_all2_induct) auto

lemma dict_keys_all2: "list_all2 (\<lambda>(k, a) (l, b). k = l \<and> P a b) xs ys \<Longrightarrow> dict_keys xs = dict_keys ys"
  by (induction rule: list_all2_induct) auto

lemma requirements_payload_get:
  assumes "reservation_requirements_payload r = Inr t"
  shows "dict_ok t" and "rel_option (\<lambda>d u. \<exists>a. dval a = dval d \<and> canonical_decimal_text a = Inr u) (dict_get r k) (dict_get t k)"
proof -
  obtain items where items: "normalize_mapping (\<lambda>d. rk_positive False (PyDecimal d)) r = Inr items"
    and same: "list_all2 (\<lambda>(k, a) (l, b). k = l \<and> dval a = dval b) (sort_key fst items) r"
    and texts: "rmap (\<lambda>(resource, amount). rbind (risk_text amount) (\<lambda>t. Inr (resource, t))) (sort_key fst items) = Inr t"
    using assms by (auto simp: reservation_requirements_payload_def Let_def split: if_splits)
  have t: "list_all2 (\<lambda>(k, a) (l, u). k = l \<and> canonical_decimal_text a = Inr u) (sort_key fst items) t"
    using texts [unfolded rmap_Inr_iff] by (rule list_all2_mono) (auto simp: risk_text_def)
  have "dict_ok items" using normalize_mapping_sealed [OF items] by simp
  from sorted_keys_distinct [OF this] show "dict_ok t" by (simp add: dict_ok_def dict_keys_all2 [OF t])
  show "rel_option (\<lambda>d u. \<exists>a. dval a = dval d \<and> canonical_decimal_text a = Inr u) (dict_get r k) (dict_get t k)"
    using dict_get_all2 [OF same, of k] dict_get_all2 [OF t, of k]
    by (cases "dict_get (sort_key fst items) k"; cases "dict_get r k"; cases "dict_get t k") auto
qed

lemma json_texts_get:
  assumes "json_sort (json_texts t) = json_sort (json_texts u)" and "dict_ok t" and "dict_ok u"
  shows "dict_get t k = dict_get u k"
proof -
  have ok: "dict_ok (map (\<lambda>(k, v). (k, JStr v)) d)" if "dict_ok d" for d :: "(string, string) dict"
    using that by (simp add: dict_ok_def comp_def case_prod_beta)
  have g: "dict_get (map (\<lambda>(k, v). (k, JStr v)) d) k = map_option JStr (dict_get d k)" for d :: "(string, string) dict"
    by (rule dict_get_map_keys [of "\<lambda>_. JStr"])
  have "map_option json_sort (map_option JStr (dict_get t k)) = map_option json_sort (map_option JStr (dict_get u k))"
    using json_sort_get [OF assms(1) [unfolded json_texts_def] ok [OF assms(2)] ok [OF assms(3)], of k] unfolding g .
  then show ?thesis by (cases "dict_get t k"; cases "dict_get u k") simp_all
qed

lemma requirements_value:
  assumes "reservation_requirements_payload r = Inr t" and "reservation_requirements_payload q = Inr u"
    and "json_sort (json_texts t) = json_sort (json_texts u)"
  shows "map_option dval (dict_get r k) = map_option dval (dict_get q k)"
proof -
  note a = requirements_payload_get [OF assms(1)] and b = requirements_payload_get [OF assms(2)]
  have "dict_get t k = dict_get u k" by (rule json_texts_get [OF assms(3) a(1) b(1)])
  then have b': "rel_option (\<lambda>d u. \<exists>a. dval a = dval d \<and> canonical_decimal_text a = Inr u) (dict_get q k) (dict_get t k)"
    using b(2) [of k] by simp
  show ?thesis
  proof (cases "dict_get t k")
    case None
    then show ?thesis using a(2) [of k] b' by simp
  next
    case (Some shown)
    obtain x y where x: "dict_get r k = Some x" and y: "dict_get q k = Some y"
      using a(2) [of k] b' Some by (cases "dict_get r k"; cases "dict_get q k") simp_all
    obtain x' where x': "dval x' = dval x" "canonical_decimal_text x' = Inr shown" using a(2) [of k] Some x by auto
    obtain y' where y': "dval y' = dval y" "canonical_decimal_text y' = Inr shown" using b' Some y by auto
    show ?thesis using canonical_text_value [OF x'(2) y'(2)] x'(1) y'(1) x y by simp
  qed
qed

text \<open>The payload of a decision that validates.\<close>

definition bound_fields :: "risk_decision \<Rightarrow> (string, string) dict \<Rightarrow> (string \<times> json) list" where
  "bound_fields d req =
     [(''intent_hash'', json_opt JStr (rd_intent_hash d)), (''state_version'', json_opt JInt (rd_state_version d)),
      (''policy_version'', json_opt JInt (rd_policy_version d)),
      (''reservation_version'', json_opt JInt (rd_reservation_version d)), (''reservation_requirements'', json_texts req),
      (''capability_snapshot_id'', json_opt JStr (rd_capability d)), (''evaluated_at'', json_opt JStr (rd_evaluated_at d)),
      (''valid_until'', json_opt JStr (rd_valid_until d))]
     @ (case rd_snapshot d of None \<Rightarrow> [] | Some s \<Rightarrow> [(''authoritative_risk_snapshot_id'', JStr (strip s))])"

definition bound_payload :: "risk_decision \<Rightarrow> json \<Rightarrow> json \<Rightarrow> json \<Rightarrow> json \<Rightarrow> (string, string) dict \<Rightarrow> (string \<times> json) list" where
  "bound_payload d resulting gross net worst req =
     [(''admitted'', JBool (rd_admitted d)), (''resulting_position'', resulting), (''gross_leverage'', gross),
      (''net_leverage'', net), (''worst_stress_loss'', worst), (''input_fingerprint'', JStr (rd_input_fingerprint d)),
      (''rules'', JList (map json_rule (rd_rules d))), (''arithmetic_policy_id'', JStr RISK_ARITHMETIC_POLICY_ID),
      (''binding'', JObj (bound_fields d req))]"

lemma bound_ok: "dict_ok (bound_fields d req)" "dict_ok (bound_payload d resulting gross net worst req)"
  by (simp_all add: bound_fields_def bound_payload_def dict_ok_def split: option.splits)

lemma validated_payload:
  assumes "validate_bound_risk_decision sha256 read d now = Inr ()"
  obtains resulting gross net worst reqs req where
    "rd_decision_id d = Some (''risk:sha256:'' @ sha256 (json_text (JObj (bound_payload d resulting gross net worst req))))"
    "json_decimal (rd_resulting d) = Inr resulting" "json_decimal (rd_gross_leverage d) = Inr gross"
    "json_decimal (rd_net_leverage d) = Inr net" "json_decimal (rd_worst_stress d) = Inr worst"
    "rd_requirements d = Some reqs" "reservation_requirements_payload reqs = Inr req"
proof -
  obtain payload ev where ar: "rd_arithmetic d = Some RISK_ARITHMETIC_POLICY_ID"
    and p: "decision_payload d = Inr payload"
    and id: "rd_decision_id d = Some (''risk:sha256:'' @ sha256 (json_text (JObj payload)))"
    and ev: "rd_evaluated_at d = Some ev"
    using assms
    by (auto simp: validate_bound_risk_decision_def risk_decision_fingerprint_def opt_binding_instant_def split: option.splits)
  obtain resulting gross net worst binding where dec: "json_decimal (rd_resulting d) = Inr resulting" "json_decimal (rd_gross_leverage d) = Inr gross"
    "json_decimal (rd_net_leverage d) = Inr net" "json_decimal (rd_worst_stress d) = Inr worst"
    and b: "binding_entry d = Inr binding"
    and pl: "payload = [(''admitted'', JBool (rd_admitted d)), (''resulting_position'', resulting), (''gross_leverage'', gross),
           (''net_leverage'', net), (''worst_stress_loss'', worst), (''input_fingerprint'', JStr (rd_input_fingerprint d)),
           (''rules'', JList (map json_rule (rd_rules d))), (''arithmetic_policy_id'', JStr RISK_ARITHMETIC_POLICY_ID)] @ binding"
    using p ar unfolding decision_payload_def by auto
  have present: "list_ex (\<lambda>b. b) (binding_present d)" by (simp add: binding_present_def ev)
  obtain fields where f: "binding_fields d = Inr fields" and bi: "binding = [(''binding'', JObj (fields
      @ (case rd_snapshot d of None \<Rightarrow> [] | Some s \<Rightarrow> [(''authoritative_risk_snapshot_id'', JStr (strip s))])))]"
    using b present by (auto simp: binding_entry_def binding_text_Inr split: option.splits)
  obtain reqs req where r: "rd_requirements d = Some reqs" "reservation_requirements_payload reqs = Inr req"
    and "binding = [(''binding'', JObj (bound_fields d req))]"
    using f by (auto simp: bi binding_fields_def bound_fields_def split: option.splits)
  then have "payload = bound_payload d resulting gross net worst req" by (simp add: pl bound_payload_def)
  then show thesis using id dec r by (intro that) simp_all
qed

definition same_statement :: "risk_decision \<Rightarrow> risk_decision \<Rightarrow> bool" where
  "same_statement d e \<longleftrightarrow>
     rd_admitted d = rd_admitted e \<and> dval (rd_resulting d) = dval (rd_resulting e)
   \<and> dval (rd_gross_leverage d) = dval (rd_gross_leverage e) \<and> dval (rd_net_leverage d) = dval (rd_net_leverage e)
   \<and> dval (rd_worst_stress d) = dval (rd_worst_stress e) \<and> rd_input_fingerprint d = rd_input_fingerprint e
   \<and> rd_rules d = rd_rules e \<and> rd_intent_hash d = rd_intent_hash e \<and> rd_state_version d = rd_state_version e
   \<and> rd_policy_version d = rd_policy_version e \<and> rd_reservation_version d = rd_reservation_version e
   \<and> rd_capability d = rd_capability e \<and> rd_evaluated_at d = rd_evaluated_at e \<and> rd_valid_until d = rd_valid_until e
   \<and> map_option strip (rd_snapshot d) = map_option strip (rd_snapshot e)
   \<and> (\<forall>k. map_option dval (dict_get (the (rd_requirements d)) k) = map_option dval (dict_get (the (rd_requirements e)) k))"

lemma json_opt_inj:
  "json_sort (json_opt JStr a) = json_sort (json_opt JStr b) \<Longrightarrow> a = b"
  "json_sort (json_opt JInt x) = json_sort (json_opt JInt y) \<Longrightarrow> x = y"
  by (simp_all add: json_opt_def split: option.splits)

text \<open>(C7) The identifier of a bound decision is tamper-evident: two decisions that both validate and carry the same
  identifier say the same -- verdict, position, leverage, stress loss, every rule, input fingerprint, and the intent,
  versions, reservation amounts, capability, snapshot and validity window they are bound to -- as long as the
  hash does not collide.\<close>

theorem bound_identifier_fixes_decision:
  assumes "inj sha256" and "validate_bound_risk_decision sha256 read d now = Inr ()"
    and "validate_bound_risk_decision sha256 read e later = Inr ()" and "rd_decision_id d = rd_decision_id e"
  shows "same_statement d e"
proof -
  from assms(2) obtain dr dg dn dw dq dreq where
    d: "rd_decision_id d = Some (''risk:sha256:'' @ sha256 (json_text (JObj (bound_payload d dr dg dn dw dreq))))"
    "json_decimal (rd_resulting d) = Inr dr" "json_decimal (rd_gross_leverage d) = Inr dg"
    "json_decimal (rd_net_leverage d) = Inr dn" "json_decimal (rd_worst_stress d) = Inr dw"
    "rd_requirements d = Some dq" "reservation_requirements_payload dq = Inr dreq" by (rule validated_payload)
  from assms(3) obtain er eg en ew eq ereq where
    e: "rd_decision_id e = Some (''risk:sha256:'' @ sha256 (json_text (JObj (bound_payload e er eg en ew ereq))))"
    "json_decimal (rd_resulting e) = Inr er" "json_decimal (rd_gross_leverage e) = Inr eg"
    "json_decimal (rd_net_leverage e) = Inr en" "json_decimal (rd_worst_stress e) = Inr ew"
    "rd_requirements e = Some eq" "reservation_requirements_payload eq = Inr ereq" by (rule validated_payload)
  have "json_text (JObj (bound_payload d dr dg dn dw dreq)) = json_text (JObj (bound_payload e er eg en ew ereq))"
    using assms(1,4) d(1) e(1) by (simp add: inj_eq)
  note get = json_obj_get [OF this bound_ok(2) bound_ok(2)]
  have top: "rd_admitted d = rd_admitted e" "rd_input_fingerprint d = rd_input_fingerprint e"
    "json_sort dr = json_sort er" "json_sort dg = json_sort eg" "json_sort dn = json_sort en" "json_sort dw = json_sort ew"
    "map (json_sort \<circ> json_rule) (rd_rules d) = map (json_sort \<circ> json_rule) (rd_rules e)"
    "json_sort (JObj (bound_fields d dreq)) = json_sort (JObj (bound_fields e ereq))"
    using get [of "''admitted''"] get [of "''input_fingerprint''"] get [of "''resulting_position''"] get [of "''gross_leverage''"]
      get [of "''net_leverage''"] get [of "''worst_stress_loss''"] get [of "''rules''"] get [of "''binding''"]
    by (simp_all add: bound_payload_def comp_def)
  note bget = json_sort_get [OF top(8) bound_ok(1) bound_ok(1)]
  have fields: "rd_intent_hash d = rd_intent_hash e" "rd_state_version d = rd_state_version e"
    "rd_policy_version d = rd_policy_version e" "rd_reservation_version d = rd_reservation_version e"
    "rd_capability d = rd_capability e" "rd_evaluated_at d = rd_evaluated_at e" "rd_valid_until d = rd_valid_until e"
    "json_sort (json_texts dreq) = json_sort (json_texts ereq)"
    using bget [of "''intent_hash''"] bget [of "''state_version''"] bget [of "''policy_version''"] bget [of "''reservation_version''"]
      bget [of "''capability_snapshot_id''"] bget [of "''evaluated_at''"] bget [of "''valid_until''"] bget [of "''reservation_requirements''"]
    by (simp_all add: bound_fields_def json_opt_inj)
  have "map_option strip (rd_snapshot d) = map_option strip (rd_snapshot e)"
    using bget [of "''authoritative_risk_snapshot_id''"] 
    by (cases "rd_snapshot d"; cases "rd_snapshot e") (simp_all add: bound_fields_def)
  then show ?thesis
    unfolding same_statement_def
    using top(1,2) fields(1-7) json_rules_inj [OF top(7)] requirements_value [OF d(7) e(7) fields(8)] d(6) e(6)
      json_decimal_value [OF d(2) e(2) top(3)] json_decimal_value [OF d(3) e(3) top(4)]
      json_decimal_value [OF d(4) e(4) top(5)] json_decimal_value [OF d(5) e(5) top(6)] by simp
qed

section \<open>Witnesses\<close>

definition sample_read :: "string \<Rightarrow> instant_text" where
  "sample_read t = (if t = ''2026-01-01T00:00+00:00'' then At 0 else if t = ''2026-01-01T00:05+00:00'' then At 300000000
     else if t = ''2026-01-01T00:01+00:00'' then At 60000000 else Unreadable)"

definition sample_binding :: binding where
  "sample_binding = \<lparr>bd_intent_hash = ''i'', bd_state_version = 7, bd_policy_version = 1, bd_reservation_version = 0,
     bd_requirements = [(''USD'', PyInt 5)], bd_capability = ''c'', bd_evaluated_at = ''2026-01-01T00:00Z'',
     bd_valid_until = ''2026-01-01T00:05Z'', bd_snapshot = None\<rparr>"

definition sample_decision :: "decimal \<Rightarrow> risk_decision" where
  "sample_decision resulting = \<lparr>rd_admitted = True, rd_resulting = resulting, rd_gross_leverage = dzero,
     rd_net_leverage = dzero, rd_worst_stress = dzero, rd_input_fingerprint = ''f'', rd_rules = [],
     rd_arithmetic = Some RISK_ARITHMETIC_POLICY_ID, rd_decision_id = None, rd_intent_hash = None,
     rd_state_version = None, rd_policy_version = None, rd_reservation_version = None, rd_requirements = None,
     rd_capability = None, rd_snapshot = None, rd_evaluated_at = None, rd_valid_until = None\<rparr>"

definition guarded_policy :: policy where
  "guarded_policy = sample_policy\<lparr>pl_min_liquidation := Some (Decimal False 1 0), pl_max_shortfall := None,
     pl_tail_fraction := None, pl_tail_digest := None\<rparr>"

lemma guarded_runs:
  "case_sum (\<lambda>_. False) (\<lambda>_. True)
     (evaluate_bound_risk (\<lambda>t. []) sample_read sample_intent sample_context guarded_policy None sample_binding)"
  by code_simp

theorem bound_path_grants_no_liquidation_risk_witness:
  "\<exists>d. evaluate_bound_risk (\<lambda>t. []) sample_read sample_intent sample_context guarded_policy None sample_binding = Inr d
    \<and> \<not> rd_admitted d"
proof -
  obtain d where d: "evaluate_bound_risk (\<lambda>t. []) sample_read sample_intent sample_context guarded_policy None sample_binding = Inr d"
    using returns [OF guarded_runs] by blast
  have "pl_min_liquidation guarded_policy \<noteq> None" by (simp add: guarded_policy_def)
  then show ?thesis using bound_path_grants_no_liquidation_risk [OF d] d by blast
qed

lemma sample_bound:
  "case_sum (\<lambda>_. False) (\<lambda>d. case_sum (\<lambda>_. False) (\<lambda>e. rd_decision_id d = rd_decision_id e
       \<and> validate_bound_risk_decision (\<lambda>t. t) sample_read d ''2026-01-01T00:01Z'' = Inr ()
       \<and> validate_bound_risk_decision (\<lambda>t. t) sample_read e ''2026-01-01T00:01Z'' = Inr ())
     (bind_risk_decision (\<lambda>t. t) sample_read (sample_decision (Decimal False 10 (- 1))) sample_binding))
     (bind_risk_decision (\<lambda>t. t) sample_read (sample_decision (Decimal False 1 0)) sample_binding)"
  by code_simp

theorem bound_identifier_fixes_decision_witness:
  "\<exists>d e. bind_risk_decision (\<lambda>t. t) sample_read (sample_decision (Decimal False 1 0)) sample_binding = Inr d
    \<and> bind_risk_decision (\<lambda>t. t) sample_read (sample_decision (Decimal False 10 (- 1))) sample_binding = Inr e
    \<and> same_statement d e"
proof -
  obtain d where d: "bind_risk_decision (\<lambda>t. t) sample_read (sample_decision (Decimal False 1 0)) sample_binding = Inr d"
    and "case_sum (\<lambda>_. False) (\<lambda>e. rd_decision_id d = rd_decision_id e
       \<and> validate_bound_risk_decision (\<lambda>t. t) sample_read d ''2026-01-01T00:01Z'' = Inr ()
       \<and> validate_bound_risk_decision (\<lambda>t. t) sample_read e ''2026-01-01T00:01Z'' = Inr ())
     (bind_risk_decision (\<lambda>t. t) sample_read (sample_decision (Decimal False 10 (- 1))) sample_binding)"
    using returns [OF sample_bound] by blast
  then obtain e where e: "bind_risk_decision (\<lambda>t. t) sample_read (sample_decision (Decimal False 10 (- 1))) sample_binding = Inr e"
    and v: "validate_bound_risk_decision (\<lambda>t. t) sample_read d ''2026-01-01T00:01Z'' = Inr ()"
      "validate_bound_risk_decision (\<lambda>t. t) sample_read e ''2026-01-01T00:01Z'' = Inr ()" "rd_decision_id d = rd_decision_id e"
    using returns by blast
  show ?thesis using bound_identifier_fixes_decision [OF _ v] d e by (auto simp: inj_on_def)
qed

theorem bound_decision_validates_in_window_witness:
  "\<exists>d. bind_risk_decision (\<lambda>t. t) sample_read (sample_decision (Decimal False 1 0)) sample_binding = Inr d
    \<and> validate_bound_risk_decision (\<lambda>t. t) sample_read d ''2026-01-01T00:01Z'' = Inr ()
    \<and> validate_bound_risk_decision (\<lambda>t. t) sample_read d ''2026-01-01T00:05Z'' = Inl ValueError"
proof -
  obtain d where d: "bind_risk_decision (\<lambda>t. t) sample_read (sample_decision (Decimal False 1 0)) sample_binding = Inr d"
    using returns [OF sample_bound] by blast
  have r: "binding_instant sample_read ''2026-01-01T00:01Z'' = Inr 60000000"
    "binding_instant sample_read ''2026-01-01T00:05Z'' = Inr 300000000"
    "binding_instant sample_read (bd_evaluated_at sample_binding) = Inr 0"
    "binding_instant sample_read (bd_valid_until sample_binding) = Inr 300000000" by code_simp+
  show ?thesis
    using bound_decision_validates_in_window [OF d r(1)] bound_decision_validates_in_window [OF d r(2)] d r(3,4) by simp
qed

end
