(* ===== verification/Options.thy ===== *)
theory Options
  imports Economic_Book
begin

text \<open>
  \<open>mvp/autotrade_mvp/options.py\<close>, settlement: option contracts and their deliverables, intrinsic value, cash
  settlement, the obligation of a physical exercise or assignment, the resources it needs, the exercise window,
  reservations for packages of legs, and the journal transactions that book a settlement.  Model evidence for
  option risk, from the same file, is the theory \<open>Option_Evidence\<close>.
\<close>

section \<open>Inputs and exact arithmetic\<close>

definition option_wrap :: "'a result \<Rightarrow> 'a result" where
  "option_wrap m = translate ExactDecimalError OptionError m"

definition option_decimal :: "pynum \<Rightarrow> bool \<Rightarrow> decimal result" where
  "option_decimal v positive =
     (case v of
        PyBool _ \<Rightarrow> Inl OptionError | PyFloat \<Rightarrow> Inl OptionError
      | _ \<Rightarrow> rbind (option_wrap (parse_bounded_exact_decimal v True)) (\<lambda>d.
          if positive \<and> dval d \<le> 0 then Inl OptionError else Inr d))"

definition option_name :: "string \<Rightarrow> string result" where
  "option_name v = (if strip v = [] then Inl OptionError else Inr (strip v))"

definition option_utc :: "moment \<Rightarrow> int result" where
  "option_utc v = (case v of Not_Aware \<Rightarrow> Inl OptionError | Beyond_Calendar \<Rightarrow> Inl OverflowError | Moment us \<Rightarrow> Inr us)"

definition option_subtract :: "decimal \<Rightarrow> decimal \<Rightarrow> decimal result" where
  "option_subtract a b = option_wrap (exact_subtract a b)"

definition option_multiply :: "decimal list \<Rightarrow> decimal result" where
  "option_multiply ds = option_wrap (exact_multiply ds)"

definition option_sum :: "decimal list \<Rightarrow> decimal result" where
  "option_sum ds = option_wrap (exact_sum ds)"

text \<open>\<open>max(d, Decimal("0"))\<close>, and comparison of any Decimal with zero: ordering a NaN raises \<open>InvalidOperation\<close>.\<close>

definition at_least_zero :: "decimal \<Rightarrow> decimal" where
  "at_least_zero d = (if dval d < 0 then dzero else d)"

fun below_zero :: "decimal \<Rightarrow> bool result" where
  "below_zero NaN = Inl InvalidOperation"
| "below_zero (Infinity negative) = Inr negative"
| "below_zero d = Inr (dval d < 0)"

fun equals_zero :: "decimal \<Rightarrow> bool" where
  "equals_zero (Decimal s c e) = (c = 0)"
| "equals_zero _ = False"

section \<open>Contracts\<close>

record deliverable_leg =
  dl_asset_id :: string
  dl_quantity :: decimal

definition make_leg :: "string \<Rightarrow> pynum \<Rightarrow> deliverable_leg result" where
  "make_leg asset quantity = rbind (option_name asset) (\<lambda>a. rbind (option_decimal quantity True) (\<lambda>q.
     Inr \<lparr>dl_asset_id = a, dl_quantity = q\<rparr>))"

datatype option_right = CALL | PUT

datatype settlement_method = CASH_SETTLED | PHYSICAL

datatype exercise_style = AMERICAN | EUROPEAN

definition right_of :: "string \<Rightarrow> option_right result" where
  "right_of t = (if t = ''CALL'' then Inr CALL else if t = ''PUT'' then Inr PUT else Inl OptionError)"

definition method_of :: "string \<Rightarrow> settlement_method result" where
  "method_of t = (if t = ''CASH'' then Inr CASH_SETTLED else if t = ''PHYSICAL'' then Inr PHYSICAL else Inl OptionError)"

definition style_of :: "string \<Rightarrow> exercise_style result" where
  "style_of t = rbind (option_name t) (\<lambda>u.
     if upper u = ''AMERICAN'' then Inr AMERICAN else if upper u = ''EUROPEAN'' then Inr EUROPEAN else Inl OptionError)"

record option_contract =
  oc_instrument :: string
  oc_right :: option_right
  oc_strike :: decimal
  oc_multiplier :: decimal
  oc_currency :: string
  oc_method :: settlement_method
  oc_style :: exercise_style
  oc_expiry :: int
  oc_cutoff :: int
  oc_deliverable :: "deliverable_leg list"
  oc_opens_at :: "int option"
  oc_exercise_cash :: "decimal option"

definition opening_time :: "moment option \<Rightarrow> int \<Rightarrow> int option result" where
  "opening_time opens cutoff = (case opens of None \<Rightarrow> Inr None
     | Some v \<Rightarrow> rbind (option_utc v) (\<lambda>t. if cutoff < t then Inl OptionError else Inr (Some t)))"

definition physical_terms :: "settlement_method \<Rightarrow> deliverable_leg list \<Rightarrow> pynum option \<Rightarrow> decimal option result" where
  "physical_terms method ds exercise_cash =
     (case method of
        PHYSICAL \<Rightarrow>
          if ds = [] then Inl OptionError
          else (case exercise_cash of None \<Rightarrow> Inl OptionError | Some v \<Rightarrow> rbind (option_decimal v True) (\<lambda>d. Inr (Some d)))
      | CASH_SETTLED \<Rightarrow> if ds \<noteq> [] then Inl OptionError else if exercise_cash \<noteq> None then Inl OptionError else Inr None)"

definition make_option :: "string \<Rightarrow> string \<Rightarrow> pynum \<Rightarrow> pynum \<Rightarrow> string \<Rightarrow> string \<Rightarrow> string \<Rightarrow> moment \<Rightarrow> moment
    \<Rightarrow> deliverable_leg list \<Rightarrow> moment option \<Rightarrow> pynum option \<Rightarrow> option_contract result" where
  "make_option instrument right strike multiplier currency method style expiry cutoff deliverable opens exercise_cash =
     rbind (option_name instrument) (\<lambda>i. rbind (right_of right) (\<lambda>r. rbind (option_decimal strike True) (\<lambda>k.
     rbind (option_decimal multiplier True) (\<lambda>m. rbind (option_name currency) (\<lambda>u. rbind (method_of method) (\<lambda>s.
     rbind (style_of style) (\<lambda>st. rbind (option_utc expiry) (\<lambda>e. rbind (option_utc cutoff) (\<lambda>c.
     rbind (require (c \<le> e) OptionError) (\<lambda>_. rbind (opening_time opens c) (\<lambda>op.
     rbind (require (distinct (map dl_asset_id deliverable)) OptionError) (\<lambda>_.
     rbind (physical_terms s deliverable exercise_cash) (\<lambda>x.
       Inr \<lparr>oc_instrument = i, oc_right = r, oc_strike = k, oc_multiplier = m, oc_currency = u, oc_method = s,
         oc_style = st, oc_expiry = e, oc_cutoff = c, oc_deliverable = deliverable, oc_opens_at = op,
         oc_exercise_cash = x\<rparr>)))))))))))))"

section \<open>Value and cash settlement\<close>

definition intrinsic_value_per_unit :: "option_contract \<Rightarrow> pynum \<Rightarrow> decimal result" where
  "intrinsic_value_per_unit c underlying_price = rbind (option_decimal underlying_price True) (\<lambda>price.
     rbind (case oc_right c of CALL \<Rightarrow> option_subtract price (oc_strike c) | PUT \<Rightarrow> option_subtract (oc_strike c) price)
       (\<lambda>d. Inr (at_least_zero d)))"

definition expiration_cash_settlement :: "option_contract \<Rightarrow> pynum \<Rightarrow> pynum \<Rightarrow> decimal result" where
  "expiration_cash_settlement c signed_contracts underlying_price =
     (if oc_method c \<noteq> CASH_SETTLED then Inl OptionError
      else rbind (option_decimal signed_contracts False) (\<lambda>contracts.
        rbind (intrinsic_value_per_unit c underlying_price) (\<lambda>intrinsic.
          option_multiply [contracts, oc_multiplier c, intrinsic])))"

definition expiration_pnl_after_premium :: "option_contract \<Rightarrow> pynum \<Rightarrow> pynum \<Rightarrow> pynum \<Rightarrow> decimal result" where
  "expiration_pnl_after_premium c signed_contracts premium_per_unit underlying_price =
     rbind (option_decimal signed_contracts False) (\<lambda>contracts. rbind (option_decimal premium_per_unit False) (\<lambda>premium.
       if dval premium < 0 then Inl OptionError
       else rbind (intrinsic_value_per_unit c underlying_price) (\<lambda>intrinsic.
         rbind (option_subtract intrinsic premium) (\<lambda>gain. option_multiply [contracts, oc_multiplier c, gain]))))"

section \<open>Physical exercise and assignment\<close>

record exercise_obligation =
  eo_assets :: "(string \<times> decimal) list"
  eo_cash :: decimal
  eo_currency :: string

definition physical_exercise_obligation :: "option_contract \<Rightarrow> pynum \<Rightarrow> exercise_obligation result" where
  "physical_exercise_obligation c signed_contracts =
     (if oc_method c \<noteq> PHYSICAL then Inl OptionError
      else rbind (option_decimal signed_contracts False) (\<lambda>contracts.
        if dval contracts = 0 then Inl OptionError
        else rbind (option_multiply [contracts, Decimal (oc_right c = PUT) 1 0]) (\<lambda>direction.
          rbind (rmap (\<lambda>leg. rbind (option_multiply [direction, dl_quantity leg]) (\<lambda>q. Inr (dl_asset_id leg, q)))
              (oc_deliverable c)) (\<lambda>assets.
          case oc_exercise_cash c of None \<Rightarrow> Inl OptionError
          | Some per_contract \<Rightarrow> rbind (option_multiply [direction, per_contract]) (\<lambda>amount. rbind (option_subtract dzero amount) (\<lambda>cash.
              Inr \<lparr>eo_assets = assets, eo_cash = cash, eo_currency = oc_currency c\<rparr>))))))"

definition require_asset :: "(string, pynum) dict \<Rightarrow> string \<times> decimal \<Rightarrow> unit result" where
  "require_asset balances item = (case item of (asset, quantity) \<Rightarrow>
     rbind (below_zero quantity) (\<lambda>needed.
       if \<not> needed then Inr ()
       else (case dict_get balances asset of None \<Rightarrow> Inl OptionError
         | Some raw \<Rightarrow> rbind (option_decimal raw False) (\<lambda>available. rbind (option_subtract dzero quantity) (\<lambda>due.
             require (dval due \<le> dval available) OptionError)))))"

definition require_physical_resources :: "exercise_obligation \<Rightarrow> (string, pynum) dict \<Rightarrow> pynum \<Rightarrow> unit result" where
  "require_physical_resources ob balances cash_balance =
     rbind (option_decimal cash_balance False) (\<lambda>cash. rbind (below_zero (eo_cash ob)) (\<lambda>pays.
     rbind (if pays then rbind (option_subtract dzero (eo_cash ob)) (\<lambda>due. require (dval due \<le> dval cash) OptionError)
            else Inr ()) (\<lambda>_.
       rbind (rmap (require_asset balances) (eo_assets ob)) (\<lambda>_. Inr ()))))"

section \<open>The exercise window\<close>

definition exercise_gate :: "option_contract \<Rightarrow> moment \<Rightarrow> string result" where
  "exercise_gate c when = rbind (option_utc when) (\<lambda>point.
     if oc_expiry c \<le> point then Inr ''EXPIRED''
     else if oc_cutoff c \<le> point then Inr ''EXERCISE_WINDOW_CLOSED''
     else (case oc_opens_at c of None \<Rightarrow> Inr ''PROVIDER_EXERCISE_WINDOW_REQUIRED''
       | Some opens \<Rightarrow> if point < opens then Inr ''EXERCISE_NOT_YET_OPEN'' else Inr ''OPEN''))"

definition require_holder_exercise_open :: "option_contract \<Rightarrow> moment \<Rightarrow> unit result" where
  "require_holder_exercise_open c when = rbind (exercise_gate c when) (\<lambda>state. require (state = ''OPEN'') OptionError)"

section \<open>Packages of legs\<close>

definition interim_multi_leg_reservation :: "pynum list \<Rightarrow> bool \<Rightarrow> pynum option \<Rightarrow> decimal result" where
  "interim_multi_leg_reservation leg_losses guaranteed package_loss =
     rbind (rmap (\<lambda>v. option_decimal v False) leg_losses) (\<lambda>losses.
       if losses = [] then Inl OptionError
       else if list_ex (\<lambda>d. dval d < 0) losses then Inl OptionError
       else if \<not> guaranteed then (if package_loss \<noteq> None then Inl OptionError else option_sum losses)
       else (case package_loss of None \<Rightarrow> Inl OptionError
         | Some v \<Rightarrow> rbind (option_decimal v False) (\<lambda>package. if dval package < 0 then Inl OptionError else Inr package)))"

section \<open>Booking\<close>

definition book_cash_option_settlement :: "string \<Rightarrow> string \<Rightarrow> string \<Rightarrow> pynum \<Rightarrow> journal_transaction result" where
  "book_cash_option_settlement tid cid settlement_currency amount =
     rbind (option_decimal amount False) (\<lambda>v. rbind (require (dval v \<noteq> 0) OptionError) (\<lambda>_.
     rbind (option_name settlement_currency) (\<lambda>u. rbind (option_name tid) (\<lambda>tid'. rbind (option_name cid) (\<lambda>cid'.
     rbind (make_posting (''CASH:'' @ u) u (PyDecimal v)) (\<lambda>p1. rbind (option_subtract dzero v) (\<lambda>nv.
     rbind (make_posting (''OPTION_SETTLEMENT_PNL:'' @ u) u (PyDecimal nv)) (\<lambda>p2.
       validated (plain_transaction tid' cid' [p1, p2])))))))))"

definition transfer_postings :: "string \<Rightarrow> string \<times> decimal \<Rightarrow> posting list result" where
  "transfer_postings prefix item = (case item of (asset, quantity) \<Rightarrow>
     rbind (make_posting (prefix @ asset) asset (PyDecimal quantity)) (\<lambda>p1. rbind (option_subtract dzero quantity) (\<lambda>nq.
     rbind (make_posting (''OPTION_DELIVERY_CLEARING:'' @ asset) asset (PyDecimal nq)) (\<lambda>p2. Inr [p1, p2]))))"

definition book_physical_option_settlement :: "string \<Rightarrow> string \<Rightarrow> exercise_obligation \<Rightarrow> journal_transaction result" where
  "book_physical_option_settlement tid cid ob =
     rbind (rmap (transfer_postings ''POSITION:'') (eo_assets ob)) (\<lambda>assets.
     rbind (if equals_zero (eo_cash ob) then Inr [] else transfer_postings ''CASH:'' (eo_currency ob, eo_cash ob)) (\<lambda>cash.
     rbind (option_name tid) (\<lambda>tid'. rbind (option_name cid) (\<lambda>cid'.
       validated (plain_transaction tid' cid' (concat assets @ cash))))))"

section \<open>What the steps compute\<close>

lemma option_simps [simp, result_simps]:
  "option_wrap m = Inr x \<longleftrightarrow> m = Inr x" "option_utc v = Inr us \<longleftrightarrow> v = Moment us"
  "option_name t = Inr u \<longleftrightarrow> strip t \<noteq> [] \<and> u = strip t"
  by (auto simp: option_wrap_def option_utc_def option_name_def split: moment.splits)

lemma option_decimal_Inr: "option_decimal v positive = Inr d \<Longrightarrow> in_envelope d \<and> dval d = pyval v \<and> (positive \<longrightarrow> 0 < dval d)"
  by (cases v) (auto simp: option_decimal_def dest: parse_Inr split: if_splits)

interpretation option_ops: exact_ops dval in_envelope "\<lambda>a b. option_wrap (exact_add a b)" option_subtract option_sum option_multiply
  by unfold_locales (auto simp: option_subtract_def option_sum_def option_multiply_def dest: exact.add_val exact.sub_val exact.total_val
      exact.product_val)

lemma at_least_zero_val [simp]: "dval (at_least_zero d) = max 0 (dval d)"
  by (simp add: at_least_zero_def max_def)

lemma below_zero_Inr: "in_envelope d \<Longrightarrow> below_zero d = Inr (dval d < 0)"
  by (cases d) (auto simp: in_envelope_def)

lemma equals_zero_val: "in_envelope d \<Longrightarrow> equals_zero d \<longleftrightarrow> dval d = 0"
  by (cases d) (auto simp: in_envelope_def)

text \<open>What a contract promises: the value of one unit at a price, and who receives the deliverable.\<close>

definition payoff_at :: "option_contract \<Rightarrow> rat \<Rightarrow> rat" where
  "payoff_at c price = max 0 (case oc_right c of CALL \<Rightarrow> price - dval (oc_strike c) | PUT \<Rightarrow> dval (oc_strike c) - price)"

definition holder_side :: "option_contract \<Rightarrow> rat" where
  "holder_side c = (case oc_right c of CALL \<Rightarrow> 1 | PUT \<Rightarrow> - 1)"

text \<open>What the constructors guarantee of a contract.\<close>

definition leg_ok :: "deliverable_leg \<Rightarrow> bool" where
  "leg_ok leg \<longleftrightarrow> dl_asset_id leg \<noteq> [] \<and> strip (dl_asset_id leg) = dl_asset_id leg \<and> in_envelope (dl_quantity leg)
     \<and> 0 < dval (dl_quantity leg)"

definition option_ok :: "option_contract \<Rightarrow> bool" where
  "option_ok c \<longleftrightarrow> 0 < dval (oc_strike c) \<and> 0 < dval (oc_multiplier c)
     \<and> oc_currency c \<noteq> [] \<and> strip (oc_currency c) = oc_currency c \<and> oc_cutoff c \<le> oc_expiry c
     \<and> (case oc_opens_at c of None \<Rightarrow> True | Some opens \<Rightarrow> opens \<le> oc_cutoff c)
     \<and> list_all leg_ok (oc_deliverable c) \<and> distinct (map dl_asset_id (oc_deliverable c))
     \<and> (oc_method c = PHYSICAL \<longleftrightarrow> oc_deliverable c \<noteq> []) \<and> (oc_method c = PHYSICAL \<longleftrightarrow> oc_exercise_cash c \<noteq> None)
     \<and> (case oc_exercise_cash c of None \<Rightarrow> True | Some x \<Rightarrow> 0 < dval x)"

lemma make_leg_ok: "make_leg a q = Inr leg \<Longrightarrow> leg_ok leg"
  by (auto simp: make_leg_def leg_ok_def dest!: option_decimal_Inr)

lemma opening_time_Inr: "opening_time v c = Inr t \<Longrightarrow> case t of None \<Rightarrow> True | Some o' \<Rightarrow> o' \<le> c"
  by (auto simp: opening_time_def split: option.splits if_splits)

lemma physical_terms_Inr:
  "physical_terms s ds x = Inr y \<Longrightarrow> (s = PHYSICAL \<longleftrightarrow> ds \<noteq> []) \<and> (s = PHYSICAL \<longleftrightarrow> y \<noteq> None)
     \<and> (case y of None \<Rightarrow> True | Some d \<Rightarrow> 0 < dval d)"
  by (cases s) (auto simp: physical_terms_def dest!: option_decimal_Inr split: option.splits if_splits)

lemma make_option_ok:
  assumes "make_option i r k m u s st e co ds op x = Inr c" and "list_all leg_ok ds"
  shows "option_ok c"
  using assms
  by (auto simp: make_option_def option_ok_def dest!: option_decimal_Inr opening_time_Inr physical_terms_Inr
      split: option.splits)

lemma intrinsic_Inr: "intrinsic_value_per_unit c p = Inr v \<Longrightarrow> dval v = payoff_at c (pyval p)"
  by (cases "oc_right c")
    (auto simp: intrinsic_value_per_unit_def payoff_at_def dest!: option_decimal_Inr option_ops.sub_val)

lemma cash_settlement_Inr:
  "expiration_cash_settlement c n p = Inr v
    \<Longrightarrow> oc_method c = CASH_SETTLED \<and> dval v = pyval n * dval (oc_multiplier c) * payoff_at c (pyval p)"
  by (auto simp: expiration_cash_settlement_def dest!: option_decimal_Inr intrinsic_Inr option_ops.product_val split: if_splits)

lemma pnl_after_premium_Inr:
  "expiration_pnl_after_premium c n w p = Inr v
    \<Longrightarrow> dval v = pyval n * dval (oc_multiplier c) * (payoff_at c (pyval p) - pyval w)"
  by (auto simp: expiration_pnl_after_premium_def
      dest!: option_decimal_Inr intrinsic_Inr option_ops.product_val option_ops.sub_val split: if_splits)

text \<open>Cash settlement is exact and obeys put-call parity.  A call and a put on the same terms settle to a difference
  of exactly the contracts times the multiplier times the distance of the price from the strike; the other side of
  the contracts settles to the opposite amount; and the profit after premium is the settlement less the
  contracts times the multiplier times the premium.
\<close>

theorem cash_settlement_parity:
  assumes "expiration_cash_settlement (c\<lparr>oc_right := CALL\<rparr>) n p = Inr call"
    and "expiration_cash_settlement (c\<lparr>oc_right := PUT\<rparr>) n p = Inr put"
    and "expiration_cash_settlement (c\<lparr>oc_right := CALL\<rparr>) n' p = Inr mirror" and "pyval n' = - pyval n"
    and "expiration_pnl_after_premium (c\<lparr>oc_right := CALL\<rparr>) n w p = Inr pnl"
  shows "dval call - dval put = pyval n * dval (oc_multiplier c) * (pyval p - dval (oc_strike c))
    \<and> dval mirror = - dval call \<and> dval pnl = dval call - pyval n * dval (oc_multiplier c) * pyval w"
proof (intro conjI)
  note vals = cash_settlement_Inr [OF assms(1)] cash_settlement_Inr [OF assms(2)] cash_settlement_Inr [OF assms(3)]
    pnl_after_premium_Inr [OF assms(5)]
  have "payoff_at (c\<lparr>oc_right := CALL\<rparr>) x - payoff_at (c\<lparr>oc_right := PUT\<rparr>) x = x - dval (oc_strike c)" for x
    by (simp add: payoff_at_def max_def)
  then show "dval call - dval put = pyval n * dval (oc_multiplier c) * (pyval p - dval (oc_strike c))"
    using vals(1,2) by (simp flip: right_diff_distrib)
  show "dval mirror = - dval call" "dval pnl = dval call - pyval n * dval (oc_multiplier c) * pyval w"
    using vals assms(4) by (simp_all add: right_diff_distrib)
qed

section \<open>Physical settlement\<close>

lemma obligation_Inr:
  assumes "physical_exercise_obligation c n = Inr ob"
  shows "oc_method c = PHYSICAL" and "pyval n \<noteq> 0" and "eo_currency ob = oc_currency c"
    and "list_all2 (\<lambda>leg (a, q). a = dl_asset_id leg \<and> in_envelope q \<and> dval q = holder_side c * pyval n * dval (dl_quantity leg))
      (oc_deliverable c) (eo_assets ob)"
    and "\<exists>x. oc_exercise_cash c = Some x \<and> dval (eo_cash ob) = - (holder_side c * pyval n * dval x)" and "in_envelope (eo_cash ob)"
proof -
  from assms obtain k d amount x where
    k: "option_decimal n False = Inr k" "dval k \<noteq> 0" and d: "option_multiply [k, Decimal (oc_right c = PUT) 1 0] = Inr d" and
    legs: "rmap (\<lambda>leg. rbind (option_multiply [d, dl_quantity leg]) (\<lambda>q. Inr (dl_asset_id leg, q))) (oc_deliverable c)
      = Inr (eo_assets ob)" and
    x: "oc_exercise_cash c = Some x" "option_multiply [d, x] = Inr amount" "option_subtract dzero amount = Inr (eo_cash ob)" and
    rest: "oc_method c = PHYSICAL" "eo_currency ob = oc_currency c"
    by (auto simp: physical_exercise_obligation_def split: if_splits option.splits)
  have dv: "dval d = holder_side c * pyval n"
    using option_ops.product_val [OF d] option_decimal_Inr [OF k(1)] by (cases "oc_right c") (simp_all add: holder_side_def)
  show "oc_method c = PHYSICAL" "eo_currency ob = oc_currency c" "pyval n \<noteq> 0"
    using rest k(2) option_decimal_Inr [OF k(1)] by simp_all
  show "list_all2 (\<lambda>leg (a, q). a = dl_asset_id leg \<and> in_envelope q \<and> dval q = holder_side c * pyval n * dval (dl_quantity leg))
      (oc_deliverable c) (eo_assets ob)"
    using legs dv by (auto simp: rmap_Inr_iff elim!: list_all2_mono dest!: option_ops.product_val)
  show "\<exists>x. oc_exercise_cash c = Some x \<and> dval (eo_cash ob) = - (holder_side c * pyval n * dval x)" "in_envelope (eo_cash ob)"
    using x dv by (auto dest!: option_ops.product_val option_ops.sub_val)
qed

lemma transfer_postings_legs:
  assumes "transfer_postings pre (a, q) = Inr ps" and "strip a = a" and "a \<noteq> []" and "pre \<noteq> []" and "\<not> is_space (hd pre)"
  shows "legs ps [(pre @ a, a, dval q), (''OPTION_DELIVERY_CLEARING:'' @ a, a, - dval q)]"
proof -
  from assms(1) obtain p1 nq p2 where
    ps: "make_posting (pre @ a) a (PyDecimal q) = Inr p1" "option_subtract dzero q = Inr nq"
      "make_posting (''OPTION_DELIVERY_CLEARING:'' @ a) a (PyDecimal nq) = Inr p2" "ps = [p1, p2]"
    by (auto simp: transfer_postings_def)
  from make_posting_account [OF ps(1) assms(2-5)] make_posting_account [OF ps(3) assms(2,3)] option_ops.sub_val [OF ps(2)] ps(4)
  show ?thesis by (simp add: legs_def is_space_def)
qed

lemma posted_transfers:
  assumes "list_all2 (\<lambda>item ps. transfer_postings ''POSITION:'' item = Inr ps) items pss"
    and "list_all (\<lambda>(a, q). strip a = a \<and> a \<noteq> []) items"
  shows "posted (''POSITION:'' @ x) x (concat pss) = sum_list (map (\<lambda>(a, q). if a = x then dval q else 0) items)
    \<and> posted (''CASH:'' @ x) x (concat pss) = 0"
  using assms
proof (induction rule: list_all2_induct)
  case (Cons item items ps pss)
  obtain a q where item: "item = (a, q)" by force
  with Cons have "legs ps [(''POSITION:'' @ a, a, dval q), (''OPTION_DELIVERY_CLEARING:'' @ a, a, - dval q)]"
    by (intro transfer_postings_legs) (auto simp: is_space_def)
  from posted_legs [OF this] item Cons show ?case by (auto simp: leg_sum_def)
qed simp

lemma sum_of_distinct:
  fixes f :: "'b \<Rightarrow> rat"
  assumes "distinct (map fst xs)" and "(a, q) \<in> set xs"
  shows "sum_list (map (\<lambda>(b, r). if b = a then f r else 0) xs) = f q"
  using assms
proof (induction xs)
  case (Cons x xs)
  have "sum_list (map (\<lambda>(b, r). if b = a then f r else 0) ys) = 0" if "a \<notin> fst ` set ys" for ys
    using that by (induction ys) auto
  with Cons show ?case by (cases x) force
qed simp

text \<open>What a booked physical settlement posts.\<close>

lemma physical_settlement_posts:
  assumes "option_ok c" and "physical_exercise_obligation c n = Inr ob" and "book_physical_option_settlement tid cid ob = Inr t"
  shows "(a, q) \<in> set (eo_assets ob) \<Longrightarrow> posted (''POSITION:'' @ a) a (postings t) = dval q"
    and "posted (''CASH:'' @ oc_currency c) (oc_currency c) (postings t) = dval (eo_cash ob)"
proof -
  note ob = obligation_Inr [OF assms(2)]
  from assms(3) obtain pss cs tid' cid' where
    pss: "list_all2 (\<lambda>item ps. transfer_postings ''POSITION:'' item = Inr ps) (eo_assets ob) pss" and
    cs: "(if equals_zero (eo_cash ob) then Inr [] else transfer_postings ''CASH:'' (eo_currency ob, eo_cash ob)) = Inr cs" and
    t: "t = plain_transaction tid' cid' (concat pss @ cs)"
    by (auto simp: book_physical_option_settlement_def rmap_Inr_iff)
  have ids: "map fst (eo_assets ob) = map dl_asset_id (oc_deliverable c)"
    using ob(4) by (induction rule: list_all2_induct) auto
  have cash: "posted (''CASH:'' @ oc_currency c) (oc_currency c) cs = dval (eo_cash ob)"
    "posted (''POSITION:'' @ x) x cs = 0" for x
  proof -
    have "legs cs (if dval (eo_cash ob) = 0 then [] else [(''CASH:'' @ oc_currency c, oc_currency c, dval (eo_cash ob)),
        (''OPTION_DELIVERY_CLEARING:'' @ oc_currency c, oc_currency c, - dval (eo_cash ob))])"
      using cs assms(1) ob(3) equals_zero_val [OF ob(6)] transfer_postings_legs [of "''CASH:''" "oc_currency c" "eo_cash ob" cs]
      by (auto simp: option_ok_def legs_def is_space_def split: if_splits)
    from posted_legs [OF this] show "posted (''CASH:'' @ oc_currency c) (oc_currency c) cs = dval (eo_cash ob)"
      "posted (''POSITION:'' @ x) x cs = 0" for x by (auto simp: leg_sum_def)
  qed
  have "list_all (\<lambda>(a, q). strip a = a \<and> a \<noteq> []) (eo_assets ob)"
  proof -
    have "\<forall>a \<in> set (map fst (eo_assets ob)). strip a = a \<and> a \<noteq> []"
      using assms(1) by (auto simp: ids option_ok_def list_all_iff leg_ok_def)
    then show ?thesis by (auto simp: list_all_iff)
  qed
  note sums = posted_transfers [OF pss this]
  show "posted (''CASH:'' @ oc_currency c) (oc_currency c) (postings t) = dval (eo_cash ob)"
    using sums cash by (simp add: t plain_transaction_def)
  assume "(a, q) \<in> set (eo_assets ob)"
  then show "posted (''POSITION:'' @ a) a (postings t) = dval q"
    using sums cash sum_of_distinct [of "eo_assets ob" a q dval] assms(1) ids by (simp add: t plain_transaction_def option_ok_def)
qed

lemma require_asset_Inr:
  assumes "require_asset balances (a, q) = Inr u" and "in_envelope q"
  shows "dval q < 0 \<Longrightarrow> \<exists>b. dict_get balances a = Some b \<and> 0 \<le> pyval b + dval q"
  using assms(1)
  by (auto simp: require_asset_def below_zero_Inr [OF assms(2)] dest!: option_decimal_Inr option_ops.sub_val split: option.splits)

lemma resources_Inr:
  assumes "require_physical_resources ob balances money = Inr u" and "in_envelope (eo_cash ob)"
  shows "dval (eo_cash ob) < 0 \<Longrightarrow> 0 \<le> pyval money + dval (eo_cash ob)"
    and "item \<in> set (eo_assets ob) \<Longrightarrow> \<exists>v. require_asset balances item = Inr v"
  using assms(1)
  by (auto simp: require_physical_resources_def below_zero_Inr [OF assms(2)] rmap_Inr_iff list_all2_conv_all_nth in_set_conv_nth
      dest!: option_decimal_Inr option_ops.sub_val split: if_splits)

lemma covered_move: "(x < 0 \<Longrightarrow> 0 \<le> b + x) \<Longrightarrow> min 0 b \<le> b + (x :: rat)"
  by (cases "x < 0") auto

text \<open>(C13) Physical settlement never overdraws.  A contract is exercised or assigned, the resources it needs are
  found sufficient and the settlement is booked.  Then the journal books to the position of each
  deliverable exactly the adjusted quantity per contract times the signed contracts, received by the holder
  of a call and delivered by the holder of a put, and to cash the exercise price the other way; a delivered asset
  has an evidenced balance, and no evidenced balance, of an asset or of cash, falls below zero through it.
\<close>

theorem physical_settlement_covered:
  assumes "option_ok c" and "physical_exercise_obligation c n = Inr ob"
    and "require_physical_resources ob balances money = Inr ()" and "book_physical_option_settlement tid cid ob = Inr t"
  shows "(\<forall>leg \<in> set (oc_deliverable c). let a = dl_asset_id leg; moved = posted (''POSITION:'' @ a) a (postings t) in
       moved = holder_side c * pyval n * dval (dl_quantity leg)
       \<and> (case dict_get balances a of None \<Rightarrow> 0 \<le> moved | Some b \<Rightarrow> min 0 (pyval b) \<le> pyval b + moved))
     \<and> (let u = oc_currency c; paid = posted (''CASH:'' @ u) u (postings t) in
       (\<exists>x. oc_exercise_cash c = Some x \<and> paid = - (holder_side c * pyval n * dval x)) \<and> min 0 (pyval money) \<le> pyval money + paid)"
proof (intro conjI ballI)
  note ob = obligation_Inr [OF assms(2)] and posts = physical_settlement_posts [OF assms(1,2,4)]
  note res = resources_Inr [OF assms(3) ob(6)]
  show "let u = oc_currency c; paid = posted (''CASH:'' @ u) u (postings t) in
       (\<exists>x. oc_exercise_cash c = Some x \<and> paid = - (holder_side c * pyval n * dval x)) \<and> min 0 (pyval money) \<le> pyval money + paid"
    using ob(5) posts(2) covered_move [OF res(1)] by (auto simp: Let_def)
  fix leg assume "leg \<in> set (oc_deliverable c)"
  with ob(4) obtain q where q: "(dl_asset_id leg, q) \<in> set (eo_assets ob)" "in_envelope q"
    "dval q = holder_side c * pyval n * dval (dl_quantity leg)"
    by (fastforce simp: list_all2_conv_all_nth in_set_conv_nth)
  obtain v where "require_asset balances (dl_asset_id leg, q) = Inr v" using res(2) [OF q(1)] by blast
  from require_asset_Inr [OF this q(2)] posts(1) [OF q(1)] q(3)
  show "let a = dl_asset_id leg; moved = posted (''POSITION:'' @ a) a (postings t) in
       moved = holder_side c * pyval n * dval (dl_quantity leg)
       \<and> (case dict_get balances a of None \<Rightarrow> 0 \<le> moved | Some b \<Rightarrow> min 0 (pyval b) \<le> pyval b + moved)"
    by (cases "dval q < 0") (auto simp: Let_def min_def split: option.splits)
qed

section \<open>The window and packages of legs\<close>

text \<open>A holder may exercise exactly within the provider's window.  The request passes at an instant at or after
  the evidenced opening and before the cutoff, which is never after the expiry, and raises \<open>OptionError\<close> at every
  other instant and whenever no opening is evidenced.
\<close>

theorem holder_exercise_window:
  assumes "option_ok c"
  shows "require_holder_exercise_open c (Moment t) =
    (if (\<exists>opens. oc_opens_at c = Some opens \<and> opens \<le> t) \<and> t < oc_cutoff c then Inr () else Inl OptionError)"
  using assms
  by (auto simp: require_holder_exercise_open_def exercise_gate_def option_utc_def require_def option_ok_def split: option.splits)

text \<open>Without a guarantee of atomic execution the reservation of a package is the sum of its legs' worst losses, so
  at least each of them, and no package figure is accepted in its place.\<close>

theorem interim_reservation_covers_legs:
  assumes "interim_multi_leg_reservation losses False package = Inr r"
  shows "package = None \<and> dval r = sum_list (map pyval losses) \<and> (\<forall>v \<in> set losses. 0 \<le> pyval v \<and> pyval v \<le> dval r)"
proof -
  from assms obtain ds where ds: "list_all2 (\<lambda>v d. option_decimal v False = Inr d) losses ds" and
    nonneg: "\<forall>d \<in> set ds. 0 \<le> dval d" and r: "option_sum ds = Inr r" "package = None"
    by (auto simp: interim_multi_leg_reservation_def rmap_Inr_iff list_ex_iff not_less split: if_splits)
  have vals: "map dval ds = map pyval losses"
    using ds by (induction rule: list_all2_induct) (auto dest!: option_decimal_Inr)
  then have "pyval ` set losses = dval ` set ds" by (metis list.set_map)
  with nonneg have pos: "\<forall>v \<in> set losses. 0 \<le> pyval v" by (metis imageE imageI)
  moreover have "dval r = sum_list (map pyval losses)" using option_ops.total_val [OF r(1)] vals by simp
  ultimately show ?thesis using r(2) sum_list_member_le [of _ losses pyval] by auto
qed

section \<open>A contract\<close>

text \<open>A put on two shares for each contract, exercisable from instant 2 on and before instant 8.\<close>

definition share_put :: option_contract where
  "share_put = \<lparr>oc_instrument = ''XYZ-P5'', oc_right = PUT, oc_strike = Decimal False 5 0, oc_multiplier = Decimal False 2 0,
     oc_currency = ''USD'', oc_method = PHYSICAL, oc_style = AMERICAN, oc_expiry = 9, oc_cutoff = 8,
     oc_deliverable = [\<lparr>dl_asset_id = ''XYZ'', dl_quantity = Decimal False 2 0\<rparr>], oc_opens_at = Some 2,
     oc_exercise_cash = Some (Decimal False 7 0)\<rparr>"

lemma share_put_made:
  "make_leg '' XYZ'' (PyInt 2) = Inr \<lparr>dl_asset_id = ''XYZ'', dl_quantity = Decimal False 2 0\<rparr>"
  "make_option ''XYZ-P5 '' ''PUT'' (PyInt 5) (PyStr ''2'') ''USD'' ''PHYSICAL'' ''american'' (Moment 9) (Moment 8)
     [\<lparr>dl_asset_id = ''XYZ'', dl_quantity = Decimal False 2 0\<rparr>] (Some (Moment 2)) (Some (PyInt 7)) = Inr share_put"
  by code_simp+

lemma share_put_ok: "option_ok share_put"
  using make_option_ok [OF share_put_made(2)] make_leg_ok [OF share_put_made(1)] by simp

definition put_exercise :: exercise_obligation where
  "put_exercise = \<lparr>eo_assets = [(''XYZ'', Decimal True 4 0)], eo_cash = Decimal False 14 0, eo_currency = ''USD''\<rparr>"

lemma put_exercise_runs:
  "physical_exercise_obligation share_put (PyInt 2) = Inr put_exercise"
  "require_physical_resources put_exercise [(''XYZ'', PyInt 6)] (PyInt 0) = Inr ()"
  "require_physical_resources put_exercise [(''XYZ'', PyInt 3)] (PyInt 0) = Inl OptionError"
  by code_simp+

lemma put_exercise_booked:
  "\<exists>t. book_physical_option_settlement ''t1'' ''e1'' put_exercise = Inr t"
proof -
  have "(case book_physical_option_settlement ''t1'' ''e1'' put_exercise of Inl _ \<Rightarrow> False | Inr _ \<Rightarrow> True)" by code_simp
  then show ?thesis by (auto split: sum.splits)
qed

theorem physical_settlement_covered_witness:
  "\<exists>t. book_physical_option_settlement ''t1'' ''e1'' put_exercise = Inr t \<and> posted ''POSITION:XYZ'' ''XYZ'' (postings t) = - 4
    \<and> posted ''CASH:USD'' ''USD'' (postings t) = 14 \<and> 0 \<le> 6 + posted ''POSITION:XYZ'' ''XYZ'' (postings t)"
proof -
  obtain t where t: "book_physical_option_settlement ''t1'' ''e1'' put_exercise = Inr t" using put_exercise_booked by blast
  from physical_settlement_covered [OF share_put_ok put_exercise_runs(1,2) t] t show ?thesis
    by (intro exI [of _ t]) (simp add: share_put_def holder_side_def Let_def)
qed

theorem holder_exercise_window_witness:
  "require_holder_exercise_open share_put (Moment 2) = Inr () \<and> require_holder_exercise_open share_put (Moment 8) = Inl OptionError
    \<and> require_holder_exercise_open share_put (Moment 1) = Inl OptionError"
  using holder_exercise_window [OF share_put_ok, of 2] holder_exercise_window [OF share_put_ok, of 8]
    holder_exercise_window [OF share_put_ok, of 1] by (simp add: share_put_def)

definition cash_option :: option_contract where
  "cash_option = share_put\<lparr>oc_method := CASH_SETTLED, oc_deliverable := [], oc_exercise_cash := None\<rparr>"

theorem cash_settlement_parity_witness:
  "\<exists>call put mirror pnl.
    expiration_cash_settlement (cash_option\<lparr>oc_right := CALL\<rparr>) (PyInt 3) (PyInt 4) = Inr call
    \<and> expiration_cash_settlement (cash_option\<lparr>oc_right := PUT\<rparr>) (PyInt 3) (PyInt 4) = Inr put
    \<and> expiration_cash_settlement (cash_option\<lparr>oc_right := CALL\<rparr>) (PyInt (- 3)) (PyInt 4) = Inr mirror
    \<and> expiration_pnl_after_premium (cash_option\<lparr>oc_right := CALL\<rparr>) (PyInt 3) (PyInt 1) (PyInt 4) = Inr pnl
    \<and> dval call - dval put = - 6 \<and> dval mirror = - dval call \<and> dval pnl = dval call - 6"
proof -
  have runs: "expiration_cash_settlement (cash_option\<lparr>oc_right := CALL\<rparr>) (PyInt 3) (PyInt 4) = Inr dzero"
    "expiration_cash_settlement (cash_option\<lparr>oc_right := PUT\<rparr>) (PyInt 3) (PyInt 4) = Inr (Decimal False 6 0)"
    "expiration_cash_settlement (cash_option\<lparr>oc_right := CALL\<rparr>) (PyInt (- 3)) (PyInt 4) = Inr dzero"
    "expiration_pnl_after_premium (cash_option\<lparr>oc_right := CALL\<rparr>) (PyInt 3) (PyInt 1) (PyInt 4) = Inr (Decimal True 6 0)"
    by code_simp+
  from cash_settlement_parity [OF runs(1-3) _ runs(4)] runs show ?thesis
    by (simp add: cash_option_def share_put_def)
qed

end
