(* ===== verification/Option_Evidence.thy ===== *)
theory Option_Evidence
  imports Options Risk_Evaluation
begin

text \<open>
  \<open>mvp/autotrade_mvp/options.py\<close>, model evidence: scenario results and Greeks under a model version, their payload as
  an immutable artifact, and the checks before they are relied on.  A record has type parameters for its numbers and
  instants: what a caller passes, or the Decimals and UTC instants its constructor stores.  A \<open>timedelta\<close> is a
  number of microseconds.  The read of the artifact store is a parameter, as in \<open>Risk_Evaluation\<close>.
\<close>

section \<open>Identities\<close>

definition to_lower :: "char \<Rightarrow> char" where
  "to_lower c = (let n = (of_char c :: nat) in if 65 \<le> n \<and> n \<le> 90 then char_of (n + 32) else c)"

definition source_sha :: "string \<Rightarrow> string result" where
  "source_sha v = (if v \<noteq> strip v \<or> v \<noteq> map to_lower v \<or> length v \<notin> {40, 64} \<or> \<not> list_all is_hex_lower v
     then Inl OptionError else Inr v)"

definition input_digest :: "string \<Rightarrow> string result" where
  "input_digest v = (if v \<noteq> strip v \<or> \<not> is_sha256 v then Inl OptionError else Inr v)"

definition text_tuple :: "bool \<Rightarrow> string list \<Rightarrow> string list result" where
  "text_tuple allow_empty values = rbind (rmap option_name values) (\<lambda>normalized.
     if \<not> allow_empty \<and> normalized = [] then Inl OptionError
     else if \<not> distinct normalized then Inl OptionError else Inr normalized)"

text \<open>\<open>text.split(marker, 1)\<close> where the marker occurs.\<close>

fun split_first :: "string \<Rightarrow> string \<Rightarrow> (string \<times> string) option" where
  "split_first marker [] = (if marker = [] then Some ([], []) else None)"
| "split_first marker (c # cs) =
     (if take (length marker) (c # cs) = marker then Some ([], drop (length marker) (c # cs))
      else map_option (\<lambda>(before, after). (c # before, after)) (split_first marker cs))"

definition immutable_option_evidence_ref :: "string option \<Rightarrow> (string \<times> string \<times> string) result" where
  "immutable_option_evidence_ref v =
     (case v of None \<Rightarrow> Inl OptionError
      | Some t \<Rightarrow>
          let reference = strip t in
          if reference = [] \<or> take 9 reference \<noteq> ''artifact:'' then Inl OptionError
          else (case split_first ''@sha256:'' (drop 9 reference) of None \<Rightarrow> Inl OptionError
            | Some (identity, digest) \<Rightarrow>
                rbind (translate ValueError OptionError (uuid_text identity)) (\<lambda>artifact.
                  if length digest \<noteq> 64 \<or> \<not> list_all is_hex_lower digest then Inl OptionError
                  else let canonical = ''artifact:'' @ artifact @ ''@sha256:'' @ digest in
                    if reference \<noteq> canonical then Inl OptionError else Inr (artifact, digest, canonical))))"

section \<open>Scenarios and evidence\<close>

record 'n option_scenario =
  os_id :: string
  os_underlying_price :: 'n
  os_implied_volatility :: 'n
  os_pnl :: 'n

definition make_scenario :: "pynum option_scenario \<Rightarrow> decimal option_scenario result" where
  "make_scenario s =
     rbind (option_name (os_id s)) (\<lambda>i. rbind (option_decimal (os_underlying_price s) False) (\<lambda>price.
     rbind (require (0 \<le> dval price) OptionError) (\<lambda>_. rbind (option_decimal (os_implied_volatility s) False) (\<lambda>volatility.
     rbind (require (0 \<le> dval volatility) OptionError) (\<lambda>_. rbind (option_decimal (os_pnl s) False) (\<lambda>pnl.
       Inr \<lparr>os_id = i, os_underlying_price = price, os_implied_volatility = volatility, os_pnl = pnl\<rparr>))))))"

record ('n, 't) option_evidence =
  oe_instrument :: string
  oe_model_id :: string
  oe_model_version :: string
  oe_source_sha :: string
  oe_input_digest :: string
  oe_schema_version :: int
  oe_market_as_of :: 't
  oe_calculated_at :: 't
  oe_expires_at :: 't
  oe_maximum_market_age :: int
  oe_delta :: 'n
  oe_gamma :: 'n
  oe_vega :: 'n
  oe_theta :: 'n
  oe_rho :: 'n
  oe_scenarios :: "decimal option_scenario list"
  oe_tests_run :: "string list"
  oe_unresolved_limits :: "string list"
  oe_ref :: "string option"

type_synonym sealed_evidence = "(decimal, int) option_evidence"

definition make_option_evidence :: "(pynum, moment) option_evidence \<Rightarrow> sealed_evidence result" where
  "make_option_evidence e =
     rbind (option_name (oe_instrument e)) (\<lambda>instrument. rbind (option_name (oe_model_id e)) (\<lambda>model.
     rbind (option_name (oe_model_version e)) (\<lambda>version. rbind (source_sha (oe_source_sha e)) (\<lambda>sha.
     rbind (input_digest (oe_input_digest e)) (\<lambda>digest. rbind (require (0 < oe_schema_version e) OptionError) (\<lambda>_.
     rbind (option_utc (oe_market_as_of e)) (\<lambda>market. rbind (option_utc (oe_calculated_at e)) (\<lambda>calculated.
     rbind (option_utc (oe_expires_at e)) (\<lambda>expires. rbind (require (market \<le> calculated) OptionError) (\<lambda>_.
     rbind (require (calculated < expires) OptionError) (\<lambda>_. rbind (require (0 < oe_maximum_market_age e) OptionError) (\<lambda>_.
     rbind (require (calculated - market \<le> oe_maximum_market_age e) OptionError) (\<lambda>_.
     rbind (option_decimal (oe_delta e) False) (\<lambda>delta. rbind (option_decimal (oe_gamma e) False) (\<lambda>gamma.
     rbind (option_decimal (oe_vega e) False) (\<lambda>vega. rbind (option_decimal (oe_theta e) False) (\<lambda>theta.
     rbind (option_decimal (oe_rho e) False) (\<lambda>rho. rbind (require (oe_scenarios e \<noteq> []) OptionError) (\<lambda>_.
     rbind (require (distinct (map os_id (oe_scenarios e))) OptionError) (\<lambda>_.
     rbind (text_tuple False (oe_tests_run e)) (\<lambda>tests. rbind (text_tuple True (oe_unresolved_limits e)) (\<lambda>limits.
     rbind (case oe_ref e of None \<Rightarrow> Inr None
       | Some t \<Rightarrow> rbind (immutable_option_evidence_ref (Some t)) (\<lambda>(_, _, canonical). Inr (Some canonical))) (\<lambda>ref.
       Inr \<lparr>oe_instrument = instrument, oe_model_id = model, oe_model_version = version, oe_source_sha = sha,
         oe_input_digest = digest, oe_schema_version = oe_schema_version e, oe_market_as_of = market,
         oe_calculated_at = calculated, oe_expires_at = expires, oe_maximum_market_age = oe_maximum_market_age e,
         oe_delta = delta, oe_gamma = gamma, oe_vega = vega, oe_theta = theta, oe_rho = rho,
         oe_scenarios = oe_scenarios e, oe_tests_run = tests, oe_unresolved_limits = limits, oe_ref = ref\<rparr>)))))))))))))))))))))))"

text \<open>Unary minus of a Decimal rounds to the current context; the program never sets one, so this is Python's default of
  28 digits, halves to even.\<close>

definition context_digits :: nat where "context_digits = 28"

fun context_minus :: "decimal \<Rightarrow> decimal" where
  "context_minus (Decimal s c e) =
     (let k = length (digits_of c) - context_digits in
      if c = 0 then Decimal False 0 e
      else if k = 0 then Decimal (\<not> s) c e
      else let r = nat (round_units (of_nat c / 10 ^ k) HALF_EVEN) in
        if r = 10 ^ context_digits then Decimal (\<not> s) (10 ^ (context_digits - 1)) (e + int k + 1)
        else Decimal (\<not> s) r (e + int k))"
| "context_minus (Infinity s) = Infinity (\<not> s)"
| "context_minus NaN = NaN"

fun first_max :: "decimal list \<Rightarrow> decimal" where
  "first_max [] = dzero"
| "first_max (d # ds) = foldl (\<lambda>a b. if dval a < dval b then b else a) d ds"

definition worst_scenario_loss :: "sealed_evidence \<Rightarrow> decimal" where
  "worst_scenario_loss e = first_max (map (\<lambda>s. at_least_zero (context_minus (os_pnl s))) (oe_scenarios e))"

section \<open>The artifact\<close>

definition evidence_decimal_text :: "decimal \<Rightarrow> string result" where
  "evidence_decimal_text d = rbind (option_decimal (PyDecimal d) False) (\<lambda>n. option_wrap (canonical_decimal_text n))"

definition duration_microseconds :: "int \<Rightarrow> int result" where
  "duration_microseconds age = (if age \<le> 0 then Inl OptionError else Inr age)"

definition text_field :: "string \<times> decimal \<Rightarrow> (string \<times> json) result" where
  "text_field item = (case item of (k, d) \<Rightarrow> rbind (evidence_decimal_text d) (\<lambda>t. Inr (k, JStr t)))"

definition scenario_payload :: "decimal option_scenario \<Rightarrow> json result" where
  "scenario_payload s = rbind (rmap text_field [(''underlying_price'', os_underlying_price s),
       (''implied_volatility'', os_implied_volatility s), (''pnl'', os_pnl s)]) (\<lambda>fields.
     Inr (JObj ((''scenario_id'', JStr (os_id s)) # fields)))"

definition greeks :: "sealed_evidence \<Rightarrow> (string \<times> decimal) list" where
  "greeks e = [(''delta'', oe_delta e), (''gamma'', oe_gamma e), (''vega'', oe_vega e), (''theta'', oe_theta e), (''rho'', oe_rho e)]"

definition option_risk_evidence_payload :: "sealed_evidence \<Rightarrow> (string \<times> json) list result" where
  "option_risk_evidence_payload e =
     rbind (duration_microseconds (oe_maximum_market_age e)) (\<lambda>age. rbind (rmap text_field (greeks e)) (\<lambda>gs.
     rbind (rmap scenario_payload (oe_scenarios e)) (\<lambda>ss.
       Inr [(''schema_version'', JInt (oe_schema_version e)), (''instrument'', JStr (oe_instrument e)),
         (''model_id'', JStr (oe_model_id e)), (''model_version'', JStr (oe_model_version e)),
         (''source_sha'', JStr (oe_source_sha e)), (''input_digest'', JStr (oe_input_digest e)),
         (''market_as_of'', JStr (utc_text (oe_market_as_of e))), (''calculated_at'', JStr (utc_text (oe_calculated_at e))),
         (''expires_at'', JStr (utc_text (oe_expires_at e))), (''maximum_market_age_microseconds'', JInt age),
         (''greeks'', JObj gs), (''scenarios'', JList ss), (''tests_run'', JList (map JStr (oe_tests_run e))),
         (''unresolved_limits'', JList (map JStr (oe_unresolved_limits e)))])))"

definition option_risk_evidence_metadata :: "sealed_evidence \<Rightarrow> (string \<times> json) list" where
  "option_risk_evidence_metadata e =
     [(''artifact_kind'', JStr ''OPTION_RISK_EVIDENCE''), (''schema_version'', JInt (oe_schema_version e)),
      (''instrument'', JStr (oe_instrument e)), (''model_id'', JStr (oe_model_id e)),
      (''model_version'', JStr (oe_model_version e)), (''source_sha'', JStr (oe_source_sha e)),
      (''input_digest'', JStr (oe_input_digest e)), (''calculated_at'', JStr (utc_text (oe_calculated_at e)))]"

definition stored_for_option :: "sealed_evidence \<Rightarrow> string \<Rightarrow> string \<Rightarrow> (string \<times> json) list \<Rightarrow> bool" where
  "stored_for_option e artifact digest manifest \<longleftrightarrow>
     manifest_text manifest ''artifact_id'' artifact \<and> manifest_text manifest ''sha256'' (''sha256:'' @ digest)
     \<and> (case dict_get manifest ''manifest_hash'' of Some (JStr h) \<Rightarrow> is_sha256 h | _ \<Rightarrow> False)
     \<and> (case dict_get manifest ''rights'' of Some (JObj rights) \<Rightarrow> dict_get rights ''storage'' = Some (JBool True) | _ \<Rightarrow> False)
     \<and> manifest_text manifest ''media_type'' ''application/json''
     \<and> (case dict_get manifest ''metadata'' of
          Some (JObj metadata) \<Rightarrow> dict_same scalar_equal metadata (option_risk_evidence_metadata e) | _ \<Rightarrow> False)"

definition verify_option_risk_evidence :: "sealed_evidence \<Rightarrow> evidence_store \<Rightarrow> unit result" where
  "verify_option_risk_evidence e read =
     rbind (immutable_option_evidence_ref (oe_ref e)) (\<lambda>(artifact, digest, _).
       case read artifact of None \<Rightarrow> Inl OptionError
       | Some (manifest, raw) \<Rightarrow>
           if \<not> stored_for_option e artifact digest manifest then Inl OptionError
           else rbind (option_risk_evidence_payload e) (\<lambda>payload. require (raw = json_text_raw (JObj payload)) OptionError))"

definition require_current_option_risk :: "sealed_evidence \<Rightarrow> string \<Rightarrow> moment \<Rightarrow> int \<Rightarrow> int \<Rightarrow> evidence_store
    \<Rightarrow> unit result" where
  "require_current_option_risk e instrument when maximum_calculation_age maximum_market_age read =
     rbind (require (0 < maximum_calculation_age) OptionError) (\<lambda>_. rbind (require (0 < maximum_market_age) OptionError) (\<lambda>_.
     rbind (option_name instrument) (\<lambda>expected. rbind (require (oe_instrument e = expected) OptionError) (\<lambda>_.
     rbind (require (oe_unresolved_limits e = []) OptionError) (\<lambda>_. rbind (option_utc when) (\<lambda>point.
     rbind (require (oe_calculated_at e \<le> point) OptionError) (\<lambda>_. rbind (require (point < oe_expires_at e) OptionError) (\<lambda>_.
     rbind (require (point - oe_calculated_at e \<le> maximum_calculation_age) OptionError) (\<lambda>_.
     rbind (require (point - oe_market_as_of e \<le> oe_maximum_market_age e) OptionError) (\<lambda>_.
     rbind (require (point - oe_market_as_of e \<le> maximum_market_age) OptionError) (\<lambda>_.
       verify_option_risk_evidence e read)))))))))))"

section \<open>An artifact fixes its evidence\<close>

lemma evidence_text_value:
  assumes "evidence_decimal_text a = Inr t" and "evidence_decimal_text b = Inr t"
  shows "dval a = dval b"
proof -
  from assms obtain m n where "option_decimal (PyDecimal a) False = Inr m" "option_decimal (PyDecimal b) False = Inr n"
    "canonical_decimal_text m = Inr t" "canonical_decimal_text n = Inr t" by (auto simp: evidence_decimal_text_def)
  then show ?thesis using canonical_text_value [of m t n] by (auto dest!: option_decimal_Inr)
qed

lemma text_fields_Inr:
  assumes "rmap text_field ds = Inr fs" and "(k, d) \<in> set ds" and "distinct (map fst ds)"
  shows "\<exists>t. evidence_decimal_text d = Inr t \<and> dict_get fs k = Some (JStr t)"
  using assms
proof (induction ds arbitrary: fs)
  case (Cons x ds)
  then show ?case by (cases x) (force simp: text_field_def)
qed simp

lemma text_fields_keys: "rmap text_field ds = Inr fs \<Longrightarrow> map fst fs = map fst ds"
  by (induction ds arbitrary: fs) (auto simp: text_field_def)

lemma text_fields_agree:
  assumes "rmap text_field ds = Inr fs" and "rmap text_field es = Inr gs" and "distinct (map fst ds)" and "distinct (map fst es)"
    and "map_option json_sort (dict_get fs k) = map_option json_sort (dict_get gs k)" and "(k, d) \<in> set ds" and "(k, e) \<in> set es"
  shows "dval d = dval e"
proof -
  obtain t where t: "evidence_decimal_text d = Inr t" "dict_get fs k = Some (JStr t)" using text_fields_Inr [OF assms(1,6,3)] by blast
  obtain u where u: "evidence_decimal_text e = Inr u" "dict_get gs k = Some (JStr u)" using text_fields_Inr [OF assms(2,7,4)] by blast
  have "t = u" using assms(5) t(2) u(2) by simp
  with t(1) u(1) show ?thesis by (metis evidence_text_value)
qed

text \<open>Two pieces of evidence that say the same; Decimals are compared by value.\<close>

definition same_scenario :: "decimal option_scenario \<Rightarrow> decimal option_scenario \<Rightarrow> bool" where
  "same_scenario s u \<longleftrightarrow> os_id s = os_id u \<and> dval (os_underlying_price s) = dval (os_underlying_price u)
     \<and> dval (os_implied_volatility s) = dval (os_implied_volatility u) \<and> dval (os_pnl s) = dval (os_pnl u)"

definition same_economics :: "sealed_evidence \<Rightarrow> sealed_evidence \<Rightarrow> bool" where
  "same_economics d e \<longleftrightarrow> oe_instrument d = oe_instrument e \<and> oe_model_id d = oe_model_id e
     \<and> oe_model_version d = oe_model_version e \<and> oe_source_sha d = oe_source_sha e \<and> oe_input_digest d = oe_input_digest e
     \<and> oe_schema_version d = oe_schema_version e \<and> oe_market_as_of d = oe_market_as_of e
     \<and> oe_calculated_at d = oe_calculated_at e \<and> oe_expires_at d = oe_expires_at e
     \<and> oe_maximum_market_age d = oe_maximum_market_age e
     \<and> map (\<lambda>(k, v). (k, dval v)) (greeks d) = map (\<lambda>(k, v). (k, dval v)) (greeks e)
     \<and> list_all2 same_scenario (oe_scenarios d) (oe_scenarios e) \<and> oe_tests_run d = oe_tests_run e
     \<and> oe_unresolved_limits d = oe_unresolved_limits e"

lemma scenario_payload_agree:
  assumes "scenario_payload s = Inr v" and "scenario_payload u = Inr w" and "json_sort v = json_sort w"
  shows "same_scenario s u"
proof -
  let ?fs = "\<lambda>s. [(''underlying_price'', os_underlying_price s), (''implied_volatility'', os_implied_volatility s),
    (''pnl'', os_pnl s)]"
  from assms(1,2) obtain fs gs where f: "rmap text_field (?fs s) = Inr fs" "rmap text_field (?fs u) = Inr gs" and
    v: "v = JObj ((''scenario_id'', JStr (os_id s)) # fs)" "w = JObj ((''scenario_id'', JStr (os_id u)) # gs)"
    unfolding scenario_payload_def rbind_Inr_iff by blast
  note keys = text_fields_keys [OF f(1)] text_fields_keys [OF f(2)]
  have "dict_ok ((''scenario_id'', JStr (os_id s)) # fs)" "dict_ok ((''scenario_id'', JStr (os_id u)) # gs)"
    by (simp_all add: dict_ok_def keys)
  note get = json_sort_get [OF assms(3) [unfolded v] this]
  have fields: "map_option json_sort (dict_get fs k) = map_option json_sort (dict_get gs k)" if "k \<noteq> ''scenario_id''" for k
    using get [of k] that by simp
  note agree = text_fields_agree [OF f]
  have "dval (os_underlying_price s) = dval (os_underlying_price u)"
    by (rule agree [OF _ _ fields, of "''underlying_price''"]) simp_all
  moreover have "dval (os_implied_volatility s) = dval (os_implied_volatility u)"
    by (rule agree [OF _ _ fields, of "''implied_volatility''"]) simp_all
  moreover have "dval (os_pnl s) = dval (os_pnl u)"
    by (rule agree [OF _ _ fields, of "''pnl''"]) simp_all
  ultimately show ?thesis using get [of "''scenario_id''"] by (simp add: same_scenario_def)
qed

definition evidence_in_calendar :: "sealed_evidence \<Rightarrow> bool" where
  "evidence_in_calendar e \<longleftrightarrow> in_calendar (oe_market_as_of e) \<and> in_calendar (oe_calculated_at e) \<and> in_calendar (oe_expires_at e)"

lemma scenarios_agree:
  assumes "list_all2 (\<lambda>s v. scenario_payload s = Inr v) ss vs" and "list_all2 (\<lambda>s v. scenario_payload s = Inr v) us ws"
    and "map json_sort vs = map json_sort ws"
  shows "list_all2 same_scenario ss us"
proof -
  have "length vs = length ws" using map_eq_imp_length_eq [OF assms(3)] .
  moreover have "json_sort (vs ! i) = json_sort (ws ! i)" if "i < length vs" for i
    using that \<open>length vs = length ws\<close> arg_cong [OF assms(3), of "\<lambda>xs. xs ! i"] by simp
  ultimately show ?thesis
    using assms(1,2) scenario_payload_agree by (fastforce simp: list_all2_conv_all_nth)
qed

lemma greeks_agree:
  assumes "rmap text_field (greeks d) = Inr fs" and "rmap text_field (greeks e) = Inr gs" and "json_sort (JObj fs) = json_sort (JObj gs)"
  shows "map (\<lambda>(k, v). (k, dval v)) (greeks d) = map (\<lambda>(k, v). (k, dval v)) (greeks e)"
proof -
  have keys: "distinct (map fst (greeks d))" "distinct (map fst (greeks e))" by (simp_all add: greeks_def)
  have ok: "dict_ok fs" "dict_ok gs"
    using text_fields_keys [OF assms(1)] text_fields_keys [OF assms(2)] keys by (simp_all add: dict_ok_def)
  note agree = text_fields_agree [OF assms(1,2) keys json_sort_get [OF assms(3) ok]]
  have "dval (oe_delta d) = dval (oe_delta e)" by (rule agree [of "''delta''"]) (simp_all add: greeks_def)
  moreover have "dval (oe_gamma d) = dval (oe_gamma e)" by (rule agree [of "''gamma''"]) (simp_all add: greeks_def)
  moreover have "dval (oe_vega d) = dval (oe_vega e)" by (rule agree [of "''vega''"]) (simp_all add: greeks_def)
  moreover have "dval (oe_theta d) = dval (oe_theta e)" by (rule agree [of "''theta''"]) (simp_all add: greeks_def)
  moreover have "dval (oe_rho d) = dval (oe_rho e)" by (rule agree [of "''rho''"]) (simp_all add: greeks_def)
  ultimately show ?thesis by (simp add: greeks_def)
qed

lemma text_list_agree: "json_sort (JList (map JStr xs)) = json_sort (JList (map JStr ys)) \<longleftrightarrow> xs = ys"
proof -
  have "inj (json_sort \<circ> JStr)" by (simp add: inj_def)
  then show ?thesis by (simp add: inj_map_eq_map)
qed

lemma payload_agree:
  assumes "option_risk_evidence_payload d = Inr p" and "option_risk_evidence_payload e = Inr q"
    and "json_text_raw (JObj p) = json_text_raw (JObj q)" and "evidence_in_calendar d" and "evidence_in_calendar e"
  shows "same_economics d e"
proof -
  from assms(1) obtain gs ss where d: "rmap text_field (greeks d) = Inr gs" "rmap scenario_payload (oe_scenarios d) = Inr ss" and
    p: "p = [(''schema_version'', JInt (oe_schema_version d)), (''instrument'', JStr (oe_instrument d)),
         (''model_id'', JStr (oe_model_id d)), (''model_version'', JStr (oe_model_version d)),
         (''source_sha'', JStr (oe_source_sha d)), (''input_digest'', JStr (oe_input_digest d)),
         (''market_as_of'', JStr (utc_text (oe_market_as_of d))), (''calculated_at'', JStr (utc_text (oe_calculated_at d))),
         (''expires_at'', JStr (utc_text (oe_expires_at d))), (''maximum_market_age_microseconds'', JInt (oe_maximum_market_age d)),
         (''greeks'', JObj gs), (''scenarios'', JList ss), (''tests_run'', JList (map JStr (oe_tests_run d))),
         (''unresolved_limits'', JList (map JStr (oe_unresolved_limits d)))]"
    by (auto simp: option_risk_evidence_payload_def duration_microseconds_def split: if_splits)
  from assms(2) obtain hs us where e: "rmap text_field (greeks e) = Inr hs" "rmap scenario_payload (oe_scenarios e) = Inr us" and
    q: "q = [(''schema_version'', JInt (oe_schema_version e)), (''instrument'', JStr (oe_instrument e)),
         (''model_id'', JStr (oe_model_id e)), (''model_version'', JStr (oe_model_version e)),
         (''source_sha'', JStr (oe_source_sha e)), (''input_digest'', JStr (oe_input_digest e)),
         (''market_as_of'', JStr (utc_text (oe_market_as_of e))), (''calculated_at'', JStr (utc_text (oe_calculated_at e))),
         (''expires_at'', JStr (utc_text (oe_expires_at e))), (''maximum_market_age_microseconds'', JInt (oe_maximum_market_age e)),
         (''greeks'', JObj hs), (''scenarios'', JList us), (''tests_run'', JList (map JStr (oe_tests_run e))),
         (''unresolved_limits'', JList (map JStr (oe_unresolved_limits e)))]"
    by (auto simp: option_risk_evidence_payload_def duration_microseconds_def split: if_splits)
  have get: "map_option json_sort (dict_get p k) = map_option json_sort (dict_get q k)" for k
    by (rule json_sort_get) (use assms(3) in \<open>simp_all only: json_text_raw_determines\<close>, simp_all add: p q dict_ok_def)
  have plain: "oe_instrument d = oe_instrument e" "oe_model_id d = oe_model_id e" "oe_model_version d = oe_model_version e"
    "oe_source_sha d = oe_source_sha e" "oe_input_digest d = oe_input_digest e" "oe_schema_version d = oe_schema_version e"
    "oe_maximum_market_age d = oe_maximum_market_age e"
    using get [of "''instrument''"] get [of "''model_id''"] get [of "''model_version''"] get [of "''source_sha''"]
      get [of "''input_digest''"] get [of "''schema_version''"] get [of "''maximum_market_age_microseconds''"]
    by (simp_all add: p q)
  have times: "oe_market_as_of d = oe_market_as_of e" "oe_calculated_at d = oe_calculated_at e" "oe_expires_at d = oe_expires_at e"
    using get [of "''market_as_of''"] get [of "''calculated_at''"] get [of "''expires_at''"] assms(4,5)
    by (simp_all add: p q evidence_in_calendar_def utc_text_inj)
  have "json_sort (JObj gs) = json_sort (JObj hs)" using get [of "''greeks''"] by (simp add: p q)
  note greek = greeks_agree [OF d(1) e(1) this]
  have "map json_sort ss = map json_sort us" using get [of "''scenarios''"] by (simp add: p q)
  then have sc: "list_all2 same_scenario (oe_scenarios d) (oe_scenarios e)"
    by (rule scenarios_agree [OF d(2) [unfolded rmap_Inr_iff] e(2) [unfolded rmap_Inr_iff]])
  have "oe_tests_run d = oe_tests_run e" "oe_unresolved_limits d = oe_unresolved_limits e"
    using get [of "''tests_run''"] get [of "''unresolved_limits''"] text_list_agree by (simp_all add: p q del: json_sort.simps)
  with plain times greek sc show ?thesis by (simp add: same_economics_def)
qed

lemma verify_option_Inr:
  assumes "verify_option_risk_evidence e read = Inr u"
  shows "\<exists>artifact digest canonical manifest payload.
      immutable_option_evidence_ref (oe_ref e) = Inr (artifact, digest, canonical)
      \<and> read artifact = Some (manifest, json_text_raw (JObj payload)) \<and> option_risk_evidence_payload e = Inr payload"
proof -
  from assms obtain a dg c where ref: "immutable_option_evidence_ref (oe_ref e) = Inr (a, dg, c)"
    unfolding verify_option_risk_evidence_def rbind_Inr_iff by auto
  with assms obtain m raw where "read a = Some (m, raw)"
    by (cases "read a") (auto simp: verify_option_risk_evidence_def)
  with assms ref show ?thesis by (auto simp: verify_option_risk_evidence_def split: if_splits)
qed

lemma current_option_risk_Inr:
  assumes "require_current_option_risk e instrument now ca ma read = Inr u"
  shows "\<exists>artifact digest canonical manifest payload t.
      immutable_option_evidence_ref (oe_ref e) = Inr (artifact, digest, canonical)
      \<and> read artifact = Some (manifest, json_text_raw (JObj payload)) \<and> option_risk_evidence_payload e = Inr payload
      \<and> now = Moment t \<and> oe_calculated_at e \<le> t \<and> t < oe_expires_at e \<and> t - oe_market_as_of e \<le> min ma (oe_maximum_market_age e)
      \<and> t - oe_calculated_at e \<le> ca \<and> oe_unresolved_limits e = [] \<and> oe_instrument e = strip instrument"
  using assms
  by (auto simp: require_current_option_risk_def dest!: verify_option_Inr)

text \<open>(C14) An artifact reference fixes what option risk evidence says.  Evidence is accepted only while it is current
  and only when the immutable artifact it refers to holds exactly its payload; so two pieces of evidence that
  are accepted against the same store under one reference, whoever supplied them and whenever, agree in
  instrument, model, sources, instants, Greeks and every scenario, and neither has an unresolved limit.
\<close>

theorem artifact_fixes_option_risk:
  assumes "require_current_option_risk d ins now ca ma read = Inr ()"
    and "require_current_option_risk e ins' now' ca' ma' read = Inr ()"
    and "oe_ref d = oe_ref e" and "evidence_in_calendar d" and "evidence_in_calendar e"
  shows "same_economics d e \<and> oe_unresolved_limits d = []"
proof -
  from current_option_risk_Inr [OF assms(1)] current_option_risk_Inr [OF assms(2)] assms(3)
  obtain p q where "option_risk_evidence_payload d = Inr p" "option_risk_evidence_payload e = Inr q"
    "json_text_raw (JObj p) = json_text_raw (JObj q)" "oe_unresolved_limits d = []" by force
  with payload_agree [OF _ _ _ assms(4,5)] show ?thesis by blast
qed

section \<open>The worst scenario\<close>

text \<open>The loss in the worst scenario, computed exactly.\<close>

definition exact_worst_loss :: "sealed_evidence \<Rightarrow> rat" where
  "exact_worst_loss e = Max (insert 0 ((\<lambda>s. max 0 (- dval (os_pnl s))) ` set (oe_scenarios e)))"

lemma foldl_first_max: "dval (foldl (\<lambda>a b. if dval a < dval b then b else a) d ds) = Max (insert (dval d) (dval ` set ds))"
proof (induction ds arbitrary: d)
  case (Cons b ds)
  have "Max (insert (dval d) (dval ` set (b # ds))) = Max (insert (max (dval d) (dval b)) (dval ` set ds))"
    by (cases "ds = []") (simp_all add: insert_commute max.assoc max.commute max.left_commute)
  also have "\<dots> = dval (foldl (\<lambda>a b. if dval a < dval b then b else a) (if dval d < dval b then b else d) ds)"
    using Cons [of "if dval d < dval b then b else d"] by (simp add: max_def split: if_splits)
  finally show ?case by simp
qed simp

lemma first_max_val: "(\<And>d. d \<in> set ds \<Longrightarrow> 0 \<le> dval d) \<Longrightarrow> dval (first_max ds) = Max (insert 0 (dval ` set ds))"
proof (cases ds)
  case (Cons d es)
  assume "\<And>d. d \<in> set ds \<Longrightarrow> 0 \<le> dval d"
  with Cons have "Max (insert 0 (insert (dval d) (dval ` set es))) = Max (insert (dval d) (dval ` set es))"
    by (subst Max_insert) (auto simp: max_absorb2 Max_ge_iff)
  with Cons show ?thesis by (simp add: foldl_first_max)
qed simp

lemma context_minus_short: "length (digits_of (dcoeff d)) \<le> context_digits \<Longrightarrow> dval (context_minus d) = - dval d"
  by (cases d) auto

text \<open>Rounding to the context keeps the sign and moves a value by at most half a unit of its 28th digit.\<close>

lemma context_minus_long:
  assumes "d = Decimal s c e" and "context_digits < length (digits_of c)"
  defines "k \<equiv> length (digits_of c) - context_digits"
  shows "dval (context_minus d) = (if s then 1 else - 1) * of_int (round_units (of_nat c / 10 ^ k) HALF_EVEN) * 10 ^ k * 10 powi e"
    and "10 ^ (27 + k) \<le> c"
proof -
  let ?r = "round_units (of_nat c / 10 ^ k) HALF_EVEN"
  have "0 \<le> (of_nat c / 10 ^ k :: rat)" by simp
  with round_units_half_even(1) [of "of_nat c / 10 ^ k"] have "- 1 < (of_int ?r :: rat)" by linarith
  then have r: "0 \<le> ?r" by simp
  have k: "length (digits_of c) = 28 + k" "0 < k" using assms(2) by (simp_all add: k_def context_digits_def)
  show c: "10 ^ (27 + k) \<le> c" using length_digits_of [of "27 + k" c] k by simp
  then have "c \<noteq> 0" by (metis not_numeral_le_zero power_not_zero le_zero_eq zero_neq_numeral)
  moreover have "(10 :: rat) powi (e + int k) = 10 ^ k * 10 powi e" "(10 :: rat) powi (e + int k + 1) = 10 * 10 ^ k * 10 powi e"
    by (simp_all add: power_int_add)
  ultimately show "dval (context_minus d) = (if s then 1 else - 1) * of_int ?r * 10 ^ k * 10 powi e"
    using r k by (auto simp: assms(1) context_digits_def Let_def)
qed

lemma context_minus_error: "\<bar>dval (context_minus d) + dval d\<bar> \<le> \<bar>dval d\<bar> * 5 / 10 ^ 28"
proof (cases "length (digits_of (dcoeff d)) \<le> context_digits \<or> (\<forall>s c e. d \<noteq> Decimal s c e)")
  case True
  then show ?thesis using context_minus_short [of d] by (cases d) auto
next
  case False
  then obtain s c e where d: "d = Decimal s c e" and long: "context_digits < length (digits_of c)" by auto
  define k where "k = length (digits_of c) - context_digits"
  let ?r = "of_int (round_units (of_nat c / 10 ^ k) HALF_EVEN) :: rat"
  note m = context_minus_long [OF d long, folded k_def]
  have "dval (context_minus d) + dval d = (if s then 1 else - 1) * ((?r - of_nat c / 10 ^ k) * (10 ^ k * 10 powi e))"
    unfolding m(1) by (simp add: d field_simps)
  then have "\<bar>dval (context_minus d) + dval d\<bar> = \<bar>?r - of_nat c / 10 ^ k\<bar> * 10 ^ k * 10 powi e"
    by (simp add: abs_mult)
  also have "\<dots> \<le> 1 / 2 * 10 ^ k * 10 powi e"
    by (intro mult_right_mono round_units_half_even(1)) simp_all
  also have "\<dots> = (10 ^ (27 + k) * 10 powi e) * 5 / 10 ^ 28" by (simp add: power_add)
  also have "\<dots> \<le> (of_nat c * 10 powi e) * 5 / 10 ^ 28"
  proof -
    have "of_nat (10 ^ (27 + k)) \<le> (of_nat c :: rat)" using m(2) by (simp only: of_nat_le_iff)
    then have "10 ^ (27 + k) \<le> (of_nat c :: rat)" by (simp only: of_nat_power of_nat_numeral)
    then show ?thesis by (intro divide_right_mono mult_right_mono) simp_all
  qed
  also have "of_nat c * 10 powi e = \<bar>dval d\<bar>" by (simp add: d abs_mult)
  finally show ?thesis .
qed

lemma max_relative_error:
  fixes a b :: rat
  assumes "\<bar>a - b\<bar> \<le> \<bar>b\<bar> * \<epsilon>" and "\<epsilon> \<le> 1"
  shows "\<bar>max 0 a - max 0 b\<bar> \<le> max 0 b * \<epsilon>"
proof -
  have small: "\<bar>b\<bar> * \<epsilon> \<le> \<bar>b\<bar>" using assms(2) by (simp add: mult_left_le)
  show ?thesis
  proof (cases "0 \<le> b")
    case True
    then have "0 \<le> a" using assms(1) small by linarith
    with True assms(1) show ?thesis by simp
  next
    case False
    then have "a \<le> 0" using assms(1) small by linarith
    with False show ?thesis by simp
  qed
qed

lemma reported_loss_error:
  "\<bar>dval (at_least_zero (context_minus d)) - max 0 (- dval d)\<bar> \<le> max 0 (- dval d) * 5 / 10 ^ 28"
  using max_relative_error [of "dval (context_minus d)" "- dval d" "5 / 10 ^ 28"] context_minus_error [of d] by simp

lemma Max_relative_error:
  fixes f g :: "'a \<Rightarrow> rat"
  assumes "finite A" and "\<And>x. x \<in> A \<Longrightarrow> 0 \<le> g x \<and> \<bar>f x - g x\<bar> \<le> g x * \<epsilon>" and "0 \<le> \<epsilon>" and "\<epsilon> \<le> 1"
  shows "\<bar>Max (insert 0 (f ` A)) - Max (insert 0 (g ` A))\<bar> \<le> Max (insert 0 (g ` A)) * \<epsilon>"
proof -
  let ?F = "Max (insert 0 (f ` A))" and ?G = "Max (insert 0 (g ` A))"
  have G: "0 \<le> ?G" "\<And>x. x \<in> A \<Longrightarrow> g x \<le> ?G" and F: "0 \<le> ?F" "\<And>x. x \<in> A \<Longrightarrow> f x \<le> ?F" using assms(1) by auto
  have "f x \<le> ?G * (1 + \<epsilon>)" if "x \<in> A" for x
  proof -
    have "f x \<le> g x * (1 + \<epsilon>)" using assms(2) [OF that] by (simp add: abs_le_iff algebra_simps)
    also have "\<dots> \<le> ?G * (1 + \<epsilon>)" using G(2) [OF that] assms(3) by (intro mult_right_mono) simp_all
    finally show ?thesis .
  qed
  then have "?F \<le> ?G * (1 + \<epsilon>)" using assms(1,3) G(1) by (intro Max.boundedI) auto
  moreover have "?G * (1 - \<epsilon>) \<le> ?F"
  proof -
    have "?G \<in> insert 0 (g ` A)" using assms(1) by (intro Max_in) auto
    then consider "?G = 0" | x where "x \<in> A" "?G = g x" by auto
    then show ?thesis
    proof cases
      case 1
      then show ?thesis using F(1) by simp
    next
      case (2 x)
      have "g x * (1 - \<epsilon>) \<le> f x" using assms(2) [OF 2(1)] by (simp add: abs_le_iff algebra_simps)
      with F(2) [OF 2(1)] 2(2) show ?thesis by simp
    qed
  qed
  ultimately show ?thesis by (simp add: abs_le_iff algebra_simps)
qed

lemma reported_worst_loss:
  "dval (worst_scenario_loss e) = Max (insert 0 ((\<lambda>s. dval (at_least_zero (context_minus (os_pnl s)))) ` set (oe_scenarios e)))"
  unfolding worst_scenario_loss_def by (subst first_max_val) (auto simp: image_image)

lemma worst_loss_exact_within_context:
  assumes "\<forall>s \<in> set (oe_scenarios e). length (digits_of (dcoeff (os_pnl s))) \<le> context_digits"
  shows "dval (worst_scenario_loss e) = exact_worst_loss e"
proof -
  have "(\<lambda>s. dval (at_least_zero (context_minus (os_pnl s)))) ` set (oe_scenarios e)
      = (\<lambda>s. max 0 (- dval (os_pnl s))) ` set (oe_scenarios e)"
    using assms context_minus_short by (intro image_cong) auto
  then show ?thesis by (simp only: reported_worst_loss exact_worst_loss_def)
qed

lemma round_units_down:
  assumes "2 * (c mod 10 ^ k) < 10 ^ k"
  shows "round_units (of_nat c / 10 ^ k) HALF_EVEN = int (c div 10 ^ k)"
proof -
  let ?r = "round_units (of_nat c / 10 ^ k) HALF_EVEN" and ?q = "c div 10 ^ k" and ?m = "c mod 10 ^ k"
  have "of_nat (?q * 10 ^ k + ?m) = (of_nat c :: rat)" by (simp only: div_mult_mod_eq)
  then have "of_nat c = (of_nat ?q * 10 ^ k + of_nat ?m :: rat)" by (simp only: of_nat_add of_nat_mult of_nat_numeral of_nat_power)
  then have c: "of_nat c / 10 ^ k = of_nat ?q + (of_nat ?m / 10 ^ k :: rat)" by (simp add: add_divide_distrib)
  have "of_nat (2 * ?m) < (of_nat (10 ^ k) :: rat)" using assms by (simp only: of_nat_less_iff)
  then have "2 * of_nat ?m < (10 ^ k :: rat)" by (simp only: of_nat_mult of_nat_numeral of_nat_power)
  then have m: "0 \<le> (of_nat ?m / 10 ^ k :: rat)" "of_nat ?m / 10 ^ k < (1 / 2 :: rat)" by (simp_all add: field_simps)
  from round_units_half_even(1) [of "of_nat c / 10 ^ k"] have "\<bar>of_int ?r - of_nat ?q - of_nat ?m / 10 ^ k\<bar> \<le> (1 / 2 :: rat)"
    by (simp add: c algebra_simps)
  with m have "\<bar>of_int ?r - of_nat ?q\<bar> < (1 :: rat)" by linarith
  then have "\<bar>of_int (?r - int ?q)\<bar> < (1 :: rat)" by simp
  then have "\<bar>?r - int ?q\<bar> < 1" by (simp only: of_int_abs [symmetric] of_int_less_1_iff)
  then show ?thesis by simp
qed

lemma Max_single:
  fixes f :: "'a \<Rightarrow> rat"
  assumes "finite A" and "s \<in> A" and "\<And>u. u \<in> A \<Longrightarrow> u \<noteq> s \<Longrightarrow> f u = 0" and "0 \<le> f s"
  shows "Max (insert 0 (f ` A)) = f s"
proof (rule Max_eqI)
  fix y assume "y \<in> insert 0 (f ` A)"
  then show "y \<le> f s" using assms(3,4) by force
qed (use assms(1,2) in auto)

lemma rounded_down_loss:
  assumes "k = length (digits_of c) - context_digits" and "2 * (c mod 10 ^ k) < 10 ^ k"
  shows "dval (context_minus (Decimal True c x)) = of_nat (c - c mod 10 ^ k) * 10 powi x"
proof (cases "length (digits_of c) \<le> context_digits")
  case True
  then show ?thesis using context_minus_short [of "Decimal True c x"] assms(1) by simp
next
  case False
  then have "dval (context_minus (Decimal True c x)) = of_nat (c div 10 ^ k) * 10 ^ k * 10 powi x"
    using context_minus_long(1) [OF refl, of c True x] round_units_down [OF assms(2)] assms(1) by (simp del: context_minus.simps)
  moreover have "c - c mod 10 ^ k = c div 10 ^ k * 10 ^ k" by (simp add: minus_mod_eq_div_mult)
  ultimately show ?thesis by simp
qed

lemma single_loss_reported:
  assumes "s \<in> set (oe_scenarios e)" and "os_pnl s = Decimal True c x"
    and "\<forall>u \<in> set (oe_scenarios e). dval (os_pnl u) < 0 \<longrightarrow> u = s"
    and "k = length (digits_of c) - context_digits" and "2 * (c mod 10 ^ k) < 10 ^ k"
  shows "dval (worst_scenario_loss e) = exact_worst_loss e - of_nat (c mod 10 ^ k) * 10 powi x"
proof -
  let ?f = "\<lambda>s. dval (at_least_zero (context_minus (os_pnl s)))" and ?g = "\<lambda>s. max 0 (- dval (os_pnl s))"
  have g0: "?g u = 0" if "u \<in> set (oe_scenarios e)" "u \<noteq> s" for u using assms(3) that by force
  have f0: "?f u = 0" if "u \<in> set (oe_scenarios e)" "u \<noteq> s" for u
    using reported_loss_error [of "os_pnl u"] g0 [OF that] by simp
  have "dval (worst_scenario_loss e) = ?f s" unfolding reported_worst_loss
    using assms(1) f0 by (intro Max_single) auto
  moreover have "exact_worst_loss e = ?g s" unfolding exact_worst_loss_def
    using assms(1) g0 by (intro Max_single) auto
  moreover have "?f s = of_nat (c - c mod 10 ^ k) * 10 powi x"
    using rounded_down_loss [OF assms(4,5), of x] by (simp add: assms(2) del: context_minus.simps)
  moreover have "?g s = of_nat c * 10 powi x" by (simp add: assms(2))
  ultimately show ?thesis by (simp add: of_nat_diff left_diff_distrib)
qed

text \<open>(C15) The worst scenario loss is rounded.  The profit of a scenario is negated in Python's default Decimal context, so
  the reported worst loss is within \<open>5 / 10 ^ 28\<close> of the exact one, relative to it, and equals it when no profit has
  more than 28 digits.  It can be too small: whenever exactly one scenario loses, its loss has more digits and
  the digits beyond the 28th come to less than half a unit of the 28th, the report falls short by exactly those digits.
\<close>

theorem worst_loss_rounding:
  "\<bar>dval (worst_scenario_loss e) - exact_worst_loss e\<bar> \<le> exact_worst_loss e * 5 / 10 ^ 28
   \<and> ((\<forall>s \<in> set (oe_scenarios e). length (digits_of (dcoeff (os_pnl s))) \<le> context_digits)
       \<longrightarrow> dval (worst_scenario_loss e) = exact_worst_loss e)
   \<and> (\<forall>s \<in> set (oe_scenarios e). \<forall>c x. let k = length (digits_of c) - context_digits in
       os_pnl s = Decimal True c x \<and> (\<forall>u \<in> set (oe_scenarios e). dval (os_pnl u) < 0 \<longrightarrow> u = s) \<and> 2 * (c mod 10 ^ k) < 10 ^ k
       \<longrightarrow> dval (worst_scenario_loss e) = exact_worst_loss e - of_nat (c mod 10 ^ k) * 10 powi x)"
proof (intro conjI)
  show "\<bar>dval (worst_scenario_loss e) - exact_worst_loss e\<bar> \<le> exact_worst_loss e * 5 / 10 ^ 28"
    using Max_relative_error [of "set (oe_scenarios e)" "\<lambda>s. max 0 (- dval (os_pnl s))" _ "5 / 10 ^ 28"] reported_loss_error
    unfolding reported_worst_loss exact_worst_loss_def by simp
qed (use worst_loss_exact_within_context single_loss_reported in \<open>auto simp: Let_def\<close>)

text \<open>One piece of evidence, by the profit of its scenario.\<close>

definition sample_evidence :: "decimal \<Rightarrow> sealed_evidence" where
  "sample_evidence pnl = \<lparr>oe_instrument = ''XYZ-P5'', oe_model_id = ''m'', oe_model_version = ''1'',
     oe_source_sha = replicate 40 CHR ''a'', oe_input_digest = ''sha256:'' @ replicate 64 CHR ''b'', oe_schema_version = 1,
     oe_market_as_of = 3, oe_calculated_at = 4, oe_expires_at = 9, oe_maximum_market_age = 5,
     oe_delta = Decimal False 1 0, oe_gamma = Decimal False 2 0, oe_vega = Decimal False 3 0, oe_theta = Decimal True 4 0,
     oe_rho = Decimal False 0 0,
     oe_scenarios = [\<lparr>os_id = ''crash'', os_underlying_price = Decimal False 2 0, os_implied_volatility = Decimal False 1 0,
       os_pnl = pnl\<rparr>],
     oe_tests_run = [''t''], oe_unresolved_limits = [],
     oe_ref = Some (''artifact:00000000-0000-0000-0000-000000000000@sha256:'' @ replicate 64 CHR ''c'')\<rparr>"

theorem worst_loss_rounding_witness:
  "let e = sample_evidence (Decimal True (10 ^ 28 + 1) 0) in dval (worst_scenario_loss e) = exact_worst_loss e - 1"
proof -
  let ?e = "sample_evidence (Decimal True (10 ^ 28 + 1) 0)" and ?c = "10 ^ 28 + 1 :: nat"
  obtain s where s: "set (oe_scenarios ?e) = {s}" "os_pnl s = Decimal True ?c 0" by (simp add: sample_evidence_def)
  have "length (digits_of ?c) - context_digits = 1"
    using length_digits_of [of 28 ?c] length_digits_of [of 29 ?c] by (simp add: context_digits_def)
  then have "dval (worst_scenario_loss ?e) = exact_worst_loss ?e - of_nat (?c mod 10 ^ 1) * 10 powi 0"
    using worst_loss_rounding [of ?e] s unfolding Let_def by simp
  then show ?thesis by (simp add: Let_def)
qed

text \<open>Two objects for one artifact: the profit is written \<open>-5\<close> in one and \<open>-5.0\<close> in the other.\<close>

definition option_payload :: "(string \<times> json) list" where
  "option_payload = [(''schema_version'', JInt 1), (''instrument'', JStr ''XYZ-P5''), (''model_id'', JStr ''m''),
     (''model_version'', JStr ''1''), (''source_sha'', JStr (replicate 40 CHR ''a'')),
     (''input_digest'', JStr (''sha256:'' @ replicate 64 CHR ''b'')), (''market_as_of'', JStr ''0001-01-01T00:00:00.000003Z''),
     (''calculated_at'', JStr ''0001-01-01T00:00:00.000004Z''), (''expires_at'', JStr ''0001-01-01T00:00:00.000009Z''),
     (''maximum_market_age_microseconds'', JInt 5),
     (''greeks'', JObj [(''delta'', JStr ''1''), (''gamma'', JStr ''2''), (''vega'', JStr ''3''), (''theta'', JStr ''-4''), (''rho'', JStr ''0'')]),
     (''scenarios'', JList [JObj [(''scenario_id'', JStr ''crash''), (''underlying_price'', JStr ''2''),
       (''implied_volatility'', JStr ''1''), (''pnl'', JStr ''-5'')]]),
     (''tests_run'', JList [JStr ''t'']), (''unresolved_limits'', JList [])]"

definition option_manifest :: "(string \<times> json) list" where
  "option_manifest = [(''artifact_id'', JStr ''00000000-0000-0000-0000-000000000000''),
     (''sha256'', JStr (''sha256:'' @ replicate 64 CHR ''c'')), (''manifest_hash'', JStr (''sha256:'' @ replicate 64 CHR ''d'')),
     (''rights'', JObj [(''storage'', JBool True)]), (''media_type'', JStr ''application/json''),
     (''metadata'', JObj (option_risk_evidence_metadata (sample_evidence (Decimal True 5 0))))]"

definition option_store :: evidence_store where
  "option_store artifact = (if artifact = ''00000000-0000-0000-0000-000000000000''
     then Some (option_manifest, json_text_raw (JObj option_payload)) else None)"

lemma option_payloads:
  "option_risk_evidence_payload (sample_evidence (Decimal True 5 0)) = Inr option_payload"
  "option_risk_evidence_payload (sample_evidence (Decimal True 50 (- 1))) = Inr option_payload"
  by code_simp+

lemma option_reference:
  "immutable_option_evidence_ref (oe_ref (sample_evidence pnl)) =
     Inr (''00000000-0000-0000-0000-000000000000'', replicate 64 CHR ''c'',
       ''artifact:00000000-0000-0000-0000-000000000000@sha256:'' @ replicate 64 CHR ''c'')"
  by code_simp

lemma option_stored: "stored_for_option (sample_evidence pnl) ''00000000-0000-0000-0000-000000000000'' (replicate 64 CHR ''c'') option_manifest"
  by code_simp

lemma sample_evidence_current:
  assumes "option_risk_evidence_payload (sample_evidence pnl) = Inr option_payload"
  shows "require_current_option_risk (sample_evidence pnl) ''XYZ-P5'' (Moment 6) 4 4 option_store = Inr ()"
proof -
  have "verify_option_risk_evidence (sample_evidence pnl) option_store = Inr ()"
    unfolding verify_option_risk_evidence_def option_reference using option_stored assms
    by (simp add: option_store_def require_def)
  moreover have "option_name ''XYZ-P5'' = Inr ''XYZ-P5''" by code_simp
  ultimately show ?thesis
    unfolding require_current_option_risk_def by (simp add: sample_evidence_def require_def option_utc_def)
qed

theorem artifact_fixes_option_risk_witness:
  "require_current_option_risk (sample_evidence (Decimal True 5 0)) ''XYZ-P5'' (Moment 6) 4 4 option_store = Inr ()
    \<and> same_economics (sample_evidence (Decimal True 5 0)) (sample_evidence (Decimal True 50 (- 1)))"
proof -
  have "evidence_in_calendar (sample_evidence pnl)" "oe_ref (sample_evidence pnl) = oe_ref (sample_evidence dzero)" for pnl
    by (simp_all add: evidence_in_calendar_def in_calendar_def sample_evidence_def)
  with artifact_fixes_option_risk [OF sample_evidence_current [OF option_payloads(1)] sample_evidence_current [OF option_payloads(2)]]
    sample_evidence_current [OF option_payloads(1)] show ?thesis by metis
qed

end
