(* ===== verification/Spec2Isabelle.thy ===== *)
theory Spec2Isabelle
  imports Exact_Decimal_Text Lot_Book Reservations Equity_Projection Order_Book_Projection Financing Settlement_Journal Fx_Valuation Funding_Ledger
    Risk_Limits Risk_Binding Option_Evidence
begin

text \<open>
  \<^bold>\<open>Verification of the financial core of AutoTrade.\<close>

  AutoTrade is a trading platform in Python.  Its money-carrying core is a set of in-memory books
  (\<open>mvp/autotrade_mvp/\<close>) over one authority for exact numbers (\<open>autotrade_numeric/\<close>).  Providers report
  fills and charges; orders project them (\<open>order_projection.py\<close>), the journal books them in double
  entry (\<open>accounting.py\<close>), settlement separates spendable cash from what is only owed
  (\<open>settlement.py\<close>), and reservations hold capital for orders that are still open
  (\<open>reservations.py\<close>).  Before an order is sent, the risk evaluation decides whether it is admitted
  (\<open>risk.py\<close>): it projects the book with the order filled and compares it with every limit of the policy.  Products with rules of their own,
  perpetuals (\<open>perpetuals.py\<close>) and options (\<open>options.py\<close>), settle into the same journal.  Every amount is a bounded finite \<open>Decimal\<close>; a result that is not exactly
  representable raises instead of being rounded.

  \<^bold>\<open>How code is modelled.\<close>  Values are Isabelle records and datatypes with the fields and variants of
  the source; a \<open>dict\<close> is an association list in insertion order; an exception is a value of
  \<open>exn\<close> (its class, not its message); a function that may raise returns an \<open>'a result\<close>, and a method
  takes the object's state and returns its result with the new state, also when it raises, so that
  partial updates before an exception are visible.  Text is ASCII.  Aware instants are microseconds
  and dates day numbers (theory \<open>Instants\<close>).  Checks such as \<open>type(x) is Decimal\<close> are the types of the
  model; where the code accepts several types, the argument is a \<open>pynum\<close> with one constructor for each.
  Every definition is executable and total; no fuel is used.  Four loops are not structural and carry
  a termination proof: \<open>strip_factor\<close> (bounded by the maximal scale), \<open>sell_loop\<close> and \<open>close_lots\<close>
  (each round removes a lot or ends the sale), and \<open>divide_out\<close> (the denominator shrinks), which is also proved
  equal to the loop as a loop.  SHA-256 is a parameter of the functions that use it; where a property needs
  distinct contents to have distinct digests, it says so.  The other parameters are \<open>read\<close>, which stands for
  \<open>datetime.fromisoformat\<close> on the window of a bound decision, and the authenticated read of the artifact store.

  \<^bold>\<open>Theories.\<close>
  \<^item> \<open>Prelude\<close>: results, stateful operations, dictionaries, text; and the contracts of objects as
    locales: \<open>stateful_object\<close> (calls keep an invariant, also when they raise), \<open>monotone_object\<close>
    (states only grow in an order), \<open>atomic_object\<close> and \<open>ordered_object\<close> (a raising call is
    invisible).  Each book interprets one of them on its own methods.
  \<^item> \<open>Exact_Decimal\<close> (\<open>autotrade_numeric/exact_decimal.py\<close>): decimals as sign, coefficient and exponent,
    the envelope of 256 digits, exact addition, subtraction, product and sum through rationals, and
    rounding to a quantum.  The operations return exactly the true value or raise exactly when no bounded
    decimal has it.  The locale \<open>exact_ops\<close> is the interface the books rely on.
  \<^item> \<open>Exact_Decimal_Text\<close> (same module and \<open>_generated_common_scalars.py\<close>): the regular expressions as
    recognisers, the preflight, the parsers and the canonical printer; parsing is exact and printing
    round-trips.
  \<^item> \<open>Lot_Book\<close> (\<open>lot_book.py\<close>): \<open>FifoLotBook\<close>; cash is conserved through realised profit and basis, sales
    are first-in first-out.
  \<^item> \<open>Reservations\<close> (\<open>reservations.py\<close>): \<open>ReservationBook\<close>; record invariant, no overcommitment of
    capital, monotone states, inverse of a consumption.
  \<^item> \<open>Instants\<close>: ISO-8601 texts and aware datetimes.
  \<^item> \<open>Economic_Book\<close> (\<open>accounting.py\<close>): transactions, \<open>EconomicBook\<close> and the booking functions; every asset
    balances to zero, appending is idempotent and atomic, reversals cancel, a book rebuilds from its list.
  \<^item> \<open>Equity_Projection\<close> (\<open>project_equity_position\<close> of \<open>accounting.py\<close>): selection and ordering of the active
    fills and splits and the signed first-in first-out replay; profit identity and agreement of the
    projected quantity with the ledger.
  \<^item> \<open>Order_Projection\<close> (\<open>OrderProjection\<close> of \<open>order_projection.py\<close>): every method of an order; its indexes
    are the replay of an observation log (a refinement), late fills always count, terminal facts and
    busts are permanent, snapshots add up.
  \<^item> \<open>Order_Book_Projection\<close> (\<open>OrderBookProjection\<close> and \<open>OcoGroupProjection\<close>): orders live in a store and are
    shared between the caller and the book, so that tampering with a registered order is expressible;
    registration soundness, execution ownership, permanence of a one-cancels-other breach.
  \<^item> \<open>Financing\<close> (\<open>financing.py\<close>): charge revisions; deltas add up to the final charge and the book restarts
    from its history.
  \<^item> \<open>Settlement\<close> (\<open>settlement.py\<close>): obligations, evidence and settled cash; cash is conserved, only
    settled cash is spendable, a settlement is final.
  \<^item> \<open>Settlement_Restart\<close>: checkpoints and \<open>from_history\<close>; a checkpoint restores its book and later history
    is applied once.
  \<^item> \<open>Settlement_Journal\<close>: \<open>from_economic_book\<close> and \<open>available_capital\<close>; the rebuilt book carries the journal's
    cash and capital is settled cash and live credit.
  \<^item> \<open>Fx_Valuation\<close> (\<open>fx_valuation.py\<close>): conservative valuation of balances in a reporting currency; an amount is
    never above the market of its quote, doubt carries no amount, the loops of the expansion test end.
  \<^item> \<open>Perpetuals\<close> (\<open>perpetuals.py\<close>): contracts, fresh evidence, profit, funding and stress; an admitted position
    survives the stressed move, headroom keeps the liquidation price away, funding is zero-sum.
  \<^item> \<open>Funding_Ledger\<close> (\<open>FundingLedger\<close> of \<open>perpetuals.py\<close>): each funding period is counted once, redelivery is
    ignored, an exported ledger restores to one that answers alike.
  \<^item> \<open>Json_Text\<close>: the JSON text every digest is taken of; it determines its value up to the order of keys
    (locale \<open>json_escaping\<close>, interpreted for both ways of escaping).
  \<^item> \<open>Utc_Text\<close>: the ISO text of an instant in payloads; it reads back as the instant.
  \<^item> \<open>Risk_Inputs\<close> (\<open>risk.py\<close>): exact risk arithmetic, normalisation, and the sealed intent, policy, context
    and liquidation evidence.
  \<^item> \<open>Risk_Sealing\<close>: what sealing guarantees; sealing a sealed object again is the identity (locale \<open>sealing\<close>,
    interpreted for each of the inputs).
  \<^item> \<open>Risk_Evaluation\<close> (\<open>evaluate_risk\<close>): exposure, concentration, factors, stress, expected shortfall, the
    protective reduction exception, and the rules.
  \<^item> \<open>Risk_Decision\<close>: fingerprints, \<open>evaluate_risk\<close> as a whole, \<open>bind_risk_decision\<close>, \<open>validate_bound_risk_decision\<close>
    and \<open>evaluate_bound_risk\<close>.
  \<^item> \<open>Risk_Samples\<close>: one evaluation in full, the instance of the theorems that follow.
  \<^item> \<open>Risk_Exposure\<close>: positions, notional, leverage and scenario loss in rationals, the reference, and that the
    measures of the evaluation agree with it.
  \<^item> \<open>Risk_Admission\<close>: an admitted intent keeps the book within the limits or makes it strictly safer; missing
    evidence is refused; the reported leverage; the error of a whole-book flattening.
  \<^item> \<open>Risk_Limits\<close>: the optional limits and the expected shortfall over the frozen tail distribution.
  \<^item> \<open>Risk_Binding\<close>: the bound path, the validity window and tamper evidence of a bound decision.
  \<^item> \<open>Options\<close> (\<open>options.py\<close>): contracts, cash settlement, exercise and assignment, the exercise window, package
    reservations and bookings; parity, settlement within evidenced resources.
  \<^item> \<open>Option_Evidence\<close> (\<open>options.py\<close>): option risk evidence and its artifact; a reference fixes what accepted
    evidence says.
  \<^item> This theory: what holds across the journal, the settlement book and the reservation book.

  \<^bold>\<open>What modelling showed.\<close>  A correction redelivered after its fill was busted raises a conflict
  (\<open>redelivered_correction_conflicts\<close>); an acknowledgement that is refused may still bind the order to
  the attempt (\<open>failed_order_call\<close>); a financing revision whose difference is not representable is entered
  before the exception, so that its delta is lost (\<open>financing_delta_lost\<close>); settlement evidence that arrives
  after a checkpoint for an obligation due before a checkpointed one makes the retained history
  unacceptable on restart (\<open>late_settlement_blocks_restart\<close>); an order that flattens the whole book, the
  safest there is, raises \<open>KeyError\<close> when a stress scenario omits a symbol still held before it
  (\<open>flattening_needs_shocks\<close>); the worst scenario loss of option evidence is negated in Python's 28-digit
  context, so that a longer loss is reported rounded, possibly too small (\<open>worst_loss_rounding\<close>); a reversal that is
  itself reversed makes a fill stand again in the ledger while the equity projection leaves it out
  (\<open>projection_quantity_is_position\<close>).

  \<^bold>\<open>Not modelled.\<close>  SHA-256 itself and the digests of journal transactions; the SQLite journal and the durable books over it
  (\<open>persistence.py\<close>, \<open>durable_*.py\<close>); process-wide registries keyed by object identity; provider
  transports and adapters, credentials and the hosts (input and output); the checks of exact types in \<open>_validate_risk_decision_shape\<close>, which the
  types of the model state; \<open>authority.py\<close>, \<open>allocation.py\<close> and the simulation session; the option lifecycle and provider processes, futures, corporate actions and the journal booking of
  perpetual funding and margin; research, model calls, web and packaging.
\<close>

section \<open>From the journal to reserved capital\<close>

text \<open>The capital projection as the reservation book receives it.\<close>

definition capital_of :: "capital_projection \<Rightarrow> capital_evidence" where
  "capital_of cap = \<lparr>blocks_new_risk = Some (ca_blocks_new_risk cap), reservation_resources = Some (capital_resources cap)\<rparr>"

lemma reserved_within_available_cash:
  assumes "available_capital b scope currency as_of evidence required = Inr cap"
    and "reserve_from_capital rid intent rq (capital_of cap) rb = (Inr r, rb')" and "dict_get rb (strip rid) = None"
    and "(''CASH:'' @ ca_currency cap, x) \<in> set (rs_original r)"
  shows "\<not> ca_blocks_new_risk cap" and "reserved rb' (''CASH:'' @ ca_currency cap) \<le> dval (ca_available_cash cap)"
proof -
  have u: "strip (ca_currency cap) = ca_currency cap" "ca_currency cap \<noteq> []"
    using assms(1) by (rule available_capital_Inr, simp add: strip_upper)+
  have nonneg: "0 \<le> dval (ca_available_cash cap)"
    using assms(1) by (rule available_capital_Inr) simp
  from reserve_from_capital_Inr [OF assms(2)]
  have free: "\<not> ca_blocks_new_risk cap" and run: "reserve rid intent rq (capital_resources cap) rb = (Inr r, rb')"
    by (auto simp: capital_of_def)
  show "\<not> ca_blocks_new_risk cap" by (rule free)
  from reserve_admits_within_availability [OF run assms(3,4)] obtain k raw where
    k: "(k, raw) \<in> set (capital_resources cap)" "strip k = ''CASH:'' @ ca_currency cap"
    "reserved rb' (''CASH:'' @ ca_currency cap) \<le> pyval raw"
    by blast
  have "strip (''MARGIN_CREDIT:'' @ ca_currency cap) = ''MARGIN_CREDIT:'' @ ca_currency cap"
    by (rule strip_prefixed [OF u]) (simp_all add: is_space_def)
  then have "raw = PyDecimal (if dval (ca_available_cash cap) < 0 then dzero else ca_available_cash cap)"
    using k(1,2) by (auto simp: capital_resources_def)
  with k(3) nonneg show "reserved rb' (''CASH:'' @ ca_currency cap) \<le> dval (ca_available_cash cap)" by simp
qed

text \<open>(C2) Reserved cash is settled cash of the journal.  A settlement book is rebuilt from the journal, its
  available capital is projected, and a new reservation is granted from that projection.  Then everything
  the reservation book holds of the currency's cash, the new reservation included, is covered by the
  journal's cash balance less the receivables that have not settled, and no obligation in the
  currency is overdue: proceeds that are only owed never back an order.  The journal's cash postings are assumed
  to name their currency in upper case, as the settlement book looks it up.
\<close>

theorem reserved_cash_is_settled:
  assumes "from_economic_book book items evidence = Inr b" and "list_all proper items" and "canonical_cash book"
    and "available_capital b scope currency as_of credit required = Inr cap"
    and "cash book (ca_currency cap) = Inr held"
    and "reserve_from_capital rid intent rq (capital_of cap) rb = (Inr r, rb')" and "dict_get rb (strip rid) = None"
    and "(''CASH:'' @ ca_currency cap, x) \<in> set (rs_original r)"
  shows "reserved rb' (''CASH:'' @ ca_currency cap) \<le> max 0 (dval held - receivable_total b (ca_currency cap))
    \<and> ca_overdue cap = []"
proof -
  let ?u = "ca_currency cap"
  note within = reserved_within_available_cash [OF assms(4,6,7,8)]
  have u: "strip ?u = ?u" "?u \<noteq> []" and overdue: "ca_overdue cap = []"
    and spend: "dval (ca_available_cash cap) = max 0 (dval (cash_of b ?u) - payable_total b ?u)"
    using assms(4) by (rule available_capital_Inr, use within(1) in \<open>simp add: strip_upper\<close>)+
  have "dval held = posted (''CASH:'' @ ?u) ?u (book_postings book)"
    using assms(5) u account_strip(1) [OF u] by (auto simp: cash_def dest!: balance_Inr)
  then have "dval (cash_of b ?u) - payable_total b ?u = dval held - receivable_total b ?u"
    using from_economic_book_cash [OF assms(1-3), of ?u] pending_split [of b ?u] by simp
  with within(2) spend overdue show ?thesis by simp
qed

definition first_claim :: reservation where
  "first_claim = new_reservation ''r1'' ''i1'' [(''CASH:USD'', Decimal False 70 0)]"

theorem reserved_cash_is_settled_witness:
  "\<exists>cap. available_capital settlement_of_investment (rb_scope usd_rule) ''usd'' (Moment 1036800000000) None False = Inr cap
    \<and> reserve_from_capital ''r1'' ''i1'' [(''CASH:USD'', PyInt 70)] (capital_of cap) empty_reservation_book
       = (Inr first_claim, [(''r1'', first_claim)])
    \<and> reserved [(''r1'', first_claim)] ''CASH:USD'' \<le> max 0 (79 - receivable_total settlement_of_investment ''USD'')"
proof -
  obtain cap where cap: "available_capital settlement_of_investment (rb_scope usd_rule) ''usd''
    (Moment 1036800000000) None False = Inr cap" "ca_currency cap = ''USD''" "ca_blocks_new_risk cap = False"
    "capital_resources cap = [(''CASH:USD'', PyDecimal (Decimal False 79 0)), (''MARGIN_CREDIT:USD'', PyDecimal (Decimal False 0 0))]"
    using investment_capital by blast
  have "reserve_from_capital ''r1'' ''i1'' [(''CASH:USD'', PyInt 70)] \<lparr>blocks_new_risk = Some False, reservation_resources =
      Some [(''CASH:USD'', PyDecimal (Decimal False 79 0)), (''MARGIN_CREDIT:USD'', PyDecimal (Decimal False 0 0))]\<rparr>
      empty_reservation_book = (Inr first_claim, [(''r1'', first_claim)])"
    by code_simp
  then have run: "reserve_from_capital ''r1'' ''i1'' [(''CASH:USD'', PyInt 70)] (capital_of cap) empty_reservation_book
      = (Inr first_claim, [(''r1'', first_claim)])" using cap by (simp add: capital_of_def)
  have held: "cash invested_book ''USD'' = Inr (Decimal False 79 0)" "dval (Decimal False 79 0) = 79"
    "canonical_cash invested_book" by code_simp+
  have mem: "(''CASH:'' @ ca_currency cap, Decimal False 70 0) \<in> set (rs_original first_claim)"
    by (simp add: cap(2) first_claim_def new_reservation_def)
  show ?thesis
    using reserved_cash_is_settled [OF investment_settles _ held(3) cap(1) _ run _ mem] fill_obligation_proper held cap run
    by (intro exI [of _ cap]) (simp add: empty_reservation_book_def)
qed

end
